(* ===== verification/TerPrelude.thy ===== *)
theory TerPrelude
  imports Main "HOL-Library.Signed_Division" "HOL-Library.Word"
begin

text \<open>
  The prelude of the development: the error values of the C++ sources, the
  state-and-exception monad in which the simulator is written, machine-integer
  ranges and casts, saturation, and the two interfaces every component shares:
  \<open>bijective_codec\<close> (an encoder and a decoder that undo each other on named domains) and
  \<open>step_machine\<close> (a bounded loop over a step function).
\<close>

section \<open>Errors\<close>

text \<open>
  One constructor per way an operation of the sources stops: the C++ exceptions
  (\<open>std::out_of_range\<close>, \<open>std::length_error\<close>, \<open>ter::IllegalOpcode\<close>, \<open>std::runtime_error\<close>,
  \<open>ter::AssemblerError\<close>, \<open>std::invalid_argument\<close>), a failed \<open>assert\<close> (the default
  build type is Debug, so assertions abort), and signed integer overflow, which is
  undefined behaviour in C++ and is therefore modelled as a failure and never as a value; so is
  a division by zero.
\<close>

datatype ter_error =
    OutOfRange string
  | LengthError string
  | IllegalOpcode int
  | RuntimeError string
  | AssemblerError string
  | InvalidArgument string
  | AssertFailed string
  | SignedOverflow string
  | DivisionByZero string

type_synonym 'a res = "ter_error + 'a"

definition rbind :: "'a res \<Rightarrow> ('a \<Rightarrow> 'b res) \<Rightarrow> 'b res" where
  "rbind m f = (case m of Inl e \<Rightarrow> Inl e | Inr a \<Rightarrow> f a)"

lemma rbind_simps [simp]:
  "rbind (Inl e) f = Inl e"
  "rbind (Inr a) f = f a"
  by (simp_all add: rbind_def)

lemma rbind_eq_Inr [simp]: "rbind m f = Inr y \<longleftrightarrow> (\<exists>a. m = Inr a \<and> f a = Inr y)"
  by (cases m) simp_all

text \<open>A loop that stops at the first error, as a \<open>for\<close> loop whose body may throw.\<close>

fun rmap :: "('a \<Rightarrow> 'b res) \<Rightarrow> 'a list \<Rightarrow> 'b list res" where
  "rmap f [] = Inr []"
| "rmap f (x # xs) = rbind (f x) (\<lambda>y. rbind (rmap f xs) (\<lambda>ys. Inr (y # ys)))"

lemma rmap_length: "rmap f xs = Inr ys \<Longrightarrow> length ys = length xs"
  by (induction xs arbitrary: ys) auto

lemma rmap_nth: "rmap f xs = Inr ys \<Longrightarrow> k < length xs \<Longrightarrow> f (xs ! k) = Inr (ys ! k)"
  by (induction xs arbitrary: ys k) (auto simp: nth_Cons split: nat.splits)

lemma rmap_all: "(\<And>x. x \<in> set xs \<Longrightarrow> f x = Inr (g x)) \<Longrightarrow> rmap f xs = Inr (map g xs)"
  by (induction xs) auto

section \<open>State and exceptions\<close>

text \<open>
  A computation over a mutable object of type \<open>'s\<close> that may throw: the result and the
  object as the computation leaves it. An exception keeps the mutations made before the
  throw, as it does in C++.
\<close>

type_synonym ('s, 'a) sx = "'s \<Rightarrow> 'a res \<times> 's"

definition ret :: "'a \<Rightarrow> ('s, 'a) sx" where
  "ret a s = (Inr a, s)"

definition throw :: "ter_error \<Rightarrow> ('s, 'a) sx" where
  "throw e s = (Inl e, s)"

definition sbind :: "('s, 'a) sx \<Rightarrow> ('a \<Rightarrow> ('s, 'b) sx) \<Rightarrow> ('s, 'b) sx" where
  "sbind m f s = (case m s of (Inl e, t) \<Rightarrow> (Inl e, t) | (Inr a, t) \<Rightarrow> f a t)"

definition lift :: "'a res \<Rightarrow> ('s, 'a) sx" where
  "lift r s = (r, s)"

definition modify :: "('s \<Rightarrow> 's) \<Rightarrow> ('s, unit) sx" where
  "modify f s = (Inr (), f s)"

named_theorems sx_simps \<open>evaluation of the state-and-exception monad\<close>

lemma ret_run [sx_simps]: "ret a s = (Inr a, s)"
  and throw_run [sx_simps]: "throw e s = (Inl e, s)"
  and lift_run [sx_simps]: "lift r s = (r, s)"
  and modify_run [sx_simps]: "modify f s = (Inr (), f s)"
  by (simp_all add: ret_def throw_def lift_def modify_def)

lemma sbind_Inr [sx_simps]: "m s = (Inr a, t) \<Longrightarrow> sbind m f s = f a t"
  and sbind_Inl [sx_simps]: "m s = (Inl e, t) \<Longrightarrow> sbind m f s = (Inl e, t)"
  by (simp_all add: sbind_def)

lemma sbind_lift [simp]:
  "sbind (lift (Inr a)) f = f a"
  "sbind (ret a) f = f a"
  "sbind (throw e) f = throw e"
  "sbind (lift (Inl e)) f = throw e"
  by (rule ext; simp add: sbind_def lift_def ret_def throw_def)+

text \<open>
  Hoare-style reasoning: \<open>keeps P m\<close> says that every run of \<open>m\<close> from a state
  with \<open>P\<close> leaves \<open>P\<close>, on the normal exit and on a throw alike.
\<close>

definition keeps :: "('s \<Rightarrow> bool) \<Rightarrow> ('s, 'a) sx \<Rightarrow> bool" where
  "keeps P m \<longleftrightarrow> (\<forall>s. P s \<longrightarrow> P (snd (m s)))"

named_theorems keeps_intros \<open>rules for invariant preservation of a computation\<close>

lemma keeps_ret [keeps_intros]: "keeps P (ret a)"
  and keeps_throw [keeps_intros]: "keeps P (throw e)"
  and keeps_lift [keeps_intros]: "keeps P (lift r)"
  by (simp_all add: keeps_def ret_def throw_def lift_def)

lemma keeps_modify: "(\<And>s. P s \<Longrightarrow> P (f s)) \<Longrightarrow> keeps P (modify f)"
  by (simp add: keeps_def modify_def)

lemma keepsD: "keeps P m \<Longrightarrow> P s \<Longrightarrow> m s = (r, t) \<Longrightarrow> P t"
  by (auto simp: keeps_def dest: spec [of _ s])

lemma keeps_sbind_dep:
  assumes "keeps P m" and "\<And>s a t. P s \<Longrightarrow> m s = (Inr a, t) \<Longrightarrow> keeps P (f a)"
  shows "keeps P (sbind m f)"
  unfolding keeps_def sbind_def
proof (intro allI impI)
  fix s assume P: "P s"
  obtain r t where m: "m s = (r, t)" by (cases "m s")
  have t: "P t" using keepsD [OF assms(1) P m] .
  show "P (snd (case m s of (Inl e, t) \<Rightarrow> (Inl e, t) | (Inr a, t) \<Rightarrow> f a t))"
  proof (cases r)
    case (Inl e)
    then show ?thesis using m t by simp
  next
    case (Inr a)
    then have "keeps P (f a)" using assms(2) [OF P] m by simp
    then show ?thesis using m Inr t by (simp add: keeps_def)
  qed
qed

lemma keeps_sbind [keeps_intros]:
  "keeps P m \<Longrightarrow> (\<And>a. keeps P (f a)) \<Longrightarrow> keeps P (sbind m f)"
  by (rule keeps_sbind_dep)

text \<open>A \<open>for\<close> loop over the elements of a list whose body works on the object and may throw.\<close>

fun sfor :: "('a \<Rightarrow> ('s, unit) sx) \<Rightarrow> 'a list \<Rightarrow> ('s, unit) sx" where
  "sfor body [] = ret ()"
| "sfor body (x # xs) = sbind (body x) (\<lambda>_. sfor body xs)"

lemma sfor_Cons_run: "body x s = (Inr (), t) \<Longrightarrow> sfor body (x # xs) s = sfor body xs t"
  by (simp add: sbind_def)

lemma keeps_sfor [keeps_intros]: "(\<And>x. keeps P (body x)) \<Longrightarrow> keeps P (sfor body xs)"
  by (induction xs) (simp_all add: keeps_intros)

text \<open>The same with a local variable that the body updates.\<close>

fun sfold :: "('b \<Rightarrow> 'a \<Rightarrow> ('s, 'b) sx) \<Rightarrow> 'b \<Rightarrow> 'a list \<Rightarrow> ('s, 'b) sx" where
  "sfold body acc [] = ret acc"
| "sfold body acc (x # xs) = sbind (body acc x) (\<lambda>acc'. sfold body acc' xs)"

lemma keeps_sfold [keeps_intros]: "(\<And>b x. keeps P (body b x)) \<Longrightarrow> keeps P (sfold body acc xs)"
  by (induction xs arbitrary: acc) (simp_all add: keeps_intros)

section \<open>Machine integers\<close>

text \<open>
  Signed integers are kept as \<open>int\<close> with the range of their C++ type named, so that a
  value that would leave the range is visible; casts between widths are the modular
  conversions of the compilers the project supports.
\<close>

definition in_i32 :: "int \<Rightarrow> bool" where
  "in_i32 v \<longleftrightarrow> - (2 ^ 31) \<le> v \<and> v < 2 ^ 31"

definition in_i64 :: "int \<Rightarrow> bool" where
  "in_i64 v \<longleftrightarrow> - (2 ^ 63) \<le> v \<and> v < 2 ^ 63"

definition to_i32 :: "int \<Rightarrow> int" where
  "to_i32 v = (v + 2 ^ 31) mod 2 ^ 32 - 2 ^ 31"

definition to_i64 :: "int \<Rightarrow> int" where
  "to_i64 v = (v + 2 ^ 63) mod 2 ^ 64 - 2 ^ 63"

definition to_size :: "int \<Rightarrow> nat" where
  "to_size v = nat (v mod 2 ^ 64)"

definition u64 :: "nat \<Rightarrow> nat" where
  "u64 n = n mod 2 ^ 64"

definition add_i64 :: "int \<Rightarrow> int \<Rightarrow> int res" where
  "add_i64 a b = (if in_i64 (a + b) then Inr (a + b) else Inl (SignedOverflow ''int64 +''))"

lemma in_i32_to_i32 [simp]: "in_i32 (to_i32 v)"
  by (auto simp: in_i32_def to_i32_def)

lemma to_i32_id: "in_i32 v \<Longrightarrow> to_i32 v = v"
  by (auto simp: in_i32_def to_i32_def)

lemma to_i64_id: "in_i64 v \<Longrightarrow> to_i64 v = v"
  by (auto simp: in_i64_def to_i64_def)

lemma to_size_id: "0 \<le> v \<Longrightarrow> v < 2 ^ 64 \<Longrightarrow> to_size v = nat v"
  by (simp add: to_size_def)

lemma to_size_of_nat: "n < 2 ^ 64 \<Longrightarrow> to_size (int n) = n"
  by (simp add: to_size_def nat_mod_distrib)

lemma to_size_neg: "v < 0 \<Longrightarrow> - (2 ^ 63) \<le> v \<Longrightarrow> 2 ^ 63 \<le> to_size v"
proof -
  assume v: "v < 0" "- (2 ^ 63) \<le> v"
  have "v mod 2 ^ 64 = (v + 2 ^ 64) mod 2 ^ 64" by simp
  also have "\<dots> = v + 2 ^ 64" using v by (intro mod_pos_pos_trivial) auto
  finally have "v mod 2 ^ 64 = v + 2 ^ 64" .
  then show ?thesis using v by (simp add: to_size_def)
qed

lemma u64_id [simp]: "n < 2 ^ 64 \<Longrightarrow> u64 n = n"
  by (simp add: u64_def)

definition clamp :: "int \<Rightarrow> int \<Rightarrow> int \<Rightarrow> int" where
  "clamp lo hi v = (if v < lo then lo else if v > hi then hi else v)"

lemma clamp_bounds: "lo \<le> hi \<Longrightarrow> lo \<le> clamp lo hi v \<and> clamp lo hi v \<le> hi"
  by (simp add: clamp_def)

lemma clamp_id: "lo \<le> v \<Longrightarrow> v \<le> hi \<Longrightarrow> clamp lo hi v = v"
  by (simp add: clamp_def)

section \<open>Arrays filled by an index loop\<close>

text \<open>\<open>for (i = 0; i < n; ++i) r[i] = f(i);\<close> over an array \<open>xs\<close> with at least \<open>n\<close> cells.\<close>

definition fill :: "nat \<Rightarrow> (nat \<Rightarrow> 'a) \<Rightarrow> 'a list \<Rightarrow> 'a list" where
  "fill n f xs = foldl (\<lambda>r i. r[i := f i]) xs [0..<n]"

lemma fill_eq: "n \<le> length xs \<Longrightarrow> fill n f xs = map f [0..<n] @ drop n xs"
proof (induction n)
  case (Suc n)
  then have "fill (Suc n) f xs = (map f [0..<n] @ drop n xs)[n := f n]"
    by (simp add: fill_def)
  also have "drop n xs = xs ! n # drop (Suc n) xs"
    using Suc.prems by (simp add: Cons_nth_drop_Suc)
  also have "(map f [0..<n] @ xs ! n # drop (Suc n) xs)[n := f n]
      = map f [0..<n] @ f n # drop (Suc n) xs"
    by (simp add: list_update_append)
  finally show ?case by simp
qed (simp add: fill_def)

lemma fill_all: "length xs = n \<Longrightarrow> fill n f xs = map f [0..<n]"
  by (simp add: fill_eq)

lemma list_all_update: "list_all P xs \<Longrightarrow> P x \<Longrightarrow> list_all P (xs[i := x])"
  using set_update_subset_insert [of xs i x] by (auto simp: list_all_iff)

section \<open>Interfaces\<close>

text \<open>
  A bijective codec: on values with \<open>ok\<close> the encoder lands in the well-formed codes
  \<open>wf\<close> and the decoder undoes it, and every well-formed code comes from a value. The
  trit words, the packed memory words and the instruction words are all used by the
  sources through such a pair of functions; what their clients need from the pair is
  proved here once.
\<close>

locale bijective_codec =
  fixes enc :: "'a \<Rightarrow> 'w" and dec :: "'w \<Rightarrow> 'a"
    and ok :: "'a \<Rightarrow> bool" and wf :: "'w \<Rightarrow> bool"
  assumes enc_wf: "ok v \<Longrightarrow> wf (enc v)"
    and dec_enc: "ok v \<Longrightarrow> dec (enc v) = v"
    and dec_ok: "wf w \<Longrightarrow> ok (dec w)"
    and enc_dec: "wf w \<Longrightarrow> enc (dec w) = w"
begin

lemma enc_inject: "ok u \<Longrightarrow> ok v \<Longrightarrow> enc u = enc v \<longleftrightarrow> u = v"
  by (metis dec_enc)

lemma dec_inject: "wf u \<Longrightarrow> wf w \<Longrightarrow> dec u = dec w \<longleftrightarrow> u = w"
  by (metis enc_dec)

lemma enc_eq_iff: "ok v \<Longrightarrow> wf w \<Longrightarrow> enc v = w \<longleftrightarrow> dec w = v"
  by (metis enc_dec dec_enc)

lemma map_dec_enc: "list_all ok vs \<Longrightarrow> map dec (map enc vs) = vs"
  by (induction vs) (auto simp: dec_enc)

lemma map_enc_dec: "list_all wf ws \<Longrightarrow> map enc (map dec ws) = ws"
  by (induction ws) (auto simp: enc_dec)

lemma bij: "bij_betw enc {v. ok v} {w. wf w}"
  by (rule bij_betw_byWitness [where f' = dec]) (auto simp: dec_enc enc_dec enc_wf dec_ok)

end

text \<open>
  A machine that is stepped until it halts or a bound on the number of steps is spent:
  \<open>Sim::run\<close> is this loop over \<open>Sim::step\<close>. The fuel is the bound of the source, so
  running out of it is a behaviour of the program and not an artefact of the model.
\<close>

fun run_loop :: "('s \<Rightarrow> bool) \<Rightarrow> ('s, unit) sx \<Rightarrow> nat \<Rightarrow> ('s, unit) sx" where
  "run_loop stop stp 0 s = (Inr (), s)"
| "run_loop stop stp (Suc n) s =
     (if stop s then (Inr (), s) else sbind stp (\<lambda>_. run_loop stop stp n) s)"

lemma run_loop_stopped: "stop s \<Longrightarrow> run_loop stop stp n s = (Inr (), s)"
  by (cases n) simp_all

lemma run_loop_step:
  "\<not> stop s \<Longrightarrow> stp s = (Inr (), t) \<Longrightarrow> 0 < n \<Longrightarrow>
   run_loop stop stp n s = run_loop stop stp (n - 1) t"
  by (cases n) (simp_all add: sbind_def)

locale step_machine =
  fixes stop :: "'s \<Rightarrow> bool" and stp :: "('s, unit) sx" and good :: "'s \<Rightarrow> bool"
  assumes stp_good: "keeps good stp"
begin

lemma run_loop_good: "keeps good (run_loop stop stp n)"
proof (induction n)
  case 0
  show ?case by (simp add: keeps_def)
next
  case (Suc n)
  have "keeps good (sbind stp (\<lambda>_. run_loop stop stp n))"
    by (intro keeps_sbind stp_good Suc)
  then show ?case by (simp add: keeps_def)
qed

lemma run_loop_more_fuel:
  assumes "run_loop stop stp n s = (Inr (), t)" and "stop t" and "n \<le> m"
  shows "run_loop stop stp m s = (Inr (), t)"
  using assms
proof (induction n arbitrary: s m)
  case 0
  then show ?case by (simp add: run_loop_stopped)
next
  case (Suc n)
  show ?case
  proof (cases "stop s")
    case True
    then show ?thesis using Suc.prems(1) by (simp add: run_loop_stopped)
  next
    case False
    from Suc.prems(3) obtain k where m: "m = Suc k" and "n \<le> k" by (cases m) auto
    obtain r u where su: "stp s = (r, u)" by (cases "stp s")
    from Suc.prems(1) False su obtain "r = Inr ()" "run_loop stop stp n u = (Inr (), t)"
      by (cases r) (auto simp: sbind_def)
    then show ?thesis
      using Suc.IH [OF _ Suc.prems(2) \<open>n \<le> k\<close>] False su by (simp add: m sbind_def)
  qed
qed

lemma run_loop_error_more_fuel:
  assumes "run_loop stop stp n s = (Inl e, t)" and "n \<le> m"
  shows "run_loop stop stp m s = (Inl e, t)"
  using assms
proof (induction n arbitrary: s m)
  case 0
  then show ?case by simp
next
  case (Suc n)
  from Suc.prems(2) obtain k where m: "m = Suc k" and "n \<le> k" by (cases m) auto
  obtain r u where su: "stp s = (r, u)" by (cases "stp s")
  from Suc.prems(1) have "\<not> stop s" by (auto split: if_splits)
  then show ?case
    using Suc.prems(1) Suc.IH [OF _ \<open>n \<le> k\<close>] su by (cases r) (auto simp: m sbind_def)
qed

lemma run_loop_add:
  assumes "run_loop stop stp n s = (Inr (), t)"
  shows "run_loop stop stp (n + m) s = run_loop stop stp m t"
  using assms
proof (induction n arbitrary: s)
  case 0
  then show ?case by simp
next
  case (Suc n)
  obtain r u where su: "stp s = (r, u)" by (cases "stp s")
  show ?case
    using Suc su by (cases r) (auto simp: sbind_def run_loop_stopped split: if_splits)
qed

end

end
