(* ===== verification/TerTrit.thy ===== *)
theory TerTrit
  imports TerPrelude
begin

text \<open>
  Trits and trit vectors: \<open>include/ter/trit.hpp\<close>, \<open>tryte.hpp\<close>, and the digit loops that
  \<open>word.cpp\<close>, \<open>encode.cpp\<close> and \<open>decode.cpp\<close> share. A trit vector is a list, least
  significant trit first. The section on balanced digits proves that the digit loops are
  inverse to each other and that the ripple-carry adder is addition modulo \<open>3 ^ n\<close> in
  the balanced residue system.
\<close>

section \<open>Trit\<close>

text \<open>\<open>class Trit\<close> keeps an \<open>int8_t\<close> that its constructors confine to -1, 0 and 1.\<close>

datatype trit = T_NEG | T_ZERO | T_POS

fun trit_value :: "trit \<Rightarrow> int" where
  "trit_value T_NEG = - 1"
| "trit_value T_ZERO = 0"
| "trit_value T_POS = 1"

definition mk_trit :: "int \<Rightarrow> trit" where
  "mk_trit v = (if v < 0 then T_NEG else if v > 0 then T_POS else T_ZERO)"

definition trit_is_zero :: "trit \<Rightarrow> bool" where
  "trit_is_zero t \<longleftrightarrow> trit_value t = 0"

definition trit_neg :: "trit \<Rightarrow> trit" where
  "trit_neg t = mk_trit (- trit_value t)"

record TritAdd =
  ta_sum :: trit
  ta_carry :: trit

definition trit_add :: "trit \<Rightarrow> trit \<Rightarrow> TritAdd" where
  "trit_add a b =
     (let s = trit_value a + trit_value b;
          (sum, carry) = (if s \<ge> 2 then (s - 3, 1) else if s \<le> - 2 then (s + 3, - 1) else (s, 0))
      in \<lparr>ta_sum = mk_trit sum, ta_carry = mk_trit carry\<rparr>)"

definition trit_full_add :: "trit \<Rightarrow> trit \<Rightarrow> trit \<Rightarrow> TritAdd" where
  "trit_full_add a b c =
     (let s = trit_value a + trit_value b + trit_value c;
          (sum, carry) = (if s \<ge> 2 then (s - 3, 1) else if s \<le> - 2 then (s + 3, - 1) else (s, 0))
      in \<lparr>ta_sum = mk_trit sum, ta_carry = mk_trit carry\<rparr>)"

definition trit_max :: "trit \<Rightarrow> trit \<Rightarrow> trit" where
  "trit_max a b = (if trit_value a > trit_value b then a else b)"

definition trit_min :: "trit \<Rightarrow> trit \<Rightarrow> trit" where
  "trit_min a b = (if trit_value a < trit_value b then a else b)"

lemma trit_value_inject [simp]: "trit_value a = trit_value b \<longleftrightarrow> a = b"
  by (cases a; cases b) simp_all

lemma trit_value_range: "trit_value t \<in> {- 1, 0, 1}"
  by (cases t) simp_all

lemma trit_value_bounds: "- 1 \<le> trit_value t" "trit_value t \<le> 1"
  by (cases t; simp)+

lemma trit_value_mk_trit: "v \<in> {- 1, 0, 1} \<Longrightarrow> trit_value (mk_trit v) = v"
  by (auto simp: mk_trit_def)

lemma mk_trit_trit_value [simp]: "mk_trit (trit_value t) = t"
  by (cases t) (simp_all add: mk_trit_def)

lemma trit_neg_simps [simp]:
  "trit_neg T_NEG = T_POS" "trit_neg T_ZERO = T_ZERO" "trit_neg T_POS = T_NEG"
  by (simp_all add: trit_neg_def mk_trit_def)

lemma trit_value_neg [simp]: "trit_value (trit_neg t) = - trit_value t"
  by (cases t) simp_all

lemma trit_is_zero_iff [simp]: "trit_is_zero t \<longleftrightarrow> t = T_ZERO"
  by (cases t) (simp_all add: trit_is_zero_def)

text \<open>The order of the values makes \<open>trit\<close> a linear order, with the source's maximum and minimum.\<close>

instantiation trit :: linorder
begin

definition less_eq_trit :: "trit \<Rightarrow> trit \<Rightarrow> bool" where
  "less_eq_trit a b \<longleftrightarrow> trit_value a \<le> trit_value b"

definition less_trit :: "trit \<Rightarrow> trit \<Rightarrow> bool" where
  "less_trit a b \<longleftrightarrow> trit_value a < trit_value b"

instance
  by standard (auto simp: less_eq_trit_def less_trit_def)

end

lemma trit_max_eq: "trit_max a b = max a b"
  and trit_min_eq: "trit_min a b = min a b"
  by (cases a; cases b; simp add: trit_max_def trit_min_def max_def min_def less_eq_trit_def)+

lemma trit_full_add_value:
  "trit_value (ta_sum (trit_full_add a b c)) + 3 * trit_value (ta_carry (trit_full_add a b c))
   = trit_value a + trit_value b + trit_value c"
  by (cases a; cases b; cases c) (simp_all add: trit_full_add_def mk_trit_def)

lemma trit_add_is_full_add: "trit_add a b = trit_full_add a b T_ZERO"
  by (simp add: trit_add_def trit_full_add_def)

section \<open>Balanced digits\<close>

text \<open>
  The digit of \<open>from_int\<close>: \<open>r = ((v % 3) + 3) % 3; digit = r == 2 ? -1 : r\<close>, where \<open>%\<close>
  truncates towards zero.
\<close>

definition bal_digit :: "int \<Rightarrow> int" where
  "bal_digit v = (let r = ((v smod 3) + 3) smod 3 in if r = 2 then - 1 else r)"

text \<open>The loop that fills \<open>n\<close> trits from the least significant one.\<close>

fun digits_of :: "nat \<Rightarrow> int \<Rightarrow> trit list" where
  "digits_of 0 v = []"
| "digits_of (Suc n) v = mk_trit (bal_digit v) # digits_of n ((v - bal_digit v) sdiv 3)"

text \<open>The loop that reads them back with the running place value.\<close>

fun value_loop :: "trit list \<Rightarrow> int \<Rightarrow> int \<Rightarrow> int" where
  "value_loop [] acc place = acc"
| "value_loop (t # ts) acc place = value_loop ts (acc + trit_value t * place) (place * 3)"

definition trits_value :: "trit list \<Rightarrow> int" where
  "trits_value ts = value_loop ts 0 1"

lemma value_loop_affine: "value_loop ts acc place = acc + place * value_loop ts 0 1"
proof (induction ts arbitrary: acc place)
  case (Cons t ts)
  show ?case
    using Cons [of "acc + trit_value t * place" "place * 3"] Cons [of "trit_value t" 3]
    by (simp add: algebra_simps)
qed simp

lemma trits_value_Nil [simp]: "trits_value [] = 0"
  by (simp add: trits_value_def)

lemma trits_value_Cons [simp]: "trits_value (t # ts) = trit_value t + 3 * trits_value ts"
  using value_loop_affine [of ts "trit_value t" 3] by (simp add: trits_value_def)

lemma trits_value_append: "trits_value (xs @ ys) = trits_value xs + 3 ^ length xs * trits_value ys"
  by (induction xs) (simp_all add: algebra_simps)

lemma trits_value_replicate_zero [simp]: "trits_value (replicate n T_ZERO) = 0"
  by (induction n) simp_all

lemma bal_digit_eq: "bal_digit v = (v + 1) mod 3 - 1"
proof -
  have c: "v smod 3 = (if v < 0 then - ((- v) mod 3) else v mod 3)"
    using smod_int_alt_def [of v 3] by (auto simp: sgn_if)
  have d: "0 \<le> x \<Longrightarrow> x smod 3 = x mod 3" for x :: int
    using smod_int_alt_def [of x 3] by (auto simp: sgn_if)
  have "((v smod 3) + 3) smod 3 = v mod 3"
  proof (cases "v < 0")
    case True
    then have "0 \<le> v smod 3 + 3" using c by simp
    then show ?thesis using c True d by simp presburger
  next
    case False
    then have "0 \<le> v smod 3 + 3" using c by simp
    then show ?thesis using c False d by simp
  qed
  then show ?thesis unfolding bal_digit_def Let_def by simp presburger
qed

lemma bal_digit_range: "bal_digit v \<in> {- 1, 0, 1}"
  unfolding bal_digit_eq by simp presburger

lemma sdiv3_exact: "3 dvd w \<Longrightarrow> (w :: int) sdiv 3 = w div 3"
  by (auto simp: signed_divide_int_def sgn_if div_minus_minus elim!: dvdE)

lemma bal_digit_quotient: "(v - bal_digit v) sdiv 3 = (v + 1) div 3"
proof -
  have "v - bal_digit v = 3 * ((v + 1) div 3)" unfolding bal_digit_eq by presburger
  then show ?thesis by (simp add: sdiv3_exact)
qed

lemma digits_of_Suc_eq:
  "digits_of (Suc n) v = mk_trit (bal_digit v) # digits_of n ((v + 1) div 3)"
  by (simp add: bal_digit_quotient)

declare digits_of.simps(2) [simp del]

lemma length_digits_of [simp]: "length (digits_of n v) = n"
  by (induction n arbitrary: v) (simp_all add: digits_of_Suc_eq)

text \<open>
  The range of \<open>n\<close> balanced trits, and the representative of a number modulo \<open>3 ^ n\<close>
  in it.
\<close>

definition max_trits :: "nat \<Rightarrow> int" where
  "max_trits n = (3 ^ n - 1) div 2"

definition fits :: "nat \<Rightarrow> int \<Rightarrow> bool" where
  "fits n v \<longleftrightarrow> - max_trits n \<le> v \<and> v \<le> max_trits n"

definition balmod :: "nat \<Rightarrow> int \<Rightarrow> int" where
  "balmod n v = (v + max_trits n) mod 3 ^ n - max_trits n"

lemma two_max_trits: "2 * max_trits n = 3 ^ n - 1"
proof -
  have "even (3 ^ n - 1 :: int)" by simp
  then show ?thesis by (simp add: max_trits_def)
qed

lemma max_trits_0 [simp]: "max_trits 0 = 0"
  by (simp add: max_trits_def)

lemma max_trits_Suc: "max_trits (Suc n) = 3 * max_trits n + 1"
  using two_max_trits [of n] two_max_trits [of "Suc n"] by simp

lemma max_trits_nonneg [simp]: "0 \<le> max_trits n"
  by (simp add: max_trits_def)

lemma fits_iff: "fits n v \<longleftrightarrow> 2 * \<bar>v\<bar> < 3 ^ n"
  using two_max_trits [of n] by (auto simp: fits_def)

lemma fits_balmod [simp]: "fits n (balmod n v)"
proof -
  have "0 \<le> (v + max_trits n) mod 3 ^ n" "(v + max_trits n) mod 3 ^ n < 3 ^ n" by simp_all
  then show ?thesis using two_max_trits [of n] by (auto simp: fits_def balmod_def)
qed

lemma balmod_id: "fits n v \<Longrightarrow> balmod n v = v"
  using two_max_trits [of n] by (auto simp: fits_def balmod_def mod_pos_pos_trivial)

lemma balmod_mod: "balmod n v mod 3 ^ n = v mod 3 ^ n"
  by (simp add: balmod_def mod_simps)

lemma balmod_cong: "u mod 3 ^ n = v mod 3 ^ n \<Longrightarrow> balmod n u = balmod n v"
  unfolding balmod_def by (metis mod_add_left_eq)

lemma balmod_add_mult [simp]: "balmod n (v + 3 ^ n * k) = balmod n v"
  by (rule balmod_cong) simp

lemma trits_value_fits: "fits (length ts) (trits_value ts)"
proof (induction ts)
  case (Cons t ts)
  then show ?case using trit_value_bounds [of t] by (simp add: fits_def max_trits_Suc)
qed (simp add: fits_def)

lemma balmod_Suc: "balmod (Suc n) v = bal_digit v + 3 * balmod n ((v + 1) div 3)"
proof -
  have "3 * ((v + 1) div 3) + bal_digit v = v"
    unfolding bal_digit_eq by presburger
  then have v: "v = bal_digit v + 3 * ((v + 1) div 3)" by simp
  let ?q = "(v + 1) div 3"
  have "bal_digit v + 3 * balmod n ?q = v + 3 ^ Suc n * (- ((?q + max_trits n) div 3 ^ n))"
    using v by (simp add: balmod_def minus_div_mult_eq_mod [symmetric] algebra_simps)
  moreover have "fits (Suc n) (bal_digit v + 3 * balmod n ?q)"
    using fits_balmod [of n ?q] bal_digit_range [of v] by (auto simp: fits_def max_trits_Suc)
  ultimately show ?thesis
    by (metis balmod_add_mult balmod_id)
qed

theorem trits_value_digits_of: "trits_value (digits_of n v) = balmod n v"
proof (induction n arbitrary: v)
  case 0
  show ?case by (simp add: balmod_def)
next
  case (Suc n)
  show ?case
    using Suc [of "(v + 1) div 3"] trit_value_mk_trit [OF bal_digit_range [of v]]
    by (simp add: digits_of_Suc_eq balmod_Suc)
qed

lemma trits_value_digits_of_fits: "fits n v \<Longrightarrow> trits_value (digits_of n v) = v"
  by (simp add: trits_value_digits_of balmod_id)

theorem digits_of_trits_value: "digits_of (length ts) (trits_value ts) = ts"
proof (induction ts)
  case (Cons t ts)
  have "bal_digit (trit_value t + 3 * trits_value ts) = trit_value t"
    using trit_value_bounds [of t] unfolding bal_digit_eq by presburger
  moreover have "(trit_value t + 3 * trits_value ts + 1) div 3 = trits_value ts"
    using trit_value_bounds [of t] by presburger
  ultimately show ?case using Cons by (simp add: digits_of_Suc_eq)
qed simp

text \<open>So the digit loops form a codec between the numbers of \<open>n\<close> trits and the vectors of length \<open>n\<close>.\<close>

interpretation digits: bijective_codec "digits_of n" trits_value "fits n" "\<lambda>ts. length ts = n" for n
  by unfold_locales
    (use trits_value_fits digits_of_trits_value in \<open>auto simp: trits_value_digits_of_fits\<close>)

lemma trits_value_inject: "length xs = length ys \<Longrightarrow> trits_value xs = trits_value ys \<longleftrightarrow> xs = ys"
  by (metis digits.dec_inject)

text \<open>Per-trit negation and the ripple-carry adder of \<open>Word27\<close> and \<open>Word54\<close>.\<close>

fun add_carry :: "trit list \<Rightarrow> trit list \<Rightarrow> trit \<Rightarrow> trit list" where
  "add_carry (a # as) (b # bs) c =
     (let rr = trit_full_add a b c in ta_sum rr # add_carry as bs (ta_carry rr))"
| "add_carry as bs c = []"

lemma length_add_carry: "length as = length bs \<Longrightarrow> length (add_carry as bs c) = length as"
  by (induction as bs c rule: add_carry.induct) (simp_all add: Let_def)

lemma trits_value_neg [simp]: "trits_value (map trit_neg ts) = - trits_value ts"
  by (induction ts) simp_all

lemma add_carry_value_mod:
  "length as = length bs \<Longrightarrow>
   \<exists>k. trits_value (add_carry as bs c) = trits_value as + trits_value bs + trit_value c
       + 3 ^ length as * k"
proof (induction as bs arbitrary: c rule: list_induct2)
  case Nil
  show ?case by (intro exI [of _ "- trit_value c"]) simp
next
  case (Cons a as b bs)
  let ?rr = "trit_full_add a b c"
  from Cons.IH obtain k where
    "trits_value (add_carry as bs (ta_carry ?rr))
     = trits_value as + trits_value bs + trit_value (ta_carry ?rr) + 3 ^ length as * k"
    by auto
  then show ?case using trit_full_add_value [of a b c]
    by (intro exI [of _ k]) (simp add: Let_def algebra_simps)
qed

theorem add_carry_value:
  assumes "length as = n" and "length bs = n"
  shows "trits_value (add_carry as bs c) = balmod n (trits_value as + trits_value bs + trit_value c)"
proof -
  obtain k where k: "trits_value (add_carry as bs c)
      = trits_value as + trits_value bs + trit_value c + 3 ^ n * k"
    using add_carry_value_mod [of as bs c] assms by auto
  have "fits n (trits_value (add_carry as bs c))"
    using trits_value_fits [of "add_carry as bs c"] length_add_carry [of as bs c] assms by simp
  then have "trits_value (add_carry as bs c) = balmod n (trits_value (add_carry as bs c))"
    by (simp add: balmod_id)
  then show ?thesis by (simp add: k)
qed

section \<open>Tryte\<close>

type_synonym tryte = "trit list"

definition tryte_min_int :: int where "tryte_min_int = - 13"

definition tryte_max_int :: int where "tryte_max_int = 13"

definition tryte_from_int :: "int \<Rightarrow> tryte res" where
  "tryte_from_int v =
     (if v \<ge> tryte_min_int \<and> v \<le> tryte_max_int then Inr (digits_of 3 v)
      else Inl (AssertFailed ''Tryte::from_int''))"

definition tryte_to_int :: "tryte \<Rightarrow> int" where
  "tryte_to_int t = trits_value t"

definition tryte_neg :: "tryte \<Rightarrow> tryte" where
  "tryte_neg t = map trit_neg t"

lemma fits_3: "fits 3 v \<longleftrightarrow> - 13 \<le> v \<and> v \<le> 13"
  by (simp add: fits_def max_trits_def)

lemma tryte_from_int_Inr: "tryte_from_int v = Inr t \<longleftrightarrow> fits 3 v \<and> t = digits_of 3 v"
  by (auto simp: tryte_from_int_def fits_3 tryte_min_int_def tryte_max_int_def)

lemma tryte_neg_value: "tryte_to_int (tryte_neg t) = - tryte_to_int t"
  by (simp add: tryte_to_int_def tryte_neg_def)

end
