(* ===== verification/TerWord.thy ===== *)
theory TerWord
  imports TerTrit
begin

unbundle bit_operations_syntax

text \<open>
  Ternary words: \<open>include/ter/word.hpp\<close> and \<open>src/core/word.cpp\<close> (\<open>Word27\<close>, \<open>Word54\<close>,
  the multiplier), and their packed form, \<open>pack.hpp\<close> and \<open>src/core/pack.cpp\<close>. A
  \<open>Word27\<close> is the list of its 27 trits. The lemmas show that the conversions are a
  bijection with the integers of the range, that the operators are arithmetic modulo
  \<open>3 ^ 27\<close> and \<open>3 ^ 54\<close>, that the multiplier is exact, and that packing loses nothing.
\<close>

section \<open>Word27\<close>

type_synonym word27 = "trit list"

definition wf27 :: "word27 \<Rightarrow> bool" where
  "wf27 w \<longleftrightarrow> length w = 27"

definition word27_zero :: word27 where
  "word27_zero = replicate 27 T_ZERO"

definition word27_max_int :: int where
  "word27_max_int = (3 ^ 27 - 1) div 2"

definition word27_min_int :: int where
  "word27_min_int = - word27_max_int"

definition word27_from_int :: "int \<Rightarrow> word27 res" where
  "word27_from_int v =
     (if v \<ge> word27_min_int \<and> v \<le> word27_max_int then Inr (digits_of 27 v)
      else Inl (AssertFailed ''Word27::from_int''))"

definition word27_to_int :: "word27 \<Rightarrow> int" where
  "word27_to_int w = trits_value w"

definition word27_neg :: "word27 \<Rightarrow> word27" where
  "word27_neg w = map trit_neg w"

definition word27_add :: "word27 \<Rightarrow> word27 \<Rightarrow> word27" where
  "word27_add a b = add_carry a b T_ZERO"

definition word27_sub :: "word27 \<Rightarrow> word27 \<Rightarrow> word27" where
  "word27_sub a b = word27_add a (word27_neg b)"

text \<open>The scan of \<open>sign_trit\<close> from trit 26 down to trit 0.\<close>

fun first_nonzero :: "trit list \<Rightarrow> trit" where
  "first_nonzero [] = T_ZERO"
| "first_nonzero (t # ts) = (if \<not> trit_is_zero t then t else first_nonzero ts)"

definition sign_trit :: "word27 \<Rightarrow> trit" where
  "sign_trit w = first_nonzero (rev w)"

lemma wf27_zero [simp]: "wf27 word27_zero"
  by (simp add: wf27_def word27_zero_def)

lemma wf27_digits [simp]: "wf27 (digits_of 27 v)"
  by (simp add: wf27_def)

lemma wf27_neg [simp]: "wf27 (word27_neg w) \<longleftrightarrow> wf27 w"
  by (simp add: wf27_def word27_neg_def)

lemma wf27_add [simp]: "wf27 a \<Longrightarrow> wf27 b \<Longrightarrow> wf27 (word27_add a b)"
  by (simp add: wf27_def word27_add_def length_add_carry)

lemma wf27_sub [simp]: "wf27 a \<Longrightarrow> wf27 b \<Longrightarrow> wf27 (word27_sub a b)"
  by (simp add: word27_sub_def)

lemma word27_range: "v \<ge> word27_min_int \<and> v \<le> word27_max_int \<longleftrightarrow> fits 27 v"
  by (auto simp: fits_def max_trits_def word27_min_int_def word27_max_int_def)

lemma word27_from_int_fits: "fits 27 v \<Longrightarrow> word27_from_int v = Inr (digits_of 27 v)"
  by (simp add: word27_from_int_def word27_range)

lemma word27_from_int_Inr: "word27_from_int v = Inr w \<longleftrightarrow> fits 27 v \<and> w = digits_of 27 v"
  by (auto simp: word27_from_int_def word27_range)

lemma word27_to_int_fits [simp]: "wf27 w \<Longrightarrow> fits 27 (word27_to_int w)"
  using trits_value_fits [of w] by (simp add: wf27_def word27_to_int_def)

lemma word27_to_int_digits: "fits 27 v \<Longrightarrow> word27_to_int (digits_of 27 v) = v"
  by (simp add: word27_to_int_def trits_value_digits_of_fits)

lemma fits_27: "fits 27 v \<longleftrightarrow> - 3812798742493 \<le> v \<and> v \<le> 3812798742493"
  by (simp add: fits_def max_trits_def)

lemma word27_to_int_i64: "wf27 w \<Longrightarrow> in_i64 (word27_to_int w)"
  using word27_to_int_fits [of w] by (auto simp: fits_27 in_i64_def)

lemma word27_from_to_int: "wf27 w \<Longrightarrow> word27_from_int (word27_to_int w) = Inr w"
  by (metis word27_from_int_fits word27_to_int_fits digits.enc_dec wf27_def word27_to_int_def)

lemma word27_to_int_inject:
  "wf27 a \<Longrightarrow> wf27 b \<Longrightarrow> word27_to_int a = word27_to_int b \<longleftrightarrow> a = b"
  by (simp add: wf27_def word27_to_int_def trits_value_inject)

lemma word27_to_int_zero [simp]: "word27_to_int word27_zero = 0"
  by (simp add: word27_to_int_def word27_zero_def)

lemma word27_to_int_neg [simp]: "word27_to_int (word27_neg w) = - word27_to_int w"
  by (simp add: word27_to_int_def word27_neg_def)

lemma word27_to_int_add:
  "wf27 a \<Longrightarrow> wf27 b \<Longrightarrow> word27_to_int (word27_add a b) = balmod 27 (word27_to_int a + word27_to_int b)"
  using add_carry_value [of a 27 b T_ZERO] by (simp add: wf27_def word27_to_int_def word27_add_def)

lemma word27_to_int_sub:
  "wf27 a \<Longrightarrow> wf27 b \<Longrightarrow> word27_to_int (word27_sub a b) = balmod 27 (word27_to_int a - word27_to_int b)"
  by (simp add: word27_sub_def word27_to_int_add)

lemma first_nonzero_sign: "trit_value (first_nonzero (rev ts)) = sgn (trits_value ts)"
proof -
  have split: "first_nonzero (xs @ [t]) = (if first_nonzero xs = T_ZERO then t else first_nonzero xs)"
    for xs t by (induction xs) auto
  show ?thesis
  proof (induction ts)
    case (Cons t ts)
    show ?case
    proof (cases "first_nonzero (rev ts) = T_ZERO")
      case True
      then have "trits_value ts = 0" using Cons by (simp add: sgn_0_0)
      then show ?thesis using True trit_value_range [of t] by (auto simp: split)
    next
      case False
      then have nz: "trits_value ts \<noteq> 0"
        using Cons trit_value_inject [of "first_nonzero (rev ts)" T_ZERO] by auto
      then have "sgn (trit_value t + 3 * trits_value ts) = sgn (trits_value ts)"
        using trit_value_bounds [of t] by (auto simp: sgn_if)
      then show ?thesis using False Cons by (simp add: split)
    qed
  qed simp
qed

lemma sign_trit_value: "trit_value (sign_trit w) = sgn (word27_to_int w)"
  by (simp add: sign_trit_def word27_to_int_def first_nonzero_sign)

lemma sign_trit_neg_iff: "sign_trit w = T_NEG \<longleftrightarrow> word27_to_int w < 0"
  using sign_trit_value [of w] by (cases "sign_trit w") (auto simp: sgn_if split: if_splits)

section \<open>Word54\<close>

type_synonym word54 = "trit list"

definition wf54 :: "word54 \<Rightarrow> bool" where
  "wf54 w \<longleftrightarrow> length w = 54"

definition word54_zero :: word54 where
  "word54_zero = replicate 54 T_ZERO"

text \<open>
  \<open>Word54::from_int\<close>: the digit loop over an \<open>int64_t\<close> that stops early once the number is
  used up. \<open>v - digit\<close> is signed 64-bit arithmetic, and overflows for one input.
\<close>

fun word54_digits :: "nat \<Rightarrow> int \<Rightarrow> trit list res" where
  "word54_digits 0 v = Inr []"
| "word54_digits (Suc n) v =
     (let digit = bal_digit v in
      rbind (add_i64 v (- digit)) (\<lambda>d.
        let v' = d sdiv 3 in
        if v' = 0 then Inr (mk_trit digit # replicate n T_ZERO)
        else rbind (word54_digits n v') (\<lambda>ts. Inr (mk_trit digit # ts))))"

definition word54_from_int :: "int \<Rightarrow> word54 res" where
  "word54_from_int v = word54_digits 54 v"

text \<open>\<open>Word54::to_int\<close> sums in 128 bits and truncates to \<open>int64_t\<close>.\<close>

definition word54_value :: "word54 \<Rightarrow> int" where
  "word54_value w = trits_value w"

definition word54_to_int :: "word54 \<Rightarrow> int" where
  "word54_to_int w = to_i64 (word54_value w)"

definition word54_add :: "word54 \<Rightarrow> word54 \<Rightarrow> word54" where
  "word54_add a b = add_carry a b T_ZERO"

definition word54_neg :: "word54 \<Rightarrow> word54" where
  "word54_neg w = map trit_neg w"

definition mul_partial :: "word27 \<Rightarrow> trit \<Rightarrow> nat \<Rightarrow> word54" where
  "mul_partial a bj j =
     foldl (\<lambda>partial i. let dst = i + j in
        if dst \<ge> 54 then partial
        else partial[dst := (if trit_value bj < 0 then trit_neg (a ! i) else a ! i)])
       word54_zero [0..<27]"

definition word_mul :: "word27 \<Rightarrow> word27 \<Rightarrow> word54" where
  "word_mul a b =
     foldl (\<lambda>acc j. let bj = b ! j in
        if trit_is_zero bj then acc else word54_add acc (mul_partial a bj j))
       word54_zero [0..<27]"

definition mac_inplace :: "word54 \<Rightarrow> word27 \<Rightarrow> word27 \<Rightarrow> word54" where
  "mac_inplace acc a b = word54_add acc (word_mul a b)"

lemma wf54_zero [simp]: "wf54 word54_zero"
  by (simp add: wf54_def word54_zero_def)

lemma word54_value_zero [simp]: "word54_value word54_zero = 0"
  by (simp add: word54_value_def word54_zero_def)

lemma wf54_add [simp]: "wf54 a \<Longrightarrow> wf54 b \<Longrightarrow> wf54 (word54_add a b)"
  by (simp add: wf54_def word54_add_def length_add_carry)

lemma word54_value_add:
  "wf54 a \<Longrightarrow> wf54 b \<Longrightarrow> word54_value (word54_add a b) = balmod 54 (word54_value a + word54_value b)"
  using add_carry_value [of a 54 b T_ZERO] by (simp add: wf54_def word54_value_def word54_add_def)

lemma word54_value_neg [simp]: "word54_value (word54_neg w) = - word54_value w"
  by (simp add: word54_value_def word54_neg_def)

lemma digits_of_zero: "digits_of n 0 = replicate n T_ZERO"
  by (induction n) (simp_all add: digits_of_Suc_eq bal_digit_eq mk_trit_def)

lemma word54_digits_eq:
  "- (2 ^ 63) < v \<Longrightarrow> v < 2 ^ 63 \<Longrightarrow> word54_digits n v = Inr (digits_of n v)"
proof (induction n arbitrary: v)
  case (Suc n)
  have d: "v - bal_digit v = 3 * ((v + 1) div 3)" unfolding bal_digit_eq by presburger
  have b: "- (2 ^ 63) \<le> v - bal_digit v" "v - bal_digit v < 2 ^ 63"
    using Suc.prems unfolding bal_digit_eq by (simp; presburger)+
  have q: "(v - bal_digit v) sdiv 3 = (v + 1) div 3" by (rule bal_digit_quotient)
  have "- (2 ^ 63) < (v + 1) div 3" "(v + 1) div 3 < 2 ^ 63" using Suc.prems by simp_all
  then have "word54_digits n ((v + 1) div 3) = Inr (digits_of n ((v + 1) div 3))"
    by (rule Suc.IH)
  moreover have "add_i64 v (- bal_digit v) = Inr (v - bal_digit v)"
    using b by (simp add: add_i64_def in_i64_def)
  ultimately show ?case
    using q by (simp add: digits_of_Suc_eq Let_def digits_of_zero)
qed simp

theorem word54_from_int_value:
  assumes "- (2 ^ 63) < v" and "v < 2 ^ 63"
  shows "\<exists>w. word54_from_int v = Inr w \<and> wf54 w \<and> word54_value w = v \<and> word54_to_int w = v"
proof -
  have "fits 54 v" using assms by (simp add: fits_def max_trits_def)
  then show ?thesis using assms word54_digits_eq [of v 54]
    by (simp add: word54_from_int_def wf54_def word54_to_int_def word54_value_def
        trits_value_digits_of_fits to_i64_id in_i64_def)
qed

lemma word54_from_int_min: "word54_from_int (- (2 ^ 63)) = Inl (SignedOverflow ''int64 +'')"
proof -
  have "bal_digit (- (2 ^ 63)) = 1" by (simp add: bal_digit_eq)
  moreover have "word54_digits (Suc n) v = Inl (SignedOverflow ''int64 +'')"
    if "bal_digit v = 1" "v = - (2 ^ 63)" for n v
    using that by (simp add: Let_def add_i64_def in_i64_def)
  ultimately show ?thesis
    unfolding word54_from_int_def by (metis numeral_eq_Suc)
qed

text \<open>Setting one trit moves the value by the place of the trit.\<close>

lemma trits_value_update:
  "k < length p \<Longrightarrow> trits_value (p[k := t]) = trits_value p + 3 ^ k * (trit_value t - trit_value (p ! k))"
proof (induction p arbitrary: k)
  case (Cons a p)
  show ?case
  proof (cases k)
    case 0
    then show ?thesis by simp
  next
    case (Suc i)
    then have "trits_value (p[i := t]) = trits_value p + 3 ^ i * (trit_value t - trit_value (p ! i))"
      using Cons by simp
    then show ?thesis using Suc by (simp add: algebra_simps)
  qed
qed simp

text \<open>One row of the schoolbook multiplication.\<close>

definition row_step :: "word27 \<Rightarrow> trit \<Rightarrow> nat \<Rightarrow> word54 \<Rightarrow> nat \<Rightarrow> word54" where
  "row_step a bj j p i = (let dst = i + j in
        if dst \<ge> 54 then p
        else p[dst := (if trit_value bj < 0 then trit_neg (a ! i) else a ! i)])"

lemma mul_partial_row: "mul_partial a bj j = foldl (row_step a bj j) word54_zero [0..<27]"
  by (simp add: mul_partial_def row_step_def [abs_def])

lemma row_prefix:
  assumes "wf27 a" and "bj \<noteq> T_ZERO" and "j < 27" and "n \<le> 27"
  shows "let p = foldl (row_step a bj j) word54_zero [0..<n] in
    wf54 p \<and> (\<forall>k. n + j \<le> k \<longrightarrow> k < 54 \<longrightarrow> p ! k = T_ZERO) \<and>
    trits_value p = 3 ^ j * trit_value bj * trits_value (take n a)"
  using assms(4)
proof (induction n)
  case 0
  show ?case by (simp add: word54_zero_def wf54_def)
next
  case (Suc n)
  let ?p = "foldl (row_step a bj j) word54_zero [0..<n]"
  let ?t = "if trit_value bj < 0 then trit_neg (a ! n) else a ! n"
  from Suc have IH: "length ?p = 54" "\<forall>k. n + j \<le> k \<longrightarrow> k < 54 \<longrightarrow> ?p ! k = T_ZERO"
      "trits_value ?p = 3 ^ j * trit_value bj * trits_value (take n a)"
    by (auto simp: Let_def wf54_def)
  have step: "foldl (row_step a bj j) word54_zero [0..<Suc n] = ?p[n + j := ?t]"
    using Suc.prems assms(3) by (simp add: row_step_def)
  have t: "trit_value ?t = trit_value bj * trit_value (a ! n)"
    using assms(2) by (cases bj) simp_all
  have "take (Suc n) a = take n a @ [a ! n]"
    using Suc.prems assms(1) by (simp add: wf27_def take_Suc_conv_app_nth)
  then have "trits_value (take (Suc n) a) = trits_value (take n a) + 3 ^ n * trit_value (a ! n)"
    using Suc.prems assms(1) by (simp add: trits_value_append wf27_def)
  moreover have "trits_value (?p[n + j := ?t]) = trits_value ?p + 3 ^ (n + j) * trit_value ?t"
    using IH(1,2) Suc.prems assms(3) by (subst trits_value_update) auto
  ultimately have "trits_value (?p[n + j := ?t]) = 3 ^ j * trit_value bj * trits_value (take (Suc n) a)"
    using IH(3) t by (simp only: power_add) (simp add: algebra_simps)
  moreover have "\<forall>k. Suc n + j \<le> k \<longrightarrow> k < 54 \<longrightarrow> ?p[n + j := ?t] ! k = T_ZERO"
    using IH(1,2) by simp
  ultimately show ?case unfolding step Let_def using IH(1) by (simp add: wf54_def)
qed

lemma mul_partial_value:
  assumes "wf27 a" and "bj \<noteq> T_ZERO" and "j < 27"
  shows "wf54 (mul_partial a bj j)"
    and "word54_value (mul_partial a bj j) = 3 ^ j * trit_value bj * word27_to_int a"
  using row_prefix [OF assms order_refl] assms(1)
  by (simp_all add: Let_def mul_partial_row word54_value_def word27_to_int_def wf27_def)

text \<open>A product of two \<open>Word27\<close> values always fits \<open>Word54\<close>.\<close>

lemma product_fits:
  assumes "fits 27 x" and "fits 27 y"
  shows "fits 54 (x * y)"
proof -
  have "\<bar>x\<bar> \<le> 3812798742493" "\<bar>y\<bar> \<le> 3812798742493"
    using assms by (auto simp: fits_27)
  then have "\<bar>x\<bar> * \<bar>y\<bar> \<le> 3812798742493 * 3812798742493" by (intro mult_mono) auto
  then show ?thesis by (simp add: fits_iff abs_mult)
qed

lemma take_fits:
  assumes "wf27 b" and "n \<le> 27"
  shows "fits 27 (trits_value (take n b))"
proof -
  have "max_trits n \<le> max_trits 27"
  proof -
    have "(3 :: int) ^ n \<le> 3 ^ 27" using assms(2) by (intro power_increasing) auto
    then show ?thesis unfolding max_trits_def by (intro zdiv_mono1) auto
  qed
  moreover have "fits n (trits_value (take n b))"
    by (metis trits_value_fits assms length_take min_absorb2 wf27_def)
  ultimately show ?thesis by (auto simp: fits_def)
qed

theorem word_mul_value:
  assumes "wf27 a" and "wf27 b"
  shows "wf54 (word_mul a b)"
    and "word54_value (word_mul a b) = word27_to_int a * word27_to_int b"
proof -
  define f where "f = (\<lambda>acc j. let bj = b ! j in
      if trit_is_zero bj then acc else word54_add acc (mul_partial a bj j))"
  have inv: "wf54 (foldl f word54_zero [0..<n]) \<and>
      word54_value (foldl f word54_zero [0..<n]) = word27_to_int a * trits_value (take n b)"
    if "n \<le> 27" for n
    using that
  proof (induction n)
    case (Suc n)
    let ?acc = "foldl f word54_zero [0..<n]"
    from Suc have acc: "wf54 ?acc" "word54_value ?acc = word27_to_int a * trits_value (take n b)"
      by auto
    have "take (Suc n) b = take n b @ [b ! n]"
      using Suc.prems assms(2) by (simp add: wf27_def take_Suc_conv_app_nth)
    then have tv: "trits_value (take (Suc n) b) = trits_value (take n b) + 3 ^ n * trit_value (b ! n)"
      using Suc.prems assms(2) by (simp add: trits_value_append wf27_def)
    show ?case
    proof (cases "b ! n = T_ZERO")
      case True
      then show ?thesis using acc tv by (simp add: f_def)
    next
      case False
      have part: "wf54 (mul_partial a (b ! n) n)"
        "word54_value (mul_partial a (b ! n) n) = 3 ^ n * trit_value (b ! n) * word27_to_int a"
        using mul_partial_value [OF assms(1) False, of n] Suc.prems by auto
      have "fits 54 (word27_to_int a * trits_value (take (Suc n) b))"
        using product_fits assms take_fits [OF assms(2) Suc.prems] by simp
      then have "word54_value (word54_add ?acc (mul_partial a (b ! n) n))
          = word27_to_int a * trits_value (take (Suc n) b)"
        using acc part tv by (simp add: word54_value_add balmod_id algebra_simps)
      then show ?thesis using False acc part by (simp add: f_def)
    qed
  qed simp
  show "wf54 (word_mul a b)"
    "word54_value (word_mul a b) = word27_to_int a * word27_to_int b"
    using inv [of 27] assms(2) by (simp_all add: word_mul_def f_def word27_to_int_def wf27_def)
qed

lemma mac_inplace_value:
  "wf54 acc \<Longrightarrow> wf27 a \<Longrightarrow> wf27 b \<Longrightarrow>
   word54_value (mac_inplace acc a b)
   = balmod 54 (word54_value acc + word27_to_int a * word27_to_int b)"
  by (simp add: mac_inplace_def word54_value_add word_mul_value)

section \<open>Packed words\<close>

definition trit_to_code :: "trit \<Rightarrow> 8 word" where
  "trit_to_code t = (let v = trit_value t in if v = 0 then 0 else if v = 1 then 1 else 2)"

definition code_to_trit :: "8 word \<Rightarrow> trit" where
  "code_to_trit c =
     (let k = c AND 3 in
      if k = 0 then T_ZERO else if k = 1 then T_POS else if k = 2 then T_NEG else T_ZERO)"

definition pack_word27 :: "word27 \<Rightarrow> 64 word" where
  "pack_word27 w = foldl (\<lambda>out i. out OR push_bit (i * 2) (ucast (trit_to_code (w ! i)))) 0 [0..<27]"

definition unpack_word27 :: "64 word \<Rightarrow> word27" where
  "unpack_word27 packed =
     fill 27 (\<lambda>i. code_to_trit (ucast (drop_bit (i * 2) packed AND 3))) word27_zero"

lemma unpack_map:
  "unpack_word27 packed = map (\<lambda>i. code_to_trit (ucast (drop_bit (i * 2) packed AND 3))) [0..<27]"
  unfolding unpack_word27_def by (rule fill_all) (simp add: word27_zero_def)

lemma wf27_unpack [simp]: "wf27 (unpack_word27 p)"
  by (simp add: wf27_def unpack_map)

lemma code_to_trit_code [simp]: "code_to_trit (trit_to_code t) = t"
  by (cases t) (simp_all add: code_to_trit_def trit_to_code_def)

lemma ucast_code_roundtrip [simp]:
  "(ucast (ucast (trit_to_code t) :: 64 word) :: 8 word) = trit_to_code t"
  by (cases t) (simp_all add: trit_to_code_def)

lemma bit_code: "bit (ucast (trit_to_code t) :: 64 word) k \<Longrightarrow> k < 2"
  by (cases t) (auto simp: trit_to_code_def bit_simps Let_def less_2_cases_iff split: if_splits)

lemma bit_pack_prefix:
  "n \<le> 27 \<Longrightarrow>
   bit (foldl (\<lambda>out i. out OR push_bit (i * 2) (ucast (trit_to_code (w ! i)))) 0 [0..<n] :: 64 word) m
   \<longleftrightarrow> m div 2 < n \<and> bit (ucast (trit_to_code (w ! (m div 2))) :: 64 word) (m mod 2)"
proof (induction n)
  case (Suc n)
  have "bit (push_bit (n * 2) (ucast (trit_to_code (w ! n)) :: 64 word)) m
      \<longleftrightarrow> m div 2 = n \<and> bit (ucast (trit_to_code (w ! n)) :: 64 word) (m mod 2)"
  proof
    assume L: "bit (push_bit (n * 2) (ucast (trit_to_code (w ! n)) :: 64 word)) m"
    then have "n * 2 \<le> m" and b: "bit (ucast (trit_to_code (w ! n)) :: 64 word) (m - n * 2)"
      by (auto simp: bit_push_bit_iff)
    then have "m - n * 2 < 2" by (auto dest: bit_code)
    then have "m = n * 2 \<or> m = n * 2 + 1" using \<open>n * 2 \<le> m\<close> by arith
    then have "m div 2 = n" "m - n * 2 = m mod 2" by (auto, presburger)
    then show "m div 2 = n \<and> bit (ucast (trit_to_code (w ! n)) :: 64 word) (m mod 2)"
      using b by simp
  next
    assume R: "m div 2 = n \<and> bit (ucast (trit_to_code (w ! n)) :: 64 word) (m mod 2)"
    then have n: "n = m div 2" by simp
    then have "n * 2 \<le> m" "m - n * 2 = m mod 2" by (simp_all add: minus_div_mult_eq_mod)
    moreover have "m < 64" using n Suc.prems by simp
    ultimately show "bit (push_bit (n * 2) (ucast (trit_to_code (w ! n)) :: 64 word)) m"
      using R by (simp add: bit_push_bit_iff)
  qed
  then show ?case using Suc by (auto simp: bit_or_iff less_Suc_eq)
qed simp

lemma bit_pack:
  "bit (pack_word27 w) m \<longleftrightarrow> m < 54 \<and> bit (ucast (trit_to_code (w ! (m div 2))) :: 64 word) (m mod 2)"
proof -
  have "m div 2 < 27 \<longleftrightarrow> m < 54" by auto
  then show ?thesis unfolding pack_word27_def using bit_pack_prefix [of 27 w m] by simp
qed

lemma bit_and_3: "bit (x AND 3 :: 64 word) k \<longleftrightarrow> k < 2 \<and> bit x k"
proof -
  have "x AND 3 = take_bit 2 x"
    by (simp add: take_bit_eq_mask mask_eq_exp_minus_1)
  then show ?thesis by (simp add: bit_take_bit_iff)
qed

lemma pack_code_at: "i < 27 \<Longrightarrow> drop_bit (i * 2) (pack_word27 w) AND 3 = ucast (trit_to_code (w ! i))"
proof (rule bit_word_eqI)
  fix k assume i: "i < 27"
  show "bit (drop_bit (i * 2) (pack_word27 w) AND 3) k \<longleftrightarrow> bit (ucast (trit_to_code (w ! i)) :: 64 word) k"
  proof (cases "k < 2")
    case True
    then have "(i * 2 + k) div 2 = i" "(i * 2 + k) mod 2 = k" "i * 2 + k < 54" using i by auto
    then show ?thesis using True by (simp add: bit_and_3 bit_drop_bit_eq bit_pack)
  next
    case False
    then show ?thesis using bit_code [of "w ! i" k] by (auto simp: bit_and_3)
  qed
qed

theorem unpack_pack: "wf27 w \<Longrightarrow> unpack_word27 (pack_word27 w) = w"
  by (rule nth_equalityI) (simp_all add: unpack_map wf27_def pack_code_at)

text \<open>The packed words the sources call legal: no code \<open>11\<close> and nothing above bit 53.\<close>

definition packed_ok :: "64 word \<Rightarrow> bool" where
  "packed_ok p \<longleftrightarrow> drop_bit 54 p = 0 \<and> (\<forall>i \<in> {..<27}. drop_bit (i * 2) p AND 3 \<noteq> 3)"

lemma and_3_cases: "x AND 3 \<in> {0, 1, 2, 3 :: 64 word}"
proof -
  have "x AND 3 = take_bit 2 x"
    by (simp add: take_bit_eq_mask mask_eq_exp_minus_1)
  then have "x AND 3 = of_nat (unat x mod 4)"
    by (simp add: take_bit_eq_mod unat_mod_distrib word_arith_nat_mod)
  moreover have "unat x mod 4 \<in> {0, 1, 2, 3}" by auto
  ultimately show ?thesis by auto
qed

lemma code_roundtrip:
  "x AND 3 \<noteq> (3 :: 64 word) \<Longrightarrow>
   (ucast (trit_to_code (code_to_trit (ucast (x AND 3)))) :: 64 word) = x AND 3"
  using and_3_cases [of x] by (auto simp: trit_to_code_def code_to_trit_def)

lemma pack_unpack:
  assumes "packed_ok p"
  shows "pack_word27 (unpack_word27 p) = p"
proof (rule bit_word_eqI)
  fix m assume "m < LENGTH(64)"
  show "bit (pack_word27 (unpack_word27 p)) m \<longleftrightarrow> bit p m"
  proof (cases "m < 54")
    case True
    then have i: "m div 2 < 27" by auto
    then have "(ucast (trit_to_code (unpack_word27 p ! (m div 2))) :: 64 word)
        = drop_bit (m div 2 * 2) p AND 3"
      using assms by (simp add: unpack_map packed_ok_def code_roundtrip)
    then show ?thesis using True
      by (simp add: bit_pack bit_and_3 bit_drop_bit_eq)
  next
    case False
    have "drop_bit 54 p = 0" using assms by (simp add: packed_ok_def)
    then have "\<not> bit (drop_bit 54 p) (m - 54)" by simp
    then have "\<not> bit p m" using False by (simp add: bit_drop_bit_eq)
    then show ?thesis using False by (simp add: bit_pack)
  qed
qed

lemma packed_ok_pack: "packed_ok (pack_word27 w)"
proof -
  have "drop_bit 54 (pack_word27 w) = 0"
    by (rule bit_word_eqI) (simp add: bit_drop_bit_eq bit_pack)
  moreover have "(ucast (trit_to_code t) :: 64 word) \<noteq> 3" for t
    by (cases t) (simp_all add: trit_to_code_def)
  ultimately show ?thesis by (simp add: packed_ok_def pack_code_at)
qed

interpretation packing: bijective_codec pack_word27 unpack_word27 wf27 packed_ok
  by unfold_locales (simp_all add: packed_ok_pack unpack_pack pack_unpack)

end
