(* ===== verification/TerIsa.thy ===== *)
theory TerIsa
  imports TerWord
begin

text \<open>
  The instruction set: \<open>include/ter/isa.hpp\<close>, \<open>src/isa/encode.cpp\<close>, \<open>src/isa/decode.cpp\<close>.
  An instruction word has the fields immediate (trits 0 to 11), second source (12 to 14),
  first source (15 to 17), destination (18 to 20) and opcode (21 to 26).
\<close>

section \<open>Opcodes and instructions\<close>

datatype opcode =
    TNOP | THALT | TDBG
  | TADD | TSUB | TNEG | TABS | TAND3 | TOR3 | TXOR3 | TCMP | TSIGN
  | TLOAD | TSTORE | TLOADI
  | TBEQ | TBNE | TBLT | TJUMP | TCALL | TRET
  | TVADD | TVSUB | TVNEG | TVBROADCAST
  | TVMAC | TVSUM | TVMAX | TVSHUF
  | TVLOAD | TVSTORE | TVMUL

fun opcode_value :: "opcode \<Rightarrow> int" where
  "opcode_value TNOP = 0" | "opcode_value THALT = 1" | "opcode_value TDBG = 2"
| "opcode_value TADD = 10" | "opcode_value TSUB = 11" | "opcode_value TNEG = 12"
| "opcode_value TABS = 13" | "opcode_value TAND3 = 14" | "opcode_value TOR3 = 15"
| "opcode_value TXOR3 = 16" | "opcode_value TCMP = 17" | "opcode_value TSIGN = 18"
| "opcode_value TLOAD = 30" | "opcode_value TSTORE = 31" | "opcode_value TLOADI = 32"
| "opcode_value TBEQ = 50" | "opcode_value TBNE = 51" | "opcode_value TBLT = 52"
| "opcode_value TJUMP = 53" | "opcode_value TCALL = 54" | "opcode_value TRET = 55"
| "opcode_value TVADD = 100" | "opcode_value TVSUB = 101" | "opcode_value TVNEG = 102"
| "opcode_value TVBROADCAST = 103"
| "opcode_value TVMAC = 110" | "opcode_value TVSUM = 111" | "opcode_value TVMAX = 112"
| "opcode_value TVSHUF = 113"
| "opcode_value TVLOAD = 120" | "opcode_value TVSTORE = 121" | "opcode_value TVMUL = 122"

text \<open>The cases of the switch in \<open>is_valid_opcode\<close>, in its order.\<close>

definition valid_opcodes :: "opcode list" where
  "valid_opcodes =
     [TNOP, THALT, TDBG, TADD, TSUB, TNEG, TABS, TAND3, TOR3, TXOR3, TCMP, TSIGN,
      TLOAD, TSTORE, TLOADI, TBEQ, TBNE, TBLT, TJUMP, TCALL, TRET,
      TVADD, TVSUB, TVNEG, TVBROADCAST, TVMAC, TVSUM, TVMAX, TVSHUF,
      TVLOAD, TVSTORE, TVMUL]"

definition opcode_of :: "int \<Rightarrow> opcode option" where
  "opcode_of v = List.find (\<lambda>op. opcode_value op = v) valid_opcodes"

definition is_valid_opcode :: "int \<Rightarrow> bool" where
  "is_valid_opcode v \<longleftrightarrow> opcode_of v \<noteq> None"

record instr =
  op :: opcode
  dst :: nat
  src1 :: nat
  src2 :: nat
  imm :: int

lemma opcode_of_value [simp]: "opcode_of (opcode_value p) = Some p"
  by (cases p) (simp_all add: opcode_of_def valid_opcodes_def)

lemma opcode_of_Some: "opcode_of v = Some p \<Longrightarrow> opcode_value p = v"
  by (auto simp: opcode_of_def find_Some_iff)

lemma opcode_value_inject [simp]: "opcode_value p = opcode_value q \<longleftrightarrow> p = q"
  by (metis opcode_of_value option.inject)

lemma opcode_value_bounds: "0 \<le> opcode_value p" "opcode_value p \<le> 122"
  by (cases p; simp)+

lemma fits_6: "fits 6 v \<longleftrightarrow> - 364 \<le> v \<and> v \<le> 364"
  by (simp add: fits_def max_trits_def)

lemma fits_12: "fits 12 v \<longleftrightarrow> - 265720 \<le> v \<and> v \<le> 265720"
  by (simp add: fits_def max_trits_def)

lemma opcode_value_fits [simp]: "fits 6 (opcode_value p)"
  using opcode_value_bounds [of p] by (simp add: fits_6)

section \<open>Encoding and decoding\<close>

fun put_trits :: "word27 \<Rightarrow> nat \<Rightarrow> nat \<Rightarrow> int \<Rightarrow> word27" where
  "put_trits w start 0 v = w"
| "put_trits w start (Suc n) v =
     put_trits (w[start := mk_trit (bal_digit v)]) (Suc start) n ((v - bal_digit v) sdiv 3)"

definition encode :: "instr \<Rightarrow> word27" where
  "encode i =
     (let w = word27_zero;
          w = put_trits w 0 12 (imm i);
          w = put_trits w 12 3 (int (src2 i) - 13);
          w = put_trits w 15 3 (int (src1 i) - 13);
          w = put_trits w 18 3 (int (dst i) - 13)
      in put_trits w 21 6 (opcode_value (op i)))"

definition get_trits :: "word27 \<Rightarrow> nat \<Rightarrow> nat \<Rightarrow> int" where
  "get_trits w start n = trits_value (map (\<lambda>i. w ! (start + i)) [0..<n])"

definition decode :: "word27 \<Rightarrow> instr res" where
  "decode w =
     (let op_v = get_trits w 21 6 in
      case opcode_of op_v of
        None \<Rightarrow> Inl (IllegalOpcode op_v)
      | Some p \<Rightarrow> Inr \<lparr>op = p,
          dst = nat (get_trits w 18 3 + 13),
          src1 = nat (get_trits w 15 3 + 13),
          src2 = nat (get_trits w 12 3 + 13),
          imm = get_trits w 0 12\<rparr>)"

text \<open>What the instruction format can hold.\<close>

definition valid_instr :: "instr \<Rightarrow> bool" where
  "valid_instr i \<longleftrightarrow> dst i < 27 \<and> src1 i < 27 \<and> src2 i < 27 \<and> fits 12 (imm i)"

lemma length_put_trits [simp]: "length (put_trits w s n v) = length w"
  by (induction w s n v rule: put_trits.induct) simp_all

lemma put_trits_eq:
  "s + n \<le> length w \<Longrightarrow> put_trits w s n v = take s w @ digits_of n v @ drop (s + n) w"
proof (induction w s n v rule: put_trits.induct)
  case (2 w s n v)
  then have "put_trits w s (Suc n) v
      = take (Suc s) (w[s := mk_trit (bal_digit v)]) @ digits_of n ((v - bal_digit v) sdiv 3)
        @ drop (Suc s + n) w"
    by simp
  also have "take (Suc s) (w[s := mk_trit (bal_digit v)]) = take s w @ [mk_trit (bal_digit v)]"
    using 2 by (simp add: take_Suc_conv_app_nth)
  finally show ?case by (simp add: digits_of.simps(2))
qed simp

lemma encode_fields:
  "encode i = digits_of 12 (imm i) @ digits_of 3 (int (src2 i) - 13) @ digits_of 3 (int (src1 i) - 13)
     @ digits_of 3 (int (dst i) - 13) @ digits_of 6 (opcode_value (op i))"
  by (simp add: encode_def Let_def put_trits_eq word27_zero_def)

lemma wf27_encode [simp]: "wf27 (encode i)"
  by (simp add: encode_fields wf27_def)

lemma get_trits_sublist: "s + n \<le> length w \<Longrightarrow> get_trits w s n = trits_value (take n (drop s w))"
proof -
  assume "s + n \<le> length w"
  then have "map (\<lambda>i. w ! (s + i)) [0..<n] = take n (drop s w)"
    by (intro nth_equalityI) simp_all
  then show ?thesis by (simp add: get_trits_def)
qed

lemma get_trits_middle:
  "length xs = s \<Longrightarrow> length ys = n \<Longrightarrow> get_trits (xs @ ys @ zs) s n = trits_value ys"
  by (simp add: get_trits_sublist)

lemma encode_get:
  "get_trits (encode i) 0 12 = balmod 12 (imm i)"
  "get_trits (encode i) 12 3 = balmod 3 (int (src2 i) - 13)"
  "get_trits (encode i) 15 3 = balmod 3 (int (src1 i) - 13)"
  "get_trits (encode i) 18 3 = balmod 3 (int (dst i) - 13)"
  "get_trits (encode i) 21 6 = opcode_value (op i)"
  by (simp_all add: encode_fields get_trits_sublist trits_value_digits_of balmod_id)

lemma balmod_reg: "n < 27 \<Longrightarrow> nat (balmod 3 (int n - 13) + 13) = n"
  by (simp add: balmod_id fits_3)

definition fields_ok :: "instr \<Rightarrow> bool" where
  "fields_ok i \<longleftrightarrow> dst i < 27 \<and> src1 i < 27 \<and> src2 i < 27"

theorem decode_encode_wrap:
  "dst i < 27 \<Longrightarrow> src1 i < 27 \<Longrightarrow> src2 i < 27 \<Longrightarrow>
   decode (encode i) = Inr (i\<lparr>imm := balmod 12 (imm i)\<rparr>)"
  by (simp add: decode_def encode_get balmod_reg Let_def)

lemma decode_encode: "valid_instr i \<Longrightarrow> decode (encode i) = Inr i"
  by (simp add: valid_instr_def decode_encode_wrap balmod_id)

lemma get_trits_fits: "s + n \<le> length w \<Longrightarrow> fits n (get_trits w s n)"
proof -
  assume "s + n \<le> length w"
  then have "length (take n (drop s w)) = n" by simp
  then show ?thesis using \<open>s + n \<le> length w\<close> by (metis get_trits_sublist trits_value_fits)
qed

lemma get_trits_reg: "wf27 w \<Longrightarrow> s + 3 \<le> 27 \<Longrightarrow> 0 \<le> get_trits w s 3 + 13 \<and> get_trits w s 3 + 13 < 27"
  using get_trits_fits [of s 3 w] by (simp add: fits_3 wf27_def)

lemma decode_valid: "wf27 w \<Longrightarrow> decode w = Inr i \<Longrightarrow> valid_instr i"
  using get_trits_reg [of w 18] get_trits_reg [of w 15] get_trits_reg [of w 12]
    get_trits_fits [of 0 12 w]
  by (auto simp: decode_def Let_def valid_instr_def wf27_def split: option.splits)

lemma digits_get_trits: "s + n \<le> length w \<Longrightarrow> digits_of n (get_trits w s n) = take n (drop s w)"
  by (metis digits_of_trits_value get_trits_sublist length_drop length_take min_absorb2
      add_le_imp_le_diff add.commute)

theorem encode_decode:
  assumes "wf27 w" and "decode w = Inr i"
  shows "encode i = w"
proof -
  have len: "length w = 27" using assms(1) by (simp add: wf27_def)
  obtain p where p: "opcode_of (get_trits w 21 6) = Some p"
    and i: "i = \<lparr>op = p, dst = nat (get_trits w 18 3 + 13), src1 = nat (get_trits w 15 3 + 13),
        src2 = nat (get_trits w 12 3 + 13), imm = get_trits w 0 12\<rparr>"
    using assms(2) by (auto simp: decode_def Let_def split: option.splits)
  have "opcode_value p = get_trits w 21 6" using p by (rule opcode_of_Some)
  then have "encode i = take 12 (drop 0 w) @ take 3 (drop 12 w) @ take 3 (drop 15 w)
      @ take 3 (drop 18 w) @ take 6 (drop 21 w)"
    using get_trits_reg [OF assms(1), of 18] get_trits_reg [OF assms(1), of 15]
      get_trits_reg [OF assms(1), of 12] len
    by (simp add: i encode_fields digits_get_trits)
  also have "\<dots> = w"
    using append_take_drop_id [of 12 w] append_take_drop_id [of 3 "drop 12 w"]
      append_take_drop_id [of 3 "drop 15 w"] append_take_drop_id [of 3 "drop 18 w"] len
    by simp
  finally show ?thesis .
qed

definition projr_instr :: "instr res \<Rightarrow> instr" where
  "projr_instr r = (case r of Inr i \<Rightarrow> i | Inl e \<Rightarrow> \<lparr>op = TNOP, dst = 0, src1 = 0, src2 = 0, imm = 0\<rparr>)"

lemma projr_instr_Inr [simp]: "projr_instr (Inr i) = i"
  by (simp add: projr_instr_def)

text \<open>Instruction words and instructions: the words whose opcode field decodes.\<close>

interpretation icodec: bijective_codec encode "\<lambda>w. projr_instr (decode w)" valid_instr
  "\<lambda>w. wf27 w \<and> is_valid_opcode (get_trits w 21 6)"
proof unfold_locales
  fix w assume w: "wf27 w \<and> is_valid_opcode (get_trits w 21 6)"
  then obtain i where "decode w = Inr i"
    by (auto simp: is_valid_opcode_def decode_def Let_def)
  then show "valid_instr (projr_instr (decode w))" "encode (projr_instr (decode w)) = w"
    using w decode_valid [of w i] encode_decode [of w i] by simp_all
qed (simp_all add: decode_encode is_valid_opcode_def encode_get)

lemma decode_error_iff:
  "decode w = Inl e \<longleftrightarrow> \<not> is_valid_opcode (get_trits w 21 6) \<and> e = IllegalOpcode (get_trits w 21 6)"
  by (auto simp: decode_def Let_def is_valid_opcode_def split: option.splits)

end
