(* ===== verification/TerVec.thy ===== *)
theory TerVec
  imports TerPrelude
begin

text \<open>
  Vector registers: \<open>include/ter/vec.hpp\<close> and \<open>src/core/vec.cpp\<close>. A vector is the list of
  its 27 lanes, an accumulator the list of its 27 64-bit lanes. The lane-wise operations
  saturate, at the 9-trit range or at the \<open>int32_t\<close> range; the accumulator arithmetic is
  plain signed 64-bit arithmetic and can overflow.
\<close>

type_synonym vec = "int list"

type_synonym vaccum = "int list"

definition kLanes :: nat where "kLanes = 27"

definition kLaneMin :: int where "kLaneMin = - 9841"

definition kLaneMax :: int where "kLaneMax = 9841"

definition INT32_MIN :: int where "INT32_MIN = - (2 ^ 31)"

definition INT32_MAX :: int where "INT32_MAX = 2 ^ 31 - 1"

definition vec_zero :: vec where "vec_zero = replicate 27 0"

definition vaccum_zero :: vaccum where "vaccum_zero = replicate 27 0"

definition lane :: "vec \<Rightarrow> nat \<Rightarrow> int" where
  "lane v i = v ! i"

definition set_lane :: "vec \<Rightarrow> nat \<Rightarrow> int \<Rightarrow> vec" where
  "set_lane v i x = v[i := clamp kLaneMin kLaneMax x]"

definition set_lane_wide :: "vec \<Rightarrow> nat \<Rightarrow> int \<Rightarrow> vec" where
  "set_lane_wide v i x = v[i := clamp INT32_MIN INT32_MAX x]"

definition vec_add :: "vec \<Rightarrow> vec \<Rightarrow> vec" where
  "vec_add a b =
     foldl (\<lambda>r i. set_lane_wide r i (to_i32 (clamp INT32_MIN INT32_MAX (lane a i + lane b i))))
       vec_zero [0..<27]"

definition vec_sub :: "vec \<Rightarrow> vec \<Rightarrow> vec" where
  "vec_sub a b =
     foldl (\<lambda>r i. set_lane_wide r i (to_i32 (clamp INT32_MIN INT32_MAX (lane a i - lane b i))))
       vec_zero [0..<27]"

definition vec_neg :: "vec \<Rightarrow> vec" where
  "vec_neg a =
     foldl (\<lambda>r i. let v = lane a i in
        set_lane_wide r i (if v = INT32_MIN then INT32_MAX else - v))
       vec_zero [0..<27]"

definition vec_mul :: "vec \<Rightarrow> vec \<Rightarrow> vec" where
  "vec_mul a b = foldl (\<lambda>r i. set_lane_wide r i (lane a i * lane b i)) vec_zero [0..<27]"

definition vec_broadcast :: "int \<Rightarrow> vec" where
  "vec_broadcast v = foldl (\<lambda>r i. set_lane r i v) vec_zero [0..<27]"

definition vec_mac :: "vaccum \<Rightarrow> vec \<Rightarrow> vec \<Rightarrow> vaccum res" where
  "vec_mac acc a b = rmap (\<lambda>i. add_i64 (acc ! i) (lane a i * lane b i)) [0..<27]"

fun sum_lanes :: "int \<Rightarrow> int list \<Rightarrow> int res" where
  "sum_lanes s [] = Inr s"
| "sum_lanes s (x # xs) = rbind (add_i64 s x) (\<lambda>s'. sum_lanes s' xs)"

definition vec_sum :: "vaccum \<Rightarrow> int res" where
  "vec_sum acc = sum_lanes 0 acc"

section \<open>Well-formed vectors\<close>

definition wf_vec :: "vec \<Rightarrow> bool" where
  "wf_vec v \<longleftrightarrow> length v = 27 \<and> list_all in_i32 v"

definition wf_acc :: "vaccum \<Rightarrow> bool" where
  "wf_acc a \<longleftrightarrow> length a = 27 \<and> list_all in_i64 a"

text \<open>Lanes within the 9-trit range, which is what the narrow stores guarantee.\<close>

definition narrow :: "vec \<Rightarrow> bool" where
  "narrow v \<longleftrightarrow> list_all (\<lambda>x. kLaneMin \<le> x \<and> x \<le> kLaneMax) v"

lemma in_i32_clamp [simp]: "in_i32 (clamp INT32_MIN INT32_MAX x)"
  by (auto simp: in_i32_def clamp_def INT32_MIN_def INT32_MAX_def)

lemma in_i32_clamp_lane [simp]: "in_i32 (clamp kLaneMin kLaneMax x)"
  by (auto simp: in_i32_def clamp_def kLaneMin_def kLaneMax_def)

lemma clamp_i32_id: "in_i32 x \<Longrightarrow> clamp INT32_MIN INT32_MAX x = x"
  by (auto simp: in_i32_def clamp_def INT32_MIN_def INT32_MAX_def)

lemma lane_bounds: "kLaneMin \<le> clamp kLaneMin kLaneMax x" "clamp kLaneMin kLaneMax x \<le> kLaneMax"
  by (auto simp: clamp_def kLaneMin_def kLaneMax_def)

lemma wide_loop:
  "foldl (\<lambda>r i. set_lane_wide r i (f i)) vec_zero [0..<27]
   = map (\<lambda>i. clamp INT32_MIN INT32_MAX (f i)) [0..<27]"
  using fill_all [of vec_zero 27 "\<lambda>i. clamp INT32_MIN INT32_MAX (f i)"]
  by (simp add: fill_def set_lane_wide_def vec_zero_def)

lemma narrow_loop:
  "foldl (\<lambda>r i. set_lane r i (f i)) vec_zero [0..<27]
   = map (\<lambda>i. clamp kLaneMin kLaneMax (f i)) [0..<27]"
  using fill_all [of vec_zero 27 "\<lambda>i. clamp kLaneMin kLaneMax (f i)"]
  by (simp add: fill_def set_lane_def vec_zero_def)

named_theorems vec_maps \<open>the lane-wise operations as maps over the lane indices\<close>

lemma vec_add_map [vec_maps]:
  "vec_add a b = map (\<lambda>i. clamp INT32_MIN INT32_MAX (a ! i + b ! i)) [0..<27]"
  unfolding vec_add_def wide_loop by (simp add: to_i32_id clamp_i32_id lane_def)

lemma vec_sub_map [vec_maps]:
  "vec_sub a b = map (\<lambda>i. clamp INT32_MIN INT32_MAX (a ! i - b ! i)) [0..<27]"
  unfolding vec_sub_def wide_loop by (simp add: to_i32_id clamp_i32_id lane_def)

lemma vec_mul_map [vec_maps]:
  "vec_mul a b = map (\<lambda>i. clamp INT32_MIN INT32_MAX (a ! i * b ! i)) [0..<27]"
  unfolding vec_mul_def wide_loop by (simp add: lane_def)

lemma vec_broadcast_map [vec_maps]: "vec_broadcast v = replicate 27 (clamp kLaneMin kLaneMax v)"
  unfolding vec_broadcast_def narrow_loop by (simp add: map_replicate_const)

lemma vec_neg_map [vec_maps]:
  "wf_vec a \<Longrightarrow> vec_neg a = map (\<lambda>i. clamp INT32_MIN INT32_MAX (- (a ! i))) [0..<27]"
proof -
  assume a: "wf_vec a"
  have "vec_neg a = map (\<lambda>i. clamp INT32_MIN INT32_MAX
      (if a ! i = INT32_MIN then INT32_MAX else - (a ! i))) [0..<27]"
    unfolding vec_neg_def wide_loop Let_def by (simp add: lane_def)
  then show ?thesis
    using a by (simp add: wf_vec_def list_all_length clamp_def INT32_MIN_def INT32_MAX_def in_i32_def)
qed

lemma wf_vec_map [simp]: "wf_vec (map f [0..<27]) \<longleftrightarrow> (\<forall>i<27. in_i32 (f i))"
  by (auto simp: wf_vec_def list_all_length)

lemma wf_vec_zero [simp]: "wf_vec vec_zero"
  by (simp add: wf_vec_def vec_zero_def list_all_length in_i32_def)

lemma wf_acc_zero [simp]: "wf_acc vaccum_zero"
  by (simp add: wf_acc_def vaccum_zero_def list_all_length in_i64_def)

lemma wf_vec_ops [simp]:
  "wf_vec (vec_add a b)" "wf_vec (vec_sub a b)" "wf_vec (vec_mul a b)" "wf_vec (vec_broadcast x)"
  by (simp_all add: vec_maps wf_vec_def list_all_length)

lemma wf_vec_neg [simp]: "wf_vec (vec_neg a)"
  unfolding vec_neg_def Let_def wide_loop by simp

lemma wf_vec_set_lane [simp]: "wf_vec v \<Longrightarrow> wf_vec (set_lane v i x)"
  by (simp add: wf_vec_def set_lane_def list_all_update)

lemma wf_vec_nth: "wf_vec v \<Longrightarrow> i < 27 \<Longrightarrow> in_i32 (v ! i)"
  by (simp add: wf_vec_def list_all_length)

lemma narrow_map: "narrow (map (\<lambda>i. clamp kLaneMin kLaneMax (f i)) xs)"
  by (auto simp: narrow_def list_all_iff clamp_def kLaneMin_def kLaneMax_def)

lemma wf_acc_mac: "vec_mac acc a b = Inr acc' \<Longrightarrow> wf_acc acc'"
proof -
  assume r: "vec_mac acc a b = Inr acc'"
  have "in_i64 (acc' ! k)" if "k < 27" for k
    using rmap_nth [OF r [unfolded vec_mac_def], of k] that
    by (auto simp: add_i64_def split: if_splits)
  then show ?thesis
    using rmap_length [OF r [unfolded vec_mac_def]] by (simp add: wf_acc_def list_all_length)
qed

text \<open>Accumulation does not overflow as long as the sums stay in range.\<close>

lemma vec_mac_ok:
  "(\<And>i. i < 27 \<Longrightarrow> in_i64 (acc ! i + a ! i * b ! i)) \<Longrightarrow>
   vec_mac acc a b = Inr (map (\<lambda>i. acc ! i + a ! i * b ! i) [0..<27])"
  unfolding vec_mac_def by (rule rmap_all) (simp add: add_i64_def lane_def)

lemma sum_lanes_ok:
  "\<bar>s\<bar> + sum_list (map abs xs) < 2 ^ 63 \<Longrightarrow> sum_lanes s xs = Inr (s + sum_list xs)"
proof (induction xs arbitrary: s)
  case (Cons x xs)
  have nn: "0 \<le> sum_list (map abs xs)" by (induction xs) auto
  have "\<bar>s + x\<bar> + sum_list (map abs xs) < 2 ^ 63" using Cons.prems by simp
  moreover have "\<bar>s + x\<bar> < 2 ^ 63"
    using Cons.prems nn abs_triangle_ineq [of s x] by simp
  then have "add_i64 s x = Inr (s + x)" by (auto simp: add_i64_def in_i64_def abs_less_iff)
  ultimately show ?case using Cons.IH [of "s + x"] by simp
qed simp

lemma vec_sum_ok: "sum_list (map abs acc) < 2 ^ 63 \<Longrightarrow> vec_sum acc = Inr (sum_list acc)"
  by (simp add: vec_sum_def sum_lanes_ok)

end
