(* ===== verification/TerState.thy ===== *)
theory TerState
  imports TerIsa TerVec
begin

text \<open>
  The state of the simulator: \<open>include/ter/memory.hpp\<close>, \<open>regfile.hpp\<close>, \<open>counters.hpp\<close> and
  the data members of \<open>Sim\<close> (\<open>sim.hpp\<close>). The interface \<open>word_store\<close> states what the rest
  of the program needs of a memory, and its lemmas about blocks of words are used for the
  vector loads and stores, the lookup tables and the kernel installer.
\<close>

section \<open>Memory\<close>

record memory =
  mem_data :: "64 word list"

definition mk_memory :: "nat \<Rightarrow> memory" where
  "mk_memory n_words = \<lparr>mem_data = replicate n_words 0\<rparr>"

definition size_words :: "memory \<Rightarrow> nat" where
  "size_words m = length (mem_data m)"

definition load_word :: "memory \<Rightarrow> nat \<Rightarrow> word27 res" where
  "load_word m addr =
     (if addr \<ge> length (mem_data m) then Inl (OutOfRange ''Memory::load_word'')
      else Inr (unpack_word27 (mem_data m ! addr)))"

definition store_word :: "memory \<Rightarrow> nat \<Rightarrow> word27 \<Rightarrow> memory res" where
  "store_word m addr w =
     (if addr \<ge> length (mem_data m) then Inl (OutOfRange ''Memory::store_word'')
      else Inr (m\<lparr>mem_data := (mem_data m)[addr := pack_word27 w]\<rparr>))"

text \<open>Consecutive stores from an address on, up to the first one that fails.\<close>

fun store_words ::
  "('m \<Rightarrow> nat \<Rightarrow> word27 \<Rightarrow> 'm res) \<Rightarrow> 'm \<Rightarrow> nat \<Rightarrow> word27 list \<Rightarrow> 'm res" where
  "store_words store m addr [] = Inr m"
| "store_words store m addr (w # ws) =
     rbind (store m addr w) (\<lambda>m'. store_words store m' (Suc addr) ws)"

locale word_store =
  fixes load :: "'m \<Rightarrow> nat \<Rightarrow> word27 res"
    and store :: "'m \<Rightarrow> nat \<Rightarrow> word27 \<Rightarrow> 'm res"
    and cells :: "'m \<Rightarrow> nat"
  assumes load_in: "a < cells m \<Longrightarrow> \<exists>w. load m a = Inr w \<and> wf27 w"
    and load_out: "cells m \<le> a \<Longrightarrow> \<exists>e. load m a = Inl e"
    and store_in: "a < cells m \<Longrightarrow> \<exists>m'. store m a w = Inr m'"
    and store_out: "cells m \<le> a \<Longrightarrow> \<exists>e. store m a w = Inl e"
    and store_cells: "store m a w = Inr m' \<Longrightarrow> cells m' = cells m"
    and load_store: "store m a w = Inr m' \<Longrightarrow> wf27 w \<Longrightarrow>
      load m' b = (if b = a then Inr w else load m b)"
begin

lemma load_wf: "load m a = Inr w \<Longrightarrow> wf27 w"
  using load_in [of a m] load_out [of m a] by (cases "a < cells m") auto

lemma store_words_block:
  assumes "a + length ws \<le> cells m" and "list_all wf27 ws"
  shows "\<exists>m'. store_words store m a ws = Inr m' \<and> cells m' = cells m \<and>
    (\<forall>b. load m' b = (if a \<le> b \<and> b < a + length ws then Inr (ws ! (b - a)) else load m b))"
  using assms
proof (induction ws arbitrary: a m)
  case (Cons w ws)
  then obtain m1 where m1: "store m a w = Inr m1"
    using store_in [of a m w] by auto
  then have c1: "cells m1 = cells m" by (rule store_cells)
  obtain m' where m': "store_words store m1 (Suc a) ws = Inr m'" "cells m' = cells m1"
    and ld: "\<forall>b. load m' b =
      (if Suc a \<le> b \<and> b < Suc a + length ws then Inr (ws ! (b - Suc a)) else load m1 b)"
    using Cons.IH [of "Suc a" m1] Cons.prems c1 by auto
  have "load m' b = (if a \<le> b \<and> b < a + length (w # ws) then Inr ((w # ws) ! (b - a)) else load m b)" for b
    using ld [rule_format, of b] load_store [OF m1, of b] Cons.prems
    by (auto simp: nth_Cons' not_less_eq_eq)
  then show ?case using m1 m' c1 by auto
qed auto

lemma store_words_load:
  "a + length ws \<le> cells m \<Longrightarrow> list_all wf27 ws \<Longrightarrow> store_words store m a ws = Inr m' \<Longrightarrow>
   k < length ws \<Longrightarrow> load m' (a + k) = Inr (ws ! k)"
  using store_words_block [of a ws m] by auto

lemma store_words_frame:
  "a + length ws \<le> cells m \<Longrightarrow> list_all wf27 ws \<Longrightarrow> store_words store m a ws = Inr m' \<Longrightarrow>
   b < a \<or> a + length ws \<le> b \<Longrightarrow> load m' b = load m b"
  using store_words_block [of a ws m] by auto

lemma store_words_cells: "store_words store m a ws = Inr m' \<Longrightarrow> cells m' = cells m"
proof (induction ws arbitrary: a m)
  case (Cons w ws)
  then show ?case using store_cells by fastforce
qed simp

end

interpretation ram: word_store load_word store_word size_words
  by unfold_locales
    (auto simp: load_word_def store_word_def size_words_def nth_list_update unpack_pack
      split: if_splits)

section \<open>Register file\<close>

record regfile =
  rf_scalars :: "word27 list"
  rf_pc :: word27
  rf_halted :: bool
  rf_vecs :: "vec list"
  rf_accs :: "vaccum list"

definition mk_regfile :: regfile where
  "mk_regfile =
     \<lparr>rf_scalars = replicate 27 word27_zero, rf_pc = word27_zero, rf_halted = False,
      rf_vecs = replicate 9 vec_zero, rf_accs = replicate 3 vaccum_zero\<rparr>"

definition reg_check :: "int \<Rightarrow> unit res" where
  "reg_check idx = (if idx < 0 \<or> idx \<ge> 27 then Inl (OutOfRange ''RegFile index'') else Inr ())"

definition vreg_check :: "int \<Rightarrow> unit res" where
  "vreg_check idx = (if idx < 0 \<or> idx \<ge> 9 then Inl (OutOfRange ''vreg'') else Inr ())"

definition acc_check :: "int \<Rightarrow> unit res" where
  "acc_check idx = (if idx < 0 \<or> idx \<ge> 3 then Inl (OutOfRange ''acc'') else Inr ())"

definition read_scalar :: "regfile \<Rightarrow> int \<Rightarrow> word27 res" where
  "read_scalar r idx =
     rbind (reg_check idx) (\<lambda>_. Inr (if idx = 0 then word27_zero else rf_scalars r ! nat idx))"

definition write_scalar :: "regfile \<Rightarrow> int \<Rightarrow> word27 \<Rightarrow> regfile res" where
  "write_scalar r idx v =
     rbind (reg_check idx) (\<lambda>_.
       Inr (if idx = 0 then r else r\<lparr>rf_scalars := (rf_scalars r)[nat idx := v]\<rparr>))"

definition read_vec :: "regfile \<Rightarrow> int \<Rightarrow> vec res" where
  "read_vec r idx = rbind (vreg_check idx) (\<lambda>_. Inr (rf_vecs r ! nat idx))"

definition write_vec :: "regfile \<Rightarrow> int \<Rightarrow> vec \<Rightarrow> regfile res" where
  "write_vec r idx v =
     rbind (vreg_check idx) (\<lambda>_. Inr (r\<lparr>rf_vecs := (rf_vecs r)[nat idx := v]\<rparr>))"

definition read_acc :: "regfile \<Rightarrow> int \<Rightarrow> vaccum res" where
  "read_acc r idx = rbind (acc_check idx) (\<lambda>_. Inr (rf_accs r ! nat idx))"

text \<open>\<open>RegFile::acc\<close> hands out a reference; the write through it is this update.\<close>

definition write_acc :: "regfile \<Rightarrow> int \<Rightarrow> vaccum \<Rightarrow> regfile res" where
  "write_acc r idx a =
     rbind (acc_check idx) (\<lambda>_. Inr (r\<lparr>rf_accs := (rf_accs r)[nat idx := a]\<rparr>))"

definition reset_caller_saved :: "regfile \<Rightarrow> regfile" where
  "reset_caller_saved r =
     r\<lparr>rf_scalars := foldl (\<lambda>xs i. xs[i := word27_zero]) (rf_scalars r) [8..<16],
       rf_vecs := foldl (\<lambda>xs i. xs[i := vec_zero]) (rf_vecs r) [0..<9],
       rf_accs := foldl (\<lambda>xs i. xs[i := vaccum_zero]) (rf_accs r) [0..<3]\<rparr>"

text \<open>The class invariant; register 0 is never written.\<close>

definition wf_regs :: "regfile \<Rightarrow> bool" where
  "wf_regs r \<longleftrightarrow>
     length (rf_scalars r) = 27 \<and> list_all wf27 (rf_scalars r) \<and> rf_scalars r ! 0 = word27_zero \<and>
     wf27 (rf_pc r) \<and> length (rf_vecs r) = 9 \<and> list_all wf_vec (rf_vecs r) \<and>
     length (rf_accs r) = 3 \<and> list_all wf_acc (rf_accs r)"

lemma wf_regs_init: "wf_regs mk_regfile"
  by (simp add: wf_regs_def mk_regfile_def list_all_length)

lemma wf_regs_pc [simp]: "wf_regs r \<Longrightarrow> wf27 w \<Longrightarrow> wf_regs (r\<lparr>rf_pc := w\<rparr>)"
  and wf_regs_halted [simp]: "wf_regs r \<Longrightarrow> wf_regs (r\<lparr>rf_halted := b\<rparr>)"
  by (simp_all add: wf_regs_def)

lemma read_scalar_wf: "wf_regs r \<Longrightarrow> read_scalar r idx = Inr w \<Longrightarrow> wf27 w"
  by (auto simp: read_scalar_def reg_check_def wf_regs_def list_all_length split: if_splits)

lemma read_vec_wf: "wf_regs r \<Longrightarrow> read_vec r idx = Inr v \<Longrightarrow> wf_vec v"
  by (auto simp: read_vec_def vreg_check_def wf_regs_def list_all_length split: if_splits)

lemma read_acc_wf: "wf_regs r \<Longrightarrow> read_acc r idx = Inr a \<Longrightarrow> wf_acc a"
  by (auto simp: read_acc_def acc_check_def wf_regs_def list_all_length split: if_splits)

lemma write_scalar_wf: "wf_regs r \<Longrightarrow> wf27 w \<Longrightarrow> write_scalar r idx w = Inr r' \<Longrightarrow> wf_regs r'"
  by (auto simp: write_scalar_def reg_check_def wf_regs_def list_all_update split: if_splits)

lemma write_vec_wf: "wf_regs r \<Longrightarrow> wf_vec v \<Longrightarrow> write_vec r idx v = Inr r' \<Longrightarrow> wf_regs r'"
  by (auto simp: write_vec_def vreg_check_def wf_regs_def list_all_update split: if_splits)

lemma write_acc_wf: "wf_regs r \<Longrightarrow> wf_acc a \<Longrightarrow> write_acc r idx a = Inr r' \<Longrightarrow> wf_regs r'"
  by (auto simp: write_acc_def acc_check_def wf_regs_def list_all_update split: if_splits)

lemma foldl_update_all:
  "list_all P xs \<Longrightarrow> P x \<Longrightarrow> list_all P (foldl (\<lambda>ys i. ys[i := x]) xs is)"
  by (induction "is" arbitrary: xs) (simp_all add: list_all_update)

lemma foldl_update_length: "length (foldl (\<lambda>ys i. ys[i := x]) xs is) = length xs"
  by (induction "is" arbitrary: xs) simp_all

lemma foldl_update_nth:
  "k < length xs \<Longrightarrow> foldl (\<lambda>ys i. ys[i := x]) xs is ! k = (if k \<in> set is then x else xs ! k)"
  by (induction "is" arbitrary: xs) auto

lemma reset_caller_saved_wf [simp]: "wf_regs r \<Longrightarrow> wf_regs (reset_caller_saved r)"
  by (simp add: wf_regs_def reset_caller_saved_def foldl_update_all foldl_update_length foldl_update_nth
      del: upt_rec_numeral)

section \<open>Operation counters\<close>

text \<open>
  256 counters of \<open>uint64_t\<close> and their total. The index is the opcode modulo 256.
\<close>

record op_counters =
  oc_counts :: "nat \<Rightarrow> 64 word"
  oc_total :: "64 word"

definition counters_init :: op_counters where
  "counters_init = \<lparr>oc_counts = (\<lambda>_. 0), oc_total = 0\<rparr>"

definition slot :: "opcode \<Rightarrow> nat" where
  "slot p = nat (opcode_value p mod 256)"

definition bump_n :: "opcode \<Rightarrow> 64 word \<Rightarrow> op_counters \<Rightarrow> op_counters" where
  "bump_n p n c = c\<lparr>oc_counts := (oc_counts c)(slot p := oc_counts c (slot p) + n), oc_total := oc_total c + n\<rparr>"

definition bump :: "opcode \<Rightarrow> op_counters \<Rightarrow> op_counters" where
  "bump p c = c\<lparr>oc_counts := (oc_counts c)(slot p := oc_counts c (slot p) + 1), oc_total := oc_total c + 1\<rparr>"

definition get_count :: "opcode \<Rightarrow> op_counters \<Rightarrow> 64 word" where
  "get_count p c = oc_counts c (slot p)"

definition counters_reset :: "op_counters \<Rightarrow> op_counters" where
  "counters_reset c = \<lparr>oc_counts = (\<lambda>_. 0), oc_total = 0\<rparr>"

lemma slot_inject [simp]: "slot p = slot q \<longleftrightarrow> p = q"
  using opcode_value_bounds [of p] opcode_value_bounds [of q]
  by (auto simp: slot_def nat_eq_iff2 mod_pos_pos_trivial)

lemma slot_less: "slot p < 256"
  by (simp add: slot_def nat_less_iff)

lemma bump_is_bump_n: "bump p c = bump_n p 1 c"
  by (simp add: bump_def bump_n_def)

text \<open>No two opcodes share a counter, and the total is the sum of all counters.\<close>

lemma get_count_bump_n: "get_count q (bump_n p n c) = get_count q c + (if q = p then n else 0)"
  by (simp add: get_count_def bump_n_def)

definition total_ok :: "op_counters \<Rightarrow> bool" where
  "total_ok c \<longleftrightarrow> oc_total c = (\<Sum>k \<leftarrow> [0..<256]. oc_counts c k)"

lemma sum_list_fun_upd:
  "distinct xs \<Longrightarrow> k \<in> set xs \<Longrightarrow>
   (\<Sum>x \<leftarrow> xs. (f(k := f k + n)) x) = (\<Sum>x \<leftarrow> xs. f x) + (n :: 'a :: comm_monoid_add)"
proof (induction xs)
  case (Cons a xs)
  show ?case
  proof (cases "a = k")
    case True
    then have "(\<Sum>x \<leftarrow> xs. (f(k := f k + n)) x) = (\<Sum>x \<leftarrow> xs. f x)"
      using Cons.prems by (intro arg_cong [where f = sum_list] map_cong) auto
    then show ?thesis using True by (simp add: ac_simps)
  next
    case False
    then show ?thesis using Cons by (simp add: ac_simps)
  qed
qed simp

lemma total_ok_bump_n: "total_ok c \<Longrightarrow> total_ok (bump_n p n c)"
  using sum_list_fun_upd [of "[0..<256]" "slot p" "oc_counts c" n]
  by (simp add: total_ok_def bump_n_def slot_less del: fun_upd_apply upt_rec_numeral)

lemma sum_list_zero: "(\<Sum>k \<leftarrow> xs. 0 :: 'a :: comm_monoid_add) = 0"
  by (induction xs) simp_all

lemma total_ok_init: "total_ok counters_init"
  and total_ok_reset: "total_ok (counters_reset c)"
  by (simp_all add: total_ok_def counters_init_def counters_reset_def sum_list_zero
      del: upt_rec_numeral)

section \<open>The simulator object\<close>

record sim =
  sim_mem :: memory
  sim_regs :: regfile
  sim_counters :: op_counters

definition mk_sim :: "nat \<Rightarrow> sim" where
  "mk_sim mem_words = \<lparr>sim_mem = mk_memory mem_words, sim_regs = mk_regfile, sim_counters = counters_init\<rparr>"

text \<open>The object invariant every operation of the simulator keeps.\<close>

definition wf_sim :: "sim \<Rightarrow> bool" where
  "wf_sim s \<longleftrightarrow> wf_regs (sim_regs s) \<and> total_ok (sim_counters s)"

lemma wf_sim_init: "wf_sim (mk_sim n)"
  by (simp add: wf_sim_def mk_sim_def wf_regs_init total_ok_init)

end
