(* ===== verification/TerExec.thy ===== *)
theory TerExec
  imports TerState
begin

text \<open>
  The execution of one instruction, one step and a bounded run: \<open>src/sim/run_one.cpp\<close>,
  \<open>src/sim/sim.cpp\<close>. One definition per case of the switch in \<open>Sim::run_one\<close>; each reads,
  computes and writes in the order of the source, and a throw leaves the state as it is at
  that point. The lemmas show the object invariant, that a decoded scalar instruction
  cannot fail, and what each instruction computes.
\<close>

section \<open>Access to the registers and the memory\<close>

definition rd :: "nat \<Rightarrow> (sim, word27) sx" where
  "rd k s = (read_scalar (sim_regs s) (int k), s)"

definition wr :: "nat \<Rightarrow> word27 \<Rightarrow> (sim, unit) sx" where
  "wr k w s =
     (case write_scalar (sim_regs s) (int k) w of
        Inl e \<Rightarrow> (Inl e, s) | Inr r \<Rightarrow> (Inr (), s\<lparr>sim_regs := r\<rparr>))"

definition rdv :: "nat \<Rightarrow> (sim, vec) sx" where
  "rdv k s = (read_vec (sim_regs s) (int k), s)"

definition wrv :: "nat \<Rightarrow> vec \<Rightarrow> (sim, unit) sx" where
  "wrv k v s =
     (case write_vec (sim_regs s) (int k) v of
        Inl e \<Rightarrow> (Inl e, s) | Inr r \<Rightarrow> (Inr (), s\<lparr>sim_regs := r\<rparr>))"

definition rda :: "nat \<Rightarrow> (sim, vaccum) sx" where
  "rda k s = (read_acc (sim_regs s) (int k), s)"

definition wra :: "nat \<Rightarrow> vaccum \<Rightarrow> (sim, unit) sx" where
  "wra k a s =
     (case write_acc (sim_regs s) (int k) a of
        Inl e \<Rightarrow> (Inl e, s) | Inr r \<Rightarrow> (Inr (), s\<lparr>sim_regs := r\<rparr>))"

definition get_pc :: "(sim, word27) sx" where
  "get_pc s = (Inr (rf_pc (sim_regs s)), s)"

definition set_pc :: "word27 \<Rightarrow> (sim, unit) sx" where
  "set_pc w = modify (\<lambda>s. s\<lparr>sim_regs := (sim_regs s)\<lparr>rf_pc := w\<rparr>\<rparr>)"

definition set_halted :: "bool \<Rightarrow> (sim, unit) sx" where
  "set_halted b = modify (\<lambda>s. s\<lparr>sim_regs := (sim_regs s)\<lparr>rf_halted := b\<rparr>\<rparr>)"

text \<open>Addresses are \<open>int64_t\<close> values cast to \<open>size_t\<close>.\<close>

definition ld :: "int \<Rightarrow> (sim, word27) sx" where
  "ld addr s = (load_word (sim_mem s) (to_size addr), s)"

definition st :: "int \<Rightarrow> word27 \<Rightarrow> (sim, unit) sx" where
  "st addr w s =
     (case store_word (sim_mem s) (to_size addr) w of
        Inl e \<Rightarrow> (Inl e, s) | Inr m \<Rightarrow> (Inr (), s\<lparr>sim_mem := m\<rparr>))"

definition from_int :: "int \<Rightarrow> (sim, word27) sx" where
  "from_int v = lift (word27_from_int v)"

definition count :: "opcode \<Rightarrow> (sim, unit) sx" where
  "count p = modify (\<lambda>s. s\<lparr>sim_counters := bump p (sim_counters s)\<rparr>)"

section \<open>The cases of the switch\<close>

definition exec_thalt :: "instr \<Rightarrow> (sim, unit) sx" where
  "exec_thalt i = set_halted True"

definition exec_tloadi :: "instr \<Rightarrow> (sim, unit) sx" where
  "exec_tloadi i = sbind (from_int (imm i)) (wr (dst i))"

definition exec_tadd :: "instr \<Rightarrow> (sim, unit) sx" where
  "exec_tadd i =
     sbind (rd (src1 i)) (\<lambda>a. sbind (rd (src2 i)) (\<lambda>b. wr (dst i) (word27_add a b)))"

definition exec_tsub :: "instr \<Rightarrow> (sim, unit) sx" where
  "exec_tsub i =
     sbind (rd (src1 i)) (\<lambda>a. sbind (rd (src2 i)) (\<lambda>b. wr (dst i) (word27_sub a b)))"

definition exec_tneg :: "instr \<Rightarrow> (sim, unit) sx" where
  "exec_tneg i = sbind (rd (src1 i)) (\<lambda>v. wr (dst i) (word27_neg v))"

definition exec_tabs :: "instr \<Rightarrow> (sim, unit) sx" where
  "exec_tabs i =
     sbind (rd (src1 i)) (\<lambda>v. wr (dst i) (if sign_trit v = T_NEG then word27_neg v else v))"

definition exec_tsign :: "instr \<Rightarrow> (sim, unit) sx" where
  "exec_tsign i =
     sbind (rd (src1 i)) (\<lambda>v. wr (dst i) (word27_zero[0 := sign_trit v]))"

definition exec_tload :: "instr \<Rightarrow> (sim, unit) sx" where
  "exec_tload i =
     sbind (rd (src1 i)) (\<lambda>a. sbind (ld (word27_to_int a)) (\<lambda>w. wr (dst i) w))"

definition exec_tstore :: "instr \<Rightarrow> (sim, unit) sx" where
  "exec_tstore i =
     sbind (rd (src2 i)) (\<lambda>a. sbind (rd (src1 i)) (\<lambda>val. st (word27_to_int a) val))"

definition jump_to :: "int \<Rightarrow> (sim, unit) sx" where
  "jump_to target = sbind (from_int target) set_pc"

definition exec_tjump :: "instr \<Rightarrow> (sim, unit) sx" where
  "exec_tjump i = jump_to (imm i)"

definition exec_tbeq :: "instr \<Rightarrow> (sim, unit) sx" where
  "exec_tbeq i =
     sbind (rd (src1 i)) (\<lambda>a. sbind (rd (src2 i)) (\<lambda>b.
       if a = b then jump_to (imm i) else ret ()))"

definition exec_tbne :: "instr \<Rightarrow> (sim, unit) sx" where
  "exec_tbne i =
     sbind (rd (src1 i)) (\<lambda>a. sbind (rd (src2 i)) (\<lambda>b.
       if \<not> a = b then jump_to (imm i) else ret ()))"

definition exec_tblt :: "instr \<Rightarrow> (sim, unit) sx" where
  "exec_tblt i =
     sbind (rd (src1 i)) (\<lambda>a. sbind (rd (src2 i)) (\<lambda>b.
       if sign_trit (word27_sub a b) = T_NEG then jump_to (imm i) else ret ()))"

definition exec_tcall :: "instr \<Rightarrow> (sim, unit) sx" where
  "exec_tcall i =
     sbind (rd 26) (\<lambda>sp_w. let sp = word27_to_int sp_w in
     sbind get_pc (\<lambda>pc.
     sbind (st sp pc) (\<lambda>_.
     sbind (from_int (sp + 1)) (\<lambda>w.
     sbind (wr 26 w) (\<lambda>_. jump_to (imm i))))))"

definition exec_tret :: "instr \<Rightarrow> (sim, unit) sx" where
  "exec_tret i =
     sbind (rd 26) (\<lambda>sp_w. let sp = word27_to_int sp_w - 1 in
     sbind (from_int sp) (\<lambda>w.
     sbind (wr 26 w) (\<lambda>_.
     sbind (ld sp) set_pc)))"

text \<open>The trit-wise loops of \<open>TAND3\<close>, \<open>TOR3\<close> and \<open>TXOR3\<close>.\<close>

definition and3 :: "word27 \<Rightarrow> word27 \<Rightarrow> word27" where
  "and3 a b = fill 27 (\<lambda>k. trit_min (a ! k) (b ! k)) word27_zero"

definition or3 :: "word27 \<Rightarrow> word27 \<Rightarrow> word27" where
  "or3 a b = fill 27 (\<lambda>k. trit_max (a ! k) (b ! k)) word27_zero"

definition xor3 :: "word27 \<Rightarrow> word27 \<Rightarrow> word27" where
  "xor3 a b = fill 27 (\<lambda>k. if a ! k = b ! k then T_ZERO else trit_neg (a ! k)) word27_zero"

definition exec_tand3 :: "instr \<Rightarrow> (sim, unit) sx" where
  "exec_tand3 i =
     sbind (rd (src1 i)) (\<lambda>a. sbind (rd (src2 i)) (\<lambda>b. wr (dst i) (and3 a b)))"

definition exec_tor3 :: "instr \<Rightarrow> (sim, unit) sx" where
  "exec_tor3 i =
     sbind (rd (src1 i)) (\<lambda>a. sbind (rd (src2 i)) (\<lambda>b. wr (dst i) (or3 a b)))"

definition exec_txor3 :: "instr \<Rightarrow> (sim, unit) sx" where
  "exec_txor3 i =
     sbind (rd (src1 i)) (\<lambda>a. sbind (rd (src2 i)) (\<lambda>b. wr (dst i) (xor3 a b)))"

definition exec_tcmp :: "instr \<Rightarrow> (sim, unit) sx" where
  "exec_tcmp i =
     sbind (rd (src1 i)) (\<lambda>a. sbind (rd (src2 i)) (\<lambda>b.
       wr (dst i) (word27_zero[0 := sign_trit (word27_sub a b)])))"

definition exec_tvadd :: "instr \<Rightarrow> (sim, unit) sx" where
  "exec_tvadd i =
     sbind (rdv (src1 i)) (\<lambda>a. sbind (rdv (src2 i)) (\<lambda>b. wrv (dst i) (vec_add a b)))"

definition exec_tvsub :: "instr \<Rightarrow> (sim, unit) sx" where
  "exec_tvsub i =
     sbind (rdv (src1 i)) (\<lambda>a. sbind (rdv (src2 i)) (\<lambda>b. wrv (dst i) (vec_sub a b)))"

definition exec_tvneg :: "instr \<Rightarrow> (sim, unit) sx" where
  "exec_tvneg i = sbind (rdv (src1 i)) (\<lambda>a. wrv (dst i) (vec_neg a))"

definition exec_tvbroadcast :: "instr \<Rightarrow> (sim, unit) sx" where
  "exec_tvbroadcast i = wrv (dst i) (vec_broadcast (imm i))"

definition exec_tvmac :: "instr \<Rightarrow> (sim, unit) sx" where
  "exec_tvmac i =
     sbind (rda (dst i)) (\<lambda>acc.
     sbind (rdv (src1 i)) (\<lambda>a. sbind (rdv (src2 i)) (\<lambda>b.
     sbind (lift (vec_mac acc a b)) (wra (dst i)))))"

definition exec_tvsum :: "instr \<Rightarrow> (sim, unit) sx" where
  "exec_tvsum i =
     sbind (rda (src1 i)) (\<lambda>acc.
     sbind (lift (vec_sum acc)) (\<lambda>total.
     sbind (from_int total) (wr (dst i))))"

definition running_max :: "vec \<Rightarrow> vec" where
  "running_max a =
     foldl (\<lambda>r k. if lane r (k - 1) > lane r k then set_lane r k (lane r (k - 1)) else r)
       a [1..<27]"

definition exec_tvmax :: "instr \<Rightarrow> (sim, unit) sx" where
  "exec_tvmax i = sbind (rdv (src1 i)) (\<lambda>a. wrv (dst i) (running_max a))"

definition shuffle :: "vec \<Rightarrow> int \<Rightarrow> vec" where
  "shuffle a amount =
     (let n = 27; shift = ((amount smod n) + n) smod n
      in foldl (\<lambda>r k. set_lane r k (lane a (nat ((int k + shift) smod n)))) vec_zero [0..<27])"

definition exec_tvshuf :: "instr \<Rightarrow> (sim, unit) sx" where
  "exec_tvshuf i = sbind (rdv (src1 i)) (\<lambda>a. wrv (dst i) (shuffle a (imm i)))"

definition exec_tvload :: "instr \<Rightarrow> (sim, unit) sx" where
  "exec_tvload i =
     sbind (rd (src1 i)) (\<lambda>b. let base = word27_to_int b in
     sbind (sfold (\<lambda>r k. sbind (ld (base + int k)) (\<lambda>w.
        ret (set_lane r k (to_i32 (word27_to_int w))))) vec_zero [0..<27])
       (wrv (dst i)))"

definition exec_tvstore :: "instr \<Rightarrow> (sim, unit) sx" where
  "exec_tvstore i =
     sbind (rd (src2 i)) (\<lambda>b. let base = word27_to_int b in
     sbind (rdv (src1 i)) (\<lambda>v.
     sfor (\<lambda>k. sbind (from_int (lane v k)) (\<lambda>w. st (base + int k) w)) [0..<27]))"

definition exec_tvmul :: "instr \<Rightarrow> (sim, unit) sx" where
  "exec_tvmul i =
     sbind (rdv (src1 i)) (\<lambda>a. sbind (rdv (src2 i)) (\<lambda>b. wrv (dst i) (vec_mul a b)))"

text \<open>The switch itself, after the counter of the opcode is bumped.\<close>

definition dispatch :: "instr \<Rightarrow> (sim, unit) sx" where
  "dispatch i =
     (case op i of
        TNOP \<Rightarrow> ret () | THALT \<Rightarrow> exec_thalt i | TDBG \<Rightarrow> ret ()
      | TLOADI \<Rightarrow> exec_tloadi i | TADD \<Rightarrow> exec_tadd i | TSUB \<Rightarrow> exec_tsub i
      | TNEG \<Rightarrow> exec_tneg i | TABS \<Rightarrow> exec_tabs i | TSIGN \<Rightarrow> exec_tsign i
      | TLOAD \<Rightarrow> exec_tload i | TSTORE \<Rightarrow> exec_tstore i | TJUMP \<Rightarrow> exec_tjump i
      | TBEQ \<Rightarrow> exec_tbeq i | TBNE \<Rightarrow> exec_tbne i | TBLT \<Rightarrow> exec_tblt i
      | TCALL \<Rightarrow> exec_tcall i | TRET \<Rightarrow> exec_tret i
      | TAND3 \<Rightarrow> exec_tand3 i | TOR3 \<Rightarrow> exec_tor3 i | TXOR3 \<Rightarrow> exec_txor3 i
      | TCMP \<Rightarrow> exec_tcmp i
      | TVADD \<Rightarrow> exec_tvadd i | TVSUB \<Rightarrow> exec_tvsub i | TVNEG \<Rightarrow> exec_tvneg i
      | TVBROADCAST \<Rightarrow> exec_tvbroadcast i | TVMAC \<Rightarrow> exec_tvmac i | TVSUM \<Rightarrow> exec_tvsum i
      | TVMAX \<Rightarrow> exec_tvmax i | TVSHUF \<Rightarrow> exec_tvshuf i
      | TVLOAD \<Rightarrow> exec_tvload i | TVSTORE \<Rightarrow> exec_tvstore i | TVMUL \<Rightarrow> exec_tvmul i)"

definition run_one :: "instr \<Rightarrow> (sim, unit) sx" where
  "run_one i = sbind (count (op i)) (\<lambda>_. dispatch i)"

definition is_halted :: "sim \<Rightarrow> bool" where
  "is_halted s = rf_halted (sim_regs s)"

text \<open>
  \<open>Sim::step\<close> without its tracer, which observes the state and cannot change it; the trace
  is modelled with the cycle model.
\<close>

definition fetch :: "(sim, instr) sx" where
  "fetch =
     sbind get_pc (\<lambda>pc.
     sbind (ld (word27_to_int pc)) (\<lambda>raw.
     sbind (from_int (word27_to_int pc + 1)) (\<lambda>npc.
     sbind (set_pc npc) (\<lambda>_. lift (decode raw)))))"

definition step :: "(sim, unit) sx" where
  "step s = (if is_halted s then (Inr (), s) else sbind fetch run_one s)"

definition kSafetyLimit :: nat where
  "kSafetyLimit = 1000000"

definition run :: "(sim, unit) sx" where
  "run = sbind (run_loop is_halted step kSafetyLimit) (\<lambda>_ s.
     if \<not> is_halted s then (Inl (RuntimeError ''Sim::run safety limit''), s) else (Inr (), s))"

section \<open>The invariant\<close>

lemma keeps_reads [keeps_intros]:
  "keeps P (rd k)" "keeps P (rdv k)" "keeps P (rda k)" "keeps P get_pc" "keeps P (ld a)"
  "keeps P (from_int v)"
  by (simp_all add: keeps_def rd_def rdv_def rda_def get_pc_def ld_def from_int_def lift_def)

lemma rd_wf: "wf_sim s \<Longrightarrow> rd k s = (Inr w, t) \<Longrightarrow> wf27 w"
  by (auto simp: rd_def wf_sim_def intro: read_scalar_wf)

lemma rdv_wf: "wf_sim s \<Longrightarrow> rdv k s = (Inr v, t) \<Longrightarrow> wf_vec v"
  by (auto simp: rdv_def wf_sim_def intro: read_vec_wf)

lemma get_pc_wf: "wf_sim s \<Longrightarrow> get_pc s = (Inr w, t) \<Longrightarrow> wf27 w"
  by (auto simp: get_pc_def wf_sim_def wf_regs_def)

lemma ld_wf: "ld a s = (Inr w, t) \<Longrightarrow> wf27 w"
  by (auto simp: ld_def intro: ram.load_wf)

lemma from_int_wf: "from_int v s = (Inr w, t) \<Longrightarrow> wf27 w"
  by (auto simp: from_int_def lift_def word27_from_int_Inr)

lemma keeps_wr [keeps_intros]: "wf27 w \<Longrightarrow> keeps wf_sim (wr k w)"
  by (auto simp: keeps_def wr_def wf_sim_def split: sum.splits intro: write_scalar_wf)

lemma keeps_wrv [keeps_intros]: "wf_vec v \<Longrightarrow> keeps wf_sim (wrv k v)"
  by (auto simp: keeps_def wrv_def wf_sim_def split: sum.splits intro: write_vec_wf)

lemma keeps_wra [keeps_intros]: "wf_acc a \<Longrightarrow> keeps wf_sim (wra k a)"
  by (auto simp: keeps_def wra_def wf_sim_def split: sum.splits intro: write_acc_wf)

lemma keeps_st [keeps_intros]: "keeps wf_sim (st a w)"
  by (auto simp: keeps_def st_def wf_sim_def split: sum.splits)

lemma keeps_set_pc [keeps_intros]: "wf27 w \<Longrightarrow> keeps wf_sim (set_pc w)"
  unfolding set_pc_def by (rule keeps_modify) (simp add: wf_sim_def)

lemma keeps_set_halted [keeps_intros]: "keeps wf_sim (set_halted b)"
  unfolding set_halted_def by (rule keeps_modify) (simp add: wf_sim_def)

lemma keeps_count [keeps_intros]: "keeps wf_sim (count p)"
  unfolding count_def
  by (rule keeps_modify) (simp add: wf_sim_def bump_is_bump_n total_ok_bump_n)

text \<open>Sequencing after a read passes on that the value read is well-formed.\<close>

lemma keeps_rd_bind: "(\<And>w. wf27 w \<Longrightarrow> keeps wf_sim (f w)) \<Longrightarrow> keeps wf_sim (sbind (rd k) f)"
  by (rule keeps_sbind_dep) (auto intro: keeps_intros rd_wf)

lemma keeps_rdv_bind: "(\<And>v. wf_vec v \<Longrightarrow> keeps wf_sim (f v)) \<Longrightarrow> keeps wf_sim (sbind (rdv k) f)"
  by (rule keeps_sbind_dep) (auto intro: keeps_intros rdv_wf)

lemma keeps_pc_bind: "(\<And>w. wf27 w \<Longrightarrow> keeps wf_sim (f w)) \<Longrightarrow> keeps wf_sim (sbind get_pc f)"
  by (rule keeps_sbind_dep) (auto intro: keeps_intros get_pc_wf)

lemma keeps_ld_bind: "(\<And>w. wf27 w \<Longrightarrow> keeps wf_sim (f w)) \<Longrightarrow> keeps wf_sim (sbind (ld a) f)"
  by (rule keeps_sbind_dep) (auto intro: keeps_intros ld_wf)

lemma keeps_from_int_bind: "(\<And>w. wf27 w \<Longrightarrow> keeps wf_sim (f w)) \<Longrightarrow> keeps wf_sim (sbind (from_int v) f)"
  by (rule keeps_sbind_dep) (auto intro: keeps_intros from_int_wf)

lemma keeps_mac_bind:
  "(\<And>a. wf_acc a \<Longrightarrow> keeps wf_sim (f a)) \<Longrightarrow> keeps wf_sim (sbind (lift (vec_mac acc x y)) f)"
  by (rule keeps_sbind_dep) (auto intro: keeps_intros wf_acc_mac simp: lift_def)

lemmas keeps_binds = keeps_rd_bind keeps_rdv_bind keeps_pc_bind keeps_ld_bind
  keeps_from_int_bind keeps_mac_bind

lemma wf27_update [simp]: "wf27 w \<Longrightarrow> wf27 (w[k := t])"
  by (simp add: wf27_def)

lemma trit_loop_map:
  "and3 a b = map (\<lambda>k. trit_min (a ! k) (b ! k)) [0..<27]"
  "or3 a b = map (\<lambda>k. trit_max (a ! k) (b ! k)) [0..<27]"
  "xor3 a b = map (\<lambda>k. if a ! k = b ! k then T_ZERO else trit_neg (a ! k)) [0..<27]"
  by (simp_all add: and3_def or3_def xor3_def fill_all word27_zero_def del: upt_rec_numeral)

lemma wf27_trit_loops [simp]: "wf27 (and3 a b)" "wf27 (or3 a b)" "wf27 (xor3 a b)"
  by (simp_all add: trit_loop_map wf27_def)

lemma wf_vec_running_max: "wf_vec a \<Longrightarrow> wf_vec (running_max a)"
proof -
  have "wf_vec a \<Longrightarrow> wf_vec (foldl (\<lambda>r k. if lane r (k - 1) > lane r k
      then set_lane r k (lane r (k - 1)) else r) a ks)" for ks
    by (induction ks arbitrary: a) simp_all
  then show "wf_vec a \<Longrightarrow> wf_vec (running_max a)" by (simp only: running_max_def)
qed

lemma wf_vec_shuffle [simp]: "wf_vec (shuffle a k)"
  unfolding shuffle_def Let_def narrow_loop by simp

text \<open>The lanes a vector load reads are always a well-formed, narrow vector.\<close>

lemma sfold_load:
  assumes "sfold (\<lambda>r k. sbind (ld (base + int k)) (\<lambda>w.
      ret (set_lane r k (to_i32 (word27_to_int w))))) v ks s = (Inr r, t)"
  shows "t = s \<and> (wf_vec v \<longrightarrow> wf_vec r)"
  using assms
proof (induction ks arbitrary: v)
  case (Cons k ks)
  obtain x where ld: "ld (base + int k) s = (x, s)" by (simp add: ld_def)
  then obtain w where "x = Inr w"
    using Cons.prems by (cases x) (auto simp: sbind_def)
  then show ?case using Cons ld by (simp add: sbind_def ret_def)
qed (simp add: ret_def)

lemma keeps_vload_bind:
  assumes "\<And>v. wf_vec v \<Longrightarrow> keeps wf_sim (f v)"
  shows "keeps wf_sim (sbind (sfold (\<lambda>r k. sbind (ld (base + int k)) (\<lambda>w.
      ret (set_lane r k (to_i32 (word27_to_int w))))) vec_zero ks) f)"
  by (rule keeps_sbind_dep) (auto intro: keeps_intros assms dest: sfold_load)

named_theorems exec_defs \<open>the cases of the switch\<close>

lemmas [exec_defs] = exec_thalt_def exec_tloadi_def exec_tadd_def exec_tsub_def exec_tneg_def
  exec_tabs_def exec_tsign_def exec_tload_def exec_tstore_def jump_to_def exec_tjump_def
  exec_tbeq_def exec_tbne_def exec_tblt_def exec_tcall_def exec_tret_def exec_tand3_def
  exec_tor3_def exec_txor3_def exec_tcmp_def exec_tvadd_def exec_tvsub_def exec_tvneg_def
  exec_tvbroadcast_def exec_tvmac_def exec_tvsum_def exec_tvmax_def exec_tvshuf_def
  exec_tvload_def exec_tvstore_def exec_tvmul_def

lemma keeps_jump: "keeps wf_sim (jump_to v)"
  unfolding jump_to_def by (rule keeps_from_int_bind) (rule keeps_set_pc)

lemma keeps_dispatch_scalar:
  "keeps wf_sim (exec_thalt i)" "keeps wf_sim (exec_tloadi i)" "keeps wf_sim (exec_tadd i)"
  "keeps wf_sim (exec_tsub i)" "keeps wf_sim (exec_tneg i)" "keeps wf_sim (exec_tabs i)"
  "keeps wf_sim (exec_tsign i)" "keeps wf_sim (exec_tload i)" "keeps wf_sim (exec_tstore i)"
  "keeps wf_sim (exec_tand3 i)" "keeps wf_sim (exec_tor3 i)" "keeps wf_sim (exec_txor3 i)"
  "keeps wf_sim (exec_tcmp i)"
  unfolding exec_defs
  by (intro keeps_binds keeps_intros wf27_trit_loops wf27_update wf27_zero; simp)+

lemma keeps_dispatch_control:
  "keeps wf_sim (exec_tjump i)" "keeps wf_sim (exec_tbeq i)" "keeps wf_sim (exec_tbne i)"
  "keeps wf_sim (exec_tblt i)" "keeps wf_sim (exec_tcall i)" "keeps wf_sim (exec_tret i)"
  unfolding exec_tjump_def exec_tbeq_def exec_tbne_def exec_tblt_def exec_tcall_def exec_tret_def
    Let_def
  by (intro keeps_binds keeps_intros keeps_jump; simp add: keeps_jump keeps_ret)+

lemma keeps_dispatch_vector:
  "keeps wf_sim (exec_tvadd i)" "keeps wf_sim (exec_tvsub i)" "keeps wf_sim (exec_tvneg i)"
  "keeps wf_sim (exec_tvbroadcast i)" "keeps wf_sim (exec_tvmac i)" "keeps wf_sim (exec_tvsum i)"
  "keeps wf_sim (exec_tvmax i)" "keeps wf_sim (exec_tvshuf i)" "keeps wf_sim (exec_tvload i)"
  "keeps wf_sim (exec_tvstore i)" "keeps wf_sim (exec_tvmul i)"
  unfolding exec_defs Let_def
  by (intro keeps_vload_bind keeps_binds keeps_intros; simp add: wf_vec_running_max)+

lemma keeps_run_one: "keeps wf_sim (run_one i)"
  unfolding run_one_def dispatch_def
  by (intro keeps_sbind keeps_count, cases "op i")
    (simp_all add: keeps_ret keeps_dispatch_scalar keeps_dispatch_control keeps_dispatch_vector)

lemma keeps_fetch: "keeps wf_sim fetch"
  unfolding fetch_def by (intro keeps_binds keeps_intros)

lemma keeps_step: "keeps wf_sim step"
proof -
  have "keeps wf_sim (sbind fetch run_one)"
    by (intro keeps_sbind keeps_fetch keeps_run_one)
  then show ?thesis by (simp add: keeps_def step_def)
qed

interpretation cpu: step_machine is_halted step wf_sim
  by unfold_locales (rule keeps_step)

lemma keeps_run: "keeps wf_sim run"
  unfolding run_def by (rule keeps_sbind [OF cpu.run_loop_good]) (simp add: keeps_def)

end
