(* ===== verification/TerSemantics.thy ===== *)
theory TerSemantics
  imports TerExec
begin

text \<open>
  What the instructions compute. The state is read through views (\<open>sreg\<close>, \<open>vreg\<close>, \<open>areg\<close>,
  \<open>mword\<close>) and changed through updates (\<open>put_sreg\<close>, ...); the access operations of the
  simulator are rewritten into these wherever the operands are in range, so that a
  straight-line piece of code is executed symbolically by the simplifier.
\<close>

section \<open>Views and updates\<close>

definition sreg :: "sim \<Rightarrow> nat \<Rightarrow> word27" where
  "sreg s k = (if k = 0 then word27_zero else rf_scalars (sim_regs s) ! k)"

definition sval :: "sim \<Rightarrow> nat \<Rightarrow> int" where
  "sval s k = word27_to_int (sreg s k)"

definition vreg :: "sim \<Rightarrow> nat \<Rightarrow> vec" where
  "vreg s k = rf_vecs (sim_regs s) ! k"

definition areg :: "sim \<Rightarrow> nat \<Rightarrow> vaccum" where
  "areg s k = rf_accs (sim_regs s) ! k"

definition pcv :: "sim \<Rightarrow> int" where
  "pcv s = word27_to_int (rf_pc (sim_regs s))"

definition msize :: "sim \<Rightarrow> nat" where
  "msize s = size_words (sim_mem s)"

definition mword :: "sim \<Rightarrow> nat \<Rightarrow> word27" where
  "mword s a = unpack_word27 (mem_data (sim_mem s) ! a)"

definition mval :: "sim \<Rightarrow> nat \<Rightarrow> int" where
  "mval s a = word27_to_int (mword s a)"

definition put_sreg :: "nat \<Rightarrow> word27 \<Rightarrow> sim \<Rightarrow> sim" where
  "put_sreg k w s =
     (if k = 0 then s
      else s\<lparr>sim_regs := (sim_regs s)\<lparr>rf_scalars := (rf_scalars (sim_regs s))[k := w]\<rparr>\<rparr>)"

definition put_vreg :: "nat \<Rightarrow> vec \<Rightarrow> sim \<Rightarrow> sim" where
  "put_vreg k v s = s\<lparr>sim_regs := (sim_regs s)\<lparr>rf_vecs := (rf_vecs (sim_regs s))[k := v]\<rparr>\<rparr>"

definition put_areg :: "nat \<Rightarrow> vaccum \<Rightarrow> sim \<Rightarrow> sim" where
  "put_areg k a s = s\<lparr>sim_regs := (sim_regs s)\<lparr>rf_accs := (rf_accs (sim_regs s))[k := a]\<rparr>\<rparr>"

definition put_pc :: "word27 \<Rightarrow> sim \<Rightarrow> sim" where
  "put_pc w s = s\<lparr>sim_regs := (sim_regs s)\<lparr>rf_pc := w\<rparr>\<rparr>"

definition put_mword :: "nat \<Rightarrow> word27 \<Rightarrow> sim \<Rightarrow> sim" where
  "put_mword a w s = s\<lparr>sim_mem := (sim_mem s)\<lparr>mem_data := (mem_data (sim_mem s))[a := pack_word27 w]\<rparr>\<rparr>"

definition put_count :: "opcode \<Rightarrow> sim \<Rightarrow> sim" where
  "put_count p s = s\<lparr>sim_counters := bump p (sim_counters s)\<rparr>"

definition put_halted :: "bool \<Rightarrow> sim \<Rightarrow> sim" where
  "put_halted b s = s\<lparr>sim_regs := (sim_regs s)\<lparr>rf_halted := b\<rparr>\<rparr>"

lemmas view_defs = sreg_def vreg_def areg_def pcv_def msize_def mword_def is_halted_def
lemmas put_defs = put_sreg_def put_vreg_def put_areg_def put_pc_def put_mword_def put_count_def
  put_halted_def

text \<open>The shape every state keeps: the arrays have their sizes.\<close>

definition shaped :: "sim \<Rightarrow> bool" where
  "shaped s \<longleftrightarrow> length (rf_scalars (sim_regs s)) = 27 \<and> length (rf_vecs (sim_regs s)) = 9 \<and>
     length (rf_accs (sim_regs s)) = 3"

lemma wf_sim_shaped [simp]: "wf_sim s \<Longrightarrow> shaped s"
  by (simp add: wf_sim_def wf_regs_def shaped_def)

named_theorems state_simps \<open>views of updated states\<close>

lemma shaped_put [state_simps]:
  "shaped (put_sreg k w s) \<longleftrightarrow> shaped s" "shaped (put_vreg k v s) \<longleftrightarrow> shaped s"
  "shaped (put_areg k a s) \<longleftrightarrow> shaped s" "shaped (put_pc w s) \<longleftrightarrow> shaped s"
  "shaped (put_mword b w s) \<longleftrightarrow> shaped s" "shaped (put_count p s) \<longleftrightarrow> shaped s"
  "shaped (put_halted h s) \<longleftrightarrow> shaped s"
  by (simp_all add: shaped_def put_defs)

lemma sreg_put [state_simps]:
  "shaped s \<Longrightarrow> k < 27 \<Longrightarrow> sreg (put_sreg k w s) j = (if j = k \<and> k \<noteq> 0 then w else sreg s j)"
  "sreg (put_vreg k v s) j = sreg s j" "sreg (put_areg k a s) j = sreg s j"
  "sreg (put_pc w s) j = sreg s j" "sreg (put_mword b w s) j = sreg s j"
  "sreg (put_count p s) j = sreg s j" "sreg (put_halted h s) j = sreg s j"
  by (auto simp: view_defs put_defs shaped_def)

lemma vreg_put [state_simps]:
  "shaped s \<Longrightarrow> k < 9 \<Longrightarrow> vreg (put_vreg k v s) j = (if j = k then v else vreg s j)"
  "vreg (put_sreg k w s) j = vreg s j" "vreg (put_areg k a s) j = vreg s j"
  "vreg (put_pc w s) j = vreg s j" "vreg (put_mword b w s) j = vreg s j"
  "vreg (put_count p s) j = vreg s j" "vreg (put_halted h s) j = vreg s j"
  by (auto simp: view_defs put_defs shaped_def)

lemma areg_put [state_simps]:
  "shaped s \<Longrightarrow> k < 3 \<Longrightarrow> areg (put_areg k a s) j = (if j = k then a else areg s j)"
  "areg (put_sreg k w s) j = areg s j" "areg (put_vreg k v s) j = areg s j"
  "areg (put_pc w s) j = areg s j" "areg (put_mword b w s) j = areg s j"
  "areg (put_count p s) j = areg s j" "areg (put_halted c s) j = areg s j"
  by (auto simp: view_defs put_defs shaped_def)

lemma mword_put [state_simps]:
  "a < msize s \<Longrightarrow> wf27 w \<Longrightarrow> mword (put_mword a w s) b = (if b = a then w else mword s b)"
  "mword (put_sreg k w s) b = mword s b" "mword (put_vreg k v s) b = mword s b"
  "mword (put_areg k c s) b = mword s b" "mword (put_pc w s) b = mword s b"
  "mword (put_count p s) b = mword s b" "mword (put_halted h s) b = mword s b"
  by (auto simp: view_defs put_defs size_words_def unpack_pack nth_list_update)

lemma msize_put [state_simps]:
  "msize (put_mword a w s) = msize s" "msize (put_sreg k w s) = msize s"
  "msize (put_vreg k v s) = msize s" "msize (put_areg k c s) = msize s"
  "msize (put_pc w s) = msize s" "msize (put_count p s) = msize s"
  "msize (put_halted h s) = msize s"
  by (simp_all add: view_defs put_defs size_words_def)

lemma pc_put [state_simps]:
  "rf_pc (sim_regs (put_pc w s)) = w" "rf_pc (sim_regs (put_sreg k v s)) = rf_pc (sim_regs s)"
  "rf_pc (sim_regs (put_vreg k u s)) = rf_pc (sim_regs s)"
  "rf_pc (sim_regs (put_areg k u s)) = rf_pc (sim_regs s)"
  "rf_pc (sim_regs (put_mword a v s)) = rf_pc (sim_regs s)"
  "rf_pc (sim_regs (put_count p s)) = rf_pc (sim_regs s)"
  "rf_pc (sim_regs (put_halted b s)) = rf_pc (sim_regs s)"
  by (simp_all add: put_defs)

lemma pcv_put [state_simps]:
  "pcv (put_pc w s) = word27_to_int w" "pcv (put_sreg k v s) = pcv s"
  "pcv (put_vreg k u s) = pcv s" "pcv (put_areg k u s) = pcv s" "pcv (put_mword a v s) = pcv s"
  "pcv (put_count p s) = pcv s" "pcv (put_halted b s) = pcv s"
  by (simp_all add: pcv_def state_simps)

lemma halted_put [state_simps]:
  "is_halted (put_halted b s) = b" "is_halted (put_pc w s) = is_halted s"
  "is_halted (put_sreg k v s) = is_halted s"
  "is_halted (put_vreg k u s) = is_halted s" "is_halted (put_areg k u s) = is_halted s"
  "is_halted (put_mword a v s) = is_halted s" "is_halted (put_count p s) = is_halted s"
  by (simp_all add: view_defs put_defs)

lemma counters_put [state_simps]:
  "sim_counters (put_count p s) = bump p (sim_counters s)"
  "sim_counters (put_pc w s) = sim_counters s" "sim_counters (put_sreg k v s) = sim_counters s"
  "sim_counters (put_vreg k u s) = sim_counters s" "sim_counters (put_areg k u s) = sim_counters s"
  "sim_counters (put_mword a v s) = sim_counters s"
  "sim_counters (put_halted b s) = sim_counters s"
  by (simp_all add: put_defs)

lemma sval_put [state_simps]:
  "shaped s \<Longrightarrow> k < 27 \<Longrightarrow> sval (put_sreg k w s) j = (if j = k \<and> k \<noteq> 0 then word27_to_int w else sval s j)"
  "sval (put_vreg k v s) j = sval s j" "sval (put_areg k a s) j = sval s j"
  "sval (put_pc w s) j = sval s j" "sval (put_mword b w s) j = sval s j"
  "sval (put_count p s) j = sval s j" "sval (put_halted h s) j = sval s j"
  by (simp_all add: sval_def state_simps)

lemma mval_put [state_simps]:
  "a < msize s \<Longrightarrow> wf27 w \<Longrightarrow> mval (put_mword a w s) b = (if b = a then word27_to_int w else mval s b)"
  "mval (put_sreg k w s) b = mval s b" "mval (put_vreg k v s) b = mval s b"
  "mval (put_areg k c s) b = mval s b" "mval (put_pc w s) b = mval s b"
  "mval (put_count p s) b = mval s b" "mval (put_halted h s) b = mval s b"
  by (simp_all add: mval_def state_simps)

lemma wf27_mword [simp]: "wf27 (mword s a)"
  by (simp add: mword_def)

lemma wf27_sreg: "wf_sim s \<Longrightarrow> k < 27 \<Longrightarrow> wf27 (sreg s k)"
  by (auto simp: sreg_def wf_sim_def wf_regs_def list_all_length)

lemma wf27_pc: "wf_sim s \<Longrightarrow> wf27 (rf_pc (sim_regs s))"
  by (simp add: wf_sim_def wf_regs_def)

lemma wf_vec_vreg: "wf_sim s \<Longrightarrow> k < 9 \<Longrightarrow> wf_vec (vreg s k)"
  by (auto simp: vreg_def wf_sim_def wf_regs_def list_all_length)

lemma sreg_0 [simp]: "sreg s 0 = word27_zero" "sval s 0 = 0"
  by (simp_all add: sreg_def sval_def)

lemma msize_mk_sim [simp]: "msize (mk_sim n) = n"
  by (simp add: msize_def size_words_def mk_sim_def mk_memory_def)

lemma wf_put_sreg: "wf_sim s \<Longrightarrow> wf27 w \<Longrightarrow> wf_sim (put_sreg k w s)"
  by (auto simp: wf_sim_def wf_regs_def put_sreg_def list_all_update)

lemma wf_put_vreg: "wf_sim s \<Longrightarrow> wf_vec v \<Longrightarrow> wf_sim (put_vreg k v s)"
  by (auto simp: wf_sim_def wf_regs_def put_vreg_def list_all_update)

section \<open>The access operations on operands in range\<close>

named_theorems run_simps \<open>symbolic execution of instructions\<close>

lemma rd_ok [run_simps]: "k < 27 \<Longrightarrow> rd k s = (Inr (sreg s k), s)"
  by (simp add: rd_def read_scalar_def reg_check_def sreg_def)

lemma wr_ok [run_simps]: "k < 27 \<Longrightarrow> wr k w s = (Inr (), put_sreg k w s)"
  by (simp add: wr_def write_scalar_def reg_check_def put_sreg_def)

lemma rdv_ok [run_simps]: "k < 9 \<Longrightarrow> rdv k s = (Inr (vreg s k), s)"
  by (simp add: rdv_def read_vec_def vreg_check_def vreg_def)

lemma wrv_ok [run_simps]: "k < 9 \<Longrightarrow> wrv k v s = (Inr (), put_vreg k v s)"
  by (simp add: wrv_def write_vec_def vreg_check_def put_vreg_def)

lemma rda_ok [run_simps]: "k < 3 \<Longrightarrow> rda k s = (Inr (areg s k), s)"
  by (simp add: rda_def read_acc_def acc_check_def areg_def)

lemma wra_ok [run_simps]: "k < 3 \<Longrightarrow> wra k a s = (Inr (), put_areg k a s)"
  by (simp add: wra_def write_acc_def acc_check_def put_areg_def)

lemma vector_operand_out_of_range:
  "9 \<le> k \<Longrightarrow> rdv k s = (Inl (OutOfRange ''vreg''), s)"
  "9 \<le> k \<Longrightarrow> wrv k v s = (Inl (OutOfRange ''vreg''), s)"
  "3 \<le> k \<Longrightarrow> rda k s = (Inl (OutOfRange ''acc''), s)"
  "3 \<le> k \<Longrightarrow> wra k a s = (Inl (OutOfRange ''acc''), s)"
  by (simp_all add: rdv_def wrv_def rda_def wra_def read_vec_def write_vec_def read_acc_def
      write_acc_def vreg_check_def acc_check_def)

text \<open>An \<open>int64_t\<close> address in the memory, and one outside it (a negative one included).\<close>

definition addr_ok :: "sim \<Rightarrow> int \<Rightarrow> bool" where
  "addr_ok s a \<longleftrightarrow> 0 \<le> a \<and> a < 2 ^ 63 \<and> nat a < msize s"

lemma ld_ok [run_simps]: "addr_ok s a \<Longrightarrow> ld a s = (Inr (mword s (nat a)), s)"
  by (simp add: addr_ok_def ld_def load_word_def to_size_id view_defs size_words_def)

lemma st_ok [run_simps]: "addr_ok s a \<Longrightarrow> st a w s = (Inr (), put_mword (nat a) w s)"
  by (simp add: addr_ok_def st_def store_word_def to_size_id view_defs size_words_def put_mword_def)

lemma addr_out:
  assumes "in_i64 a" and "msize s \<le> 2 ^ 63" and "\<not> addr_ok s a"
  shows "ld a s = (Inl (OutOfRange ''Memory::load_word''), s)"
    and "st a w s = (Inl (OutOfRange ''Memory::store_word''), s)"
proof -
  have "msize s \<le> to_size a"
  proof (cases "a < 0")
    case True
    then show ?thesis using to_size_neg [of a] assms by (simp add: in_i64_def)
  next
    case False
    then show ?thesis using assms by (simp add: addr_ok_def in_i64_def to_size_id)
  qed
  then show "ld a s = (Inl (OutOfRange ''Memory::load_word''), s)"
    "st a w s = (Inl (OutOfRange ''Memory::store_word''), s)"
    by (simp_all add: ld_def st_def load_word_def store_word_def msize_def size_words_def)
qed

lemma get_pc_run [run_simps]: "get_pc s = (Inr (rf_pc (sim_regs s)), s)"
  by (simp add: get_pc_def)

lemma set_pc_run [run_simps]: "set_pc w s = (Inr (), put_pc w s)"
  by (simp add: set_pc_def modify_def put_pc_def)

lemma set_halted_run [run_simps]: "set_halted b s = (Inr (), put_halted b s)"
  by (simp add: set_halted_def modify_def put_halted_def)

lemma count_run [run_simps]: "count p s = (Inr (), put_count p s)"
  by (simp add: count_def modify_def put_count_def)

lemma from_int_ok [run_simps]: "fits 27 v \<Longrightarrow> from_int v s = (Inr (digits_of 27 v), s)"
  by (simp add: from_int_def lift_def word27_from_int_fits)

lemma imm_fits_27: "fits 12 v \<Longrightarrow> fits 27 v"
  by (simp add: fits_12 fits_27)

lemma jump_to_run [run_simps]: "fits 27 v \<Longrightarrow> jump_to v s = (Inr (), put_pc (digits_of 27 v) s)"
  by (simp add: jump_to_def sx_simps run_simps)

lemma addr_ok_put [state_simps]:
  "addr_ok (put_mword b w s) a \<longleftrightarrow> addr_ok s a" "addr_ok (put_sreg k w s) a \<longleftrightarrow> addr_ok s a"
  "addr_ok (put_vreg k v s) a \<longleftrightarrow> addr_ok s a" "addr_ok (put_areg k c s) a \<longleftrightarrow> addr_ok s a"
  "addr_ok (put_pc w s) a \<longleftrightarrow> addr_ok s a" "addr_ok (put_count p s) a \<longleftrightarrow> addr_ok s a"
  "addr_ok (put_halted h s) a \<longleftrightarrow> addr_ok s a"
  by (simp_all add: addr_ok_def state_simps)

text \<open>The counter is bumped whatever the instruction does next.\<close>

lemma run_one_count: "run_one i s = dispatch i (put_count (op i) s)"
  by (simp add: run_one_def sx_simps run_simps)

end
