(* ===== verification/TerMachine.thy ===== *)
theory TerMachine
  imports TerSemantics
begin

text \<open>
  The abstract machine that the scalar part of the instruction set promises: integer
  registers with a hardwired zero, an integer memory, a program counter and a halt flag,
  and one total equation per opcode. \<open>scalar_refinement\<close> shows that \<open>Sim::run_one\<close>
  (\<open>src/sim/run_one.cpp\<close>), which computes on trits, implements it, the failures included.
\<close>

section \<open>The abstract machine\<close>

record amach =
  am_regs :: "nat \<Rightarrow> int"
  am_mem :: "nat \<Rightarrow> int"
  am_size :: nat
  am_pc :: int
  am_halt :: bool

definition abs_sim :: "sim \<Rightarrow> amach" where
  "abs_sim s = \<lparr>am_regs = \<lambda>k. if k < 27 then sval s k else 0,
     am_mem = \<lambda>a. if a < msize s then mval s a else 0,
     am_size = msize s, am_pc = pcv s, am_halt = is_halted s\<rparr>"

definition aset :: "nat \<Rightarrow> int \<Rightarrow> amach \<Rightarrow> amach" where
  "aset k v A = (if k = 0 then A else A\<lparr>am_regs := (am_regs A)(k := v)\<rparr>)"

definition ajump :: "int \<Rightarrow> amach \<Rightarrow> amach" where
  "ajump v A = A\<lparr>am_pc := v\<rparr>"

definition avalid :: "amach \<Rightarrow> int \<Rightarrow> bool" where
  "avalid A a \<longleftrightarrow> 0 \<le> a \<and> a < int (am_size A)"

text \<open>
  The balanced digit of an integer at place \<open>k\<close>, and an operation on the digits of two integers.
\<close>

definition bdigit :: "nat \<Rightarrow> int \<Rightarrow> int" where
  "bdigit k a = balmod 1 ((a - balmod k a) div 3 ^ k)"

definition tritwise :: "(int \<Rightarrow> int \<Rightarrow> int) \<Rightarrow> int \<Rightarrow> int \<Rightarrow> int" where
  "tritwise f a b = (\<Sum>k < 27. f (bdigit k a) (bdigit k b) * 3 ^ k)"

text \<open>
  One instruction; \<open>None\<close> is a failure. Sums and differences wrap modulo \<open>3^27\<close> into the
  balanced range, so an ordering branch compares the sign of the wrapped difference.
\<close>

definition aexec :: "instr \<Rightarrow> amach \<Rightarrow> amach option" where
  "aexec i A =
     (let a = am_regs A (src1 i); b = am_regs A (src2 i); sp = am_regs A 26
      in case op i of
        TNOP \<Rightarrow> Some A
      | TDBG \<Rightarrow> Some A
      | THALT \<Rightarrow> Some (A\<lparr>am_halt := True\<rparr>)
      | TLOADI \<Rightarrow> Some (aset (dst i) (imm i) A)
      | TADD \<Rightarrow> Some (aset (dst i) (balmod 27 (a + b)) A)
      | TSUB \<Rightarrow> Some (aset (dst i) (balmod 27 (a - b)) A)
      | TNEG \<Rightarrow> Some (aset (dst i) (- a) A)
      | TABS \<Rightarrow> Some (aset (dst i) \<bar>a\<bar> A)
      | TSIGN \<Rightarrow> Some (aset (dst i) (sgn a) A)
      | TCMP \<Rightarrow> Some (aset (dst i) (sgn (balmod 27 (a - b))) A)
      | TAND3 \<Rightarrow> Some (aset (dst i) (tritwise min a b) A)
      | TOR3 \<Rightarrow> Some (aset (dst i) (tritwise max a b) A)
      | TXOR3 \<Rightarrow> Some (aset (dst i) (tritwise (\<lambda>x y. if x = y then 0 else - x) a b) A)
      | TLOAD \<Rightarrow> (if avalid A a then Some (aset (dst i) (am_mem A (nat a)) A) else None)
      | TSTORE \<Rightarrow> (if avalid A b then Some (A\<lparr>am_mem := (am_mem A)(nat b := a)\<rparr>) else None)
      | TJUMP \<Rightarrow> Some (ajump (imm i) A)
      | TBEQ \<Rightarrow> Some (if a = b then ajump (imm i) A else A)
      | TBNE \<Rightarrow> Some (if a = b then A else ajump (imm i) A)
      | TBLT \<Rightarrow> Some (if balmod 27 (a - b) < 0 then ajump (imm i) A else A)
      | TCALL \<Rightarrow> (if avalid A sp \<and> fits 27 (sp + 1)
          then Some (ajump (imm i) (aset 26 (sp + 1) (A\<lparr>am_mem := (am_mem A)(nat sp := am_pc A)\<rparr>)))
          else None)
      | TRET \<Rightarrow> (if avalid A (sp - 1)
          then Some (ajump (am_mem A (nat (sp - 1))) (aset 26 (sp - 1) A)) else None)
      | _ \<Rightarrow> None)"

definition scalar_ops :: "opcode set" where
  "scalar_ops = {TNOP, TDBG, THALT, TLOADI, TADD, TSUB, TNEG, TABS, TSIGN, TCMP, TAND3, TOR3, TXOR3,
     TLOAD, TSTORE, TJUMP, TBEQ, TBNE, TBLT, TCALL, TRET}"

section \<open>Abstraction of the updates\<close>

named_theorems abs_simps \<open>abstraction of updated states\<close>

lemma abs_put_sreg [abs_simps]:
  "shaped s \<Longrightarrow> k < 27 \<Longrightarrow> abs_sim (put_sreg k w s) = aset k (word27_to_int w) (abs_sim s)"
  by (auto simp: abs_sim_def aset_def state_simps fun_eq_iff)

lemma abs_put_pc [abs_simps]: "abs_sim (put_pc w s) = ajump (word27_to_int w) (abs_sim s)"
  by (simp add: abs_sim_def ajump_def state_simps cong: if_cong)

lemma abs_put_count [abs_simps]: "abs_sim (put_count p s) = abs_sim s"
  by (simp add: abs_sim_def state_simps cong: if_cong)

lemma abs_put_halted [abs_simps]: "abs_sim (put_halted h s) = (abs_sim s)\<lparr>am_halt := h\<rparr>"
  by (simp add: abs_sim_def state_simps cong: if_cong)

lemma abs_put_mword [abs_simps]:
  "a < msize s \<Longrightarrow> wf27 w \<Longrightarrow>
   abs_sim (put_mword a w s) = (abs_sim s)\<lparr>am_mem := (am_mem (abs_sim s))(a := word27_to_int w)\<rparr>"
  by (auto simp: abs_sim_def state_simps fun_eq_iff)

lemma abs_views [abs_simps]:
  "k < 27 \<Longrightarrow> am_regs (abs_sim s) k = sval s k"
  "a < msize s \<Longrightarrow> am_mem (abs_sim s) a = mval s a"
  "am_pc (abs_sim s) = pcv s" "am_size (abs_sim s) = msize s" "am_halt (abs_sim s) = is_halted s"
  by (simp_all add: abs_sim_def)

lemma aset_size [simp]: "am_size (aset k v A) = am_size A"
  by (simp add: aset_def)

lemma avalid_addr:
  "msize s \<le> 2 ^ 63 \<Longrightarrow> avalid (abs_sim s) a \<longleftrightarrow> addr_ok s a"
  by (auto simp: avalid_def addr_ok_def abs_simps)

lemma addr_ok_less: "addr_ok s a \<Longrightarrow> nat a < msize s"
  by (simp add: addr_ok_def)

section \<open>Single-trit results\<close>

lemma single_trit_value: "word27_to_int (word27_zero[0 := t]) = trit_value t"
proof -
  have "word27_zero[0 := t] = t # replicate 26 T_ZERO"
    by (simp add: word27_zero_def numeral_eq_Suc)
  then show ?thesis by (simp add: word27_to_int_def)
qed

lemma sign_cell_value: "word27_to_int (word27_zero[0 := sign_trit w]) = sgn (word27_to_int w)"
  by (simp add: single_trit_value sign_trit_value)

lemma abs_value:
  "word27_to_int (if sign_trit v = T_NEG then word27_neg v else v) = \<bar>word27_to_int v\<bar>"
  by (simp add: sign_trit_neg_iff)

lemma sval_eq_iff:
  "wf_sim s \<Longrightarrow> j < 27 \<Longrightarrow> k < 27 \<Longrightarrow> sval s j = sval s k \<longleftrightarrow> sreg s j = sreg s k"
  by (simp add: sval_def word27_to_int_inject wf27_sreg)

lemma fits_sval: "wf_sim s \<Longrightarrow> k < 27 \<Longrightarrow> fits 27 (sval s k)"
  by (simp add: sval_def wf27_sreg)

lemma i64_sval: "wf_sim s \<Longrightarrow> k < 27 \<Longrightarrow> in_i64 (sval s k)"
  by (simp add: sval_def wf27_sreg word27_to_int_i64)

text \<open>The sign of a wrapped difference: right when the difference fits, wrong when it does not.\<close>

lemma balmod_diff_sign:
  assumes "fits 27 a" and "fits 27 b"
  shows "balmod 27 (a - b) < 0 \<longleftrightarrow> (a < b \<longleftrightarrow> fits 27 (a - b))"
proof (cases "fits 27 (a - b)")
  case True
  then show ?thesis by (simp add: balmod_id)
next
  case False
  have r: "- 3812798742493 \<le> a" "a \<le> 3812798742493" "- 3812798742493 \<le> b" "b \<le> 3812798742493"
    using assms by (simp_all add: fits_27)
  have w: "balmod 27 (a - b + 7625597484987) = balmod 27 (a - b)" "balmod 27 (a - b - 7625597484987) = balmod 27 (a - b)"
    using balmod_add_mult [of 27 "a - b" 1] balmod_add_mult [of 27 "a - b" "- 1"] by simp_all
  show ?thesis
  proof (cases "a < b")
    case True
    then have "fits 27 (a - b + 7625597484987)" "0 < a - b + 7625597484987"
      using False r by (auto simp: fits_27)
    then show ?thesis using balmod_id [of 27 "a - b + 7625597484987"] w False True by simp
  next
    case ge: False
    then have "fits 27 (a - b - 7625597484987)" "a - b - 7625597484987 < 0"
      using False r by (auto simp: fits_27)
    then show ?thesis using balmod_id [of 27 "a - b - 7625597484987"] w False ge by simp
  qed
qed

section \<open>Digits\<close>

lemma bdigit_trits:
  assumes "k < length ts"
  shows "bdigit k (trits_value ts) = trit_value (ts ! k)"
proof -
  have v: "trits_value ts = trits_value (take k ts) + 3 ^ k * trits_value (drop k ts)"
    using trits_value_append [of "take k ts" "drop k ts"] assms by simp
  have "fits k (trits_value (take k ts))" using trits_value_fits [of "take k ts"] assms by simp
  then have low: "balmod k (trits_value ts) = trits_value (take k ts)" unfolding v by (simp add: balmod_id)
  have "trits_value (drop k ts) = trit_value (ts ! k) + 3 ^ 1 * trits_value (drop (Suc k) ts)"
    using assms by (simp add: Cons_nth_drop_Suc [symmetric])
  moreover have "fits 1 (trit_value (ts ! k))" using trit_value_range [of "ts ! k"] by (auto simp: fits_def max_trits_def)
  ultimately have "balmod 1 (trits_value (drop k ts)) = trit_value (ts ! k)"
    using balmod_add_mult [of 1 "trit_value (ts ! k)" "trits_value (drop (Suc k) ts)"] by (simp add: balmod_id mult.commute)
  then show ?thesis unfolding bdigit_def low by (simp add: v)
qed

lemma trits_value_sum: "trits_value ts = (\<Sum>k < length ts. trit_value (ts ! k) * 3 ^ k)"
  by (induction ts) (simp_all add: sum.lessThan_Suc_shift sum_distrib_left mult.left_commute del: sum.lessThan_Suc)

lemma tritwise_trits:
  assumes "wf27 a" and "wf27 b" and "\<And>x y. trit_value (g x y) = f (trit_value x) (trit_value y)"
  shows "word27_to_int (map (\<lambda>k. g (a ! k) (b ! k)) [0..<27]) = tritwise f (word27_to_int a) (word27_to_int b)"
  unfolding word27_to_int_def trits_value_sum [of "map (\<lambda>k. g (a ! k) (b ! k)) [0..<27]"] tritwise_def
  using assms by (intro sum.cong) (auto simp: bdigit_trits wf27_def simp del: upt_rec_numeral)

lemma trit_loops_value:
  assumes "wf27 a" and "wf27 b"
  shows "word27_to_int (and3 a b) = tritwise min (word27_to_int a) (word27_to_int b)"
    and "word27_to_int (or3 a b) = tritwise max (word27_to_int a) (word27_to_int b)"
    and "word27_to_int (xor3 a b) = tritwise (\<lambda>x y. if x = y then 0 else - x) (word27_to_int a) (word27_to_int b)"
proof -
  have "trit_value (trit_min x y) = min (trit_value x) (trit_value y)" "trit_value (trit_max x y) = max (trit_value x) (trit_value y)"
    "trit_value (if x = y then T_ZERO else trit_neg x) = (if trit_value x = trit_value y then 0 else - trit_value x)" for x y
    by (cases x; cases y; simp add: trit_min_def trit_max_def trit_neg_def mk_trit_def)+
  note v = this
  show "word27_to_int (and3 a b) = tritwise min (word27_to_int a) (word27_to_int b)"
    unfolding trit_loop_map by (rule tritwise_trits [OF assms]) (rule v(1))
  show "word27_to_int (or3 a b) = tritwise max (word27_to_int a) (word27_to_int b)"
    unfolding trit_loop_map by (rule tritwise_trits [OF assms]) (rule v(2))
  show "word27_to_int (xor3 a b) = tritwise (\<lambda>x y. if x = y then 0 else - x) (word27_to_int a) (word27_to_int b)"
    unfolding trit_loop_map by (rule tritwise_trits [OF assms, where g = "\<lambda>x y. if x = y then T_ZERO else trit_neg x"]) (rule v(3))
qed

section \<open>Refinement\<close>

text \<open>
  The outcome of a run against the abstract one: both fail, or both succeed with the same
  abstract state.
\<close>

definition agrees :: "unit res \<times> sim \<Rightarrow> amach option \<Rightarrow> bool" where
  "agrees out A =
     (case A of None \<Rightarrow> (case fst out of Inl e \<Rightarrow> True | Inr _ \<Rightarrow> False)
      | Some B \<Rightarrow> fst out = Inr () \<and> abs_sim (snd out) = B)"

lemma agrees_simps [simp]:
  "agrees (Inr (), t) (Some B) \<longleftrightarrow> abs_sim t = B"
  "agrees (Inl e, t) None"
  by (simp_all add: agrees_def)

lemmas alu_values = sval_def [symmetric] word27_to_int_add word27_to_int_sub
  word27_to_int_neg sign_cell_value abs_value word27_to_int_digits imm_fits_27

lemma alu_refines:
  assumes wf: "wf_sim s" and valid: "valid_instr i"
    and op: "op i \<in> {TNOP, TDBG, THALT, TLOADI, TADD, TSUB, TNEG, TABS, TSIGN, TCMP}"
  shows "agrees (dispatch i s) (aexec i (abs_sim s))"
proof -
  have b: "dst i < 27" "src1 i < 27" "src2 i < 27" "fits 12 (imm i)" "shaped s"
    "wf27 (sreg s (src1 i))" "wf27 (sreg s (src2 i))"
    using wf valid by (simp_all add: valid_instr_def wf27_sreg)
  show ?thesis using op b
    by (elim insertE emptyE)
      (simp_all add: dispatch_def aexec_def exec_defs sx_simps run_simps abs_simps alu_values)
qed

lemma tritwise_refines:
  assumes wf: "wf_sim s" and valid: "valid_instr i" and op: "op i \<in> {TAND3, TOR3, TXOR3}"
  shows "agrees (dispatch i s) (aexec i (abs_sim s))"
proof -
  have b: "dst i < 27" "src1 i < 27" "src2 i < 27" "shaped s" "wf27 (sreg s (src1 i))" "wf27 (sreg s (src2 i))"
    using wf valid by (simp_all add: valid_instr_def wf27_sreg)
  note v = trit_loops_value [OF b(5,6), folded sval_def]
  show ?thesis using op b(1-4)
    by (elim insertE emptyE) (simp_all add: dispatch_def aexec_def exec_defs sx_simps run_simps abs_simps v)
qed

lemma memory_refines:
  assumes wf: "wf_sim s" and valid: "valid_instr i" and small: "msize s \<le> 2 ^ 63"
    and op: "op i \<in> {TLOAD, TSTORE}"
  shows "agrees (dispatch i s) (aexec i (abs_sim s))"
proof -
  have b: "dst i < 27" "src1 i < 27" "src2 i < 27" "shaped s"
    using wf valid by (simp_all add: valid_instr_def)
  have w: "wf27 (sreg s (src1 i))" "in_i64 (sval s (src1 i))" "in_i64 (sval s (src2 i))"
    using wf b by (simp_all add: wf27_sreg i64_sval)
  show ?thesis
  proof (cases "op i = TLOAD")
    case True
    then show ?thesis using b w small
      by (cases "addr_ok s (sval s (src1 i))")
        (simp_all add: dispatch_def aexec_def exec_defs sx_simps run_simps abs_simps alu_values
          avalid_addr addr_out addr_ok_less mval_def Let_def)
  next
    case False
    then show ?thesis using b w small op
      by (cases "addr_ok s (sval s (src2 i))")
        (simp_all add: dispatch_def aexec_def exec_defs sx_simps run_simps abs_simps alu_values
          avalid_addr addr_out addr_ok_less Let_def)
  qed
qed

lemma branch_refines:
  assumes wf: "wf_sim s" and valid: "valid_instr i"
    and op: "op i \<in> {TJUMP, TBEQ, TBNE, TBLT}"
  shows "agrees (dispatch i s) (aexec i (abs_sim s))"
proof -
  have b: "src1 i < 27" "src2 i < 27" "fits 27 (imm i)"
    "wf27 (sreg s (src1 i))" "wf27 (sreg s (src2 i))"
    using wf valid by (simp_all add: valid_instr_def wf27_sreg imm_fits_27)
  show ?thesis using op b sval_eq_iff [OF wf b(1,2)]
    by (elim insertE emptyE)
      (simp_all add: dispatch_def aexec_def exec_tjump_def exec_tbeq_def exec_tbne_def
        exec_tblt_def sx_simps run_simps abs_simps alu_values sign_trit_neg_iff)
qed

lemma call_refines:
  assumes wf: "wf_sim s" and valid: "valid_instr i" and small: "msize s \<le> 2 ^ 63"
    and op: "op i = TCALL"
  shows "agrees (dispatch i s) (aexec i (abs_sim s))"
proof -
  have b: "shaped s" "fits 27 (imm i)" "in_i64 (sval s 26)" "wf27 (rf_pc (sim_regs s))"
    using wf valid by (simp_all add: valid_instr_def imm_fits_27 i64_sval wf27_pc)
  show ?thesis
  proof (cases "addr_ok s (sval s 26)")
    case True
    show ?thesis
    proof (cases "fits 27 (sval s 26 + 1)")
      case False
      then show ?thesis using True b small op
        by (simp add: dispatch_def aexec_def exec_tcall_def from_int_def word27_from_int_def
            word27_range sx_simps run_simps abs_simps avalid_addr alu_values Let_def)
    qed (use True b small op in \<open>simp add: dispatch_def aexec_def exec_tcall_def sx_simps
        run_simps abs_simps alu_values avalid_addr addr_ok_less state_simps pcv_def Let_def\<close>)
  next
    case False
    then show ?thesis using b small op
      by (simp add: dispatch_def aexec_def exec_tcall_def sx_simps run_simps abs_simps
          avalid_addr addr_out alu_values Let_def)
  qed
qed

lemma ret_refines:
  assumes wf: "wf_sim s" and valid: "valid_instr i" and small: "msize s \<le> 2 ^ 63"
    and op: "op i = TRET"
  shows "agrees (dispatch i s) (aexec i (abs_sim s))"
proof -
  have b: "shaped s" "fits 27 (sval s 26)"
    using wf by (simp_all add: fits_sval)
  show ?thesis
  proof (cases "addr_ok s (sval s 26 - 1)")
    case True
    then have "fits 27 (sval s 26 - 1)" using b by (simp add: fits_27 addr_ok_def)
    then show ?thesis using True b small op
      by (simp add: dispatch_def aexec_def exec_tret_def sx_simps
        run_simps abs_simps alu_values avalid_addr addr_ok_less state_simps mval_def Let_def)
  next
    case False
    have i64: "in_i64 (sval s 26 - 1)" using b(2) by (auto simp: fits_27 in_i64_def)
    show ?thesis
    proof (cases "fits 27 (sval s 26 - 1)")
      case True
      then show ?thesis using False i64 b small op
        by (simp add: dispatch_def aexec_def exec_tret_def sx_simps run_simps abs_simps
            avalid_addr addr_out state_simps alu_values Let_def)
    qed (use False b small op in \<open>simp add: dispatch_def aexec_def exec_tret_def from_int_def
        word27_from_int_def word27_range sx_simps run_simps abs_simps avalid_addr alu_values Let_def\<close>)
  qed
qed

text \<open>The whole scalar instruction set, with the counter that \<open>run_one\<close> bumps first.\<close>

lemma scalar_dispatch_refines:
  assumes "wf_sim s" and "valid_instr i" and "msize s \<le> 2 ^ 63" and "op i \<in> scalar_ops"
  shows "agrees (dispatch i s) (aexec i (abs_sim s))"
  using assms alu_refines [of s i] tritwise_refines [of s i] memory_refines [of s i] branch_refines [of s i]
    call_refines [of s i] ret_refines [of s i]
  by (auto simp: scalar_ops_def)

lemma wf_put_count: "wf_sim s \<Longrightarrow> wf_sim (put_count p s)"
  using keepsD [OF keeps_count _ count_run] by blast

lemma run_one_refines:
  assumes "wf_sim s" and "valid_instr i" and "msize s \<le> 2 ^ 63" and "op i \<in> scalar_ops"
  shows "agrees (run_one i s) (aexec i (abs_sim s))"
  using scalar_dispatch_refines [of "put_count (op i) s" i] assms
  by (simp add: run_one_count wf_put_count state_simps abs_simps)

end
