(* ===== verification/TerVector.thy ===== *)
theory TerVector
  imports TerMachine
begin

text \<open>
  The vector instructions: what the loops of \<open>src/sim/run_one.cpp\<close> over the 27 lanes compute.
  Loads and stores move a block of memory, \<open>TVMAX\<close> leaves the prefix maxima, \<open>TVSHUF\<close>
  rotates, and a chain of \<open>TVMAC\<close> followed by \<open>TVSUM\<close> is a dot product.
\<close>

section \<open>Loops over the lanes\<close>

lemma sfold_pure:
  "(\<And>b k. k \<in> set ks \<Longrightarrow> body b k s = (Inr (g b k), s)) \<Longrightarrow>
   sfold body b ks s = (Inr (foldl g b ks), s)"
  by (induction ks arbitrary: b) (simp_all add: sx_simps)

lemma sfor_fold:
  assumes "\<And>k t. k \<in> set ks \<Longrightarrow> P t \<Longrightarrow> body k t = (Inr (), g k t) \<and> P (g k t)" and "P s"
  shows "sfor body ks s = (Inr (), fold g ks s) \<and> P (fold g ks s)"
  using assms by (induction ks arbitrary: s) (simp_all add: sx_simps)

text \<open>A block of 27 words in the memory.\<close>

definition block_ok :: "sim \<Rightarrow> int \<Rightarrow> bool" where
  "block_ok s base \<longleftrightarrow> 0 \<le> base \<and> base + 27 \<le> int (msize s) \<and> msize s < 2 ^ 63"

lemma block_addr: "block_ok s base \<Longrightarrow> k < 27 \<Longrightarrow> addr_ok s (base + int k)"
  by (auto simp: block_ok_def addr_ok_def)

lemma block_ok_put [state_simps]:
  "block_ok (put_mword b w s) a \<longleftrightarrow> block_ok s a" "block_ok (put_sreg k w s) a \<longleftrightarrow> block_ok s a"
  "block_ok (put_vreg k v s) a \<longleftrightarrow> block_ok s a" "block_ok (put_areg k c s) a \<longleftrightarrow> block_ok s a"
  "block_ok (put_pc w s) a \<longleftrightarrow> block_ok s a" "block_ok (put_count p s) a \<longleftrightarrow> block_ok s a"
  by (simp_all add: block_ok_def state_simps)

definition load_lanes :: "sim \<Rightarrow> int \<Rightarrow> vec" where
  "load_lanes s base =
     map (\<lambda>k. clamp kLaneMin kLaneMax (to_i32 (mval s (nat (base + int k))))) [0..<27]"

lemma tvload_run [run_simps]:
  assumes "dst i < 9" and "src1 i < 27" and "block_ok s (sval s (src1 i))"
  shows "exec_tvload i s = (Inr (), put_vreg (dst i) (load_lanes s (sval s (src1 i))) s)"
proof -
  let ?b = "sval s (src1 i)"
  have "sfold (\<lambda>r k. sbind (ld (?b + int k)) (\<lambda>w. ret (set_lane r k (to_i32 (word27_to_int w)))))
      vec_zero [0..<27] s
    = (Inr (foldl (\<lambda>r k. set_lane r k (to_i32 (mval s (nat (?b + int k))))) vec_zero [0..<27]), s)"
    using assms(3) by (intro sfold_pure) (simp add: sx_simps run_simps block_addr mval_def)
  then show ?thesis using assms
    by (simp add: exec_tvload_def sx_simps run_simps Let_def sval_def narrow_loop load_lanes_def
        del: upt_rec_numeral)
qed

definition store_lanes :: "int \<Rightarrow> vec \<Rightarrow> sim \<Rightarrow> sim" where
  "store_lanes base v s =
     fold (\<lambda>k. put_mword (nat (base + int k)) (digits_of 27 (lane v k))) [0..<27] s"

lemma i32_fits_27: "in_i32 x \<Longrightarrow> fits 27 x"
  by (simp add: in_i32_def fits_27)

lemma tvstore_run [run_simps]:
  assumes "src1 i < 9" and "src2 i < 27" and "block_ok s (sval s (src2 i))"
    and "wf_vec (vreg s (src1 i))"
  shows "exec_tvstore i s = (Inr (), store_lanes (sval s (src2 i)) (vreg s (src1 i)) s)"
proof -
  let ?b = "sval s (src2 i)" and ?v = "vreg s (src1 i)"
  have "sfor (\<lambda>k. sbind (from_int (lane ?v k)) (\<lambda>w. st (?b + int k) w)) [0..<27] s
      = (Inr (), store_lanes ?b ?v s)"
    unfolding store_lanes_def
    by (rule sfor_fold [where P = "\<lambda>t. block_ok t ?b", THEN conjunct1])
      (use assms in \<open>simp_all add: sx_simps run_simps block_addr state_simps i32_fits_27
        wf_vec_nth lane_def\<close>)
  then show ?thesis using assms
    by (simp add: exec_tvstore_def sx_simps run_simps Let_def sval_def del: upt_rec_numeral)
qed

lemma fold_put_mword:
  assumes "0 \<le> base" and "base + int n \<le> int (msize s)"
  shows "mword (fold (\<lambda>k. put_mword (nat (base + int k)) (digits_of 27 (f k))) [0..<n] s) a
      = (if base \<le> int a \<and> int a < base + int n then digits_of 27 (f (nat (int a - base)))
         else mword s a)
    \<and> msize (fold (\<lambda>k. put_mword (nat (base + int k)) (digits_of 27 (f k))) [0..<n] s) = msize s"
  using assms(2)
proof (induction n)
  case (Suc n)
  have 1: "nat (base + int n) < msize s" using assms(1) Suc.prems by simp
  have 2: "a = nat (base + int n) \<longleftrightarrow> int a = base + int n" using assms(1) by auto
  show ?case using Suc 1 2 by (auto simp: state_simps nat_diff_distrib)
qed auto

lemma mword_store_lanes:
  assumes "block_ok s base"
  shows "mword (store_lanes base v s) a
    = (if base \<le> int a \<and> int a < base + 27 then digits_of 27 (v ! nat (int a - base)) else mword s a)"
    and "msize (store_lanes base v s) = msize s"
  using fold_put_mword [of base 27 s "lane v" a] assms
  by (simp_all add: block_ok_def store_lanes_def lane_def del: upt_rec_numeral)

lemma fold_put_frame:
  "sim_regs (fold (\<lambda>k. put_mword (f k) (g k)) ks s) = sim_regs s"
  "sim_counters (fold (\<lambda>k. put_mword (f k) (g k)) ks s) = sim_counters s"
  by (induction ks arbitrary: s) (simp_all add: put_mword_def)

lemma store_lanes_frame [state_simps]:
  "sim_regs (store_lanes base v s) = sim_regs s"
  "sreg (store_lanes base v s) j = sreg s j" "sval (store_lanes base v s) j = sval s j"
  "vreg (store_lanes base v s) j = vreg s j" "areg (store_lanes base v s) j = areg s j"
  "pcv (store_lanes base v s) = pcv s" "is_halted (store_lanes base v s) = is_halted s"
  "shaped (store_lanes base v s) \<longleftrightarrow> shaped s"
  by (simp_all add: store_lanes_def fold_put_frame sval_def sreg_def vreg_def areg_def pcv_def
      is_halted_def shaped_def del: upt_rec_numeral)

lemma load_store_lanes:
  assumes "block_ok s base" and "wf_vec v"
  shows "load_lanes (store_lanes base v s) base = map (\<lambda>x. clamp kLaneMin kLaneMax x) v"
proof (rule nth_equalityI)
  show "length (load_lanes (store_lanes base v s) base) = length (map (\<lambda>x. clamp kLaneMin kLaneMax x) v)"
    using assms(2) by (simp add: load_lanes_def wf_vec_def)
  fix k assume "k < length (load_lanes (store_lanes base v s) base)"
  then have k: "k < 27" by (simp add: load_lanes_def)
  have 0: "0 \<le> base" using assms(1) by (simp add: block_ok_def)
  have "mval (store_lanes base v s) (nat (base + int k)) = v ! k"
    using 0 k wf_vec_nth [OF assms(2) k]
    by (simp add: mval_def mword_store_lanes [OF assms(1)] word27_to_int_digits i32_fits_27)
  then show "load_lanes (store_lanes base v s) base ! k = map (\<lambda>x. clamp kLaneMin kLaneMax x) v ! k"
    using k wf_vec_nth [OF assms(2) k] assms(2)
    by (simp add: load_lanes_def to_i32_id wf_vec_def del: upt_rec_numeral)
qed

lemma narrow_clamp_id: "narrow v \<Longrightarrow> map (\<lambda>x. clamp kLaneMin kLaneMax x) v = v"
  by (induction v) (simp_all add: narrow_def clamp_id)

section \<open>Prefix maxima\<close>

definition prefix_max :: "int list \<Rightarrow> nat \<Rightarrow> int" where
  "prefix_max xs k = Max (set (take (Suc k) xs))"

lemma prefix_max_Suc:
  "Suc k < length xs \<Longrightarrow> prefix_max xs (Suc k) = max (prefix_max xs k) (xs ! Suc k)"
proof -
  assume "Suc k < length xs"
  then have "take (Suc (Suc k)) xs = take (Suc k) xs @ [xs ! Suc k]"
    by (simp add: take_Suc_conv_app_nth)
  moreover have "take (Suc k) xs \<noteq> []" using \<open>Suc k < length xs\<close> by auto
  ultimately show ?thesis by (simp add: prefix_max_def max.commute)
qed

lemma running_max_prefix:
  assumes "length a = 27" and "narrow a" and "n \<le> 26"
  shows "foldl (\<lambda>r k. if lane r (k - 1) > lane r k then set_lane r k (lane r (k - 1)) else r) a
      [1..<Suc n] = map (prefix_max a) [0..<Suc n] @ drop (Suc n) a"
  using assms(3)
proof (induction n)
  case 0
  have "a = a ! 0 # drop 1 a" using assms(1) by (cases a) simp_all
  then show ?case by (cases a) (simp_all add: prefix_max_def)
next
  case (Suc n)
  let ?r = "map (prefix_max a) [0..<Suc n] @ drop (Suc n) a"
  have len: "Suc n < length a" using Suc.prems assms(1) by simp
  have d: "drop (Suc n) a = a ! Suc n # drop (Suc (Suc n)) a" using len by (simp add: Cons_nth_drop_Suc)
  have prev: "?r ! n = prefix_max a n" and cur: "?r ! Suc n = a ! Suc n"
    using len by (simp_all add: nth_append)
  have "prefix_max a n \<in> set a"
    unfolding prefix_max_def using len Max_in [of "set (take (Suc n) a)"]
    by (metis List.finite_set in_set_takeD length_0_conv list.size(3) not_less_zero set_empty
        take_eq_Nil nat.distinct(1))
  then have b: "clamp kLaneMin kLaneMax (prefix_max a n) = prefix_max a n"
    using assms(2) by (simp add: narrow_def list_all_iff clamp_id)
  have "(if ?r ! n > ?r ! Suc n then ?r[Suc n := clamp kLaneMin kLaneMax (?r ! n)] else ?r)
      = map (prefix_max a) [0..<Suc (Suc n)] @ drop (Suc (Suc n)) a"
    unfolding prev cur b prefix_max_Suc [OF len, symmetric]
    by (auto simp: d list_update_append prefix_max_Suc [OF len] max_def)
  moreover have "[1..<Suc (Suc n)] = [1..<Suc n] @ [Suc n]" by simp
  moreover note Suc.IH [OF Suc_leD [OF Suc.prems]]
  ultimately show ?case
    by (simp only: foldl_append foldl.simps lane_def set_lane_def diff_Suc_1)
qed

lemma running_max_eq:
  assumes "length a = 27" and "narrow a"
  shows "running_max a = map (prefix_max a) [0..<27]"
  using running_max_prefix [OF assms, of 26] assms(1)
  by (simp add: running_max_def del: upt_rec_numeral upt_Suc)

section \<open>Rotation\<close>

lemma smod_wrap: "0 < n \<Longrightarrow> ((v smod n) + n) smod n = v mod (n :: int)"
proof -
  assume n: "0 < n"
  have s: "u smod n = (if u < 0 then - ((- u) mod n) else u mod n)" for u
    using smod_int_alt_def [of u n] n by (auto simp: sgn_if)
  have "0 \<le> (v smod n) + n"
    using n pos_mod_bound [OF n, of "- v"] pos_mod_sign [OF n, of v] unfolding s
    by (auto simp: less_imp_le)
  then have "((v smod n) + n) smod n = ((v smod n) + n) mod n" by (simp add: s)
  also have "\<dots> = v mod n" unfolding s by (simp add: mod_minus_eq)
  finally show ?thesis .
qed

lemma shuffle_map:
  "shuffle a m = map (\<lambda>k. clamp kLaneMin kLaneMax (a ! nat ((int k + m) mod 27))) [0..<27]"
proof -
  have "(int k + m mod 27) smod 27 = (int k + m) mod 27" for k
  proof -
    have "0 \<le> int k + m mod 27" by simp
    then have "(int k + m mod 27) smod 27 = (int k + m mod 27) mod 27"
      using smod_int_alt_def [of "int k + m mod 27" 27] by (simp add: sgn_if)
    then show ?thesis by (simp add: mod_simps)
  qed
  then show ?thesis
    by (simp add: shuffle_def Let_def narrow_loop smod_wrap lane_def del: upt_rec_numeral)
qed

lemma narrow_nth: "narrow a \<Longrightarrow> k < length a \<Longrightarrow> clamp kLaneMin kLaneMax (a ! k) = a ! k"
  by (simp add: narrow_def list_all_length clamp_id)

lemma shuffle_nth:
  assumes "length a = 27" and "narrow a" and "k < 27"
  shows "shuffle a m ! k = a ! nat ((int k + m) mod 27)"
proof -
  have "nat ((int k + m) mod 27) < 27" by (simp add: nat_less_iff)
  then show ?thesis using assms by (simp add: shuffle_map narrow_nth del: upt_rec_numeral)
qed

lemma narrow_shuffle [simp]: "narrow (shuffle a m)" "length (shuffle a m) = 27"
  by (simp_all add: shuffle_map narrow_map del: upt_rec_numeral)

lemma shuffle_shuffle:
  assumes "length a = 27" and "narrow a"
  shows "shuffle (shuffle a m) n = shuffle a (m + n)"
proof (rule nth_equalityI)
  fix k assume "k < length (shuffle (shuffle a m) n)"
  then have k: "k < 27" by simp
  let ?j = "nat ((int k + n) mod 27)"
  have j: "?j < 27" by (simp add: nat_less_iff)
  have "(int ?j + m) mod 27 = (int k + (m + n)) mod 27"
    by (simp add: mod_simps algebra_simps)
  then show "shuffle (shuffle a m) n ! k = shuffle a (m + n) ! k"
    using shuffle_nth [OF _ _ k, of "shuffle a m" n] shuffle_nth [OF assms j, of m]
      shuffle_nth [OF assms k, of "m + n"] by simp
qed simp

lemma shuffle_period: "shuffle a (27 * m) = shuffle a 0"
  by (simp add: shuffle_map)

section \<open>Dot products\<close>

fun mac_chain :: "vaccum \<Rightarrow> (vec \<times> vec) list \<Rightarrow> vaccum res" where
  "mac_chain acc [] = Inr acc"
| "mac_chain acc ((a, b) # ps) = rbind (vec_mac acc a b) (\<lambda>acc'. mac_chain acc' ps)"

definition lane_sum :: "(vec \<times> vec) list \<Rightarrow> nat \<Rightarrow> int" where
  "lane_sum ps k = (\<Sum>(a, b) \<leftarrow> ps. a ! k * b ! k)"

definition dot27 :: "vec \<Rightarrow> vec \<Rightarrow> int" where
  "dot27 a b = (\<Sum>k \<leftarrow> [0..<27]. a ! k * b ! k)"

lemma dot27_replicate: "dot27 (replicate 27 x) (replicate 27 y) = 27 * (x * y)"
proof -
  have "map (\<lambda>k. replicate 27 x ! k * replicate 27 y ! k) [0..<27] = replicate 27 (x * y)"
    by (rule nth_equalityI) simp_all
  then show ?thesis by (simp add: dot27_def sum_list_replicate del: upt_rec_numeral)
qed

definition narrow_pair :: "vec \<times> vec \<Rightarrow> bool" where
  "narrow_pair p \<longleftrightarrow> narrow (fst p) \<and> narrow (snd p) \<and> length (fst p) = 27 \<and> length (snd p) = 27"

lemma narrow_prod:
  assumes "narrow_pair (a, b)" and "k < 27"
  shows "\<bar>a ! k * b ! k\<bar> \<le> 96845281"
proof -
  have "\<bar>a ! k\<bar> \<le> 9841" "\<bar>b ! k\<bar> \<le> 9841"
    using assms by (auto simp: narrow_pair_def narrow_def list_all_length kLaneMin_def kLaneMax_def)
  then have "\<bar>a ! k\<bar> * \<bar>b ! k\<bar> \<le> 9841 * 9841" by (intro mult_mono) auto
  then show ?thesis by (simp add: abs_mult)
qed

lemma mac_chain_ok:
  assumes "list_all narrow_pair ps" and "length acc = 27"
    and "\<And>k. k < 27 \<Longrightarrow> \<bar>acc ! k\<bar> + 96845281 * int (length ps) < 2 ^ 63"
  shows "mac_chain acc ps = Inr (map (\<lambda>k. acc ! k + lane_sum ps k) [0..<27])"
  using assms
proof (induction ps arbitrary: acc)
  case Nil
  have "map (\<lambda>k. acc ! k) [0..<27] = acc" using Nil(2) by (metis map_nth)
  then show ?case by (simp add: lane_sum_def del: upt_rec_numeral)
next
  case (Cons p ps)
  obtain a b where p: "p = (a, b)" by (cases p)
  let ?acc = "map (\<lambda>i. acc ! i + a ! i * b ! i) [0..<27]"
  have bnd: "\<bar>?acc ! k\<bar> + 96845281 * int (length ps) < 2 ^ 63" if "k < 27" for k
    using Cons.prems(3) [OF that] narrow_prod [of a b k] Cons.prems(1) that
    by (simp add: p del: upt_rec_numeral)
  have "vec_mac acc a b = Inr ?acc"
    using bnd by (intro vec_mac_ok) (force simp: in_i64_def simp del: upt_rec_numeral)
  moreover have "mac_chain ?acc ps = Inr (map (\<lambda>k. ?acc ! k + lane_sum ps k) [0..<27])"
    using Cons.prems bnd by (intro Cons.IH) (simp_all del: upt_rec_numeral)
  ultimately show ?case by (simp add: p lane_sum_def algebra_simps del: upt_rec_numeral)
qed

lemma sum_list_swap:
  "(\<Sum>k \<leftarrow> ks. \<Sum>p \<leftarrow> ps. f p k) = (\<Sum>p \<leftarrow> ps. \<Sum>k \<leftarrow> ks. (f p k :: int))"
  by (induction ks) (simp_all add: sum_list_addf)

lemma lane_sum_bound:
  "list_all narrow_pair ps \<Longrightarrow> k < 27 \<Longrightarrow> \<bar>lane_sum ps k\<bar> \<le> 96845281 * int (length ps)"
proof (induction ps)
  case (Cons p ps)
  obtain a b where p: "p = (a, b)" by (cases p)
  show ?case using Cons narrow_prod [of a b k] by (simp add: p lane_sum_def)
qed (simp add: lane_sum_def)

text \<open>
  Up to 1458 multiply-accumulates of narrow vectors from a cleared accumulator: no lane
  overflows, and the sum over the lanes is the dot product and fits a word.
\<close>

lemma sum_list_bound: "(\<And>x. x \<in> set xs \<Longrightarrow> \<bar>f x\<bar> \<le> c) \<Longrightarrow> (\<Sum>x \<leftarrow> xs. \<bar>f x\<bar>) \<le> c * int (length xs)"
  by (induction xs) (force simp: algebra_simps)+

lemma mac_chain_dot:
  assumes "list_all narrow_pair ps" and "length ps \<le> 1458"
  shows "\<exists>acc. mac_chain vaccum_zero ps = Inr acc
     \<and> vec_sum acc = Inr (\<Sum>(a, b) \<leftarrow> ps. dot27 a b) \<and> fits 27 (\<Sum>(a, b) \<leftarrow> ps. dot27 a b)"
proof -
  let ?acc = "map (lane_sum ps) [0..<27]"
  have small: "96845281 * int (length ps) \<le> 96845281 * 1458" using assms(2) by simp
  have chain: "mac_chain vaccum_zero ps = Inr ?acc"
    using mac_chain_ok [OF assms(1), of vaccum_zero] small
    by (simp add: vaccum_zero_def del: upt_rec_numeral cong: map_cong)
  have lanes: "(\<Sum>k \<leftarrow> [0..<27]. \<bar>lane_sum ps k\<bar>) \<le> 3812798712972"
    using sum_list_bound [of "[0..<27]" "lane_sum ps" "96845281 * int (length ps)"]
      lane_sum_bound [OF assms(1)] small by (simp del: upt_rec_numeral)
  have total: "sum_list ?acc = (\<Sum>(a, b) \<leftarrow> ps. dot27 a b)"
    unfolding lane_sum_def dot27_def
    using sum_list_swap [of "\<lambda>p k. case p of (a, b) \<Rightarrow> a ! k * b ! k" ps "[0..<27]"]
    by (simp add: case_prod_beta' del: upt_rec_numeral)
  have "\<bar>sum_list ?acc\<bar> \<le> 3812798712972"
    using sum_list_abs [of ?acc] lanes by (simp add: comp_def del: upt_rec_numeral)
  then have "fits 27 (sum_list ?acc)" by (auto simp: fits_27)
  moreover have "vec_sum ?acc = Inr (sum_list ?acc)"
    using lanes by (intro vec_sum_ok) (simp add: comp_def del: upt_rec_numeral)
  ultimately show ?thesis using chain total by simp
qed

end
