(* ===== verification/TerReach.thy ===== *)
theory TerReach
  imports TerVector
begin

text \<open>
  Runs of the simulator: \<open>Sim::step\<close> and \<open>Sim::run\<close> (\<open>src/sim/sim.cpp\<close>) as a step relation
  with its reachable states, the invariants of every reachable state, the instruction
  counters, and the symbolic execution of a program that lies in memory.
\<close>

section \<open>The step relation\<close>

text \<open>
  One step of a simulator that is not halted: the instruction at the program counter is
  fetched and executed, or the fetch fails (an address outside the memory, an illegal
  opcode). The result says whether the step threw.
\<close>

inductive sim_step :: "sim \<Rightarrow> unit res \<Rightarrow> sim \<Rightarrow> bool" where
  sim_exec: "\<not> is_halted s \<Longrightarrow> fetch s = (Inr i, u) \<Longrightarrow> run_one i u = (r, t) \<Longrightarrow> sim_step s r t"
| sim_fault: "\<not> is_halted s \<Longrightarrow> fetch s = (Inl e, t) \<Longrightarrow> sim_step s (Inl e) t"

inductive_cases sim_step_cases [elim]: "sim_step s r t"
inductive_simps sim_step_simps: "sim_step s r t"

inductive reachable :: "sim \<Rightarrow> nat \<Rightarrow> sim \<Rightarrow> bool" where
  reach_refl: "reachable s 0 s"
| reach_step: "reachable s n u \<Longrightarrow> sim_step u (Inr ()) t \<Longrightarrow> reachable s (Suc n) t"

inductive_cases reachable_zero: "reachable s 0 t"
inductive_cases reachable_Suc: "reachable s (Suc n) t"

lemma sim_step_iff: "sim_step s r t \<longleftrightarrow> \<not> is_halted s \<and> step s = (r, t)"
proof (cases "is_halted s")
  case False
  obtain x u where f: "fetch s = (x, u)" by (cases "fetch s")
  show ?thesis using False f by (cases x) (auto simp: sim_step_simps step_def sbind_def)
qed (auto simp: sim_step_simps)

lemma sim_step_deterministic: "sim_step s r t \<Longrightarrow> sim_step s r' t' \<Longrightarrow> r = r' \<and> t = t'"
  by (auto simp: sim_step_iff)

lemma halted_is_stuck: "is_halted s \<Longrightarrow> \<not> sim_step s r t"
  by (simp add: sim_step_iff)

lemma reachable_wf: "reachable s n t \<Longrightarrow> wf_sim s \<Longrightarrow> wf_sim t"
  by (induction rule: reachable.induct) (auto simp: sim_step_iff intro: keepsD [OF keeps_step])

lemma reachable_front:
  "reachable s n t \<Longrightarrow> sim_step r (Inr ()) s \<Longrightarrow> reachable r (Suc n) t"
  by (induction rule: reachable.induct) (auto intro: reachable.intros)

section \<open>Counters and memory size\<close>

lemma keeps_pred_wr:
  "(\<And>s r. P (s\<lparr>sim_regs := r\<rparr>) = P s) \<Longrightarrow> keeps P (wr k w)"
  "(\<And>s r. P (s\<lparr>sim_regs := r\<rparr>) = P s) \<Longrightarrow> keeps P (wrv k v)"
  "(\<And>s r. P (s\<lparr>sim_regs := r\<rparr>) = P s) \<Longrightarrow> keeps P (wra k c)"
  "(\<And>s r. P (s\<lparr>sim_regs := r\<rparr>) = P s) \<Longrightarrow> keeps P (set_pc w)"
  "(\<And>s r. P (s\<lparr>sim_regs := r\<rparr>) = P s) \<Longrightarrow> keeps P (set_halted b)"
  by (auto simp: keeps_def wr_def wrv_def wra_def set_pc_def set_halted_def modify_def split: sum.splits)

definition still :: "op_counters \<Rightarrow> nat \<Rightarrow> sim \<Rightarrow> bool" where
  "still c n s \<longleftrightarrow> sim_counters s = c \<and> msize s = n"

lemma keeps_still_writes:
  "keeps (still c n) (wr k w)" "keeps (still c n) (wrv k v)" "keeps (still c n) (wra k a)"
  "keeps (still c n) (set_pc w)" "keeps (still c n) (set_halted b)"
  by (rule keeps_pred_wr; simp add: still_def msize_def)+

lemma keeps_still_st: "keeps (still c n) (st a w)"
  by (auto simp: keeps_def still_def st_def store_word_def msize_def size_words_def split: sum.splits)

lemmas keeps_still = keeps_still_writes keeps_still_st

lemma keeps_still_dispatch: "keeps (still c n) (dispatch i)"
  unfolding dispatch_def exec_defs Let_def
  by (cases "op i"; simp; intro keeps_intros keeps_still allI impI conjI;
      simp add: keeps_intros keeps_still)

lemma dispatch_still:
  "sim_counters (snd (dispatch i s)) = sim_counters s" "msize (snd (dispatch i s)) = msize s"
  using keeps_still_dispatch [of "sim_counters s" "msize s" i] by (simp_all add: keeps_def still_def)

lemma run_one_counters:
  "sim_counters (snd (run_one i s)) = bump (op i) (sim_counters s)" "msize (snd (run_one i s)) = msize s"
  using dispatch_still [of i "put_count (op i) s"] by (simp_all add: run_one_count state_simps)

lemma keeps_still_fetch: "keeps (still c n) fetch"
  unfolding fetch_def by (intro keeps_intros keeps_still)

lemma fetch_still:
  "fetch s = (r, u) \<Longrightarrow> sim_counters u = sim_counters s \<and> msize u = msize s"
  using keepsD [OF keeps_still_fetch, of "sim_counters s" "msize s" s] by (auto simp: still_def)

lemma step_counts_one:
  "sim_step s (Inr ()) t \<Longrightarrow> oc_total (sim_counters t) = oc_total (sim_counters s) + 1 \<and> msize t = msize s"
proof (elim sim_step_cases)
  fix i u assume f: "fetch s = (Inr i, u)" and r: "run_one i u = (Inr (), t)"
  show ?thesis
    using run_one_counters [of i u] fetch_still [OF f] r by (simp add: bump_def)
qed simp

lemma reachable_counts:
  "reachable s n t \<Longrightarrow>
   oc_total (sim_counters t) = oc_total (sim_counters s) + of_nat n \<and> msize t = msize s"
  by (induction rule: reachable.induct) (auto dest: step_counts_one simp: algebra_simps)

section \<open>Runs\<close>

lemma run_loop_reachable:
  "run_loop is_halted step n s = (Inr (), t) \<Longrightarrow> \<exists>k \<le> n. reachable s k t \<and> (is_halted t \<or> k = n)"
proof (induction n arbitrary: s)
  case 0
  then show ?case by (auto intro: reachable.intros)
next
  case (Suc n)
  show ?case
  proof (cases "is_halted s")
    case True
    then show ?thesis using Suc.prems by (auto intro: reachable.intros)
  next
    case False
    obtain r u where su: "step s = (r, u)" by (cases "step s")
    with Suc.prems False have r: "r = Inr ()" and l: "run_loop is_halted step n u = (Inr (), t)"
      by (cases r; simp add: sbind_def)+
    obtain k where "k \<le> n" "reachable u k t" "is_halted t \<or> k = n" using Suc.IH [OF l] by blast
    moreover have "sim_step s (Inr ()) u" using False su r by (simp add: sim_step_iff)
    ultimately show ?thesis using reachable_front [of u k t s] by (intro exI [of _ "Suc k"]) auto
  qed
qed

lemma reachable_run_loop:
  "reachable s k t \<Longrightarrow> run_loop is_halted step (k + n) s = run_loop is_halted step n t"
proof (induction arbitrary: n rule: reachable.induct)
  case (reach_step s k u t)
  then have "run_loop is_halted step (Suc n) u = run_loop is_halted step n t"
    by (simp add: sim_step_iff sbind_def)
  then show ?case using reach_step.IH [of "Suc n"] by simp
qed simp

text \<open>A run that halts after few enough steps is the result of \<open>Sim::run\<close>.\<close>

lemma run_reaches:
  assumes "reachable s k t" and "is_halted t" and "k \<le> kSafetyLimit"
  shows "run s = (Inr (), t)"
proof -
  have "run_loop is_halted step kSafetyLimit s = (Inr (), t)"
    using reachable_run_loop [OF assms(1), of "kSafetyLimit - k"] assms(2,3)
    by (simp add: run_loop_stopped)
  then show ?thesis using assms(2) by (simp add: run_def sbind_def)
qed

text \<open>A run that throws stopped at a step that threw.\<close>

lemma run_loop_error_reachable:
  "run_loop is_halted step n s = (Inl e, t) \<Longrightarrow> \<exists>k u. k < n \<and> reachable s k u \<and> sim_step u (Inl e) t"
proof (induction n arbitrary: s)
  case (Suc n)
  have nh: "\<not> is_halted s" using Suc.prems by (auto split: if_splits)
  obtain r u where su: "step s = (r, u)" by (cases "step s")
  show ?case
  proof (cases r)
    case (Inl e')
    then have "sim_step s (Inl e) t" using Suc.prems nh su by (simp add: sbind_def sim_step_iff)
    then show ?thesis using reach_refl by blast
  next
    case (Inr x)
    then have "run_loop is_halted step n u = (Inl e, t)" using Suc.prems nh su by (simp add: sbind_def)
    then obtain k v where "k < n" "reachable u k v" "sim_step v (Inl e) t" using Suc.IH by blast
    moreover have "sim_step s (Inr ()) u" using nh su Inr by (simp add: sim_step_iff)
    ultimately show ?thesis
      using reachable_front [of u k v s] by (intro exI [of _ "Suc k"] exI [of _ v]) simp
  qed
qed simp

lemma reachable_functional: "reachable s n t \<Longrightarrow> reachable s n u \<Longrightarrow> t = u"
proof (induction n arbitrary: t u)
  case (Suc n)
  obtain a b where "reachable s n a" "sim_step a (Inr ()) t" "reachable s n b" "sim_step b (Inr ()) u"
    using Suc.prems by (blast elim: reachable_Suc)
  then show ?case using Suc.IH sim_step_deterministic by blast
qed (blast elim: reachable_zero)

section \<open>Code in memory\<close>

text \<open>The program \<open>is\<close> encoded in the words from address \<open>a\<close> on.\<close>

definition code_at :: "sim \<Rightarrow> nat \<Rightarrow> instr list \<Rightarrow> bool" where
  "code_at s a is \<longleftrightarrow>
     a + length is \<le> msize s \<and> (\<forall>k < length is. mword s (a + k) = encode (is ! k) \<and> valid_instr (is ! k))"

lemma code_at_put [state_simps]:
  "code_at (put_sreg k w s) a is \<longleftrightarrow> code_at s a is" "code_at (put_vreg k v s) a is \<longleftrightarrow> code_at s a is"
  "code_at (put_areg k c s) a is \<longleftrightarrow> code_at s a is" "code_at (put_pc w s) a is \<longleftrightarrow> code_at s a is"
  "code_at (put_count p s) a is \<longleftrightarrow> code_at s a is" "code_at (put_halted h s) a is \<longleftrightarrow> code_at s a is"
  by (simp_all add: code_at_def state_simps)

lemma code_at_put_mword:
  "code_at s a is \<Longrightarrow> b < msize s \<Longrightarrow> wf27 w \<Longrightarrow> b < a \<or> a + length is \<le> b \<Longrightarrow>
   code_at (put_mword b w s) a is"
  by (auto simp: code_at_def state_simps)

lemma fetch_at:
  assumes "code_at s a is" and "k < length is" and "pcv s = int (a + k)" and "msize s \<le> 2 ^ 31"
  shows "fetch s = (Inr (is ! k), put_pc (digits_of 27 (int (a + k + 1))) s)"
proof -
  have ok: "addr_ok s (int (a + k))" using assms by (auto simp: code_at_def addr_ok_def)
  have "fits 27 (int (a + k + 1))" using assms by (auto simp: code_at_def fits_27)
  moreover have "decode (mword s (a + k)) = Inr (is ! k)"
    using assms by (simp add: code_at_def decode_encode)
  moreover have "word27_to_int (rf_pc (sim_regs s)) = int (a + k)"
    using assms(3) by (simp add: pcv_def)
  ultimately show ?thesis using ok
    by (simp add: fetch_def sx_simps run_simps ac_simps del: of_nat_add)
qed

lemma step_at:
  assumes "code_at s a is" and "k < length is" and "pcv s = int (a + k)" and "msize s \<le> 2 ^ 31"
    and "\<not> is_halted s"
  shows "step s = run_one (is ! k) (put_pc (digits_of 27 (int (a + k + 1))) s)"
  using fetch_at [OF assms(1-4)] assms(5) by (simp add: step_def sbind_def)

end
