(* ===== verification/TerCoreProps.thy ===== *)
theory TerCoreProps
  imports TerReach
begin

text \<open>
  The properties of the core: ternary arithmetic, the packed memory words, the instruction
  encoding, the memory and the register file, and the execution of single instructions.
\<close>

section \<open>Ternary arithmetic\<close>

text \<open>
  C10: \<open>Word27\<close> arithmetic on trits is integer arithmetic modulo \<open>3^27\<close>, taken into the
  balanced range: addition with ripple carry and subtraction wrap, negation is exact, the
  sign trit is the sign, and \<open>from_int\<close> undoes \<open>to_int\<close>.
\<close>

theorem word27_arithmetic:
  assumes "wf27 a" and "wf27 b"
  shows "word27_to_int (word27_add a b) = balmod 27 (word27_to_int a + word27_to_int b)
    \<and> word27_to_int (word27_sub a b) = balmod 27 (word27_to_int a - word27_to_int b)
    \<and> word27_to_int (word27_neg a) = - word27_to_int a
    \<and> trit_value (sign_trit a) = sgn (word27_to_int a)
    \<and> word27_from_int (word27_to_int a) = Inr a"
  using assms
  by (simp add: word27_to_int_add word27_to_int_sub sign_trit_value word27_from_to_int)

theorem word27_arithmetic_witness:
  "word27_to_int (word27_add (digits_of 27 3812798742493) (digits_of 27 1)) = - 3812798742493"
proof -
  have "word27_to_int (word27_add (digits_of 27 3812798742493) (digits_of 27 1))
      = balmod 27 (word27_to_int (digits_of 27 3812798742493) + word27_to_int (digits_of 27 1))"
    using word27_arithmetic [of "digits_of 27 3812798742493" "digits_of 27 1"] by simp
  then show ?thesis by (simp add: word27_to_int_digits fits_27) (simp add: balmod_def max_trits_def)
qed

text \<open>
  \<open>Word27::from_int\<close> succeeds exactly on the integers of magnitude at most
  3812798742493, and then the word is the integer; every other value fails its assertion.
\<close>

theorem word27_from_int_total:
  "case word27_from_int v of
     Inl e \<Rightarrow> \<not> fits 27 v \<and> (\<exists>m. e = AssertFailed m)
   | Inr w \<Rightarrow> fits 27 v \<and> wf27 w \<and> word27_to_int w = v"
  by (cases "fits 27 v") (simp_all add: word27_from_int_def word27_range word27_to_int_digits)

text \<open>
  \<open>mul\<close> by shift and add never overflows: the \<open>Word54\<close> product of two \<open>Word27\<close> is the
  exact integer product; \<open>mac_inplace\<close> adds it modulo \<open>3^54\<close>.
\<close>

theorem word_mul_exact:
  assumes "wf27 a" and "wf27 b" and "wf54 acc"
  shows "wf54 (word_mul a b) \<and> word54_value (word_mul a b) = word27_to_int a * word27_to_int b
    \<and> word54_value (mac_inplace acc a b)
        = balmod 54 (word54_value acc + word27_to_int a * word27_to_int b)"
  using word_mul_value [OF assms(1,2)] mac_inplace_value [OF assms(3,1,2)] by simp

theorem word_mul_exact_witness:
  "word54_value (word_mul (digits_of 27 3812798742493) (digits_of 27 (- 7))) = - 26689591197451"
  using word_mul_exact [of "digits_of 27 3812798742493" "digits_of 27 (- 7)" word54_zero]
  by (simp add: word27_to_int_digits fits_27)

text \<open>
  \<open>Word54::from_int\<close> represents every \<open>int64_t\<close> but the least one, and \<open>to_int\<close> gives it
  back; on \<open>INT64_MIN\<close> the digit loop leaves the range of \<open>int64_t\<close>, which is undefined
  behaviour.
\<close>

theorem word54_from_int_range:
  assumes "in_i64 v"
  shows "if v = - (2 ^ 63) then word54_from_int v = Inl (SignedOverflow ''int64 +'')
    else \<exists>w. word54_from_int v = Inr w \<and> wf54 w \<and> word54_to_int w = v"
proof (cases "v = - (2 ^ 63)")
  case True
  then show ?thesis using word54_from_int_min by simp
next
  case False
  then show ?thesis using word54_from_int_value [of v] assms by (auto simp: in_i64_def)
qed

theorem word54_from_int_range_witness:
  "\<exists>w. word54_from_int (- 9223372036854775807) = Inr w \<and> word54_to_int w = - 9223372036854775807"
  using word54_from_int_range [of "- 9223372036854775807"] by (auto simp: in_i64_def)

text \<open>
  packing a word into 64 bits and unpacking it are inverse, in both directions: on trit
  words, and on the packed words with no code \<open>11\<close> and no bit above the 54th.
\<close>

theorem pack_unpack_inverse:
  assumes "wf27 w" and "packed_ok p"
  shows "unpack_word27 (pack_word27 w) = w \<and> packed_ok (pack_word27 w)
    \<and> pack_word27 (unpack_word27 p) = p \<and> wf27 (unpack_word27 p)"
  using assms by (simp add: packing.dec_enc packing.enc_wf packing.enc_dec packing.dec_ok)

theorem pack_unpack_inverse_witness:
  "unpack_word27 (pack_word27 (digits_of 27 (- 41))) = digits_of 27 (- 41)"
  using pack_unpack_inverse [of "digits_of 27 (- 41)" "pack_word27 word27_zero"]
  by (simp add: packed_ok_pack)

section \<open>Instruction words\<close>

text \<open>
  decoding an encoded instruction gives the instruction back, with its immediate reduced
  to 12 trits; so it is the same instruction exactly when the immediate fits, and \<open>encode\<close>
  drops the excess of a wider immediate silently.
\<close>

theorem decode_after_encode:
  assumes "fields_ok i"
  shows "decode (encode i) = Inr (i\<lparr>imm := balmod 12 (imm i)\<rparr>)
    \<and> (decode (encode i) = Inr i \<longleftrightarrow> fits 12 (imm i))"
proof -
  have d: "decode (encode i) = Inr (i\<lparr>imm := balmod 12 (imm i)\<rparr>)"
    using assms by (simp add: fields_ok_def decode_encode_wrap)
  have "i\<lparr>imm := balmod 12 (imm i)\<rparr> = i \<longleftrightarrow> balmod 12 (imm i) = imm i" by (cases i) simp
  also have "\<dots> \<longleftrightarrow> fits 12 (imm i)" using fits_balmod [of 12 "imm i"] balmod_id [of 12] by metis
  finally show ?thesis by (simp add: d)
qed

theorem decode_after_encode_witness:
  "decode (encode \<lparr>op = TJUMP, dst = 0, src1 = 26, src2 = 3, imm = - 265720\<rparr>)
   = Inr \<lparr>op = TJUMP, dst = 0, src1 = 26, src2 = 3, imm = - 265720\<rparr>"
  using decode_after_encode [of "\<lparr>op = TJUMP, dst = 0, src1 = 26, src2 = 3, imm = - 265720\<rparr>"]
  by (auto simp: fields_ok_def fits_12)

text \<open>
  C7: a memory word either decodes to an instruction whose encoding is that word, with
  operands of 0 to 26 and an immediate of 12 trits, or its opcode field is not an opcode and
  \<open>decode\<close> throws \<open>IllegalOpcode\<close> with the value of that field.
\<close>

theorem decode_faithful:
  assumes "wf27 w"
  shows "case decode w of
     Inr i \<Rightarrow> encode i = w \<and> valid_instr i
   | Inl e \<Rightarrow> \<not> is_valid_opcode (get_trits w 21 6) \<and> e = IllegalOpcode (get_trits w 21 6)"
  using assms by (auto simp: encode_decode decode_valid decode_error_iff split: sum.splits)

theorem decode_faithful_witness:
  "decode word27_zero = Inr \<lparr>op = TNOP, dst = 13, src1 = 13, src2 = 13, imm = 0\<rparr>
   \<and> encode \<lparr>op = TNOP, dst = 13, src1 = 13, src2 = 13, imm = 0\<rparr> = word27_zero"
proof -
  have d: "decode word27_zero = Inr \<lparr>op = TNOP, dst = 13, src1 = 13, src2 = 13, imm = 0\<rparr>"
    by code_simp
  then show ?thesis using decode_faithful [OF wf27_zero] by (simp add: d)
qed

section \<open>Memory and registers\<close>

text \<open>
  a block of words stored in a memory that holds it is read back word by word, every
  other address keeps its word, and the size does not change; an access outside the memory
  throws.
\<close>

theorem memory_block:
  assumes "a + length ws \<le> size_words m" and "list_all wf27 ws"
  shows "\<exists>m'. store_words store_word m a ws = Inr m' \<and> size_words m' = size_words m
    \<and> (\<forall>b. load_word m' b
         = (if a \<le> b \<and> b < a + length ws then Inr (ws ! (b - a)) else load_word m b))
    \<and> load_word m (size_words m + d) = Inl (OutOfRange ''Memory::load_word'')"
  using ram.store_words_block [OF assms] by (auto simp: load_word_def size_words_def)

theorem memory_block_witness:
  "\<exists>m'. store_words store_word (mk_memory 4) 1 [digits_of 27 9, digits_of 27 (- 2)] = Inr m'
     \<and> load_word m' 2 = Inr (digits_of 27 (- 2)) \<and> load_word m' 3 = load_word (mk_memory 4) 3"
  using memory_block [of 1 "[digits_of 27 9, digits_of 27 (- 2)]" "mk_memory 4" 0]
  by (auto simp: size_words_def mk_memory_def)

text \<open>
  a scalar register reads what was last written to it, except register 0, which always
  reads zero; the other registers keep their value and an index outside 0 to 26 throws.
\<close>

theorem scalar_registers:
  assumes "length (rf_scalars r) = 27" and "0 \<le> j" and "j < 27"
  shows "case write_scalar r k v of
     Inl e \<Rightarrow> k < 0 \<or> 27 \<le> k
   | Inr r' \<Rightarrow> 0 \<le> k \<and> k < 27 \<and> read_scalar r' 0 = Inr word27_zero
       \<and> read_scalar r' j = (if j = k \<and> k \<noteq> 0 then Inr v else read_scalar r j)"
  using assms
  by (auto simp: write_scalar_def read_scalar_def reg_check_def nat_eq_iff nth_list_update split: sum.splits)

theorem scalar_registers_witness:
  "\<exists>r'. write_scalar mk_regfile 5 (digits_of 27 8) = Inr r'
     \<and> read_scalar r' 5 = Inr (digits_of 27 8) \<and> read_scalar r' 0 = Inr word27_zero"
proof -
  have "length (rf_scalars mk_regfile) = 27" by (simp add: mk_regfile_def)
  moreover obtain r' where "write_scalar mk_regfile 5 (digits_of 27 8) = Inr r'"
    by (simp add: write_scalar_def reg_check_def)
  ultimately show ?thesis
    using scalar_registers [of mk_regfile 5 5 "digits_of 27 8"] by auto
qed

section \<open>Scalar execution\<close>



text \<open>
  \<open>TBLT\<close> branches on the sign of the wrapped difference: it is the signed comparison
  whenever the difference fits a word, and it is the opposite one when it does not.
\<close>

theorem tblt_compares:
  assumes "wf_sim s" and "valid_instr i" and "op i = TBLT"
  shows "fst (run_one i s) = Inr ()
    \<and> (fits 27 (sval s (src1 i) - sval s (src2 i)) \<longrightarrow>
         pcv (snd (run_one i s)) = (if sval s (src1 i) < sval s (src2 i) then imm i else pcv s))
    \<and> (\<not> fits 27 (sval s (src1 i) - sval s (src2 i)) \<longrightarrow>
         pcv (snd (run_one i s)) = (if sval s (src1 i) < sval s (src2 i) then pcv s else imm i))"
proof -
  let ?a = "sval s (src1 i)" and ?b = "sval s (src2 i)"
  have b: "src1 i < 27" "src2 i < 27" using assms(2) by (simp_all add: valid_instr_def)
  have "agrees (run_one i s) (aexec i (abs_sim s))"
    using branch_refines [of "put_count (op i) s" i] assms
    by (simp add: run_one_count wf_put_count abs_simps)
  then have run: "fst (run_one i s) = Inr ()" and abs: "abs_sim (snd (run_one i s))
      = (if balmod 27 (?a - ?b) < 0 then ajump (imm i) (abs_sim s) else abs_sim s)"
    using b assms(3) by (simp_all add: aexec_def agrees_def abs_simps Let_def)
  have "pcv (snd (run_one i s)) = (if balmod 27 (?a - ?b) < 0 then imm i else pcv s)"
    using arg_cong [OF abs, of am_pc] by (simp add: abs_simps ajump_def split: if_splits)
  note run = run this
  have "fits 27 ?a" "fits 27 ?b" using assms(1) b by (simp_all add: fits_sval)
  then have "balmod 27 (?a - ?b) < 0 \<longleftrightarrow> (?a < ?b \<longleftrightarrow> fits 27 (?a - ?b))"
    by (rule balmod_diff_sign)
  then show ?thesis using run by auto
qed

theorem tblt_compares_witness:
  "pcv (snd (run_one \<lparr>op = TBLT, dst = 0, src1 = 0, src2 = 1, imm = 6\<rparr>
     (put_sreg 1 (digits_of 27 5) (mk_sim 8)))) = 6"
proof -
  let ?s = "put_sreg 1 (digits_of 27 5) (mk_sim 8)"
  have wf: "wf_sim ?s" by (simp add: wf_put_sreg wf_sim_init)
  have "shaped (mk_sim 8)" by (simp add: wf_sim_init)
  then have "sval ?s 1 = 5" by (simp add: state_simps word27_to_int_digits fits_27)
  then show ?thesis
    using tblt_compares [OF wf, of "\<lparr>op = TBLT, dst = 0, src1 = 0, src2 = 1, imm = 6\<rparr>"]
    by (simp add: valid_instr_def fits_12 fits_27)
qed

text \<open>
  C31: \<open>TCALL\<close> followed by \<open>TRET\<close> is a return: the program counter and the stack pointer are
  those before the call, and the memory differs at most in the stack slot.
\<close>

theorem call_then_return:
  assumes "wf_sim s" and "valid_instr c" and "op c = TCALL" and "valid_instr r" and "op r = TRET"
    and "msize s \<le> 2 ^ 31" and "addr_ok s (sval s 26)"
    and "run_one c s = (Inr (), t)"
  shows "pcv t = imm c \<and> (\<exists>u. run_one r t = (Inr (), u) \<and> pcv u = pcv s \<and> sval u 26 = sval s 26
    \<and> (\<forall>a. a \<noteq> nat (sval s 26) \<longrightarrow> mval u a = mval s a))"
proof -
  let ?sp = "sval s 26"
  have wf: "wf_sim t" using keepsD [OF keeps_run_one assms(1,8)] .
  have sh: "shaped s" "wf27 (rf_pc (sim_regs s))" using assms(1) by (simp_all add: wf27_pc)
  have m: "nat ?sp < msize s" "0 \<le> ?sp" using assms(7) by (simp_all add: addr_ok_def)
  have f: "fits 27 (?sp + 1)" "fits 27 ?sp" using m assms(6) by (auto simp: fits_27)
  have t: "t = put_pc (digits_of 27 (imm c)) (put_sreg 26 (digits_of 27 (?sp + 1))
      (put_mword (nat ?sp) (rf_pc (sim_regs s)) (put_count TCALL s)))"
    using assms(2,3,7,8) f sh
    by (simp add: run_one_count dispatch_def exec_tcall_def sx_simps run_simps state_simps
        valid_instr_def imm_fits_27 Let_def flip: sval_def)
  have v: "sval t 26 = ?sp + 1" "addr_ok t ?sp" "mword t (nat ?sp) = rf_pc (sim_regs s)" "shaped t"
    "pcv t = imm c" "\<And>a. a \<noteq> nat ?sp \<Longrightarrow> mval t a = mval s a"
    using m sh assms(2,7) f unfolding t
    by (simp_all add: state_simps word27_to_int_digits valid_instr_def imm_fits_27)
  let ?u = "put_pc (rf_pc (sim_regs s)) (put_sreg 26 (digits_of 27 ?sp) (put_count TRET t))"
  have "run_one r t = (Inr (), ?u)"
    using assms(4,5) v f by (simp add: run_one_count dispatch_def exec_tret_def sx_simps run_simps
        state_simps Let_def flip: sval_def)
  then show ?thesis using v f m by (simp add: state_simps word27_to_int_digits pcv_def)
qed

theorem call_then_return_witness:
  "\<exists>t u. run_one \<lparr>op = TCALL, dst = 0, src1 = 0, src2 = 0, imm = 5\<rparr> (mk_sim 8) = (Inr (), t)
     \<and> run_one \<lparr>op = TRET, dst = 0, src1 = 0, src2 = 0, imm = 0\<rparr> t = (Inr (), u) \<and> pcv u = 0"
proof -
  let ?c = "\<lparr>op = TCALL, dst = 0, src1 = 0, src2 = 0, imm = 5\<rparr>"
  let ?r = "\<lparr>op = TRET, dst = 0, src1 = 0, src2 = 0, imm = 0\<rparr>"
  have "fst (run_one ?c (mk_sim 8)) = Inr ()" by code_simp
  then obtain t where t: "run_one ?c (mk_sim 8) = (Inr (), t)" by (cases "run_one ?c (mk_sim 8)") simp
  have z: "pcv (mk_sim 8) = 0" "sval (mk_sim 8) 26 = 0" by code_simp+
  have v: "valid_instr ?c" "valid_instr ?r" by (simp_all add: valid_instr_def fits_12)
  have m: "msize (mk_sim 8) \<le> 2 ^ 31" "addr_ok (mk_sim 8) (sval (mk_sim 8) 26)"
    unfolding z by (simp_all add: addr_ok_def msize_def mk_sim_def mk_memory_def size_words_def)
  from call_then_return [OF wf_sim_init v(1) _ v(2) _ m t] z(1) t show ?thesis by auto
qed

section \<open>Runs\<close>

text \<open>
  C20: From a fresh simulator whose memory holds any program and data, started at any entry, every
  state that the execution of any instructions reaches satisfies the object invariant (27 scalar,
  9 vector and 3 accumulator registers of the right shape and range, register 0 zero, the
  total equal to the sum of the counters), keeps the size of the memory, and has counted one
  instruction per step.
\<close>

theorem reachable_invariant:
  assumes "wf27 entry" and "reachable (put_pc entry ((mk_sim n)\<lparr>sim_mem := m\<rparr>)) k t"
  shows "wf_sim t \<and> msize t = size_words m \<and> oc_total (sim_counters t) = of_nat k"
proof -
  let ?s = "put_pc entry ((mk_sim n)\<lparr>sim_mem := m\<rparr>)"
  have "wf_sim ((mk_sim n)\<lparr>sim_mem := m\<rparr>)" using wf_sim_init [of n] by (simp add: wf_sim_def)
  then have w: "wf_sim ?s" using assms(1) by (simp add: put_pc_def wf_sim_def wf_regs_def)
  have "oc_total (sim_counters ?s) = 0" "msize ?s = size_words m" by (simp_all add: put_pc_def mk_sim_def counters_init_def msize_def)
  then show ?thesis using reachable_wf [OF assms(2) w] reachable_counts [OF assms(2)] by simp
qed

text \<open>A memory that holds \<open>TLOADI R5, -7\<close> at address 1.\<close>

definition load_program :: memory where
  "load_program = (case store_words store_word (mk_memory 3) 1 [encode \<lparr>op = TLOADI, dst = 5, src1 = 0, src2 = 0, imm = - 7\<rparr>] of
     Inl e \<Rightarrow> mk_memory 3 | Inr m \<Rightarrow> m)"

theorem reachable_invariant_witness:
  "\<exists>t. reachable (put_pc (digits_of 27 1) ((mk_sim 3)\<lparr>sim_mem := load_program\<rparr>)) 1 t \<and> oc_total (sim_counters t) = 1 \<and> wf_sim t \<and>
     read_scalar (sim_regs t) 5 = Inr (digits_of 27 (- 7))"
proof -
  let ?s = "put_pc (digits_of 27 1) ((mk_sim 3)\<lparr>sim_mem := load_program\<rparr>)"
  let ?t = "snd (step ?s)"
  have "fst (step ?s) = Inr () \<and> \<not> is_halted ?s \<and> read_scalar (sim_regs ?t) 5 = Inr (digits_of 27 (- 7))" by code_simp
  then have "sim_step ?s (Inr ()) ?t" "read_scalar (sim_regs ?t) 5 = Inr (digits_of 27 (- 7))"
    by (simp_all add: sim_step_iff prod_eq_iff)
  then show ?thesis
    using reachable_invariant [where entry = "digits_of 27 1" and n = 3 and m = load_program and k = 1 and t = ?t, OF wf27_digits] reach_step [OF reach_refl, of ?s ?t]
    by (intro exI [of _ ?t]) simp
qed

text \<open>
  C21: \<open>Sim::run\<close> returns normally exactly when the machine halts within the safety limit of
  1000000 steps, and the state it leaves is that halted state.
\<close>

theorem run_halts_iff:
  "run s = (Inr (), t) \<longleftrightarrow> (\<exists>k \<le> kSafetyLimit. reachable s k t) \<and> is_halted t"
proof
  assume r: "run s = (Inr (), t)"
  obtain x u where l: "run_loop is_halted step kSafetyLimit s = (x, u)"
    by (cases "run_loop is_halted step kSafetyLimit s")
  have x: "x = Inr ()" using r l by (cases x) (simp_all add: run_def sbind_def)
  then have "t = u \<and> is_halted u" using r l by (simp add: run_def sbind_def split: if_splits)
  then show "(\<exists>k \<le> kSafetyLimit. reachable s k t) \<and> is_halted t"
    using run_loop_reachable [of kSafetyLimit s u] l x by auto
qed (use run_reaches in blast)

text \<open>
  C29: when \<open>Sim::run\<close> throws, either some step before the safety limit threw that error, and
  the state is the one that step left, or the limit was reached without a halt and the error
  is the safety-limit error.
\<close>

theorem run_error_cause:
  assumes "run s = (Inl e, t)"
  shows "(\<exists>k u. k < kSafetyLimit \<and> reachable s k u \<and> sim_step u (Inl e) t)
    \<or> (e = RuntimeError ''Sim::run safety limit'' \<and> reachable s kSafetyLimit t \<and> is_halted t = False)"
proof -
  obtain x u where l: "run_loop is_halted step kSafetyLimit s = (x, u)"
    by (cases "run_loop is_halted step kSafetyLimit s")
  show ?thesis
  proof (cases x)
    case (Inl e')
    then show ?thesis using assms l run_loop_error_reachable [of kSafetyLimit s e t]
      by (auto simp: run_def sbind_def)
  next
    case (Inr y)
    then have "\<not> is_halted u \<and> t = u \<and> e = RuntimeError ''Sim::run safety limit''"
      using assms l by (simp add: run_def sbind_def split: if_splits)
    then show ?thesis using run_loop_reachable [of kSafetyLimit s u] l Inr by auto
  qed
qed

theorem run_error_cause_witness:
  "\<exists>e t. run (mk_sim 0) = (Inl e, t) \<and> sim_step (mk_sim 0) (Inl e) t"
proof -
  let ?e = "OutOfRange ''Memory::load_word''"
  have "step (mk_sim 0) = (Inl ?e, mk_sim 0)"
    by (simp add: step_def fetch_def get_pc_def ld_def load_word_def is_halted_def mk_sim_def
        mk_regfile_def mk_memory_def sbind_def)
  moreover have nh: "\<not> is_halted (mk_sim 0)" by (simp add: is_halted_def mk_sim_def mk_regfile_def)
  ultimately have st: "sim_step (mk_sim 0) (Inl ?e) (mk_sim 0)" by (simp add: sim_step_iff)
  have "run_loop is_halted step (Suc n) (mk_sim 0) = (Inl ?e, mk_sim 0)" for n
    using st by (simp add: sim_step_iff sbind_def)
  from this [of 999999] have "run (mk_sim 0) = (Inl ?e, mk_sim 0)"
    by (simp add: run_def sbind_def kSafetyLimit_def)
  then show ?thesis using run_error_cause [of "mk_sim 0" ?e "mk_sim 0"] st by blast
qed

text \<open>
  executing one instruction, whether it throws or not, adds one to the counter of its
  opcode and to the total and changes no other counter.
\<close>

theorem run_one_counts:
  "get_count q (sim_counters (snd (run_one i s)))
     = get_count q (sim_counters s) + (if q = op i then 1 else 0)
   \<and> oc_total (sim_counters (snd (run_one i s))) = oc_total (sim_counters s) + 1"
  by (simp add: run_one_counters bump_is_bump_n get_count_bump_n) (simp add: bump_n_def)

section \<open>Vector instructions\<close>

text \<open>
  \<open>TVSTORE\<close> followed by \<open>TVLOAD\<close> from the same address gives back the 27 lanes, each
  clamped to the 9-trit range, so unchanged for a narrow vector; the memory outside the block
  keeps its words.
\<close>

theorem vector_store_load:
  assumes "wf_sim s" and "op i = TVSTORE" and "src1 i < 9" and "src2 i < 27"
    and "op j = TVLOAD" and "dst j < 9" and "src1 j = src2 i" and "block_ok s (sval s (src2 i))"
  shows "\<exists>t u. run_one i s = (Inr (), t) \<and> run_one j t = (Inr (), u)
    \<and> vreg u (dst j) = map (\<lambda>x. clamp kLaneMin kLaneMax x) (vreg s (src1 i))
    \<and> (narrow (vreg s (src1 i)) \<longrightarrow> vreg u (dst j) = vreg s (src1 i))
    \<and> (\<forall>a. int a < sval s (src2 i) \<or> sval s (src2 i) + 27 \<le> int a \<longrightarrow> mword u a = mword s a)"
proof -
  let ?b = "sval s (src2 i)" and ?v = "vreg s (src1 i)" and ?s = "put_count TVSTORE s"
  have v: "wf_vec ?v" and sh: "shaped s" using assms(1,3) by (simp_all add: wf_vec_vreg)
  let ?t = "store_lanes ?b ?v ?s"
  have blk: "block_ok ?s ?b" using assms(8) by (simp add: state_simps)
  have t: "run_one i s = (Inr (), ?t)"
    using assms v by (simp add: run_one_count dispatch_def run_simps state_simps)
  have blk': "block_ok ?t ?b" using blk mword_store_lanes(2) [OF blk] by (simp add: block_ok_def)
  let ?u = "put_vreg (dst j) (load_lanes ?t ?b) (put_count TVLOAD ?t)"
  have "load_lanes (put_count TVLOAD ?t) ?b = load_lanes ?t ?b" by (simp add: load_lanes_def state_simps)
  then have u: "run_one j ?t = (Inr (), ?u)"
    using assms blk' by (simp add: run_one_count dispatch_def run_simps state_simps)
  have "vreg ?u (dst j) = map (\<lambda>x. clamp kLaneMin kLaneMax x) ?v"
    using load_store_lanes [OF blk v] assms(6) sh by (simp add: state_simps)
  then show ?thesis using t u narrow_clamp_id
    by (intro exI [of _ ?t] exI [of _ ?u]) (simp add: state_simps mword_store_lanes [OF blk])
qed

theorem vector_store_load_witness:
  "\<exists>t u. run_one \<lparr>op = TVSTORE, dst = 0, src1 = 2, src2 = 0, imm = 0\<rparr>
      (put_vreg 2 (vec_broadcast 17) (mk_sim 30)) = (Inr (), t)
    \<and> run_one \<lparr>op = TVLOAD, dst = 3, src1 = 0, src2 = 0, imm = 0\<rparr> t = (Inr (), u)
    \<and> vreg u 3 = replicate 27 17"
proof -
  let ?s = "put_vreg 2 (vec_broadcast 17) (mk_sim 30)"
  have wf: "wf_sim ?s" by (simp add: wf_put_vreg wf_sim_init)
  have "shaped (mk_sim 30)" by (simp add: wf_sim_init)
  then have "vreg ?s 2 = replicate 27 17" by (simp add: state_simps vec_maps clamp_def kLaneMin_def kLaneMax_def)
  then show ?thesis
    using vector_store_load [OF wf, of "\<lparr>op = TVSTORE, dst = 0, src1 = 2, src2 = 0, imm = 0\<rparr>"
        "\<lparr>op = TVLOAD, dst = 3, src1 = 0, src2 = 0, imm = 0\<rparr>"]
    by (auto simp: block_ok_def state_simps clamp_def kLaneMin_def kLaneMax_def)
qed

text \<open>
  \<open>TVMAX\<close> of a narrow vector leaves in lane \<open>k\<close> the maximum of the lanes 0 to \<open>k\<close>, so the
  last lane holds the maximum of the vector.
\<close>

theorem running_max_prefix_max:
  assumes "length a = 27" and "narrow a" and "k < 27"
  shows "running_max a ! k = Max (set (take (Suc k) a)) \<and> last (running_max a) = Max (set a)"
proof -
  have "prefix_max a 26 = Max (set a)" using assms(1) by (simp add: prefix_max_def)
  then show ?thesis
    using assms running_max_eq [OF assms(1,2)] by (simp add: prefix_max_def last_conv_nth del: upt_rec_numeral)
qed

theorem running_max_prefix_max_witness:
  "running_max (replicate 26 4 @ [9]) ! 3 = 4 \<and> last (running_max (replicate 26 4 @ [9])) = 9"
  using running_max_prefix_max [of "replicate 26 4 @ [9]" 3]
  by (simp add: narrow_def list_all_iff kLaneMin_def kLaneMax_def)

text \<open>
  \<open>TVSHUF\<close> rotates: lane \<open>k\<close> of the result is lane \<open>k + m\<close> modulo 27 of the operand for
  every immediate, negative ones included, two rotations add up, and rotating back restores
  the vector.
\<close>

theorem shuffle_rotates:
  assumes "length a = 27" and "narrow a" and "k < 27"
  shows "shuffle a m ! k = a ! nat ((int k + m) mod 27)
    \<and> shuffle (shuffle a m) n = shuffle a (m + n) \<and> shuffle (shuffle a m) (- m) = a"
proof -
  have "shuffle a 0 = a"
    using shuffle_nth [OF assms(1,2), of _ 0] assms(1) by (intro nth_equalityI) simp_all
  then show ?thesis
    using shuffle_nth [OF assms] shuffle_shuffle [OF assms(1,2)] by simp
qed

theorem shuffle_rotates_witness:
  "shuffle (map int [0..<27]) (- 2) ! 0 = 25"
  using shuffle_rotates [of "map int [0..<27]" 0 "- 2" 0]
  by (simp add: narrow_def list_all_iff kLaneMin_def kLaneMax_def)

text \<open>
  C32: up to 1458 successive \<open>TVMAC\<close> of narrow vectors into a cleared accumulator never leave
  \<open>int64_t\<close>, and the following \<open>TVSUM\<close> is the sum of the dot products and fits a word.
\<close>

theorem mac_chain_is_dot_product:
  assumes "list_all narrow_pair ps" and "length ps \<le> 1458"
  shows "\<exists>acc. mac_chain vaccum_zero ps = Inr acc
    \<and> vec_sum acc = Inr (\<Sum>(a, b) \<leftarrow> ps. dot27 a b) \<and> fits 27 (\<Sum>(a, b) \<leftarrow> ps. dot27 a b)"
  by (rule mac_chain_dot [OF assms])

theorem mac_chain_is_dot_product_witness:
  "\<exists>acc. mac_chain vaccum_zero [(replicate 27 3, replicate 27 (- 9841)), (replicate 27 1, replicate 27 2)] = Inr acc
     \<and> vec_sum acc = Inr (- 797067)"
  using mac_chain_is_dot_product [of "[(replicate 27 3, replicate 27 (- 9841)), (replicate 27 1, replicate 27 2)]"]
  by (auto simp: narrow_pair_def narrow_def list_all_iff kLaneMin_def kLaneMax_def dot27_replicate)

text \<open>
  the element-wise vector operations saturate: a lane of the sum, difference, product or
  negation of two vectors of \<open>int32_t\<close> lanes is the exact result clamped to \<open>int32_t\<close>.
\<close>

theorem vector_ops_saturate:
  assumes "wf_vec a" and "wf_vec b" and "k < 27"
  shows "vec_add a b ! k = clamp (- (2 ^ 31)) (2 ^ 31 - 1) (a ! k + b ! k)
    \<and> vec_sub a b ! k = clamp (- (2 ^ 31)) (2 ^ 31 - 1) (a ! k - b ! k)
    \<and> vec_mul a b ! k = clamp (- (2 ^ 31)) (2 ^ 31 - 1) (a ! k * b ! k)
    \<and> vec_neg a ! k = clamp (- (2 ^ 31)) (2 ^ 31 - 1) (- (a ! k))"
  using assms by (simp add: vec_maps INT32_MIN_def INT32_MAX_def del: upt_rec_numeral)

theorem vector_ops_saturate_witness:
  "vec_neg (replicate 27 (- 2147483648)) ! 5 = 2147483647"
  using vector_ops_saturate [of "replicate 27 (- 2147483648)" "replicate 27 0" 5]
  by (simp add: wf_vec_def list_all_iff in_i32_def clamp_def)

end
