(* ===== verification/TerAsm.thy ===== *)
theory TerAsm
  imports TerIsa
begin

text \<open>
  The assembler: \<open>detail::tokenise\<close> (\<open>src/asm/lexer.cpp\<close>) and \<open>assemble\<close>
  (\<open>src/asm/emitter.cpp\<close>). Strings are lists of bytes (\<open>char\<close>); the character classes are
  those of the C locale. The two passes of the emitter are the fold over the tokens, which
  collects labels and instruction lines, and the loop over the lines, which encodes them.
\<close>

section \<open>Characters and numbers of the standard library\<close>

definition isspace :: "char \<Rightarrow> bool" where
  "isspace c \<longleftrightarrow> c = CHR '' '' \<or> c = CHR 0x09 \<or> c = CHR 0x0A \<or> c = CHR 0x0B \<or> c = CHR 0x0C \<or> c = CHR 0x0D"

definition digits_chars :: string where
  "digits_chars = ''0123456789''"

definition isdigit :: "char \<Rightarrow> bool" where
  "isdigit c \<longleftrightarrow> c \<in> set digits_chars"

definition digit_val :: "char \<Rightarrow> nat" where
  "digit_val c = length (takeWhile (\<lambda>d. d \<noteq> c) digits_chars)"

text \<open>
  \<open>std::stoi\<close>: an optional sign and the longest run of digits; no digit is
  \<open>std::invalid_argument\<close>, a value outside \<open>int\<close> is \<open>std::out_of_range\<close>, and what follows
  the digits is ignored. The tokens it is applied to hold no white space.
\<close>

definition stoi :: "string \<Rightarrow> int res" where
  "stoi s =
     (let neg = (s \<noteq> [] \<and> hd s = CHR ''-'');
          body = (if s \<noteq> [] \<and> (hd s = CHR ''-'' \<or> hd s = CHR ''+'') then tl s else s);
          ds = takeWhile isdigit body
      in if ds = [] then Inl (InvalidArgument ''stoi'')
         else let n = foldl (\<lambda>v c. v * 10 + int (digit_val c)) 0 ds; v = (if neg then - n else n)
              in if in_i32 v then Inr v else Inl (OutOfRange ''stoi''))"

lemma drop_dropWhile_less: "length (drop 1 (dropWhile P (c # cs))) < length (c # cs)"
  using length_dropWhile_le [of P "c # cs"] by (cases "dropWhile P (c # cs)") auto

lemma dropWhile_less: "P c \<Longrightarrow> length (dropWhile P (c # cs)) < length (c # cs)"
  by (simp add: le_imp_less_Suc length_dropWhile_le)

text \<open>\<open>std::getline\<close> over the whole source: the text between line feeds, with no empty last line.\<close>

function getlines :: "string \<Rightarrow> string list" where
  "getlines [] = []"
| "getlines (c # cs) =
     takeWhile (\<lambda>x. x \<noteq> CHR 0x0A) (c # cs) # getlines (drop 1 (dropWhile (\<lambda>x. x \<noteq> CHR 0x0A) (c # cs)))"
  by pat_completeness auto
termination
  by (relation "measure length") (simp_all only: wf_measure in_measure drop_dropWhile_less)

section \<open>The lexer\<close>

datatype token_kind = Mnemonic | Reg | VecReg | AccReg | Number | LabelDef | Newline | EOFTok

record token =
  kind :: token_kind
  tk_text :: string

definition tok :: "token_kind \<Rightarrow> string \<Rightarrow> token" where
  "tok k t = \<lparr>kind = k, tk_text = t\<rparr>"

definition is_sep :: "char \<Rightarrow> bool" where
  "is_sep c \<longleftrightarrow> isspace c \<or> c = CHR '',''"

text \<open>The \<open>while (i < line.size())\<close> loop: skip separators, else take the word up to the next one.\<close>

function split_words :: "string \<Rightarrow> string list" where
  "split_words [] = []"
| "split_words (c # cs) =
     (if is_sep c then split_words cs
      else takeWhile (\<lambda>x. \<not> is_sep x) (c # cs) # split_words (dropWhile (\<lambda>x. \<not> is_sep x) (c # cs)))"
  by pat_completeness auto
termination
proof (relation "measure length")
  fix c :: char and cs
  assume "\<not> is_sep c"
  then show "(dropWhile (\<lambda>x. \<not> is_sep x) (c # cs), c # cs) \<in> measure length"
    unfolding in_measure by (rule dropWhile_less)
qed simp_all

definition classify_word :: "string \<Rightarrow> token" where
  "classify_word t =
     (if t \<noteq> [] \<and> last t = CHR '':'' then tok LabelDef (butlast t)
      else if length t \<ge> 2 \<and> hd t \<in> set ''rRvVaA'' \<and> list_all isdigit (tl t) then
        tok (if hd t = CHR ''v'' \<or> hd t = CHR ''V'' then VecReg
             else if hd t = CHR ''a'' \<or> hd t = CHR ''A'' then AccReg else Reg) (tl t)
      else if t \<noteq> [] \<and> (isdigit (hd t) \<or> hd t = CHR ''-'' \<or> hd t = CHR ''+'') then tok Number t
      else tok Mnemonic t)"

definition tokenise_line :: "string \<Rightarrow> token list" where
  "tokenise_line line =
     map classify_word (split_words (takeWhile (\<lambda>c. c \<noteq> CHR '';'') line)) @ [tok Newline '''']"

definition tokenise :: "string \<Rightarrow> token list" where
  "tokenise source = concat (map tokenise_line (getlines source)) @ [tok EOFTok '''']"

section \<open>Labels and lines\<close>

type_synonym labels = "string \<rightharpoonup> int"

record asm_pass =
  ap_labels :: labels
  ap_lines :: "token list list"
  ap_current :: "token list"
  ap_idx :: int

definition flush :: "asm_pass \<Rightarrow> asm_pass" where
  "flush p =
     (if ap_current p = [] then p
      else let defs = takeWhile (\<lambda>t. kind t = LabelDef) (ap_current p);
               rest = dropWhile (\<lambda>t. kind t = LabelDef) (ap_current p);
               p1 = p\<lparr>ap_labels := foldl (\<lambda>m t. m(tk_text t \<mapsto> ap_idx p)) (ap_labels p) defs\<rparr>;
               p2 = (if rest \<noteq> [] then p1\<lparr>ap_lines := ap_lines p1 @ [rest], ap_idx := ap_idx p1 + 1\<rparr> else p1)
           in p2\<lparr>ap_current := []\<rparr>)"

definition asm_token :: "asm_pass \<Rightarrow> token \<Rightarrow> asm_pass" where
  "asm_token p t =
     (if kind t = Newline \<or> kind t = EOFTok then flush p
      else p\<lparr>ap_current := ap_current p @ [t]\<rparr>)"

definition collect_lines :: "token list \<Rightarrow> asm_pass" where
  "collect_lines toks =
     foldl asm_token \<lparr>ap_labels = Map.empty, ap_lines = [], ap_current = [], ap_idx = 0\<rparr> toks"

section \<open>Emission\<close>

definition mnem :: "(string \<times> opcode) list" where
  "mnem =
     [(''tnop'', TNOP), (''thalt'', THALT), (''tdbg'', TDBG),
      (''tadd'', TADD), (''tsub'', TSUB), (''tneg'', TNEG),
      (''tabs'', TABS), (''tand3'', TAND3), (''tor3'', TOR3),
      (''txor3'', TXOR3), (''tcmp'', TCMP), (''tsign'', TSIGN),
      (''tload'', TLOAD), (''tstore'', TSTORE), (''tloadi'', TLOADI),
      (''tbeq'', TBEQ), (''tbne'', TBNE), (''tblt'', TBLT),
      (''tjump'', TJUMP), (''tcall'', TCALL), (''tret'', TRET),
      (''tvadd'', TVADD), (''tvsub'', TVSUB), (''tvneg'', TVNEG),
      (''tvbroadcast'', TVBROADCAST), (''tvmac'', TVMAC), (''tvsum'', TVSUM),
      (''tvmax'', TVMAX), (''tvshuf'', TVSHUF),
      (''tvload'', TVLOAD), (''tvstore'', TVSTORE),
      (''tvmul'', TVMUL)]"

definition reg_operand :: "token_kind \<Rightarrow> int \<Rightarrow> string \<Rightarrow> string \<Rightarrow> token list \<Rightarrow> nat \<Rightarrow> nat res" where
  "reg_operand kd hi expected oob line k =
     (if k \<ge> length line \<or> kind (line ! k) \<noteq> kd then Inl (AssemblerError expected)
      else rbind (stoi (tk_text (line ! k))) (\<lambda>n.
        if n < 0 \<or> n > hi then Inl (AssemblerError oob) else Inr (nat n)))"

definition reg_at :: "token list \<Rightarrow> nat \<Rightarrow> nat res" where
  "reg_at = reg_operand Reg 26 ''expected scalar register'' ''register out of range''"

definition vreg_at :: "token list \<Rightarrow> nat \<Rightarrow> nat res" where
  "vreg_at = reg_operand VecReg 8 ''expected vector register'' ''vreg out of range''"

definition areg_at :: "token list \<Rightarrow> nat \<Rightarrow> nat res" where
  "areg_at = reg_operand AccReg 2 ''expected accumulator register'' ''acc out of range''"

definition imm_at :: "labels \<Rightarrow> token list \<Rightarrow> nat \<Rightarrow> int res" where
  "imm_at ls line k =
     (if k \<ge> length line then Inl (AssemblerError ''expected immediate or label'')
      else let t = line ! k
           in if kind t = Number then stoi (tk_text t)
              else if kind t = Mnemonic then
                (case ls (tk_text t) of
                   None \<Rightarrow> Inl (AssemblerError (''undefined label: '' @ tk_text t))
                 | Some v \<Rightarrow> Inr v)
              else Inl (AssemblerError ''expected immediate''))"

text \<open>The operand reads of the switch, in the order of the source.\<close>

definition with_dst :: "nat res \<Rightarrow> instr \<Rightarrow> instr res" where
  "with_dst r i = rbind r (\<lambda>n. Inr (i\<lparr>dst := n\<rparr>))"

definition with_src1 :: "nat res \<Rightarrow> instr \<Rightarrow> instr res" where
  "with_src1 r i = rbind r (\<lambda>n. Inr (i\<lparr>src1 := n\<rparr>))"

definition with_src2 :: "nat res \<Rightarrow> instr \<Rightarrow> instr res" where
  "with_src2 r i = rbind r (\<lambda>n. Inr (i\<lparr>src2 := n\<rparr>))"

definition with_imm :: "int res \<Rightarrow> instr \<Rightarrow> instr res" where
  "with_imm r i = rbind r (\<lambda>n. Inr (i\<lparr>imm := n\<rparr>))"

definition operands :: "labels \<Rightarrow> token list \<Rightarrow> instr \<Rightarrow> instr res" where
  "operands ls l i =
     (case op i of
        TNOP \<Rightarrow> Inr i | THALT \<Rightarrow> Inr i | TDBG \<Rightarrow> Inr i | TRET \<Rightarrow> Inr i
      | TLOADI \<Rightarrow> rbind (with_dst (reg_at l 1) i) (with_imm (imm_at ls l 2))
      | TNEG \<Rightarrow> rbind (with_dst (reg_at l 1) i) (with_src1 (reg_at l 2))
      | TABS \<Rightarrow> rbind (with_dst (reg_at l 1) i) (with_src1 (reg_at l 2))
      | TSIGN \<Rightarrow> rbind (with_dst (reg_at l 1) i) (with_src1 (reg_at l 2))
      | TLOAD \<Rightarrow> rbind (with_dst (reg_at l 1) i) (with_src1 (reg_at l 2))
      | TSTORE \<Rightarrow> rbind (with_src1 (reg_at l 1) i) (with_src2 (reg_at l 2))
      | TBEQ \<Rightarrow> rbind (with_src1 (reg_at l 1) i) (\<lambda>i. rbind (with_src2 (reg_at l 2) i) (with_imm (imm_at ls l 3)))
      | TBNE \<Rightarrow> rbind (with_src1 (reg_at l 1) i) (\<lambda>i. rbind (with_src2 (reg_at l 2) i) (with_imm (imm_at ls l 3)))
      | TBLT \<Rightarrow> rbind (with_src1 (reg_at l 1) i) (\<lambda>i. rbind (with_src2 (reg_at l 2) i) (with_imm (imm_at ls l 3)))
      | TJUMP \<Rightarrow> with_imm (imm_at ls l 1) i
      | TCALL \<Rightarrow> with_imm (imm_at ls l 1) i
      | TVADD \<Rightarrow> rbind (with_dst (vreg_at l 1) i) (\<lambda>i. rbind (with_src1 (vreg_at l 2) i) (with_src2 (vreg_at l 3)))
      | TVSUB \<Rightarrow> rbind (with_dst (vreg_at l 1) i) (\<lambda>i. rbind (with_src1 (vreg_at l 2) i) (with_src2 (vreg_at l 3)))
      | TVMUL \<Rightarrow> rbind (with_dst (vreg_at l 1) i) (\<lambda>i. rbind (with_src1 (vreg_at l 2) i) (with_src2 (vreg_at l 3)))
      | TVNEG \<Rightarrow> rbind (with_dst (vreg_at l 1) i) (with_src1 (vreg_at l 2))
      | TVBROADCAST \<Rightarrow> rbind (with_dst (vreg_at l 1) i) (with_imm (imm_at ls l 2))
      | TVMAC \<Rightarrow> rbind (with_dst (areg_at l 1) i) (\<lambda>i. rbind (with_src1 (vreg_at l 2) i) (with_src2 (vreg_at l 3)))
      | TVSUM \<Rightarrow> rbind (with_dst (reg_at l 1) i) (with_src1 (areg_at l 2))
      | TVMAX \<Rightarrow> rbind (with_dst (vreg_at l 1) i) (with_src1 (vreg_at l 2))
      | TVSHUF \<Rightarrow> rbind (with_dst (vreg_at l 1) i) (\<lambda>i. rbind (with_src1 (vreg_at l 2) i) (with_imm (imm_at ls l 3)))
      | TVLOAD \<Rightarrow> rbind (with_dst (vreg_at l 1) i) (with_src1 (reg_at l 2))
      | TVSTORE \<Rightarrow> rbind (with_src1 (vreg_at l 1) i) (with_src2 (reg_at l 2))
      | _ \<Rightarrow> rbind (with_dst (reg_at l 1) i) (\<lambda>i. rbind (with_src1 (reg_at l 2) i) (with_src2 (reg_at l 3))))"

definition emit_instr :: "labels \<Rightarrow> token list \<Rightarrow> instr res" where
  "emit_instr ls line =
     (if line = [] \<or> kind (line ! 0) \<noteq> Mnemonic then Inl (AssemblerError ''expected mnemonic'')
      else case map_of mnem (tk_text (line ! 0)) of
             None \<Rightarrow> Inl (AssemblerError (''unknown mnemonic: '' @ tk_text (line ! 0)))
           | Some p \<Rightarrow> operands ls line \<lparr>op = p, dst = 0, src1 = 0, src2 = 0, imm = 0\<rparr>)"

definition emit_line :: "labels \<Rightarrow> token list \<Rightarrow> word27 res" where
  "emit_line ls line = rbind (emit_instr ls line) (\<lambda>i. Inr (encode i))"

definition assemble :: "string \<Rightarrow> word27 list res" where
  "assemble source =
     (let p = collect_lines (tokenise source) in rmap (emit_line (ap_labels p)) (ap_lines p))"

end
