(* ===== verification/TerKernels.thy ===== *)
theory TerKernels
  imports TerReach TerAsm
begin

text \<open>
  Kernels: the kernel table, \<open>KernelTable::install\<close> and \<open>find\<close>, \<open>Sim::call_kernel\<close>
  (\<open>src/sim/call_kernel.cpp\<close>), \<open>Sim::load_lut\<close> (\<open>src/sim/load_lut.cpp\<close>) and
  \<open>install_default_kernels\<close> (\<open>src/kernels/registry.cpp\<close>). An installation that throws keeps
  the words stored so far and the advanced \<open>next_addr_\<close>.
\<close>

section \<open>C strings\<close>

definition NUL :: char where "NUL = CHR 0x00"

definition c_str :: "string \<Rightarrow> string" where
  "c_str s = takeWhile (\<lambda>c. c \<noteq> NUL) s"

text \<open>\<open>strncpy\<close> into \<open>n\<close> bytes and \<open>strncmp(a, b, n) == 0\<close>.\<close>

definition strncpy :: "nat \<Rightarrow> string \<Rightarrow> string" where
  "strncpy n src = take n (c_str src @ replicate n NUL)"

definition strncmp_eq :: "nat \<Rightarrow> string \<Rightarrow> string \<Rightarrow> bool" where
  "strncmp_eq n a b \<longleftrightarrow> take n (c_str a @ [NUL]) = take n (c_str b @ [NUL])"

section \<open>The kernel table\<close>

record kernel_id =
  ki_entry :: nat
  ki_valid :: bool

record kentry =
  ke_name :: string
  ke_id :: kernel_id
  ke_used :: bool

record kernel_table =
  kt_entries :: "kentry list"
  kt_next :: nat

definition kSlots :: nat where "kSlots = 32"

definition kNameMax :: nat where "kNameMax = 32"

definition no_kernel :: kernel_id where
  "no_kernel = \<lparr>ki_entry = 0, ki_valid = False\<rparr>"

definition mk_entry :: kentry where
  "mk_entry = \<lparr>ke_name = replicate kNameMax NUL, ke_id = no_kernel, ke_used = False\<rparr>"

definition mk_kernel_table :: kernel_table where
  "mk_kernel_table = \<lparr>kt_entries = replicate kSlots mk_entry, kt_next = 0\<rparr>"

fun find_entry :: "kentry list \<Rightarrow> string \<Rightarrow> kernel_id" where
  "find_entry [] name = no_kernel"
| "find_entry (e # es) name =
     (if \<not> ke_used e then find_entry es name
      else if strncmp_eq kNameMax (ke_name e) name then ke_id e else find_entry es name)"

definition find_kernel :: "kernel_table \<Rightarrow> string \<Rightarrow> kernel_id" where
  "find_kernel kt name = find_entry (kt_entries kt) name"

fun fill_entry :: "kentry list \<Rightarrow> string \<Rightarrow> kernel_id \<Rightarrow> kentry list option" where
  "fill_entry [] name ident = None"
| "fill_entry (e # es) name ident =
     (if ke_used e then map_option (\<lambda>es'. e # es') (fill_entry es name ident)
      else Some (\<lparr>ke_name = strncpy (kNameMax - 1) name @ [NUL], ke_id = ident, ke_used = True\<rparr> # es))"

section \<open>Installation\<close>

fun is_jump_op :: "opcode \<Rightarrow> bool" where
  "is_jump_op TBEQ = True"
| "is_jump_op TBNE = True"
| "is_jump_op TBLT = True"
| "is_jump_op TJUMP = True"
| "is_jump_op TCALL = True"
| "is_jump_op _ = False"

definition add_i32 :: "int \<Rightarrow> int \<Rightarrow> int res" where
  "add_i32 a b = (if in_i32 (a + b) then Inr (a + b) else Inl (SignedOverflow ''int32 +''))"

definition relocate :: "nat \<Rightarrow> instr \<Rightarrow> instr res" where
  "relocate entry i = rbind (add_i32 (to_i32 (int entry)) (imm i)) (\<lambda>v. Inr (i\<lparr>imm := v\<rparr>))"

text \<open>The word an instruction word is stored as when the kernel starts at \<open>entry\<close>.\<close>

definition placed :: "nat \<Rightarrow> word27 \<Rightarrow> word27 res" where
  "placed entry w =
     rbind (decode w) (\<lambda>i. if is_jump_op (op i) then rbind (relocate entry i) (\<lambda>j. Inr (encode j)) else Inr w)"

record kstate =
  ks_sim :: sim
  ks_kt :: kernel_table

definition place_next :: "word27 \<Rightarrow> (kstate, unit) sx" where
  "place_next w s =
     (let a = kt_next (ks_kt s);
          s' = s\<lparr>ks_kt := (ks_kt s)\<lparr>kt_next := u64 (a + 1)\<rparr>\<rparr>
      in case store_word (sim_mem (ks_sim s)) a w of
           Inl e \<Rightarrow> (Inl e, s')
         | Inr m \<Rightarrow> (Inr (), s'\<lparr>ks_sim := (ks_sim s)\<lparr>sim_mem := m\<rparr>\<rparr>))"

definition claim_slot :: "string \<Rightarrow> kernel_id \<Rightarrow> (kstate, kernel_id) sx" where
  "claim_slot name ident s =
     (case fill_entry (kt_entries (ks_kt s)) name ident of
        None \<Rightarrow> (Inl (RuntimeError ''KernelTable::install: no free slot''), s)
      | Some es \<Rightarrow> (Inr ident, s\<lparr>ks_kt := (ks_kt s)\<lparr>kt_entries := es\<rparr>\<rparr>))"

definition install :: "string \<Rightarrow> word27 list \<Rightarrow> (kstate, kernel_id) sx" where
  "install name blob s =
     (let entry = kt_next (ks_kt s)
      in sbind (sfor (\<lambda>w. sbind (lift (placed entry w)) place_next) blob)
           (\<lambda>_. claim_slot name \<lparr>ki_entry = entry, ki_valid = True\<rparr>) s)"

section \<open>Calls and look-up tables\<close>

definition write_reg :: "nat \<Rightarrow> word27 \<Rightarrow> (sim, unit) sx" where
  "write_reg = wr"

definition write_args :: "nat \<Rightarrow> int list \<Rightarrow> (sim, unit) sx" where
  "write_args first args =
     sfor (\<lambda>(i, a). sbind (from_int a) (write_reg i)) (enumerate first args)"

definition call_kernel :: "kernel_id \<Rightarrow> int list \<Rightarrow> (sim, int) sx" where
  "call_kernel ident args =
     (if \<not> ki_valid ident then throw (RuntimeError ''call_kernel: invalid KernelId'')
      else if length args > 7 then throw (RuntimeError ''call_kernel: max 7 register args'')
      else
        sbind (modify (\<lambda>s. s\<lparr>sim_regs := reset_caller_saved (sim_regs s)\<rparr>)) (\<lambda>_.
        sbind (write_args 1 args) (\<lambda>_.
        sbind (from_int (to_i64 (int (ki_entry ident)))) (\<lambda>pc.
        sbind (set_pc pc) (\<lambda>_.
        sbind (set_halted False) (\<lambda>_.
        sbind run (\<lambda>_.
        sbind (rd 1) (\<lambda>w. ret (word27_to_int w)))))))))"

definition store_at :: "nat \<Rightarrow> word27 \<Rightarrow> (sim, unit) sx" where
  "store_at a w s =
     (case store_word (sim_mem s) a w of
        Inl e \<Rightarrow> (Inl e, s) | Inr m \<Rightarrow> (Inr (), s\<lparr>sim_mem := m\<rparr>))"

definition load_lut :: "nat \<Rightarrow> int list \<Rightarrow> (sim, unit) sx" where
  "load_lut addr values =
     sfor (\<lambda>(i, v). sbind (from_int v) (store_at (u64 (addr + i)))) (enumerate 0 values)"

text \<open>
  The default kernels. The files are a parameter: \<open>files path\<close> is the text of a file that
  can be opened.
\<close>

definition read_text :: "(string \<Rightarrow> string option) \<Rightarrow> string \<Rightarrow> string res" where
  "read_text files path =
     (case files path of None \<Rightarrow> Inl (RuntimeError (''registry: cannot open '' @ path)) | Some t \<Rightarrow> Inr t)"

definition install_file :: "(string \<Rightarrow> string option) \<Rightarrow> string \<Rightarrow> string \<Rightarrow> (kstate, kernel_id) sx" where
  "install_file files dir name =
     sbind (lift (read_text files (dir @ ''/'' @ name @ ''.tasm''))) (\<lambda>src.
     sbind (lift (assemble src)) (\<lambda>blob. install name blob))"

definition default_kernels :: "string list" where
  "default_kernels = [''tk_matmul_b_9t'', ''tk_rmsnorm'', ''tk_softmax'', ''tk_silu'', ''tk_rope'']"

definition install_default_kernels :: "(string \<Rightarrow> string option) \<Rightarrow> string \<Rightarrow> (kstate, unit) sx" where
  "install_default_kernels files dir =
     sfor (\<lambda>name. sbind (install_file files dir name) (\<lambda>_. ret ())) default_kernels"

section \<open>Look-up after installation\<close>

text \<open>A name that fits an entry: at most 31 characters and no NUL.\<close>

definition good_name :: "string \<Rightarrow> bool" where
  "good_name n \<longleftrightarrow> length n < kNameMax \<and> NUL \<notin> set n"

lemma c_str_id: "NUL \<notin> set n \<Longrightarrow> c_str n = n"
  by (simp add: c_str_def takeWhile_eq_all_conv) blast

lemma c_str_no_NUL: "NUL \<notin> set (c_str s)"
  by (auto simp: c_str_def dest: set_takeWhileD)

lemma c_str_pad: "NUL \<notin> set n \<Longrightarrow> c_str (n @ NUL # rest) = n"
  unfolding c_str_def by (subst takeWhile_append2) auto

lemma stored_name:
  "c_str (strncpy (kNameMax - 1) s @ [NUL]) = take 31 (c_str s)"
proof -
  let ?t = "take 31 (c_str s)"
  have no: "NUL \<notin> set ?t" using c_str_no_NUL by (meson in_set_takeD)
  have "strncpy (kNameMax - 1) s @ [NUL] = ?t @ NUL # replicate (31 - length (c_str s)) NUL"
    by (simp add: strncpy_def kNameMax_def replicate_append_same)
  then show ?thesis using c_str_pad [OF no] by simp
qed

lemma strncmp_eq_names:
  assumes "good_name a"
  shows "strncmp_eq kNameMax (strncpy (kNameMax - 1) a @ [NUL]) b \<longleftrightarrow> c_str b = a"
proof -
  have a: "c_str a = a" "length a \<le> 31" using assms by (simp_all add: good_name_def kNameMax_def c_str_id)
  have "take 32 (a @ [NUL]) = a @ [NUL]" using a by simp
  moreover have "take 32 (c_str b @ [NUL]) = a @ [NUL] \<longleftrightarrow> c_str b = a"
  proof
    assume e: "take 32 (c_str b @ [NUL]) = a @ [NUL]"
    have "NUL \<in> set (take 32 (c_str b @ [NUL]))" using e by simp
    then have "length (c_str b) < 32" using c_str_no_NUL [of b]
      by (cases "length (c_str b) < 32") (auto dest: in_set_takeD)
    then show "c_str b = a" using e by simp
  qed (use a in simp)
  moreover have "c_str (strncpy (kNameMax - 1) a @ [NUL]) = a"
    using a unfolding stored_name by simp
  ultimately show ?thesis unfolding strncmp_eq_def by (simp only: kNameMax_def) (metis (no_types))
qed

text \<open>
  The interface of a table of named entries with first-match look-up, as
  \<open>install_default_kernels\<close> and the K4 wrapper use it.
\<close>

locale name_registry =
  fixes lookup :: "'t \<Rightarrow> 'k \<Rightarrow> 'v option" and add :: "'t \<Rightarrow> 'k \<Rightarrow> 'v \<Rightarrow> 't option"
    and ok :: "'k \<Rightarrow> bool" and inv :: "'t \<Rightarrow> bool" and space :: "'t \<Rightarrow> nat"
  assumes lookup_add: "inv t \<Longrightarrow> ok k \<Longrightarrow> ok j \<Longrightarrow> add t k v = Some t' \<Longrightarrow>
      lookup t' j = (if lookup t j = None \<and> j = k then Some v else lookup t j)"
    and add_inv: "inv t \<Longrightarrow> add t k v = Some t' \<Longrightarrow> inv t'"
    and add_space: "add t k v = Some t' \<Longrightarrow> space t = Suc (space t')"
    and add_full: "add t k v = None \<longleftrightarrow> space t = 0"
begin

fun add_all :: "'t \<Rightarrow> ('k \<times> 'v) list \<Rightarrow> 't option" where
  "add_all t [] = Some t"
| "add_all t ((k, v) # kvs) = (case add t k v of None \<Rightarrow> None | Some t' \<Rightarrow> add_all t' kvs)"

lemma add_all_space: "add_all t kvs \<noteq> None \<longleftrightarrow> length kvs \<le> space t"
proof (induction kvs arbitrary: t)
  case (Cons kv kvs)
  obtain k v where kv: "kv = (k, v)" by (cases kv)
  show ?case
  proof (cases "add t k v")
    case None
    then show ?thesis using add_full [of t k v] by (simp add: kv)
  next
    case (Some t')
    then show ?thesis using Cons [of t'] add_space [OF Some] by (simp add: kv)
  qed
qed simp

lemma lookup_add_all:
  "inv t \<Longrightarrow> add_all t kvs = Some t' \<Longrightarrow> list_all (\<lambda>(k, v). ok k) kvs \<Longrightarrow> ok j \<Longrightarrow>
   lookup t' j = (case lookup t j of Some w \<Rightarrow> Some w | None \<Rightarrow> map_of kvs j)"
proof (induction kvs arbitrary: t)
  case (Cons kv kvs)
  obtain k v where kv: "kv = (k, v)" by (cases kv)
  obtain u where u: "add t k v = Some u" using Cons.prems(2) by (auto simp: kv split: option.splits)
  show ?case
    using Cons.IH [of u] Cons.prems lookup_add [OF _ _ _ u, of j] add_inv [OF _ u]
    by (auto simp: kv u split: option.splits)
qed (auto split: option.splits)

lemma lookup_added:
  "inv t \<Longrightarrow> add_all t kvs = Some t' \<Longrightarrow> list_all (\<lambda>(k, v). ok k) kvs \<Longrightarrow> ok k \<Longrightarrow> lookup t k = None \<Longrightarrow>
   distinct (map fst kvs) \<Longrightarrow> (k, v) \<in> set kvs \<Longrightarrow> lookup t' k = Some v"
  using lookup_add_all [of t kvs t' k] by (simp add: map_of_is_SomeI)

end

definition entry_matches :: "string \<Rightarrow> kentry \<Rightarrow> bool" where
  "entry_matches name e \<longleftrightarrow> ke_used e \<and> strncmp_eq kNameMax (ke_name e) name"

definition lookup_entry :: "kentry list \<Rightarrow> string \<Rightarrow> kernel_id option" where
  "lookup_entry es name = map_option ke_id (List.find (entry_matches name) es)"

lemma find_entry_lookup:
  "find_entry es name = (case lookup_entry es name of None \<Rightarrow> no_kernel | Some v \<Rightarrow> v)"
  by (induction es) (simp_all add: lookup_entry_def entry_matches_def)

text \<open>Entries are never given back, so the ones in use come first.\<close>

definition slots_ok :: "kentry list \<Rightarrow> bool" where
  "slots_ok es \<longleftrightarrow> list_all (\<lambda>e. \<not> ke_used e) (dropWhile ke_used es)"

definition free_slots :: "kentry list \<Rightarrow> nat" where
  "free_slots es = length (filter (\<lambda>e. \<not> ke_used e) es)"

lemma lookup_unused: "list_all (\<lambda>e. \<not> ke_used e) es \<Longrightarrow> lookup_entry es j = None"
  by (induction es) (simp_all add: lookup_entry_def entry_matches_def)

lemma lookup_fill_entry:
  "slots_ok es \<Longrightarrow> good_name k \<Longrightarrow> good_name j \<Longrightarrow> fill_entry es k v = Some es' \<Longrightarrow>
   lookup_entry es' j = (if lookup_entry es j = None \<and> j = k then Some v else lookup_entry es j)"
proof (induction es arbitrary: es')
  case (Cons e es)
  show ?case
  proof (cases "ke_used e")
    case True
    then show ?thesis using Cons
      by (auto simp: slots_ok_def lookup_entry_def entry_matches_def)
  next
    case False
    have "c_str j = j" using Cons.prems(3) by (simp add: good_name_def c_str_id)
    then show ?thesis
      using False Cons.prems strncmp_eq_names [of k j] lookup_unused [of es j]
      by (auto simp: slots_ok_def lookup_entry_def entry_matches_def)
  qed
qed simp

lemma slots_ok_fill: "slots_ok es \<Longrightarrow> fill_entry es k v = Some es' \<Longrightarrow> slots_ok es'"
proof (induction es arbitrary: es')
  case (Cons e es)
  have "list_all (\<lambda>e. \<not> ke_used e) xs \<Longrightarrow> list_all (\<lambda>e. \<not> ke_used e) (dropWhile ke_used xs)" for xs
    by (induction xs) simp_all
  then show ?case using Cons by (auto simp: slots_ok_def split: if_splits)
qed simp

lemma free_slots_fill:
  "fill_entry es k v = Some es' \<Longrightarrow> free_slots es = Suc (free_slots es')"
  "fill_entry es k v = None \<longleftrightarrow> free_slots es = 0"
  by (induction es arbitrary: es') (auto simp: free_slots_def split: if_splits)

interpretation kernel_names: name_registry lookup_entry fill_entry good_name slots_ok free_slots
  by unfold_locales (auto simp: lookup_fill_entry slots_ok_fill free_slots_fill)

lemma fresh_table: "slots_ok (kt_entries mk_kernel_table)" "free_slots (kt_entries mk_kernel_table) = 32"
  "lookup_entry (kt_entries mk_kernel_table) n = None"
  by (simp_all add: slots_ok_def free_slots_def mk_kernel_table_def mk_entry_def kSlots_def lookup_unused
      list_all_iff)

section \<open>What an installation stores\<close>

lemma placed_plain:
  "decode w = Inr i \<Longrightarrow> \<not> is_jump_op (op i) \<Longrightarrow> placed entry w = Inr w"
  by (simp add: placed_def)

lemma placed_jump:
  "decode w = Inr i \<Longrightarrow> is_jump_op (op i) \<Longrightarrow> entry < 2 ^ 31 \<Longrightarrow> in_i32 (int entry + imm i) \<Longrightarrow>
   placed entry w = Inr (encode (i\<lparr>imm := int entry + imm i\<rparr>))"
  by (simp add: placed_def relocate_def add_i32_def to_i32_id in_i32_def)

text \<open>The instruction that the simulator decodes from a placed word.\<close>

definition relocated :: "nat \<Rightarrow> instr \<Rightarrow> instr" where
  "relocated entry i = (if is_jump_op (op i) then i\<lparr>imm := int entry + imm i\<rparr> else i)"

lemma place_encoded:
  assumes "valid_instr i" and "valid_instr (relocated entry i)" and "entry < 2 ^ 31"
  shows "placed entry (encode i) = Inr (encode (relocated entry i))"
proof (cases "is_jump_op (op i)")
  case True
  then have "in_i32 (int entry + imm i)"
    using assms(2) by (auto simp: valid_instr_def relocated_def fits_12 in_i32_def)
  then show ?thesis
    using placed_jump [OF decode_encode [OF assms(1)] True assms(3)] True by (simp add: relocated_def)
qed (simp add: placed_plain decode_encode assms relocated_def)

text \<open>Storing the placed words one after the other.\<close>

lemma place_all:
  assumes "list_all (\<lambda>i. valid_instr i \<and> valid_instr (relocated entry i)) is" and "entry < 2 ^ 31"
    and "kt_next (ks_kt s) + length is \<le> msize (ks_sim s)" and "msize (ks_sim s) < 2 ^ 63"
  shows "\<exists>t. sfor (\<lambda>w. sbind (lift (placed entry w)) place_next) (map encode is) s = (Inr (), t)
    \<and> kt_entries (ks_kt t) = kt_entries (ks_kt s) \<and> kt_next (ks_kt t) = kt_next (ks_kt s) + length is
    \<and> sim_regs (ks_sim t) = sim_regs (ks_sim s) \<and> sim_counters (ks_sim t) = sim_counters (ks_sim s)
    \<and> msize (ks_sim t) = msize (ks_sim s)
    \<and> (\<forall>a. mword (ks_sim t) a =
         (if kt_next (ks_kt s) \<le> a \<and> a < kt_next (ks_kt s) + length is
          then encode (relocated entry (is ! (a - kt_next (ks_kt s)))) else mword (ks_sim s) a))"
  using assms
proof (induction "is" arbitrary: s)
  case Nil
  then show ?case by (auto simp: ret_def)
next
  case (Cons i "is")
  let ?n = "kt_next (ks_kt s)" and ?w = "encode (relocated entry i)"
  let ?u = "s\<lparr>ks_kt := (ks_kt s)\<lparr>kt_next := ?n + 1\<rparr>, ks_sim := put_mword ?n ?w (ks_sim s)\<rparr>"
  have lt: "?n < msize (ks_sim s)" using Cons.prems(3) by simp
  have p: "placed entry (encode i) = Inr ?w"
    using Cons.prems(1,2) by (intro place_encoded) simp_all
  have q: "place_next ?w s = (Inr (), ?u)"
    using lt Cons.prems(4)
    by (simp add: place_next_def store_word_def put_mword_def msize_def size_words_def Let_def)
  define u where "u = ?u"
  have u: "kt_next (ks_kt u) = ?n + 1" "kt_entries (ks_kt u) = kt_entries (ks_kt s)"
    "sim_regs (ks_sim u) = sim_regs (ks_sim s)" "sim_counters (ks_sim u) = sim_counters (ks_sim s)"
    "msize (ks_sim u) = msize (ks_sim s)"
    by (simp_all add: u_def state_simps) (simp add: put_mword_def)
  have uw: "mword (ks_sim u) a = (if a = ?n then ?w else mword (ks_sim s) a)" for a
    using lt by (simp add: u_def state_simps)
  have step: "sbind (lift (placed entry (encode i))) place_next s = (Inr (), u)"
    by (simp add: p q u_def)
  have "list_all (\<lambda>i. valid_instr i \<and> valid_instr (relocated entry i)) is" using Cons.prems(1) by simp
  moreover have "kt_next (ks_kt u) + length is \<le> msize (ks_sim u)" "msize (ks_sim u) < 2 ^ 63"
    using Cons.prems(3,4) by (simp_all add: u)
  ultimately obtain t where
    t: "sfor (\<lambda>w. sbind (lift (placed entry w)) place_next) (map encode is) u = (Inr (), t)"
      "kt_entries (ks_kt t) = kt_entries (ks_kt u)" "kt_next (ks_kt t) = kt_next (ks_kt u) + length is"
      "sim_regs (ks_sim t) = sim_regs (ks_sim u)" "sim_counters (ks_sim t) = sim_counters (ks_sim u)"
      "msize (ks_sim t) = msize (ks_sim u)"
      "\<And>a. mword (ks_sim t) a = (if kt_next (ks_kt u) \<le> a \<and> a < kt_next (ks_kt u) + length is
          then encode (relocated entry (is ! (a - kt_next (ks_kt u)))) else mword (ks_sim u) a)"
    using Cons.IH [OF _ Cons.prems(2)] by blast
  have "mword (ks_sim t) a = (if ?n \<le> a \<and> a < ?n + length (i # is)
      then encode (relocated entry ((i # is) ! (a - ?n))) else mword (ks_sim s) a)" for a
    unfolding t(7) uw u(1) by (auto simp: nth_Cons' Suc_diff_le)
  moreover have "sfor (\<lambda>w. sbind (lift (placed entry w)) place_next) (map encode (i # is)) s = (Inr (), t)"
    using sfor_Cons_run [of "\<lambda>w. sbind (lift (placed entry w)) place_next", OF step] t(1) by simp
  ultimately show ?case using t(2-6) u by (intro exI [of _ t]) simp
qed

lemma install_code:
  assumes "list_all (\<lambda>i. valid_instr i \<and> valid_instr (relocated (kt_next (ks_kt s)) i)) is"
    and "kt_next (ks_kt s) + length is \<le> msize (ks_sim s)" and "msize (ks_sim s) \<le> 2 ^ 31"
    and "kt_next (ks_kt s) < 2 ^ 31"
    and "free_slots (kt_entries (ks_kt s)) \<noteq> 0" and "slots_ok (kt_entries (ks_kt s))"
    and "good_name name" and "lookup_entry (kt_entries (ks_kt s)) name = None"
  shows "\<exists>t. install name (map encode is) s = (Inr \<lparr>ki_entry = kt_next (ks_kt s), ki_valid = True\<rparr>, t)
    \<and> find_kernel (ks_kt t) name = \<lparr>ki_entry = kt_next (ks_kt s), ki_valid = True\<rparr>
    \<and> code_at (ks_sim t) (kt_next (ks_kt s)) (map (relocated (kt_next (ks_kt s))) is)
    \<and> sim_regs (ks_sim t) = sim_regs (ks_sim s) \<and> msize (ks_sim t) = msize (ks_sim s)
    \<and> kt_next (ks_kt t) = kt_next (ks_kt s) + length is
    \<and> (\<forall>a. a < kt_next (ks_kt s) \<or> kt_next (ks_kt s) + length is \<le> a
         \<longrightarrow> mword (ks_sim t) a = mword (ks_sim s) a)"
proof -
  let ?n = "kt_next (ks_kt s)" and ?id = "\<lparr>ki_entry = kt_next (ks_kt s), ki_valid = True\<rparr>"
  have "msize (ks_sim s) < 2 ^ 63" using assms(3) by simp
  from place_all [OF assms(1,4,2) this] obtain u where
    u: "sfor (\<lambda>w. sbind (lift (placed ?n w)) place_next) (map encode is) s = (Inr (), u)"
      "kt_entries (ks_kt u) = kt_entries (ks_kt s)" "kt_next (ks_kt u) = ?n + length is"
      "sim_regs (ks_sim u) = sim_regs (ks_sim s)" "msize (ks_sim u) = msize (ks_sim s)"
      "\<And>a. mword (ks_sim u) a = (if ?n \<le> a \<and> a < ?n + length is
         then encode (relocated ?n (is ! (a - ?n))) else mword (ks_sim s) a)"
    by blast
  obtain es where es: "fill_entry (kt_entries (ks_kt s)) name ?id = Some es"
    using assms(5) free_slots_fill(2) [of "kt_entries (ks_kt s)" name ?id] by auto
  let ?t = "u\<lparr>ks_kt := (ks_kt u)\<lparr>kt_entries := es\<rparr>\<rparr>"
  have inst: "install name (map encode is) s = (Inr ?id, ?t)"
    by (simp add: install_def Let_def sbind_def u(1) claim_slot_def u(2) es)
  have "lookup_entry es name = Some ?id"
    using kernel_names.lookup_add [OF assms(6) assms(7) assms(7) es] assms(8) by simp
  then have find: "find_kernel (ks_kt ?t) name = ?id"
    by (simp add: find_kernel_def find_entry_lookup)
  have "code_at (ks_sim ?t) ?n (map (relocated ?n) is)"
    using assms(1,2) u(5,6) by (simp add: code_at_def list_all_length)
  then show ?thesis using inst find u by auto
qed

end
