(* ===== verification/TerAsmProps.thy ===== *)
theory TerAsmProps
  imports TerAsm
begin

text \<open>
  What the assembler guarantees: the shape of the two passes (one word per instruction line,
  labels inside the program), that everything it emits decodes, and that the assembler reads
  back the canonical text of every instruction sequence.
\<close>

section \<open>The label pass\<close>

definition labels_in :: "labels \<Rightarrow> int \<Rightarrow> bool" where
  "labels_in ls n \<longleftrightarrow> (\<forall>l v. ls l = Some v \<longrightarrow> 0 \<le> v \<and> v \<le> n)"

definition line_ok :: "token list \<Rightarrow> bool" where
  "line_ok l \<longleftrightarrow> l \<noteq> [] \<and> kind (hd l) \<noteq> LabelDef"

definition pass_ok :: "asm_pass \<Rightarrow> bool" where
  "pass_ok p \<longleftrightarrow> ap_idx p = int (length (ap_lines p)) \<and> labels_in (ap_labels p) (ap_idx p)
     \<and> list_all line_ok (ap_lines p)"

lemma labels_in_mono: "labels_in ls n \<Longrightarrow> n \<le> m \<Longrightarrow> labels_in ls m"
  by (fastforce simp: labels_in_def)

lemma labels_in_defs:
  "labels_in ls n \<Longrightarrow> 0 \<le> n \<Longrightarrow> labels_in (foldl (\<lambda>m t. m(tk_text t \<mapsto> n)) ls ts) n"
proof (induction ts arbitrary: ls)
  case (Cons t ts)
  have "labels_in (ls(tk_text t \<mapsto> n)) n" using Cons.prems by (simp add: labels_in_def)
  then show ?case using Cons by (simp del: fun_upd_apply)
qed simp

lemma dropWhile_line_ok:
  "dropWhile (\<lambda>t. kind t = LabelDef) ts \<noteq> [] \<Longrightarrow> line_ok (dropWhile (\<lambda>t. kind t = LabelDef) ts)"
  using hd_dropWhile [of "\<lambda>t. kind t = LabelDef" ts] by (simp add: line_ok_def)

lemma pass_ok_flush: "pass_ok p \<Longrightarrow> pass_ok (flush p)"
  by (auto simp: flush_def pass_ok_def Let_def labels_in_defs dropWhile_line_ok simp del: dropWhile_eq_Nil_conv
      intro: labels_in_mono [OF labels_in_defs])

lemma pass_ok_token: "pass_ok p \<Longrightarrow> pass_ok (asm_token p t)"
  using pass_ok_flush [of p] by (auto simp: asm_token_def pass_ok_def)

lemma pass_ok_fold: "pass_ok p \<Longrightarrow> pass_ok (foldl asm_token p toks)"
  by (induction toks arbitrary: p) (simp_all add: pass_ok_token)

lemma pass_ok_collect: "pass_ok (collect_lines toks)"
  unfolding collect_lines_def by (rule pass_ok_fold) (simp add: pass_ok_def labels_in_def)

section \<open>Emitted instructions\<close>

lemma operand_bound: "reg_operand kd hi e o' line k = Inr n \<Longrightarrow> hi \<le> 26 \<Longrightarrow> n < 27"
  by (auto simp: reg_operand_def split: if_splits)

lemma at_bounds:
  "reg_at l k = Inr n \<Longrightarrow> n < 27" "vreg_at l k = Inr n \<Longrightarrow> n < 9" "areg_at l k = Inr n \<Longrightarrow> n < 3"
  by (auto simp: reg_at_def vreg_at_def areg_at_def reg_operand_def split: if_splits)

lemma at_bounds_27: "vreg_at l k = Inr n \<Longrightarrow> n < 27" "areg_at l k = Inr n \<Longrightarrow> n < 27"
  using at_bounds(2) [of l k n] at_bounds(3) [of l k n] by simp_all

lemma operands_ok: "operands ls l i = Inr j \<Longrightarrow> fields_ok i \<Longrightarrow> fields_ok j \<and> op j = op i"
  by (cases "op i")
    (auto simp: operands_def fields_ok_def with_dst_def with_src1_def with_src2_def with_imm_def
      dest: at_bounds(1) at_bounds_27)

lemma emit_instr_ok:
  "emit_instr ls line = Inr i \<Longrightarrow> fields_ok i \<and> map_of mnem (tk_text (line ! 0)) = Some (op i)"
  using operands_ok [of ls line _ i] 
  by (fastforce simp: emit_instr_def fields_ok_def split: if_splits option.splits)

lemma emit_line_decodes:
  assumes "emit_line ls line = Inr w"
  shows "\<exists>i. emit_instr ls line = Inr i \<and> wf27 w \<and> decode w = Inr (i\<lparr>imm := balmod 12 (imm i)\<rparr>)
     \<and> valid_instr (i\<lparr>imm := balmod 12 (imm i)\<rparr>)"
proof -
  obtain i where i: "emit_instr ls line = Inr i" and w: "w = encode i"
    using assms by (auto simp: emit_line_def)
  have "fields_ok i" using emit_instr_ok [OF i] by simp
  then show ?thesis using i w by (simp add: fields_ok_def decode_encode_wrap valid_instr_def)
qed

lemma assemble_length:
  "assemble src = Inr blob \<Longrightarrow> length blob = length (ap_lines (collect_lines (tokenise src)))"
  by (auto simp: assemble_def Let_def dest: rmap_length)

lemma assemble_decodes:
  assumes "assemble src = Inr blob" and "w \<in> set blob"
  shows "wf27 w \<and> (\<exists>i. decode w = Inr i \<and> valid_instr i)"
proof -
  let ?p = "collect_lines (tokenise src)"
  have r: "rmap (emit_line (ap_labels ?p)) (ap_lines ?p) = Inr blob"
    using assms(1) by (simp add: assemble_def Let_def)
  obtain k where k: "k < length blob" "w = blob ! k" using assms(2) by (auto simp: in_set_conv_nth)
  then have "emit_line (ap_labels ?p) (ap_lines ?p ! k) = Inr w"
    using rmap_nth [OF r, of k] rmap_length [OF r] by simp
  then show ?thesis using emit_line_decodes by blast
qed

section \<open>Decimal numerals\<close>

definition digit_char :: "nat \<Rightarrow> char" where
  "digit_char d = digits_chars ! d"

fun dec :: "nat \<Rightarrow> string" where
  "dec n = (if n < 10 then [digit_char n] else dec (n div 10) @ [digit_char (n mod 10)])"

declare dec.simps [simp del]

definition dec_int :: "int \<Rightarrow> string" where
  "dec_int v = (if v < 0 then CHR ''-'' # dec (nat (- v)) else dec (nat v))"

lemma digit_cases: "d < 10 \<Longrightarrow> d \<in> {0, 1, 2, 3, 4, 5, 6, 7, 8, 9 :: nat}"
  by auto

lemma digit_char_ok: "d < 10 \<Longrightarrow> isdigit (digit_char d) \<and> digit_val (digit_char d) = d"
  by (drule digit_cases, elim insertE emptyE)
    (simp_all add: isdigit_def digit_char_def digit_val_def digits_chars_def)

lemma dec_digits: "list_all isdigit (dec n)"
  by (induction n rule: dec.induct) (subst dec.simps, simp add: digit_char_ok)

lemma dec_ne [simp]: "dec n \<noteq> []"
  by (subst dec.simps) simp

lemma dec_value: "foldl (\<lambda>v c. v * 10 + int (digit_val c)) 0 (dec n) = int n"
proof (induction n rule: dec.induct)
  case (1 n)
  show ?case
  proof (cases "n < 10")
    case True
    then show ?thesis by (subst dec.simps) (simp add: digit_char_ok)
  next
    case False
    have "int (n div 10) * 10 + int (n mod 10) = int n" by presburger
    then show ?thesis using 1 False by (subst dec.simps) (simp add: digit_char_ok)
  qed
qed

lemma takeWhile_all: "list_all P xs \<Longrightarrow> takeWhile P xs = xs"
  by (simp add: takeWhile_eq_all_conv list_all_iff)

lemma dec_hd: "isdigit (hd (dec n))" "isdigit (last (dec n))"
  using dec_digits [of n] by (simp_all add: list_all_iff)

lemma isdigit_not: "\<not> isdigit CHR ''-''" "\<not> isdigit CHR ''+''" "\<not> isdigit CHR '':''" "\<not> isdigit CHR '';''"
  "\<not> isdigit CHR '',''" "\<not> isdigit CHR ''r''" "\<not> isdigit CHR ''v''" "\<not> isdigit CHR ''a''"
  by (simp_all add: isdigit_def digits_chars_def)

lemma dec_last_colon: "last (dec n) \<noteq> CHR '':''"
  using dec_hd(2) [of n] isdigit_not(3) by metis

lemma stoi_dec: "in_i32 (int n) \<Longrightarrow> stoi (dec n) = Inr (int n)"
proof -
  have "hd (dec n) \<noteq> CHR ''-''" "hd (dec n) \<noteq> CHR ''+''"
    using dec_hd(1) [of n] isdigit_not by metis+
  then show "in_i32 (int n) \<Longrightarrow> stoi (dec n) = Inr (int n)"
    by (simp add: stoi_def takeWhile_all [OF dec_digits] dec_value Let_def)
qed

lemma stoi_dec_neg: "in_i32 (- int n) \<Longrightarrow> stoi (CHR ''-'' # dec n) = Inr (- int n)"
  by (simp add: stoi_def takeWhile_all [OF dec_digits] dec_value Let_def)

lemma stoi_dec_int: "in_i32 v \<Longrightarrow> stoi (dec_int v) = Inr v"
  using stoi_dec [of "nat v"] stoi_dec_neg [of "nat (- v)"] by (simp add: dec_int_def)

section \<open>The canonical text of an instruction\<close>

datatype format =
    Fnone | Fdi | Fdss | Fds | Fsm | Fssi | Fi | Vdss | Vds | Vdi | Vmac | Vsum | Vdsi | Vld | Vst

fun format_of :: "opcode \<Rightarrow> format" where
  "format_of TNOP = Fnone" | "format_of THALT = Fnone" | "format_of TDBG = Fnone"
| "format_of TRET = Fnone" | "format_of TLOADI = Fdi"
| "format_of TADD = Fdss" | "format_of TSUB = Fdss" | "format_of TAND3 = Fdss"
| "format_of TOR3 = Fdss" | "format_of TXOR3 = Fdss" | "format_of TCMP = Fdss"
| "format_of TNEG = Fds" | "format_of TABS = Fds" | "format_of TSIGN = Fds" | "format_of TLOAD = Fds"
| "format_of TSTORE = Fsm" | "format_of TBEQ = Fssi" | "format_of TBNE = Fssi" | "format_of TBLT = Fssi"
| "format_of TJUMP = Fi" | "format_of TCALL = Fi"
| "format_of TVADD = Vdss" | "format_of TVSUB = Vdss" | "format_of TVMUL = Vdss"
| "format_of TVNEG = Vds" | "format_of TVMAX = Vds" | "format_of TVBROADCAST = Vdi"
| "format_of TVMAC = Vmac" | "format_of TVSUM = Vsum" | "format_of TVSHUF = Vdsi"
| "format_of TVLOAD = Vld" | "format_of TVSTORE = Vst"

definition mnem_name :: "opcode \<Rightarrow> string" where
  "mnem_name p = fst (hd (filter (\<lambda>x. snd x = p) mnem))"

definition rw :: "nat \<Rightarrow> string" where "rw n = CHR ''r'' # dec n"
definition vw :: "nat \<Rightarrow> string" where "vw n = CHR ''v'' # dec n"
definition aw :: "nat \<Rightarrow> string" where "aw n = CHR ''a'' # dec n"

definition operand_words :: "instr \<Rightarrow> string list" where
  "operand_words i =
     (case format_of (op i) of
        Fnone \<Rightarrow> []
      | Fdi \<Rightarrow> [rw (dst i), dec_int (imm i)]
      | Fdss \<Rightarrow> [rw (dst i), rw (src1 i), rw (src2 i)]
      | Fds \<Rightarrow> [rw (dst i), rw (src1 i)]
      | Fsm \<Rightarrow> [rw (src1 i), rw (src2 i)]
      | Fssi \<Rightarrow> [rw (src1 i), rw (src2 i), dec_int (imm i)]
      | Fi \<Rightarrow> [dec_int (imm i)]
      | Vdss \<Rightarrow> [vw (dst i), vw (src1 i), vw (src2 i)]
      | Vds \<Rightarrow> [vw (dst i), vw (src1 i)]
      | Vdi \<Rightarrow> [vw (dst i), dec_int (imm i)]
      | Vmac \<Rightarrow> [aw (dst i), vw (src1 i), vw (src2 i)]
      | Vsum \<Rightarrow> [rw (dst i), aw (src1 i)]
      | Vdsi \<Rightarrow> [vw (dst i), vw (src1 i), dec_int (imm i)]
      | Vld \<Rightarrow> [vw (dst i), rw (src1 i)]
      | Vst \<Rightarrow> [vw (src1 i), rw (src2 i)])"

text \<open>Instructions whose fields are in range for their operand kinds and zero where unused.\<close>

definition canonical :: "instr \<Rightarrow> bool" where
  "canonical i \<longleftrightarrow>
     (case format_of (op i) of
        Fnone \<Rightarrow> dst i = 0 \<and> src1 i = 0 \<and> src2 i = 0 \<and> imm i = 0
      | Fdi \<Rightarrow> dst i < 27 \<and> src1 i = 0 \<and> src2 i = 0
      | Fdss \<Rightarrow> dst i < 27 \<and> src1 i < 27 \<and> src2 i < 27 \<and> imm i = 0
      | Fds \<Rightarrow> dst i < 27 \<and> src1 i < 27 \<and> src2 i = 0 \<and> imm i = 0
      | Fsm \<Rightarrow> dst i = 0 \<and> src1 i < 27 \<and> src2 i < 27 \<and> imm i = 0
      | Fssi \<Rightarrow> dst i = 0 \<and> src1 i < 27 \<and> src2 i < 27
      | Fi \<Rightarrow> dst i = 0 \<and> src1 i = 0 \<and> src2 i = 0
      | Vdss \<Rightarrow> dst i < 9 \<and> src1 i < 9 \<and> src2 i < 9 \<and> imm i = 0
      | Vds \<Rightarrow> dst i < 9 \<and> src1 i < 9 \<and> src2 i = 0 \<and> imm i = 0
      | Vdi \<Rightarrow> dst i < 9 \<and> src1 i = 0 \<and> src2 i = 0
      | Vmac \<Rightarrow> dst i < 3 \<and> src1 i < 9 \<and> src2 i < 9 \<and> imm i = 0
      | Vsum \<Rightarrow> dst i < 27 \<and> src1 i < 3 \<and> src2 i = 0 \<and> imm i = 0
      | Vdsi \<Rightarrow> dst i < 9 \<and> src1 i < 9 \<and> src2 i = 0
      | Vld \<Rightarrow> dst i < 9 \<and> src1 i < 27 \<and> src2 i = 0 \<and> imm i = 0
      | Vst \<Rightarrow> dst i = 0 \<and> src1 i < 9 \<and> src2 i < 27 \<and> imm i = 0)
     \<and> in_i32 (imm i)"

definition words_of :: "instr \<Rightarrow> string list" where
  "words_of i = mnem_name (op i) # operand_words i"

definition print_instr :: "instr \<Rightarrow> string" where
  "print_instr i = concat (map (\<lambda>w. w @ '' '') (words_of i)) @ [CHR 0x0A]"

definition print_program :: "instr list \<Rightarrow> string" where
  "print_program is = concat (map print_instr is)"

section \<open>Reading the words back\<close>

definition good_word :: "string \<Rightarrow> bool" where
  "good_word w \<longleftrightarrow> w \<noteq> [] \<and> list_all (\<lambda>c. \<not> is_sep c \<and> c \<noteq> CHR '';'') w"

lemma digit_good: "isdigit c \<Longrightarrow> \<not> is_sep c \<and> c \<noteq> CHR '';''"
  by (auto simp: isdigit_def digits_chars_def is_sep_def isspace_def)

lemma good_dec: "good_word (dec n)"
  using dec_digits [of n] by (auto simp: good_word_def list_all_iff digit_good)

lemma good_words:
  "good_word (rw n)" "good_word (vw n)" "good_word (aw n)" "good_word (dec_int v)"
  using good_dec
  by (auto simp: good_word_def rw_def vw_def aw_def dec_int_def is_sep_def isspace_def)

lemma good_mnem: "good_word (mnem_name p)"
  by (cases p) (simp_all add: mnem_name_def mnem_def good_word_def is_sep_def isspace_def)

lemma good_words_of: "list_all good_word (words_of i)"
  by (cases "format_of (op i)") (simp_all add: words_of_def operand_words_def good_words good_mnem)

lemma classify_reg_words:
  "classify_word (rw n) = tok Reg (dec n)"
  "classify_word (vw n) = tok VecReg (dec n)"
  "classify_word (aw n) = tok AccReg (dec n)"
  using dec_digits [of n] dec_hd(2) [of n] isdigit_not(3)
  by (auto simp: classify_word_def rw_def vw_def aw_def Suc_le_eq)

lemma classify_number: "classify_word (dec_int v) = tok Number (dec_int v)"
proof -
  have l: "last (dec_int v) \<noteq> CHR '':''"
    using dec_last_colon by (simp add: dec_int_def)
  have h: "isdigit (hd (dec_int v)) \<or> hd (dec_int v) = CHR ''-''"
    using dec_hd(1) by (simp add: dec_int_def)
  have "hd (dec_int v) \<notin> set ''rRvVaA''"
    using h by (auto simp: isdigit_def digits_chars_def)
  moreover have "dec_int v \<noteq> []" by (simp add: dec_int_def)
  ultimately show ?thesis using l h by (auto simp: classify_word_def)
qed

lemma classify_mnem: "classify_word (mnem_name p) = tok Mnemonic (mnem_name p)"
  by (cases p) (simp_all add: mnem_name_def mnem_def classify_word_def isdigit_def digits_chars_def)

lemma map_of_mnem: "map_of mnem (mnem_name p) = Some p"
  by (cases p) (simp_all add: mnem_name_def mnem_def)

text \<open>The words of a line are split where they were joined.\<close>

lemma split_words_word:
  assumes "good_word w"
  shows "split_words (w @ CHR '' '' # rest) = w # split_words rest"
proof -
  obtain c cs where w: "w = c # cs" using assms by (cases w) (auto simp: good_word_def)
  have good: "list_all (\<lambda>x. \<not> is_sep x) w"
    using assms by (auto simp: good_word_def list_all_iff)
  have sep: "is_sep CHR '' ''" by (simp add: is_sep_def isspace_def)
  have "takeWhile (\<lambda>x. \<not> is_sep x) (w @ CHR '' '' # rest) = w"
    "dropWhile (\<lambda>x. \<not> is_sep x) (w @ CHR '' '' # rest) = CHR '' '' # rest"
    using good sep by (simp_all add: list_all_iff takeWhile_append dropWhile_append)
  then show ?thesis using good sep by (simp add: w)
qed

lemma split_words_join:
  "list_all good_word ws \<Longrightarrow> split_words (concat (map (\<lambda>w. w @ '' '') ws)) = ws"
  by (induction ws) (simp_all add: split_words_word)

lemma good_line_char:
  assumes "list_all good_word ws" and "c \<in> set (concat (map (\<lambda>w. w @ '' '') ws))"
  shows "c \<noteq> CHR '';'' \<and> c \<noteq> CHR 0x0A"
proof -
  have sp: "CHR '' '' \<noteq> CHR '';''" "CHR '' '' \<noteq> CHR 0x0A" by simp_all
  have "\<exists>w \<in> set ws. c \<in> set w \<or> c = CHR '' ''" using assms(2) by (induction ws) auto
  then obtain w where w: "w \<in> set ws" "c \<in> set w \<or> c = CHR '' ''" by blast
  have "good_word w" using w(1) assms(1) by (simp add: list_all_iff)
  then have "c \<in> set w \<Longrightarrow> \<not> is_sep c \<and> c \<noteq> CHR '';''" by (simp add: good_word_def list_all_iff)
  then show ?thesis using w(2) sp by (auto simp: is_sep_def isspace_def)
qed

lemma tokenise_line_words:
  assumes "list_all good_word ws"
  shows "tokenise_line (concat (map (\<lambda>w. w @ '' '') ws)) = map classify_word ws @ [tok Newline '''']"
proof -
  have "takeWhile (\<lambda>c. c \<noteq> CHR '';'') (concat (map (\<lambda>w. w @ '' '') ws)) = concat (map (\<lambda>w. w @ '' '') ws)"
    using good_line_char [OF assms] by (intro takeWhile_all) (auto simp: list_all_iff)
  then show ?thesis unfolding tokenise_line_def by (simp only: split_words_join [OF assms])
qed

lemma getlines_line:
  assumes "\<And>c. c \<in> set l \<Longrightarrow> c \<noteq> CHR 0x0A"
  shows "getlines (l @ CHR 0x0A # rest) = l # getlines rest"
proof -
  have t: "takeWhile (\<lambda>x. x \<noteq> CHR 0x0A) (l @ CHR 0x0A # rest) = l"
    "dropWhile (\<lambda>x. x \<noteq> CHR 0x0A) (l @ CHR 0x0A # rest) = CHR 0x0A # rest"
    using assms by (simp_all add: takeWhile_append dropWhile_append)
  show ?thesis
    using t by (cases l) simp_all
qed

definition line_text :: "instr \<Rightarrow> string" where
  "line_text i = concat (map (\<lambda>w. w @ '' '') (words_of i))"

lemma getlines_program: "getlines (print_program is) = map line_text is"
proof (induction "is")
  case (Cons i "is")
  have "getlines (line_text i @ CHR 0x0A # print_program is) = line_text i # getlines (print_program is)"
    using good_line_char [OF good_words_of] by (intro getlines_line) (auto simp: line_text_def)
  then show ?case using Cons by (simp add: print_program_def print_instr_def line_text_def)
qed (simp add: print_program_def)

definition line_tokens :: "instr \<Rightarrow> token list" where
  "line_tokens i = map classify_word (words_of i)"

lemma tokenise_program:
  "tokenise (print_program is)
   = concat (map (\<lambda>i. line_tokens i @ [tok Newline '''']) is) @ [tok EOFTok '''']"
  by (simp add: tokenise_def getlines_program comp_def line_text_def tokenise_line_words
      good_words_of line_tokens_def)

lemma line_tokens_kinds:
  "t \<in> set (line_tokens i) \<Longrightarrow> kind t \<noteq> Newline \<and> kind t \<noteq> EOFTok \<and> kind t \<noteq> LabelDef"
  by (cases "format_of (op i)")
    (auto simp: line_tokens_def words_of_def operand_words_def classify_reg_words classify_number
      classify_mnem tok_def)

lemma foldl_asm_current:
  "(\<And>t. t \<in> set ts \<Longrightarrow> kind t \<noteq> Newline \<and> kind t \<noteq> EOFTok) \<Longrightarrow>
   foldl asm_token p ts = p\<lparr>ap_current := ap_current p @ ts\<rparr>"
  by (induction ts arbitrary: p) (simp_all add: asm_token_def)

lemma asm_line:
  assumes "ap_current p = []"
  shows "foldl asm_token p (line_tokens i @ [tok Newline ''''])
    = p\<lparr>ap_lines := ap_lines p @ [line_tokens i], ap_idx := ap_idx p + 1\<rparr>"
proof -
  obtain t ts where l: "line_tokens i = t # ts" by (simp add: line_tokens_def words_of_def)
  have k: "kind t \<noteq> LabelDef" using line_tokens_kinds [of t i] l by simp
  have "foldl asm_token p (line_tokens i) = p\<lparr>ap_current := ap_current p @ line_tokens i\<rparr>"
    by (rule foldl_asm_current) (use line_tokens_kinds in blast)
  then have "foldl asm_token p (line_tokens i @ [tok Newline '''']) = flush (p\<lparr>ap_current := t # ts\<rparr>)"
    using assms l by (simp add: asm_token_def tok_def)
  also have "\<dots> = p\<lparr>ap_lines := ap_lines p @ [t # ts], ap_idx := ap_idx p + 1\<rparr>"
    using assms k by (cases p) (simp add: flush_def Let_def)
  finally show ?thesis by (simp only: l)
qed

lemma asm_lines:
  "ap_current p = [] \<Longrightarrow>
   foldl asm_token p (concat (map (\<lambda>i. line_tokens i @ [tok Newline '''']) is))
   = p\<lparr>ap_lines := ap_lines p @ map line_tokens is, ap_idx := ap_idx p + int (length is)\<rparr>"
proof (induction "is" arbitrary: p)
  case (Cons i "is")
  then show ?case using asm_line [OF Cons.prems, of i] by (simp add: ac_simps)
qed simp

lemma collect_program:
  "ap_lines (collect_lines (tokenise (print_program is))) = map line_tokens is"
  by (simp add: collect_lines_def tokenise_program asm_lines)
    (simp add: asm_token_def tok_def flush_def)

lemma stoi_small: "n < 27 \<Longrightarrow> stoi (dec n) = Inr (int n)"
  by (rule stoi_dec) (simp add: in_i32_def)

lemmas emit_simps = reg_at_def vreg_at_def areg_at_def reg_operand_def imm_at_def with_dst_def
  with_src1_def with_src2_def with_imm_def stoi_small stoi_dec_int

lemma emit_printed:
  assumes "canonical i"
  shows "emit_instr ls (line_tokens i) = Inr i"
proof -
  have "emit_instr ls (line_tokens i)
      = operands ls (line_tokens i) \<lparr>op = op i, dst = 0, src1 = 0, src2 = 0, imm = 0\<rparr>"
    by (simp add: emit_instr_def line_tokens_def words_of_def classify_mnem tok_def map_of_mnem)
  then show ?thesis using assms
    by (cases "op i")
      (simp_all add: operands_def canonical_def line_tokens_def words_of_def operand_words_def
        classify_reg_words classify_number tok_def emit_simps numeral_2_eq_2 numeral_3_eq_3)
qed

lemma assemble_printed:
  assumes "list_all canonical is"
  shows "assemble (print_program is) = Inr (map encode is)"
proof -
  have "rmap (emit_line ls) (map line_tokens is) = Inr (map encode is)" for ls
    using assms by (induction "is") (simp_all add: emit_line_def emit_printed)
  then show ?thesis by (simp add: assemble_def collect_program Let_def)
qed

section \<open>Assembling a text given by its lines\<close>

definition text_lines :: "string list \<Rightarrow> string" where
  "text_lines ls = concat (map (\<lambda>l. l @ [CHR 0x0A]) ls)"

definition parse_lines :: "string list \<Rightarrow> instr list res" where
  "parse_lines ls =
     (let p = collect_lines (concat (map tokenise_line ls) @ [tok EOFTok ''''])
      in rmap (emit_instr (ap_labels p)) (ap_lines p))"

lemma getlines_text_lines:
  "list_all (\<lambda>l. CHR 0x0A \<notin> set l) ls \<Longrightarrow> getlines (text_lines ls) = ls"
proof (induction ls)
  case (Cons l ls)
  have "getlines (l @ CHR 0x0A # text_lines ls) = l # getlines (text_lines ls)"
    using Cons.prems by (intro getlines_line) auto
  then show ?case using Cons by (simp add: text_lines_def)
qed (simp add: text_lines_def)

lemma rmap_emit_line:
  "rmap (emit_line ls) xs = rbind (rmap (emit_instr ls) xs) (\<lambda>is. Inr (map encode is))"
proof (induction xs)
  case (Cons x xs)
  then show ?case
    by (cases "emit_instr ls x"; cases "rmap (emit_instr ls) xs") (simp_all add: emit_line_def)
qed simp

lemma assemble_text_lines:
  "list_all (\<lambda>l. CHR 0x0A \<notin> set l) ls \<Longrightarrow>
   assemble (text_lines ls) = rbind (parse_lines ls) (\<lambda>is. Inr (map encode is))"
  by (simp add: assemble_def tokenise_def getlines_text_lines parse_lines_def Let_def rmap_emit_line)

end
