(* ===== verification/TerKernelRuns.thy ===== *)
theory TerKernelRuns
  imports TerKernels TerAsmProps
begin

text \<open>
  The straight-line kernels of \<open>src/kernels\<close>, from their source text to the memory they
  leave: the text is assembled by \<open>assemble\<close>, installed by \<open>KernelTable::install\<close> and called
  by \<open>Sim::call_kernel\<close>. The matrix kernel stores the dot product of two 27-lane vectors,
  the rotary kernel stores the saturating lane-wise combination.
\<close>

section \<open>Calling convention\<close>

definition put_reset :: "sim \<Rightarrow> sim" where
  "put_reset s = s\<lparr>sim_regs := reset_caller_saved (sim_regs s)\<rparr>"

lemma reset_regs:
  "length (rf_scalars (reset_caller_saved r)) = length (rf_scalars r)"
  "rf_pc (reset_caller_saved r) = rf_pc r" "rf_halted (reset_caller_saved r) = rf_halted r"
  "length (rf_vecs r) = 9 \<Longrightarrow> rf_vecs (reset_caller_saved r) = replicate 9 vec_zero"
  "length (rf_accs r) = 3 \<Longrightarrow> rf_accs (reset_caller_saved r) = replicate 3 vaccum_zero"
proof -
  have all: "foldl (\<lambda>ys i. ys[i := x]) xs [0..<length xs] = replicate (length xs) x" for x :: 'b and xs
    using fill_all [OF refl, of xs "\<lambda>_. x"] by (simp add: fill_def map_replicate_const)
  show "length (rf_vecs r) = 9 \<Longrightarrow> rf_vecs (reset_caller_saved r) = replicate 9 vec_zero"
    using all [of vec_zero "rf_vecs r"] by (simp add: reset_caller_saved_def del: upt_rec_numeral)
  show "length (rf_accs r) = 3 \<Longrightarrow> rf_accs (reset_caller_saved r) = replicate 3 vaccum_zero"
    using all [of vaccum_zero "rf_accs r"] by (simp add: reset_caller_saved_def del: upt_rec_numeral)
qed (simp_all add: reset_caller_saved_def foldl_update_length)

lemma views_reset [state_simps]:
  "shaped (put_reset s) \<longleftrightarrow> length (rf_scalars (sim_regs s)) = 27 \<and> length (rf_vecs (reset_caller_saved (sim_regs s))) = 9
     \<and> length (rf_accs (reset_caller_saved (sim_regs s))) = 3"
  "shaped s \<Longrightarrow> k < 9 \<Longrightarrow> vreg (put_reset s) k = vec_zero"
  "shaped s \<Longrightarrow> k < 3 \<Longrightarrow> areg (put_reset s) k = vaccum_zero"
  "mword (put_reset s) a = mword s a" "msize (put_reset s) = msize s"
  "is_halted (put_reset s) = is_halted s" "sim_counters (put_reset s) = sim_counters s"
  by (simp_all add: put_reset_def shaped_def vreg_def areg_def mword_def msize_def is_halted_def
      reset_regs)

lemma shaped_reset: "shaped s \<Longrightarrow> shaped (put_reset s)"
  by (simp add: shaped_def put_reset_def reset_regs)

text \<open>The state in which the kernel starts.\<close>

definition called :: "nat \<Rightarrow> int list \<Rightarrow> sim \<Rightarrow> sim" where
  "called entry args s =
     put_halted False (put_pc (digits_of 27 (int entry))
       (fold (\<lambda>(i, a). put_sreg i (digits_of 27 a)) (enumerate 1 args) (put_reset s)))"

lemma write_args_run:
  assumes "list_all (fits 27) args" and "first + length args \<le> 27"
  shows "write_args first args s
    = (Inr (), fold (\<lambda>(i, a). put_sreg i (digits_of 27 a)) (enumerate first args) s)"
  using assms
proof (induction args arbitrary: first s)
  case (Cons a args)
  then show ?case
    by (simp add: write_args_def sx_simps run_simps write_reg_def)
qed (simp add: write_args_def ret_def)

lemma call_kernel_run:
  assumes "ki_valid ident" and "length args \<le> 7" and "list_all (fits 27) args"
    and "ki_entry ident < 2 ^ 31"
  shows "call_kernel ident args s
    = sbind run (\<lambda>_. sbind (rd 1) (\<lambda>w. ret (word27_to_int w))) (called (ki_entry ident) args s)"
proof -
  have "to_i64 (int (ki_entry ident)) = int (ki_entry ident)"
    using assms(4) by (simp add: to_i64_id in_i64_def)
  moreover have "fits 27 (int (ki_entry ident))" using assms(4) by (simp add: fits_27)
  moreover have "write_args 1 args (put_reset s) = (Inr (), fold (\<lambda>(i, a). put_sreg i (digits_of 27 a))
      (enumerate 1 args) (put_reset s))"
    using assms by (intro write_args_run) simp_all
  ultimately show ?thesis using assms
    by (simp add: call_kernel_def called_def sx_simps run_simps put_reset_def [symmetric])
qed

lemma call_kernel_reaches:
  assumes "ki_valid ident" and "length args \<le> 7" and "list_all (fits 27) args"
    and "ki_entry ident < 2 ^ 31" and "reachable (called (ki_entry ident) args s) k t"
    and "is_halted t" and "k \<le> kSafetyLimit"
  shows "call_kernel ident args s = (Inr (sval t 1), t)"
  using call_kernel_run [OF assms(1-4), of s] run_reaches [OF assms(5-7)]
  by (simp add: sx_simps run_simps sval_def)

section \<open>Straight-line code\<close>

text \<open>The simulator is about to execute instruction \<open>k\<close> of the code at \<open>e\<close>.\<close>

definition ready :: "sim \<Rightarrow> nat \<Rightarrow> instr list \<Rightarrow> nat \<Rightarrow> bool" where
  "ready s e is k \<longleftrightarrow>
     code_at s e is \<and> pcv s = int (e + k) \<and> msize s \<le> 2 ^ 31 \<and> \<not> is_halted s \<and> shaped s"

definition adv :: "nat \<Rightarrow> opcode \<Rightarrow> sim \<Rightarrow> sim" where
  "adv pc p s = put_count p (put_pc (digits_of 27 (int pc)) s)"

lemma adv_views [state_simps]:
  "sreg (adv n p s) k = sreg s k" "sval (adv n p s) k = sval s k" "vreg (adv n p s) k = vreg s k"
  "areg (adv n p s) k = areg s k" "mword (adv n p s) a = mword s a" "mval (adv n p s) a = mval s a"
  "msize (adv n p s) = msize s" "is_halted (adv n p s) = is_halted s" "shaped (adv n p s) = shaped s"
  "sim_counters (adv n p s) = bump p (sim_counters s)"
  "code_at (adv n p s) e is = code_at s e is" "addr_ok (adv n p s) x = addr_ok s x"
  "block_ok (adv n p s) x = block_ok s x" "load_lanes (adv n p s) x = load_lanes s x"
  by (simp_all add: adv_def state_simps load_lanes_def)

lemma load_lanes_put [state_simps]:
  "load_lanes (put_sreg k w s) x = load_lanes s x" "load_lanes (put_vreg k v s) x = load_lanes s x"
  "load_lanes (put_areg k c s) x = load_lanes s x"
  by (simp_all add: load_lanes_def state_simps)

lemma ready_put:
  "ready s e is k \<Longrightarrow> j < 27 \<Longrightarrow> ready (put_sreg j w s) e is k"
  "ready s e is k \<Longrightarrow> ready (put_vreg j v s) e is k"
  "ready s e is k \<Longrightarrow> ready (put_areg j c s) e is k"
  "ready s e is k \<Longrightarrow> a < msize s \<Longrightarrow> wf27 w \<Longrightarrow> a < e \<or> e + length is \<le> a \<Longrightarrow>
   ready (put_mword a w s) e is k"
  by (auto simp: ready_def state_simps code_at_put_mword)

lemma ready_adv: "ready s e is k \<Longrightarrow> k < length is \<Longrightarrow> ready (adv (e + k + 1) p s) e is (Suc k)"
proof -
  assume r: "ready s e is k" and k: "k < length is"
  then have "e + k + 1 \<le> 2 ^ 31" by (simp add: ready_def code_at_def)
  then have "fits 27 (int (e + k + 1))" by (simp add: fits_27)
  then show ?thesis
    using r by (simp add: ready_def adv_views) (simp add: adv_def state_simps word27_to_int_digits)
qed

lemma ready_step:
  assumes "ready s e is k" and "k < length is" and "i = is ! k"
    and "dispatch i (adv (e + k + 1) (op i) s) = (Inr (), t)"
  shows "sim_step s (Inr ()) t"
  using step_at [of s e "is" k] assms
  by (simp add: ready_def sim_step_iff run_one_count adv_def)

lemma reach_next: "reachable s n u \<Longrightarrow> sim_step u (Inr ()) t \<Longrightarrow> reachable s (Suc n) t"
  by (rule reach_step)

section \<open>The matrix kernel\<close>

text \<open>\<open>src/kernels/tk_matmul_b_9t.tasm\<close>, line by line; the dash of its first comment is UTF-8.\<close>

definition em_dash :: string where
  "em_dash = [CHR 0xE2, CHR 0x80, CHR 0x94]"

definition tk_matmul_b_9t :: "string list" where
  "tk_matmul_b_9t =
    [''        ; tk_matmul_b_9t '' @ em_dash @ '' single dot product of length 27.'',
     ''        ; Args: r1 = addr_X, r2 = addr_W, r3 = addr_Y.'',
     ''        ; Loads V0 = X, V1 = W, computes A0 += sum lanes (X*W), stores at mem[r3].'',
     ''        tvload     v0, r1'',
     ''        tvload     v1, r2'',
     ''        tvmac      a0, v0, v1'',
     ''        tvsum      r4, a0'',
     ''        tstore     r4, r3'',
     ''        thalt'']"

definition ins :: "opcode \<Rightarrow> nat \<Rightarrow> nat \<Rightarrow> nat \<Rightarrow> instr" where
  "ins p d a b = \<lparr>op = p, dst = d, src1 = a, src2 = b, imm = 0\<rparr>"

definition matmul_prog :: "instr list" where
  "matmul_prog = [ins TVLOAD 0 1 0, ins TVLOAD 1 2 0, ins TVMAC 0 0 1, ins TVSUM 4 0 0,
     ins TSTORE 0 4 3, ins THALT 0 0 0]"

lemma parse_matmul: "parse_lines tk_matmul_b_9t = Inr matmul_prog"
  by code_simp

lemma assemble_matmul: "assemble (text_lines tk_matmul_b_9t) = Inr (map encode matmul_prog)"
proof -
  have "list_all (\<lambda>l. CHR 0x0A \<notin> set l) tk_matmul_b_9t" by code_simp
  then show ?thesis by (simp add: assemble_text_lines parse_matmul)
qed

lemma matmul_prog_static:
  "list_all (\<lambda>i. valid_instr i \<and> relocated e i = i) matmul_prog" "length matmul_prog = 6"
  by (simp_all add: matmul_prog_def ins_def valid_instr_def fits_12 relocated_def)

lemma narrow_load_lanes: "narrow (load_lanes s a)" "length (load_lanes s a) = 27"
  by (simp_all add: load_lanes_def narrow_map)

text \<open>One dot product of loaded lanes: the single-instruction case of the accumulation bound.\<close>

lemma dot_once:
  assumes "narrow x" and "narrow w" and "length x = 27" and "length w = 27"
  obtains acc where "vec_mac vaccum_zero x w = Inr acc" "vec_sum acc = Inr (dot27 x w)"
    "fits 27 (dot27 x w)"
  using mac_chain_dot [of "[(x, w)]"] assms by (auto simp: narrow_pair_def)

lemma matmul_exec:
  assumes r: "ready s e matmul_prog 0"
    and x: "block_ok s (sval s 1)" and w: "block_ok s (sval s 2)" and y: "addr_ok s (sval s 3)"
    and out: "nat (sval s 3) < e \<or> e + 6 \<le> nat (sval s 3)" and a0: "areg s 0 = vaccum_zero"
  shows "\<exists>t. reachable s 6 t \<and> is_halted t \<and> sval t 1 = sval s 1
    \<and> sim_counters t = foldl (\<lambda>c i. bump (op i) c) (sim_counters s) matmul_prog
    \<and> (\<forall>a. mval t a = (if a = nat (sval s 3) then dot27 (load_lanes s (sval s 1)) (load_lanes s (sval s 2))
         else mval s a))"
proof -
  let ?X = "load_lanes s (sval s 1)" and ?W = "load_lanes s (sval s 2)" and ?y = "nat (sval s 3)"
  let ?d = "digits_of 27 (dot27 ?X ?W)"
  obtain acc where acc: "vec_mac vaccum_zero ?X ?W = Inr acc" "vec_sum acc = Inr (dot27 ?X ?W)"
    "fits 27 (dot27 ?X ?W)"
    using dot_once [OF narrow_load_lanes(1) narrow_load_lanes(1) narrow_load_lanes(2) narrow_load_lanes(2)] .
  have sh: "shaped s" using r by (simp add: ready_def)
  note run = dispatch_def exec_defs sx_simps run_simps state_simps matmul_prog_def ins_def
    tvload_run [unfolded exec_tvload_def]
  define s1 where "s1 = put_vreg 0 ?X (adv (e + 0 + 1) TVLOAD s)"
  define s2 where "s2 = put_vreg 1 ?W (adv (e + 1 + 1) TVLOAD s1)"
  define s3 where "s3 = put_areg 0 acc (adv (e + 2 + 1) TVMAC s2)"
  define s4 where "s4 = put_sreg 4 ?d (adv (e + 3 + 1) TVSUM s3)"
  define s5 where "s5 = put_mword ?y ?d (adv (e + 4 + 1) TSTORE s4)"
  define s6 where "s6 = put_halted True (adv (e + 5 + 1) THALT s5)"
  have yl: "?y < msize s" using y by (simp add: addr_ok_def)
  have r1: "ready s1 e matmul_prog 1" and sh1: "shaped s1"
    using ready_put(2) [OF ready_adv [OF r]] sh by (simp_all add: s1_def matmul_prog_static state_simps)
  have r2: "ready s2 e matmul_prog 2" and sh2: "shaped s2"
    using ready_put(2) [OF ready_adv [OF r1]] sh1
    by (simp_all add: s2_def matmul_prog_static state_simps numeral_2_eq_2)
  have r3: "ready s3 e matmul_prog 3" and sh3: "shaped s3"
    using ready_put(3) [OF ready_adv [OF r2]] sh2
    by (simp_all add: s3_def matmul_prog_static state_simps)
  have r4: "ready s4 e matmul_prog 4" and sh4: "shaped s4"
    using ready_put(1) [OF ready_adv [OF r3]] sh3
    by (simp_all add: s4_def matmul_prog_static state_simps)
  have r5: "ready s5 e matmul_prog 5" and sh5: "shaped s5"
    using ready_put(4) [OF ready_adv [OF r4]] sh4 out yl
    by (simp_all add: s5_def s4_def s3_def s2_def s1_def matmul_prog_static state_simps)
  have "sim_step s (Inr ()) s1"
    by (rule ready_step [OF r, where i = "ins TVLOAD 0 1 0"])
      (use x in \<open>simp_all add: matmul_prog_def ins_def dispatch_def run_simps state_simps s1_def\<close>)
  moreover have "sim_step s1 (Inr ()) s2"
    by (rule ready_step [OF r1, where i = "ins TVLOAD 1 2 0"])
      (use w in \<open>simp_all add: matmul_prog_def ins_def dispatch_def run_simps state_simps s2_def s1_def\<close>)
  moreover have "sim_step s2 (Inr ()) s3"
    by (rule ready_step [OF r2, where i = "ins TVMAC 0 0 1"])
      (use acc(1) sh a0 in \<open>simp_all add: matmul_prog_def ins_def dispatch_def exec_tvmac_def
        sx_simps run_simps state_simps s3_def s2_def s1_def\<close>)
  moreover have "sim_step s3 (Inr ()) s4"
    by (rule ready_step [OF r3, where i = "ins TVSUM 4 0 0"])
      (use acc(2,3) sh2 in \<open>simp_all add: matmul_prog_def ins_def dispatch_def exec_tvsum_def
        sx_simps run_simps state_simps s4_def s3_def\<close>)
  moreover have "sim_step s4 (Inr ()) s5"
    by (rule ready_step [OF r4, where i = "ins TSTORE 0 4 3"])
      (use y sh in \<open>simp_all add: matmul_prog_def ins_def dispatch_def exec_tstore_def sx_simps
        run_simps state_simps s5_def s4_def s3_def s2_def s1_def flip: sval_def\<close>)
  moreover have "sim_step s5 (Inr ()) s6"
    by (rule ready_step [OF r5, where i = "ins THALT 0 0 0"])
      (simp_all add: matmul_prog_def ins_def dispatch_def exec_thalt_def run_simps s6_def)
  ultimately have "reachable s 6 s6"
    using reach_step [OF reach_step [OF reach_step [OF reach_step [OF reach_step [OF reach_step
      [OF reach_refl]]]]]] by (simp add: eval_nat_numeral)
  moreover have "is_halted s6" "sval s6 1 = sval s 1"
    by (simp_all add: s6_def s5_def s4_def s3_def s2_def s1_def state_simps sh)
  moreover have "sim_counters s6 = foldl (\<lambda>c i. bump (op i) c) (sim_counters s) matmul_prog"
    by (simp add: s6_def s5_def s4_def s3_def s2_def s1_def state_simps matmul_prog_def ins_def)
  moreover have "mval s6 a = (if a = ?y then dot27 ?X ?W else mval s a)" for a
    using yl acc(3) sh by (simp add: s6_def s5_def s4_def s3_def s2_def s1_def state_simps word27_to_int_digits)
  ultimately show ?thesis by blast
qed

section \<open>The state a kernel starts in\<close>

definition set_args :: "nat \<Rightarrow> int list \<Rightarrow> sim \<Rightarrow> sim" where
  "set_args n args s = fold (\<lambda>(i, a). put_sreg i (digits_of 27 a)) (enumerate n args) s"

lemma set_args_frame:
  assumes "shaped s" and "1 \<le> n" and "n + length args \<le> 27" and "list_all (fits 27) args"
  shows "shaped (set_args n args s)"
    "sval (set_args n args s) j = (if n \<le> j \<and> j < n + length args then args ! (j - n) else sval s j)"
    "vreg (set_args n args s) j = vreg s j" "areg (set_args n args s) j = areg s j"
    "mword (set_args n args s) a = mword s a" "msize (set_args n args s) = msize s"
    "sim_counters (set_args n args s) = sim_counters s"
  using assms
proof (induction args arbitrary: n s)
  case (Cons x args)
  have rec: "set_args n (x # args) s = set_args (Suc n) args (put_sreg n (digits_of 27 x) s)" for n s
    by (simp add: set_args_def)
  {
    case 1 then show ?case using Cons.IH(1) by (simp add: rec state_simps)
  next
    case 2 then show ?case using Cons.IH(2) [of "put_sreg n (digits_of 27 x) s" "Suc n"]
      by (auto simp: rec state_simps nth_Cons' word27_to_int_digits not_less_eq_eq Suc_diff_le)
  next
    case 3 then show ?case using Cons.IH(3) by (simp add: rec state_simps)
  next
    case 4 then show ?case using Cons.IH(4) by (simp add: rec state_simps)
  next
    case 5 then show ?case using Cons.IH(5) by (simp add: rec state_simps)
  next
    case 6 then show ?case using Cons.IH(6) by (simp add: rec state_simps)
  next
    case 7 then show ?case using Cons.IH(7) by (simp add: rec state_simps)
  }
qed (simp_all add: set_args_def)

lemma called_views:
  assumes "shaped s" and "length args \<le> 7" and "list_all (fits 27) args" and "e < 2 ^ 31"
  shows "shaped (called e args s)" "\<not> is_halted (called e args s)" "pcv (called e args s) = int e"
    "k < length args \<Longrightarrow> sval (called e args s) (Suc k) = args ! k"
    "j < 3 \<Longrightarrow> areg (called e args s) j = vaccum_zero"
    "mword (called e args s) a = mword s a" "msize (called e args s) = msize s"
    "sim_counters (called e args s) = sim_counters s"
proof -
  have "1 + length args \<le> 27" using assms(2) by simp
  note fr = set_args_frame [OF shaped_reset [OF assms(1)] order_refl this assms(3)]
  have c: "called e args s = put_halted False (put_pc (digits_of 27 (int e)) (set_args 1 args (put_reset s)))"
    by (simp add: called_def set_args_def)
  have "fits 27 (int e)" using assms(4) by (simp add: fits_27)
  then show "shaped (called e args s)" "\<not> is_halted (called e args s)" "pcv (called e args s) = int e"
    "k < length args \<Longrightarrow> sval (called e args s) (Suc k) = args ! k"
    "j < 3 \<Longrightarrow> areg (called e args s) j = vaccum_zero"
    "mword (called e args s) a = mword s a" "msize (called e args s) = msize s"
    "sim_counters (called e args s) = sim_counters s"
    using assms(1) unfolding c by (simp_all add: state_simps fr word27_to_int_digits del: One_nat_def)
qed

lemma called_memory:
  assumes "shaped s" and "length args \<le> 7" and "list_all (fits 27) args" and "e < 2 ^ 31"
  shows "code_at (called e args s) a is = code_at s a is" "addr_ok (called e args s) x = addr_ok s x"
    "block_ok (called e args s) x = block_ok s x" "load_lanes (called e args s) x = load_lanes s x"
    "mval (called e args s) b = mval s b"
  using called_views(6,7) [OF assms]
  by (simp_all add: code_at_def addr_ok_def block_ok_def load_lanes_def mval_def)

text \<open>A kernel in memory, called: its first instruction is the next one to execute.\<close>

lemma called_ready:
  assumes "code_at s e is" and "is \<noteq> []" and "msize s \<le> 2 ^ 31" and "shaped s"
    and "length args \<le> 7" and "list_all (fits 27) args"
  shows "ready (called e args s) e is 0" and "e < 2 ^ 31"
proof -
  have "0 < length is" using assms(2) by simp
  then show e: "e < 2 ^ 31" using assms(1,3) unfolding code_at_def by linarith
  show "ready (called e args s) e is 0"
    using assms called_views [OF assms(4-6) e] called_memory(1) [OF assms(4-6) e]
    by (simp add: ready_def)
qed

lemma matmul_call:
  assumes "code_at s e matmul_prog" and "shaped s" and "msize s \<le> 2 ^ 31"
    and "block_ok s x" and "block_ok s w" and "addr_ok s y" and "nat y < e \<or> e + 6 \<le> nat y"
  shows "\<exists>t. call_kernel \<lparr>ki_entry = e, ki_valid = True\<rparr> [x, w, y] s = (Inr x, t)
    \<and> (\<forall>a. mval t a = (if a = nat y then dot27 (load_lanes s x) (load_lanes s w) else mval s a))
    \<and> sim_counters t = foldl (\<lambda>c i. bump (op i) c) (sim_counters s) matmul_prog"
proof -
  have fits: "list_all (fits 27) [x, w, y]"
    using assms(3-6) by (auto simp: block_ok_def addr_ok_def fits_27)
  have ne: "matmul_prog \<noteq> []" by (simp add: matmul_prog_def)
  have len: "length [x, w, y] \<le> 7" by simp
  note start = called_ready [OF assms(1) ne assms(3,2) len fits]
  note views = called_views [OF assms(2) len fits start(2)] and mem = called_memory [OF assms(2) len fits start(2)]
  have regs: "sval (called e [x, w, y] s) 1 = x" "sval (called e [x, w, y] s) 2 = w"
    "sval (called e [x, w, y] s) 3 = y"
    using views(4) [of 0] views(4) [of 1] views(4) [of 2] by (simp_all add: eval_nat_numeral)
  obtain t where t: "reachable (called e [x, w, y] s) 6 t" "is_halted t" "sval t 1 = x"
    "\<And>a. mval t a = (if a = nat y then dot27 (load_lanes s x) (load_lanes s w) else mval s a)"
    "sim_counters t = foldl (\<lambda>c i. bump (op i) c) (sim_counters s) matmul_prog"
    using matmul_exec [OF start(1)] assms(4-7) views(5) [of 0] unfolding regs mem views(8) by auto
  have "call_kernel \<lparr>ki_entry = e, ki_valid = True\<rparr> [x, w, y] s = (Inr (sval t 1), t)"
    using t(1) by (intro call_kernel_reaches [OF _ len fits _ _ t(2), where k = 6])
      (use start(2) in \<open>simp_all add: kSafetyLimit_def\<close>)
  then show ?thesis using t(3,4,5) by auto
qed

section \<open>The rotary kernel\<close>

text \<open>\<open>src/kernels/tk_rope.tasm\<close>.\<close>

definition tk_rope :: "string list" where
  "tk_rope =
    [''        ; tk_rope '' @ em_dash @ '' element-wise RoPE rotation (pure SIMD).'',
     ''        ; Args:'',
     ''        ;   r1 = addr_X'',
     ''        ;   r2 = addr_COS  (host-prepared, lane (2k, 2k+1) = cos[k] duplicated)'',
     ''        ;   r3 = addr_SIN  (host-prepared, lane (2k, 2k+1) = sin[k] duplicated)'',
     ''        ;   r4 = addr_ROTX (host-prepared, lane (2k, 2k+1) = (-x[2k+1], x[2k]))'',
     ''        ;   r5 = addr_Y'',
     '''',
     ''        tvload      v0, r1'',
     ''        tvload      v1, r2'',
     ''        tvload      v2, r3'',
     ''        tvload      v3, r4'',
     '''',
     ''        tvmul       v4, v0, v1       ; x * cos'',
     ''        tvmul       v5, v3, v2       ; rotated_x * sin'',
     ''        tvadd       v6, v4, v5       ; y = x*cos + rotated_x*sin'',
     '''',
     ''        tvstore     v6, r5'',
     ''        thalt'']"

definition rope_prog :: "instr list" where
  "rope_prog = [ins TVLOAD 0 1 0, ins TVLOAD 1 2 0, ins TVLOAD 2 3 0, ins TVLOAD 3 4 0,
     ins TVMUL 4 0 1, ins TVMUL 5 3 2, ins TVADD 6 4 5, ins TVSTORE 0 6 5, ins THALT 0 0 0]"

lemma parse_rope: "parse_lines tk_rope = Inr rope_prog"
  by code_simp

lemma assemble_rope: "assemble (text_lines tk_rope) = Inr (map encode rope_prog)"
proof -
  have "list_all (\<lambda>l. CHR 0x0A \<notin> set l) tk_rope" by code_simp
  then show ?thesis by (simp add: assemble_text_lines parse_rope)
qed

definition rope_lanes :: "vec \<Rightarrow> vec \<Rightarrow> vec \<Rightarrow> vec \<Rightarrow> vec" where
  "rope_lanes x c s r = vec_add (vec_mul x c) (vec_mul r s)"

lemma rope_lanes_exact:
  assumes "narrow_pair (x, c)" and "narrow_pair (r, s)" and "k < 27"
  shows "rope_lanes x c s r ! k = x ! k * c ! k + r ! k * s ! k"
  using narrow_prod [OF assms(1,3)] narrow_prod [OF assms(2,3)] assms(3)
  by (simp add: rope_lanes_def vec_maps clamp_id INT32_MIN_def INT32_MAX_def del: upt_rec_numeral)

lemma wf_rope_lanes: "wf_vec (rope_lanes x c s r)"
  by (simp add: rope_lanes_def)

lemma ready_store_lanes:
  assumes "ready s e is k" and "block_ok s b" and "b + 27 \<le> int e \<or> int e + int (length is) \<le> b"
  shows "ready (store_lanes b v s) e is k"
  using assms mword_store_lanes [OF assms(2), of v]
  by (auto simp: ready_def state_simps code_at_def)

lemma tvmul_run [run_simps]:
  "dst i < 9 \<Longrightarrow> src1 i < 9 \<Longrightarrow> src2 i < 9 \<Longrightarrow>
   exec_tvmul i s = (Inr (), put_vreg (dst i) (vec_mul (vreg s (src1 i)) (vreg s (src2 i))) s)"
  "dst i < 9 \<Longrightarrow> src1 i < 9 \<Longrightarrow> src2 i < 9 \<Longrightarrow>
   exec_tvadd i s = (Inr (), put_vreg (dst i) (vec_add (vreg s (src1 i)) (vreg s (src2 i))) s)"
  by (simp_all add: exec_tvmul_def exec_tvadd_def sx_simps run_simps)

lemmas exec_here = rope_prog_def ins_def dispatch_def run_simps state_simps

lemma rope_exec:
  assumes r: "ready s e rope_prog 0"
    and x: "block_ok s (sval s 1)" "block_ok s (sval s 2)" "block_ok s (sval s 3)" "block_ok s (sval s 4)"
    and y: "block_ok s (sval s 5)" and out: "sval s 5 + 27 \<le> int e \<or> int e + 9 \<le> sval s 5"
  shows "\<exists>t. reachable s 9 t \<and> is_halted t \<and> sval t 1 = sval s 1
    \<and> (\<forall>a. mword t a = mword (store_lanes (sval s 5) (rope_lanes (load_lanes s (sval s 1))
         (load_lanes s (sval s 2)) (load_lanes s (sval s 3)) (load_lanes s (sval s 4))) s) a)"
proof -
  let ?L = "\<lambda>k. load_lanes s (sval s k)"
  let ?V = "rope_lanes (?L 1) (?L 2) (?L 3) (?L 4)"
  have sh: "shaped s" and y': "0 \<le> sval s 5" using r y by (simp_all add: ready_def block_ok_def)
  have len: "length rope_prog = 9" by (simp add: rope_prog_def)
  define s1 where "s1 = put_vreg 0 (?L 1) (adv (e + 0 + 1) TVLOAD s)"
  define s2 where "s2 = put_vreg 1 (?L 2) (adv (e + 1 + 1) TVLOAD s1)"
  define s3 where "s3 = put_vreg 2 (?L 3) (adv (e + 2 + 1) TVLOAD s2)"
  define s4 where "s4 = put_vreg 3 (?L 4) (adv (e + 3 + 1) TVLOAD s3)"
  define s5 where "s5 = put_vreg 4 (vec_mul (?L 1) (?L 2)) (adv (e + 4 + 1) TVMUL s4)"
  define s6 where "s6 = put_vreg 5 (vec_mul (?L 4) (?L 3)) (adv (e + 5 + 1) TVMUL s5)"
  define s7 where "s7 = put_vreg 6 ?V (adv (e + 6 + 1) TVADD s6)"
  define s8 where "s8 = store_lanes (sval s 5) ?V (adv (e + 7 + 1) TVSTORE s7)"
  define s9 where "s9 = put_halted True (adv (e + 8 + 1) THALT s8)"
  note vr = ready_put(2) [OF ready_adv]
  have r1: "ready s1 e rope_prog 1" using vr [OF r] by (simp add: s1_def len)
  have r2: "ready s2 e rope_prog 2" using vr [OF r1] by (simp add: s2_def len numeral_2_eq_2)
  have r3: "ready s3 e rope_prog 3" using vr [OF r2] by (simp add: s3_def len)
  have r4: "ready s4 e rope_prog 4" using vr [OF r3] by (simp add: s4_def len)
  have r5: "ready s5 e rope_prog 5" using vr [OF r4] by (simp add: s5_def len)
  have r6: "ready s6 e rope_prog 6" using vr [OF r5] by (simp add: s6_def len)
  have r7: "ready s7 e rope_prog 7" using vr [OF r6] by (simp add: s7_def len)
  have blk: "block_ok (adv n p s7) z = block_ok s z" for n p z
    by (simp add: s7_def s6_def s5_def s4_def s3_def s2_def s1_def state_simps)
  have r8: "ready s8 e rope_prog 8"
    using ready_store_lanes [OF ready_adv [OF r7], where b = "sval s 5"] y out
    by (simp add: s8_def len blk)
  have shn: "shaped s1" "shaped s2" "shaped s3" "shaped s4" "shaped s5" "shaped s6" "shaped s7"
    using sh by (simp_all add: s1_def s2_def s3_def s4_def s5_def s6_def s7_def state_simps)
  have 1: "sim_step s (Inr ()) s1"
    by (rule ready_step [OF r, where i = "ins TVLOAD 0 1 0"])
      (use x in \<open>simp_all add: exec_here s1_def\<close>)
  have 2: "sim_step s1 (Inr ()) s2"
    by (rule ready_step [OF r1, where i = "ins TVLOAD 1 2 0"])
      (use x in \<open>simp_all add: exec_here s2_def s1_def\<close>)
  have 3: "sim_step s2 (Inr ()) s3"
    by (rule ready_step [OF r2, where i = "ins TVLOAD 2 3 0"])
      (use x in \<open>simp_all add: exec_here s3_def s2_def s1_def\<close>)
  have 4: "sim_step s3 (Inr ()) s4"
    by (rule ready_step [OF r3, where i = "ins TVLOAD 3 4 0"])
      (use x in \<open>simp_all add: exec_here s4_def s3_def s2_def s1_def\<close>)
  have v4: "vreg s4 0 = ?L 1" "vreg s4 1 = ?L 2" "vreg s4 2 = ?L 3" "vreg s4 3 = ?L 4"
    using sh by (simp_all add: s4_def s3_def s2_def s1_def state_simps)
  have 5: "sim_step s4 (Inr ()) s5"
    by (rule ready_step [OF r4, where i = "ins TVMUL 4 0 1"])
      (use v4 in \<open>simp_all add: exec_here s5_def\<close>)
  have 6: "sim_step s5 (Inr ()) s6"
    by (rule ready_step [OF r5, where i = "ins TVMUL 5 3 2"])
      (use v4 shn in \<open>simp_all add: exec_here s6_def s5_def\<close>)
  have 7: "sim_step s6 (Inr ()) s7"
    by (rule ready_step [OF r6, where i = "ins TVADD 6 4 5"])
      (use shn in \<open>simp_all add: exec_here s7_def s6_def s5_def rope_lanes_def\<close>)
  have w: "sval s7 5 = sval s 5" "vreg s7 6 = ?V" "wf_vec ?V"
    using shn by (simp_all add: s7_def s6_def s5_def s4_def s3_def s2_def s1_def state_simps wf_rope_lanes)
  have 8: "sim_step s7 (Inr ()) s8"
    by (rule ready_step [OF r7, where i = "ins TVSTORE 0 6 5"])
      (use w blk y in \<open>simp_all add: exec_here s8_def\<close>)
  have 9: "sim_step s8 (Inr ()) s9"
    by (rule ready_step [OF r8, where i = "ins THALT 0 0 0"])
      (simp_all add: exec_here exec_thalt_def s9_def)
  have "reachable s 9 s9"
    using reach_step [OF reach_step [OF reach_step [OF reach_step [OF reach_step [OF reach_step
      [OF reach_step [OF reach_step [OF reach_step [OF reach_refl 1] 2] 3] 4] 5] 6] 7] 8] 9]
    by (simp add: eval_nat_numeral)
  moreover have "is_halted s9" "sval s9 1 = sval s 1"
    by (simp_all add: s9_def s8_def s7_def s6_def s5_def s4_def s3_def s2_def s1_def state_simps)
  moreover have "mword s9 a = mword (store_lanes (sval s 5) ?V s) a" for a
  proof -
    have "mword (adv n p s7) a = mword s a" for n p
      by (simp add: s7_def s6_def s5_def s4_def s3_def s2_def s1_def state_simps)
    moreover have "block_ok (adv (e + 7 + 1) TVSTORE s7) (sval s 5)" unfolding blk by (rule y)
    ultimately show ?thesis unfolding s9_def s8_def
      by (simp only: state_simps mword_store_lanes [OF y] mword_store_lanes)
  qed
  ultimately show ?thesis by blast
qed

lemma rope_call:
  assumes "code_at s e rope_prog" and "shaped s" and "msize s \<le> 2 ^ 31"
    and "block_ok s x" and "block_ok s c" and "block_ok s sn" and "block_ok s r" and "block_ok s y"
    and "y + 27 \<le> int e \<or> int e + 9 \<le> y"
  shows "\<exists>t. call_kernel \<lparr>ki_entry = e, ki_valid = True\<rparr> [x, c, sn, r, y] s = (Inr x, t)
    \<and> (\<forall>k < 27. mval t (nat (y + int k)) = load_lanes s x ! k * load_lanes s c ! k
         + load_lanes s r ! k * load_lanes s sn ! k)
    \<and> (\<forall>a. int a < y \<or> y + 27 \<le> int a \<longrightarrow> mval t a = mval s a)"
proof -
  let ?args = "[x, c, sn, r, y]"
  let ?v = "rope_lanes (load_lanes s x) (load_lanes s c) (load_lanes s sn) (load_lanes s r)"
  have fits: "list_all (fits 27) ?args" using assms(3-8) by (auto simp: block_ok_def fits_27)
  have ne: "rope_prog \<noteq> []" by (simp add: rope_prog_def)
  have len: "length ?args \<le> 7" by simp
  note start = called_ready [OF assms(1) ne assms(3,2) len fits]
  note views = called_views [OF assms(2) len fits start(2)] and mem = called_memory [OF assms(2) len fits start(2)]
  have regs: "sval (called e ?args s) 1 = x" "sval (called e ?args s) 2 = c"
    "sval (called e ?args s) 3 = sn" "sval (called e ?args s) 4 = r" "sval (called e ?args s) 5 = y"
    using views(4) [of 0] views(4) [of 1] views(4) [of 2] views(4) [of 3] views(4) [of 4]
    by (simp_all add: eval_nat_numeral)
  have y: "block_ok (called e ?args s) y" using assms(8) mem by simp
  obtain t where t: "reachable (called e ?args s) 9 t" "is_halted t" "sval t 1 = x"
    "\<And>a. mword t a = mword (store_lanes y ?v (called e ?args s)) a"
    using rope_exec [OF start(1)] assms(4-9) unfolding regs mem by auto
  have "call_kernel \<lparr>ki_entry = e, ki_valid = True\<rparr> ?args s = (Inr (sval t 1), t)"
    using t(1) by (intro call_kernel_reaches [OF _ len fits _ _ t(2), where k = 9])
      (use start(2) in \<open>simp_all add: kSafetyLimit_def\<close>)
  moreover have "mval t (nat (y + int k)) = ?v ! k" if "k < 27" for k
    using assms(8) that wf_vec_nth [OF wf_rope_lanes that]
    by (simp add: mval_def t(4) mword_store_lanes [OF y] block_ok_def word27_to_int_digits i32_fits_27)
  moreover have "mval t a = mval s a" if "int a < y \<or> y + 27 \<le> int a" for a
    using that views(6) by (auto simp: mval_def t(4) mword_store_lanes [OF y])
  moreover have "?v ! k = load_lanes s x ! k * load_lanes s c ! k + load_lanes s r ! k * load_lanes s sn ! k"
    if "k < 27" for k
    using that by (intro rope_lanes_exact) (simp_all add: narrow_pair_def narrow_load_lanes)
  ultimately show ?thesis using t(3) by auto
qed

text \<open>
  The whole way: the source text is assembled and installed under its name, found again by
  that name, and the call stores the dot product.
\<close>

lemma matmul_installed:
  assumes "kt_next (ks_kt s) + 6 \<le> msize (ks_sim s)" and "msize (ks_sim s) \<le> 2 ^ 31"
    and "free_slots (kt_entries (ks_kt s)) \<noteq> 0" and "slots_ok (kt_entries (ks_kt s))"
    and "lookup_entry (kt_entries (ks_kt s)) ''tk_matmul_b_9t'' = None"
  shows "\<exists>t. sbind (lift (assemble (text_lines tk_matmul_b_9t))) (install ''tk_matmul_b_9t'') s
      = (Inr \<lparr>ki_entry = kt_next (ks_kt s), ki_valid = True\<rparr>, t)
    \<and> find_kernel (ks_kt t) ''tk_matmul_b_9t'' = \<lparr>ki_entry = kt_next (ks_kt s), ki_valid = True\<rparr>
    \<and> code_at (ks_sim t) (kt_next (ks_kt s)) matmul_prog
    \<and> sim_regs (ks_sim t) = sim_regs (ks_sim s) \<and> msize (ks_sim t) = msize (ks_sim s)"
proof -
  have st: "list_all (\<lambda>i. valid_instr i \<and> valid_instr (relocated (kt_next (ks_kt s)) i)) matmul_prog"
    "map (relocated e) matmul_prog = matmul_prog" for e
    using matmul_prog_static(1) by (auto simp: list_all_iff map_idI)
  have nm: "good_name ''tk_matmul_b_9t''" by (simp add: good_name_def kNameMax_def NUL_def)
  have e: "kt_next (ks_kt s) < 2 ^ 31" using assms(1,2) by simp
  from install_code [OF st(1) _ assms(2) e assms(3,4) nm assms(5)] assms(1)
  show ?thesis by (auto simp: matmul_prog_static(2) st(2) assemble_matmul)
qed

end
