(* ===== verification/TerK4.thy ===== *)
theory TerK4
  imports TerKernelRuns
begin

text \<open>
  The C interface \<open>ter_k4\<close> (\<open>src/k4/ter_k4.cpp\<close>, \<open>include/ter_k4/ter_k4.h\<close>): a handle owns
  a simulator and a kernel table. A pointer argument is an option, \<open>None\<close> for \<open>NULL\<close>; the
  return codes are those of the source. An exception of the wrapped objects cannot be
  returned, it leaves the call as an error. Whether \<open>new (std::nothrow)\<close> succeeds is an
  argument.
\<close>

type_synonym handle = kstate

definition ter_k4_create :: "bool \<Rightarrow> nat \<Rightarrow> handle option" where
  "ter_k4_create alloc sim_memory_words =
     (if alloc then Some \<lparr>ks_sim = mk_sim sim_memory_words, ks_kt = mk_kernel_table\<rparr> else None)"

definition on_handle :: "handle option \<Rightarrow> (handle, int) sx \<Rightarrow> int res \<times> handle option" where
  "on_handle h m = (case h of None \<Rightarrow> (Inr (- 1), None) | Some s \<Rightarrow> (case m s of (r, t) \<Rightarrow> (r, Some t)))"

definition ter_k4_install_kernel ::
  "bool \<Rightarrow> handle option \<Rightarrow> string option \<Rightarrow> word27 list option \<Rightarrow> int res \<times> handle option" where
  "ter_k4_install_kernel alloc h name blob =
     on_handle h (case (name, blob) of
       (Some n, Some ws) \<Rightarrow>
         (if \<not> alloc then ret (- 3) else sbind (install (c_str n) ws) (\<lambda>_. ret 0))
     | _ \<Rightarrow> ret (- 1))"

definition on_sim :: "(sim, 'a) sx \<Rightarrow> (kstate, 'a) sx" where
  "on_sim m s = (case m (ks_sim s) of (r, t) \<Rightarrow> (r, s\<lparr>ks_sim := t\<rparr>))"

definition ter_k4_call :: "handle option \<Rightarrow> string option \<Rightarrow> int list \<Rightarrow> int res \<times> handle option" where
  "ter_k4_call h name args =
     on_handle h (case name of
       None \<Rightarrow> ret (- 1)
     | Some n \<Rightarrow>
         (if length args > 7 then ret (- 4)
          else (\<lambda>s. let ident = find_kernel (ks_kt s) n
                    in if \<not> ki_valid ident then (Inr (- 2), s)
                       else sbind (on_sim (call_kernel ident args)) (\<lambda>_. ret 0) s)))"

record k4_op_counts =
  k4_total_ops :: "64 word"
  k4_tvmac :: "64 word"
  k4_tvadd :: "64 word"
  k4_tvsub :: "64 word"
  k4_tvmul :: "64 word"

definition ter_k4_op_counts :: "handle option \<Rightarrow> k4_op_counts option \<Rightarrow> k4_op_counts option" where
  "ter_k4_op_counts h out =
     (case (h, out) of
        (Some s, Some old) \<Rightarrow>
          (let c = sim_counters (ks_sim s)
           in Some \<lparr>k4_total_ops = oc_total c, k4_tvmac = get_count TVMAC c, k4_tvadd = get_count TVADD c,
                k4_tvsub = get_count TVSUB c, k4_tvmul = get_count TVMUL c\<rparr>)
      | _ \<Rightarrow> out)"

definition ter_k4_reset_counters :: "handle option \<Rightarrow> handle option" where
  "ter_k4_reset_counters h =
     map_option (\<lambda>s. s\<lparr>ks_sim := (ks_sim s)\<lparr>sim_counters := counters_reset (sim_counters (ks_sim s))\<rparr>\<rparr>) h"

section \<open>The return codes\<close>

lemma k4_call_codes:
  "ter_k4_call None name args = (Inr (- 1), None)"
  "ter_k4_call (Some s) None args = (Inr (- 1), Some s)"
  "7 < length args \<Longrightarrow> ter_k4_call (Some s) (Some n) args = (Inr (- 4), Some s)"
  "length args \<le> 7 \<Longrightarrow> \<not> ki_valid (find_kernel (ks_kt s) n) \<Longrightarrow>
   ter_k4_call (Some s) (Some n) args = (Inr (- 2), Some s)"
  by (simp_all add: ter_k4_call_def on_handle_def ret_def)

lemma k4_call_run:
  assumes "length args \<le> 7" and "find_kernel (ks_kt s) n = ident" and "ki_valid ident"
    and "call_kernel ident args (ks_sim s) = (Inr v, t)"
  shows "ter_k4_call (Some s) (Some n) args = (Inr 0, Some (s\<lparr>ks_sim := t\<rparr>))"
  using assms by (simp add: ter_k4_call_def on_handle_def on_sim_def sbind_def ret_def Let_def)

lemma k4_reset_counts:
  "ter_k4_op_counts (ter_k4_reset_counters (Some s)) (Some out)
   = Some \<lparr>k4_total_ops = 0, k4_tvmac = 0, k4_tvadd = 0, k4_tvsub = 0, k4_tvmul = 0\<rparr>"
  by (simp add: ter_k4_op_counts_def ter_k4_reset_counters_def counters_reset_def get_count_def)

text \<open>The counters after the matrix kernel: six instructions, one of them a multiply-accumulate.\<close>

lemma matmul_counts:
  "oc_total (foldl (\<lambda>c i. bump (op i) c) c matmul_prog) = oc_total c + 6"
  "get_count TVMAC (foldl (\<lambda>c i. bump (op i) c) c matmul_prog) = get_count TVMAC c + 1"
  "get_count TVMUL (foldl (\<lambda>c i. bump (op i) c) c matmul_prog) = get_count TVMUL c"
  "get_count TVADD (foldl (\<lambda>c i. bump (op i) c) c matmul_prog) = get_count TVADD c"
  "get_count TVSUB (foldl (\<lambda>c i. bump (op i) c) c matmul_prog) = get_count TVSUB c"
  by (simp_all add: matmul_prog_def ins_def bump_is_bump_n get_count_bump_n)
    (simp add: bump_n_def)

lemma fresh_handle:
  "ter_k4_create True n = Some s \<Longrightarrow>
   shaped (ks_sim s) \<and> msize (ks_sim s) = n \<and> kt_next (ks_kt s) = 0 \<and> slots_ok (kt_entries (ks_kt s))
   \<and> free_slots (kt_entries (ks_kt s)) = 32 \<and> lookup_entry (kt_entries (ks_kt s)) name = None
   \<and> sim_counters (ks_sim s) = counters_init"
  using wf_sim_init [of n] fresh_table
  by (auto simp: ter_k4_create_def msize_def size_words_def mk_memory_def)
    (simp_all add: mk_sim_def mk_memory_def mk_kernel_table_def)

lemma k4_install_matmul:
  assumes "kt_next (ks_kt s) + 6 \<le> msize (ks_sim s)" and "msize (ks_sim s) \<le> 2 ^ 31"
    and "free_slots (kt_entries (ks_kt s)) \<noteq> 0" and "slots_ok (kt_entries (ks_kt s))"
    and "lookup_entry (kt_entries (ks_kt s)) ''tk_matmul_b_9t'' = None"
  shows "\<exists>t. ter_k4_install_kernel True (Some s) (Some ''tk_matmul_b_9t'') (Some (map encode matmul_prog))
      = (Inr 0, Some t)
    \<and> find_kernel (ks_kt t) ''tk_matmul_b_9t'' = \<lparr>ki_entry = kt_next (ks_kt s), ki_valid = True\<rparr>
    \<and> code_at (ks_sim t) (kt_next (ks_kt s)) matmul_prog
    \<and> sim_regs (ks_sim t) = sim_regs (ks_sim s) \<and> msize (ks_sim t) = msize (ks_sim s)"
proof -
  have "c_str ''tk_matmul_b_9t'' = ''tk_matmul_b_9t''" by (intro c_str_id) (simp add: NUL_def)
  moreover obtain t where "install ''tk_matmul_b_9t'' (map encode matmul_prog) s
      = (Inr \<lparr>ki_entry = kt_next (ks_kt s), ki_valid = True\<rparr>, t)"
    "find_kernel (ks_kt t) ''tk_matmul_b_9t'' = \<lparr>ki_entry = kt_next (ks_kt s), ki_valid = True\<rparr>"
    "code_at (ks_sim t) (kt_next (ks_kt s)) matmul_prog"
    "sim_regs (ks_sim t) = sim_regs (ks_sim s)" "msize (ks_sim t) = msize (ks_sim s)"
    using matmul_installed [OF assms] by (auto simp: assemble_matmul)
  ultimately show ?thesis
    by (simp add: ter_k4_install_kernel_def on_handle_def sbind_def ret_def)
qed

end
