(* ===== verification/TerKernelProps.thy ===== *)
theory TerKernelProps
  imports TerK4
begin

text \<open>
  The properties of the assembler, the kernel table, the kernels and the C interface.
\<close>

section \<open>The assembler\<close>

text \<open>
  C8: assembling the canonical text of any instruction sequence, one instruction a line,
  gives exactly the encodings of those instructions: the lexer and the emitter undo the
  printer.
\<close>

theorem assemble_reads_printed:
  assumes "list_all canonical is"
  shows "assemble (print_program is) = Inr (map encode is)"
  by (rule assemble_printed [OF assms])

theorem assemble_reads_printed_witness:
  "assemble (print_program [ins TVLOAD 8 26 0, ins TVMAC 2 8 0 , ins THALT 0 0 0])
   = Inr (map encode [ins TVLOAD 8 26 0, ins TVMAC 2 8 0 , ins THALT 0 0 0])"
  by (rule assemble_reads_printed) (simp add: canonical_def ins_def in_i32_def)

text \<open>
  when \<open>assemble\<close> returns, it has emitted one word per instruction line, and every word
  is a well-formed instruction word that decodes, with register operands of 0 to 26.
\<close>

theorem assemble_emits_instructions:
  assumes "assemble src = Inr blob"
  shows "length blob = length (ap_lines (collect_lines (tokenise src)))
    \<and> (\<forall>w \<in> set blob. wf27 w \<and> (\<exists>i. decode w = Inr i \<and> valid_instr i))"
  using assemble_length [OF assms] assemble_decodes [OF assms] by blast

theorem assemble_emits_instructions_witness:
  "\<exists>i. decode (hd (map encode matmul_prog)) = Inr i \<and> valid_instr i"
proof -
  have "hd (map encode matmul_prog) \<in> set (map encode matmul_prog)"
    by (rule hd_in_set) (simp add: matmul_prog_def)
  then show ?thesis using assemble_emits_instructions [OF assemble_matmul] by blast
qed

text \<open>
  every label the first pass records is the index of an instruction line, or of the end
  of the program; the lines it collects are not empty and do not start with a label.
\<close>

theorem labels_inside_program:
  "case ap_labels (collect_lines (tokenise src)) l of
     None \<Rightarrow> True
   | Some v \<Rightarrow> v \<in> {0..int (length (ap_lines (collect_lines (tokenise src))))}"
  using pass_ok_collect [of "tokenise src"]
  by (auto simp: pass_ok_def labels_in_def split: option.splits)

section \<open>The kernel table\<close>

text \<open>
  a fresh kernel table takes up to 32 kernels with distinct names of at most 31
  characters and finds each of them by its name afterwards; a 33rd installation has no slot.
\<close>

theorem kernel_table_holds:
  assumes "list_all (\<lambda>(n, v). good_name n) kvs" and "distinct (map fst kvs)"
  shows "if length kvs \<le> 32
    then \<exists>es. kernel_names.add_all (kt_entries mk_kernel_table) kvs = Some es
      \<and> list_all (\<lambda>(n, v). find_entry es n = v) kvs
    else kernel_names.add_all (kt_entries mk_kernel_table) kvs = None"
proof (cases "length kvs \<le> 32")
  case True
  then obtain es where es: "kernel_names.add_all (kt_entries mk_kernel_table) kvs = Some es"
    using kernel_names.add_all_space [of "kt_entries mk_kernel_table" kvs] fresh_table(2) by auto
  have "find_entry es n = v" if "(n, v) \<in> set kvs" for n v
  proof -
    have "good_name n" using that assms(1) by (auto simp: list_all_iff)
    then show ?thesis
      using kernel_names.lookup_added [OF fresh_table(1) es assms(1) _ fresh_table(3) assms(2) that]
      by (simp add: find_entry_lookup)
  qed
  then show ?thesis using True es by (auto simp: list_all_iff)
next
  case False
  then show ?thesis
    using kernel_names.add_all_space [of "kt_entries mk_kernel_table" kvs] fresh_table(2) by auto
qed

theorem kernel_table_holds_witness:
  "\<exists>es. kernel_names.add_all (kt_entries mk_kernel_table)
       [(''tk_rope'', \<lparr>ki_entry = 0, ki_valid = True\<rparr>), (''tk_silu'', \<lparr>ki_entry = 9, ki_valid = True\<rparr>)] = Some es
     \<and> find_entry es ''tk_silu'' = \<lparr>ki_entry = 9, ki_valid = True\<rparr>"
  using kernel_table_holds [of "[(''tk_rope'', \<lparr>ki_entry = 0, ki_valid = True\<rparr>),
      (''tk_silu'', \<lparr>ki_entry = 9, ki_valid = True\<rparr>)]"]
  by (auto simp: good_name_def kNameMax_def NUL_def)

text \<open>
  C11: \<open>KernelTable::install\<close> copies the blob to the next free words with the immediates of
  the jumps moved by the entry address, registers the name, returns the entry and leaves the
  registers and the rest of the memory alone.
\<close>

theorem install_places_code:
  assumes "list_all (\<lambda>i. valid_instr i \<and> valid_instr (relocated (kt_next (ks_kt s)) i)) is"
    and "kt_next (ks_kt s) + length is \<le> msize (ks_sim s)" and "msize (ks_sim s) \<le> 2 ^ 31"
    and "kt_next (ks_kt s) < 2 ^ 31"
    and "free_slots (kt_entries (ks_kt s)) \<noteq> 0" and "slots_ok (kt_entries (ks_kt s))"
    and "good_name name" and "lookup_entry (kt_entries (ks_kt s)) name = None"
  shows "\<exists>t. install name (map encode is) s = (Inr \<lparr>ki_entry = kt_next (ks_kt s), ki_valid = True\<rparr>, t)
    \<and> find_kernel (ks_kt t) name = \<lparr>ki_entry = kt_next (ks_kt s), ki_valid = True\<rparr>
    \<and> code_at (ks_sim t) (kt_next (ks_kt s)) (map (relocated (kt_next (ks_kt s))) is)
    \<and> sim_regs (ks_sim t) = sim_regs (ks_sim s) \<and> msize (ks_sim t) = msize (ks_sim s)
    \<and> kt_next (ks_kt t) = kt_next (ks_kt s) + length is
    \<and> (\<forall>a. a < kt_next (ks_kt s) \<or> kt_next (ks_kt s) + length is \<le> a
         \<longrightarrow> mword (ks_sim t) a = mword (ks_sim s) a)"
  by (rule install_code [OF assms])

theorem install_places_code_witness:
  "\<exists>t. install ''loop'' (map encode [\<lparr>op = TJUMP, dst = 0, src1 = 0, src2 = 0, imm = 1\<rparr>])
       \<lparr>ks_sim = mk_sim 8, ks_kt = mk_kernel_table\<lparr>kt_next := 5\<rparr>\<rparr>
       = (Inr \<lparr>ki_entry = 5, ki_valid = True\<rparr>, t)
     \<and> code_at (ks_sim t) 5 [\<lparr>op = TJUMP, dst = 0, src1 = 0, src2 = 0, imm = 6\<rparr>]"
  using install_places_code [of "\<lparr>ks_sim = mk_sim 8, ks_kt = mk_kernel_table\<lparr>kt_next := 5\<rparr>\<rparr>"
      "[\<lparr>op = TJUMP, dst = 0, src1 = 0, src2 = 0, imm = 1\<rparr>]" "''loop''"]
  by (auto simp: valid_instr_def fits_12 relocated_def fresh_table good_name_def kNameMax_def NUL_def)

section \<open>Kernels\<close>

text \<open>
  C6: the matrix kernel computes the dot product: assembled from its source text, installed,
  found by its name and called with the addresses of two vectors and of the result, it stores
  the exact dot product of the 27 loaded lanes at the result address and changes no other
  word.
\<close>

theorem matmul_kernel_dot_product:
  assumes "kt_next (ks_kt s) + 6 \<le> msize (ks_sim s)" and "msize (ks_sim s) \<le> 2 ^ 31"
    and "free_slots (kt_entries (ks_kt s)) \<noteq> 0" and "slots_ok (kt_entries (ks_kt s))"
    and "lookup_entry (kt_entries (ks_kt s)) ''tk_matmul_b_9t'' = None" and "shaped (ks_sim s)"
    and "block_ok (ks_sim s) x" and "block_ok (ks_sim s) w" and "addr_ok (ks_sim s) y"
    and "nat y < kt_next (ks_kt s) \<or> kt_next (ks_kt s) + 6 \<le> nat y"
  shows "\<exists>t ident u. sbind (lift (assemble (text_lines tk_matmul_b_9t))) (install ''tk_matmul_b_9t'') s
      = (Inr ident, t)
    \<and> find_kernel (ks_kt t) ''tk_matmul_b_9t'' = ident
    \<and> call_kernel ident [x, w, y] (ks_sim t) = (Inr x, u)
    \<and> (\<forall>a. mval u a = (if a = nat y then dot27 (load_lanes (ks_sim t) x) (load_lanes (ks_sim t) w)
          else mval (ks_sim t) a))"
proof -
  obtain t where t: "sbind (lift (assemble (text_lines tk_matmul_b_9t))) (install ''tk_matmul_b_9t'') s
      = (Inr \<lparr>ki_entry = kt_next (ks_kt s), ki_valid = True\<rparr>, t)"
    "find_kernel (ks_kt t) ''tk_matmul_b_9t'' = \<lparr>ki_entry = kt_next (ks_kt s), ki_valid = True\<rparr>"
    "code_at (ks_sim t) (kt_next (ks_kt s)) matmul_prog"
    "sim_regs (ks_sim t) = sim_regs (ks_sim s)" "msize (ks_sim t) = msize (ks_sim s)"
    using matmul_installed [OF assms(1-5)] by blast
  have "shaped (ks_sim t)" "block_ok (ks_sim t) x" "block_ok (ks_sim t) w" "addr_ok (ks_sim t) y"
    "msize (ks_sim t) \<le> 2 ^ 31"
    using assms t(4,5) by (simp_all add: shaped_def block_ok_def addr_ok_def)
  from matmul_call [OF t(3) this(1) this(5) this(2-4) assms(10)] t(1,2)
  show ?thesis by blast
qed

theorem matmul_kernel_dot_product_witness:
  "\<exists>(t :: kstate) ident u. call_kernel ident [10, 40, 70] (ks_sim t) = (Inr 10, u)
    \<and> find_kernel (ks_kt t) ''tk_matmul_b_9t'' = ident"
proof -
  let ?k = "\<lparr>ks_sim = mk_sim 100, ks_kt = mk_kernel_table\<rparr>"
  have "kt_next (ks_kt ?k) = 0" by (simp add: mk_kernel_table_def)
  then have h: "kt_next (ks_kt ?k) + 6 \<le> msize (ks_sim ?k)" "msize (ks_sim ?k) \<le> 2 ^ 31"
    "free_slots (kt_entries (ks_kt ?k)) \<noteq> 0" "slots_ok (kt_entries (ks_kt ?k))"
    "lookup_entry (kt_entries (ks_kt ?k)) ''tk_matmul_b_9t'' = None" "shaped (ks_sim ?k)"
    "block_ok (ks_sim ?k) 10" "block_ok (ks_sim ?k) 40" "addr_ok (ks_sim ?k) 70"
    "nat 70 < kt_next (ks_kt ?k) \<or> kt_next (ks_kt ?k) + 6 \<le> nat 70"
    by (simp_all add: fresh_table wf_sim_init block_ok_def addr_ok_def)
  show ?thesis using matmul_kernel_dot_product [OF h] by blast
qed

text \<open>
  C24: the rotary kernel, when its code is in memory, stores the 27 lanes \<open>x * cos + rotx * sin\<close>
  exactly, with no saturation, and changes no word outside the result block.
\<close>

theorem rope_kernel_rotates:
  assumes "code_at s e rope_prog" and "shaped s" and "msize s \<le> 2 ^ 31"
    and "block_ok s x" and "block_ok s c" and "block_ok s sn" and "block_ok s r" and "block_ok s y"
    and "y + 27 \<le> int e \<or> int e + 9 \<le> y"
  shows "assemble (text_lines tk_rope) = Inr (map encode rope_prog)
    \<and> (\<exists>t. call_kernel \<lparr>ki_entry = e, ki_valid = True\<rparr> [x, c, sn, r, y] s = (Inr x, t)
    \<and> (\<forall>k < 27. mval t (nat (y + int k)) = load_lanes s x ! k * load_lanes s c ! k
         + load_lanes s r ! k * load_lanes s sn ! k)
    \<and> (\<forall>a. int a < y \<or> y + 27 \<le> int a \<longrightarrow> mval t a = mval s a))"
  using rope_call [OF assms] assemble_rope by blast

theorem rope_kernel_rotates_witness:
  "\<exists>s t. call_kernel \<lparr>ki_entry = 0, ki_valid = True\<rparr> [10, 40, 10, 40, 70] s = (Inr 10, t)"
proof -
  let ?k = "\<lparr>ks_sim = mk_sim 100, ks_kt = mk_kernel_table\<rparr>"
  have nx: "kt_next (ks_kt ?k) = 0" by (simp add: mk_kernel_table_def)
  have st: "list_all (\<lambda>i. valid_instr i \<and> valid_instr (relocated 0 i)) rope_prog"
    "map (relocated 0) rope_prog = rope_prog" "length rope_prog = 9"
    by (simp_all add: rope_prog_def ins_def valid_instr_def fits_12 relocated_def)
  obtain t :: kstate where t: "code_at (ks_sim t) 0 rope_prog" "sim_regs (ks_sim t) = sim_regs (mk_sim 100)"
    "msize (ks_sim t) = 100"
    using install_code [of ?k rope_prog "''tk_rope''"] st nx
    by (simp add: fresh_table good_name_def kNameMax_def NUL_def) blast
  have "shaped (ks_sim t)" using t(2) wf_sim_shaped [OF wf_sim_init [of 100]] by (simp add: shaped_def)
  then show ?thesis
    using rope_kernel_rotates [OF t(1), of 10 40 10 40 70] t(3) by (auto simp: block_ok_def)
qed

section \<open>The C interface\<close>

text \<open>
  \<open>ter_k4_call\<close> rejects a null handle or name with -1, more than seven arguments with -4
  and a name that is not installed with -2, in that order and without touching the handle.
\<close>

theorem k4_call_rejects:
  "ter_k4_call None name args = (Inr (- 1), None)
   \<and> ter_k4_call (Some s) None args = (Inr (- 1), Some s)
   \<and> (length args \<le> 7 \<or> ter_k4_call (Some s) (Some n) args = (Inr (- 4), Some s))
   \<and> (case lookup_entry (kt_entries (ks_kt s)) n of
        None \<Rightarrow> ter_k4_call (Some s) (Some n) args = (Inr (if length args > 7 then - 4 else - 2), Some s)
      | Some ident \<Rightarrow> True)"
  using k4_call_codes
  by (auto simp: find_kernel_def find_entry_lookup no_kernel_def not_less split: option.splits)

text \<open>
  C30: through the C interface, a call of the installed matrix kernel returns 0, leaves the dot
  product in memory, and the counter snapshot grows by six instructions, one of them a
  \<open>TVMAC\<close>; after a reset every counter reads zero.
\<close>

theorem k4_matmul_call:
  assumes "find_kernel (ks_kt s) n = \<lparr>ki_entry = e, ki_valid = True\<rparr>"
    and "code_at (ks_sim s) e matmul_prog" and "shaped (ks_sim s)" and "msize (ks_sim s) \<le> 2 ^ 31"
    and "block_ok (ks_sim s) x" and "block_ok (ks_sim s) w" and "addr_ok (ks_sim s) y"
    and "nat y < e \<or> e + 6 \<le> nat y" and "ter_k4_op_counts (Some s) (Some out) = Some before"
  shows "\<exists>t after. ter_k4_call (Some s) (Some n) [x, w, y] = (Inr 0, Some t)
    \<and> mval (ks_sim t) (nat y) = dot27 (load_lanes (ks_sim s) x) (load_lanes (ks_sim s) w)
    \<and> ter_k4_op_counts (Some t) (Some before) = Some after
    \<and> k4_total_ops after = k4_total_ops before + 6 \<and> k4_tvmac after = k4_tvmac before + 1
    \<and> k4_tvmul after = k4_tvmul before
    \<and> ter_k4_op_counts (ter_k4_reset_counters (Some t)) (Some after)
        = Some \<lparr>k4_total_ops = 0, k4_tvmac = 0, k4_tvadd = 0, k4_tvsub = 0, k4_tvmul = 0\<rparr>"
proof -
  obtain u where u: "call_kernel \<lparr>ki_entry = e, ki_valid = True\<rparr> [x, w, y] (ks_sim s) = (Inr x, u)"
    "mval u (nat y) = dot27 (load_lanes (ks_sim s) x) (load_lanes (ks_sim s) w)"
    "sim_counters u = foldl (\<lambda>c i. bump (op i) c) (sim_counters (ks_sim s)) matmul_prog"
    using matmul_call [OF assms(2-8)] by auto
  let ?t = "s\<lparr>ks_sim := u\<rparr>"
  have "ter_k4_call (Some s) (Some n) [x, w, y] = (Inr 0, Some ?t)"
    by (rule k4_call_run [OF _ assms(1) _ u(1)]) simp_all
  moreover obtain a where "ter_k4_op_counts (Some ?t) (Some before) = Some a"
    "k4_total_ops a = k4_total_ops before + 6" "k4_tvmac a = k4_tvmac before + 1"
    "k4_tvmul a = k4_tvmul before"
    using assms(9) by (auto simp: ter_k4_op_counts_def u(3) matmul_counts Let_def)
  ultimately show ?thesis using u(2) k4_reset_counts [of ?t a] by (intro exI [of _ ?t] exI [of _ a]) simp
qed

theorem k4_matmul_call_witness:
  "\<exists>s t. ter_k4_call (Some s) (Some ''tk_matmul_b_9t'') [10, 40, 70] = (Inr 0, Some t)"
proof -
  obtain s where s: "ter_k4_create True 100 = Some s" by (simp add: ter_k4_create_def)
  note f = fresh_handle [OF s]
  obtain t :: kstate where t: "find_kernel (ks_kt t) ''tk_matmul_b_9t'' = \<lparr>ki_entry = 0, ki_valid = True\<rparr>"
    "code_at (ks_sim t) 0 matmul_prog" "sim_regs (ks_sim t) = sim_regs (ks_sim s)" "msize (ks_sim t) = 100"
    using k4_install_matmul [of s] f by auto
  have "shaped (ks_sim t)" using t(3) f by (simp add: shaped_def)
  moreover obtain b where "ter_k4_op_counts (Some t) (Some out) = Some b" for out
    by (simp add: ter_k4_op_counts_def Let_def)
  ultimately show ?thesis
    using k4_matmul_call [OF t(1,2), of 10 40 70] t(4) by (auto simp: block_ok_def addr_ok_def)
qed

end
