(* ===== verification/TerCache.thy ===== *)
theory TerCache
  imports TerPrelude
begin

text \<open>
  The cache hierarchy of the cycle model (\<open>v2/src/layer1/cache.cpp\<close>,
  \<open>v2/include/tersim/cache_model.hpp\<close>): a set-associative cache that keeps tags and ages
  only, and a two-level hierarchy whose misses occupy a bounded number of miss-status
  registers. Counters are \<open>uint64_t\<close> words; ages and cycles are naturals reduced modulo
  \<open>2^64\<close> where the source adds. The main lemmas: the cache is a strict LRU cache (a simulation
  by lists of tags in order of recency), and the hierarchy conserves accesses and bounds its
  outstanding misses.
\<close>

section \<open>The cache\<close>

record cache_config =
  cc_total_bytes :: nat
  cc_line_bytes :: nat
  cc_ways :: int
  cc_hit_latency :: int

record cache_stats =
  cs_hits :: "64 word"
  cs_misses :: "64 word"
  cs_accesses :: "64 word"

record way =
  w_tag :: nat
  w_age :: nat
  w_valid :: bool

record cache =
  ca_cfg :: cache_config
  ca_sets :: nat
  ca_ways :: int
  ca_tags :: "way list"
  ca_age :: nat
  ca_stats :: cache_stats

definition mk_way :: way where
  "mk_way = \<lparr>w_tag = 0, w_age = 0, w_valid = False\<rparr>"

definition no_stats :: cache_stats where
  "no_stats = \<lparr>cs_hits = 0, cs_misses = 0, cs_accesses = 0\<rparr>"

definition mk_cache :: "cache_config \<Rightarrow> cache res" where
  "mk_cache cfg =
     (let row = u64 (cc_line_bytes cfg * to_size (cc_ways cfg))
      in if row = 0 then Inl (DivisionByZero ''Cache::Cache'')
         else let sets = cc_total_bytes cfg div row
              in if sets = 0 then Inl (AssertFailed ''cache geometry: total_bytes / (line_bytes * ways) == 0'')
                 else if cc_line_bytes cfg = 0 then Inl (AssertFailed ''cfg.line_bytes > 0'')
                 else Inr \<lparr>ca_cfg = cfg, ca_sets = sets, ca_ways = cc_ways cfg,
                        ca_tags = replicate (u64 (sets * to_size (cc_ways cfg))) mk_way,
                        ca_age = 0, ca_stats = no_stats\<rparr>)"

text \<open>The scan for a hit, and the scan for the way to evict.\<close>

definition find_way :: "way list \<Rightarrow> nat \<Rightarrow> nat \<Rightarrow> int \<Rightarrow> nat option" where
  "find_way tags base tag ways =
     List.find (\<lambda>w. w_valid (tags ! (base + w)) \<and> w_tag (tags ! (base + w)) = tag) [0..<nat ways]"

fun victim_loop :: "way list \<Rightarrow> nat \<Rightarrow> nat \<Rightarrow> nat list \<Rightarrow> nat" where
  "victim_loop tags base victim [] = victim"
| "victim_loop tags base victim (w # ws) =
     (if \<not> w_valid (tags ! (base + w)) then w
      else victim_loop tags base
        (if w_age (tags ! (base + w)) < w_age (tags ! (base + victim)) then w else victim) ws)"

definition cache_access :: "64 word \<Rightarrow> cache \<Rightarrow> bool \<times> cache" where
  "cache_access byte_addr c =
     (let line_no = unat byte_addr div cc_line_bytes (ca_cfg c);
          set_idx = line_no mod ca_sets c;
          tag = line_no div ca_sets c;
          st = (ca_stats c)\<lparr>cs_accesses := cs_accesses (ca_stats c) + 1\<rparr>;
          base = u64 (set_idx * to_size (ca_ways c));
          age = u64 (ca_age c + 1)
      in case find_way (ca_tags c) base tag (ca_ways c) of
           Some w \<Rightarrow>
             (True, c\<lparr>ca_tags := (ca_tags c)[base + w := (ca_tags c ! (base + w))\<lparr>w_age := age\<rparr>],
                ca_age := age, ca_stats := st\<lparr>cs_hits := cs_hits st + 1\<rparr>\<rparr>)
         | None \<Rightarrow>
             (let victim = victim_loop (ca_tags c) base 0 [0..<nat (ca_ways c)]
              in (False, c\<lparr>ca_tags := (ca_tags c)[base + victim := \<lparr>w_tag = tag, w_age = age, w_valid = True\<rparr>],
                   ca_age := age, ca_stats := st\<lparr>cs_misses := cs_misses st + 1\<rparr>\<rparr>)))"

definition hit_latency :: "cache \<Rightarrow> int" where
  "hit_latency c = cc_hit_latency (ca_cfg c)"

section \<open>What a level counts\<close>

text \<open>
  The interface a level offers to the hierarchy: one access at a time, with counters that
  split the accesses into hits and misses.
\<close>

locale counting_level =
  fixes touch :: "64 word \<Rightarrow> 'c \<Rightarrow> bool \<times> 'c" and stats :: "'c \<Rightarrow> cache_stats"
  assumes counts: "touch a c = (h, c') \<Longrightarrow>
      cs_accesses (stats c') = cs_accesses (stats c) + 1
      \<and> cs_hits (stats c') = cs_hits (stats c) + (if h then 1 else 0)
      \<and> cs_misses (stats c') = cs_misses (stats c) + (if h then 0 else 1)"
begin

fun touch_all :: "64 word list \<Rightarrow> 'c \<Rightarrow> bool list \<times> 'c" where
  "touch_all [] c = ([], c)"
| "touch_all (a # as) c =
     (case touch a c of (h, c1) \<Rightarrow> (case touch_all as c1 of (hs, c2) \<Rightarrow> (h # hs, c2)))"

lemma touch_all_counts:
  "touch_all as c = (hs, c') \<Longrightarrow>
   cs_accesses (stats c') = cs_accesses (stats c) + of_nat (length as)
   \<and> cs_hits (stats c') = cs_hits (stats c) + of_nat (length (filter id hs))
   \<and> cs_misses (stats c') = cs_misses (stats c) + of_nat (length (filter Not hs))"
proof (induction as arbitrary: c hs)
  case (Cons a as)
  obtain h c1 where t: "touch a c = (h, c1)" by (cases "touch a c")
  obtain hs1 c2 where r: "touch_all as c1 = (hs1, c2)" by (cases "touch_all as c1")
  have hs: "hs = h # hs1" and c2: "c2 = c'" using Cons.prems t r by simp_all
  show ?case using counts [OF t] Cons.IH [OF r [unfolded c2]] by (simp add: hs algebra_simps)
qed simp

lemma conserved:
  "touch a c = (h, c') \<Longrightarrow>
   cs_hits (stats c) + cs_misses (stats c) = cs_accesses (stats c) \<Longrightarrow>
   cs_hits (stats c') + cs_misses (stats c') = cs_accesses (stats c')"
  using counts [of a c h c'] by (auto simp: algebra_simps)

end

interpretation level: counting_level cache_access ca_stats
  by unfold_locales (auto simp: cache_access_def Let_def split: option.splits)

section \<open>Strict LRU\<close>

text \<open>
  The order of recency of a set: the ways in use, most recently used first. The relation
  \<open>recent\<close> says that a list of way indices is that order for a row of ways.
\<close>

definition recent :: "(nat \<Rightarrow> way) \<Rightarrow> nat \<Rightarrow> nat list \<Rightarrow> bool" where
  "recent f n ws \<longleftrightarrow> distinct ws \<and> set ws = {w. w < n \<and> w_valid (f w)}
     \<and> sorted_wrt (\<lambda>i j. w_age (f j) < w_age (f i)) ws \<and> distinct (map (\<lambda>w. w_tag (f w)) ws)"

text \<open>The specification: a list of at most \<open>n\<close> tags, the last one is evicted.\<close>

definition lru_touch :: "nat \<Rightarrow> nat \<Rightarrow> nat list \<Rightarrow> nat list" where
  "lru_touch n tag l =
     (if tag \<in> set l then tag # remove1 tag l else tag # (if length l < n then l else butlast l))"

lemma lru_touch_ok:
  "distinct l \<Longrightarrow> length l \<le> n \<Longrightarrow> 0 < n \<Longrightarrow>
   distinct (lru_touch n tag l) \<and> length (lru_touch n tag l) \<le> n \<and> hd (lru_touch n tag l) = tag"
  by (auto simp: lru_touch_def distinct_remove1 length_remove1 distinct_butlast dest: in_set_butlastD)

lemma recent_length: "recent f n ws \<Longrightarrow> length ws \<le> n"
proof -
  assume "recent f n ws"
  then have "set ws \<subseteq> {..<n}" "distinct ws" by (auto simp: recent_def)
  then show ?thesis using card_mono [of "{..<n}" "set ws"] by (simp add: distinct_card)
qed

lemma sorted_wrt_remove1: "sorted_wrt P xs \<Longrightarrow> sorted_wrt P (remove1 x xs)"
  by (induction xs) (auto dest: notin_set_remove1)

lemma sorted_wrt_cong_on:
  "(\<And>x y. x \<in> set xs \<Longrightarrow> y \<in> set xs \<Longrightarrow> P x y \<longleftrightarrow> Q x y) \<Longrightarrow> sorted_wrt P xs \<longleftrightarrow> sorted_wrt Q xs"
  by (induction xs) auto

lemma map_remove1_inj:
  "distinct (map g xs) \<Longrightarrow> x \<in> set xs \<Longrightarrow> map g (remove1 x xs) = remove1 (g x) (map g xs)"
proof (induction xs)
  case (Cons a xs)
  then have "x \<noteq> a \<Longrightarrow> g x \<noteq> g a" by (metis distinct.simps(2) image_eqI list.set_map list.simps(9) set_ConsD)
  then show ?case using Cons by auto
qed simp

lemma recent_cong: "(\<And>w. w < n \<Longrightarrow> f w = g w) \<Longrightarrow> recent f n ws \<longleftrightarrow> recent g n ws"
proof -
  assume e: "\<And>w. w < n \<Longrightarrow> f w = g w"
  then have s: "{w. w < n \<and> w_valid (f w)} = {w. w < n \<and> w_valid (g w)}" by auto
  show ?thesis
  proof (cases "set ws = {w. w < n \<and> w_valid (g w)}")
    case True
    then have in_n: "\<forall>w \<in> set ws. f w = g w" using e by auto
    have "map (\<lambda>w. w_tag (f w)) ws = map (\<lambda>w. w_tag (g w)) ws" using in_n by (intro map_cong) auto
    moreover have "sorted_wrt (\<lambda>i j. w_age (f j) < w_age (f i)) ws \<longleftrightarrow> sorted_wrt (\<lambda>i j. w_age (g j) < w_age (g i)) ws"
      using in_n by (intro sorted_wrt_cong_on) auto
    ultimately show ?thesis unfolding recent_def s by (simp only:)
  qed (simp add: recent_def s)
qed

text \<open>A way is stamped with a new age: it becomes the most recent one.\<close>

lemma recent_stamp:
  assumes r: "recent f n ws" and v: "v < n" and ages: "\<forall>w \<in> set ws. w_age (f w) < a"
    and fresh: "\<forall>w \<in> set ws - {v}. w_tag (f w) \<noteq> t"
  shows "recent (f(v := \<lparr>w_tag = t, w_age = a, w_valid = True\<rparr>)) n (v # remove1 v ws)"
proof -
  let ?f = "f(v := \<lparr>w_tag = t, w_age = a, w_valid = True\<rparr>)"
  have d: "distinct ws" using r by (simp add: recent_def)
  have rest: "set (remove1 v ws) = set ws - {v}" using d by simp
  have "sorted_wrt (\<lambda>i j. w_age (f j) < w_age (f i)) (remove1 v ws)"
    using r by (simp add: recent_def sorted_wrt_remove1)
  then have "sorted_wrt (\<lambda>i j. w_age (?f j) < w_age (?f i)) (remove1 v ws)"
    using rest by (subst sorted_wrt_cong_on [where Q = "\<lambda>i j. w_age (f j) < w_age (f i)"]) auto
  moreover have "\<forall>w \<in> set (remove1 v ws). w_age (?f w) < w_age (?f v)"
    using rest ages by auto
  moreover have "distinct (map (\<lambda>w. w_tag (?f w)) (remove1 v ws))"
  proof -
    have "map (\<lambda>w. w_tag (?f w)) (remove1 v ws) = map (\<lambda>w. w_tag (f w)) (remove1 v ws)"
      using rest by (intro map_cong) auto
    moreover have "distinct (map (\<lambda>w. w_tag (f w)) (remove1 v ws))"
      using r by (auto simp: recent_def distinct_map distinct_remove1 intro: inj_on_subset dest: notin_set_remove1)
    ultimately show ?thesis by (simp only:)
  qed
  moreover have "t \<notin> (\<lambda>w. w_tag (?f w)) ` set (remove1 v ws)"
    using rest fresh by auto
  moreover have "set (v # remove1 v ws) = {w. w < n \<and> w_valid (?f w)}"
    using r v rest by (auto simp: recent_def)
  ultimately show ?thesis using d by (simp add: recent_def distinct_remove1)
qed

text \<open>The two scans.\<close>

lemma find_way_recent:
  assumes "recent (\<lambda>w. tags ! (base + w)) (nat ways) ws"
  shows "find_way tags base tag ways = None \<longleftrightarrow> tag \<notin> (\<lambda>w. w_tag (tags ! (base + w))) ` set ws"
    and "find_way tags base tag ways = Some w \<Longrightarrow> w \<in> set ws \<and> w_tag (tags ! (base + w)) = tag"
  using assms by (auto simp: find_way_def find_None_iff find_Some_iff recent_def)

lemma victim_loop_invalid:
  "\<exists>w \<in> set ws. \<not> w_valid (tags ! (base + w)) \<Longrightarrow>
   victim_loop tags base v ws \<in> set ws \<and> \<not> w_valid (tags ! (base + victim_loop tags base v ws))"
  by (induction tags base v ws rule: victim_loop.induct) auto

lemma victim_loop_oldest:
  "\<forall>w \<in> set ws. w_valid (tags ! (base + w)) \<Longrightarrow>
   victim_loop tags base v ws \<in> insert v (set ws)
   \<and> (\<forall>w \<in> insert v (set ws). w_age (tags ! (base + victim_loop tags base v ws)) \<le> w_age (tags ! (base + w)))"
  by (induction tags base v ws rule: victim_loop.induct) fastforce+

lemma last_oldest:
  assumes "sorted_wrt (\<lambda>i j. w_age (f j) < w_age (f i)) ws" and "ws \<noteq> []" and "v \<in> set ws"
    and "\<forall>w \<in> set ws. w_age (f v) \<le> w_age (f w)"
  shows "v = last ws"
proof (rule ccontr)
  assume "v \<noteq> last ws"
  then have "v \<in> set (butlast ws)" using assms(2,3) by (metis append_butlast_last_id in_set_butlastD in_set_conv_decomp set_ConsD Un_iff set_append empty_iff list.set(1))
  moreover have "sorted_wrt (\<lambda>i j. w_age (f j) < w_age (f i)) (butlast ws @ [last ws])"
    using assms(1,2) by simp
  ultimately have "w_age (f (last ws)) < w_age (f v)" by (simp add: sorted_wrt_append)
  then show False using assms(2,4) by (auto simp: not_less [symmetric])
qed

lemma victim_recent:
  assumes r: "recent (\<lambda>w. tags ! (base + w)) n ws" and n: "0 < n"
  shows "let v = victim_loop tags base 0 [0..<n] in
    v < n \<and> (if length ws < n then v \<notin> set ws else v = last ws)"
proof (cases "length ws < n")
  case True
  have "\<exists>w < n. w \<notin> set ws"
  proof (rule ccontr)
    assume "\<not> (\<exists>w < n. w \<notin> set ws)"
    then have "{..<n} \<subseteq> set ws" by auto
    then have "n \<le> length ws" using card_mono [of "set ws" "{..<n}"] card_length [of ws] by simp
    then show False using True by simp
  qed
  then have "\<exists>w \<in> set [0..<n]. \<not> w_valid (tags ! (base + w))" using r by (auto simp: recent_def)
  from victim_loop_invalid [OF this, of 0] show ?thesis using True r by (auto simp: recent_def Let_def)
next
  case False
  have "set ws \<subseteq> {..<n}" using r by (auto simp: recent_def)
  moreover have "distinct ws" using r by (simp add: recent_def)
  then have "card (set ws) = n" using False recent_length [OF r] by (simp add: distinct_card)
  ultimately have all: "set ws = {..<n}" by (intro card_subset_eq) simp_all
  have upt: "set [0..<n] = set ws" by (simp only: all set_upt lessThan_atLeast0)
  have "\<And>w. w \<in> set ws \<Longrightarrow> w_valid (tags ! (base + w))" using r by (simp add: recent_def)
  then have valid: "\<forall>w \<in> set [0..<n]. w_valid (tags ! (base + w))" unfolding upt by blast
  let ?v = "victim_loop tags base 0 [0..<n]"
  have z: "0 \<in> set ws" using n by (simp only: all lessThan_iff)
  then have ne: "ws \<noteq> []" by (cases ws) simp_all
  have "insert 0 (set [0..<n]) = set ws" using z by (simp only: upt insert_absorb)
  then have v: "?v \<in> set ws" "\<forall>w \<in> set ws. w_age (tags ! (base + ?v)) \<le> w_age (tags ! (base + w))"
    using victim_loop_oldest [OF valid, of 0] by simp_all
  have "sorted_wrt (\<lambda>i j. w_age (tags ! (base + j)) < w_age (tags ! (base + i))) ws"
    using r by (simp add: recent_def)
  then have "?v = last ws" using ne v by (rule last_oldest)
  moreover have "?v < n" using v(1) all by simp
  ultimately show ?thesis using False by simp
qed

section \<open>The simulation\<close>

definition ways_n :: "cache \<Rightarrow> nat" where
  "ways_n c = nat (ca_ways c)"

definition set_of :: "cache \<Rightarrow> 64 word \<Rightarrow> nat" where
  "set_of c a = (unat a div cc_line_bytes (ca_cfg c)) mod ca_sets c"

definition tag_of :: "cache \<Rightarrow> 64 word \<Rightarrow> nat" where
  "tag_of c a = (unat a div cc_line_bytes (ca_cfg c)) div ca_sets c"

definition wf_cache :: "cache \<Rightarrow> bool" where
  "wf_cache c \<longleftrightarrow> 0 < ca_ways c \<and> in_i32 (ca_ways c) \<and> 0 < ca_sets c
     \<and> length (ca_tags c) = ca_sets c * ways_n c \<and> length (ca_tags c) < 2 ^ 64
     \<and> list_all (\<lambda>w. w_age w \<le> ca_age c) (ca_tags c)"

definition row :: "cache \<Rightarrow> nat \<Rightarrow> nat \<Rightarrow> way" where
  "row c s w = ca_tags c ! (s * ways_n c + w)"

text \<open>\<open>L s\<close> lists the tags of set \<open>s\<close> in order of recency.\<close>

definition lru_state :: "cache \<Rightarrow> (nat \<Rightarrow> nat list) \<Rightarrow> bool" where
  "lru_state c L \<longleftrightarrow>
     (\<forall>s < ca_sets c. \<exists>ws. recent (row c s) (ways_n c) ws \<and> L s = map (\<lambda>w. w_tag (row c s w)) ws)"

lemma set_of_less: "wf_cache c \<Longrightarrow> set_of c a < ca_sets c"
  by (simp add: set_of_def wf_cache_def)

lemma cell_less: "wf_cache c \<Longrightarrow> s < ca_sets c \<Longrightarrow> w < ways_n c \<Longrightarrow> s * ways_n c + w < length (ca_tags c)"
  by (simp add: wf_cache_def) (metis Suc_leI add.commute add_less_mono1 le_add2 less_le_trans mult_Suc mult_le_mono1 order_less_le_trans nat_add_left_cancel_less)

lemma base_eq: "wf_cache c \<Longrightarrow> u64 (set_of c a * to_size (ca_ways c)) = set_of c a * ways_n c"
proof -
  assume w: "wf_cache c"
  then have "to_size (ca_ways c) = ways_n c"
    by (simp add: to_size_id wf_cache_def ways_n_def in_i32_def)
  moreover have "set_of c a * ways_n c + 0 < length (ca_tags c)"
    using w by (intro cell_less set_of_less) (simp_all add: wf_cache_def ways_n_def)
  then have "set_of c a * ways_n c < 2 ^ 64" using w unfolding wf_cache_def by linarith
  ultimately show ?thesis by (simp only: u64_id)
qed

lemma cell_inj:
  "v < n \<Longrightarrow> w < (n :: nat) \<Longrightarrow> s * n + v = s' * n + w \<longleftrightarrow> s = s' \<and> v = w"
  by (metis add.commute div_mult_self1 div_less mod_mult_self1 mod_less less_nat_zero_code add_0)

text \<open>Stamping one way of a set: that set becomes the touched one, the other sets stay.\<close>

lemma lru_state_stamp:
  assumes wf: "wf_cache c" and L: "lru_state c L" and s: "s < ca_sets c" and v: "v < ways_n c"
    and r: "recent (row c s) (ways_n c) ws" and tags: "L s = map (\<lambda>w. w_tag (row c s w)) ws"
    and fresh: "\<forall>w \<in> set ws - {v}. w_tag (row c s w) \<noteq> t"
    and c': "c' = c\<lparr>ca_tags := (ca_tags c)[s * ways_n c + v := \<lparr>w_tag = t, w_age = ca_age c + 1, w_valid = True\<rparr>],
       ca_age := ca_age c + 1, ca_stats := st\<rparr>"
  shows "wf_cache c'"
    and "lru_state c' (L(s := t # map (\<lambda>w. w_tag (row c s w)) (remove1 v ws)))"
proof -
  have n: "ways_n c' = ways_n c" by (simp add: c' ways_n_def)
  have cell: "s * ways_n c + v < length (ca_tags c)" by (rule cell_less [OF wf s v])
  have "list_all (\<lambda>w. w_age w \<le> ca_age c + 1) (ca_tags c)"
    using wf by (auto simp: wf_cache_def list_all_iff)
  then have "list_all (\<lambda>w. w_age w \<le> ca_age c + 1)
      ((ca_tags c)[s * ways_n c + v := \<lparr>w_tag = t, w_age = ca_age c + 1, w_valid = True\<rparr>])"
    by (rule list_all_update) simp
  then show "wf_cache c'" using wf by (simp add: wf_cache_def n) (simp add: c' n [unfolded c'])
  have row': "row c' x w = (if x = s \<and> w = v then \<lparr>w_tag = t, w_age = ca_age c + 1, w_valid = True\<rparr> else row c x w)"
    if "w < ways_n c" for x w
    using cell cell_inj [OF that v, of x s] by (auto simp: row_def n) (auto simp: c' nth_list_update)
  have ages: "\<forall>w \<in> set ws. w_age (row c s w) < ca_age c + 1"
    using r wf cell_less [OF wf s] by (auto simp: recent_def row_def wf_cache_def list_all_length less_Suc_eq_le)
  have stamped: "recent ((row c s)(v := \<lparr>w_tag = t, w_age = ca_age c + 1, w_valid = True\<rparr>)) (ways_n c) (v # remove1 v ws)"
    by (rule recent_stamp [OF r v ages fresh])
  show "lru_state c' (L(s := t # map (\<lambda>w. w_tag (row c s w)) (remove1 v ws)))"
    unfolding lru_state_def n
  proof (intro allI impI)
    fix x assume "x < ca_sets c'"
    then have x: "x < ca_sets c" by (simp add: c')
    have sub: "set ws \<subseteq> {..<ways_n c}" using r by (auto simp: recent_def)
    show "\<exists>us. recent (row c' x) (ways_n c) us
        \<and> (L(s := t # map (\<lambda>w. w_tag (row c s w)) (remove1 v ws))) x = map (\<lambda>w. w_tag (row c' x w)) us"
    proof (cases "x = s")
      case True
      have d: "distinct ws" using r by (simp add: recent_def)
      have eq: "row c' s w = ((row c s)(v := \<lparr>w_tag = t, w_age = ca_age c + 1, w_valid = True\<rparr>)) w"
        if "w < ways_n c" for w using row' [OF that, of s] by simp
      have "recent (row c' s) (ways_n c) (v # remove1 v ws)"
        using stamped eq by (simp only: recent_cong [of "ways_n c" "row c' s"])
      moreover have "map (\<lambda>w. w_tag (row c' s w)) (v # remove1 v ws)
          = t # map (\<lambda>w. w_tag (row c s w)) (remove1 v ws)"
      proof -
        have "w_tag (row c' s w) = w_tag (row c s w)" if "w \<in> set (remove1 v ws)" for w
          using that sub d row' [of w s] by auto
        then show ?thesis using row' [OF v, of s] by simp
      qed
      ultimately show ?thesis using True by (intro exI [of _ "v # remove1 v ws"]) simp
    next
      case False
      obtain us where us: "recent (row c x) (ways_n c) us" "L x = map (\<lambda>w. w_tag (row c x w)) us"
        using L x by (auto simp: lru_state_def)
      have "set us \<subseteq> {..<ways_n c}" using us(1) by (auto simp: recent_def)
      then have "w \<in> set us \<Longrightarrow> row c' x w = row c x w" for w using row' [of w x] False by auto
      then have "map (\<lambda>w. w_tag (row c' x w)) us = map (\<lambda>w. w_tag (row c x w)) us" by simp
      moreover have "recent (row c' x) (ways_n c) us"
        using us(1) recent_cong [of "ways_n c" "row c' x" "row c x" us] row' [of _ x] False by simp
      ultimately show ?thesis using us(2) False by auto
    qed
  qed
qed

lemma last_remove1: "distinct ws \<Longrightarrow> ws \<noteq> [] \<Longrightarrow> remove1 (last ws) ws = butlast ws"
  by (induction ws rule: rev_induct) (simp_all add: remove1_append)

lemma cache_access_sim:
  assumes wf: "wf_cache c" and L: "lru_state c L" and age: "ca_age c + 1 < 2 ^ 64"
    and acc: "cache_access a c = (h, c')"
  shows "h \<longleftrightarrow> tag_of c a \<in> set (L (set_of c a))"
    and "wf_cache c'"
    and "lru_state c' (L(set_of c a := lru_touch (ways_n c) (tag_of c a) (L (set_of c a))))"
    and "ca_age c' = ca_age c + 1 \<and> ca_cfg c' = ca_cfg c \<and> ca_sets c' = ca_sets c \<and> ca_ways c' = ca_ways c"
proof -
  let ?s = "set_of c a" and ?t = "tag_of c a" and ?n = "ways_n c"
  let ?b = "?s * ?n"
  have s: "?s < ca_sets c" using wf by (rule set_of_less)
  have n0: "0 < ?n" using wf by (simp add: wf_cache_def ways_n_def)
  obtain ws where r: "recent (row c ?s) ?n ws" and tags: "L ?s = map (\<lambda>w. w_tag (row c ?s w)) ws"
    using L s by (auto simp: lru_state_def)
  have r': "recent (\<lambda>w. ca_tags c ! (?b + w)) ?n ws" using r by (simp add: row_def [abs_def])
  have d: "distinct ws" and dt: "distinct (map (\<lambda>w. w_tag (row c ?s w)) ws)"
    using r by (simp_all add: recent_def)
  have L_set: "set (L ?s) = (\<lambda>w. w_tag (row c ?s w)) ` set ws" by (simp add: tags)
  define st where "st = ca_stats c'"
  note unf = cache_access_def Let_def set_of_def [symmetric] tag_of_def [symmetric] base_eq [OF wf]
    u64_id [OF age] u64_id [OF age, simplified] ways_n_def [symmetric]
  have find: "find_way (ca_tags c) ?b ?t (ca_ways c) = None \<longleftrightarrow> ?t \<notin> set (L ?s)"
    "\<And>w. find_way (ca_tags c) ?b ?t (ca_ways c) = Some w \<Longrightarrow> w \<in> set ws \<and> w_tag (row c ?s w) = ?t"
    using find_way_recent [of "ca_tags c" ?b "ca_ways c" ws ?t] r' by (auto simp: ways_n_def row_def L_set)
  have goal: "(h \<longleftrightarrow> ?t \<in> set (L ?s)) \<and> wf_cache c' \<and> lru_state c' (L(?s := lru_touch ?n ?t (L ?s)))
    \<and> ca_age c' = ca_age c + 1 \<and> ca_cfg c' = ca_cfg c \<and> ca_sets c' = ca_sets c \<and> ca_ways c' = ca_ways c"
  proof (cases "find_way (ca_tags c) ?b ?t (ca_ways c)")
    case (Some v)
    have v: "v \<in> set ws" "w_tag (row c ?s v) = ?t" using find(2) [OF Some] by simp_all
    have vn: "v < ?n" and valid: "w_valid (row c ?s v)" using v(1) r by (auto simp: recent_def)
    have cell: "(ca_tags c ! (?b + v))\<lparr>w_age := ca_age c + 1\<rparr> = \<lparr>w_tag = ?t, w_age = ca_age c + 1, w_valid = True\<rparr>"
      using v(2) valid by (cases "ca_tags c ! (?b + v)") (simp add: row_def)
    have c': "c' = c\<lparr>ca_tags := (ca_tags c)[?b + v := \<lparr>w_tag = ?t, w_age = ca_age c + 1, w_valid = True\<rparr>],
        ca_age := ca_age c + 1, ca_stats := st\<rparr>" and h: "h"
      using acc Some unfolding st_def by (auto simp: unf cell cell [simplified])
    have fresh: "\<forall>w \<in> set ws - {v}. w_tag (row c ?s w) \<noteq> ?t"
      using dt v by (auto simp: distinct_map inj_on_def)
    have hit: "?t \<in> set (L ?s)" unfolding L_set using v by (metis image_eqI)
    then have "?t # map (\<lambda>w. w_tag (row c ?s w)) (remove1 v ws) = lru_touch ?n ?t (L ?s)"
      using map_remove1_inj [OF dt v(1)] v(2) unfolding lru_touch_def by (simp only: tags if_True)
    with hit show ?thesis
      using lru_state_stamp [OF wf L s vn r tags fresh c'] h by (simp add: c')
  next
    case None
    let ?v = "victim_loop (ca_tags c) ?b 0 [0..<?n]"
    have miss: "?t \<notin> set (L ?s)" using find(1) None by simp
    have vic: "?v < ?n" "if length ws < ?n then ?v \<notin> set ws else ?v = last ws"
      using victim_recent [OF r' n0] by (simp_all add: Let_def)
    have c': "c' = c\<lparr>ca_tags := (ca_tags c)[?b + ?v := \<lparr>w_tag = ?t, w_age = ca_age c + 1, w_valid = True\<rparr>],
        ca_age := ca_age c + 1, ca_stats := st\<rparr>" and h: "\<not> h"
      using acc None unfolding st_def by (auto simp: unf)
    have fresh: "\<forall>w \<in> set ws - {?v}. w_tag (row c ?s w) \<noteq> ?t"
      using miss unfolding L_set by (metis DiffD1 image_eqI)
    have "map (\<lambda>w. w_tag (row c ?s w)) (remove1 ?v ws) = (if length (L ?s) < ?n then L ?s else butlast (L ?s))"
    proof (cases "length ws < ?n")
      case True
      then show ?thesis using vic(2) by (simp add: tags remove1_idem)
    next
      case False
      then have "ws \<noteq> []" using n0 by auto
      then show ?thesis using vic(2) False last_remove1 [OF d] by (simp add: tags map_butlast)
    qed
    then have "?t # map (\<lambda>w. w_tag (row c ?s w)) (remove1 ?v ws) = lru_touch ?n ?t (L ?s)"
      using miss by (simp add: lru_touch_def)
    then show ?thesis
      using lru_state_stamp [OF wf L s vic(1) r tags fresh c'] h miss by (simp add: c')
  qed
  then show "h \<longleftrightarrow> ?t \<in> set (L ?s)" "wf_cache c'"
    "lru_state c' (L(?s := lru_touch ?n ?t (L ?s)))"
    "ca_age c' = ca_age c + 1 \<and> ca_cfg c' = ca_cfg c \<and> ca_sets c' = ca_sets c \<and> ca_ways c' = ca_ways c"
    by blast+
qed

text \<open>The hits of a whole trace, predicted by the lists alone.\<close>

fun lru_trace :: "(64 word \<Rightarrow> nat) \<Rightarrow> (64 word \<Rightarrow> nat) \<Rightarrow> nat \<Rightarrow> (nat \<Rightarrow> nat list) \<Rightarrow> 64 word list \<Rightarrow> bool list" where
  "lru_trace si tg n L [] = []"
| "lru_trace si tg n L (a # as) =
     (tg a \<in> set (L (si a))) # lru_trace si tg n (L(si a := lru_touch n (tg a) (L (si a)))) as"

lemma cache_trace_sim:
  "wf_cache c \<Longrightarrow> lru_state c L \<Longrightarrow> ca_age c + length as < 2 ^ 64 \<Longrightarrow>
   fst (level.touch_all as c) = lru_trace (set_of c) (tag_of c) (ways_n c) L as"
proof (induction as arbitrary: c L)
  case (Cons a as)
  obtain h c1 where t: "cache_access a c = (h, c1)" by (cases "cache_access a c")
  have age: "ca_age c + 1 < 2 ^ 64" using Cons.prems(3) by simp
  note sim = cache_access_sim [OF Cons.prems(1,2) age t]
  have same: "set_of c1 = set_of c" "tag_of c1 = tag_of c" "ways_n c1 = ways_n c"
    using sim(4) by (simp_all add: set_of_def [abs_def] tag_of_def [abs_def] ways_n_def)
  have "fst (level.touch_all as c1)
      = lru_trace (set_of c) (tag_of c) (ways_n c) (L(set_of c a := lru_touch (ways_n c) (tag_of c a) (L (set_of c a)))) as"
    using Cons.IH [OF sim(2,3)] sim(4) Cons.prems(3) by (simp add: same del: fun_upd_apply)
  then show ?case using sim(1) t by (simp split: prod.split) (metis fst_conv)
qed simp

lemma mk_cache_ok:
  assumes "mk_cache cfg = Inr c" and "0 < cc_ways cfg" and "in_i32 (cc_ways cfg)"
    and "cc_total_bytes cfg < 2 ^ 64" and "cc_line_bytes cfg * nat (cc_ways cfg) < 2 ^ 64"
  shows "wf_cache c \<and> lru_state c (\<lambda>_. []) \<and> ca_age c = 0 \<and> ca_cfg c = cfg \<and> ca_stats c = no_stats"
proof -
  have ts: "to_size (cc_ways cfg) = nat (cc_ways cfg)" using assms(2,3) by (simp add: to_size_id in_i32_def)
  let ?row = "cc_line_bytes cfg * nat (cc_ways cfg)" and ?n = "nat (cc_ways cfg)"
  let ?sets = "cc_total_bytes cfg div ?row"
  have row: "u64 (cc_line_bytes cfg * to_size (cc_ways cfg)) = ?row" using assms(5) by (simp only: ts u64_id)
  have g: "?row \<noteq> 0" "?sets \<noteq> 0" "cc_line_bytes cfg \<noteq> 0"
    using assms(1) row by (auto simp: mk_cache_def Let_def split: if_splits)
  have "?sets * ?n \<le> ?sets * ?row" using g(3) by (intro mult_le_mono2) simp
  also have "\<dots> \<le> cc_total_bytes cfg" by simp
  finally have lt: "?sets * ?n < 2 ^ 64" using assms(4) by linarith
  have c: "c = \<lparr>ca_cfg = cfg, ca_sets = ?sets, ca_ways = cc_ways cfg,
      ca_tags = replicate (?sets * ?n) mk_way, ca_age = 0, ca_stats = no_stats\<rparr>"
    using assms(1) g unfolding mk_cache_def Let_def row by (simp add: ts u64_id [OF lt])
  have wf: "wf_cache c"
    using assms(2,3) g(2) lt by (simp add: wf_cache_def c ways_n_def mk_way_def list_all_iff)
  moreover have "recent (row c s) (ways_n c) []" if "s < ca_sets c" for s
    using cell_less [OF wf that] by (auto simp: recent_def row_def) (simp add: c mk_way_def)
  ultimately show ?thesis by (simp add: lru_state_def) (simp add: c)
qed

section \<open>The hierarchy\<close>

record mem_config =
  mc_l1d :: cache_config
  mc_l2 :: cache_config
  mc_dram_latency :: int
  mc_mshrs :: int

record mem_stats =
  ms_l1d :: cache_stats
  ms_l2 :: cache_stats
  ms_dram_accesses :: "64 word"
  ms_mshr_stall :: "64 word"

record mem_result =
  mr_latency :: int
  mr_issue :: nat

record mem_hier =
  mh_cfg :: mem_config
  mh_l1d :: cache
  mh_l2 :: cache
  mh_stats :: mem_stats
  mh_mshr :: "nat list"

definition default_l1d :: cache_config where
  "default_l1d = \<lparr>cc_total_bytes = 32 * 1024, cc_line_bytes = 64, cc_ways = 8, cc_hit_latency = 3\<rparr>"

definition default_l2 :: cache_config where
  "default_l2 = \<lparr>cc_total_bytes = 512 * 1024, cc_line_bytes = 64, cc_ways = 8, cc_hit_latency = 12\<rparr>"

definition default_mem_config :: mem_config where
  "default_mem_config = \<lparr>mc_l1d = default_l1d, mc_l2 = default_l2, mc_dram_latency = 80, mc_mshrs = 0\<rparr>"

definition no_mem_stats :: mem_stats where
  "no_mem_stats = \<lparr>ms_l1d = no_stats, ms_l2 = no_stats, ms_dram_accesses = 0, ms_mshr_stall = 0\<rparr>"

definition mk_mem_hier :: "mem_config \<Rightarrow> mem_hier res" where
  "mk_mem_hier cfg =
     rbind (mk_cache (mc_l1d cfg)) (\<lambda>l1. rbind (mk_cache (mc_l2 cfg)) (\<lambda>l2.
       Inr \<lparr>mh_cfg = cfg, mh_l1d = l1, mh_l2 = l2, mh_stats = no_mem_stats, mh_mshr = []\<rparr>))"

text \<open>\<open>std::remove_if\<close> and \<open>erase\<close> of the misses serviced by a cycle.\<close>

definition prune :: "nat \<Rightarrow> nat list \<Rightarrow> nat list" where
  "prune cyc q = filter (\<lambda>c. \<not> c \<le> cyc) q"

text \<open>The stall to the oldest outstanding miss when every register is busy.\<close>

definition mshr_wait :: "int \<Rightarrow> nat \<Rightarrow> nat list \<Rightarrow> 64 word \<Rightarrow> nat \<times> nat list \<times> 64 word" where
  "mshr_wait mshrs issue q stall =
     (if mshrs > 0 \<and> int (length q) \<ge> mshrs then
        let oldest = Min (set q) in (oldest, prune oldest q, stall + (of_nat oldest - of_nat issue))
      else (issue, q, stall))"

definition access_at :: "64 word \<Rightarrow> nat \<Rightarrow> mem_hier \<Rightarrow> mem_result \<times> mem_hier" where
  "access_at byte_addr proposed m =
     (let q = prune proposed (mh_mshr m);
          (hit1, l1) = cache_access byte_addr (mh_l1d m)
      in if hit1 then
           (\<lparr>mr_latency = hit_latency l1, mr_issue = proposed\<rparr>,
            m\<lparr>mh_mshr := q, mh_l1d := l1, mh_stats := (mh_stats m)\<lparr>ms_l1d := ca_stats l1\<rparr>\<rparr>)
         else
           let (issue, q1, stall) = mshr_wait (mc_mshrs (mh_cfg m)) proposed q (ms_mshr_stall (mh_stats m));
               (hit2, l2) = cache_access byte_addr (mh_l2 m);
               dram = (if hit2 then ms_dram_accesses (mh_stats m) else ms_dram_accesses (mh_stats m) + 1);
               latency = (if hit2 then hit_latency l2 else mc_dram_latency (mh_cfg m))
           in (\<lparr>mr_latency = latency, mr_issue = issue\<rparr>,
               m\<lparr>mh_l1d := l1, mh_l2 := l2,
                 mh_stats := \<lparr>ms_l1d = ca_stats l1, ms_l2 = ca_stats l2, ms_dram_accesses = dram,
                   ms_mshr_stall = stall\<rparr>,
                 mh_mshr := q1 @ [u64 (issue + to_size latency)]\<rparr>))"

text \<open>The older entry point: the access at cycle 0.\<close>

definition mem_access :: "64 word \<Rightarrow> mem_hier \<Rightarrow> int \<times> mem_hier" where
  "mem_access byte_addr m = (case access_at byte_addr 0 m of (r, m') \<Rightarrow> (mr_latency r, m'))"

section \<open>Conservation and the bound on outstanding misses\<close>

lemma prune_length: "length (prune c q) \<le> length q"
  by (simp add: prune_def)

lemma prune_less: "x \<in> set q \<Longrightarrow> x \<le> c \<Longrightarrow> length (prune c q) < length q"
  by (simp add: prune_def length_filter_less)

lemma prune_later: "c \<in> set (prune p q) \<Longrightarrow> p < c"
  by (simp add: prune_def)

lemma mshr_wait_props:
  assumes w: "mshr_wait mshrs issue q stall = (issue', q', stall')" and later: "\<forall>c \<in> set q. issue < c"
    and bound: "mshrs > 0 \<Longrightarrow> int (length q) \<le> mshrs"
  shows "issue \<le> issue' \<and> (\<forall>c \<in> set q'. issue' < c) \<and> (mshrs > 0 \<longrightarrow> int (length q') < mshrs)
    \<and> (issue' = issue \<or> issue' \<in> set q)"
proof (cases "mshrs > 0 \<and> int (length q) \<ge> mshrs")
  case True
  then have ne: "q \<noteq> []" by auto
  then have m: "Min (set q) \<in> set q" by simp
  have e: "issue' = Min (set q)" "q' = prune (Min (set q)) q"
    using w True by (auto simp: mshr_wait_def Let_def)
  have "length q' < length q" unfolding e by (rule prune_less [OF m]) simp
  then show ?thesis using bound True later m e prune_later by fastforce
next
  case False
  then show ?thesis using w later by (auto simp: mshr_wait_def)
qed

text \<open>
  The invariant of the hierarchy: every access is a hit or a miss at each level, the second
  level sees the misses of the first, memory sees those of the second, and the registers in
  use never exceed the configured number.
\<close>

definition counts_ok :: "mem_hier \<Rightarrow> bool" where
  "counts_ok m \<longleftrightarrow>
     cs_hits (ca_stats (mh_l1d m)) + cs_misses (ca_stats (mh_l1d m)) = cs_accesses (ca_stats (mh_l1d m))
     \<and> cs_hits (ca_stats (mh_l2 m)) + cs_misses (ca_stats (mh_l2 m)) = cs_accesses (ca_stats (mh_l2 m))
     \<and> cs_accesses (ca_stats (mh_l2 m)) = cs_misses (ca_stats (mh_l1d m))
     \<and> ms_dram_accesses (mh_stats m) = cs_misses (ca_stats (mh_l2 m))
     \<and> ms_l1d (mh_stats m) = ca_stats (mh_l1d m) \<and> ms_l2 (mh_stats m) = ca_stats (mh_l2 m)"

definition mshrs_ok :: "mem_hier \<Rightarrow> bool" where
  "mshrs_ok m \<longleftrightarrow> (mc_mshrs (mh_cfg m) > 0 \<longrightarrow> int (length (mh_mshr m)) \<le> mc_mshrs (mh_cfg m))"

lemma access_at_counts:
  assumes "counts_ok m" and "access_at a p m = (r, m')"
  shows "counts_ok m'"
proof -
  obtain h1 l1 where 1: "cache_access a (mh_l1d m) = (h1, l1)" by (cases "cache_access a (mh_l1d m)")
  obtain h2 l2 where 2: "cache_access a (mh_l2 m) = (h2, l2)" by (cases "cache_access a (mh_l2 m)")
  obtain i q s where w: "mshr_wait (mc_mshrs (mh_cfg m)) p (prune p (mh_mshr m)) (ms_mshr_stall (mh_stats m)) = (i, q, s)"
    by (cases "mshr_wait (mc_mshrs (mh_cfg m)) p (prune p (mh_mshr m)) (ms_mshr_stall (mh_stats m))")
  show ?thesis
    using assms 1 2 w level.counts [OF 1] level.counts [OF 2]
    by (cases h1; cases h2) (auto simp: access_at_def counts_ok_def Let_def algebra_simps)
qed

lemma access_at_mshrs:
  assumes "mshrs_ok m" and "access_at a p m = (r, m')"
  shows "mshrs_ok m' \<and> p \<le> mr_issue r \<and> mh_cfg m' = mh_cfg m
    \<and> (mc_mshrs (mh_cfg m) \<le> 0 \<longrightarrow> mr_issue r = p)
    \<and> (mr_issue r = p \<or> mr_issue r \<in> set (mh_mshr m))"
proof -
  let ?q = "prune p (mh_mshr m)" and ?n = "mc_mshrs (mh_cfg m)"
  obtain h1 l1 where 1: "cache_access a (mh_l1d m) = (h1, l1)" by (cases "cache_access a (mh_l1d m)")
  obtain h2 l2 where 2: "cache_access a (mh_l2 m) = (h2, l2)" by (cases "cache_access a (mh_l2 m)")
  obtain i q s where w: "mshr_wait ?n p ?q (ms_mshr_stall (mh_stats m)) = (i, q, s)"
    by (cases "mshr_wait ?n p ?q (ms_mshr_stall (mh_stats m))")
  have b: "?n > 0 \<Longrightarrow> int (length ?q) \<le> ?n"
    using assms(1) prune_length [of p "mh_mshr m"] by (auto simp: mshrs_ok_def)
  have later: "\<forall>c \<in> set ?q. p < c" using prune_later by blast
  have sub: "set ?q \<subseteq> set (mh_mshr m)" by (auto simp: prune_def)
  note wp = mshr_wait_props [OF w later b]
  have zero: "?n \<le> 0 \<longrightarrow> i = p" using w by (auto simp: mshr_wait_def split: if_splits)
  show ?thesis
  proof (cases h1)
    case True
    then show ?thesis using assms(2) 1 b by (auto simp: access_at_def mshrs_ok_def Let_def)
  next
    case False
    then have "mr_issue r = i" "mh_cfg m' = mh_cfg m" "length (mh_mshr m') = Suc (length q)"
      using assms(2) 1 2 w by (cases h2; auto simp: access_at_def Let_def)+
    then show ?thesis using wp zero sub by (auto simp: mshrs_ok_def)
  qed
qed

lemma mk_mem_hier_ok:
  "mk_mem_hier cfg = Inr m \<Longrightarrow>
   counts_ok m \<and> mshrs_ok m \<and> mh_cfg m = cfg \<and> cs_accesses (ca_stats (mh_l1d m)) = 0"
proof -
  have st: "mk_cache c = Inr k \<Longrightarrow> ca_stats k = no_stats" for c k
    by (auto simp: mk_cache_def Let_def split: if_splits)
  assume "mk_mem_hier cfg = Inr m"
  then obtain l1 l2 where "mk_cache (mc_l1d cfg) = Inr l1" "mk_cache (mc_l2 cfg) = Inr l2"
    "m = \<lparr>mh_cfg = cfg, mh_l1d = l1, mh_l2 = l2, mh_stats = no_mem_stats, mh_mshr = []\<rparr>"
    by (auto simp: mk_mem_hier_def)
  then show ?thesis using st [of "mc_l1d cfg" l1] st [of "mc_l2 cfg" l2]
    by (simp add: counts_ok_def mshrs_ok_def no_mem_stats_def) (simp add: no_stats_def)
qed

text \<open>A client's sequence of accesses, each proposed for its own cycle.\<close>

fun access_seq :: "(64 word \<times> nat) list \<Rightarrow> mem_hier \<Rightarrow> mem_hier" where
  "access_seq [] m = m"
| "access_seq ((a, p) # ps) m = access_seq ps (snd (access_at a p m))"

lemma access_at_l1_count:
  "access_at a p m = (r, m') \<Longrightarrow>
   cs_accesses (ca_stats (mh_l1d m')) = cs_accesses (ca_stats (mh_l1d m)) + 1"
  using level.counts [of a "mh_l1d m"]
  by (auto simp: access_at_def Let_def split: prod.splits if_splits)

lemma access_seq_keeps:
  "counts_ok m \<Longrightarrow> mshrs_ok m \<Longrightarrow>
   counts_ok (access_seq ps m) \<and> mshrs_ok (access_seq ps m) \<and> mh_cfg (access_seq ps m) = mh_cfg m
   \<and> cs_accesses (ca_stats (mh_l1d (access_seq ps m))) = cs_accesses (ca_stats (mh_l1d m)) + of_nat (length ps)"
proof (induction ps arbitrary: m)
  case (Cons x ps)
  obtain a p where x: "x = (a, p)" by (cases x)
  obtain r m' where s: "access_at a p m = (r, m')" by (cases "access_at a p m")
  show ?case
    using Cons.IH [OF access_at_counts [OF Cons.prems(1) s]] access_at_mshrs [OF Cons.prems(2) s]
      access_at_l1_count [OF s]
    by (simp add: x s)
qed simp

text \<open>The configuration is constant, and the latency is that of the level that hits.\<close>

lemma cache_access_cfg: "cache_access a c = (h, c') \<Longrightarrow> ca_cfg c' = ca_cfg c"
  by (auto simp: cache_access_def Let_def split: option.splits)

definition latencies :: "mem_hier \<Rightarrow> int set" where
  "latencies m = {hit_latency (mh_l1d m), hit_latency (mh_l2 m), mc_dram_latency (mh_cfg m)}"

lemma mshr_wait_subset: "mshr_wait n i q s = (i', q', s') \<Longrightarrow> set q' \<subseteq> set q"
  by (auto simp: mshr_wait_def Let_def prune_def split: if_splits)

lemma access_at_frame:
  assumes "access_at a p m = (r, m')"
  shows "latencies m' = latencies m \<and> mr_latency r \<in> latencies m
    \<and> set (mh_mshr m') \<subseteq> insert (u64 (mr_issue r + to_size (mr_latency r))) (set (mh_mshr m))"
proof -
  obtain h1 l1 where 1: "cache_access a (mh_l1d m) = (h1, l1)" by (cases "cache_access a (mh_l1d m)")
  obtain h2 l2 where 2: "cache_access a (mh_l2 m) = (h2, l2)" by (cases "cache_access a (mh_l2 m)")
  obtain i q s where w: "mshr_wait (mc_mshrs (mh_cfg m)) p (prune p (mh_mshr m)) (ms_mshr_stall (mh_stats m)) = (i, q, s)"
    by (cases "mshr_wait (mc_mshrs (mh_cfg m)) p (prune p (mh_mshr m)) (ms_mshr_stall (mh_stats m))")
  have sub: "set (prune p (mh_mshr m)) \<subseteq> set (mh_mshr m)" by (auto simp: prune_def)
  note c = cache_access_cfg [OF 1] cache_access_cfg [OF 2]
  show ?thesis
  proof (cases h1)
    case True
    then show ?thesis using assms 1 c sub by (auto simp: access_at_def Let_def latencies_def hit_latency_def)
  next
    case False
    then show ?thesis using assms 1 2 w c sub mshr_wait_subset [OF w]
      by (cases h2) (auto simp: access_at_def Let_def latencies_def hit_latency_def)
  qed
qed

end
