(* ===== verification/TerReuse.thy ===== *)
theory TerReuse
  imports TerCache
begin

text \<open>
  What a strict LRU cache promises, stated without any cache state: an access hits exactly
  when its line was used before and fewer than \<open>ways\<close> distinct lines of the same set have been
  used since (the reuse distance). The lemmas show that the recency lists of \<open>TerCache\<close>
  are prefixes of the reuse order, so the cache model implements this promise.
\<close>

section \<open>Elements in order of their first occurrence\<close>

fun firsts :: "'a list \<Rightarrow> 'a list" where
  "firsts [] = []"
| "firsts (x # xs) = x # filter (\<lambda>y. y \<noteq> x) (firsts xs)"

lemma set_firsts [simp]: "set (firsts xs) = set xs"
  by (induction xs) auto

lemma distinct_firsts [simp]: "distinct (firsts xs)"
  by (induction xs) auto

lemma length_firsts: "length (firsts xs) = card (set xs)"
  using distinct_card [OF distinct_firsts, of xs] by simp

lemma takeWhile_filter: "(\<And>y. \<not> Q y \<Longrightarrow> P y) \<Longrightarrow> takeWhile P (filter Q xs) = filter Q (takeWhile P xs)"
  by (induction xs) auto

lemma takeWhile_firsts: "takeWhile (\<lambda>y. y \<noteq> t) (firsts xs) = firsts (takeWhile (\<lambda>y. y \<noteq> t) xs)"
proof (induction xs)
  case (Cons x xs)
  show ?case
  proof (cases "x = t")
    case False
    then have "takeWhile (\<lambda>y. y \<noteq> t) (filter (\<lambda>y. y \<noteq> x) (firsts xs))
        = filter (\<lambda>y. y \<noteq> x) (takeWhile (\<lambda>y. y \<noteq> t) (firsts xs))"
      by (intro takeWhile_filter) auto
    then show ?thesis using False Cons by simp
  qed simp
qed simp

lemma in_take_iff: "t \<in> set (take n xs) \<longleftrightarrow> t \<in> set xs \<and> length (takeWhile (\<lambda>y. y \<noteq> t) xs) < n"
proof (induction xs arbitrary: n)
  case (Cons x xs)
  then show ?case by (cases n) auto
qed simp

lemma in_take_firsts:
  "t \<in> set (take n (firsts xs)) \<longleftrightarrow> t \<in> set xs \<and> card (set (takeWhile (\<lambda>y. y \<noteq> t) xs)) < n"
  by (simp add: in_take_iff takeWhile_firsts length_firsts)

lemma take_filter_early: "m \<le> length (takeWhile P xs) \<Longrightarrow> take m (filter P xs) = take m xs"
proof (induction xs arbitrary: m)
  case (Cons x xs)
  then show ?case by (cases m) (auto split: if_splits)
qed simp

lemma filter_neq_id: "t \<notin> set xs \<Longrightarrow> filter (\<lambda>y. y \<noteq> t) xs = xs"
  by (rule filter_True) auto

lemma take_filter_neq:
  "distinct xs \<Longrightarrow> t \<in> set (take (Suc n) xs) \<Longrightarrow>
   take n (filter (\<lambda>y. y \<noteq> t) xs) = filter (\<lambda>y. y \<noteq> t) (take (Suc n) xs)"
proof (induction xs arbitrary: n)
  case (Cons x xs)
  show ?case
  proof (cases "x = t")
    case True
    then have "t \<notin> set xs" using Cons.prems(1) by simp
    then show ?thesis using True by (simp add: filter_neq_id) (metis filter_neq_id in_set_takeD)
  next
    case False
    then obtain m where "n = Suc m" using Cons.prems(2) by (cases n) auto
    then show ?thesis using Cons False by simp
  qed
qed simp

lemma lru_touch_firsts:
  assumes "0 < n"
  shows "lru_touch n t (take n (firsts xs)) = take n (firsts (t # xs))"
proof -
  obtain m where n: "n = Suc m" using assms by (cases n) auto
  show ?thesis
  proof (cases "t \<in> set (take n (firsts xs))")
    case True
    then show ?thesis
      using take_filter_neq [OF distinct_firsts, of t m xs]
      by (simp add: lru_touch_def n distinct_remove1_removeAll removeAll_filter_not_eq)
        (metis (no_types, lifting) filter_cong)
  next
    case False
    have keep: "take m (filter (\<lambda>y. y \<noteq> t) (firsts xs)) = take m (firsts xs)"
    proof (cases "t \<in> set (firsts xs)")
      case True
      then have "n \<le> length (takeWhile (\<lambda>y. y \<noteq> t) (firsts xs))" using False in_take_iff by fastforce
      then show ?thesis by (intro take_filter_early) (simp add: n)
    qed (simp add: filter_neq_id del: set_firsts)
    show ?thesis
    proof (cases "length (take n (firsts xs)) < n")
      case True
      then have "take n (firsts xs) = take m (firsts xs)" by (simp add: n)
      then show ?thesis using False True keep by (simp add: lru_touch_def n)
    next
      case False2: False
      then have "butlast (take n (firsts xs)) = take m (firsts xs)" by (simp add: n butlast_take)
      then show ?thesis using False False2 keep by (simp add: lru_touch_def n)
    qed
  qed
qed

section \<open>The promise\<close>

text \<open>
  \<open>past\<close> is the history of accesses, the latest first; \<open>si\<close> and \<open>tg\<close> give the set and the
  tag of an address.
\<close>

definition tags_in :: "('a \<Rightarrow> nat) \<Rightarrow> ('a \<Rightarrow> nat) \<Rightarrow> 'a list \<Rightarrow> nat \<Rightarrow> nat list" where
  "tags_in si tg past s = map tg (filter (\<lambda>b. si b = s) past)"

definition reuse_hit :: "('a \<Rightarrow> nat) \<Rightarrow> ('a \<Rightarrow> nat) \<Rightarrow> nat \<Rightarrow> 'a list \<Rightarrow> 'a \<Rightarrow> bool" where
  "reuse_hit si tg n past a =
     (let used = tags_in si tg past (si a)
      in tg a \<in> set used \<and> card (set (takeWhile (\<lambda>t. t \<noteq> tg a) used)) < n)"

fun reuse_trace :: "('a \<Rightarrow> nat) \<Rightarrow> ('a \<Rightarrow> nat) \<Rightarrow> nat \<Rightarrow> 'a list \<Rightarrow> 'a list \<Rightarrow> bool list" where
  "reuse_trace si tg n past [] = []"
| "reuse_trace si tg n past (a # as) = reuse_hit si tg n past a # reuse_trace si tg n (a # past) as"

lemma lru_trace_reuse:
  "0 < n \<Longrightarrow>
   lru_trace si tg n (\<lambda>s. take n (firsts (tags_in si tg past s))) as = reuse_trace si tg n past as"
proof (induction as arbitrary: past)
  case (Cons a as)
  let ?L = "\<lambda>past s. take n (firsts (tags_in si tg past s))"
  have "(?L past)(si a := lru_touch n (tg a) (?L past (si a))) = ?L (a # past)"
    using lru_touch_firsts [OF Cons.prems] by (auto simp: tags_in_def simp del: firsts.simps)
  then show ?case
    using Cons by (simp add: reuse_hit_def in_take_firsts Let_def del: fun_upd_apply)
qed simp

lemma fresh_cache_reuse:
  assumes "mk_cache cfg = Inr c" and "0 < cc_ways cfg" and "in_i32 (cc_ways cfg)"
    and "cc_total_bytes cfg < 2 ^ 64" and "cc_line_bytes cfg * nat (cc_ways cfg) < 2 ^ 64"
    and "length as < 2 ^ 64"
  shows "fst (level.touch_all as c) = reuse_trace (set_of c) (tag_of c) (ways_n c) [] as"
proof -
  have ok: "wf_cache c" "lru_state c (\<lambda>_. [])" "ca_age c = 0"
    using mk_cache_ok [OF assms(1-5)] by simp_all
  have "0 < ways_n c" using ok(1) by (simp add: wf_cache_def ways_n_def)
  then show ?thesis
    using cache_trace_sim [OF ok(1,2), of as] lru_trace_reuse [of "ways_n c" "set_of c" "tag_of c" "[]" as] ok(3) assms(6)
    by (simp add: tags_in_def)
qed

end
