(* ===== verification/TerBranch.thy ===== *)
theory TerBranch
  imports TerPrelude
begin

unbundle bit_operations_syntax

text \<open>
  The branch predictor of the cycle model (\<open>v2/src/layer1/bp.cpp\<close>,
  \<open>v2/include/tersim/bp_model.hpp\<close>): a table of two-bit saturating counters indexed by the
  program counter xor the global history, and a direct-mapped target buffer. The lemmas: the
  invariant of the tables and counters, and the exact number of mispredictions of a loop
  branch.
\<close>

section \<open>State\<close>

record bp_config =
  bc_pht_entries :: int
  bc_ghr_history_bits :: int
  bc_btb_entries :: int
  bc_perfect :: bool
  bc_mispredict_penalty :: int

record bp_stats =
  bs_branches :: "64 word"
  bs_correct :: "64 word"
  bs_mispredicts :: "64 word"

record predictor =
  bp_cfg :: bp_config
  bp_pht :: "nat list"
  bp_btb_target :: "64 word list"
  bp_btb_valid :: "bool list"
  bp_ghr :: "64 word"
  bp_ghr_mask :: "64 word"
  bp_stat :: bp_stats

definition default_bp_config :: bp_config where
  "default_bp_config = \<lparr>bc_pht_entries = 4096, bc_ghr_history_bits = 12, bc_btb_entries = 1024,
     bc_perfect = False, bc_mispredict_penalty = 4\<rparr>"

definition no_bp_stats :: bp_stats where
  "no_bp_stats = \<lparr>bs_branches = 0, bs_correct = 0, bs_mispredicts = 0\<rparr>"

text \<open>
  The tables are allocated before the assertions run; a negative size is converted to a size no
  vector can have.
\<close>

definition mk_predictor :: "bp_config \<Rightarrow> predictor res" where
  "mk_predictor cfg =
     (if bc_pht_entries cfg < 0 \<or> bc_btb_entries cfg < 0 then Inl (LengthError ''vector'')
      else if \<not> (bc_pht_entries cfg > 0 \<and> bc_btb_entries cfg > 0) then
        Inl (AssertFailed ''cfg.pht_entries > 0 && cfg.btb_entries > 0'')
      else if \<not> (bc_ghr_history_bits cfg \<ge> 0 \<and> bc_ghr_history_bits cfg < 64) then
        Inl (AssertFailed ''cfg.ghr_history_bits >= 0 && cfg.ghr_history_bits < 64'')
      else Inr \<lparr>bp_cfg = cfg,
             bp_pht = replicate (nat (bc_pht_entries cfg)) 1,
             bp_btb_target = replicate (nat (bc_btb_entries cfg)) 0,
             bp_btb_valid = replicate (nat (bc_btb_entries cfg)) False,
             bp_ghr = 0,
             bp_ghr_mask = (if bc_ghr_history_bits cfg = 0 then 0
                            else push_bit (nat (bc_ghr_history_bits cfg)) 1 - 1),
             bp_stat = no_bp_stats\<rparr>)"

definition pht_index :: "64 word \<Rightarrow> predictor \<Rightarrow> nat" where
  "pht_index pc p = unat (pc XOR bp_ghr p) mod nat (bc_pht_entries (bp_cfg p))"

definition btb_index :: "64 word \<Rightarrow> predictor \<Rightarrow> nat" where
  "btb_index pc p = unat pc mod nat (bc_btb_entries (bp_cfg p))"

section \<open>Prediction\<close>

text \<open>Whether the prediction for a branch is right: direction, then target.\<close>

definition prediction_ok :: "64 word \<Rightarrow> bool \<Rightarrow> 64 word \<Rightarrow> predictor \<Rightarrow> bool" where
  "prediction_ok pc taken target p =
     (let pred_taken = bp_pht p ! pht_index pc p \<ge> 2;
          correct = (pred_taken = taken);
          b = btb_index pc p
      in if correct \<and> taken then bp_btb_valid p ! b \<and> bp_btb_target p ! b = target else correct)"

text \<open>The saturating update of a counter.\<close>

definition counter_next :: "bool \<Rightarrow> nat \<Rightarrow> nat" where
  "counter_next taken c =
     (if taken \<and> c < 3 then c + 1 else if \<not> taken \<and> c > 0 then c - 1 else c)"

definition train :: "64 word \<Rightarrow> bool \<Rightarrow> 64 word \<Rightarrow> predictor \<Rightarrow> predictor" where
  "train pc taken target p =
     (let i = pht_index pc p;
          b = btb_index pc p;
          p1 = p\<lparr>bp_pht := (bp_pht p)[i := counter_next taken (bp_pht p ! i)]\<rparr>;
          p2 = (if taken then p1\<lparr>bp_btb_target := (bp_btb_target p1)[b := target],
                                bp_btb_valid := (bp_btb_valid p1)[b := True]\<rparr> else p1)
      in p2\<lparr>bp_ghr := (push_bit 1 (bp_ghr p2) OR (if taken then 1 else 0)) AND bp_ghr_mask p2\<rparr>)"

definition count_branch :: "predictor \<Rightarrow> predictor" where
  "count_branch p = p\<lparr>bp_stat := (bp_stat p)\<lparr>bs_branches := bs_branches (bp_stat p) + 1\<rparr>\<rparr>"

definition count_outcome :: "bool \<Rightarrow> predictor \<Rightarrow> predictor" where
  "count_outcome correct p =
     (if correct then p\<lparr>bp_stat := (bp_stat p)\<lparr>bs_correct := bs_correct (bp_stat p) + 1\<rparr>\<rparr>
      else p\<lparr>bp_stat := (bp_stat p)\<lparr>bs_mispredicts := bs_mispredicts (bp_stat p) + 1\<rparr>\<rparr>)"

definition predict_and_update :: "64 word \<Rightarrow> bool \<Rightarrow> 64 word \<Rightarrow> predictor \<Rightarrow> bool \<times> predictor" where
  "predict_and_update pc taken target p0 =
     (let p = count_branch p0
      in if bc_perfect (bp_cfg p) then (True, count_outcome True p)
         else let correct = prediction_ok pc taken target p
              in (correct, count_outcome correct (train pc taken target p)))"

definition mispredict_penalty :: "predictor \<Rightarrow> int" where
  "mispredict_penalty p = (if bc_perfect (bp_cfg p) then 0 else bc_mispredict_penalty (bp_cfg p))"

section \<open>The invariant\<close>

definition wf_bp :: "predictor \<Rightarrow> bool" where
  "wf_bp p \<longleftrightarrow> 0 < bc_pht_entries (bp_cfg p) \<and> 0 < bc_btb_entries (bp_cfg p)
     \<and> length (bp_pht p) = nat (bc_pht_entries (bp_cfg p))
     \<and> length (bp_btb_target p) = nat (bc_btb_entries (bp_cfg p))
     \<and> length (bp_btb_valid p) = nat (bc_btb_entries (bp_cfg p))
     \<and> list_all (\<lambda>c. c \<le> 3) (bp_pht p) \<and> bp_ghr p AND bp_ghr_mask p = bp_ghr p
     \<and> bs_correct (bp_stat p) + bs_mispredicts (bp_stat p) = bs_branches (bp_stat p)"

lemma wf_bp_init: "mk_predictor cfg = Inr p \<Longrightarrow> wf_bp p \<and> bp_cfg p = cfg \<and> bp_ghr p = 0"
  by (auto simp: mk_predictor_def wf_bp_def no_bp_stats_def list_all_iff split: if_splits)

lemma index_less:
  "wf_bp p \<Longrightarrow> pht_index pc p < length (bp_pht p)"
  "wf_bp p \<Longrightarrow> btb_index pc p < length (bp_btb_target p)"
  "wf_bp p \<Longrightarrow> btb_index pc p < length (bp_btb_valid p)"
  by (simp_all add: wf_bp_def pht_index_def btb_index_def)

lemma counter_next_le: "c \<le> 3 \<Longrightarrow> counter_next t c \<le> 3"
  by (auto simp: counter_next_def)

lemma count_simps [simp]:
  "bp_cfg (count_branch p) = bp_cfg p" "bp_pht (count_branch p) = bp_pht p"
  "bp_btb_target (count_branch p) = bp_btb_target p" "bp_btb_valid (count_branch p) = bp_btb_valid p"
  "bp_ghr (count_branch p) = bp_ghr p" "bp_ghr_mask (count_branch p) = bp_ghr_mask p"
  "bp_cfg (count_outcome h p) = bp_cfg p" "bp_pht (count_outcome h p) = bp_pht p"
  "bp_btb_target (count_outcome h p) = bp_btb_target p" "bp_btb_valid (count_outcome h p) = bp_btb_valid p"
  "bp_ghr (count_outcome h p) = bp_ghr p" "bp_ghr_mask (count_outcome h p) = bp_ghr_mask p"
  by (simp_all add: count_branch_def count_outcome_def)

lemma train_cfg [simp]: "bp_cfg (train pc t a p) = bp_cfg p" "bp_stat (train pc t a p) = bp_stat p"
  "bp_ghr_mask (train pc t a p) = bp_ghr_mask p"
  by (simp_all add: train_def Let_def)

lemma train_pht: "bp_pht (train pc t a p)
    = (bp_pht p)[pht_index pc p := counter_next t (bp_pht p ! pht_index pc p)]"
  by (simp add: train_def Let_def)

lemma train_btb:
  "bp_btb_target (train pc t a p) = (if t then (bp_btb_target p)[btb_index pc p := a] else bp_btb_target p)"
  "bp_btb_valid (train pc t a p) = (if t then (bp_btb_valid p)[btb_index pc p := True] else bp_btb_valid p)"
  by (simp_all add: train_def Let_def)

lemma train_ghr: "bp_ghr (train pc t a p) = (push_bit 1 (bp_ghr p) OR (if t then 1 else 0)) AND bp_ghr_mask p"
  by (simp add: train_def Let_def)

lemma index_cong:
  "bp_ghr q = bp_ghr p \<Longrightarrow> bp_cfg q = bp_cfg p \<Longrightarrow> pht_index pc q = pht_index pc p"
  "bp_cfg q = bp_cfg p \<Longrightarrow> btb_index pc q = btb_index pc p"
  by (simp_all add: pht_index_def btb_index_def)

lemma predict_and_update_wf:
  assumes "wf_bp p" and "predict_and_update pc t a p = (h, p')"
  shows "wf_bp p' \<and> bp_cfg p' = bp_cfg p \<and> bp_ghr_mask p' = bp_ghr_mask p
    \<and> bs_branches (bp_stat p') = bs_branches (bp_stat p) + 1
    \<and> bs_mispredicts (bp_stat p') = bs_mispredicts (bp_stat p) + (if h then 0 else 1)"
proof (cases "bc_perfect (bp_cfg p)")
  case True
  then show ?thesis using assms
    by (auto simp: predict_and_update_def Let_def wf_bp_def) (auto simp: count_branch_def count_outcome_def algebra_simps)
next
  case False
  let ?i = "pht_index pc (count_branch p)"
  have "?i < length (bp_pht p)" using index_less(1) [OF assms(1), of pc] by (simp add: pht_index_def)
  then have "counter_next t (bp_pht p ! ?i) \<le> 3"
    using assms(1) by (intro counter_next_le) (simp add: wf_bp_def list_all_length)
  then have pht: "list_all (\<lambda>c. c \<le> 3) ((bp_pht p)[?i := counter_next t (bp_pht p ! ?i)])"
    using assms(1) by (intro list_all_update) (simp_all add: wf_bp_def)
  have "bs_correct (bp_stat p') + bs_mispredicts (bp_stat p') = bs_branches (bp_stat p')
      \<and> bs_branches (bp_stat p') = bs_branches (bp_stat p) + 1
      \<and> bs_mispredicts (bp_stat p') = bs_mispredicts (bp_stat p) + (if h then 0 else 1)"
    using assms False by (auto simp: predict_and_update_def Let_def wf_bp_def count_branch_def count_outcome_def algebra_simps)
  moreover have "p' = count_outcome h (train pc t a (count_branch p))"
    using assms(2) False by (auto simp: predict_and_update_def Let_def)
  ultimately show ?thesis using pht assms(1)
    by (auto simp: wf_bp_def train_pht train_btb train_ghr and.assoc)
qed

section \<open>Sequences of branches\<close>

fun bp_run :: "(64 word \<times> bool \<times> 64 word) list \<Rightarrow> predictor \<Rightarrow> bool list \<times> predictor" where
  "bp_run [] p = ([], p)"
| "bp_run ((pc, taken, target) # bs) p =
     (case predict_and_update pc taken target p of (h, p1) \<Rightarrow>
        (case bp_run bs p1 of (hs, p2) \<Rightarrow> (h # hs, p2)))"

lemma bp_run_append:
  "bp_run (bs @ cs) p = (case bp_run bs p of (hs, q) \<Rightarrow> (case bp_run cs q of (gs, r) \<Rightarrow> (hs @ gs, r)))"
  by (induction bs p rule: bp_run.induct) (auto split: prod.splits)

lemma bp_run_wf:
  "wf_bp p \<Longrightarrow> bp_run bs p = (hs, p') \<Longrightarrow>
   wf_bp p' \<and> bp_cfg p' = bp_cfg p \<and> bp_ghr_mask p' = bp_ghr_mask p
   \<and> bs_branches (bp_stat p') = bs_branches (bp_stat p) + of_nat (length bs)
   \<and> bs_mispredicts (bp_stat p') = bs_mispredicts (bp_stat p) + of_nat (length (filter Not hs))"
proof (induction bs p arbitrary: hs rule: bp_run.induct)
  case (2 pc t a bs p)
  obtain h p1 where s: "predict_and_update pc t a p = (h, p1)" by (cases "predict_and_update pc t a p")
  obtain gs p2 where r: "bp_run bs p1 = (gs, p2)" by (cases "bp_run bs p1")
  note w = predict_and_update_wf [OF "2.prems"(1) s]
  have hs: "hs = h # gs" and p2: "p2 = p'" using "2.prems"(2) s r by simp_all
  note IH = "2.IH" [OF s [symmetric] conjunct1 [OF w] r [unfolded p2]]
  show ?case unfolding hs using IH w by (cases h) (simp_all add: ac_simps del: of_nat_add)
qed simp

text \<open>
  With no history (as the simulator runs it) the predictor of one branch is a small automaton:
  the counter of the branch, and whether the target buffer holds its target.
\<close>

definition branch_view :: "64 word \<Rightarrow> 64 word \<Rightarrow> predictor \<Rightarrow> nat \<times> bool" where
  "branch_view pc target p = (bp_pht p ! pht_index pc p,
     bp_btb_valid p ! btb_index pc p \<and> bp_btb_target p ! btb_index pc p = target)"

lemma no_history_ghr: "wf_bp p \<Longrightarrow> bp_ghr_mask p = 0 \<Longrightarrow> bp_ghr p = 0"
  by (auto simp: wf_bp_def)

lemma branch_view_step:
  assumes wf: "wf_bp p" and mask: "bp_ghr_mask p = 0" and np: "\<not> bc_perfect (bp_cfg p)"
    and step: "predict_and_update pc t a p = (h, p')" and a: "t \<Longrightarrow> a = target"
    and view: "branch_view pc target p = (c, v)"
  shows "h = ((2 \<le> c) = t \<and> (t \<longrightarrow> v)) \<and> branch_view pc target p' = (counter_next t c, v \<or> t)"
proof -
  let ?q = "count_branch p"
  have h: "h = prediction_ok pc t a ?q" and p': "p' = count_outcome h (train pc t a ?q)"
    using step np by (auto simp: predict_and_update_def Let_def)
  have ix: "pht_index pc ?q = pht_index pc p" "btb_index pc ?q = btb_index pc p"
    by (simp_all add: pht_index_def btb_index_def)
  have "bp_ghr p' = bp_ghr p" using no_history_ghr [OF wf mask] by (simp add: p' train_ghr mask)
  then have ix': "pht_index pc p' = pht_index pc p" "btb_index pc p' = btb_index pc p"
    using index_cong [of p' p pc] by (simp_all add: p')
  let ?i = "pht_index pc p" and ?b = "btb_index pc p"
  have c: "c = bp_pht p ! ?i" and v: "v \<longleftrightarrow> bp_btb_valid p ! ?b \<and> bp_btb_target p ! ?b = target"
    using view by (simp_all add: branch_view_def)
  have pht: "bp_pht p' ! ?i = counter_next t c"
    using index_less(1) [OF wf] by (simp add: p' train_pht ix c)
  have btb: "(bp_btb_valid p' ! ?b \<and> bp_btb_target p' ! ?b = target) \<longleftrightarrow> v \<or> t"
    using index_less(2,3) [OF wf, of pc] a by (cases t) (simp_all add: p' train_btb ix v)
  have "h \<longleftrightarrow> (2 \<le> c) = t \<and> (t \<longrightarrow> v)"
    using a by (cases t) (simp_all add: h prediction_ok_def Let_def ix c v)
  then show ?thesis using pht btb by (simp add: branch_view_def ix')
qed

definition loop_trace :: "64 word \<Rightarrow> 64 word \<Rightarrow> 64 word \<Rightarrow> nat \<Rightarrow> (64 word \<times> bool \<times> 64 word) list" where
  "loop_trace pc target after k = replicate k (pc, True, target) @ [(pc, False, after)]"

definition plain :: "predictor \<Rightarrow> bool" where
  "plain p \<longleftrightarrow> wf_bp p \<and> bp_ghr_mask p = 0 \<and> \<not> bc_perfect (bp_cfg p)"

lemma plain_step:
  "plain p \<Longrightarrow> predict_and_update pc t a p = (h, p') \<Longrightarrow> plain p'"
  using predict_and_update_wf [of p pc t a h p'] by (simp add: plain_def)

lemma taken_run:
  "plain p \<Longrightarrow> branch_view pc target p = (c, True) \<Longrightarrow> 2 \<le> c \<Longrightarrow> c \<le> 3 \<Longrightarrow>
   \<exists>q. bp_run (replicate k (pc, True, target)) p = (replicate k True, q) \<and> plain q
     \<and> branch_view pc target q = (min 3 (c + k), True)"
proof (induction k arbitrary: p c)
  case (Suc k)
  obtain h p1 where s: "predict_and_update pc True target p = (h, p1)"
    by (cases "predict_and_update pc True target p")
  have v: "h" "branch_view pc target p1 = (counter_next True c, True)"
    using branch_view_step [OF _ _ _ s, of target c True] Suc.prems by (simp_all add: plain_def)
  have c: "2 \<le> counter_next True c" "counter_next True c \<le> 3" "min 3 (counter_next True c + k) = min 3 (c + Suc k)"
    using Suc.prems by (auto simp: counter_next_def)
  from Suc.IH [OF plain_step [OF Suc.prems(1) s] v(2) c(1,2)] show ?case
    using s v(1) c(3) by auto
qed simp

lemma steady_loop:
  assumes "plain p" and "branch_view pc target p = (2, True)" and "1 \<le> k"
  shows "\<exists>q. bp_run (loop_trace pc target after k) p = (replicate k True @ [False], q) \<and> plain q
    \<and> branch_view pc target q = (2, True)"
proof -
  obtain p1 where r: "bp_run (replicate k (pc, True, target)) p = (replicate k True, p1)" "plain p1"
    "branch_view pc target p1 = (3, True)"
    using taken_run [OF assms(1,2), of k] assms(3) by auto
  obtain h p2 where s: "predict_and_update pc False after p1 = (h, p2)"
    by (cases "predict_and_update pc False after p1")
  have "\<not> h \<and> branch_view pc target p2 = (2, True)"
    using branch_view_step [OF _ _ _ s, of target 3 True] r(2,3) by (simp add: plain_def counter_next_def)
  then show ?thesis using r(1) s plain_step [OF r(2) s] by (simp add: loop_trace_def bp_run_append)
qed

lemma steady_loops:
  "plain p \<Longrightarrow> branch_view pc target p = (2, True) \<Longrightarrow> 1 \<le> k \<Longrightarrow>
   length (filter Not (fst (bp_run (concat (replicate m (loop_trace pc target after k))) p))) = m"
proof (induction m arbitrary: p)
  case (Suc m)
  obtain q where "bp_run (loop_trace pc target after k) p = (replicate k True @ [False], q)" "plain q"
    "branch_view pc target q = (2, True)"
    using steady_loop [OF Suc.prems, of after] by blast
  then show ?case using Suc.IH [of q] Suc.prems(3) by (simp add: bp_run_append split: prod.split) (metis fst_conv)
qed simp

lemma first_loop:
  assumes "plain p" and "branch_view pc target p = (1, False)" and "2 \<le> k"
  shows "\<exists>q. bp_run (loop_trace pc target after k) p = (False # replicate (k - 1) True @ [False], q) \<and> plain q
    \<and> branch_view pc target q = (2, True)"
proof -
  obtain j where k: "k = Suc j" and j: "1 \<le> j" using assms(3) by (cases k) auto
  obtain h p1 where s: "predict_and_update pc True target p = (h, p1)"
    by (cases "predict_and_update pc True target p")
  have "\<not> h \<and> branch_view pc target p1 = (2, True)"
    using branch_view_step [OF _ _ _ s, of target 1 False] assms(1,2) by (simp add: plain_def counter_next_def)
  then show ?thesis
    using steady_loop [OF plain_step [OF assms(1) s] _ j, of pc target after] s by (auto simp: k loop_trace_def)
qed

lemma loop_mispredicts:
  assumes "mk_predictor cfg = Inr p" and "bc_ghr_history_bits cfg = 0" and "\<not> bc_perfect cfg"
    and "2 \<le> k" and "1 \<le> m"
  shows "length (filter Not (fst (bp_run (concat (replicate m (loop_trace pc target after k))) p))) = m + 1"
proof -
  have wf: "wf_bp p" "bp_cfg p = cfg" using wf_bp_init [OF assms(1)] by simp_all
  have mask: "bp_ghr_mask p = 0" and pht: "bp_pht p = replicate (nat (bc_pht_entries cfg)) 1"
    and btb: "bp_btb_valid p = replicate (nat (bc_btb_entries cfg)) False"
    using assms(1,2) by (auto simp: mk_predictor_def split: if_splits)
  have pl: "plain p" using wf mask assms(3) by (simp add: plain_def)
  have v: "branch_view pc target p = (1, False)"
    using index_less [OF wf(1), of pc] by (simp add: branch_view_def pht btb)
  obtain n where m: "m = Suc n" using assms(5) by (cases m) auto
  obtain q where "bp_run (loop_trace pc target after k) p = (False # replicate (k - 1) True @ [False], q)"
    "plain q" "branch_view pc target q = (2, True)"
    using first_loop [OF pl v assms(4), of after] by blast
  then show ?thesis
    using steady_loops [of q pc target k n after] assms(4)
    by (simp add: m bp_run_append split: prod.split) (metis fst_conv)
qed

end
