(* ===== verification/TerPipeline.thy ===== *)
theory TerPipeline
  imports TerCache TerBranch TerIsa
begin

text \<open>
  The pipeline of the cycle model (\<open>v2/src/layer1/pipeline.cpp\<close>,
  \<open>v2/include/tersim/cycle_model.hpp\<close>, \<open>trace.hpp\<close>): single issue, in order, with tracking of
  read-after-write hazards, an optional cache hierarchy and an optional branch predictor.
  Cycles are \<open>uint64_t\<close>, kept as naturals reduced by \<open>u64\<close> where the source adds; sums of
  configured latencies are \<open>int\<close> and checked for overflow. The lemmas: the hazards are
  respected, issue is in order, and the cycle count lies between the number of instructions
  and a multiple of it.
\<close>

section \<open>Functional units and operands\<close>

datatype fu_kind = FU_Scalar | FU_Vector | FU_Memory | FU_Branch | FU_Control

fun fu_index :: "fu_kind \<Rightarrow> nat" where
  "fu_index FU_Scalar = 0" | "fu_index FU_Vector = 1" | "fu_index FU_Memory = 2"
| "fu_index FU_Branch = 3" | "fu_index FU_Control = 4"

definition kFuKindCount :: nat where
  "kFuKindCount = 5"

fun is_mem_op :: "opcode \<Rightarrow> bool" where
  "is_mem_op TLOAD = True" | "is_mem_op TSTORE = True"
| "is_mem_op TVLOAD = True" | "is_mem_op TVSTORE = True" | "is_mem_op _ = False"

fun is_branch_op :: "opcode \<Rightarrow> bool" where
  "is_branch_op TBEQ = True" | "is_branch_op TBNE = True" | "is_branch_op TBLT = True"
| "is_branch_op TJUMP = True" | "is_branch_op TCALL = True" | "is_branch_op TRET = True"
| "is_branch_op _ = False"

fun classify :: "opcode \<Rightarrow> fu_kind" where
  "classify TVADD = FU_Vector" | "classify TVSUB = FU_Vector" | "classify TVNEG = FU_Vector"
| "classify TVBROADCAST = FU_Vector" | "classify TVMAC = FU_Vector" | "classify TVSUM = FU_Vector"
| "classify TVMAX = FU_Vector" | "classify TVSHUF = FU_Vector" | "classify TVMUL = FU_Vector"
| "classify TLOAD = FU_Memory" | "classify TSTORE = FU_Memory"
| "classify TVLOAD = FU_Memory" | "classify TVSTORE = FU_Memory"
| "classify TJUMP = FU_Branch" | "classify TBEQ = FU_Branch" | "classify TBNE = FU_Branch"
| "classify TBLT = FU_Branch" | "classify TCALL = FU_Branch" | "classify TRET = FU_Branch"
| "classify TNOP = FU_Control" | "classify THALT = FU_Control" | "classify TDBG = FU_Control"
| "classify _ = FU_Scalar"

datatype reg_kind = RF_None | RF_Scalar | RF_Vector | RF_Acc

record op_info =
  oi_src1 :: reg_kind
  oi_src2 :: reg_kind
  oi_dst :: reg_kind
  oi_rmw :: bool

definition no_info :: op_info where
  "no_info = \<lparr>oi_src1 = RF_None, oi_src2 = RF_None, oi_dst = RF_None, oi_rmw = False\<rparr>"

definition op_info_of :: "opcode \<Rightarrow> op_info" where
  "op_info_of p =
     (if p \<in> {TADD, TSUB, TAND3, TOR3, TXOR3, TCMP} then
        no_info\<lparr>oi_src1 := RF_Scalar, oi_src2 := RF_Scalar, oi_dst := RF_Scalar\<rparr>
      else if p \<in> {TNEG, TABS, TSIGN} then no_info\<lparr>oi_src1 := RF_Scalar, oi_dst := RF_Scalar\<rparr>
      else if p = TLOADI then no_info\<lparr>oi_dst := RF_Scalar\<rparr>
      else if p = TLOAD then no_info\<lparr>oi_src1 := RF_Scalar, oi_dst := RF_Scalar\<rparr>
      else if p = TSTORE then no_info\<lparr>oi_src1 := RF_Scalar, oi_src2 := RF_Scalar\<rparr>
      else if p = TVLOAD then no_info\<lparr>oi_src1 := RF_Scalar, oi_dst := RF_Vector\<rparr>
      else if p = TVSTORE then no_info\<lparr>oi_src1 := RF_Vector, oi_src2 := RF_Scalar\<rparr>
      else if p \<in> {TBEQ, TBNE, TBLT} then no_info\<lparr>oi_src1 := RF_Scalar, oi_src2 := RF_Scalar\<rparr>
      else if p = TJUMP then no_info
      else if p = TCALL then no_info\<lparr>oi_dst := RF_Scalar, oi_rmw := True\<rparr>
      else if p = TRET then no_info\<lparr>oi_dst := RF_Scalar, oi_rmw := True\<rparr>
      else if p \<in> {TVADD, TVSUB} then
        no_info\<lparr>oi_src1 := RF_Vector, oi_src2 := RF_Vector, oi_dst := RF_Vector\<rparr>
      else if p \<in> {TVNEG, TVMAX, TVSHUF} then no_info\<lparr>oi_src1 := RF_Vector, oi_dst := RF_Vector\<rparr>
      else if p = TVBROADCAST then no_info\<lparr>oi_dst := RF_Vector\<rparr>
      else if p = TVMUL then
        no_info\<lparr>oi_src1 := RF_Vector, oi_src2 := RF_Vector, oi_dst := RF_Vector\<rparr>
      else if p = TVMAC then
        no_info\<lparr>oi_src1 := RF_Vector, oi_src2 := RF_Vector, oi_dst := RF_Acc, oi_rmw := True\<rparr>
      else if p = TVSUM then no_info\<lparr>oi_src1 := RF_Acc, oi_dst := RF_Scalar\<rparr>
      else no_info)"

section \<open>State\<close>

record instr_trace =
  it_pc :: "64 word"
  it_op :: opcode
  it_dst :: nat
  it_src1 :: nat
  it_src2 :: nat
  it_imm :: int
  it_mem_addr :: "64 word"
  it_mem_is_load :: bool
  it_mem_is_store :: bool
  it_branch_taken :: bool
  it_branch_target :: "64 word"
  it_cycle_issued :: nat
  it_cycle_retired :: nat

record pipeline_config =
  pc_depth :: int
  pc_issue_width :: int
  pc_tvmac_extra_latency :: int
  pc_vmul_extra_latency :: int
  pc_mem_extra_latency :: int
  pc_track_raw :: bool
  pc_forwarding_enabled :: bool

definition default_pipeline_config :: pipeline_config where
  "default_pipeline_config = \<lparr>pc_depth = 7, pc_issue_width = 1, pc_tvmac_extra_latency = 1,
     pc_vmul_extra_latency = 1, pc_mem_extra_latency = 2, pc_track_raw = True,
     pc_forwarding_enabled = True\<rparr>"

record pipeline_report =
  pr_cycles_total :: "64 word"
  pr_insns_total :: "64 word"
  pr_mshr_stall_cycles :: "64 word"
  pr_bp_penalty_cycles :: "64 word"
  pr_insns_by_fu :: "64 word list"

definition no_report :: pipeline_report where
  "no_report = \<lparr>pr_cycles_total = 0, pr_insns_total = 0, pr_mshr_stall_cycles = 0,
     pr_bp_penalty_cycles = 0, pr_insns_by_fu = replicate kFuKindCount 0\<rparr>"

text \<open>
  The hierarchy and the predictor are objects the pipeline points to; while a program runs only
  the pipeline changes them, so they are kept inside its state.
\<close>

record pipeline =
  pl_cfg :: pipeline_config
  pl_mem :: "mem_hier option"
  pl_bp :: "predictor option"
  pl_next :: nat
  pl_last :: nat
  pl_report :: pipeline_report
  pl_scalar :: "nat list"
  pl_vector :: "nat list"
  pl_acc :: "nat list"

definition mk_pipeline :: "pipeline_config \<Rightarrow> pipeline" where
  "mk_pipeline cfg = \<lparr>pl_cfg = cfg, pl_mem = None, pl_bp = None, pl_next = 0, pl_last = 0,
     pl_report = no_report, pl_scalar = replicate 27 0, pl_vector = replicate 9 0,
     pl_acc = replicate 3 0\<rparr>"

definition set_mem_hierarchy :: "mem_hier option \<Rightarrow> pipeline \<Rightarrow> pipeline" where
  "set_mem_hierarchy h p = p\<lparr>pl_mem := h\<rparr>"

definition set_branch_predictor :: "predictor option \<Rightarrow> pipeline \<Rightarrow> pipeline" where
  "set_branch_predictor b p = p\<lparr>pl_bp := b\<rparr>"

section \<open>Timing of one instruction\<close>

fun extra_latency :: "opcode \<Rightarrow> pipeline_config \<Rightarrow> int" where
  "extra_latency TVMAC cfg = pc_tvmac_extra_latency cfg"
| "extra_latency TVMUL cfg = pc_vmul_extra_latency cfg"
| "extra_latency TLOAD cfg = pc_mem_extra_latency cfg"
| "extra_latency TVLOAD cfg = pc_mem_extra_latency cfg"
| "extra_latency TSTORE cfg = pc_mem_extra_latency cfg"
| "extra_latency TVSTORE cfg = pc_mem_extra_latency cfg"
| "extra_latency _ cfg = 0"

definition cell_at :: "nat list \<Rightarrow> nat \<Rightarrow> nat" where
  "cell_at xs idx = (if idx < length xs then xs ! idx else 0)"

fun ready_cycle :: "reg_kind \<Rightarrow> nat \<Rightarrow> pipeline \<Rightarrow> nat" where
  "ready_cycle RF_Scalar idx p = cell_at (pl_scalar p) idx"
| "ready_cycle RF_Vector idx p = cell_at (pl_vector p) idx"
| "ready_cycle RF_Acc idx p = cell_at (pl_acc p) idx"
| "ready_cycle RF_None idx p = 0"

fun set_ready :: "reg_kind \<Rightarrow> nat \<Rightarrow> nat \<Rightarrow> pipeline \<Rightarrow> pipeline" where
  "set_ready RF_Scalar idx c p = (if idx < length (pl_scalar p) then p\<lparr>pl_scalar := (pl_scalar p)[idx := c]\<rparr> else p)"
| "set_ready RF_Vector idx c p = (if idx < length (pl_vector p) then p\<lparr>pl_vector := (pl_vector p)[idx := c]\<rparr> else p)"
| "set_ready RF_Acc idx c p = (if idx < length (pl_acc p) then p\<lparr>pl_acc := (pl_acc p)[idx := c]\<rparr> else p)"
| "set_ready RF_None idx c p = p"

definition read_offset :: "pipeline_config \<Rightarrow> nat" where
  "read_offset cfg = (if pc_forwarding_enabled cfg then 4 else 2)"

text \<open>The local \<open>bump\<close>: raise the earliest issue so that the read stage sees a ready value.\<close>

definition dep_bump :: "nat \<Rightarrow> reg_kind \<Rightarrow> nat \<Rightarrow> pipeline \<Rightarrow> nat \<Rightarrow> nat" where
  "dep_bump off file idx p dep =
     (let r = ready_cycle file idx p
      in if r > off then (let cand = r - off in if cand > dep then cand else dep) else dep)"

definition dep_min_issue :: "instr_trace \<Rightarrow> pipeline \<Rightarrow> nat" where
  "dep_min_issue t p =
     (if pc_track_raw (pl_cfg p) then
        let info = op_info_of (it_op t);
            off = read_offset (pl_cfg p);
            d1 = (if oi_src1 info \<noteq> RF_None then dep_bump off (oi_src1 info) (it_src1 t) p 0 else 0);
            d2 = (if oi_src2 info \<noteq> RF_None then dep_bump off (oi_src2 info) (it_src2 t) p d1 else d1)
        in if oi_rmw info \<and> oi_dst info \<noteq> RF_None then dep_bump off (oi_dst info) (it_dst t) p d2 else d2
      else 0)"

definition sum_i32 :: "int list \<Rightarrow> int res" where
  "sum_i32 xs = foldl (\<lambda>r x. rbind r (\<lambda>a. if in_i32 (a + x) then Inr (a + x) else Inl (SignedOverflow ''int +'')))
     (Inr 0) xs"

text \<open>The access of a memory operation: it may push the issue forward and sets the latency.\<close>

definition mem_stage :: "instr_trace \<Rightarrow> nat \<Rightarrow> int \<Rightarrow> pipeline \<Rightarrow> (nat \<times> int \<times> pipeline) res" where
  "mem_stage t issued extra p =
     (case pl_mem p of
        None \<Rightarrow> Inr (issued, extra, p)
      | Some m \<Rightarrow>
          if \<not> is_mem_op (it_op t) then Inr (issued, extra, p)
          else
            let pre = ms_mshr_stall (mh_stats m);
                (r, m') = access_at (it_mem_addr t) issued m;
                post = ms_mshr_stall (mh_stats m')
            in rbind (sum_i32 [mr_latency r, - 1]) (\<lambda>e.
                 Inr (mr_issue r, if e < 0 then 0 else e,
                   p\<lparr>pl_mem := Some m',
                     pl_report := (pl_report p)\<lparr>pr_mshr_stall_cycles :=
                       pr_mshr_stall_cycles (pl_report p) + (post - pre)\<rparr>\<rparr>)))"

definition retire_offset :: "pipeline_config \<Rightarrow> int \<Rightarrow> int res" where
  "retire_offset cfg extra = sum_i32 [pc_depth cfg, - 1, extra]"

definition write_offset :: "pipeline_config \<Rightarrow> int \<Rightarrow> int res" where
  "write_offset cfg extra =
     (if pc_forwarding_enabled cfg then sum_i32 [4, extra] else retire_offset cfg extra)"

definition mark_ready :: "instr_trace \<Rightarrow> nat \<Rightarrow> pipeline \<Rightarrow> pipeline" where
  "mark_ready t write_cycle p =
     (if pc_track_raw (pl_cfg p) \<and> oi_dst (op_info_of (it_op t)) \<noteq> RF_None
      then set_ready (oi_dst (op_info_of (it_op t))) (it_dst t) write_cycle p else p)"

definition branch_stage :: "instr_trace \<Rightarrow> pipeline \<Rightarrow> pipeline" where
  "branch_stage t p =
     (case pl_bp p of
        None \<Rightarrow> p
      | Some b \<Rightarrow>
          if \<not> is_branch_op (it_op t) then p
          else let (correct, b') = predict_and_update (it_pc t) (it_branch_taken t) (it_branch_target t) b;
                   pen = to_size (mispredict_penalty b')
               in if correct then p\<lparr>pl_bp := Some b'\<rparr>
                  else p\<lparr>pl_bp := Some b', pl_next := u64 (pl_next p + pen),
                    pl_report := (pl_report p)\<lparr>pr_bp_penalty_cycles :=
                      pr_bp_penalty_cycles (pl_report p) + of_nat pen\<rparr>\<rparr>)"

definition account :: "opcode \<Rightarrow> nat \<Rightarrow> pipeline \<Rightarrow> pipeline" where
  "account p_op retired p =
     (let last = (if retired > pl_last p then retired else pl_last p);
          k = fu_index (classify p_op);
          rep = pl_report p
      in p\<lparr>pl_last := last,
           pl_report := rep\<lparr>pr_insns_total := pr_insns_total rep + 1,
             pr_insns_by_fu := (pr_insns_by_fu rep)[k := pr_insns_by_fu rep ! k + 1],
             pr_cycles_total := of_nat last + 1\<rparr>\<rparr>)"

definition on_retire :: "instr_trace \<Rightarrow> pipeline \<Rightarrow> (instr_trace \<times> pipeline) res" where
  "on_retire t p =
     rbind (mem_stage t (max (pl_next p) (dep_min_issue t p)) (extra_latency (it_op t) (pl_cfg p)) p)
       (\<lambda>(issued, extra, p1).
     rbind (write_offset (pl_cfg p1) extra) (\<lambda>woff.
     rbind (retire_offset (pl_cfg p1) extra) (\<lambda>roff.
       let retired = u64 (issued + to_size roff);
           p2 = mark_ready t (u64 (issued + to_size woff)) p1;
           p3 = branch_stage t (p2\<lparr>pl_next := u64 (issued + 1)\<rparr>)
       in Inr (t\<lparr>it_cycle_issued := issued, it_cycle_retired := retired\<rparr>,
               account (it_op t) retired p3))))"

text \<open>A stream of retired instructions.\<close>

fun run_pipe :: "instr_trace list \<Rightarrow> pipeline \<Rightarrow> (instr_trace list \<times> pipeline) res" where
  "run_pipe [] p = Inr ([], p)"
| "run_pipe (t # ts) p =
     rbind (on_retire t p) (\<lambda>(t', p1). rbind (run_pipe ts p1) (\<lambda>(ts', p2). Inr (t' # ts', p2)))"

section \<open>What the stages keep\<close>

definition sources :: "instr_trace \<Rightarrow> (reg_kind \<times> nat) set" where
  "sources t = (let i = op_info_of (it_op t) in
     {(f, k). f \<noteq> RF_None \<and> (f = oi_src1 i \<and> k = it_src1 t \<or> f = oi_src2 i \<and> k = it_src2 t
        \<or> oi_rmw i \<and> f = oi_dst i \<and> k = it_dst t)})"

lemma dep_bump_ge: "dep \<le> dep_bump off f k p dep" "ready_cycle f k p \<le> dep_bump off f k p dep + off"
  by (auto simp: dep_bump_def Let_def)

lemma dep_bump_le: "dep \<le> M \<Longrightarrow> ready_cycle f k p \<le> M \<Longrightarrow> dep_bump off f k p dep \<le> M"
  by (auto simp: dep_bump_def Let_def)

lemma dep_min_issue_ge:
  assumes "pc_track_raw (pl_cfg p)" and "(f, k) \<in> sources t"
  shows "ready_cycle f k p \<le> dep_min_issue t p + read_offset (pl_cfg p)"
proof -
  let ?i = "op_info_of (it_op t)" and ?off = "read_offset (pl_cfg p)"
  define d1 where "d1 = (if oi_src1 ?i \<noteq> RF_None then dep_bump ?off (oi_src1 ?i) (it_src1 t) p 0 else 0)"
  define d2 where "d2 = (if oi_src2 ?i \<noteq> RF_None then dep_bump ?off (oi_src2 ?i) (it_src2 t) p d1 else d1)"
  define d3 where "d3 = (if oi_rmw ?i \<and> oi_dst ?i \<noteq> RF_None then dep_bump ?off (oi_dst ?i) (it_dst t) p d2 else d2)"
  have d: "dep_min_issue t p = d3" using assms(1) by (simp add: dep_min_issue_def Let_def d1_def d2_def d3_def)
  have mono: "d1 \<le> d2" "d2 \<le> d3" by (simp_all add: d2_def d3_def dep_bump_ge)
  consider "f = oi_src1 ?i" "k = it_src1 t" | "f = oi_src2 ?i" "k = it_src2 t"
    | "oi_rmw ?i" "f = oi_dst ?i" "k = it_dst t"
    using assms(2) by (auto simp: sources_def Let_def)
  then show ?thesis
  proof cases
    case 1
    then have "ready_cycle f k p \<le> d1 + ?off" using assms(2) dep_bump_ge(2) by (simp add: d1_def sources_def Let_def)
    then show ?thesis using d mono by linarith
  next
    case 2
    then have "ready_cycle f k p \<le> d2 + ?off" using assms(2) dep_bump_ge(2) by (simp add: d2_def sources_def Let_def)
    then show ?thesis using d mono by linarith
  next
    case 3
    then have "ready_cycle f k p \<le> d3 + ?off" using assms(2) dep_bump_ge(2) by (simp add: d3_def sources_def Let_def)
    then show ?thesis using d by simp
  qed
qed

lemma dep_min_issue_le: "(\<And>f k. ready_cycle f k p \<le> M) \<Longrightarrow> dep_min_issue t p \<le> M"
  by (auto simp: dep_min_issue_def Let_def intro!: dep_bump_le)

text \<open>
  The configuration bounds: every configured latency lies between 0 and \<open>E\<close> extra cycles,
  a misprediction costs at most \<open>P\<close> cycles, and the pipeline has at least one stage.
  \<open>slack\<close> is the longest time from issue to completion.
\<close>

definition slack :: "int \<Rightarrow> pipeline_config \<Rightarrow> nat" where
  "slack E cfg = nat (max (pc_depth cfg - 1) 4 + E)"

definition config_ok :: "int \<Rightarrow> pipeline_config \<Rightarrow> bool" where
  "config_ok E cfg \<longleftrightarrow> 0 \<le> E \<and> 1 \<le> pc_depth cfg \<and> in_i32 (pc_depth cfg) \<and> max (pc_depth cfg - 1) 4 + E < 2 ^ 31
     \<and> pc_tvmac_extra_latency cfg \<in> {0..E} \<and> pc_vmul_extra_latency cfg \<in> {0..E}
     \<and> pc_mem_extra_latency cfg \<in> {0..E}"

definition mem_ok :: "int \<Rightarrow> mem_hier \<Rightarrow> bool" where
  "mem_ok E m \<longleftrightarrow> mshrs_ok m \<and> (\<forall>l \<in> latencies m. 0 \<le> l \<and> l \<le> E + 1)"

definition pred_ok :: "nat \<Rightarrow> predictor \<Rightarrow> bool" where
  "pred_ok P b \<longleftrightarrow> wf_bp b \<and> 0 \<le> bc_mispredict_penalty (bp_cfg b) \<and> bc_mispredict_penalty (bp_cfg b) \<le> int P"

definition pipe_ok :: "int \<Rightarrow> nat \<Rightarrow> pipeline \<Rightarrow> bool" where
  "pipe_ok E P p \<longleftrightarrow> config_ok E (pl_cfg p) \<and> pred_option (mem_ok E) (pl_mem p)
     \<and> pred_option (pred_ok P) (pl_bp p) \<and> length (pr_insns_by_fu (pl_report p)) = kFuKindCount"

definition bounded :: "int \<Rightarrow> nat \<Rightarrow> pipeline \<Rightarrow> bool" where
  "bounded E N p \<longleftrightarrow> pl_next p \<le> N \<and> pl_last p \<le> N + slack E (pl_cfg p)
     \<and> (\<forall>f k. ready_cycle f k p \<le> N + slack E (pl_cfg p))
     \<and> pred_option (\<lambda>m. \<forall>c \<in> set (mh_mshr m). c \<le> N + slack E (pl_cfg p)) (pl_mem p)"

lemma extra_latency_range: "config_ok E cfg \<Longrightarrow> extra_latency q cfg \<in> {0..E}"
  by (cases q) (auto simp: config_ok_def)

lemma offsets:
  assumes "config_ok E cfg" and "0 \<le> e" and "e \<le> E"
  shows "retire_offset cfg e = Inr (pc_depth cfg - 1 + e)"
    and "write_offset cfg e = Inr ((if pc_forwarding_enabled cfg then 4 else pc_depth cfg - 1) + e)"
  using assms
  by (auto simp: retire_offset_def write_offset_def sum_i32_def config_ok_def in_i32_def)

lemma mem_stage_ok:
  assumes ok: "pipe_ok E P p" and b: "bounded E N p" and i: "i \<le> N + slack E (pl_cfg p)"
    and e: "0 \<le> e" "e \<le> E" and room: "N + 2 * slack E (pl_cfg p) < 2 ^ 64"
  obtains i' e' m rep where
    "mem_stage t i e p = Inr (i', e', p\<lparr>pl_mem := m, pl_report := rep\<rparr>)"
    and "i \<le> i'" and "i' \<le> N + slack E (pl_cfg p)" and "0 \<le> e'" and "e' \<le> E"
    and "pred_option (mem_ok E) m"
    and "pred_option (\<lambda>m. \<forall>c \<in> set (mh_mshr m). c \<le> N + 2 * slack E (pl_cfg p)) m"
    and "pr_insns_total rep = pr_insns_total (pl_report p)" and "pr_insns_by_fu rep = pr_insns_by_fu (pl_report p)"
proof -
  let ?K = "slack E (pl_cfg p)"
  have same: "p = p\<lparr>pl_mem := pl_mem p, pl_report := pl_report p\<rparr>" by simp
  have old: "pred_option (mem_ok E) (pl_mem p)"
    "pred_option (\<lambda>m. \<forall>c \<in> set (mh_mshr m). c \<le> N + 2 * ?K) (pl_mem p)"
    using ok b by (simp add: pipe_ok_def) (use b in \<open>cases "pl_mem p"; fastforce simp: bounded_def\<close>)
  consider "mem_stage t i e p = Inr (i, e, p)"
    | m where "pl_mem p = Some m" "is_mem_op (it_op t)"
    by (cases "pl_mem p"; cases "is_mem_op (it_op t)") (auto simp: mem_stage_def)
  then show ?thesis
  proof cases
    case 1
    then show ?thesis using that [of i e "pl_report p" "pl_mem p"] i e old same by simp
  next
    case 2
    obtain r m' where a: "access_at (it_mem_addr t) i m = (r, m')" by (cases "access_at (it_mem_addr t) i m")
    have m: "mshrs_ok m" "\<forall>l \<in> latencies m. 0 \<le> l \<and> l \<le> E + 1" "\<forall>c \<in> set (mh_mshr m). c \<le> N + ?K"
      using old(1) b by (auto simp: 2 mem_ok_def bounded_def)
    have r: "mshrs_ok m'" "i \<le> mr_issue r" "mr_issue r = i \<or> mr_issue r \<in> set (mh_mshr m)"
      using access_at_mshrs [OF m(1) a] by blast+
    note fr = access_at_frame [OF a]
    have l: "0 \<le> mr_latency r" "mr_latency r \<le> E + 1" using fr m(2) by blast+
    have E: "0 \<le> E" "E + 4 < 2 ^ 31" "nat (E + 1) \<le> ?K" using ok by (auto simp: pipe_ok_def config_ok_def slack_def)
    have i': "mr_issue r \<le> N + ?K" using r(3) i m(3) by auto
    have "to_size (mr_latency r) \<le> ?K" using l E by (simp add: to_size_id)
    then have "u64 (mr_issue r + to_size (mr_latency r)) \<le> N + 2 * ?K" using i' room by simp
    then have q: "\<forall>c \<in> set (mh_mshr m'). c \<le> N + 2 * ?K" using fr m(3) by fastforce
    have "sum_i32 [mr_latency r, - 1] = Inr (mr_latency r - 1)"
      using l E by (simp add: sum_i32_def in_i32_def)
    then have st: "mem_stage t i e p = Inr (mr_issue r, if mr_latency r - 1 < 0 then 0 else mr_latency r - 1,
        p\<lparr>pl_mem := Some m', pl_report := (pl_report p)\<lparr>pr_mshr_stall_cycles := pr_mshr_stall_cycles (pl_report p)
          + (ms_mshr_stall (mh_stats m') - ms_mshr_stall (mh_stats m))\<rparr>\<rparr>)"
      using 2 a by (simp add: mem_stage_def Let_def)
    have "mem_ok E m'" using r(1) fr m(2) by (simp add: mem_ok_def)
    then show ?thesis by (intro that [OF st]) (use r(2) i' l E q in \<open>simp_all\<close>)
  qed
qed

lemma set_ready_frame [simp]:
  "pl_cfg (set_ready f k c p) = pl_cfg p" "pl_mem (set_ready f k c p) = pl_mem p"
  "pl_bp (set_ready f k c p) = pl_bp p" "pl_next (set_ready f k c p) = pl_next p"
  "pl_last (set_ready f k c p) = pl_last p" "pl_report (set_ready f k c p) = pl_report p"
  by (cases f; simp)+

definition reg_exists :: "reg_kind \<Rightarrow> nat \<Rightarrow> pipeline \<Rightarrow> bool" where
  "reg_exists f k p = (case f of RF_Scalar \<Rightarrow> k < length (pl_scalar p) | RF_Vector \<Rightarrow> k < length (pl_vector p)
     | RF_Acc \<Rightarrow> k < length (pl_acc p) | RF_None \<Rightarrow> False)"

lemma no_reg_None [simp]: "\<not> reg_exists RF_None k p"
  by (simp add: reg_exists_def)

lemma ready_set_ready:
  "ready_cycle g j (set_ready f k c p) = (if g = f \<and> j = k \<and> reg_exists f k p then c else ready_cycle g j p)"
  by (cases f; cases g) (auto simp: cell_at_def reg_exists_def)

lemma reg_exists_set_ready [simp]: "reg_exists g j (set_ready f k c p) = reg_exists g j p"
  by (cases f; cases g) (auto simp: reg_exists_def)

text \<open>The register an instruction writes, as the pipeline tracks it.\<close>

definition writes :: "instr_trace \<Rightarrow> reg_kind \<Rightarrow> nat \<Rightarrow> pipeline \<Rightarrow> bool" where
  "writes t f k p \<longleftrightarrow> pc_track_raw (pl_cfg p) \<and> f = oi_dst (op_info_of (it_op t)) \<and> k = it_dst t \<and> reg_exists f k p"

lemma mark_ready_frame [simp]:
  "pl_cfg (mark_ready t c p) = pl_cfg p" "pl_mem (mark_ready t c p) = pl_mem p"
  "pl_bp (mark_ready t c p) = pl_bp p" "pl_next (mark_ready t c p) = pl_next p"
  "pl_last (mark_ready t c p) = pl_last p" "pl_report (mark_ready t c p) = pl_report p"
  "reg_exists g j (mark_ready t c p) = reg_exists g j p"
  by (simp_all add: mark_ready_def)

lemma ready_mark_ready:
  "ready_cycle f k (mark_ready t c p) = (if writes t f k p then c else ready_cycle f k p)"
  by (auto simp: mark_ready_def writes_def ready_set_ready)

text \<open>Changes outside the ready tables do not show in them.\<close>

lemma ready_update [simp]:
  "ready_cycle f k (p\<lparr>pl_mem := m\<rparr>) = ready_cycle f k p" "ready_cycle f k (p\<lparr>pl_bp := b\<rparr>) = ready_cycle f k p"
  "ready_cycle f k (p\<lparr>pl_next := n\<rparr>) = ready_cycle f k p" "ready_cycle f k (p\<lparr>pl_last := n\<rparr>) = ready_cycle f k p"
  "ready_cycle f k (p\<lparr>pl_report := r\<rparr>) = ready_cycle f k p"
  by (cases f; simp)+

lemma reg_exists_update [simp]:
  "reg_exists f k (p\<lparr>pl_mem := m\<rparr>) = reg_exists f k p" "reg_exists f k (p\<lparr>pl_bp := b\<rparr>) = reg_exists f k p"
  "reg_exists f k (p\<lparr>pl_next := n\<rparr>) = reg_exists f k p" "reg_exists f k (p\<lparr>pl_last := n\<rparr>) = reg_exists f k p"
  "reg_exists f k (p\<lparr>pl_report := r\<rparr>) = reg_exists f k p"
  by (cases f; simp add: reg_exists_def)+

lemma branch_stage_ok:
  assumes "pipe_ok E P p" and "pl_next p + P < 2 ^ 64"
  obtains b n rep where "branch_stage t p = p\<lparr>pl_bp := b, pl_next := n, pl_report := rep\<rparr>"
    and "pred_option (pred_ok P) b" and "pl_next p \<le> n" and "n \<le> pl_next p + P"
    and "pr_insns_total rep = pr_insns_total (pl_report p)" and "pr_insns_by_fu rep = pr_insns_by_fu (pl_report p)"
proof -
  have same: "p = p\<lparr>pl_bp := pl_bp p, pl_next := pl_next p, pl_report := pl_report p\<rparr>" by simp
  consider "branch_stage t p = p" | b where "pl_bp p = Some b" "is_branch_op (it_op t)"
    by (cases "pl_bp p"; cases "is_branch_op (it_op t)") (auto simp: branch_stage_def)
  then show ?thesis
  proof cases
    case 1
    then show ?thesis using that [of "pl_report p" "pl_next p" "pl_bp p"] assms(1) same by (simp add: pipe_ok_def)
  next
    case 2
    obtain h b' where u: "predict_and_update (it_pc t) (it_branch_taken t) (it_branch_target t) b = (h, b')"
      by (cases "predict_and_update (it_pc t) (it_branch_taken t) (it_branch_target t) b")
    have b: "pred_ok P b" using assms(1) by (simp add: pipe_ok_def 2)
    then have w: "wf_bp b'" "bp_cfg b' = bp_cfg b" using predict_and_update_wf [OF _ u] by (auto simp: pred_ok_def)
    then have b': "pred_ok P b'" using b by (simp add: pred_ok_def)
    have pen: "0 \<le> mispredict_penalty b'" "mispredict_penalty b' \<le> int P"
      using b' by (auto simp: pred_ok_def mispredict_penalty_def)
    then have size: "to_size (mispredict_penalty b') \<le> P" using assms(2) by (simp add: to_size_id)
    have bs: "branch_stage t p = (if h then p\<lparr>pl_bp := Some b'\<rparr>
        else p\<lparr>pl_bp := Some b', pl_next := pl_next p + to_size (mispredict_penalty b'),
          pl_report := (pl_report p)\<lparr>pr_bp_penalty_cycles := pr_bp_penalty_cycles (pl_report p)
            + of_nat (to_size (mispredict_penalty b'))\<rparr>\<rparr>)"
      using 2 u size assms(2) by (simp add: branch_stage_def Let_def)
    show ?thesis
    proof (cases h)
      case True
      show ?thesis by (rule that [of "pl_report p" "pl_next p" "Some b'"]) (simp_all add: bs True b')
    next
      case False
      note bs' = bs [unfolded if_not_P [OF False]]
      show ?thesis by (rule that [OF bs']) (simp_all add: b' size)
    qed
  qed
qed

section \<open>One instruction\<close>

text \<open>Everything the pipeline does with one instruction, when the cycle counter has room.\<close>

definition advance :: "int \<Rightarrow> nat \<Rightarrow> pipeline_config \<Rightarrow> nat" where
  "advance E P cfg = slack E cfg + 1 + P"

lemma on_retire_step:
  assumes ok: "pipe_ok E P p" and b: "bounded E N p"
    and room: "N + 2 * slack E (pl_cfg p) + P + 1 < 2 ^ 64"
  obtains t' p' where "on_retire t p = Inr (t', p')"
    and "pipe_ok E P p'" and "pl_cfg p' = pl_cfg p" and "bounded E (N + advance E P (pl_cfg p)) p'"
    and "pl_next p \<le> it_cycle_issued t'" and "dep_min_issue t p \<le> it_cycle_issued t'"
    and "it_cycle_issued t' < pl_next p'"
    and "it_cycle_issued t' + nat (pc_depth (pl_cfg p) - 1) \<le> it_cycle_retired t'"
    and "pl_last p' = max (pl_last p) (it_cycle_retired t')"
    and "pr_insns_total (pl_report p') = pr_insns_total (pl_report p) + 1"
    and "pr_cycles_total (pl_report p') = of_nat (pl_last p') + 1"
    and "pr_insns_by_fu (pl_report p') = (let k = fu_index (classify (it_op t)) in
           (pr_insns_by_fu (pl_report p))[k := pr_insns_by_fu (pl_report p) ! k + 1])"
    and "\<forall>f k. reg_exists f k p' = reg_exists f k p"
    and "\<forall>f k. ready_cycle f k p' = (if writes t f k p
           then it_cycle_retired t' - nat (pc_depth (pl_cfg p) - 1)
             + (if pc_forwarding_enabled (pl_cfg p) then 4 else nat (pc_depth (pl_cfg p) - 1))
           else ready_cycle f k p)"
proof -
  let ?cfg = "pl_cfg p" let ?K = "slack E ?cfg" and ?i0 = "max (pl_next p) (dep_min_issue t p)"
  have cfg: "config_ok E ?cfg" using ok by (simp add: pipe_ok_def)
  have bd: "pl_next p \<le> N" "\<And>f k. ready_cycle f k p \<le> N + ?K" "pl_last p \<le> N + ?K"
    using b by (simp_all add: bounded_def)
  have i0: "?i0 \<le> N + ?K" using bd dep_min_issue_le [of p "N + ?K" t] by simp
  have e0: "0 \<le> extra_latency (it_op t) ?cfg" "extra_latency (it_op t) ?cfg \<le> E"
    using extra_latency_range [OF cfg, of "it_op t"] by simp_all
  have room1: "N + 2 * ?K < 2 ^ 64" using room by linarith
  obtain i e m rep where
    ms: "mem_stage t ?i0 (extra_latency (it_op t) ?cfg) p = Inr (i, e, p\<lparr>pl_mem := m, pl_report := rep\<rparr>)"
    and i: "?i0 \<le> i" "i \<le> N + ?K" and e: "0 \<le> e" "e \<le> E" and m: "pred_option (mem_ok E) m"
    "pred_option (\<lambda>m. \<forall>c \<in> set (mh_mshr m). c \<le> N + 2 * ?K) m"
    and rep: "pr_insns_total rep = pr_insns_total (pl_report p)" "pr_insns_by_fu rep = pr_insns_by_fu (pl_report p)"
    by (rule mem_stage_ok [OF ok b i0 e0 room1, of t]) blast
  let ?d = "pc_depth ?cfg - 1" let ?w = "if pc_forwarding_enabled ?cfg then 4 else ?d"
  have d: "0 \<le> ?d" "?d + e < 2 ^ 64" "?w + e < 2 ^ 64" "0 \<le> ?w"
    "nat (?d + e) \<le> ?K" "nat (?w + e) \<le> ?K" using cfg e by (auto simp: config_ok_def slack_def)
  then have sz: "to_size (?d + e) = nat (?d + e)" "to_size (?w + e) = nat (?w + e)"
    using e by (auto intro!: to_size_id)
  let ?ret = "i + nat (?d + e)" and ?wr = "i + nat (?w + e)"
  have u: "u64 (i + to_size (?d + e)) = ?ret" "u64 (i + to_size (?w + e)) = ?wr" "u64 (i + 1) = i + 1"
    unfolding sz using d i room by (simp_all add: u64_id)
  define p1 where "p1 = p\<lparr>pl_mem := m, pl_report := rep\<rparr>"
  define p2 where "p2 = (mark_ready t ?wr p1)\<lparr>pl_next := i + 1\<rparr>"
  have ok2: "pipe_ok E P p2" using ok m(1) rep by (simp add: p2_def p1_def pipe_ok_def)
  have n2: "pl_next p2 = i + 1" by (simp add: p2_def)
  have room2: "pl_next p2 + P < 2 ^ 64" using i room by (simp add: n2)
  obtain bp n rep2 where
    bs: "branch_stage t p2 = p2\<lparr>pl_bp := bp, pl_next := n, pl_report := rep2\<rparr>"
    and bp: "pred_option (pred_ok P) bp" and n: "i + 1 \<le> n" "n \<le> i + 1 + P"
    and rep2: "pr_insns_total rep2 = pr_insns_total (pl_report p2)" "pr_insns_by_fu rep2 = pr_insns_by_fu (pl_report p2)"
    by (rule branch_stage_ok [OF ok2 room2, of t]) (simp add: n2)
  define p3 where "p3 = p2\<lparr>pl_bp := bp, pl_next := n, pl_report := rep2\<rparr>"
  define t' where "t' = t\<lparr>it_cycle_issued := i, it_cycle_retired := ?ret\<rparr>"
  define p' where "p' = account (it_op t) ?ret p3"
  have c1: "pl_cfg p1 = ?cfg" and p3: "branch_stage t p2 = p3" by (simp_all add: p1_def bs p3_def)
  have run: "on_retire t p = Inr (t', p')"
    by (simp only: on_retire_def ms rbind_simps prod.case p1_def [symmetric] c1 offsets [OF cfg e] u
        Let_def p2_def [symmetric] p3 t'_def p'_def)
  have frame: "pl_cfg p' = ?cfg" "pl_mem p' = m" "pl_bp p' = bp" "pl_next p' = n" "pl_last p' = max (pl_last p) ?ret"
    by (simp_all add: p'_def account_def Let_def p3_def p2_def p1_def max_def)
  have ready: "ready_cycle f k p' = (if writes t f k p then ?wr else ready_cycle f k p)" for f k
  proof -
    have "writes t f k p1 = writes t f k p" by (simp add: writes_def p1_def)
    then show ?thesis by (simp add: p'_def account_def Let_def p3_def p2_def ready_mark_ready) (simp add: p1_def)
  qed
  have fus: "length (pr_insns_by_fu (pl_report p')) = kFuKindCount"
    using ok rep rep2 by (simp add: p'_def account_def Let_def p3_def p2_def p1_def pipe_ok_def)
  have ok': "pipe_ok E P p'" unfolding pipe_ok_def frame using cfg m(1) bp fus by simp
  have K: "slack E (pl_cfg p') = ?K" by (simp add: frame)
  have "bounded E (N + advance E P ?cfg) p'"
  proof -
    have "ready_cycle f k p' \<le> N + advance E P ?cfg + ?K" for f k
      using bd(2) [of f k] i(2) d(6) by (simp add: ready advance_def)
    moreover have "pred_option (\<lambda>m. \<forall>c \<in> set (mh_mshr m). c \<le> N + advance E P ?cfg + ?K) (pl_mem p')"
      using m(2) by (cases m) (force simp: frame advance_def)+
    ultimately show ?thesis using n i(2) bd(3) d(5) unfolding bounded_def K by (simp add: frame advance_def)
  qed
  moreover have wr: "?wr = ?ret - nat ?d + (if pc_forwarding_enabled ?cfg then 4 else nat ?d)"
    using d e by (auto simp: nat_add_distrib)
  moreover have "\<forall>f k. ready_cycle f k p' = (if writes t f k p then it_cycle_retired t' - nat ?d
      + (if pc_forwarding_enabled ?cfg then 4 else nat ?d) else ready_cycle f k p)"
    by (simp only: ready wr) (simp add: t'_def)
  moreover have "pl_next p \<le> it_cycle_issued t'" "dep_min_issue t p \<le> it_cycle_issued t'"
    "it_cycle_issued t' < pl_next p'" "it_cycle_issued t' + nat ?d \<le> it_cycle_retired t'"
    "pl_last p' = max (pl_last p) (it_cycle_retired t')"
    using i(1) n(1) e d(1) by (simp_all add: t'_def frame)
  moreover have "pr_insns_total (pl_report p') = pr_insns_total (pl_report p) + 1"
    "pr_cycles_total (pl_report p') = of_nat (pl_last p') + 1"
    "pr_insns_by_fu (pl_report p') = (let k = fu_index (classify (it_op t)) in
       (pr_insns_by_fu (pl_report p))[k := pr_insns_by_fu (pl_report p) ! k + 1])"
    "\<forall>f k. reg_exists f k p' = reg_exists f k p"
    by (simp_all add: p'_def account_def Let_def p3_def rep2) (simp_all add: p2_def p1_def rep)
  ultimately show ?thesis using that [OF run ok' frame(1)] by blast
qed

section \<open>Streams of instructions\<close>

lemma sum_list_bump:
  "k < length xs \<Longrightarrow> sum_list (xs[k := xs ! k + (1 :: 64 word)]) = sum_list xs + 1"
  by (induction xs arbitrary: k) (auto simp: nth_Cons split: nat.splits)

lemma fu_index_less: "fu_index c < kFuKindCount"
  by (cases c) (simp_all add: kFuKindCount_def)

text \<open>The room a stream of \<open>n\<close> instructions needs in the cycle counter.\<close>

definition roomy :: "int \<Rightarrow> nat \<Rightarrow> nat \<Rightarrow> nat \<Rightarrow> pipeline_config \<Rightarrow> bool" where
  "roomy E P N n cfg \<longleftrightarrow> N + n * advance E P cfg + 2 * slack E cfg + P + 1 < 2 ^ 64"

lemma roomy_Suc:
  "roomy E P N (Suc n) cfg \<Longrightarrow> roomy E P (N + advance E P cfg) n cfg"
  "roomy E P N (Suc n) cfg \<Longrightarrow> N + 2 * slack E cfg + P + 1 < 2 ^ 64"
  by (simp_all add: roomy_def algebra_simps)

lemma run_pipe_ok:
  assumes "pipe_ok E P p" and "bounded E N p" and "roomy E P N (length ts) (pl_cfg p)"
  shows "\<exists>ts' p'. run_pipe ts p = Inr (ts', p') \<and> length ts' = length ts \<and> pipe_ok E P p'
    \<and> bounded E (N + length ts * advance E P (pl_cfg p)) p' \<and> pl_cfg p' = pl_cfg p
    \<and> pl_next p + length ts \<le> pl_next p'
    \<and> sorted_wrt (<) (map it_cycle_issued ts') \<and> (\<forall>t \<in> set ts'. pl_next p \<le> it_cycle_issued t)
    \<and> pr_insns_total (pl_report p') = pr_insns_total (pl_report p) + of_nat (length ts)
    \<and> sum_list (pr_insns_by_fu (pl_report p')) = sum_list (pr_insns_by_fu (pl_report p)) + of_nat (length ts)
    \<and> (ts \<noteq> [] \<longrightarrow> pl_next p + length ts + nat (pc_depth (pl_cfg p) - 1) \<le> pl_last p' + 1
         \<and> pr_cycles_total (pl_report p') = of_nat (pl_last p') + 1)"
  using assms
proof (induction ts arbitrary: p N)
  case (Cons t ts)
  note room = roomy_Suc [OF Cons.prems(3) [unfolded list.size(4) add_0_right add_Suc_right]]
  obtain t' p1 where s: "on_retire t p = Inr (t', p1)" and ok1: "pipe_ok E P p1" and c1: "pl_cfg p1 = pl_cfg p"
    and b1: "bounded E (N + advance E P (pl_cfg p)) p1" and iss: "pl_next p \<le> it_cycle_issued t'"
    "it_cycle_issued t' < pl_next p1" and ret: "it_cycle_issued t' + nat (pc_depth (pl_cfg p) - 1) \<le> it_cycle_retired t'"
    and last: "pl_last p1 = max (pl_last p) (it_cycle_retired t')"
    and cnt: "pr_insns_total (pl_report p1) = pr_insns_total (pl_report p) + 1"
    "pr_cycles_total (pl_report p1) = of_nat (pl_last p1) + 1"
    "pr_insns_by_fu (pl_report p1) = (let k = fu_index (classify (it_op t)) in
       (pr_insns_by_fu (pl_report p))[k := pr_insns_by_fu (pl_report p) ! k + 1])"
    by (rule on_retire_step [OF Cons.prems(1,2) room(2), of t]) blast
  have "fu_index (classify (it_op t)) < length (pr_insns_by_fu (pl_report p))"
    using Cons.prems(1) fu_index_less by (simp add: pipe_ok_def)
  then have fus: "sum_list (pr_insns_by_fu (pl_report p1)) = sum_list (pr_insns_by_fu (pl_report p)) + 1"
    by (simp add: cnt(3) Let_def sum_list_bump)
  have r1: "roomy E P (N + advance E P (pl_cfg p)) (length ts) (pl_cfg p1)" using room(1) by (simp add: c1)
  from Cons.IH [OF ok1 b1 this] obtain ts' p' where IH: "run_pipe ts p1 = Inr (ts', p')" "length ts' = length ts"
    "pipe_ok E P p'" "bounded E (N + advance E P (pl_cfg p) + length ts * advance E P (pl_cfg p1)) p'"
    "pl_cfg p' = pl_cfg p1" "pl_next p1 + length ts \<le> pl_next p'" "sorted_wrt (<) (map it_cycle_issued ts')"
    "\<forall>t \<in> set ts'. pl_next p1 \<le> it_cycle_issued t"
    "pr_insns_total (pl_report p') = pr_insns_total (pl_report p1) + of_nat (length ts)"
    "sum_list (pr_insns_by_fu (pl_report p')) = sum_list (pr_insns_by_fu (pl_report p1)) + of_nat (length ts)"
    "ts \<noteq> [] \<longrightarrow> pl_next p1 + length ts + nat (pc_depth (pl_cfg p1) - 1) \<le> pl_last p' + 1
         \<and> pr_cycles_total (pl_report p') = of_nat (pl_last p') + 1"
    by blast
  have "run_pipe (t # ts) p = Inr (t' # ts', p')" using s IH(1) by simp
  moreover have "sorted_wrt (<) (map it_cycle_issued (t' # ts'))" using IH(7,8) iss(2) by fastforce
  moreover have "\<forall>t \<in> set (t' # ts'). pl_next p \<le> it_cycle_issued t" using IH(8) iss by fastforce
  moreover have "pl_next p + length (t # ts) + nat (pc_depth (pl_cfg p) - 1) \<le> pl_last p' + 1
      \<and> pr_cycles_total (pl_report p') = of_nat (pl_last p') + 1"
  proof (cases "ts = []")
    case True
    then have "p' = p1" using IH(1) by simp
    then show ?thesis using True iss ret last cnt(2) by simp
  next
    case False
    then show ?thesis using IH(11) iss c1 by simp
  qed
  moreover have "bounded E (N + length (t # ts) * advance E P (pl_cfg p)) p'"
    using IH(4) by (simp add: c1 algebra_simps)
  ultimately show ?case using IH(2,3,5,6,9,10) iss cnt(1) fus c1
    by (intro exI [of _ "t' # ts'"] exI [of _ p']) (simp add: algebra_simps)
qed (simp add: roomy_def)

text \<open>A value stays ready from the instruction that writes it until the next one that does.\<close>

lemma run_pipe_ready:
  assumes "pipe_ok E P p" and "bounded E N p" and "roomy E P N (length ts) (pl_cfg p)"
    and "run_pipe ts p = Inr (ts', p')"
    and "\<forall>t \<in> set ts. \<not> (oi_dst (op_info_of (it_op t)) = f \<and> it_dst t = k)"
  shows "ready_cycle f k p' = ready_cycle f k p \<and> pl_cfg p' = pl_cfg p \<and> pipe_ok E P p'
    \<and> bounded E (N + length ts * advance E P (pl_cfg p)) p'"
  using assms
proof (induction ts arbitrary: p N ts')
  case (Cons t ts)
  note room = roomy_Suc [OF Cons.prems(3) [unfolded list.size(4) add_0_right add_Suc_right]]
  obtain t' p1 where s: "on_retire t p = Inr (t', p1)" and ok1: "pipe_ok E P p1" and c1: "pl_cfg p1 = pl_cfg p"
    and b1: "bounded E (N + advance E P (pl_cfg p)) p1"
    and rdy: "\<forall>f k. ready_cycle f k p1 = (if writes t f k p
           then it_cycle_retired t' - nat (pc_depth (pl_cfg p) - 1)
             + (if pc_forwarding_enabled (pl_cfg p) then 4 else nat (pc_depth (pl_cfg p) - 1))
           else ready_cycle f k p)"
    by (rule on_retire_step [OF Cons.prems(1,2) room(2), of t]) blast
  obtain us where r: "run_pipe ts p1 = Inr (us, p')" using Cons.prems(4) s by auto
  have "ready_cycle f k p1 = ready_cycle f k p" using rdy Cons.prems(5) by (auto simp: writes_def)
  then show ?case
    using Cons.IH [OF ok1 b1 _ r] room(1) Cons.prems(5) by (simp add: c1 algebra_simps)
qed simp

lemma raw_respected:
  assumes ok: "pipe_ok E P p" and b: "bounded E N p" and room: "roomy E P N (length ys + 2) (pl_cfg p)"
    and run: "run_pipe (a # ys @ [c]) p = Inr (a' # ys' @ [c'], q)" and len: "length ys' = length ys"
    and track: "pc_track_raw (pl_cfg p)" and w: "oi_dst (op_info_of (it_op a)) = f" "it_dst a = k"
    and ex: "reg_exists f k p"
    and none: "\<forall>t \<in> set ys. \<not> (oi_dst (op_info_of (it_op t)) = f \<and> it_dst t = k)"
    and src: "(f, k) \<in> sources c"
  shows "it_cycle_retired a' - nat (pc_depth (pl_cfg p) - 1)
      + (if pc_forwarding_enabled (pl_cfg p) then 4 else nat (pc_depth (pl_cfg p) - 1))
    \<le> it_cycle_issued c' + read_offset (pl_cfg p)"
    and "it_cycle_issued a' + nat (pc_depth (pl_cfg p) - 1) \<le> it_cycle_retired a'"
proof -
  let ?cfg = "pl_cfg p" let ?A = "advance E P ?cfg"
  have room0: "N + 2 * slack E ?cfg + P + 1 < 2 ^ 64" using room by (simp add: roomy_def)
  obtain a2 p1 where s: "on_retire a p = Inr (a2, p1)" and ok1: "pipe_ok E P p1" and c1: "pl_cfg p1 = ?cfg"
    and b1: "bounded E (N + ?A) p1"
    and late: "it_cycle_issued a2 + nat (pc_depth ?cfg - 1) \<le> it_cycle_retired a2"
    and rdy: "\<forall>f k. ready_cycle f k p1 = (if writes a f k p
           then it_cycle_retired a2 - nat (pc_depth ?cfg - 1)
             + (if pc_forwarding_enabled ?cfg then 4 else nat (pc_depth ?cfg - 1))
           else ready_cycle f k p)"
    by (rule on_retire_step [OF ok b room0, of a]) blast
  have app: "run_pipe (xs @ zs) u = rbind (run_pipe xs u) (\<lambda>(xs', v). rbind (run_pipe zs v) (\<lambda>(zs', w). Inr (xs' @ zs', w)))" for xs zs u
    by (induction xs arbitrary: u) (auto simp: rbind_def split: sum.splits prod.splits)
  obtain us p2 v where r: "run_pipe ys p1 = Inr (us, p2)" "on_retire c p2 = Inr (v, q)"
    "a' # ys' @ [c'] = a2 # us @ [v]"
    using run s by (auto simp: app)
  then have eq: "a' = a2" "c' = v" by simp_all
  have room1: "roomy E P (N + ?A) (length ys) (pl_cfg p1)" using room by (simp add: roomy_def c1 algebra_simps)
  note mid = run_pipe_ready [OF ok1 b1 room1 r(1) none]
  have "bounded E (N + ?A + length ys * ?A) p2" "pl_cfg p2 = ?cfg" "pipe_ok E P p2" using mid by (simp_all add: c1)
  moreover have "N + ?A + length ys * ?A + 2 * slack E ?cfg + P + 1 < 2 ^ 64"
    using room by (simp add: roomy_def algebra_simps)
  ultimately obtain v2 where "on_retire c p2 = Inr (v2, q)" "dep_min_issue c p2 \<le> it_cycle_issued v2"
    using on_retire_step [of E P p2 "N + ?A + length ys * ?A" c] r(2) by (metis Inr_inject Pair_inject)
  then have "dep_min_issue c p2 \<le> it_cycle_issued c'" using r(2) eq by simp
  moreover have "ready_cycle f k p2 \<le> dep_min_issue c p2 + read_offset ?cfg"
    using dep_min_issue_ge [of p2 f k c] track src mid c1 by simp
  moreover have "ready_cycle f k p2 = ready_cycle f k p1" using mid by simp
  moreover have "ready_cycle f k p1 = it_cycle_retired a' - nat (pc_depth ?cfg - 1)
      + (if pc_forwarding_enabled ?cfg then 4 else nat (pc_depth ?cfg - 1))"
    using rdy track w ex by (simp add: writes_def eq)
  ultimately show "it_cycle_retired a' - nat (pc_depth ?cfg - 1)
      + (if pc_forwarding_enabled ?cfg then 4 else nat (pc_depth ?cfg - 1)) \<le> it_cycle_issued c' + read_offset ?cfg"
    by linarith
  show "it_cycle_issued a' + nat (pc_depth ?cfg - 1) \<le> it_cycle_retired a'" using late by (simp add: eq)
qed

end
