(* ===== verification/TerTrace.thy ===== *)
theory TerTrace
  imports TerPipeline TerReach
begin

text \<open>
  The composition of the simulator with the cycle model: the tracer of
  \<open>v2/src/harness/tersim_main.cpp\<close> is called by \<open>Sim::step\<close> after every instruction and feeds
  the pipeline. The lemmas: tracing does not change what the program computes, a traced run
  retires one instruction per step, and what the recorded addresses and branch outcomes mean.
\<close>

section \<open>The tracer\<close>

definition scaled_address :: "int \<Rightarrow> 64 word" where
  "scaled_address v = of_int v * 8"

definition trace_base :: "64 word \<Rightarrow> instr \<Rightarrow> instr_trace" where
  "trace_base pc i =
     \<lparr>it_pc = pc, it_op = op i, it_dst = dst i, it_src1 = src1 i, it_src2 = src2 i, it_imm = imm i,
      it_mem_addr = 0, it_mem_is_load = False, it_mem_is_store = False,
      it_branch_taken = False, it_branch_target = 0, it_cycle_issued = 0, it_cycle_retired = 0\<rparr>"

definition trace_mem :: "instr \<Rightarrow> sim \<Rightarrow> instr_trace \<Rightarrow> instr_trace res" where
  "trace_mem i s t =
     (if op i \<in> {TLOAD, TVLOAD} then
        rbind (read_scalar (sim_regs s) (int (src1 i))) (\<lambda>w.
          Inr (t\<lparr>it_mem_addr := scaled_address (word27_to_int w), it_mem_is_load := True\<rparr>))
      else if op i \<in> {TSTORE, TVSTORE} then
        rbind (read_scalar (sim_regs s) (int (src2 i))) (\<lambda>w.
          Inr (t\<lparr>it_mem_addr := scaled_address (word27_to_int w), it_mem_is_store := True\<rparr>))
      else Inr t)"

definition trace_of :: "64 word \<Rightarrow> instr \<Rightarrow> sim \<Rightarrow> instr_trace res" where
  "trace_of pc i s =
     rbind (trace_mem i s (trace_base pc i)) (\<lambda>t.
       let next_pc = of_int (word27_to_int (rf_pc (sim_regs s)));
           taken = (next_pc \<noteq> pc + 1)
       in Inr (t\<lparr>it_branch_taken := taken, it_branch_target := (if taken then next_pc else pc + 1)\<rparr>))"

definition tracer :: "64 word \<Rightarrow> instr \<Rightarrow> sim \<Rightarrow> pipeline \<Rightarrow> pipeline res" where
  "tracer pc i s p =
     rbind (trace_of pc i s) (\<lambda>t. rbind (on_retire t p) (\<lambda>(t', p'). Inr p'))"

section \<open>Traced execution\<close>

record traced =
  tr_sim :: sim
  tr_pipe :: pipeline

text \<open>\<open>Sim::step\<close> with its tracer set: the same step, then the callback on the new state.\<close>

definition step_traced :: "(traced, unit) sx" where
  "step_traced x =
     (let s = tr_sim x
      in if is_halted s then (Inr (), x)
         else case fetch s of
                (Inl e, u) \<Rightarrow> (Inl e, x\<lparr>tr_sim := u\<rparr>)
              | (Inr i, u) \<Rightarrow>
                  (case run_one i u of
                     (Inl e, v) \<Rightarrow> (Inl e, x\<lparr>tr_sim := v\<rparr>)
                   | (Inr _, v) \<Rightarrow>
                       (case tracer (of_int (pcv s)) i v (tr_pipe x) of
                          Inl e \<Rightarrow> (Inl e, x\<lparr>tr_sim := v\<rparr>)
                        | Inr p \<Rightarrow> (Inr (), \<lparr>tr_sim = v, tr_pipe = p\<rparr>))))"

definition run_traced :: "(traced, unit) sx" where
  "run_traced = sbind (run_loop (\<lambda>x. is_halted (tr_sim x)) step_traced kSafetyLimit) (\<lambda>_ x.
     if \<not> is_halted (tr_sim x) then (Inl (RuntimeError ''Sim::run safety limit''), x) else (Inr (), x))"

section \<open>What a trace records\<close>

definition is_load_op :: "opcode \<Rightarrow> bool" where
  "is_load_op p \<longleftrightarrow> p \<in> {TLOAD, TVLOAD}"

definition is_store_op :: "opcode \<Rightarrow> bool" where
  "is_store_op p \<longleftrightarrow> p \<in> {TSTORE, TVSTORE}"

lemma trace_of_ok:
  assumes "valid_instr i"
  shows "\<exists>t. trace_of pc i s = Inr t \<and> it_op t = op i \<and> it_dst t = dst i \<and> it_src1 t = src1 i \<and> it_src2 t = src2 i
    \<and> it_pc t = pc \<and> it_mem_addr t = (if is_load_op (op i) then scaled_address (sval s (src1 i))
         else if is_store_op (op i) then scaled_address (sval s (src2 i)) else 0)
    \<and> it_branch_taken t = (of_int (pcv s) \<noteq> pc + 1)
    \<and> it_branch_target t = (if of_int (pcv s) \<noteq> pc + 1 then of_int (pcv s) else pc + 1)"
proof -
  have "read_scalar (sim_regs s) (int k) = Inr (sreg s k)" if "k < 27" for k
    using that by (simp add: read_scalar_def reg_check_def sreg_def)
  then show ?thesis using assms
    by (auto simp: valid_instr_def trace_of_def trace_mem_def trace_base_def is_load_op_def is_store_op_def
        sval_def pcv_def Let_def)
qed

lemma fetch_valid: "fetch s = (Inr i, u) \<Longrightarrow> valid_instr i"
proof -
  assume f: "fetch s = (Inr i, u)"
  then obtain w t where "ld (word27_to_int (rf_pc (sim_regs s))) s = (Inr w, t)" "decode w = Inr i"
    by (auto simp: fetch_def sbind_def get_pc_def lift_def split: prod.splits sum.splits)
  then show ?thesis using ld_wf decode_valid by blast
qed

section \<open>Transparency\<close>

lemma step_traced_sim:
  "step_traced x = (Inr (), y) \<Longrightarrow> step (tr_sim x) = (Inr (), tr_sim y)"
  by (auto simp: step_traced_def step_def sbind_def Let_def split: if_splits prod.splits sum.splits)

lemma step_traced_ok:
  assumes st: "sim_step (tr_sim x) (Inr ()) t" and ok: "pipe_ok E P (tr_pipe x)" and b: "bounded E N (tr_pipe x)"
    and room: "N + 2 * slack E (pl_cfg (tr_pipe x)) + P + 1 < 2 ^ 64"
  shows "\<exists>p. step_traced x = (Inr (), \<lparr>tr_sim = t, tr_pipe = p\<rparr>) \<and> pipe_ok E P p
    \<and> pl_cfg p = pl_cfg (tr_pipe x) \<and> bounded E (N + advance E P (pl_cfg (tr_pipe x))) p
    \<and> pl_next (tr_pipe x) < pl_next p
    \<and> pr_insns_total (pl_report p) = pr_insns_total (pl_report (tr_pipe x)) + 1"
proof -
  from st obtain i u where nh: "\<not> is_halted (tr_sim x)" and f: "fetch (tr_sim x) = (Inr i, u)"
    and r: "run_one i u = (Inr (), t)" by (auto elim: sim_step_cases)
  obtain tr where tr: "trace_of (of_int (pcv (tr_sim x))) i t = Inr tr"
    using trace_of_ok [OF fetch_valid [OF f]] by blast
  obtain t' p where p: "on_retire tr (tr_pipe x) = Inr (t', p)" "pipe_ok E P p" "pl_cfg p = pl_cfg (tr_pipe x)"
    "bounded E (N + advance E P (pl_cfg (tr_pipe x))) p"
    "pl_next (tr_pipe x) \<le> it_cycle_issued t'" "it_cycle_issued t' < pl_next p"
    "pr_insns_total (pl_report p) = pr_insns_total (pl_report (tr_pipe x)) + 1"
    by (rule on_retire_step [OF ok b room, of tr]) blast
  have "tracer (of_int (pcv (tr_sim x))) i t (tr_pipe x) = Inr p" using tr p(1) by (simp add: tracer_def)
  then have "step_traced x = (Inr (), \<lparr>tr_sim = t, tr_pipe = p\<rparr>)" using nh f r by (simp add: step_traced_def)
  then show ?thesis using p by (intro exI [of _ p]) simp
qed

lemma keeps_step_traced: "keeps (\<lambda>x. wf_sim (tr_sim x)) step_traced"
  unfolding keeps_def
proof (intro allI impI)
  fix x :: traced assume wf: "wf_sim (tr_sim x)"
  obtain r u where f: "fetch (tr_sim x) = (r, u)" by (cases "fetch (tr_sim x)")
  have wu: "wf_sim u" using keepsD [OF keeps_fetch wf f] .
  show "wf_sim (tr_sim (snd (step_traced x)))"
  proof (cases r)
    case (Inr i)
    obtain q v where g: "run_one i u = (q, v)" by (cases "run_one i u")
    have "wf_sim v" using keepsD [OF keeps_run_one wu g] .
    then show ?thesis using f g Inr wf wu
      by (auto simp: step_traced_def Let_def split: sum.split)
  qed (use f wf wu in \<open>auto simp: step_traced_def Let_def\<close>)
qed

interpretation traced_cpu: step_machine "\<lambda>x. is_halted (tr_sim x)" step_traced "\<lambda>x. wf_sim (tr_sim x)"
  by unfold_locales (rule keeps_step_traced)

lemma traced_steps:
  assumes "reachable s n t" and "pipe_ok E P p" and "bounded E N p" and "roomy E P N n (pl_cfg p)"
  shows "\<exists>q. run_loop (\<lambda>x. is_halted (tr_sim x)) step_traced n \<lparr>tr_sim = s, tr_pipe = p\<rparr>
      = (Inr (), \<lparr>tr_sim = t, tr_pipe = q\<rparr>)
    \<and> pipe_ok E P q \<and> pl_cfg q = pl_cfg p \<and> bounded E (N + n * advance E P (pl_cfg p)) q
    \<and> pr_insns_total (pl_report q) = pr_insns_total (pl_report p) + of_nat n \<and> pl_next p + n \<le> pl_next q"
  using assms
proof (induction rule: reachable.induct)
  case (reach_step s n u t)
  let ?stop = "\<lambda>x. is_halted (tr_sim x)" and ?A = "advance E P (pl_cfg p)"
  have "roomy E P N n (pl_cfg p)" using reach_step.prems(3) by (simp add: roomy_def)
  then obtain q where q: "run_loop ?stop step_traced n \<lparr>tr_sim = s, tr_pipe = p\<rparr> = (Inr (), \<lparr>tr_sim = u, tr_pipe = q\<rparr>)"
    "pipe_ok E P q" "pl_cfg q = pl_cfg p" "bounded E (N + n * ?A) q"
    "pr_insns_total (pl_report q) = pr_insns_total (pl_report p) + of_nat n" "pl_next p + n \<le> pl_next q"
    using reach_step.IH reach_step.prems(1,2) by blast
  have room: "N + n * ?A + 2 * slack E (pl_cfg q) + P + 1 < 2 ^ 64"
    using reach_step.prems(3) by (simp add: roomy_def q(3))
  obtain v where v: "step_traced \<lparr>tr_sim = u, tr_pipe = q\<rparr> = (Inr (), \<lparr>tr_sim = t, tr_pipe = v\<rparr>)"
    "pipe_ok E P v" "pl_cfg v = pl_cfg q" "bounded E (N + n * ?A + ?A) v" "pl_next q < pl_next v"
    "pr_insns_total (pl_report v) = pr_insns_total (pl_report q) + 1"
    using step_traced_ok [of "\<lparr>tr_sim = u, tr_pipe = q\<rparr>" t E P "N + n * ?A"] reach_step.hyps(2) q(2-4) room by auto
  have "\<not> is_halted u" using reach_step.hyps(2) by (simp add: sim_step_iff)
  then have "run_loop ?stop step_traced 1 \<lparr>tr_sim = u, tr_pipe = q\<rparr> = (Inr (), \<lparr>tr_sim = t, tr_pipe = v\<rparr>)"
    using v(1) by (simp add: sbind_def)
  then have "run_loop ?stop step_traced (n + 1) \<lparr>tr_sim = s, tr_pipe = p\<rparr> = (Inr (), \<lparr>tr_sim = t, tr_pipe = v\<rparr>)"
    using traced_cpu.run_loop_add [OF q(1), of 1] by simp
  then show ?case using v q(3,5,6) by (intro exI [of _ v]) (simp add: algebra_simps)
qed (auto simp: roomy_def)

lemma run_traced_same:
  assumes "run s = (Inr (), t)" and "pipe_ok E P p" and "bounded E N p" and "roomy E P N kSafetyLimit (pl_cfg p)"
  shows "\<exists>q. run_traced \<lparr>tr_sim = s, tr_pipe = p\<rparr> = (Inr (), \<lparr>tr_sim = t, tr_pipe = q\<rparr>)
    \<and> pr_insns_total (pl_report q) - pr_insns_total (pl_report p)
        = oc_total (sim_counters t) - oc_total (sim_counters s)"
proof -
  obtain u where l: "run_loop is_halted step kSafetyLimit s = (Inr (), u)" and "t = u" and h: "is_halted t"
    using assms(1) by (auto simp: run_def sbind_def split: if_splits prod.splits sum.splits)
  then obtain k where k: "k \<le> kSafetyLimit" "reachable s k t" using run_loop_reachable by blast
  have "roomy E P N k (pl_cfg p)"
    using assms(4) mult_le_mono1 [OF k(1), of "advance E P (pl_cfg p)"] unfolding roomy_def by linarith
  then obtain q where q: "run_loop (\<lambda>x. is_halted (tr_sim x)) step_traced k \<lparr>tr_sim = s, tr_pipe = p\<rparr>
      = (Inr (), \<lparr>tr_sim = t, tr_pipe = q\<rparr>)"
    "pr_insns_total (pl_report q) = pr_insns_total (pl_report p) + of_nat k"
    using traced_steps [OF k(2) assms(2,3)] by blast
  have "run_loop (\<lambda>x. is_halted (tr_sim x)) step_traced kSafetyLimit \<lparr>tr_sim = s, tr_pipe = p\<rparr>
      = (Inr (), \<lparr>tr_sim = t, tr_pipe = q\<rparr>)"
    using traced_cpu.run_loop_more_fuel [OF q(1) _ k(1)] h by simp
  then show ?thesis using h q(2) reachable_counts [OF k(2)] by (simp add: run_traced_def sbind_def)
qed

section \<open>The address of a load\<close>

text \<open>
  The tracer reads the address register after the instruction has run, so a load into its own
  address register is recorded with the loaded word as its address.
\<close>

lemma load_trace_address:
  assumes wf: "wf_sim s" and v: "valid_instr i" and op: "op i = TLOAD" and a: "addr_ok s (sval s (src1 i))"
  shows "\<exists>t tr. run_one i s = (Inr (), t) \<and> trace_of pc i t = Inr tr
    \<and> it_mem_addr tr = scaled_address (if dst i = src1 i \<and> dst i \<noteq> 0 then mval s (nat (sval s (src1 i))) else sval s (src1 i))"
proof -
  have r: "src1 i < 27" "dst i < 27" using v by (simp_all add: valid_instr_def)
  let ?t = "put_sreg (dst i) (mword s (nat (sval s (src1 i)))) (put_count TLOAD s)"
  have "run_one i s = (Inr (), ?t)"
    using r a by (simp add: run_one_count dispatch_def op exec_tload_def sx_simps run_simps state_simps flip: sval_def)
  moreover have "shaped s" using wf by simp
  ultimately show ?thesis using trace_of_ok [OF v, of pc ?t] r op
    by (auto simp: is_load_op_def state_simps mval_def)
qed

end
