(* ===== verification/TerHazard.thy ===== *)
theory TerHazard
  imports TerPipeline TerReach
begin

text \<open>
  What an instruction reads and writes, defined by what \<open>Sim::run_one\<close> does with the registers, and
  the operand table \<open>op_info\<close> of the cycle model (\<open>v2/src/layer1/pipeline.cpp\<close>) against it: the table
  is exact for the destinations and misses no source, except that \<open>TCALL\<close> and \<open>TRET\<close> name their
  encoded destination in the place of register 26.
\<close>

section \<open>Reading and writing a register\<close>

text \<open>Two states with the same content of register \<open>k\<close> of a file, and with the same everything else.\<close>

fun same_cell :: "reg_kind \<Rightarrow> nat \<Rightarrow> sim \<Rightarrow> sim \<Rightarrow> bool" where
  "same_cell RF_Scalar k s t \<longleftrightarrow> rf_scalars (sim_regs s) ! k = rf_scalars (sim_regs t) ! k"
| "same_cell RF_Vector k s t \<longleftrightarrow> rf_vecs (sim_regs s) ! k = rf_vecs (sim_regs t) ! k"
| "same_cell RF_Acc k s t \<longleftrightarrow> rf_accs (sim_regs s) ! k = rf_accs (sim_regs t) ! k"
| "same_cell RF_None k s t \<longleftrightarrow> True"

fun blank :: "reg_kind \<Rightarrow> nat \<Rightarrow> sim \<Rightarrow> sim" where
  "blank RF_Scalar k s = s\<lparr>sim_regs := (sim_regs s)\<lparr>rf_scalars := (rf_scalars (sim_regs s))[k := word27_zero]\<rparr>\<rparr>"
| "blank RF_Vector k s = s\<lparr>sim_regs := (sim_regs s)\<lparr>rf_vecs := (rf_vecs (sim_regs s))[k := vec_zero]\<rparr>\<rparr>"
| "blank RF_Acc k s = s\<lparr>sim_regs := (sim_regs s)\<lparr>rf_accs := (rf_accs (sim_regs s))[k := vaccum_zero]\<rparr>\<rparr>"
| "blank RF_None k s = s"

definition same_but :: "reg_kind \<Rightarrow> nat \<Rightarrow> sim \<Rightarrow> sim \<Rightarrow> bool" where
  "same_but f k s t \<longleftrightarrow> blank f k s = blank f k t"

text \<open>The instruction can change the register.\<close>

definition writes_reg :: "instr \<Rightarrow> reg_kind \<Rightarrow> nat \<Rightarrow> bool" where
  "writes_reg i f k \<longleftrightarrow> (\<exists>s. wf_sim s \<and> \<not> same_cell f k s (snd (run_one i s)))"

text \<open>
  Two runs from states that differ in the register only are alike when they give the same result and
  states that differ in the register only, and the register is kept in both or has the same content.
  The instruction reads the register when two such runs are not alike.
\<close>

definition alike :: "reg_kind \<Rightarrow> nat \<Rightarrow> sim \<Rightarrow> sim \<Rightarrow> 'a res \<times> sim \<Rightarrow> 'a res \<times> sim \<Rightarrow> bool" where
  "alike f k s t x y \<longleftrightarrow> fst x = fst y \<and> same_but f k (snd x) (snd y) \<and>
     (same_cell f k s (snd x) \<and> same_cell f k t (snd y) \<or> same_cell f k (snd x) (snd y))"

definition reads_reg :: "instr \<Rightarrow> reg_kind \<Rightarrow> nat \<Rightarrow> bool" where
  "reads_reg i f k \<longleftrightarrow> (\<exists>s t. wf_sim s \<and> wf_sim t \<and> same_but f k s t \<and> \<not> alike f k s t (run_one i s) (run_one i t))"

lemma same_cell_refl [simp]: "same_cell f k s s"
  by (cases f) simp_all

lemma same_cell_trans: "same_cell f k s t \<Longrightarrow> same_cell f k t u \<Longrightarrow> same_cell f k s u"
  by (cases f) simp_all

lemma same_cell_sym: "same_cell f k s t \<Longrightarrow> same_cell f k t s"
  by (cases f) simp_all

section \<open>Destinations\<close>

lemma keeps_cell_writes:
  "\<not> (f = RF_Scalar \<and> j = k) \<Longrightarrow> keeps (same_cell f k s0) (wr j w)"
  "\<not> (f = RF_Vector \<and> j = k) \<Longrightarrow> keeps (same_cell f k s0) (wrv j v)"
  "\<not> (f = RF_Acc \<and> j = k) \<Longrightarrow> keeps (same_cell f k s0) (wra j a)"
  "keeps (same_cell f k s0) (st ad w)" "keeps (same_cell f k s0) (set_pc w)" "keeps (same_cell f k s0) (set_halted b)"
  "keeps (same_cell f k s0) (count p)"
  by (cases f; auto simp: keeps_def wr_def wrv_def wra_def st_def set_pc_def set_halted_def count_def modify_def
      write_scalar_def write_vec_def write_acc_def split: sum.splits)+

lemma keeps_cell_jump: "keeps (same_cell f k s0) (jump_to v)"
  unfolding jump_to_def by (intro keeps_intros keeps_cell_writes)

lemma dispatch_keeps_cell:
  assumes "op i \<notin> {TCALL, TRET}" and "\<not> (oi_dst (op_info_of (op i)) = f \<and> dst i = k)"
  shows "keeps (same_cell f k s0) (dispatch i)"
  using assms unfolding dispatch_def exec_defs exec_tjump_def exec_tbeq_def exec_tbne_def exec_tblt_def Let_def
  by (cases "op i"; simp add: op_info_of_def no_info_def;
      intro keeps_intros keeps_cell_jump keeps_cell_writes allI impI conjI; simp add: keeps_intros keeps_cell_jump [unfolded jump_to_def])

lemma writes_declared:
  assumes "writes_reg i f k" and "op i \<notin> {TCALL, TRET}"
  shows "oi_dst (op_info_of (op i)) = f" and "dst i = k" and "f \<noteq> RF_None"
proof -
  obtain s where s: "\<not> same_cell f k s (snd (run_one i s))" using assms(1) by (auto simp: writes_reg_def)
  have "oi_dst (op_info_of (op i)) = f \<and> dst i = k"
  proof (rule ccontr)
    assume "\<not> ?thesis"
    then have "keeps (same_cell f k s) (run_one i)"
      unfolding run_one_def by (intro keeps_sbind keeps_cell_writes dispatch_keeps_cell assms(2))
    then show False using s by (simp add: keeps_def)
  qed
  then show "oi_dst (op_info_of (op i)) = f" "dst i = k" by simp_all
  show "f \<noteq> RF_None" using s by auto
qed

section \<open>Sources\<close>

definition indep :: "reg_kind \<Rightarrow> nat \<Rightarrow> (sim, 'a) sx \<Rightarrow> bool" where
  "indep f k m \<longleftrightarrow> (\<forall>s t. same_but f k s t \<longrightarrow> alike f k s t (m s) (m t))"

named_theorems indep_intros \<open>rules for the independence of a computation from a register\<close>

lemma indep_const [indep_intros]: "indep f k (ret a)" "indep f k (throw e)" "indep f k (lift r)" "indep f k (from_int v)"
  by (simp_all add: indep_def alike_def ret_def throw_def lift_def from_int_def)

lemma indep_sbind [indep_intros]:
  assumes "indep f k m" and "\<And>a. indep f k (g a)"
  shows "indep f k (sbind m g)"
  unfolding indep_def
proof (intro allI impI)
  fix s t assume "same_but f k s t"
  then have 1: "alike f k s t (m s) (m t)" using assms(1) by (simp add: indep_def)
  obtain r s1 where s: "m s = (r, s1)" by (cases "m s")
  obtain r' t1 where t: "m t = (r', t1)" by (cases "m t")
  have r: "r' = r" using 1 by (simp add: alike_def s t)
  show "alike f k s t (sbind m g s) (sbind m g t)"
  proof (cases r)
    case (Inl e)
    then show ?thesis using 1 by (simp add: alike_def sbind_def s t r)
  next
    case (Inr a)
    have 2: "alike f k s1 t1 (g a s1) (g a t1)" using assms(2) [of a] 1 by (simp add: indep_def alike_def s t)
    have "same_cell f k s (snd (g a s1)) \<and> same_cell f k t (snd (g a t1)) \<or> same_cell f k (snd (g a s1)) (snd (g a t1))"
      using 1 2 unfolding alike_def s t fst_conv snd_conv by (metis same_cell_trans same_cell_sym)
    then show ?thesis using 2 by (simp add: alike_def sbind_def s t r Inr)
  qed
qed

lemma indep_sfor [indep_intros]: "(\<And>x. indep f k (body x)) \<Longrightarrow> indep f k (sfor body xs)"
  by (induction xs) (simp_all add: indep_intros)

lemma indep_sfold [indep_intros]: "(\<And>b x. indep f k (body b x)) \<Longrightarrow> indep f k (sfold body acc xs)"
  by (induction xs arbitrary: acc) (simp_all add: indep_intros)

lemma indep_if [indep_intros]: "indep f k a \<Longrightarrow> indep f k b \<Longrightarrow> indep f k (if c then a else b)"
  by simp

text \<open>States that agree but for a register agree on the rest.\<close>

lemma same_but_rest:
  assumes "same_but f k s t"
  shows "sim_mem t = sim_mem s" "sim_counters t = sim_counters s" "rf_pc (sim_regs t) = rf_pc (sim_regs s)"
    "rf_halted (sim_regs t) = rf_halted (sim_regs s)"
    "\<not> (f = RF_Scalar \<and> j = k) \<Longrightarrow> rf_scalars (sim_regs t) ! j = rf_scalars (sim_regs s) ! j"
    "\<not> (f = RF_Vector \<and> j = k) \<Longrightarrow> rf_vecs (sim_regs t) ! j = rf_vecs (sim_regs s) ! j"
    "\<not> (f = RF_Acc \<and> j = k) \<Longrightarrow> rf_accs (sim_regs t) ! j = rf_accs (sim_regs s) ! j"
proof -
  have b: "blank f k s = blank f k t" using assms by (simp add: same_but_def)
  have m: "sim_mem (blank f k u) = sim_mem u" "sim_counters (blank f k u) = sim_counters u"
    "rf_pc (sim_regs (blank f k u)) = rf_pc (sim_regs u)" "rf_halted (sim_regs (blank f k u)) = rf_halted (sim_regs u)" for u
    by (cases f; simp)+
  show "sim_mem t = sim_mem s" "sim_counters t = sim_counters s" "rf_pc (sim_regs t) = rf_pc (sim_regs s)"
    "rf_halted (sim_regs t) = rf_halted (sim_regs s)" using b m by metis+
  have c: "\<not> (f = RF_Scalar \<and> j = k) \<Longrightarrow> rf_scalars (sim_regs (blank f k u)) ! j = rf_scalars (sim_regs u) ! j"
    "\<not> (f = RF_Vector \<and> j = k) \<Longrightarrow> rf_vecs (sim_regs (blank f k u)) ! j = rf_vecs (sim_regs u) ! j"
    "\<not> (f = RF_Acc \<and> j = k) \<Longrightarrow> rf_accs (sim_regs (blank f k u)) ! j = rf_accs (sim_regs u) ! j" for u
    by (cases f; simp)+
  show "\<not> (f = RF_Scalar \<and> j = k) \<Longrightarrow> rf_scalars (sim_regs t) ! j = rf_scalars (sim_regs s) ! j"
    "\<not> (f = RF_Vector \<and> j = k) \<Longrightarrow> rf_vecs (sim_regs t) ! j = rf_vecs (sim_regs s) ! j"
    "\<not> (f = RF_Acc \<and> j = k) \<Longrightarrow> rf_accs (sim_regs t) ! j = rf_accs (sim_regs s) ! j" using b c by metis+
qed

lemma indep_observe: "(\<And>s t. same_but f k s t \<Longrightarrow> g s = g t) \<Longrightarrow> indep f k (\<lambda>s. (g s, s))"
  unfolding indep_def alike_def by fastforce

lemma indep_rd [indep_intros]: "\<not> (f = RF_Scalar \<and> j = k) \<Longrightarrow> indep f k (rd j)"
  unfolding rd_def [abs_def]
proof (rule indep_observe)
  fix s t assume "\<not> (f = RF_Scalar \<and> j = k)" and "same_but f k s t"
  from same_but_rest(5) [OF this(2,1)] show "read_scalar (sim_regs s) (int j) = read_scalar (sim_regs t) (int j)"
    by (simp add: read_scalar_def)
qed

lemma indep_rdv [indep_intros]: "\<not> (f = RF_Vector \<and> j = k) \<Longrightarrow> indep f k (rdv j)"
  unfolding rdv_def [abs_def]
proof (rule indep_observe)
  fix s t assume "\<not> (f = RF_Vector \<and> j = k)" and "same_but f k s t"
  from same_but_rest(6) [OF this(2,1)] show "read_vec (sim_regs s) (int j) = read_vec (sim_regs t) (int j)"
    by (simp add: read_vec_def)
qed

lemma indep_rda [indep_intros]: "\<not> (f = RF_Acc \<and> j = k) \<Longrightarrow> indep f k (rda j)"
  unfolding rda_def [abs_def]
proof (rule indep_observe)
  fix s t assume "\<not> (f = RF_Acc \<and> j = k)" and "same_but f k s t"
  from same_but_rest(7) [OF this(2,1)] show "read_acc (sim_regs s) (int j) = read_acc (sim_regs t) (int j)"
    by (simp add: read_acc_def)
qed

lemma indep_pc_ld [indep_intros]: "indep f k get_pc" "indep f k (ld ad)"
  unfolding get_pc_def [abs_def] ld_def [abs_def]
  by (rule indep_observe, drule same_but_rest(3), simp) (rule indep_observe, drule same_but_rest(1), simp)

text \<open>
  A change of the state that does not look at the register, and leaves it alone or gives it the same
  content in both runs.
\<close>

lemma indep_modify:
  assumes "\<And>s. blank f k (h s) = blank f k (h (blank f k s))"
    and "\<And>s t. same_but f k s t \<Longrightarrow> same_cell f k s (h s) \<and> same_cell f k t (h t) \<or> same_cell f k (h s) (h t)"
  shows "indep f k (modify h)"
  unfolding indep_def alike_def modify_def fst_conv snd_conv
proof (intro allI impI conjI)
  fix s t assume b: "same_but f k s t"
  have "blank f k (h s) = blank f k (h (blank f k s))" by (rule assms(1))
  also have "\<dots> = blank f k (h (blank f k t))" using b by (simp only: same_but_def)
  also have "\<dots> = blank f k (h t)" by (rule assms(1) [symmetric])
  finally show "same_but f k (h s) (h t)" by (simp only: same_but_def)
  show "same_cell f k s (h s) \<and> same_cell f k t (h t) \<or> same_cell f k (h s) (h t)" using b by (rule assms(2))
qed (rule refl)

lemma indep_state [indep_intros]: "indep f k (set_pc w)" "indep f k (set_halted b)" "indep f k (count p)"
  unfolding set_pc_def set_halted_def count_def by (rule indep_modify; cases f; simp)+

lemma same_but_length:
  assumes "same_but f k s t"
  shows "length (rf_scalars (sim_regs s)) = length (rf_scalars (sim_regs t))"
    "length (rf_vecs (sim_regs s)) = length (rf_vecs (sim_regs t))" "length (rf_accs (sim_regs s)) = length (rf_accs (sim_regs t))"
proof -
  have "length (rf_scalars (sim_regs (blank f k u))) = length (rf_scalars (sim_regs u))"
    "length (rf_vecs (sim_regs (blank f k u))) = length (rf_vecs (sim_regs u))"
    "length (rf_accs (sim_regs (blank f k u))) = length (rf_accs (sim_regs u))" for u
    by (cases f; simp)+
  then show "length (rf_scalars (sim_regs s)) = length (rf_scalars (sim_regs t))"
    "length (rf_vecs (sim_regs s)) = length (rf_vecs (sim_regs t))" "length (rf_accs (sim_regs s)) = length (rf_accs (sim_regs t))"
    using assms unfolding same_but_def by metis+
qed

lemma nth_update_both: "length xs = length ys \<Longrightarrow> xs ! k = xs[j := w] ! k \<and> ys ! k = ys[j := w] ! k \<or> xs[j := w] ! k = ys[j := w] ! k"
  by (cases "j = k"; cases "k < length xs") (simp_all add: list_update_beyond)

lemma list_update_blank: "xs[j := w, k := z] = xs[k := z, j := w, k := z]"
  by (cases "j = k") (simp_all add: list_update_swap)

lemma write_runs:
  "wr j w = (case reg_check (int j) of Inl e \<Rightarrow> throw e | Inr _ \<Rightarrow> if j = 0 then ret ()
     else modify (\<lambda>s. s\<lparr>sim_regs := (sim_regs s)\<lparr>rf_scalars := (rf_scalars (sim_regs s))[j := w]\<rparr>\<rparr>))"
  "wrv j v = (case vreg_check (int j) of Inl e \<Rightarrow> throw e | Inr _ \<Rightarrow>
     modify (\<lambda>s. s\<lparr>sim_regs := (sim_regs s)\<lparr>rf_vecs := (rf_vecs (sim_regs s))[j := v]\<rparr>\<rparr>))"
  "wra j a = (case acc_check (int j) of Inl e \<Rightarrow> throw e | Inr _ \<Rightarrow>
     modify (\<lambda>s. s\<lparr>sim_regs := (sim_regs s)\<lparr>rf_accs := (rf_accs (sim_regs s))[j := a]\<rparr>\<rparr>))"
  by (auto simp: fun_eq_iff wr_def wrv_def wra_def write_scalar_def write_vec_def write_acc_def throw_def ret_def modify_def
      split: sum.splits)

lemma indep_writes [indep_intros]: "indep f k (wr j w)" "indep f k (wrv j v)" "indep f k (wra j a)"
proof -
  have "indep f k (modify (\<lambda>s. s\<lparr>sim_regs := (sim_regs s)\<lparr>rf_scalars := (rf_scalars (sim_regs s))[j := w]\<rparr>\<rparr>))"
    by (rule indep_modify; cases f) (use nth_update_both [OF same_but_length(1)] in \<open>simp_all add: list_update_blank [symmetric]\<close>)
  then show "indep f k (wr j w)" by (simp add: write_runs indep_intros split: sum.split)
  have "indep f k (modify (\<lambda>s. s\<lparr>sim_regs := (sim_regs s)\<lparr>rf_vecs := (rf_vecs (sim_regs s))[j := v]\<rparr>\<rparr>))"
    by (rule indep_modify; cases f) (use nth_update_both [OF same_but_length(2)] in \<open>simp_all add: list_update_blank [symmetric]\<close>)
  then show "indep f k (wrv j v)" by (simp add: write_runs indep_intros split: sum.split)
  have "indep f k (modify (\<lambda>s. s\<lparr>sim_regs := (sim_regs s)\<lparr>rf_accs := (rf_accs (sim_regs s))[j := a]\<rparr>\<rparr>))"
    by (rule indep_modify; cases f) (use nth_update_both [OF same_but_length(3)] in \<open>simp_all add: list_update_blank [symmetric]\<close>)
  then show "indep f k (wra j a)" by (simp add: write_runs indep_intros split: sum.split)
qed

lemma indep_st [indep_intros]: "indep f k (st ad w)"
  unfolding indep_def
proof (intro allI impI)
  fix s t assume b: "same_but f k s t"
  have m: "sim_mem t = sim_mem s" by (rule same_but_rest(1) [OF b])
  have u: "blank f k (u\<lparr>sim_mem := x\<rparr>) = (blank f k u)\<lparr>sim_mem := x\<rparr>" "same_cell f k u (u\<lparr>sim_mem := x\<rparr>)" for u x
    by (cases f; simp)+
  show "alike f k s t (st ad w s) (st ad w t)"
  proof (cases "store_word (sim_mem s) (to_size ad) w")
    case (Inl e)
    then show ?thesis using b by (simp add: alike_def st_def m)
  next
    case (Inr x)
    then show ?thesis using b u by (simp add: alike_def st_def m same_but_def)
  qed
qed

lemma indep_jump [indep_intros]: "indep f k (jump_to v)"
  unfolding jump_to_def by (intro indep_intros)

text \<open>The sources that the table declares for an instruction.\<close>

definition instr_of :: "instr_trace \<Rightarrow> instr" where
  "instr_of t = \<lparr>op = it_op t, dst = it_dst t, src1 = it_src1 t, src2 = it_src2 t, imm = it_imm t\<rparr>"

lemma dispatch_indep:
  assumes "it_op t \<notin> {TCALL, TRET}" and "(f, k) \<notin> sources t" and "f \<noteq> RF_None"
  shows "indep f k (dispatch (instr_of t))"
  using assms unfolding dispatch_def exec_defs exec_tjump_def exec_tbeq_def exec_tbne_def exec_tblt_def Let_def sources_def instr_of_def
  by (cases "it_op t"; simp add: op_info_of_def no_info_def;
      intro indep_intros; auto intro!: indep_intros)

lemma reads_declared:
  assumes "reads_reg (instr_of t) f k" and "it_op t \<notin> {TCALL, TRET}"
  shows "(f, k) \<in> sources t"
proof (rule ccontr)
  obtain u v where u: "same_but f k u v" "\<not> alike f k u v (run_one (instr_of t) u) (run_one (instr_of t) v)"
    using assms(1) by (auto simp: reads_reg_def)
  assume no: "(f, k) \<notin> sources t"
  have "f \<noteq> RF_None"
  proof
    assume "f = RF_None"
    then show False using u by (simp add: same_but_def alike_def)
  qed
  then have "indep f k (run_one (instr_of t))"
    unfolding run_one_def by (intro indep_intros dispatch_indep assms(2) no)
  then show False using u by (simp add: indep_def)
qed

section \<open>Every declared destination is written by some instruction\<close>

text \<open>A state in which the results of all opcodes show.\<close>

definition probe_state :: sim where
  "probe_state = put_mword 1 (digits_of 27 1) (put_sreg 26 (digits_of 27 1) (put_sreg 1 (digits_of 27 1) (put_vreg 1 (replicate 27 1)
     ((mk_sim 28)\<lparr>sim_regs := mk_regfile\<lparr>rf_accs := [vaccum_zero, replicate 27 1, vaccum_zero]\<rparr>\<rparr>))))"

definition probe_instr :: "opcode \<Rightarrow> instr" where
  "probe_instr p = \<lparr>op = p, dst = (if p \<in> {TCALL, TRET} then 26 else if p = TVMAC then 0 else 2), src1 = 1,
     src2 = (if p \<in> {TAND3, TVMUL, TVMAC} then 1 else 0), imm = 1\<rparr>"

lemma wf_probe_state: "wf_sim probe_state"
proof -
  have a: "wf_acc (replicate 27 1)" and v: "wf_vec (replicate 27 1)" by code_simp+
  have "wf_sim ((mk_sim 28)\<lparr>sim_regs := mk_regfile\<lparr>rf_accs := [vaccum_zero, replicate 27 1, vaccum_zero]\<rparr>\<rparr>)"
    using wf_sim_init [of 28] a by (simp add: wf_sim_def wf_regs_def mk_regfile_def mk_sim_def)
  then have "wf_sim (put_sreg 26 (digits_of 27 1) (put_sreg 1 (digits_of 27 1) (put_vreg 1 (replicate 27 1)
     ((mk_sim 28)\<lparr>sim_regs := mk_regfile\<lparr>rf_accs := [vaccum_zero, replicate 27 1, vaccum_zero]\<rparr>\<rparr>))))"
    using v by (intro wf_put_sreg wf_put_vreg) simp_all
  then show ?thesis by (simp add: probe_state_def put_mword_def wf_sim_def)
qed

definition changes_dst :: "opcode \<Rightarrow> bool" where
  "changes_dst p \<longleftrightarrow> \<not> same_cell (oi_dst (op_info_of p)) (dst (probe_instr p)) probe_state (snd (run_one (probe_instr p) probe_state))"

lemmas probe_simps = changes_dst_def run_one_def sx_simps run_simps dispatch_def exec_defs probe_instr_def op_info_of_def no_info_def Let_def
lemmas probe_cells = probe_state_def put_mword_def put_sreg_def put_vreg_def put_areg_def put_count_def sreg_def vreg_def areg_def
  mk_sim_def mk_regfile_def

lemma changes_TADD: "changes_dst TADD"
  apply (simp add: probe_simps)
  apply (simp add: probe_cells)?
  apply code_simp?
  done

lemma changes_TSUB: "changes_dst TSUB"
  apply (simp add: probe_simps)
  apply (simp add: probe_cells)?
  apply code_simp?
  done

lemma changes_TAND3: "changes_dst TAND3"
  apply (simp add: probe_simps)
  apply (simp add: probe_cells)?
  apply code_simp?
  done

lemma changes_TOR3: "changes_dst TOR3"
  apply (simp add: probe_simps)
  apply (simp add: probe_cells)?
  apply code_simp?
  done

lemma changes_TXOR3: "changes_dst TXOR3"
  apply (simp add: probe_simps)
  apply (simp add: probe_cells)?
  apply code_simp?
  done

lemma changes_TCMP: "changes_dst TCMP"
  apply (simp add: probe_simps)
  apply (simp add: probe_cells)?
  apply code_simp?
  done

lemma changes_TNEG: "changes_dst TNEG"
  apply (simp add: probe_simps)
  apply (simp add: probe_cells)?
  apply code_simp?
  done

lemma changes_TABS: "changes_dst TABS"
  apply (simp add: probe_simps)
  apply (simp add: probe_cells)?
  apply code_simp?
  done

lemma changes_TSIGN: "changes_dst TSIGN"
  apply (simp add: probe_simps)
  apply (simp add: probe_cells)?
  apply code_simp?
  done

lemma changes_TLOADI: "changes_dst TLOADI"
  apply (simp add: probe_simps)
  apply (simp add: probe_cells)?
  apply code_simp?
  done

lemma changes_TLOAD: "changes_dst TLOAD"
  apply (simp add: probe_simps)
  apply (simp add: probe_cells)?
  apply code_simp?
  done

lemma changes_TVLOAD: "changes_dst TVLOAD"
  apply (simp add: probe_simps)
  apply (simp add: probe_cells)?
  apply code_simp?
  done

lemma changes_TCALL: "changes_dst TCALL"
  apply (simp add: probe_simps)
  apply (simp add: probe_cells)?
  apply code_simp?
  done

lemma changes_TRET: "changes_dst TRET"
  apply (simp add: probe_simps)
  apply (simp add: probe_cells)?
  apply code_simp?
  done

lemma changes_TVADD: "changes_dst TVADD"
  apply (simp add: probe_simps)
  apply (simp add: probe_cells)?
  apply code_simp?
  done

lemma changes_TVSUB: "changes_dst TVSUB"
  apply (simp add: probe_simps)
  apply (simp add: probe_cells)?
  apply code_simp?
  done

lemma changes_TVNEG: "changes_dst TVNEG"
  apply (simp add: probe_simps)
  apply (simp add: probe_cells)?
  apply code_simp?
  done

lemma changes_TVMAX: "changes_dst TVMAX"
  apply (simp add: probe_simps)
  apply (simp add: probe_cells)?
  apply code_simp?
  done

lemma changes_TVSHUF: "changes_dst TVSHUF"
  apply (simp add: probe_simps)
  apply (simp add: probe_cells)?
  apply code_simp?
  done

lemma changes_TVBROADCAST: "changes_dst TVBROADCAST"
  apply (simp add: probe_simps)
  apply (simp add: probe_cells)?
  apply code_simp?
  done

lemma changes_TVMUL: "changes_dst TVMUL"
  apply (simp add: probe_simps)
  apply (simp add: probe_cells)?
  apply code_simp?
  done

lemma changes_TVMAC: "changes_dst TVMAC"
  apply (simp add: probe_simps)
  apply (simp add: probe_cells)?
  apply code_simp?
  done

lemma changes_TVSUM: "changes_dst TVSUM"
  apply (simp add: probe_simps)
  apply (simp add: probe_cells)?
  apply code_simp?
  done

lemmas changes_all = changes_TADD changes_TSUB changes_TAND3 changes_TOR3 changes_TXOR3 changes_TCMP changes_TNEG changes_TABS changes_TSIGN changes_TLOADI changes_TLOAD changes_TVLOAD
  changes_TCALL changes_TRET changes_TVADD changes_TVSUB changes_TVNEG changes_TVMAX changes_TVSHUF changes_TVBROADCAST changes_TVMUL changes_TVMAC changes_TVSUM

lemma declared_writes:
  assumes "oi_dst (op_info_of p) = f" and "f \<noteq> RF_None"
  shows "\<exists>i. op i = p \<and> writes_reg i f (dst i)"
proof -
  have "changes_dst p" using assms by (cases p) (simp_all add: op_info_of_def no_info_def changes_all)
  then have "writes_reg (probe_instr p) f (dst (probe_instr p))"
    using wf_probe_state assms(1) by (auto simp: writes_reg_def changes_dst_def)
  then show ?thesis by (intro exI [of _ "probe_instr p"]) (simp add: probe_instr_def)
qed

text \<open>The stack pointer: \<open>TRET\<close> reads register 26 whatever its destination field says.\<close>

definition pop_load :: instr where
  "pop_load = \<lparr>op = TLOAD, dst = 26, src1 = 0, src2 = 0, imm = 0\<rparr>"

definition bare_ret :: instr where
  "bare_ret = \<lparr>op = TRET, dst = 0, src1 = 0, src2 = 0, imm = 0\<rparr>"

lemma load_writes_sp: "writes_reg pop_load RF_Scalar 26"
proof -
  have "\<not> same_cell RF_Scalar 26 probe_state (snd (run_one pop_load probe_state))"
    apply (simp add: pop_load_def probe_simps)
    apply (simp add: probe_cells)?
    apply code_simp?
    done
  then show ?thesis using wf_probe_state unfolding writes_reg_def by blast
qed

lemma ret_reads_sp: "reads_reg bare_ret RF_Scalar 26"
proof -
  let ?t = "put_sreg 26 (digits_of 27 2) probe_state"
  have "rf_pc (sim_regs (snd (run_one bare_ret probe_state))) \<noteq> rf_pc (sim_regs (snd (run_one bare_ret ?t)))"
    apply (simp add: bare_ret_def probe_simps)
    apply (simp add: probe_cells)?
    apply code_simp?
    done
  then have "\<not> alike RF_Scalar 26 probe_state ?t (run_one bare_ret probe_state) (run_one bare_ret ?t)"
    unfolding alike_def by (metis same_but_rest(3))
  moreover have "wf_sim ?t" using wf_probe_state by (intro wf_put_sreg) simp_all
  moreover have "same_but RF_Scalar 26 probe_state ?t" by (simp add: same_but_def put_sreg_def)
  ultimately show ?thesis using wf_probe_state unfolding reads_reg_def by blast
qed

text \<open>The accumulator: \<open>TVMAC\<close> writes it and \<open>TVSUM\<close> reads it.\<close>

lemma mac_writes: "writes_reg \<lparr>op = TVMAC, dst = 0, src1 = 1, src2 = 1, imm = 0\<rparr> RF_Acc 0"
proof -
  have "\<not> same_cell RF_Acc 0 probe_state (snd (run_one \<lparr>op = TVMAC, dst = 0, src1 = 1, src2 = 1, imm = 0\<rparr> probe_state))"
    apply (simp add: probe_simps)
    apply (simp add: probe_cells)?
    apply code_simp?
    done
  then show ?thesis using wf_probe_state unfolding writes_reg_def by blast
qed

lemma sum_reads: "reads_reg \<lparr>op = TVSUM, dst = 3, src1 = 0, src2 = 0, imm = 0\<rparr> RF_Acc 0"
proof -
  let ?i = "\<lparr>op = TVSUM, dst = 3, src1 = 0, src2 = 0, imm = 0\<rparr>"
  let ?t = "put_areg 0 (replicate 27 1) probe_state"
  have "rf_scalars (sim_regs (snd (run_one ?i probe_state))) ! 3 \<noteq> rf_scalars (sim_regs (snd (run_one ?i ?t))) ! 3"
    apply (simp add: probe_simps)
    apply (simp add: probe_cells)?
    apply code_simp?
    done
  then have "\<not> alike RF_Acc 0 probe_state ?t (run_one ?i probe_state) (run_one ?i ?t)"
    unfolding alike_def by (metis same_but_rest(5) reg_kind.distinct)
  moreover have "wf_acc (replicate 27 1)" by code_simp
  then have "wf_sim ?t" using wf_probe_state by (auto simp: wf_sim_def wf_regs_def put_areg_def list_all_update)
  moreover have "same_but RF_Acc 0 probe_state ?t" by (simp add: same_but_def put_areg_def)
  ultimately show ?thesis using wf_probe_state unfolding reads_reg_def by blast
qed

end
