(* ===== verification/TerSimProps.thy ===== *)
theory TerSimProps
  imports TerReuse TerTrace TerHazard
begin

text \<open>
  The properties of the cycle simulator: the caches, the miss-status registers, the branch
  predictor and the pipeline.
\<close>

section \<open>Caches\<close>

text \<open>
  C9: a freshly built cache is a strict LRU cache: on every trace of fewer than \<open>2^64\<close> byte
  addresses, an access hits exactly when its line was used before and fewer than \<open>ways\<close>
  distinct lines of its set have been used since.
\<close>

theorem cache_is_strict_lru:
  assumes "mk_cache cfg = Inr c" and "0 < cc_ways cfg" and "in_i32 (cc_ways cfg)"
    and "cc_total_bytes cfg < 2 ^ 64" and "cc_line_bytes cfg * nat (cc_ways cfg) < 2 ^ 64"
    and "length as < 2 ^ 64"
  shows "fst (level.touch_all as c) = reuse_trace (set_of c) (tag_of c) (ways_n c) [] as"
  by (rule fresh_cache_reuse [OF assms])

definition tiny_cache :: cache_config where
  "tiny_cache = \<lparr>cc_total_bytes = 256, cc_line_bytes = 64, cc_ways = 2, cc_hit_latency = 3\<rparr>"

theorem cache_is_strict_lru_witness:
  "\<exists>c. mk_cache tiny_cache = Inr c
     \<and> fst (level.touch_all [0, 128, 8, 256, 128] c) = [False, False, True, False, False]"
proof -
  define c where "c = \<lparr>ca_cfg = tiny_cache, ca_sets = 2, ca_ways = 2, ca_tags = replicate 4 mk_way, ca_age = 0, ca_stats = no_stats\<rparr>"
  have c: "mk_cache tiny_cache = Inr c"
    by (simp add: mk_cache_def tiny_cache_def c_def to_size_def)
  have "fst (level.touch_all [0, 128, 8, 256, 128] c) = reuse_trace (set_of c) (tag_of c) (ways_n c) [] [0, 128, 8, 256, 128]"
    by (rule cache_is_strict_lru [OF c]) (simp_all add: tiny_cache_def in_i32_def)
  also have "\<dots> = [False, False, True, False, False]"
    by (simp add: reuse_hit_def tags_in_def set_of_def tag_of_def ways_n_def c_def tiny_cache_def Let_def)
  finally show ?thesis using c by blast
qed

text \<open>
  C33: the hierarchy conserves accesses: after any sequence of accesses to a fresh hierarchy,
  hits and misses of each level add up to its accesses, the first level has seen every
  access, the second level exactly the misses of the first, memory exactly the misses of the
  second, and the published statistics are those of the levels.
\<close>

theorem hierarchy_conserves_accesses:
  assumes "mk_mem_hier cfg = Inr m0" and "m = access_seq ps m0"
  shows "cs_hits (ca_stats (mh_l1d m)) + cs_misses (ca_stats (mh_l1d m)) = of_nat (length ps)
    \<and> cs_hits (ca_stats (mh_l2 m)) + cs_misses (ca_stats (mh_l2 m)) = cs_misses (ca_stats (mh_l1d m))
    \<and> ms_dram_accesses (mh_stats m) = cs_misses (ca_stats (mh_l2 m))
    \<and> ms_l1d (mh_stats m) = ca_stats (mh_l1d m) \<and> ms_l2 (mh_stats m) = ca_stats (mh_l2 m)"
proof -
  have "counts_ok m0" "mshrs_ok m0" "cs_accesses (ca_stats (mh_l1d m0)) = 0"
    using mk_mem_hier_ok [OF assms(1)] by simp_all
  from access_seq_keeps [OF this(1,2), of ps] this(3) show ?thesis
    by (simp add: assms(2) counts_ok_def)
qed

theorem hierarchy_conserves_accesses_witness:
  "\<exists>m. mk_mem_hier default_mem_config = Inr m
     \<and> ms_l1d (mh_stats (access_seq [(0, 0), (4096, 3)] m)) = ca_stats (mh_l1d (access_seq [(0, 0), (4096, 3)] m))"
proof -
  have "\<exists>m. mk_mem_hier default_mem_config = Inr m"
    by (simp add: mk_mem_hier_def default_mem_config_def default_l1d_def default_l2_def mk_cache_def
        to_size_def del: replicate.simps)
  then obtain m where m: "mk_mem_hier default_mem_config = Inr m" ..
  from hierarchy_conserves_accesses [OF m refl] m show ?thesis by blast
qed

text \<open>
  C34: at most \<open>mshrs\<close> misses are outstanding when a cap is configured; an access issues no
  earlier than proposed, and later only at the completion of an outstanding miss; with no
  cap it issues exactly when proposed.
\<close>

theorem misses_outstanding_bounded:
  assumes "mshrs_ok m" and "access_at a p m = (r, m')"
  shows "(0 < mc_mshrs (mh_cfg m) \<longrightarrow> int (length (mh_mshr m')) \<le> mc_mshrs (mh_cfg m))
    \<and> p \<le> mr_issue r \<and> (mr_issue r = p \<or> mr_issue r \<in> set (mh_mshr m))
    \<and> (mc_mshrs (mh_cfg m) \<le> 0 \<longrightarrow> mr_issue r = p)"
  using access_at_mshrs [OF assms] by (auto simp: mshrs_ok_def)

theorem misses_outstanding_bounded_witness:
  "\<exists>m r m'. mk_mem_hier (default_mem_config\<lparr>mc_mshrs := 1\<rparr>) = Inr m \<and> access_at 4096 7 m = (r, m')
     \<and> length (mh_mshr m') \<le> 1 \<and> mr_issue r = 7"
proof -
  let ?cfg = "default_mem_config\<lparr>mc_mshrs := 1\<rparr>"
  have "\<exists>m. mk_mem_hier ?cfg = Inr m"
    by (simp add: mk_mem_hier_def default_mem_config_def default_l1d_def default_l2_def mk_cache_def
        to_size_def del: replicate.simps)
  then obtain m where m: "mk_mem_hier ?cfg = Inr m" ..
  then have q: "mh_mshr m = []" by (auto simp: mk_mem_hier_def)
  obtain r m' where a: "access_at 4096 7 m = (r, m')" by (cases "access_at 4096 7 m")
  have "mshrs_ok m" "mh_cfg m = ?cfg" using mk_mem_hier_ok [OF m] by simp_all
  from misses_outstanding_bounded [OF this(1) a] this(2) m a q show ?thesis by auto
qed

section \<open>Branch predictor\<close>

text \<open>
  the predictor keeps its invariant over any sequence of branches from its construction:
  every counter stays in 0 to 3, the history stays inside its mask, one branch is counted per
  call, and correct predictions and mispredictions add up to the branches.
\<close>

theorem predictor_invariant:
  assumes "mk_predictor cfg = Inr p0" and "bp_run bs p0 = (hs, p)"
  shows "(\<forall>c \<in> set (bp_pht p). c \<le> 3) \<and> bp_ghr p AND bp_ghr_mask p = bp_ghr p
    \<and> bs_branches (bp_stat p) = of_nat (length bs)
    \<and> bs_mispredicts (bp_stat p) = of_nat (length (filter Not hs))
    \<and> bs_correct (bp_stat p) + bs_mispredicts (bp_stat p) = bs_branches (bp_stat p)"
proof -
  have wf: "wf_bp p0" using wf_bp_init [OF assms(1)] by simp
  have z: "bp_stat p0 = no_bp_stats" using assms(1) by (auto simp: mk_predictor_def split: if_splits)
  from bp_run_wf [OF wf assms(2)] show ?thesis by (auto simp: z no_bp_stats_def wf_bp_def list_all_iff)
qed

definition tiny_bp :: bp_config where
  "tiny_bp = \<lparr>bc_pht_entries = 4, bc_ghr_history_bits = 0, bc_btb_entries = 2, bc_perfect = False,
     bc_mispredict_penalty = 4\<rparr>"

definition tiny_predictor :: predictor where
  "tiny_predictor = \<lparr>bp_cfg = tiny_bp, bp_pht = [1, 1, 1, 1], bp_btb_target = [0, 0],
     bp_btb_valid = [False, False], bp_ghr = 0, bp_ghr_mask = 0, bp_stat = no_bp_stats\<rparr>"

lemma tiny_predictor_built: "mk_predictor tiny_bp = Inr tiny_predictor"
  by (simp add: mk_predictor_def tiny_bp_def tiny_predictor_def eval_nat_numeral)

theorem predictor_invariant_witness:
  "\<exists>hs p. bp_run [(3, True, 9), (3, False, 4)] tiny_predictor = (hs, p) \<and> bs_branches (bp_stat p) = 2"
proof -
  obtain hs p where r: "bp_run [(3, True, 9), (3, False, 4)] tiny_predictor = (hs, p)"
    by (cases "bp_run [(3, True, 9), (3, False, 4)] tiny_predictor")
  show ?thesis using predictor_invariant [OF tiny_predictor_built r] r by simp
qed

text \<open>
  without history bits, as the simulator runs it, a fresh predictor mispredicts the branch of
  a loop exactly once per execution of the loop, at its exit, and once more when it first sees
  the branch: \<open>m\<close> executions of \<open>k\<close> taken branches and one exit cost \<open>m + 1\<close> mispredictions.
\<close>

theorem loop_branch_mispredicts:
  assumes "mk_predictor cfg = Inr p" and "bc_ghr_history_bits cfg = 0" and "\<not> bc_perfect cfg"
    and "2 \<le> k" and "1 \<le> m"
  shows "length (filter Not (fst (bp_run (concat (replicate m (loop_trace pc target after k))) p))) = m + 1"
  by (rule loop_mispredicts [OF assms])

theorem loop_branch_mispredicts_witness:
  "length (filter Not (fst (bp_run (concat (replicate 5 (loop_trace 7 1 8 10))) tiny_predictor))) = 6"
  using loop_branch_mispredicts [OF tiny_predictor_built, of 10 5 7 1 8] by (simp add: tiny_bp_def)

section \<open>Pipeline\<close>

text \<open>
  C35: the pipeline issues in order, at most one instruction a cycle, and terminates on every
  stream: from a fresh pipeline with any cache hierarchy and predictor whose latencies are
  bounded, \<open>n\<close> instructions retire with strictly increasing issue cycles, the units' counts add up
  to \<open>n\<close>, and the cycle count is at least \<open>n + depth - 1\<close> and at most \<open>n\<close> times the longest advance
  plus the longest completion.
\<close>

theorem pipeline_cycles:
  assumes p: "p = set_branch_predictor bp (set_mem_hierarchy mh (mk_pipeline cfg))"
    and ok: "pipe_ok E P p" and idle: "pred_option (\<lambda>m. mh_mshr m = []) mh"
    and room: "roomy E P 0 (length ts) cfg" and ne: "ts \<noteq> []"
  shows "\<exists>ts' q. run_pipe ts p = Inr (ts', q) \<and> length ts' = length ts
    \<and> sorted_wrt (<) (map it_cycle_issued ts')
    \<and> pr_insns_total (pl_report q) = of_nat (length ts)
    \<and> sum_list (pr_insns_by_fu (pl_report q)) = of_nat (length ts)
    \<and> length ts + nat (pc_depth cfg - 1) \<le> unat (pr_cycles_total (pl_report q))
    \<and> unat (pr_cycles_total (pl_report q)) \<le> length ts * advance E P cfg + slack E cfg + 1"
proof -
  have cfg: "pl_cfg p = cfg" by (simp add: p set_branch_predictor_def set_mem_hierarchy_def mk_pipeline_def)
  have "ready_cycle f k p = 0" for f k
    by (cases f) (simp_all add: p set_branch_predictor_def set_mem_hierarchy_def mk_pipeline_def cell_at_def)
  then have b: "bounded E 0 p"
    using idle by (cases mh) (simp_all add: bounded_def p set_branch_predictor_def set_mem_hierarchy_def mk_pipeline_def)
  have zero: "pr_insns_total (pl_report p) = 0" "sum_list (pr_insns_by_fu (pl_report p)) = 0" "pl_next p = 0"
    by (simp_all add: p set_branch_predictor_def set_mem_hierarchy_def mk_pipeline_def no_report_def kFuKindCount_def eval_nat_numeral)
  obtain ts' q where r: "run_pipe ts p = Inr (ts', q)" "length ts' = length ts"
    "bounded E (0 + length ts * advance E P cfg) q" "pl_cfg q = cfg" "sorted_wrt (<) (map it_cycle_issued ts')"
    "pr_insns_total (pl_report q) = of_nat (length ts)"
    "sum_list (pr_insns_by_fu (pl_report q)) = of_nat (length ts)"
    "length ts + nat (pc_depth cfg - 1) \<le> pl_last q + 1" "pr_cycles_total (pl_report q) = of_nat (pl_last q) + 1"
    using run_pipe_ok [OF ok b, of ts] room ne zero unfolding cfg by auto
  have last: "pl_last q \<le> length ts * advance E P cfg + slack E cfg" using r(3,4) by (simp add: bounded_def)
  then have "pl_last q + 1 < 2 ^ 64" using room unfolding roomy_def by linarith
  then have "unat (of_nat (pl_last q + 1) :: 64 word) = pl_last q + 1"
    by (simp only: unsigned_of_nat) (simp add: take_bit_nat_eq_self)
  then have "unat (pr_cycles_total (pl_report q)) = pl_last q + 1" by (simp add: r(9) add.commute)
  then show ?thesis using r last by auto
qed

text \<open>Small programs for the witnesses: a multiply-accumulate and the sum that needs it, a load and a return.\<close>

definition mac_trace :: instr_trace where
  "mac_trace = trace_base 0 \<lparr>op = TVMAC, dst = 0, src1 = 1, src2 = 1, imm = 0\<rparr>"

definition sum_trace :: instr_trace where
  "sum_trace = trace_base 1 \<lparr>op = TVSUM, dst = 3, src1 = 0, src2 = 0, imm = 0\<rparr>"

lemma default_pipe_ok: "pipe_ok 2 0 (mk_pipeline default_pipeline_config)"
  by (simp add: pipe_ok_def config_ok_def mk_pipeline_def default_pipeline_config_def no_report_def in_i32_def)

theorem pipeline_cycles_witness:
  "\<exists>ts' q. run_pipe [mac_trace, sum_trace] (mk_pipeline default_pipeline_config) = Inr (ts', q)
     \<and> pr_insns_total (pl_report q) = 2 \<and> 8 \<le> unat (pr_cycles_total (pl_report q))"
proof -
  have p: "mk_pipeline default_pipeline_config
      = set_branch_predictor None (set_mem_hierarchy None (mk_pipeline default_pipeline_config))"
    by (simp add: set_branch_predictor_def set_mem_hierarchy_def mk_pipeline_def)
  have room: "roomy 2 0 0 (length [mac_trace, sum_trace]) default_pipeline_config"
    by (simp add: roomy_def advance_def slack_def default_pipeline_config_def)
  show ?thesis using pipeline_cycles [OF p default_pipe_ok _ room]
    by (auto simp: default_pipeline_config_def)
qed


lemma default_pipe_room: "bounded 2 0 (mk_pipeline default_pipeline_config)"
  "roomy 2 0 0 kSafetyLimit (pl_cfg (mk_pipeline default_pipeline_config))"
proof -
  let ?p = "mk_pipeline default_pipeline_config"
  have "ready_cycle f k ?p = 0" for f k by (cases f) (simp_all add: mk_pipeline_def cell_at_def)
  then show "bounded 2 0 ?p" by (simp add: bounded_def mk_pipeline_def)
  show "roomy 2 0 0 kSafetyLimit (pl_cfg ?p)"
    by (simp add: roomy_def advance_def slack_def default_pipeline_config_def mk_pipeline_def kSafetyLimit_def)
qed


lemma sp_pair_cycles:
  "case run_pipe [trace_base 0 pop_load, trace_base 1 bare_ret] (mk_pipeline default_pipeline_config) of
     Inr (ts, q) \<Rightarrow> map (\<lambda>t. (it_cycle_issued t, it_cycle_retired t)) ts = [(0, 8), (1, 7)] | Inl e \<Rightarrow> False"
  by (simp add: trace_base_def pop_load_def bare_ret_def mk_pipeline_def default_pipeline_config_def on_retire_def mem_stage_def
      branch_stage_def account_def mark_ready_def dep_min_issue_def dep_bump_def Let_def op_info_of_def no_info_def
      write_offset_def retire_offset_def read_offset_def sum_i32_def rbind_def in_i32_def cell_at_def u64_def to_size_def
      no_report_def kFuKindCount_def)

text \<open>
  the pipeline misses the hazard on the stack pointer: \<open>TRET\<close> as the assembler encodes it, with
  a zero destination field, reads register 26 when it executes, but the cycle model takes the
  encoded field for its operand. After a load into register 26, in the pipeline as configured by
  default, it issues one cycle after the load, so that its read stage comes before the loaded value.
\<close>

theorem stack_pointer_hazard_missed:
  "writes_reg pop_load RF_Scalar 26 \<and> reads_reg bare_ret RF_Scalar 26
    \<and> (\<exists>a c q e. run_pipe [trace_base 0 pop_load, trace_base 1 bare_ret] (mk_pipeline default_pipeline_config) = Inr ([a, c], q)
      \<and> it_cycle_retired a = it_cycle_issued a + 6 + e \<and> it_cycle_issued c + 4 < it_cycle_issued a + 4 + e)"
proof -
  obtain ts q where r: "run_pipe [trace_base 0 pop_load, trace_base 1 bare_ret] (mk_pipeline default_pipeline_config) = Inr (ts, q)"
    and "map (\<lambda>t. (it_cycle_issued t, it_cycle_retired t)) ts = [(0, 8), (1, 7)]"
    using sp_pair_cycles by (auto split: sum.splits prod.splits)
  then obtain a c where "ts = [a, c]" "it_cycle_issued a = 0" "it_cycle_retired a = 8" "it_cycle_issued c = 1"
    by (auto simp: map_eq_Cons_conv)
  then have "\<exists>a c q e. run_pipe [trace_base 0 pop_load, trace_base 1 bare_ret] (mk_pipeline default_pipeline_config) = Inr ([a, c], q)
      \<and> it_cycle_retired a = it_cycle_issued a + 6 + e \<and> it_cycle_issued c + 4 < it_cycle_issued a + 4 + e"
    using r by (intro exI [of _ a] exI [of _ c] exI [of _ q] exI [of _ 2]) simp
  then show ?thesis using load_writes_sp ret_reads_sp by blast
qed

section \<open>Tracing\<close>

text \<open>
  tracing is transparent: when a program runs to its end, it does so with the tracer attached,
  with the same final state, and the pipeline has retired exactly the instructions the simulator
  counted.
\<close>

theorem tracing_transparent:
  assumes "run s = (Inr (), t)" and "pipe_ok E P p" and "bounded E N p" and "roomy E P N kSafetyLimit (pl_cfg p)"
  shows "\<exists>q. run_traced \<lparr>tr_sim = s, tr_pipe = p\<rparr> = (Inr (), \<lparr>tr_sim = t, tr_pipe = q\<rparr>)
    \<and> pr_insns_total (pl_report q) - pr_insns_total (pl_report p)
        = oc_total (sim_counters t) - oc_total (sim_counters s)"
  by (rule run_traced_same [OF assms])

theorem tracing_transparent_witness:
  "\<exists>t q. run_traced \<lparr>tr_sim = put_halted True (mk_sim 4), tr_pipe = mk_pipeline default_pipeline_config\<rparr>
     = (Inr (), \<lparr>tr_sim = t, tr_pipe = q\<rparr>) \<and> t = put_halted True (mk_sim 4)"
proof -
  let ?p = "mk_pipeline default_pipeline_config" and ?s = "put_halted True (mk_sim 4)"
  have "run ?s = (Inr (), ?s)" by (rule run_reaches [OF reach_refl]) (simp_all add: state_simps)
  from tracing_transparent [OF this default_pipe_ok default_pipe_room] show ?thesis by blast
qed

text \<open>
  the address the tracer records for a \<open>TLOAD\<close> is eight times the value of the address
  register after the load: the address of the access, unless the load overwrites its own
  address register, in which case it is eight times the loaded word.
\<close>

theorem load_address_recorded:
  assumes "wf_sim s" and "valid_instr i" and "op i = TLOAD" and "addr_ok s (sval s (src1 i))"
  shows "\<exists>t tr. run_one i s = (Inr (), t) \<and> trace_of pc i t = Inr tr
    \<and> it_mem_addr tr = scaled_address
        (if dst i = src1 i \<and> dst i \<noteq> 0 then mval s (nat (sval s (src1 i))) else sval s (src1 i))"
  by (rule load_trace_address [OF assms])

theorem load_address_recorded_witness:
  "\<exists>t tr. run_one \<lparr>op = TLOAD, dst = 5, src1 = 5, src2 = 0, imm = 0\<rparr>
       (put_sreg 5 (digits_of 27 2) (put_mword 2 (digits_of 27 7) (mk_sim 4))) = (Inr (), t)
     \<and> trace_of 0 \<lparr>op = TLOAD, dst = 5, src1 = 5, src2 = 0, imm = 0\<rparr> t = Inr tr \<and> it_mem_addr tr = 56"
proof -
  let ?m = "put_mword 2 (digits_of 27 7) (mk_sim 4)"
  let ?s = "put_sreg 5 (digits_of 27 2) ?m" and ?i = "\<lparr>op = TLOAD, dst = 5, src1 = 5, src2 = 0, imm = 0\<rparr>"
  have sh: "shaped (mk_sim 4)" by (simp add: wf_sim_init)
  have "wf_sim ?m" using wf_sim_init [of 4] by (simp add: put_mword_def wf_sim_def)
  then have wf: "wf_sim ?s" by (simp add: wf_put_sreg)
  have v: "sval ?s 5 = 2" "mval ?s 2 = 7"
    using sh by (simp_all add: state_simps word27_to_int_digits fits_27)
  have "valid_instr ?i" by (simp add: valid_instr_def fits_12)
  moreover have "addr_ok ?s (sval ?s (src1 ?i))" by (simp add: v addr_ok_def state_simps)
  ultimately show ?thesis using load_address_recorded [OF wf, of ?i 0] v by (simp add: scaled_address_def)
qed

end
