(* ===== verification/TerFloat.thy ===== *)
theory TerFloat
  imports TerPrelude Complex_Main "HOL-Library.Log_Nat"
begin

text \<open>
  The floating-point numbers of the sources: IEEE binary16, binary32 and binary64 with rounding to
  nearest, ties to even, as the types \<open>__half\<close>, \<open>float\<close> and \<open>double\<close> of the supported compilers
  (each operation rounds once; no contraction into fused operations). A finite number is a sign
  and a rational magnitude. The functions of the C library whose results the standard leaves
  open (\<open>exp\<close>, \<open>log\<close>, \<open>pow\<close>, \<open>sin\<close>, \<open>cos\<close>, the rounding of \<open>sqrt\<close>, \<open>lround\<close> outside the range of
  its result) are a parameter, the record \<open>libm\<close>.
\<close>

section \<open>Numbers and rounding\<close>

datatype flt = NaN | Inf bool | Num bool rat

datatype prec = F16 | F32 | F64

fun sig_bits :: "prec \<Rightarrow> int" where
  "sig_bits F16 = 11" | "sig_bits F32 = 24" | "sig_bits F64 = 53"

fun min_exp :: "prec \<Rightarrow> int" where
  "min_exp F16 = - 24" | "min_exp F32 = - 149" | "min_exp F64 = - 1074"

fun max_exp :: "prec \<Rightarrow> int" where
  "max_exp F16 = 15" | "max_exp F32 = 127" | "max_exp F64 = 1023"

definition pow2 :: "int \<Rightarrow> rat" where
  "pow2 k = (if 0 \<le> k then 2 ^ nat k else 1 / 2 ^ nat (- k))"

text \<open>The exponent of a positive number: the greatest \<open>k\<close> with \<open>2^k\<close> at most the number.\<close>

definition exponent :: "rat \<Rightarrow> int" where
  "exponent x = (case quotient_of x of (a, b) \<Rightarrow>
     let k = int (floorlog 2 (nat a)) - int (floorlog 2 (nat b)) in if pow2 k \<le> x then k else k - 1)"

definition round_even :: "rat \<Rightarrow> int" where
  "round_even x = (let f = \<lfloor>x\<rfloor>; d = x - of_int f
     in if d < 1 / 2 then f else if d > 1 / 2 then f + 1 else if even f then f else f + 1)"

text \<open>The rounded magnitude; \<open>None\<close> on overflow.\<close>

definition round_mag :: "prec \<Rightarrow> rat \<Rightarrow> rat option" where
  "round_mag p m =
     (if m = 0 then Some 0
      else let u = pow2 (max (exponent m - (sig_bits p - 1)) (min_exp p));
               r = of_int (round_even (m / u)) * u
           in if r \<ge> pow2 (max_exp p + 1) then None else Some r)"

definition rounded :: "prec \<Rightarrow> bool \<Rightarrow> rat \<Rightarrow> flt" where
  "rounded p s m = (case round_mag p m of None \<Rightarrow> Inf s | Some r \<Rightarrow> Num s r)"

text \<open>The value \<open>v\<close> rounded, with \<open>z\<close> the sign of an exact zero.\<close>

definition of_value :: "prec \<Rightarrow> bool \<Rightarrow> rat \<Rightarrow> flt" where
  "of_value p z v = (if v < 0 then rounded p True (- v) else if v > 0 then rounded p False v else Num z 0)"

fun num_value :: "bool \<Rightarrow> rat \<Rightarrow> rat" where
  "num_value s m = (if s then - m else m)"

abbreviation fzero :: flt where
  "fzero \<equiv> Num False 0"

section \<open>Operations\<close>

fun fneg :: "flt \<Rightarrow> flt" where
  "fneg NaN = NaN" | "fneg (Inf s) = Inf (\<not> s)" | "fneg (Num s m) = Num (\<not> s) m"

fun fabs :: "flt \<Rightarrow> flt" where
  "fabs NaN = NaN" | "fabs (Inf s) = Inf False" | "fabs (Num s m) = Num False m"

fun fadd :: "prec \<Rightarrow> flt \<Rightarrow> flt \<Rightarrow> flt" where
  "fadd p NaN b = NaN"
| "fadd p a NaN = NaN"
| "fadd p (Inf s) (Inf t) = (if s = t then Inf s else NaN)"
| "fadd p (Inf s) (Num t n) = Inf s"
| "fadd p (Num s m) (Inf t) = Inf t"
| "fadd p (Num s m) (Num t n) = of_value p (s \<and> t) (num_value s m + num_value t n)"

definition fsub :: "prec \<Rightarrow> flt \<Rightarrow> flt \<Rightarrow> flt" where
  "fsub p a b = fadd p a (fneg b)"

fun fmul :: "prec \<Rightarrow> flt \<Rightarrow> flt \<Rightarrow> flt" where
  "fmul p NaN b = NaN"
| "fmul p a NaN = NaN"
| "fmul p (Inf s) (Inf t) = Inf (s \<noteq> t)"
| "fmul p (Inf s) (Num t n) = (if n = 0 then NaN else Inf (s \<noteq> t))"
| "fmul p (Num s m) (Inf t) = (if m = 0 then NaN else Inf (s \<noteq> t))"
| "fmul p (Num s m) (Num t n) = rounded p (s \<noteq> t) (m * n)"

fun fdiv :: "prec \<Rightarrow> flt \<Rightarrow> flt \<Rightarrow> flt" where
  "fdiv p NaN b = NaN"
| "fdiv p a NaN = NaN"
| "fdiv p (Inf s) (Inf t) = NaN"
| "fdiv p (Inf s) (Num t n) = Inf (s \<noteq> t)"
| "fdiv p (Num s m) (Inf t) = Num (s \<noteq> t) 0"
| "fdiv p (Num s m) (Num t n) =
     (if n = 0 then if m = 0 then NaN else Inf (s \<noteq> t) else rounded p (s \<noteq> t) (m / n))"

text \<open>Conversion between the formats.\<close>

fun fcvt :: "prec \<Rightarrow> flt \<Rightarrow> flt" where
  "fcvt p NaN = NaN" | "fcvt p (Inf s) = Inf s" | "fcvt p (Num s m) = rounded p s m"

definition of_int_flt :: "prec \<Rightarrow> int \<Rightarrow> flt" where
  "of_int_flt p k = of_value p False (of_int k)"

fun flt_less :: "flt \<Rightarrow> flt \<Rightarrow> bool" where
  "flt_less (Num s m) (Num t n) = (num_value s m < num_value t n)"
| "flt_less (Inf s) (Inf t) = (s \<and> \<not> t)"
| "flt_less (Inf s) (Num t n) = s"
| "flt_less (Num s m) (Inf t) = (\<not> t)"
| "flt_less a b = False"

fun flt_eq :: "flt \<Rightarrow> flt \<Rightarrow> bool" where
  "flt_eq (Num s m) (Num t n) = (num_value s m = num_value t n)"
| "flt_eq (Inf s) (Inf t) = (s = t)"
| "flt_eq a b = False"

fun is_finite :: "flt \<Rightarrow> bool" where
  "is_finite (Num s m) = True" | "is_finite a = False"

section \<open>Library functions\<close>

record libm =
  lm_sqrt :: "prec \<Rightarrow> flt \<Rightarrow> flt"
  lm_exp :: "flt \<Rightarrow> flt"
  lm_log :: "flt \<Rightarrow> flt"
  lm_pow :: "flt \<Rightarrow> flt \<Rightarrow> flt"
  lm_cos :: "flt \<Rightarrow> flt"
  lm_sin :: "flt \<Rightarrow> flt"
  lm_lround :: "flt \<Rightarrow> int"

text \<open>Rounding to an integer, halves away from zero (\<open>std::round\<close> and \<open>std::lround\<close>).\<close>

definition round_away :: "bool \<Rightarrow> rat \<Rightarrow> int" where
  "round_away s m = (if s then - \<lfloor>m + 1 / 2\<rfloor> else \<lfloor>m + 1 / 2\<rfloor>)"

definition lround :: "libm \<Rightarrow> flt \<Rightarrow> int" where
  "lround L x = (case x of
       Num s m \<Rightarrow> if in_i64 (round_away s m) then round_away s m else to_i64 (lm_lround L x)
     | _ \<Rightarrow> to_i64 (lm_lround L x))"

fun fround :: "flt \<Rightarrow> flt" where
  "fround (Num s m) = Num s (of_int \<lfloor>m + 1 / 2\<rfloor>)" | "fround x = x"

fun ffloor :: "flt \<Rightarrow> flt" where
  "ffloor (Num s m) =
     (let k = \<lfloor>num_value s m\<rfloor> in Num (if k = 0 then s else k < 0) (of_int \<bar>k\<bar>))"
| "ffloor x = x"

text \<open>A conversion to an integer type truncates and is undefined outside its range.\<close>

definition to_int_trunc :: "(int \<Rightarrow> bool) \<Rightarrow> flt \<Rightarrow> int res" where
  "to_int_trunc ok x = (case x of
       Num s m \<Rightarrow> (let k = (if s then - \<lfloor>m\<rfloor> else \<lfloor>m\<rfloor>)
                     in if ok k then Inr k else Inl (SignedOverflow ''float to integer''))
     | _ \<Rightarrow> Inl (SignedOverflow ''float to integer''))"

text \<open>A library for concrete evaluations.\<close>

definition plain_libm :: libm where
  "plain_libm = \<lparr>lm_sqrt = (\<lambda>p x. x), lm_exp = (\<lambda>x. Num False 1), lm_log = (\<lambda>x. fzero),
     lm_pow = (\<lambda>x y. Num False 1), lm_cos = (\<lambda>x. Num False 1), lm_sin = (\<lambda>x. fzero),
     lm_lround = (\<lambda>x. - (2 ^ 63))\<rparr>"

section \<open>Facts\<close>

lemma lround_i64: "in_i64 (lround L x)"
proof -
  have "in_i64 (to_i64 v)" for v by (auto simp: in_i64_def to_i64_def)
  then show ?thesis by (auto simp: lround_def split: flt.split)
qed

lemma round_away_error: "\<bar>of_int (round_away s m) - num_value s m\<bar> \<le> (1 / 2 :: rat)"
proof -
  have "of_int \<lfloor>m + 1 / 2\<rfloor> \<le> m + 1 / 2" "m + 1 / 2 < of_int \<lfloor>m + 1 / 2\<rfloor> + 1"
    by linarith+
  then have "\<bar>of_int \<lfloor>m + 1 / 2\<rfloor> - m\<bar> \<le> 1 / 2" unfolding abs_le_iff by linarith
  then show ?thesis by (cases s) (simp_all add: round_away_def abs_minus_commute)
qed

lemma flt_less_irrefl [simp]: "\<not> flt_less x x"
  by (cases x) auto

lemma flt_less_trans: "flt_less x y \<Longrightarrow> flt_less y z \<Longrightarrow> flt_less x z"
  by (cases x; cases y; cases z) (auto split: if_splits)

lemma flt_less_eq_False: "flt_less x y \<Longrightarrow> \<not> flt_eq x y"
  by (cases x; cases y) auto

end
