(* ===== verification/TerNumfmt.thy ===== *)
theory TerNumfmt
  imports TerFloat TerTrit
begin

text \<open>
  The number formats of the host code: format B tensors of ternary integers with one scale or one
  scale per block (\<open>include/ter/numfmt.hpp\<close>, \<open>src/numfmt/quantize.cpp\<close>, \<open>dequantize.cpp\<close>),
  format A floats (\<open>include/ter/tfloat.hpp\<close>) and the BitNet digits (\<open>include/ter/bitnet.hpp\<close>).
  A buffer is the list of its elements; a read or write beyond it is undefined behaviour and
  modelled as an error.
\<close>

section \<open>Format B\<close>

datatype tensor_dtype = DT_Float32 | DT_TritFP_B

record trit_tensor =
  tt_dtype :: tensor_dtype
  tt_n_trits :: int
  tt_scale :: flt
  tt_block_size :: int
  tt_block_scales :: "flt list"
  tt_shape :: "int list"
  tt_payload :: "int list"
  tt_fp32 :: "flt list"

definition mk_tensor :: trit_tensor where
  "mk_tensor = \<lparr>tt_dtype = DT_TritFP_B, tt_n_trits = 9, tt_scale = fzero, tt_block_size = 0,
     tt_block_scales = [], tt_shape = [], tt_payload = [], tt_fp32 = []\<rparr>"

definition shape_elems :: "int list \<Rightarrow> nat" where
  "shape_elems shape = (if shape = [] then 0 else foldl (\<lambda>n d. u64 (n * to_size d)) 1 shape)"

definition num_elems :: "trit_tensor \<Rightarrow> nat" where
  "num_elems t = shape_elems (tt_shape t)"

text \<open>The product loop of \<open>max_trit_int\<close>; up to 39 trits it stays inside \<open>int64_t\<close>.\<close>

definition max_trit_int :: "int \<Rightarrow> int" where
  "max_trit_int n = (foldl (\<lambda>v i. v * 3) 1 [0..<nat n] - 1) sdiv 2"

definition max_abs_of :: "flt list \<Rightarrow> flt" where
  "max_abs_of xs = foldl (\<lambda>m x. let a = fabs x in if flt_less m a then a else m) fzero xs"

text \<open>One element: divide by the scale, round, clamp, and store as \<open>int32_t\<close>.\<close>

definition quant_int :: "libm \<Rightarrow> int \<Rightarrow> flt \<Rightarrow> flt \<Rightarrow> int" where
  "quant_int L mti scale x =
     (let r = lround L (fdiv F32 x scale);
          r1 = (if r > mti then mti else r);
          r2 = (if r1 < - mti then - mti else r1)
      in to_i32 r2)"

text \<open>\<open>std::vector<float>(data, data + n)\<close>: the buffer must hold \<open>n\<close> elements.\<close>

definition buffer :: "nat \<Rightarrow> flt list \<Rightarrow> flt list res" where
  "buffer n data = (if n \<le> length data then Inr (take n data) else Inl (OutOfRange ''read beyond a buffer''))"

definition quantize :: "libm \<Rightarrow> flt list \<Rightarrow> int list \<Rightarrow> int \<Rightarrow> trit_tensor res" where
  "quantize L data shape n_trits =
     (if n_trits < 1 \<or> n_trits > 27 then Inl (OutOfRange ''quantize: n_trits_per_elem must be in [1, 27]'')
      else
        let t = mk_tensor\<lparr>tt_n_trits := n_trits, tt_shape := shape,
                  tt_payload := replicate (shape_elems shape) 0\<rparr>;
            mti = max_trit_int n_trits
        in rbind (buffer (shape_elems shape) data) (\<lambda>xs.
             let max_abs = max_abs_of xs
             in if flt_eq max_abs fzero then Inr t
                else let scale = fdiv F32 max_abs (of_int_flt F32 mti)
                     in Inr (t\<lparr>tt_scale := scale, tt_payload := map (quant_int L mti scale) xs\<rparr>)))"

text \<open>One block of \<open>quantize_blocked\<close>: its scale and its integers.\<close>

definition quant_block :: "libm \<Rightarrow> int \<Rightarrow> flt list \<Rightarrow> flt \<times> int list" where
  "quant_block L mti xs =
     (let max_abs = max_abs_of xs
      in if flt_eq max_abs fzero then (fzero, map (\<lambda>_. 0) xs)
         else let sc = fdiv F32 max_abs (of_int_flt F32 mti) in (sc, map (quant_int L mti sc) xs))"

text \<open>The body of the loop over the blocks: scale and integers of block \<open>b\<close> are stored.\<close>

definition put_block :: "libm \<Rightarrow> int \<Rightarrow> nat \<Rightarrow> flt list \<Rightarrow> nat \<Rightarrow> trit_tensor \<Rightarrow> nat \<Rightarrow> trit_tensor" where
  "put_block L mti bs xs n t b =
     (let lo = b * bs; hi = (if lo + bs > n then n else lo + bs);
          (sc, q) = quant_block L mti (take (hi - lo) (drop lo xs))
      in t\<lparr>tt_block_scales := (tt_block_scales t)[b := sc],
           tt_payload := take lo (tt_payload t) @ q @ drop (lo + length q) (tt_payload t)\<rparr>)"

definition quant_blocks :: "libm \<Rightarrow> int \<Rightarrow> nat \<Rightarrow> flt list \<Rightarrow> nat \<Rightarrow> nat list \<Rightarrow> trit_tensor \<Rightarrow> trit_tensor" where
  "quant_blocks L mti bs xs n bl t = foldl (put_block L mti bs xs n) t bl"

definition quantize_blocked :: "libm \<Rightarrow> flt list \<Rightarrow> int list \<Rightarrow> int \<Rightarrow> int \<Rightarrow> trit_tensor res" where
  "quantize_blocked L data shape n_trits block_size =
     (if n_trits < 1 \<or> n_trits > 27 then
        Inl (OutOfRange ''quantize_blocked: n_trits_per_elem must be in [1, 27]'')
      else if block_size < 1 then Inl (OutOfRange ''quantize_blocked: block_size must be >= 1'')
      else
        let n = shape_elems shape; bs = nat block_size; n_blocks = u64 (n + bs - 1) div bs;
            t = mk_tensor\<lparr>tt_n_trits := n_trits, tt_block_size := block_size, tt_shape := shape,
                  tt_payload := replicate n 0, tt_block_scales := replicate n_blocks fzero\<rparr>
        in rbind (buffer n data) (\<lambda>xs.
             Inr (quant_blocks L (max_trit_int n_trits) bs xs n [0..<n_blocks] t)))"

text \<open>\<open>dequantize\<close> writes the elements to the caller's buffer; the model returns them.\<close>

definition read_at :: "'a list \<Rightarrow> nat \<Rightarrow> 'a res" where
  "read_at xs i = (if i < length xs then Inr (xs ! i) else Inl (OutOfRange ''read beyond a buffer''))"

definition dequantize :: "trit_tensor \<Rightarrow> flt list res" where
  "dequantize t =
     (let n = num_elems t
      in if tt_fp32 t \<noteq> [] then rmap (read_at (tt_fp32 t)) [0..<n]
         else if tt_block_scales t \<noteq> [] then
           (let bs = to_size (tt_block_size t)
            in rmap (\<lambda>i. if bs = 0 then Inl (DivisionByZero ''dequantize'')
                 else rbind (read_at (tt_payload t) i) (\<lambda>q.
                      rbind (read_at (tt_block_scales t) (i div bs)) (\<lambda>s.
                      Inr (fmul F32 (of_int_flt F32 q) s)))) [0..<n])
         else rmap (\<lambda>i. rbind (read_at (tt_payload t) i) (\<lambda>q.
                Inr (fmul F32 (of_int_flt F32 q) (tt_scale t)))) [0..<n])"

section \<open>BitNet\<close>

definition sum_abs :: "flt list \<Rightarrow> flt" where
  "sum_abs xs = foldl (\<lambda>s x. fadd F64 s (fabs x)) fzero xs"

definition bitnet_digit :: "libm \<Rightarrow> flt \<Rightarrow> flt \<Rightarrow> int" where
  "bitnet_digit L scale x =
     (let r = lround L (fdiv F64 x scale);
          r1 = (if r > 1 then 1 else r)
      in if r1 < - 1 then - 1 else r1)"

definition quantize_bitnet :: "libm \<Rightarrow> flt list \<Rightarrow> flt \<times> int list" where
  "quantize_bitnet L xs =
     (if xs = [] then (fzero, [])
      else let scale = fdiv F64 (sum_abs xs) (of_int_flt F64 (int (length xs)))
           in if flt_eq scale fzero then (fzero, map (\<lambda>_. 0) xs)
              else (fcvt F32 scale, map (bitnet_digit L scale) xs))"

record bitnet_ops =
  bo_tvadd :: "64 word"
  bo_tvsub :: "64 word"
  bo_skips :: "64 word"
  bo_tvmac :: "64 word"

definition no_bitnet_ops :: bitnet_ops where
  "no_bitnet_ops = \<lparr>bo_tvadd = 0, bo_tvsub = 0, bo_skips = 0, bo_tvmac = 0\<rparr>"

definition bitnet_count :: "bitnet_ops \<Rightarrow> int \<Rightarrow> bitnet_ops" where
  "bitnet_count c w =
     (if w > 0 then c\<lparr>bo_tvadd := bo_tvadd c + 1\<rparr>
      else if w < 0 then c\<lparr>bo_tvsub := bo_tvsub c + 1\<rparr>
      else c\<lparr>bo_skips := bo_skips c + 1\<rparr>)"

definition bitnet_matmul_ops :: "int list \<Rightarrow> nat \<Rightarrow> nat \<Rightarrow> bitnet_ops res" where
  "bitnet_matmul_ops W K N =
     (if u64 (K * N) \<le> length W then Inr (foldl bitnet_count no_bitnet_ops (take (u64 (K * N)) W))
      else Inl (OutOfRange ''read beyond a buffer''))"

section \<open>Format A\<close>

record tfloat =
  tf_sign :: int
  tf_exp :: int
  tf_mantissa :: int

definition tf_zero :: tfloat where
  "tf_zero = \<lparr>tf_sign = 0, tf_exp = 0, tf_mantissa = 0\<rparr>"

definition MANT_MAX :: int where
  "MANT_MAX = 9841"

definition EXP_MAX :: int where
  "EXP_MAX = 121"

definition pow3 :: "libm \<Rightarrow> int \<Rightarrow> flt" where
  "pow3 L e = lm_pow L (of_int_flt F64 3) (of_int_flt F64 e)"

text \<open>The first guess of the exponent, from the logarithm.\<close>

definition first_exp :: "libm \<Rightarrow> flt \<Rightarrow> int \<Rightarrow> int res" where
  "first_exp L v k =
     rbind (to_int_trunc in_i32 (ffloor (fdiv F64 (lm_log L (fabs v)) (lm_log L (of_int_flt F64 3))))) (\<lambda>e.
       if in_i32 (e - k) then Inr (e - k) else Inl (SignedOverflow ''int -''))"

text \<open>The two loops that move the exponent until the mantissa lies in its band.\<close>

function exp_up :: "libm \<Rightarrow> flt \<Rightarrow> flt \<Rightarrow> int \<Rightarrow> int" where
  "exp_up L v hi e =
     (if flt_less hi (fabs (fdiv F64 v (pow3 L e))) \<and> e < EXP_MAX then exp_up L v hi (e + 1) else e)"
  by pat_completeness auto
termination by (relation "measure (\<lambda>(L, v, hi, e). nat (EXP_MAX - e))") auto

function exp_down :: "libm \<Rightarrow> flt \<Rightarrow> flt \<Rightarrow> int \<Rightarrow> int" where
  "exp_down L v lo e =
     (if flt_less (fabs (fdiv F64 v (pow3 L e))) lo \<and> e > - EXP_MAX then exp_down L v lo (e - 1) else e)"
  by pat_completeness auto
termination by (relation "measure (\<lambda>(L, v, lo, e). nat (e + EXP_MAX))") auto

declare exp_up.simps [simp del] exp_down.simps [simp del]

definition clamp_exp :: "int \<Rightarrow> int" where
  "clamp_exp e = (let e1 = (if e > EXP_MAX then EXP_MAX else e) in if e1 < - EXP_MAX then - EXP_MAX else e1)"

definition clamp_mant :: "int \<Rightarrow> int \<Rightarrow> int" where
  "clamp_mant m_max r = (let r1 = (if r > m_max then m_max else r) in if r1 < - m_max then - m_max else r1)"

definition from_float :: "libm \<Rightarrow> flt \<Rightarrow> tfloat res" where
  "from_float L x =
     (if \<not> is_finite x \<or> flt_eq x fzero then Inr tf_zero
      else let v = fcvt F64 x
           in rbind (first_exp L v 8) (\<lambda>e0.
              let e1 = exp_up L v (of_int_flt F64 MANT_MAX) e0;
                  e2 = exp_down L v (fdiv F64 (of_int_flt F64 MANT_MAX) (of_int_flt F64 3)) e1;
                  e = clamp_exp e2;
                  mr = clamp_mant MANT_MAX (lround L (fdiv F64 v (pow3 L e)))
              in Inr \<lparr>tf_sign = 0, tf_exp = e, tf_mantissa = mr\<rparr>))"

definition mant_limit :: "int \<Rightarrow> int res" where
  "mant_limit mant_trits =
     (if mant_trits > 39 then Inl (SignedOverflow ''long long *'')
      else let m = (foldl (\<lambda>v i. v * 3) 1 [0..<nat mant_trits] - 1) sdiv 2
           in Inr (if m > MANT_MAX then MANT_MAX else m))"

definition from_float_trits :: "libm \<Rightarrow> flt \<Rightarrow> int \<Rightarrow> tfloat res" where
  "from_float_trits L x mant_trits =
     (if \<not> is_finite x \<or> flt_eq x fzero \<or> mant_trits \<le> 0 then Inr tf_zero
      else rbind (mant_limit mant_trits) (\<lambda>m_max.
           let v = fcvt F64 x
           in rbind (first_exp L v (mant_trits - 1)) (\<lambda>e0.
              let e1 = exp_up L v (of_int_flt F64 m_max) e0;
                  e2 = exp_down L v (fdiv F64 (of_int_flt F64 m_max) (of_int_flt F64 3)) e1;
                  e = clamp_exp e2;
                  mr = clamp_mant m_max (lround L (fdiv F64 v (pow3 L e)))
              in Inr \<lparr>tf_sign = 0, tf_exp = e, tf_mantissa = mr\<rparr>)))"

definition to_float :: "libm \<Rightarrow> tfloat \<Rightarrow> flt" where
  "to_float L t =
     (if tf_mantissa t = 0 then fzero
      else fcvt F32 (fmul F64 (of_int_flt F64 (tf_mantissa t)) (pow3 L (tf_exp t))))"

section \<open>Facts\<close>

lemma max_trit_int_eq: "0 \<le> n \<Longrightarrow> max_trit_int n = (3 ^ nat n - 1) div 2"
proof -
  have p: "foldl (\<lambda>v i. v * 3) (1 :: int) [0..<k] = 3 ^ k" for k by (induction k) simp_all
  have "(0 :: int) \<le> 3 ^ nat n - 1" by simp
  then show ?thesis by (simp only: max_trit_int_def p) (simp add: signed_divide_int_def sgn_if)
qed

lemma max_trit_int_pos: "1 \<le> n \<Longrightarrow> 1 \<le> max_trit_int n"
proof -
  assume n: "1 \<le> n"
  then obtain k where "nat n = Suc k" by (cases "nat n") auto
  moreover have "1 \<le> (3 * x - 1) div 2" if "1 \<le> x" for x :: int using that by presburger
  ultimately show ?thesis using n by (simp add: max_trit_int_eq)
qed

lemma max_trit_int_mono: "0 \<le> m \<Longrightarrow> m \<le> n \<Longrightarrow> max_trit_int m \<le> max_trit_int n"
  by (simp add: max_trit_int_eq) (intro zdiv_mono1 diff_right_mono power_increasing; simp)

lemma max_trit_int_20: "max_trit_int 20 = 1743392200"
  by (simp add: max_trit_int_eq)

lemma quant_int_range: "0 \<le> mti \<Longrightarrow> mti < 2 ^ 31 \<Longrightarrow> \<bar>quant_int L mti s x\<bar> \<le> mti
    \<and> quant_int L mti s x = clamp (- mti) mti (lround L (fdiv F32 x s))"
  by (auto simp: quant_int_def Let_def clamp_def to_i32_id in_i32_def)

lemma clamp_mant_range: "0 \<le> m \<Longrightarrow> \<bar>clamp_mant m r\<bar> \<le> m"
  by (auto simp: clamp_mant_def Let_def)

lemma clamp_exp_range: "\<bar>clamp_exp e\<bar> \<le> EXP_MAX"
  by (auto simp: clamp_exp_def Let_def EXP_MAX_def)

lemma mant_limit_9: "mant_limit 9 = Inr MANT_MAX"
  by (simp add: mant_limit_def MANT_MAX_def eval_nat_numeral signed_divide_int_def)

lemma from_float_trits_9: "from_float_trits L x 9 = from_float L x"
  by (simp add: from_float_trits_def from_float_def mant_limit_9)

lemma mant_limit_range: "0 < n \<Longrightarrow> mant_limit n = Inr m \<Longrightarrow> 0 \<le> m \<and> m \<le> MANT_MAX"
  using max_trit_int_pos [of n] by (auto simp: mant_limit_def max_trit_int_def Let_def MANT_MAX_def split: if_splits)

lemma from_float_range:
  assumes "from_float_trits L x n = Inr t"
  shows "tf_sign t = 0 \<and> \<bar>tf_exp t\<bar> \<le> 121 \<and> \<bar>tf_mantissa t\<bar> \<le> 9841"
proof (cases "\<not> is_finite x \<or> flt_eq x fzero \<or> n \<le> 0")
  case True
  then show ?thesis using assms by (auto simp: from_float_trits_def tf_zero_def)
next
  case False
  then obtain m e r where m: "mant_limit n = Inr m" and t: "t = \<lparr>tf_sign = 0, tf_exp = clamp_exp e, tf_mantissa = clamp_mant m r\<rparr>"
    using assms by (auto simp: from_float_trits_def Let_def)
  have "0 \<le> m \<and> m \<le> MANT_MAX" using mant_limit_range [OF _ m] False by simp
  then show ?thesis using clamp_exp_range [of e] clamp_mant_range [of m r] by (simp add: t EXP_MAX_def MANT_MAX_def)
qed

lemma exp_loops_band:
  "exp_up L v hi e = e' \<Longrightarrow> e \<le> e' \<and> (\<not> flt_less hi (fabs (fdiv F64 v (pow3 L e'))) \<or> EXP_MAX \<le> e')"
proof (induction L v hi e rule: exp_up.induct)
  case (1 L v hi e)
  show ?case
  proof (cases "flt_less hi (fabs (fdiv F64 v (pow3 L e))) \<and> e < EXP_MAX")
    case True
    then have "exp_up L v hi (e + 1) = e'" using "1.prems" by (simp add: exp_up.simps [of L v hi e])
    then show ?thesis using "1.IH" [OF True] by linarith
  next
    case False
    then show ?thesis using "1.prems" by (auto simp: exp_up.simps [of L v hi e])
  qed
qed

lemma bitnet_digit_range: "bitnet_digit L s x \<in> {- 1, 0, 1}"
  by (auto simp: bitnet_digit_def Let_def)

lemma bitnet_count_sum:
  "bo_tvadd (foldl bitnet_count c ws) + bo_tvsub (foldl bitnet_count c ws) + bo_skips (foldl bitnet_count c ws)
     = bo_tvadd c + bo_tvsub c + bo_skips c + of_nat (length ws)
   \<and> bo_tvmac (foldl bitnet_count c ws) = bo_tvmac c
   \<and> bo_tvadd (foldl bitnet_count c ws) = bo_tvadd c + of_nat (length (filter (\<lambda>w. w > 0) ws))
   \<and> bo_tvsub (foldl bitnet_count c ws) = bo_tvsub c + of_nat (length (filter (\<lambda>w. w < 0) ws))"
proof (induction ws arbitrary: c)
  case (Cons w ws)
  show ?case using Cons.IH [of "bitnet_count c w"] by (auto simp: bitnet_count_def algebra_simps)
qed simp

section \<open>Blocks\<close>

text \<open>Block \<open>b\<close> of a buffer, and the number of blocks.\<close>

definition block :: "nat \<Rightarrow> 'a list \<Rightarrow> nat \<Rightarrow> 'a list" where
  "block bs xs b = take bs (drop (b * bs) xs)"

definition block_count :: "nat \<Rightarrow> nat \<Rightarrow> nat" where
  "block_count bs n = (n + bs - 1) div bs"

lemma block_count_less: "0 < bs \<Longrightarrow> b < block_count bs n \<longleftrightarrow> b * bs < n"
proof -
  assume bs: "0 < bs"
  have "b < (n + bs - 1) div bs \<longleftrightarrow> (b + 1) * bs \<le> n + bs - 1"
    using bs by (metis Suc_eq_plus1 Suc_le_eq less_eq_div_iff_mult_less_eq)
  also have "\<dots> \<longleftrightarrow> b * bs < n" using bs by auto
  finally show ?thesis by (simp add: block_count_def)
qed

lemma quant_block_length: "length (snd (quant_block L m xs)) = length xs"
  by (simp add: quant_block_def Let_def)

lemma concat_blocks:
  "0 < bs \<Longrightarrow> concat (map (block bs xs) [0..<k]) = take (k * bs) xs"
proof (induction k)
  case (Suc k)
  then show ?case by (simp add: block_def) (metis add.commute take_add)
qed simp

lemma put_block_eq:
  assumes "length xs = n"
  shows "put_block L m bs xs n t b = t\<lparr>tt_block_scales := (tt_block_scales t)[b := fst (quant_block L m (block bs xs b))],
        tt_payload := take (b * bs) (tt_payload t) @ snd (quant_block L m (block bs xs b))
          @ drop (b * bs + length (block bs xs b)) (tt_payload t)\<rparr>"
proof -
  have "take ((if b * bs + bs > n then n else b * bs + bs) - b * bs) (drop (b * bs) xs) = block bs xs b"
    using assms by (simp add: block_def)
  moreover obtain sc q where q: "quant_block L m (block bs xs b) = (sc, q)" by (cases "quant_block L m (block bs xs b)")
  moreover have "length q = length (block bs xs b)" using quant_block_length [of L m "block bs xs b"] q by simp
  ultimately show ?thesis by (simp add: put_block_def Let_def)
qed

lemma blocks_fold:
  assumes bs: "0 < bs" and n: "length xs = n" and k: "k \<le> block_count bs n"
    and t: "length (tt_payload t) = n" "length (tt_block_scales t) = block_count bs n"
  shows "let t' = quant_blocks L m bs xs n [0..<k] t
    in tt_payload t' = concat (map (\<lambda>b. snd (quant_block L m (block bs xs b))) [0..<k]) @ drop (k * bs) (tt_payload t)
     \<and> tt_block_scales t' = map (\<lambda>b. fst (quant_block L m (block bs xs b))) [0..<k] @ drop k (tt_block_scales t)
     \<and> tt_fp32 t' = tt_fp32 t \<and> tt_block_size t' = tt_block_size t \<and> tt_shape t' = tt_shape t
     \<and> tt_n_trits t' = tt_n_trits t"
  using k
proof (induction k)
  case (Suc k)
  let ?q = "\<lambda>b. quant_block L m (block bs xs b)"
  define u where "u = quant_blocks L m bs xs n [0..<k] t"
  have u: "tt_payload u = concat (map (\<lambda>b. snd (?q b)) [0..<k]) @ drop (k * bs) (tt_payload t)"
    "tt_block_scales u = map (\<lambda>b. fst (?q b)) [0..<k] @ drop k (tt_block_scales t)"
    "tt_fp32 u = tt_fp32 t" "tt_block_size u = tt_block_size t" "tt_shape u = tt_shape t" "tt_n_trits u = tt_n_trits t"
    using Suc by (simp_all add: u_def Let_def)
  have kn: "k * bs < n" using Suc.prems block_count_less [OF bs, of k n] by simp
  have "length (concat (map (\<lambda>b. snd (?q b)) [0..<k])) = length (concat (map (block bs xs) [0..<k]))"
    by (simp add: length_concat o_def quant_block_length)
  also have "\<dots> = k * bs" using kn by (simp add: concat_blocks [OF bs] n)
  finally have len: "length (concat (map (\<lambda>b. snd (?q b)) [0..<k])) = k * bs" .
  have step: "quant_blocks L m bs xs n [0..<Suc k] t = u\<lparr>tt_block_scales := (tt_block_scales u)[k := fst (?q k)],
      tt_payload := take (k * bs) (tt_payload u) @ snd (?q k) @ drop (k * bs + length (block bs xs k)) (tt_payload u)\<rparr>"
    by (simp add: quant_blocks_def u_def put_block_eq [OF n])
  have dr: "drop (k * bs + j) (tt_payload u) = drop (k * bs + j) (tt_payload t)" for j
    unfolding u(1) using len by (simp add: ac_simps)
  have rest: "drop (k * bs + length (block bs xs k)) (tt_payload u) = drop (Suc k * bs) (tt_payload t)"
    unfolding dr using t(1) n kn by (cases "k * bs + bs \<le> n") (simp_all add: block_def ac_simps)
  have "k < length (tt_block_scales t)" using Suc.prems t(2) by simp
  then have sc: "(tt_block_scales u)[k := fst (?q k)]
      = map (\<lambda>b. fst (?q b)) [0..<Suc k] @ drop (Suc k) (tt_block_scales t)"
    by (simp add: u(2) list_update_append Cons_nth_drop_Suc [symmetric])
  show ?case unfolding Let_def step using rest sc len by (simp add: u)
qed (simp add: quant_blocks_def)

text \<open>\<open>quantize\<close> is one block.\<close>

lemma quantize_block:
  assumes "quantize L data shape n = Inr t"
  shows "1 \<le> n \<and> n \<le> 27 \<and> shape_elems shape \<le> length data
    \<and> (tt_scale t, tt_payload t) = quant_block L (max_trit_int n) (take (shape_elems shape) data)
    \<and> tt_shape t = shape \<and> tt_n_trits t = n \<and> tt_fp32 t = [] \<and> tt_block_scales t = [] \<and> tt_block_size t = 0"
  using assms
  by (auto simp: quantize_def quant_block_def buffer_def Let_def mk_tensor_def map_replicate_const split: if_splits)

lemma quantize_ok:
  "1 \<le> n \<Longrightarrow> n \<le> 27 \<Longrightarrow> shape_elems shape \<le> length data \<Longrightarrow> \<exists>t. quantize L data shape n = Inr t"
  by (auto simp: quantize_def buffer_def Let_def)

lemma shape_one: "len < 2 ^ 64 \<Longrightarrow> shape_elems [int len] = len"
  by (simp add: shape_elems_def to_size_of_nat)

lemma quantize_blocked_eq:
  assumes run: "quantize_blocked L data shape n bsz = Inr t" and room: "shape_elems shape + nat bsz \<le> 2 ^ 64"
  defines "bs \<equiv> nat bsz" and "xs \<equiv> take (shape_elems shape) data"
  shows "1 \<le> n \<and> n \<le> 27 \<and> 1 \<le> bsz \<and> length xs = shape_elems shape
    \<and> tt_payload t = concat (map (\<lambda>b. snd (quant_block L (max_trit_int n) (block bs xs b))) [0..<block_count bs (length xs)])
    \<and> tt_block_scales t = map (\<lambda>b. fst (quant_block L (max_trit_int n) (block bs xs b))) [0..<block_count bs (length xs)]
    \<and> tt_fp32 t = [] \<and> tt_block_size t = bsz \<and> tt_shape t = shape"
proof -
  let ?N = "shape_elems shape"
  have g: "1 \<le> n" "n \<le> 27" "1 \<le> bsz" "?N \<le> length data"
    using run by (auto simp: quantize_blocked_def buffer_def Let_def split: if_splits)
  have bs: "0 < bs" using g(3) by (simp add: bs_def)
  have len: "length xs = ?N" using g(4) by (simp add: xs_def)
  have u: "u64 (?N + bs - 1) div bs = block_count bs ?N" using room bs by (simp add: block_count_def bs_def)
  define t0 where "t0 = mk_tensor\<lparr>tt_n_trits := n, tt_block_size := bsz, tt_shape := shape,
      tt_payload := replicate ?N 0, tt_block_scales := replicate (block_count bs ?N) fzero\<rparr>"
  have f0: "tt_payload t0 = replicate ?N 0" "tt_block_scales t0 = replicate (block_count bs ?N) fzero"
    "tt_fp32 t0 = []" "tt_block_size t0 = bsz" "tt_shape t0 = shape" "tt_n_trits t0 = n"
    by (simp_all add: t0_def mk_tensor_def)
  have t: "t = quant_blocks L (max_trit_int n) bs xs ?N [0..<block_count bs ?N] t0"
    using run g u by (simp add: quantize_blocked_def buffer_def Let_def bs_def [symmetric] xs_def t0_def)
  have "?N \<le> block_count bs ?N * bs"
    using block_count_less [OF bs, of "block_count bs ?N" ?N] by simp
  then show ?thesis
    using blocks_fold [OF bs len order_refl, of t0 L "max_trit_int n", unfolded Let_def, folded t] g len
    by (simp add: f0)
qed

lemma block_concat:
  assumes bs: "0 < bs" and b: "b < block_count bs (length xs)"
    and f: "\<And>b. length (f b) = length (block bs xs b)"
  shows "block bs (concat (map f [0..<block_count bs (length xs)])) b = f b"
proof -
  let ?N = "length xs" and ?k = "block_count bs (length xs)"
  have len: "length (concat (map f [0..<j])) = min (j * bs) ?N" for j
  proof -
    have "length (concat (map f [0..<j])) = length (concat (map (block bs xs) [0..<j]))"
      by (simp add: length_concat o_def f)
    then show ?thesis by (simp add: concat_blocks [OF bs])
  qed
  have bN: "b * bs < ?N" using b block_count_less [OF bs] by simp
  have "[0..<?k] = [0..<b] @ [b..<?k]" using upt_add_eq_append [of 0 b "?k - b"] b by simp
  then have "[0..<?k] = [0..<b] @ b # [Suc b..<?k]" using b by (simp add: upt_conv_Cons)
  then have c: "concat (map f [0..<?k]) = concat (map f [0..<b]) @ f b @ concat (map f [Suc b..<?k])" by simp
  have "drop (b * bs) (concat (map f [0..<?k])) = f b @ concat (map f [Suc b..<?k])"
    using bN by (simp add: c len)
  moreover have "length (f b) = bs \<or> length (f b) < bs \<and> ?k = Suc b"
  proof (cases "b * bs + bs \<le> ?N")
    case False
    then have "\<not> Suc b < ?k" using block_count_less [OF bs, of "Suc b" ?N] by simp
    moreover have "length (f b) = length xs - b * bs" using False by (simp add: f block_def)
    ultimately show ?thesis using False b bN by linarith
  qed (simp add: f block_def)
  ultimately show ?thesis by (auto simp: block_def)
qed

lemma rmap_map: "(\<And>i. i \<in> set is \<Longrightarrow> f i = Inr (g i)) \<Longrightarrow> rmap f is = Inr (map g is)"
  by (rule rmap_all)

lemma dequantize_plain:
  assumes "tt_fp32 t = []" and "tt_block_scales t = []" and "num_elems t = length (tt_payload t)"
  shows "dequantize t = Inr (map (\<lambda>q. fmul F32 (of_int_flt F32 q) (tt_scale t)) (tt_payload t))"
proof -
  have "dequantize t = Inr (map (\<lambda>i. fmul F32 (of_int_flt F32 (tt_payload t ! i)) (tt_scale t)) [0..<length (tt_payload t)])"
    unfolding dequantize_def Let_def using assms by (simp only: simp_thms if_False) (intro rmap_map; simp add: read_at_def)
  also have "map (\<lambda>i. fmul F32 (of_int_flt F32 (tt_payload t ! i)) (tt_scale t)) [0..<length (tt_payload t)]
      = map (\<lambda>q. fmul F32 (of_int_flt F32 q) (tt_scale t)) (tt_payload t)"
    by (simp add: map_equality_iff)
  finally show ?thesis .
qed

lemma dequantize_blocked:
  assumes "tt_fp32 t = []" and "tt_block_scales t \<noteq> []" and "num_elems t = length (tt_payload t)"
    and "0 < to_size (tt_block_size t)"
    and "\<And>i. i < length (tt_payload t) \<Longrightarrow> i div to_size (tt_block_size t) < length (tt_block_scales t)"
  shows "dequantize t = Inr (map (\<lambda>i. fmul F32 (of_int_flt F32 (tt_payload t ! i))
      (tt_block_scales t ! (i div to_size (tt_block_size t)))) [0..<length (tt_payload t)])"
  unfolding dequantize_def Let_def using assms by (simp only: simp_thms if_False if_True) (intro rmap_map; simp add: read_at_def)

text \<open>Blocked quantisation, seen one block at a time.\<close>

lemma quantize_blocked_blockwise:
  assumes run: "quantize_blocked L data shape n bsz = Inr t" and room: "shape_elems shape + nat bsz \<le> 2 ^ 64"
    and bi: "in_i32 bsz" and b: "b * nat bsz < shape_elems shape"
  shows "\<exists>tb out outb. quantize L (block (nat bsz) (take (shape_elems shape) data) b)
        [int (length (block (nat bsz) (take (shape_elems shape) data) b))] n = Inr tb
    \<and> tt_scale tb = tt_block_scales t ! b \<and> tt_payload tb = block (nat bsz) (tt_payload t) b
    \<and> dequantize t = Inr out \<and> dequantize tb = Inr outb \<and> outb = block (nat bsz) out b"
proof -
  let ?bs = "nat bsz" and ?xs = "take (shape_elems shape) data"
  let ?N = "shape_elems shape" and ?q = "\<lambda>b. quant_block L (max_trit_int n) (block (nat bsz) (take (shape_elems shape) data) b)"
  note e = quantize_blocked_eq [OF run room]
  have bs: "0 < ?bs" and n: "1 \<le> n" "n \<le> 27" and len: "length ?xs = ?N" using e by auto
  have bk: "b < block_count ?bs ?N" using b block_count_less [OF bs] by simp
  have flen: "length (snd (?q j)) = length (block ?bs ?xs j)" for j by (rule quant_block_length)
  have pay: "tt_payload t = concat (map (\<lambda>b. snd (?q b)) [0..<block_count ?bs (length ?xs)])"
    and sc: "tt_block_scales t = map (\<lambda>b. fst (?q b)) [0..<block_count ?bs (length ?xs)]" using e by simp_all
  have pb: "block ?bs (tt_payload t) b = snd (?q b)"
    unfolding pay by (rule block_concat [OF bs]) (use bk len flen in simp_all)
  have sb: "tt_block_scales t ! b = fst (?q b)" unfolding sc using bk len by simp
  have blen: "length (block ?bs ?xs b) < 2 ^ 64" using room b len by (simp add: block_def)
  let ?B = "block ?bs ?xs b"
  obtain tb where tb: "quantize L ?B [int (length ?B)] n = Inr tb"
    using quantize_ok [OF n, of "[int (length ?B)]" ?B L] shape_one [OF blen] by auto
  have tbf: "(tt_scale tb, tt_payload tb) = ?q b" "tt_fp32 tb = []" "tt_block_scales tb = []"
    "tt_shape tb = [int (length ?B)]"
    using quantize_block [OF tb] shape_one [OF blen] by simp_all
  then have tbp: "tt_payload tb = snd (?q b)" "tt_scale tb = fst (?q b)" by (metis snd_conv, metis fst_conv)
  have plen: "length (tt_payload t) = ?N"
  proof -
    have "length (tt_payload t) = length (concat (map (block ?bs ?xs) [0..<block_count ?bs (length ?xs)]))"
      unfolding pay by (simp add: length_concat o_def flen)
    then show ?thesis using block_count_less [OF bs, of "block_count ?bs ?N" ?N] len by (simp add: concat_blocks [OF bs])
  qed
  have sz: "to_size (tt_block_size t) = ?bs" using e bi by (simp add: to_size_id in_i32_def)
  have nsc: "length (tt_block_scales t) = block_count ?bs ?N" using sc len by simp
  have idx: "i div ?bs < length (tt_block_scales t)" if "i < ?N" for i
  proof -
    have "i div ?bs * ?bs \<le> i" by simp
    then have "i div ?bs * ?bs < ?N" using that by linarith
    then show ?thesis using block_count_less [OF bs, of "i div ?bs" ?N] nsc by simp
  qed
  have fp: "tt_fp32 t = []" and ne: "num_elems t = ?N"
    using e by (simp_all add: num_elems_def)
  have "tt_block_scales t \<noteq> []" using sc bk len by auto
  then have out: "dequantize t = Inr (map (\<lambda>i. fmul F32 (of_int_flt F32 (tt_payload t ! i)) (tt_block_scales t ! (i div ?bs))) [0..<?N])"
    (is "_ = Inr ?out")
    using dequantize_blocked [of t] fp ne bs idx by (simp add: sz plen)
  have outb: "dequantize tb = Inr (map (\<lambda>q. fmul F32 (of_int_flt F32 q) (tt_scale tb)) (tt_payload tb))" (is "_ = Inr ?outb")
    by (rule dequantize_plain) (simp_all add: tbf num_elems_def shape_one [OF blen] tbp flen)
  have "?outb = block ?bs ?out b"
  proof (rule nth_equalityI)
    show l: "length ?outb = length (block ?bs ?out b)"
      using len by (simp add: tbp flen) (simp add: block_def)
    fix i assume i: "i < length ?outb"
    then have "i < length (block ?bs ?out b)" unfolding l .
    then have "i < ?bs" "i < ?N - b * ?bs" by (simp_all add: block_def)
    then have ib: "i < ?bs" "b * ?bs + i < ?N" by linarith+
    have "tt_payload tb ! i = tt_payload t ! (b * ?bs + i)"
      using ib plen unfolding tbp pb [symmetric] by (simp add: block_def)
    moreover have "(b * ?bs + i) div ?bs = b" using ib(1) by simp
    ultimately show "?outb ! i = block ?bs ?out b ! i"
      using i ib sb by (simp add: tbp(2)) (simp add: block_def tbp(2))
  qed
  then show ?thesis using tb tbp pb sb out outb by simp
qed

end
