(* ===== verification/TerHost.thy ===== *)
theory TerHost
  imports TerNumfmt TerKernels
begin

text \<open>
  The host routines of the transformer (\<open>src/tx/forward.cpp\<close>, first half): matrix products on
  quantised and on floating-point activations, normalisation, rotary embedding, softmax and the
  gated activations, on the host and through the kernels of the simulator.
\<close>

section \<open>Vectors, loops and machine arithmetic of the host\<close>

definition mul_i32 :: "int \<Rightarrow> int \<Rightarrow> int res" where
  "mul_i32 a b = (if in_i32 (a * b) then Inr (a * b) else Inl (SignedOverflow ''int32 *''))"

definition div_i32 :: "int \<Rightarrow> int \<Rightarrow> int res" where
  "div_i32 a b =
     (if b = 0 then Inl (DivisionByZero ''int32 /'')
      else if in_i32 (a sdiv b) then Inr (a sdiv b) else Inl (SignedOverflow ''int32 /''))"

fun rfold :: "('b \<Rightarrow> 'a \<Rightarrow> 'b res) \<Rightarrow> 'b \<Rightarrow> 'a list \<Rightarrow> 'b res" where
  "rfold f acc [] = Inr acc"
| "rfold f acc (x # xs) = rbind (f acc x) (\<lambda>acc'. rfold f acc' xs)"

fun smap :: "('a \<Rightarrow> ('s, 'b) sx) \<Rightarrow> 'a list \<Rightarrow> ('s, 'b list) sx" where
  "smap f [] = ret []"
| "smap f (x # xs) = sbind (f x) (\<lambda>y. sbind (smap f xs) (\<lambda>ys. ret (y # ys)))"

text \<open>
  \<open>std::vector::assign(n, x)\<close> for elements of the given width in bytes. Running out of
  memory below the maximal size is not modelled.
\<close>

definition new_vec :: "nat \<Rightarrow> nat \<Rightarrow> 'a \<Rightarrow> 'a list res" where
  "new_vec width n x =
     (if n > (2 ^ 63 - 1) div width then Inl (LengthError ''vector::assign'') else Inr (replicate n x))"

definition write_at :: "'a list \<Rightarrow> nat \<Rightarrow> 'a \<Rightarrow> 'a list res" where
  "write_at xs i v = (if i < length xs then Inr (xs[i := v]) else Inl (OutOfRange ''write beyond a buffer''))"

text \<open>The sub-vector from \<open>a\<close> of length \<open>n\<close>, and its replacement.\<close>

definition slice :: "'a list \<Rightarrow> nat \<Rightarrow> nat \<Rightarrow> 'a list" where
  "slice xs a n = take n (drop a xs)"

definition splice :: "'a list \<Rightarrow> nat \<Rightarrow> 'a list \<Rightarrow> 'a list" where
  "splice xs a ys = take a xs @ ys @ drop (a + length ys) xs"

abbreviation fone :: flt where
  "fone \<equiv> Num False 1"

section \<open>Matrix products\<close>

text \<open>The weight at an index of a tensor, as \<open>double\<close>.\<close>

definition weight_f64 :: "trit_tensor \<Rightarrow> nat \<Rightarrow> flt res" where
  "weight_f64 W idx =
     (if tt_fp32 W \<noteq> [] then rbind (read_at (tt_fp32 W) idx) (\<lambda>w. Inr (fcvt F64 w))
      else rbind (read_at (tt_payload W) idx) (\<lambda>q.
        if tt_block_scales W \<noteq> [] then
          if to_size (tt_block_size W) = 0 then Inl (DivisionByZero ''mm_row_fp'')
          else rbind (read_at (tt_block_scales W) (idx div to_size (tt_block_size W))) (\<lambda>s.
               Inr (fmul F64 (of_int_flt F64 q) (fcvt F64 s)))
        else Inr (fmul F64 (of_int_flt F64 q) (fcvt F64 (tt_scale W)))))"

definition fp_row :: "trit_tensor \<Rightarrow> int \<Rightarrow> nat \<Rightarrow> flt \<Rightarrow> flt list \<Rightarrow> flt list res" where
  "fp_row W N base xv acc =
     rmap (\<lambda>j. rbind (weight_f64 W (u64 (base + j))) (\<lambda>w.
       Inr (fadd F64 (acc ! j) (fmul F64 xv w)))) [0..<nat N]"

definition mm_row_fp :: "flt list \<Rightarrow> trit_tensor \<Rightarrow> int \<Rightarrow> int \<Rightarrow> flt list res" where
  "mm_row_fp x W K N =
     rbind (new_vec 4 (to_size N) fzero) (\<lambda>_.
     rbind (new_vec 8 (to_size N) fzero) (\<lambda>acc0.
     rbind (rfold (\<lambda>acc k. rbind (read_at x k) (\<lambda>xk. let xv = fcvt F64 xk
         in if flt_eq xv fzero then Inr acc else fp_row W N (u64 (k * to_size N)) xv acc))
       acc0 [0..<nat K]) (\<lambda>acc.
     Inr (map (fcvt F32) acc))))"

text \<open>One row of the integer product: \<open>acc[j] += xv * w_row[j]\<close> in \<open>int64_t\<close>.\<close>

definition int_row :: "int list \<Rightarrow> int \<Rightarrow> nat \<Rightarrow> int \<Rightarrow> int list \<Rightarrow> int list res" where
  "int_row Wp N base xv acc =
     rmap (\<lambda>j. rbind (read_at Wp (base + j)) (\<lambda>w. add_i64 (acc ! j) (xv * w))) [0..<nat N]"

definition int_rows :: "int list \<Rightarrow> nat \<Rightarrow> int list \<Rightarrow> int \<Rightarrow> int list \<Rightarrow> nat list \<Rightarrow> int list res" where
  "int_rows Xp xo Wp N acc ks =
     rfold (\<lambda>acc k. rbind (read_at Xp (xo + k)) (\<lambda>xv.
       if xv = 0 then Inr acc else int_row Wp N (u64 (k * to_size N)) xv acc)) acc ks"

text \<open>The same with one scale per block, in \<open>double\<close>.\<close>

definition block_row :: "trit_tensor \<Rightarrow> int \<Rightarrow> nat \<Rightarrow> int \<Rightarrow> flt list \<Rightarrow> flt list res" where
  "block_row W N base xv facc =
     rmap (\<lambda>j. if to_size (tt_block_size W) = 0 then Inl (DivisionByZero ''mm_row'')
       else rbind (read_at (tt_payload W) (base + j)) (\<lambda>w.
            rbind (read_at (tt_block_scales W) (u64 (base + j) div to_size (tt_block_size W))) (\<lambda>s.
            Inr (fadd F64 (facc ! j) (fmul F64 (fmul F64 (of_int_flt F64 xv) (of_int_flt F64 w)) (fcvt F64 s))))))
       [0..<nat N]"

definition block_rows :: "int list \<Rightarrow> nat \<Rightarrow> trit_tensor \<Rightarrow> int \<Rightarrow> flt list \<Rightarrow> nat list \<Rightarrow> flt list res" where
  "block_rows Xp xo W N acc ks =
     rfold (\<lambda>acc k. rbind (read_at Xp (xo + k)) (\<lambda>xv.
       if xv = 0 then Inr acc else block_row W N (u64 (k * to_size N)) xv acc)) acc ks"

definition mm_row_out :: "trit_tensor \<Rightarrow> int \<Rightarrow> trit_tensor \<Rightarrow> int \<Rightarrow> int \<Rightarrow> flt list res" where
  "mm_row_out Xt row Wt K N =
     (let xo = u64 (to_size row * to_size K)
      in rbind (new_vec 4 (to_size N) fzero) (\<lambda>_.
         if tt_block_scales Wt \<noteq> [] then
           rbind (new_vec 8 (to_size N) fzero) (\<lambda>facc0.
           rbind (block_rows (tt_payload Xt) xo Wt N facc0 [0..<nat K]) (\<lambda>facc.
           Inr (map (\<lambda>a. fcvt F32 (fmul F64 a (fcvt F64 (tt_scale Xt)))) facc)))
         else
           rbind (new_vec 8 (to_size N) 0) (\<lambda>acc0.
           rbind (int_rows (tt_payload Xt) xo (tt_payload Wt) N acc0 [0..<nat K]) (\<lambda>acc.
           let s = fmul F32 (tt_scale Xt) (tt_scale Wt)
           in Inr (map (\<lambda>a. fmul F32 (of_int_flt F32 a) s) acc)))))"

text \<open>The analytic count of \<open>TVMAC\<close>: one per tile of 27 lanes and output.\<close>

definition tvmac_tiles :: "int \<Rightarrow> int \<Rightarrow> 64 word res" where
  "tvmac_tiles K N = rbind (add_i32 K 26) (\<lambda>k. Inr (of_int (k sdiv 27) * of_int N))"

definition bump_tvmac :: "64 word \<Rightarrow> (sim, unit) sx" where
  "bump_tvmac n = modify (\<lambda>s. s\<lparr>sim_counters := bump_n TVMAC n (sim_counters s)\<rparr>)"

definition mm_row :: "trit_tensor \<Rightarrow> int \<Rightarrow> trit_tensor \<Rightarrow> int \<Rightarrow> int \<Rightarrow> (sim, flt list) sx" where
  "mm_row Xt row Wt K N =
     sbind (lift (mm_row_out Xt row Wt K N)) (\<lambda>out.
     sbind (lift (tvmac_tiles K N)) (\<lambda>n. sbind (bump_tvmac n) (\<lambda>_. ret out)))"

section \<open>Host activations\<close>

definition sum_squares :: "flt list \<Rightarrow> flt" where
  "sum_squares xs = foldl (\<lambda>s v. fadd F64 s (fmul F64 (fcvt F64 v) (fcvt F64 v))) fzero xs"

definition rms_inv :: "libm \<Rightarrow> flt list \<Rightarrow> int \<Rightarrow> flt \<Rightarrow> flt" where
  "rms_inv L x n eps =
     fdiv F64 fone (lm_sqrt L F64 (fadd F64 (fdiv F64 (sum_squares x) (of_int_flt F64 n)) (fcvt F64 eps)))"

text \<open>The normalised element times its gain.\<close>

definition gained :: "flt \<Rightarrow> flt \<Rightarrow> flt \<Rightarrow> flt" where
  "gained r x w = fmul F32 (fcvt F32 (fmul F64 (fcvt F64 x) r)) w"

definition rmsnorm_host :: "libm \<Rightarrow> flt list \<Rightarrow> flt list \<Rightarrow> flt \<Rightarrow> flt list res" where
  "rmsnorm_host L x w eps =
     (let r = rms_inv L x (int (length x)) eps
      in rmap (\<lambda>i. rbind (read_at w i) (\<lambda>g. Inr (gained r (x ! i) g))) [0..<length x])"

text \<open>The rotation angle of pair \<open>k\<close> at position \<open>pos\<close>.\<close>

definition rope_angle :: "libm \<Rightarrow> int \<Rightarrow> int \<Rightarrow> flt \<Rightarrow> nat \<Rightarrow> flt" where
  "rope_angle L pos head_dim theta k =
     (let freq = fdiv F64 fone (lm_pow L theta
        (fdiv F64 (fmul F64 (of_int_flt F64 2) (of_int_flt F64 (int k))) (of_int_flt F64 head_dim)))
      in fmul F64 (of_int_flt F64 pos) freq)"

definition rotate_pair :: "flt \<Rightarrow> flt \<Rightarrow> nat \<Rightarrow> flt list \<Rightarrow> flt list res" where
  "rotate_pair c s k v =
     rbind (read_at v (2 * k)) (\<lambda>x0. rbind (read_at v (2 * k + 1)) (\<lambda>x1.
       Inr (v[2 * k := fcvt F32 (fsub F64 (fmul F64 (fcvt F64 x0) c) (fmul F64 (fcvt F64 x1) s)),
              2 * k + 1 := fcvt F32 (fadd F64 (fmul F64 (fcvt F64 x0) s) (fmul F64 (fcvt F64 x1) c))])))"

definition rope_host :: "libm \<Rightarrow> flt list \<Rightarrow> int \<Rightarrow> int \<Rightarrow> flt \<Rightarrow> flt list res" where
  "rope_host L v pos head_dim theta =
     rfold (\<lambda>v k. let a = rope_angle L pos head_dim theta k in rotate_pair (lm_cos L a) (lm_sin L a) k v)
       v [0..<nat (head_dim sdiv 2)]"

definition softmax_host :: "libm \<Rightarrow> flt list \<Rightarrow> flt list" where
  "softmax_host L v =
     (if v = [] then []
      else
        let mx = foldl (\<lambda>m x. if flt_less m (fcvt F64 x) then fcvt F64 x else m) (fcvt F64 (hd v)) v;
            es = map (\<lambda>x. fcvt F32 (lm_exp L (fsub F64 (fcvt F64 x) mx))) v;
            total = foldl (\<lambda>s x. fadd F64 s (fcvt F64 x)) fzero es
        in if flt_less fzero total then map (\<lambda>x. fcvt F32 (fdiv F64 (fcvt F64 x) total)) es else es)"

definition silu_mul_host :: "libm \<Rightarrow> flt list \<Rightarrow> flt list \<Rightarrow> flt list res" where
  "silu_mul_host L gate up =
     rmap (\<lambda>i. rbind (read_at up i) (\<lambda>u.
       let g = fcvt F64 (gate ! i);
           s = fdiv F64 fone (fadd F64 fone (lm_exp L (fneg g)))
       in Inr (fcvt F32 (fmul F64 (fmul F64 g s) (fcvt F64 u))))) [0..<length gate]"

definition relu2_mul_host :: "flt list \<Rightarrow> flt list \<Rightarrow> flt list res" where
  "relu2_mul_host gate up =
     rmap (\<lambda>i. rbind (read_at up i) (\<lambda>u.
       let g = fcvt F64 (gate ! i);
           r = (if flt_less fzero g then fmul F64 g g else fzero)
       in Inr (fcvt F32 (fmul F64 r (fcvt F64 u))))) [0..<length gate]"

section \<open>Activations through kernels\<close>

definition OUT_SCALE :: int where
  "OUT_SCALE = 9841"

definition X_STEP :: flt where
  "X_STEP = Num False (1 / 32)"

text \<open>A buffer of 27 lanes: \<open>d\<close> where \<open>x\<close> has no element.\<close>

definition pad27 :: "flt \<Rightarrow> flt list \<Rightarrow> flt list" where
  "pad27 d x = map (\<lambda>i. if i < length x then x ! i else d) [0..<27]"

definition put_lanes :: "(nat \<times> int list) list \<Rightarrow> (sim, unit) sx" where
  "put_lanes bufs =
     sfor (\<lambda>i. sfor (\<lambda>(a, vs). sbind (from_int (vs ! i)) (store_at (a + i))) bufs) [0..<27]"

definition lane_value :: "nat \<Rightarrow> (sim, int) sx" where
  "lane_value a = sbind (ld (int a)) (\<lambda>w. ret (word27_to_int w))"

definition rms_sum_div :: int where
  "rms_sum_div = (let d = (27 * 9841 * 9841) sdiv 255 in if d < 1 then 1 else d)"

definition rmsnorm_kernel :: "libm \<Rightarrow> kernel_id \<Rightarrow> flt list \<Rightarrow> flt list \<Rightarrow> int \<Rightarrow> (sim, flt list) sx" where
  "rmsnorm_kernel L ident x w rsqrt_lut =
     sbind (lift (quantize L (pad27 fzero x) [27] 9)) (\<lambda>xt.
     sbind (put_lanes [(1300, tt_payload xt)]) (\<lambda>_.
     sbind (call_kernel ident [1300, 1400, rsqrt_lut, rms_sum_div, 255, 0, 0]) (\<lambda>_.
     let recovery = fdiv F32 (fmul F32 (tt_scale xt) (Num False 16)) (of_int_flt F32 OUT_SCALE)
     in smap (\<lambda>i. sbind (lane_value (1400 + i)) (\<lambda>y. sbind (lift (read_at w i)) (\<lambda>g.
          ret (fmul F32 (fmul F32 (of_int_flt F32 y) recovery) g)))) [0..<length x])))"

text \<open>The tables of one rotation: cosines, sines and the rotated input, two lanes per pair.\<close>

definition rope_tables ::
  "libm \<Rightarrow> int \<Rightarrow> int \<Rightarrow> flt \<Rightarrow> int list \<Rightarrow> (int list \<times> int list \<times> int list) res" where
  "rope_tables L pos head_dim theta xs =
     rfold (\<lambda>(cv, sv, rv) k.
        let a = rope_angle L pos head_dim theta k
        in rbind (to_int_trunc in_i32 (fround (fmul F64 (lm_cos L a) (of_int_flt F64 OUT_SCALE)))) (\<lambda>c.
           rbind (to_int_trunc in_i32 (fround (fmul F64 (lm_sin L a) (of_int_flt F64 OUT_SCALE)))) (\<lambda>s.
           Inr (cv[2 * k := c, 2 * k + 1 := c], sv[2 * k := s, 2 * k + 1 := s],
                rv[2 * k := - (xs ! (2 * k + 1)), 2 * k + 1 := xs ! (2 * k)]))))
       (replicate 27 0, replicate 27 0, replicate 27 0) [0..<nat (head_dim sdiv 2)]"

definition rope_kernel :: "libm \<Rightarrow> kernel_id \<Rightarrow> flt list \<Rightarrow> int \<Rightarrow> int \<Rightarrow> flt \<Rightarrow> (sim, flt list) sx" where
  "rope_kernel L ident v pos head_dim theta =
     (if head_dim > 27 \<or> nat head_dim > length v then throw (OutOfRange ''write beyond a buffer'')
      else
        sbind (lift (quantize L (pad27 fzero (take (nat head_dim) v)) [27] 9)) (\<lambda>xt.
        sbind (lift (rope_tables L pos head_dim theta (tt_payload xt))) (\<lambda>(cv, sv, rv).
        sbind (put_lanes [(1700, tt_payload xt), (1800, cv), (1900, sv), (2000, rv)]) (\<lambda>_.
        sbind (call_kernel ident [1700, 1800, 1900, 2000, 2100, 0, 0]) (\<lambda>_.
        let recovery = fdiv F32 (tt_scale xt) (of_int_flt F32 OUT_SCALE)
        in sbind (smap (\<lambda>i. sbind (lane_value (2100 + i)) (\<lambda>y. ret (fmul F32 (of_int_flt F32 y) recovery)))
             [0..<nat head_dim]) (\<lambda>ys. ret (ys @ drop (nat head_dim) v)))))))"

text \<open>
  The divisor passed for the step of a look-up table. The conversion of the quotient is
  undefined when the scale is zero, that is for an all-zero input.
\<close>

definition x_scale_div :: "flt \<Rightarrow> int res" where
  "x_scale_div scale =
     rbind (to_int_trunc in_i64 (fround (fdiv F32 X_STEP scale))) (\<lambda>d. Inr (max 1 d))"

definition silu_mul_kernel :: "libm \<Rightarrow> kernel_id \<Rightarrow> flt list \<Rightarrow> flt list \<Rightarrow> int \<Rightarrow> (sim, flt list) sx" where
  "silu_mul_kernel L ident gate up sigmoid_lut =
     sbind (lift (quantize L (pad27 fzero gate) [27] 9)) (\<lambda>gt.
     sbind (put_lanes [(1300, tt_payload gt)]) (\<lambda>_.
     sbind (lift (x_scale_div (tt_scale gt))) (\<lambda>d.
     sbind (call_kernel ident [1300, 1400, sigmoid_lut, d, 0, 0, 0]) (\<lambda>_.
     let recovery = fdiv F32 (tt_scale gt) (of_int_flt F32 OUT_SCALE)
     in smap (\<lambda>i. sbind (lane_value (1400 + i)) (\<lambda>y. sbind (lift (read_at up i)) (\<lambda>u.
          ret (fmul F32 (fmul F32 (of_int_flt F32 y) recovery) u)))) [0..<length gate]))))"

definition softmax_kernel :: "libm \<Rightarrow> kernel_id \<Rightarrow> flt list \<Rightarrow> int \<Rightarrow> int \<Rightarrow> (sim, flt list) sx" where
  "softmax_kernel L ident scores exp_lut rcp_lut =
     (if scores = [] then ret []
      else
        sbind (lift (quantize L (pad27 (Num True 10) scores) [27] 9)) (\<lambda>xt.
        sbind (put_lanes [(1500, tt_payload xt)]) (\<lambda>_.
        sbind (lift (x_scale_div (tt_scale xt))) (\<lambda>d.
        sbind (call_kernel ident [1500, 1600, exp_lut, rcp_lut, d, (27 * OUT_SCALE) sdiv 255, 0]) (\<lambda>_.
        sbind (smap (\<lambda>i. sbind (lane_value (1600 + i)) (\<lambda>y. ret (of_int_flt F64 y))) [0..<length scores]) (\<lambda>ys.
        let total = foldl (fadd F64) fzero ys
        in ret (map (\<lambda>y. if flt_less fzero total then fcvt F32 (fdiv F64 y total)
                         else fdiv F32 fone (of_int_flt F32 (int (length scores)))) ys)))))))"

end
