(* ===== verification/TerForward.thy ===== *)
theory TerForward
  imports TerHost
begin

text \<open>
  One transformer layer and one token (\<open>include/ter/tx/layer.hpp\<close>, \<open>forward.hpp\<close>,
  \<open>transformer.hpp\<close>, \<open>op_stats.hpp\<close>, \<open>src/tx/layer.cpp\<close>, \<open>lut_setup.cpp\<close>, \<open>forward.cpp\<close>
  second half, \<open>transformer.cpp\<close>). A layer works on the simulator, the layer's cache of keys and
  values and the optional per-token state; the floating-point bypass, a static flag of the
  source, is an argument.
\<close>

section \<open>Data\<close>

record layer_weights =
  lw_q :: trit_tensor
  lw_k :: trit_tensor
  lw_v :: trit_tensor
  lw_o :: trit_tensor
  lw_gate :: trit_tensor
  lw_up :: trit_tensor
  lw_down :: trit_tensor
  lw_attn_norm :: "flt list"
  lw_ffn_norm :: "flt list"
  lw_attn_sub_norm :: "flt list"
  lw_ffn_sub_norm :: "flt list"

record kv_cache =
  kv_max_seq :: int
  kv_n_heads :: int
  kv_head_dim :: int
  kv_K :: "flt list"
  kv_V :: "flt list"

definition kv_resize :: "int \<Rightarrow> int \<Rightarrow> int \<Rightarrow> kv_cache res" where
  "kv_resize max_seq n_kv_heads head_dim =
     (let n = u64 (u64 (to_size max_seq * to_size n_kv_heads) * to_size head_dim)
      in rbind (new_vec 4 n fzero) (\<lambda>zs.
         Inr \<lparr>kv_max_seq = max_seq, kv_n_heads = n_kv_heads, kv_head_dim = head_dim, kv_K = zs, kv_V = zs\<rparr>))"

definition kv_dim :: "kv_cache \<Rightarrow> int res" where
  "kv_dim c = mul_i32 (kv_n_heads c) (kv_head_dim c)"

record lut_addrs =
  la_rsqrt :: int
  la_exp :: int
  la_rcp :: int
  la_sigmoid :: int

record brandon_state =
  bs_use_value_residual :: bool
  bs_v_first_captured :: bool
  bs_v_first :: "flt list"
  bs_use_dwa :: bool
  bs_n_layers :: int
  bs_hidden_size :: int
  bs_dwa_buf :: "flt list"
  bs_dwa_weights :: "flt list option"

text \<open>The seven quantised matrices of a layer and its two gains.\<close>

definition quantize_layer ::
  "libm \<Rightarrow> (flt list \<times> int \<times> int) list \<Rightarrow> flt list \<Rightarrow> int \<Rightarrow> flt list \<Rightarrow> int \<Rightarrow> layer_weights res" where
  "quantize_layer L mats attn_norm attn_n ffn_norm ffn_n =
     rbind (rmap (\<lambda>(d, r, c). quantize L d [r, c] 9) mats) (\<lambda>ts.
     rbind (buffer (nat attn_n) attn_norm) (\<lambda>an.
     rbind (buffer (nat ffn_n) ffn_norm) (\<lambda>fn.
     case ts of [q, k, v, w, g, u, d] \<Rightarrow>
       Inr \<lparr>lw_q = q, lw_k = k, lw_v = v, lw_o = w, lw_gate = g, lw_up = u, lw_down = d,
            lw_attn_norm = an, lw_ffn_norm = fn, lw_attn_sub_norm = [], lw_ffn_sub_norm = []\<rparr>
     | _ \<Rightarrow> Inl (InvalidArgument ''seven matrices''))))"

text \<open>
  Look-up tables on disk: little-endian 32-bit integers; a trailing partial word is ignored.
  The files are a parameter, as byte lists.
\<close>

definition i32_of_bytes :: "nat list \<Rightarrow> int" where
  "i32_of_bytes b = to_i32 (int (b ! 0 + 256 * b ! 1 + 65536 * b ! 2 + 16777216 * b ! 3))"

definition read_int32_lut :: "(string \<Rightarrow> nat list option) \<Rightarrow> string \<Rightarrow> int list res" where
  "read_int32_lut files path =
     (case files path of None \<Rightarrow> Inl (RuntimeError (''LUT not found: '' @ path))
      | Some bytes \<Rightarrow> Inr (map (\<lambda>k. i32_of_bytes (slice bytes (4 * k) 4)) [0..<length bytes div 4]))"

definition load_default_luts :: "(string \<Rightarrow> nat list option) \<Rightarrow> string \<Rightarrow> (sim, lut_addrs) sx" where
  "load_default_luts files dir =
     sbind (lift (read_int32_lut files (dir @ ''/rsqrt_lut.bin''))) (\<lambda>rsqrt.
     sbind (lift (read_int32_lut files (dir @ ''/sigmoid_lut.bin''))) (\<lambda>sigmoid.
     sbind (lift (read_int32_lut files (dir @ ''/exp_lut.bin''))) (\<lambda>exp_l.
     sbind (lift (read_int32_lut files (dir @ ''/rcp_lut.bin''))) (\<lambda>rcp_l.
     sbind (load_lut 5000 rsqrt) (\<lambda>_. sbind (load_lut 5300 sigmoid) (\<lambda>_.
     sbind (load_lut 5600 exp_l) (\<lambda>_. sbind (load_lut 5900 rcp_l) (\<lambda>_.
     ret \<lparr>la_rsqrt = 5000, la_exp = 5600, la_rcp = 5900, la_sigmoid = 5300\<rparr>))))))))"

section \<open>A layer\<close>

text \<open>The parameters of a layer that do not change during a forward pass.\<close>

record dims =
  dm_hidden :: int
  dm_head_dim :: int
  dm_heads :: int
  dm_kv_heads :: int
  dm_inter :: int
  dm_eps :: flt
  dm_theta :: flt
  dm_relu2 :: bool

record host_env =
  he_lib :: libm
  he_bypass :: bool
  he_kt :: kernel_table
  he_luts :: lut_addrs

record fwd =
  fw_sim :: sim
  fw_cache :: kv_cache
  fw_state :: "brandon_state option"

definition on_sim :: "(sim, 'a) sx \<Rightarrow> (fwd, 'a) sx" where
  "on_sim m s = (case m (fw_sim s) of (r, x) \<Rightarrow> (r, s\<lparr>fw_sim := x\<rparr>))"

definition norm_stage :: "host_env \<Rightarrow> dims \<Rightarrow> flt list \<Rightarrow> flt list \<Rightarrow> (fwd, flt list) sx" where
  "norm_stage E D x w =
     (if dm_hidden D \<le> 27
      then on_sim (rmsnorm_kernel (he_lib E) (find_kernel (he_kt E) ''tk_rmsnorm'') x w (la_rsqrt (he_luts E)))
      else lift (rmsnorm_host (he_lib E) x w (dm_eps D)))"

text \<open>The products of one activation row with several matrices; it is quantised once.\<close>

definition project :: "host_env \<Rightarrow> flt list \<Rightarrow> int \<Rightarrow> (trit_tensor \<times> int) list \<Rightarrow> (fwd, flt list list) sx" where
  "project E x K ws =
     (if he_bypass E then smap (\<lambda>(W, N). lift (mm_row_fp x W K N)) ws
      else sbind (lift (quantize (he_lib E) x [1, K] 9)) (\<lambda>xt.
           smap (\<lambda>(W, N). on_sim (mm_row xt 0 W K N)) ws))"

definition project1 :: "host_env \<Rightarrow> flt list \<Rightarrow> int \<Rightarrow> trit_tensor \<Rightarrow> int \<Rightarrow> (fwd, flt list) sx" where
  "project1 E x K W N = sbind (project E x K [(W, N)]) (\<lambda>rs. ret (hd rs))"

text \<open>Value residual: layer 0 records \<open>V\<close>, the other layers add it.\<close>

definition add_into :: "nat \<Rightarrow> flt list \<Rightarrow> flt list \<Rightarrow> flt list res" where
  "add_into n v w =
     rfold (\<lambda>v i. rbind (read_at v i) (\<lambda>a. rbind (read_at w i) (\<lambda>b. Inr (v[i := fadd F32 a b])))) v [0..<n]"

definition value_residual :: "int \<Rightarrow> int \<Rightarrow> flt list \<Rightarrow> (fwd, flt list) sx" where
  "value_residual layer_idx kvd v s =
     (case fw_state s of None \<Rightarrow> (Inr v, s)
      | Some b \<Rightarrow>
          if \<not> bs_use_value_residual b then (Inr v, s)
          else if layer_idx = 0 then
            (Inr v, if bs_v_first_captured b then s
                    else s\<lparr>fw_state := Some (b\<lparr>bs_v_first := v, bs_v_first_captured := True\<rparr>)\<rparr>)
          else (add_into (nat kvd) v (bs_v_first b), s))"

definition rope_one :: "host_env \<Rightarrow> dims \<Rightarrow> int \<Rightarrow> flt list \<Rightarrow> (fwd, flt list) sx" where
  "rope_one E D pos vh =
     (if dm_head_dim D \<le> 26
      then on_sim (rope_kernel (he_lib E) (find_kernel (he_kt E) ''tk_rope'') vh pos (dm_head_dim D) (dm_theta D))
      else lift (rope_host (he_lib E) vh pos (dm_head_dim D) (dm_theta D)))"

definition rope_heads :: "host_env \<Rightarrow> dims \<Rightarrow> int \<Rightarrow> int \<Rightarrow> flt list \<Rightarrow> (fwd, flt list) sx" where
  "rope_heads E D pos n q =
     (let hdim = nat (dm_head_dim D)
      in sfold (\<lambda>q h. sbind (rope_one E D pos (slice q (h * hdim) hdim)) (\<lambda>vh. ret (splice q (h * hdim) vh)))
           q [0..<nat n])"

text \<open>The keys and values of this position enter the cache element by element.\<close>

definition put_K :: "nat \<Rightarrow> flt \<Rightarrow> (fwd, unit) sx" where
  "put_K a x s =
     (case write_at (kv_K (fw_cache s)) a x of
        Inl e \<Rightarrow> (Inl e, s) | Inr K \<Rightarrow> (Inr (), s\<lparr>fw_cache := (fw_cache s)\<lparr>kv_K := K\<rparr>\<rparr>))"

definition put_V :: "nat \<Rightarrow> flt \<Rightarrow> (fwd, unit) sx" where
  "put_V a x s =
     (case write_at (kv_V (fw_cache s)) a x of
        Inl e \<Rightarrow> (Inl e, s) | Inr V \<Rightarrow> (Inr (), s\<lparr>fw_cache := (fw_cache s)\<lparr>kv_V := V\<rparr>\<rparr>))"

definition kv_row :: "int \<Rightarrow> int \<Rightarrow> nat" where
  "kv_row pos kvd = u64 (to_size pos * to_size kvd)"

definition put_kv :: "int \<Rightarrow> int \<Rightarrow> flt list \<Rightarrow> flt list \<Rightarrow> (fwd, unit) sx" where
  "put_kv pos kvd k v =
     sfor (\<lambda>i. sbind (lift (read_at k i)) (\<lambda>x. sbind (put_K (u64 (kv_row pos kvd + i)) x) (\<lambda>_.
            sbind (lift (read_at v i)) (\<lambda>y. put_V (u64 (kv_row pos kvd + i)) y)))) [0..<nat kvd]"

text \<open>Scores of one query head against the cached keys, and the weighted sum of the values.\<close>

definition head_row :: "int \<Rightarrow> nat \<Rightarrow> nat \<Rightarrow> nat \<Rightarrow> nat" where
  "head_row kvd hdim kvh t = kv_row (int t) kvd + u64 (kvh * hdim)"

definition dot_f64 :: "flt list \<Rightarrow> flt list \<Rightarrow> nat \<Rightarrow> nat \<Rightarrow> flt res" where
  "dot_f64 q K base n =
     rfold (\<lambda>acc d. rbind (read_at q d) (\<lambda>a. rbind (read_at K (u64 (base + d))) (\<lambda>b.
       Inr (fadd F64 acc (fmul F64 (fcvt F64 a) (fcvt F64 b)))))) fzero [0..<n]"

definition attn_scores :: "flt list \<Rightarrow> flt list \<Rightarrow> int \<Rightarrow> nat \<Rightarrow> nat \<Rightarrow> nat \<Rightarrow> flt \<Rightarrow> flt list res" where
  "attn_scores qh K kvd hdim kvh n scale =
     rmap (\<lambda>t. rbind (dot_f64 qh K (head_row kvd hdim kvh t) hdim) (\<lambda>acc.
       Inr (fmul F32 (fcvt F32 acc) scale))) [0..<n]"

definition attn_mix :: "flt list \<Rightarrow> flt list \<Rightarrow> int \<Rightarrow> nat \<Rightarrow> nat \<Rightarrow> nat \<Rightarrow> flt list res" where
  "attn_mix scores V kvd hdim kvh n =
     rfold (\<lambda>out t. rbind (read_at scores t) (\<lambda>w.
        rmap (\<lambda>d. rbind (read_at V (u64 (head_row kvd hdim kvh t + d))) (\<lambda>x.
          Inr (fadd F32 (out ! d) (fmul F32 w x)))) [0..<hdim]))
       (replicate hdim fzero) [0..<n]"

definition softmax_stage :: "host_env \<Rightarrow> flt list \<Rightarrow> (fwd, flt list) sx" where
  "softmax_stage E scores =
     (if length scores \<le> 27
      then on_sim (softmax_kernel (he_lib E) (find_kernel (he_kt E) ''tk_softmax'') scores
             (la_exp (he_luts E)) (la_rcp (he_luts E)))
      else ret (softmax_host (he_lib E) scores))"

definition attend_head ::
  "host_env \<Rightarrow> int \<Rightarrow> nat \<Rightarrow> int \<Rightarrow> int \<Rightarrow> flt \<Rightarrow> flt list \<Rightarrow> int \<Rightarrow> (fwd, flt list) sx" where
  "attend_head E kvd hdim gqa n scale q h =
     sbind (lift (div_i32 h gqa)) (\<lambda>kvh.
     sbind (\<lambda>s. (attn_scores (slice q (nat h * hdim) hdim) (kv_K (fw_cache s)) kvd hdim (nat kvh) (nat n) scale, s)) (\<lambda>sc.
     sbind (softmax_stage E sc) (\<lambda>ws s. (attn_mix ws (kv_V (fw_cache s)) kvd hdim (nat kvh) (nat n), s))))"

definition attention :: "host_env \<Rightarrow> dims \<Rightarrow> int \<Rightarrow> int \<Rightarrow> int \<Rightarrow> flt list \<Rightarrow> (fwd, flt list) sx" where
  "attention E D pos qd kvd q =
     sbind (lift (div_i32 (dm_heads D) (dm_kv_heads D))) (\<lambda>gqa.
     sbind (lift (new_vec 4 (to_size qd) fzero)) (\<lambda>ctx0.
     let hdim = nat (dm_head_dim D);
         scale = fdiv F32 fone (lm_sqrt (he_lib E) F32 (of_int_flt F32 (dm_head_dim D)))
     in sfold (\<lambda>ctx h.
          sbind (lift (add_i32 pos 1)) (\<lambda>n. sbind (lift (new_vec 4 (to_size n) fzero)) (\<lambda>_.
          sbind (attend_head E kvd hdim gqa n scale q (int h)) (\<lambda>out_h.
          ret (splice ctx (h * hdim) out_h))))) ctx0 [0..<nat (dm_heads D)]))"

definition sub_norm :: "host_env \<Rightarrow> dims \<Rightarrow> flt list \<Rightarrow> flt list \<Rightarrow> (fwd, flt list) sx" where
  "sub_norm E D x w = (if w \<noteq> [] then lift (rmsnorm_host (he_lib E) x w (dm_eps D)) else ret x)"

definition residual :: "int \<Rightarrow> flt list \<Rightarrow> flt list \<Rightarrow> flt list res" where
  "residual H x y =
     rbind (new_vec 4 (to_size H) fzero) (\<lambda>_.
     rmap (\<lambda>i. rbind (read_at x i) (\<lambda>a. rbind (read_at y i) (\<lambda>b. Inr (fadd F32 a b)))) [0..<nat H])"

definition ffn_act :: "host_env \<Rightarrow> dims \<Rightarrow> flt list \<Rightarrow> flt list \<Rightarrow> (fwd, flt list) sx" where
  "ffn_act E D gate up =
     (if dm_relu2 D then lift (relu2_mul_host gate up)
      else if dm_inter D \<le> 27
      then on_sim (silu_mul_kernel (he_lib E) (find_kernel (he_kt E) ''tk_silu'') gate up (la_sigmoid (he_luts E)))
      else lift (silu_mul_host (he_lib E) gate up))"

text \<open>DenseFormer mixing: the layer's output is stored and all earlier outputs are mixed.\<close>

definition dwa_store :: "int \<Rightarrow> int \<Rightarrow> flt list \<Rightarrow> flt list \<Rightarrow> flt list res" where
  "dwa_store idx H x buf =
     rfold (\<lambda>buf i. rbind (add_i32 idx 1) (\<lambda>r. rbind (mul_i32 r H) (\<lambda>p. rbind (add_i32 p (int i)) (\<lambda>a.
       rbind (read_at x i) (\<lambda>y. write_at buf (to_size a) y))))) buf [0..<nat H]"

definition dwa_mix :: "int \<Rightarrow> int \<Rightarrow> int \<Rightarrow> flt list \<Rightarrow> flt list \<Rightarrow> flt list res" where
  "dwa_mix idx H n1 ws buf =
     rfold (\<lambda>out j. rbind (read_at ws (u64 (to_size idx * to_size n1) + j)) (\<lambda>w.
        if flt_eq w fzero then Inr out
        else rbind (mul_i32 (int j) H) (\<lambda>base.
             rmap (\<lambda>i. rbind (read_at buf (to_size base + i)) (\<lambda>x.
               Inr (fadd F32 (out ! i) (fmul F32 w x)))) [0..<nat H])))
       (replicate (nat H) fzero) [0..<nat (idx + 2)]"

definition dwa_stage :: "int \<Rightarrow> int \<Rightarrow> flt list \<Rightarrow> (fwd, flt list) sx" where
  "dwa_stage idx H x s =
     (case fw_state s of None \<Rightarrow> (Inr x, s)
      | Some b \<Rightarrow>
          if \<not> bs_use_dwa b then (Inr x, s)
          else case bs_dwa_weights b of None \<Rightarrow> (Inr x, s)
          | Some ws \<Rightarrow>
              (case rbind (add_i32 (bs_n_layers b) 1) (\<lambda>n1. rbind (dwa_store idx H x (bs_dwa_buf b)) (\<lambda>buf. Inr (n1, buf))) of
                 Inl e \<Rightarrow> (Inl e, s)
               | Inr (n1, buf) \<Rightarrow> (dwa_mix idx H n1 ws buf, s\<lparr>fw_state := Some (b\<lparr>bs_dwa_buf := buf\<rparr>)\<rparr>)))"

definition attn_block :: "host_env \<Rightarrow> dims \<Rightarrow> layer_weights \<Rightarrow> int \<Rightarrow> int \<Rightarrow> flt list \<Rightarrow> (fwd, flt list) sx" where
  "attn_block E D W pos idx x =
     sbind (norm_stage E D x (lw_attn_norm W)) (\<lambda>xn.
     sbind (lift (mul_i32 (dm_heads D) (dm_head_dim D))) (\<lambda>qd.
     sbind (lift (mul_i32 (dm_kv_heads D) (dm_head_dim D))) (\<lambda>kvd.
     sbind (project E xn (dm_hidden D) [(lw_q W, qd), (lw_k W, kvd), (lw_v W, kvd)]) (\<lambda>qkv.
     sbind (value_residual idx kvd (qkv ! 2)) (\<lambda>v.
     sbind (rope_heads E D pos (dm_heads D) (qkv ! 0)) (\<lambda>q.
     sbind (rope_heads E D pos (dm_kv_heads D) (qkv ! 1)) (\<lambda>k.
     sbind (put_kv pos kvd k v) (\<lambda>_.
     sbind (attention E D pos qd kvd q) (\<lambda>ctx.
     sbind (sub_norm E D ctx (lw_attn_sub_norm W)) (\<lambda>ctx'.
     sbind (project1 E ctx' qd (lw_o W) (dm_hidden D)) (\<lambda>attn_out.
     lift (residual (dm_hidden D) x attn_out))))))))))))"

definition ffn_block :: "host_env \<Rightarrow> dims \<Rightarrow> layer_weights \<Rightarrow> flt list \<Rightarrow> (fwd, flt list) sx" where
  "ffn_block E D W mid =
     sbind (norm_stage E D mid (lw_ffn_norm W)) (\<lambda>mn.
     sbind (project E mn (dm_hidden D) [(lw_gate W, dm_inter D), (lw_up W, dm_inter D)]) (\<lambda>gu.
     sbind (ffn_act E D (gu ! 0) (gu ! 1)) (\<lambda>ff.
     sbind (sub_norm E D ff (lw_ffn_sub_norm W)) (\<lambda>ff'.
     sbind (project1 E ff' (dm_inter D) (lw_down W) (dm_hidden D)) (\<lambda>ff_out.
     lift (residual (dm_hidden D) mid ff_out))))))"

definition forward_layer ::
  "host_env \<Rightarrow> dims \<Rightarrow> layer_weights \<Rightarrow> int \<Rightarrow> int \<Rightarrow> flt list \<Rightarrow> (fwd, flt list) sx" where
  "forward_layer E D W pos idx x =
     sbind (attn_block E D W pos idx x) (\<lambda>mid.
     sbind (ffn_block E D W mid) (\<lambda>hid.
     dwa_stage idx (dm_hidden D) hid))"

end
