(* ===== verification/TerTransformer.thy ===== *)
theory TerTransformer
  imports TerForward
begin

text \<open>
  A whole forward pass: \<open>forward_token\<close> and \<open>register_prefill\<close> (\<open>src/tx/transformer.cpp\<close>), the
  transformer object (\<open>include/ter/tx/transformer.hpp\<close>) and the operation statistics
  (\<open>include/ter/tx/op_stats.hpp\<close>).
\<close>

section \<open>The transformer\<close>

record transformer =
  tx_blocks :: "layer_weights list"
  tx_kv_caches :: "kv_cache list"
  tx_token_embd :: trit_tensor
  tx_lm_head :: trit_tensor
  tx_output_norm :: "flt list"
  tx_register_w :: "flt list"
  tx_dwa_w :: "flt list"
  tx_vocab_size :: int
  tx_hidden_size :: int
  tx_head_dim :: int
  tx_n_heads :: int
  tx_n_kv_heads :: int
  tx_intermediate_size :: int
  tx_n_layers :: int
  tx_n_registers :: int
  tx_use_dwa :: bool
  tx_use_value_residual :: bool
  tx_weight_tying :: bool
  tx_rmsnorm_eps :: flt
  tx_rope_theta :: flt
  tx_ffn_relu2 :: bool
  tx_layer_map :: "int list"

definition mk_transformer :: transformer where
  "mk_transformer =
     \<lparr>tx_blocks = [], tx_kv_caches = [], tx_token_embd = mk_tensor, tx_lm_head = mk_tensor,
      tx_output_norm = [], tx_register_w = [], tx_dwa_w = [], tx_vocab_size = 0, tx_hidden_size = 0,
      tx_head_dim = 0, tx_n_heads = 0, tx_n_kv_heads = 0, tx_intermediate_size = 0, tx_n_layers = 0,
      tx_n_registers = 0, tx_use_dwa = False, tx_use_value_residual = False, tx_weight_tying = False,
      tx_rmsnorm_eps = rounded F32 False (1 / 100000), tx_rope_theta = Num False 10000,
      tx_ffn_relu2 = False, tx_layer_map = []\<rparr>"

definition dims_of :: "transformer \<Rightarrow> dims" where
  "dims_of tx =
     \<lparr>dm_hidden = tx_hidden_size tx, dm_head_dim = tx_head_dim tx, dm_heads = tx_n_heads tx,
      dm_kv_heads = tx_n_kv_heads tx, dm_inter = tx_intermediate_size tx, dm_eps = tx_rmsnorm_eps tx,
      dm_theta = fcvt F64 (tx_rope_theta tx), dm_relu2 = tx_ffn_relu2 tx\<rparr>"

record host =
  ho_sim :: sim
  ho_tx :: transformer
  ho_state :: "brandon_state option"

section \<open>One token\<close>

text \<open>The embedding row of a token, with the whole dequantised table.\<close>

definition embed_token :: "transformer \<Rightarrow> int \<Rightarrow> (flt list \<times> flt list) res" where
  "embed_token tx token_id =
     (if token_id < 0 \<or> token_id \<ge> tx_vocab_size tx
      then Inl (RuntimeError ''forward_token: token_id out of range'')
      else rbind (dequantize (tx_token_embd tx)) (\<lambda>emb.
           rbind (rmap (\<lambda>i. read_at emb (u64 (nat token_id * to_size (tx_hidden_size tx)) + i))
                   [0..<nat (tx_hidden_size tx)]) (\<lambda>h. Inr (h, emb))))"

definition start_hidden :: "transformer \<Rightarrow> int \<Rightarrow> flt list option \<Rightarrow> (flt list \<times> flt list) res" where
  "start_hidden tx token_id override =
     rbind (new_vec 4 (to_size (tx_hidden_size tx)) fzero) (\<lambda>_.
     case override of
       Some h \<Rightarrow> if to_i32 (int (length h)) \<noteq> tx_hidden_size tx
                 then Inl (RuntimeError ''forward_token: hidden_override size != hidden_size'')
                 else Inr (h, [])
     | None \<Rightarrow> embed_token tx token_id)"

text \<open>The per-token state at the start of a pass.\<close>

definition start_dwa :: "int \<Rightarrow> flt list \<Rightarrow> brandon_state \<Rightarrow> brandon_state res" where
  "start_dwa H h b =
     (if \<not> bs_use_dwa b then Inr b
      else rbind (add_i32 (bs_n_layers b) 1) (\<lambda>n1. rbind (mul_i32 n1 H) (\<lambda>sz.
           if to_i32 (int (length (bs_dwa_buf b))) \<noteq> sz
           then Inl (RuntimeError ''forward_token: dwa_buf wrong size'')
           else rbind (rfold (\<lambda>buf i. rbind (read_at h i) (write_at buf i)) (bs_dwa_buf b) [0..<nat H])
                  (\<lambda>buf. Inr (b\<lparr>bs_dwa_buf := buf\<rparr>)))))"

definition start_state :: "int \<Rightarrow> flt list \<Rightarrow> brandon_state option \<Rightarrow> brandon_state option res" where
  "start_state H h bo =
     (case bo of None \<Rightarrow> Inr None
      | Some b \<Rightarrow> rbind (start_dwa H h b) (\<lambda>b'.
          Inr (Some (if bs_use_value_residual b' then b'\<lparr>bs_v_first_captured := False\<rparr> else b'))))"

definition layer_parts :: "transformer \<Rightarrow> nat \<Rightarrow> (layer_weights \<times> kv_cache) res" where
  "layer_parts tx l =
     rbind (read_at (tx_layer_map tx) l) (\<lambda>b.
       if b < 0 \<or> b \<ge> to_i32 (int (length (tx_blocks tx)))
       then Inl (RuntimeError ''forward_token: layer_map index out of range'')
       else rbind (read_at (tx_blocks tx) (nat b)) (\<lambda>W. rbind (read_at (tx_kv_caches tx) l) (\<lambda>c. Inr (W, c))))"

definition run_layer :: "host_env \<Rightarrow> int \<Rightarrow> flt list \<Rightarrow> nat \<Rightarrow> (host, flt list) sx" where
  "run_layer E pos h l s =
     (case layer_parts (ho_tx s) l of
        Inl e \<Rightarrow> (Inl e, s)
      | Inr (W, c) \<Rightarrow>
          (case forward_layer E (dims_of (ho_tx s)) W pos (int l) h
                  \<lparr>fw_sim = ho_sim s, fw_cache = c, fw_state = ho_state s\<rparr> of
             (r, f) \<Rightarrow> (r, s\<lparr>ho_sim := fw_sim f, ho_state := fw_state f,
                 ho_tx := (ho_tx s)\<lparr>tx_kv_caches := (tx_kv_caches (ho_tx s))[l := fw_cache f]\<rparr>\<rparr>)))"

definition output_norm :: "libm \<Rightarrow> transformer \<Rightarrow> flt list \<Rightarrow> flt list res" where
  "output_norm L tx h =
     (let r = rms_inv L h (tx_hidden_size tx) (tx_rmsnorm_eps tx)
      in rmap (\<lambda>i. rbind (read_at (tx_output_norm tx) i) (\<lambda>g. Inr (gained r (h ! i) g))) [0..<length h])"

definition lm_weights :: "transformer \<Rightarrow> flt list \<Rightarrow> flt list res" where
  "lm_weights tx emb =
     (if tt_payload (tx_lm_head tx) \<noteq> [] \<or> tt_fp32 (tx_lm_head tx) \<noteq> [] then dequantize (tx_lm_head tx) else Inr emb)"

definition logit_tiles :: "transformer \<Rightarrow> 64 word" where
  "logit_tiles tx = ((of_int (tx_hidden_size tx) + 26) div 27) * of_int (tx_vocab_size tx)"

definition logits_of :: "transformer \<Rightarrow> flt list \<Rightarrow> flt list \<Rightarrow> flt list res" where
  "logits_of tx h W =
     rmap (\<lambda>v. rbind (rfold (\<lambda>acc i. rbind (read_at h i) (\<lambda>a.
            rbind (read_at W (u64 (v * to_size (tx_hidden_size tx)) + i)) (\<lambda>w.
            Inr (fadd F64 acc (fmul F64 (fcvt F64 a) (fcvt F64 w)))))) fzero [0..<nat (tx_hidden_size tx)])
          (\<lambda>acc. Inr (fcvt F32 acc))) [0..<nat (tx_vocab_size tx)]"

definition on_host_sim :: "(sim, 'a) sx \<Rightarrow> (host, 'a) sx" where
  "on_host_sim m s = (case m (ho_sim s) of (r, x) \<Rightarrow> (r, s\<lparr>ho_sim := x\<rparr>))"

definition project_logits :: "host_env \<Rightarrow> flt list \<Rightarrow> flt list \<Rightarrow> (host, flt list) sx" where
  "project_logits E h emb s =
     (let tx = ho_tx s
      in sbind (lift (output_norm (he_lib E) tx h)) (\<lambda>hn.
         sbind (lift (lm_weights tx emb)) (\<lambda>W.
         sbind (on_host_sim (bump_tvmac (logit_tiles tx))) (\<lambda>_.
         sbind (lift (new_vec 4 (to_size (tx_vocab_size tx)) fzero)) (\<lambda>_.
         lift (logits_of tx hn W))))) s)"

definition enter_token :: "int \<Rightarrow> flt list option \<Rightarrow> (host, flt list \<times> flt list) sx" where
  "enter_token token_id override s =
     (case start_hidden (ho_tx s) token_id override of
        Inl e \<Rightarrow> (Inl e, s)
      | Inr (h, emb) \<Rightarrow>
          (case start_state (tx_hidden_size (ho_tx s)) h (ho_state s) of
             Inl e \<Rightarrow> (Inl e, s)
           | Inr bo \<Rightarrow> (Inr (h, emb), s\<lparr>ho_state := bo\<rparr>)))"

definition run_layers :: "host_env \<Rightarrow> int \<Rightarrow> flt list \<Rightarrow> (host, flt list) sx" where
  "run_layers E pos h s =
     sfold (\<lambda>h l. run_layer E pos h l) h [0..<nat (tx_n_layers (ho_tx s))] s"

definition forward_token :: "host_env \<Rightarrow> int \<Rightarrow> int \<Rightarrow> flt list option \<Rightarrow> (host, flt list) sx" where
  "forward_token E token_id pos override =
     sbind (enter_token token_id override) (\<lambda>(h, emb).
     sbind (run_layers E pos h) (\<lambda>h'.
     if override \<noteq> None then ret [] else project_logits E h' emb))"

section \<open>Register prefill\<close>

definition register_row :: "transformer \<Rightarrow> nat \<Rightarrow> flt list res" where
  "register_row tx r =
     rbind (new_vec 4 (to_size (tx_hidden_size tx)) fzero) (\<lambda>_.
     rmap (\<lambda>i. read_at (tx_register_w tx) (u64 (r * to_size (tx_hidden_size tx)) + i)) [0..<nat (tx_hidden_size tx)])"

definition prefill_one :: "host_env \<Rightarrow> nat \<Rightarrow> (host, unit) sx" where
  "prefill_one E r s =
     sbind (lift (register_row (ho_tx s) r)) (\<lambda>e. sbind (forward_token E (- 1) (int r) (Some e)) (\<lambda>_. ret ())) s"

definition register_prefill :: "host_env \<Rightarrow> (host, int) sx" where
  "register_prefill E s =
     (let tx = ho_tx s
      in if tx_n_registers tx \<le> 0 then (Inr 0, s)
         else sbind (lift (mul_i32 (tx_n_registers tx) (tx_hidden_size tx))) (\<lambda>n.
           if to_i32 (int (length (tx_register_w tx))) \<noteq> n
           then throw (RuntimeError ''register_prefill: register_w wrong size'')
           else sbind (sfor (prefill_one E) [0..<nat (tx_n_registers tx)]) (\<lambda>_. ret (tx_n_registers tx))) s)"

section \<open>Operation statistics\<close>

record op_stats =
  os_total_ops :: "64 word"
  os_tvmac :: "64 word"
  os_tvadd :: "64 word"
  os_tvsub :: "64 word"
  os_tvmul :: "64 word"
  os_tvsum :: "64 word"
  os_tvbcast :: "64 word"
  os_tvload :: "64 word"
  os_tvstore :: "64 word"
  os_tload :: "64 word"
  os_tstore :: "64 word"
  os_tadd :: "64 word"
  os_tsub :: "64 word"
  os_tcmp :: "64 word"
  os_tjump :: "64 word"
  os_tcall :: "64 word"
  os_tbranch :: "64 word"

definition op_stats_from :: "sim \<Rightarrow> op_stats" where
  "op_stats_from s =
     (let c = sim_counters s in
      \<lparr>os_total_ops = oc_total c, os_tvmac = get_count TVMAC c, os_tvadd = get_count TVADD c,
       os_tvsub = get_count TVSUB c, os_tvmul = get_count TVMUL c, os_tvsum = get_count TVSUM c,
       os_tvbcast = get_count TVBROADCAST c, os_tvload = get_count TVLOAD c, os_tvstore = get_count TVSTORE c,
       os_tload = get_count TLOAD c, os_tstore = get_count TSTORE c, os_tadd = get_count TADD c,
       os_tsub = get_count TSUB c, os_tcmp = get_count TCMP c, os_tjump = get_count TJUMP c,
       os_tcall = get_count TCALL c,
       os_tbranch = get_count TBEQ c + get_count TBNE c + get_count TBLT c\<rparr>)"

definition lane_macs :: "op_stats \<Rightarrow> 64 word" where
  "lane_macs x = os_tvmac x * 27"

definition analytical_fp16_macs ::
  "int \<Rightarrow> int \<Rightarrow> int \<Rightarrow> int \<Rightarrow> int \<Rightarrow> int \<Rightarrow> int \<Rightarrow> 64 word" where
  "analytical_fp16_macs hidden ffn n_heads n_kv_heads head_dim n_layers vocab =
     (let H = of_int hidden; F = of_int ffn; HQ = of_int n_heads * of_int head_dim;
          HKV = of_int n_kv_heads * of_int head_dim;
          per_layer = H * HQ + H * HKV + H * HKV + HQ * H + H * F + H * F + F * H;
          lm_head = H * of_int vocab
      in per_layer * of_int n_layers + lm_head)"

end
