(* ===== verification/TerMatmul.thy ===== *)
theory TerMatmul
  imports TerTransformer
begin

text \<open>
  The integer matrix product of \<open>mm_row\<close>: the loop with its zero skip computes the rows of the
  product exactly, without leaving \<open>int64_t\<close>, and counts one \<open>TVMAC\<close> per tile and output.
\<close>

section \<open>Loops\<close>

lemma rfold_append: "rfold f acc (xs @ ys) = rbind (rfold f acc xs) (\<lambda>a. rfold f a ys)"
proof (induction xs arbitrary: acc)
  case (Cons x xs)
  then show ?case by (cases "f acc x") simp_all
qed simp

lemma read_at_in: "i < length xs \<Longrightarrow> read_at xs i = Inr (xs ! i)"
  by (simp add: read_at_def)

lemma rmap_cong: "(\<And>x. x \<in> set xs \<Longrightarrow> f x = g x) \<Longrightarrow> rmap f xs = rmap g xs"
  by (induction xs) auto

lemma rfold_cong: "(\<And>a x. x \<in> set xs \<Longrightarrow> f a x = g a x) \<Longrightarrow> rfold f a xs = rfold g a xs"
proof (induction xs arbitrary: a)
  case (Cons x xs)
  then show ?case by (cases "g a x") simp_all
qed simp

section \<open>The product\<close>

text \<open>Entry \<open>j\<close> of the product of a row of \<open>X\<close> with the first \<open>K\<close> rows of \<open>W\<close>.\<close>

definition dot_col :: "int list \<Rightarrow> nat \<Rightarrow> int list \<Rightarrow> nat \<Rightarrow> nat \<Rightarrow> nat \<Rightarrow> int" where
  "dot_col X xo W N K j = (\<Sum>k < K. X ! (xo + k) * W ! (k * N + j))"

lemma int_row_ok:
  assumes "length acc = nat N" and "base + nat N \<le> length W"
    and "\<And>j. j < nat N \<Longrightarrow> in_i64 (acc ! j + xv * W ! (base + j))"
  shows "int_row W N base xv acc = Inr (map (\<lambda>j. acc ! j + xv * W ! (base + j)) [0..<nat N])"
  unfolding int_row_def by (rule rmap_all) (use assms in \<open>simp add: read_at_in add_i64_def\<close>)

lemma dot_col_Suc: "dot_col X xo W N (Suc K) j = dot_col X xo W N K j + X ! (xo + K) * W ! (K * N + j)"
  by (simp add: dot_col_def)

lemma dot_col_bound:
  assumes "\<And>k. k < K \<Longrightarrow> \<bar>X ! (xo + k)\<bar> \<le> A" and "\<And>k. k < K \<Longrightarrow> \<bar>W ! (k * N + j)\<bar> \<le> B" and "0 \<le> A"
  shows "\<bar>dot_col X xo W N K j\<bar> \<le> int K * (A * B)"
proof -
  have "\<bar>dot_col X xo W N K j\<bar> \<le> (\<Sum>k < K. \<bar>X ! (xo + k) * W ! (k * N + j)\<bar>)"
    unfolding dot_col_def by (rule sum_abs)
  also have "\<dots> \<le> (\<Sum>k < K. A * B)"
    by (rule sum_mono) (use assms in \<open>auto simp: abs_mult intro!: mult_mono\<close>)
  finally show ?thesis by simp
qed

text \<open>Where the row of \<open>W\<close> starts; the machine arithmetic does not wrap.\<close>

lemma row_base: "0 \<le> N \<Longrightarrow> N < 2 ^ 31 \<Longrightarrow> k < 2 ^ 31 \<Longrightarrow> u64 (k * to_size N) = k * nat N"
proof -
  assume N: "0 \<le> N" "N < 2 ^ 31" and k: "k < 2 ^ 31"
  have "to_size N = nat N" using N by (intro to_size_id) auto
  moreover have "k * nat N < 2 ^ 64"
  proof -
    have "nat N \<le> 2 ^ 31" using N by simp
    then have "k * nat N \<le> 2 ^ 31 * 2 ^ 31" using k by (intro mult_mono) auto
    then show ?thesis by simp
  qed
  ultimately show ?thesis by simp
qed

lemma entry_in: "k < K \<Longrightarrow> j < N \<Longrightarrow> k * N + j < K * (N :: nat)"
proof -
  assume "k < K" "j < N"
  then have "Suc k * N \<le> K * N" by (intro mult_le_mono1) simp
  then show ?thesis using \<open>j < N\<close> by simp
qed

lemma int_rows_ok:
  assumes N: "0 \<le> N" "N < 2 ^ 31" and K: "K \<le> 400000"
    and X: "xo + K \<le> length X" "\<And>k. k < K \<Longrightarrow> \<bar>X ! (xo + k)\<bar> \<le> 9841"
    and W: "K * nat N \<le> length W" "\<And>i. i < K * nat N \<Longrightarrow> \<bar>W ! i\<bar> \<le> 2 ^ 31"
  shows "k \<le> K \<Longrightarrow> int_rows X xo W N (replicate (nat N) 0) [0..<k]
    = Inr (map (dot_col X xo W (nat N) k) [0..<nat N])"
proof (induction k)
  case 0
  show ?case by (simp add: int_rows_def dot_col_def map_replicate_const)
next
  case (Suc k)
  let ?n = "nat N" and ?acc = "map (dot_col X xo W (nat N) k) [0..<nat N]"
  have k: "k < K" using Suc.prems by simp
  have IH: "int_rows X xo W N (replicate ?n 0) [0..<k] = Inr ?acc" using Suc by simp
  have base: "u64 (k * to_size N) = k * ?n" using row_base [OF N] k K by simp
  have fits: "in_i64 (?acc ! j + X ! (xo + k) * W ! (k * ?n + j))" if j: "j < ?n" for j
  proof -
    have "\<bar>dot_col X xo W ?n (Suc k) j\<bar> \<le> int (Suc k) * (9841 * 2 ^ 31)"
      by (rule dot_col_bound) (use X(2) W(2) k j entry_in in force)+
    also have "\<dots> \<le> 400000 * (9841 * 2 ^ 31)" using k K by (intro mult_right_mono) auto
    finally show ?thesis using j by (simp add: dot_col_Suc in_i64_def abs_le_iff)
  qed
  have step: "int_row W N (k * ?n) (X ! (xo + k)) ?acc = Inr (map (dot_col X xo W ?n (Suc k)) [0..<?n])"
  proof -
    have "k * ?n + ?n \<le> length W"
      using W(1) k mult_le_mono1 [of "Suc k" K ?n] by simp
    then show ?thesis using fits by (subst int_row_ok) (auto simp: dot_col_Suc)
  qed
  have "map (dot_col X xo W ?n (Suc k)) [0..<?n] = ?acc" if "X ! (xo + k) = 0"
    using that by (simp add: dot_col_Suc)
  then show ?case
    using IH step X(1) k base by (simp add: int_rows_def rfold_append read_at_in)
qed

lemma new_vec_ok: "0 \<le> n \<Longrightarrow> n < 2 ^ 31 \<Longrightarrow> w \<in> {4, 8} \<Longrightarrow> new_vec w (to_size n) x = Inr (replicate (nat n) x)"
  by (auto simp: new_vec_def to_size_id)

text \<open>The number of tiles of 27 lanes.\<close>

definition tiles :: "nat \<Rightarrow> nat" where
  "tiles K = (K + 26) div 27"

lemma tvmac_tiles_ok:
  assumes "0 \<le> K" and "K < 2 ^ 31 - 26" and "0 \<le> N"
  shows "tvmac_tiles K N = Inr (of_nat (tiles (nat K) * nat N))"
proof -
  have "(K + 26) sdiv 27 = int (tiles (nat K))"
    using assms by (simp add: signed_divide_int_def sgn_if tiles_def zdiv_int)
  moreover have "(of_int N :: 64 word) = of_nat (nat N)" using assms by (simp add: of_nat_nat)
  ultimately show ?thesis
    using assms by (simp add: tvmac_tiles_def add_i32_def in_i32_def del: of_nat_nat)
qed

lemma mm_row_ok:
  assumes plain: "tt_block_scales Wt = []"
    and row: "0 \<le> row" "row < 2 ^ 31" and K: "0 \<le> K" "K \<le> 400000" and N: "0 \<le> N" "N < 2 ^ 31"
    and X: "nat row * nat K + nat K \<le> length (tt_payload Xt)"
      "\<And>k. k < nat K \<Longrightarrow> \<bar>tt_payload Xt ! (nat row * nat K + k)\<bar> \<le> 9841"
    and W: "nat K * nat N \<le> length (tt_payload Wt)" "\<And>i. i < nat K * nat N \<Longrightarrow> \<bar>tt_payload Wt ! i\<bar> \<le> 2 ^ 31"
  shows "mm_row Xt row Wt K N s =
    (Inr (map (\<lambda>j. fmul F32 (of_int_flt F32 (dot_col (tt_payload Xt) (nat row * nat K) (tt_payload Wt) (nat N) (nat K) j))
        (fmul F32 (tt_scale Xt) (tt_scale Wt))) [0..<nat N]),
     s\<lparr>sim_counters := bump_n TVMAC (of_nat (tiles (nat K) * nat N)) (sim_counters s)\<rparr>)"
proof -
  have "nat row * nat K \<le> 2 ^ 31 * 2 ^ 31"
    by (rule mult_mono) (use row K in auto)
  then have xo: "u64 (to_size row * to_size K) = nat row * nat K"
    using row K by (simp add: to_size_id)
  have "int_rows (tt_payload Xt) (nat row * nat K) (tt_payload Wt) N (replicate (nat N) 0) [0..<nat K]
      = Inr (map (dot_col (tt_payload Xt) (nat row * nat K) (tt_payload Wt) (nat N) (nat K)) [0..<nat N])"
    by (rule int_rows_ok [OF N, where K = "nat K"]) (use K X W in auto)
  then have "mm_row_out Xt row Wt K N = Inr (map (\<lambda>j. fmul F32 (of_int_flt F32 (dot_col (tt_payload Xt) (nat row * nat K) (tt_payload Wt) (nat N) (nat K) j))
        (fmul F32 (tt_scale Xt) (tt_scale Wt))) [0..<nat N])"
    using plain N by (simp add: mm_row_out_def xo new_vec_ok Let_def o_def)
  moreover have "tvmac_tiles K N = Inr (of_nat (tiles (nat K) * nat N))"
    by (rule tvmac_tiles_ok) (use K N in auto)
  ultimately show ?thesis by (simp add: mm_row_def bump_tvmac_def sbind_def modify_run ret_run)
qed

end
