(* ===== verification/TerTotal.thy ===== *)
theory TerTotal
  imports TerMatmul
begin

text \<open>
  Total correctness of the host routines: on vectors and matrices of the right sizes no routine
  reads or writes outside a buffer, divides by zero or overflows, and each returns a vector of the
  expected length. \<open>does\<close> states that a computation returns from a state, with a
  postcondition.
\<close>

section \<open>Total runs\<close>

definition does :: "'s \<Rightarrow> ('s, 'a) sx \<Rightarrow> ('a \<Rightarrow> 's \<Rightarrow> bool) \<Rightarrow> bool" where
  "does s m Q \<longleftrightarrow> (\<exists>a t. m s = (Inr a, t) \<and> Q a t)"

named_theorems does_intros \<open>rules for total runs\<close>

lemma does_ret: "Q a s \<Longrightarrow> does s (ret a) Q"
  by (simp add: does_def ret_def)

lemma does_lift: "(\<exists>a. r = Inr a \<and> Q a s) \<Longrightarrow> does s (lift r) Q"
  by (auto simp: does_def lift_def)

lemma does_bind: "does s m R \<Longrightarrow> (\<And>a t. R a t \<Longrightarrow> does t (f a) Q) \<Longrightarrow> does s (sbind m f) Q"
  by (fastforce simp: does_def sbind_def)

lemma does_weaken: "does s m R \<Longrightarrow> (\<And>a t. R a t \<Longrightarrow> Q a t) \<Longrightarrow> does s m Q"
  by (auto simp: does_def)

lemma does_sfold:
  assumes "I a s" and "\<And>a x t. x \<in> set xs \<Longrightarrow> I a t \<Longrightarrow> does t (f a x) I"
  shows "does s (sfold f a xs) I"
  using assms
proof (induction xs arbitrary: a s)
  case (Cons x xs)
  have "does s (f a x) I" using Cons.prems by simp
  then show ?case unfolding sfold.simps by (rule does_bind) (use Cons in auto)
qed (simp add: does_ret)

lemma does_sfor:
  assumes "I s" and "\<And>x t. x \<in> set xs \<Longrightarrow> I t \<Longrightarrow> does t (f x) (\<lambda>_. I)"
  shows "does s (sfor f xs) (\<lambda>_. I)"
  using assms
proof (induction xs arbitrary: s)
  case (Cons x xs)
  have "does s (f x) (\<lambda>_. I)" using Cons.prems by simp
  then show ?case unfolding sfor.simps by (rule does_bind) (use Cons in auto)
qed (simp add: does_ret)

section \<open>Total loops without state\<close>

lemma rmap_total: "(\<And>x. x \<in> set xs \<Longrightarrow> \<exists>y. f x = Inr y) \<Longrightarrow> \<exists>ys. rmap f xs = Inr ys \<and> length ys = length xs"
proof (induction xs)
  case (Cons x xs)
  then obtain y ys where "f x = Inr y" "rmap f xs = Inr ys" "length ys = length xs" by (metis list.set_intros)
  then show ?case by simp
qed simp

lemma rfold_total:
  "I a \<Longrightarrow> (\<And>a x. x \<in> set xs \<Longrightarrow> I a \<Longrightarrow> \<exists>b. f a x = Inr b \<and> I b) \<Longrightarrow> \<exists>b. rfold f a xs = Inr b \<and> I b"
proof (induction xs arbitrary: a)
  case (Cons x xs)
  then obtain b where b: "f a x = Inr b" "I b" by (metis list.set_intros(1))
  show ?case using Cons.IH [OF b(2)] Cons.prems b by simp
qed simp

section \<open>Matrices\<close>

text \<open>
  The payload of a matrix with \<open>K\<close> rows and \<open>N\<close> columns as the two products read it: the
  plain floats when the bypass is on and they are present, and the integers otherwise, with
  enough block scales when the tensor is blocked.
\<close>

definition mat_ok :: "bool \<Rightarrow> trit_tensor \<Rightarrow> nat \<Rightarrow> nat \<Rightarrow> bool" where
  "mat_ok bypass W K N \<longleftrightarrow>
     (if bypass \<and> tt_fp32 W \<noteq> [] then K * N \<le> length (tt_fp32 W)
      else K * N \<le> length (tt_payload W) \<and> (\<forall>q \<in> set (tt_payload W). \<bar>q\<bar> \<le> 2 ^ 31) \<and>
        (tt_block_scales W \<noteq> [] \<longrightarrow> 0 < tt_block_size W \<and> tt_block_size W < 2 ^ 31 \<and>
          K * N \<le> nat (tt_block_size W) * length (tt_block_scales W)))"

lemma block_index: "i < K \<Longrightarrow> K \<le> b * n \<Longrightarrow> 0 < b \<Longrightarrow> i div b < (n :: nat)"
  by (metis div_less_iff_less_mult mult.commute order_less_le_trans)

lemma weight_total:
  assumes "mat_ok True W K N" and "i < K * N"
  shows "\<exists>w. weight_f64 W i = Inr w"
proof (cases "tt_fp32 W = []")
  case False
  then show ?thesis using assms by (simp add: weight_f64_def mat_ok_def read_at_in)
next
  case True
  have "to_size (tt_block_size W) = nat (tt_block_size W)" if "tt_block_scales W \<noteq> []"
    using assms True that by (intro to_size_id) (auto simp: mat_ok_def)
  then show ?thesis using True assms block_index [OF assms(2)]
    by (auto simp: weight_f64_def mat_ok_def read_at_in)
qed

lemma u64_entry: "N < 2 ^ 31 \<Longrightarrow> k < 2 ^ 31 \<Longrightarrow> j < N \<Longrightarrow> u64 (k * N + j) = k * (N :: nat) + j"
proof -
  assume a: "N < 2 ^ 31" "k < 2 ^ 31" "j < N"
  have "k * N \<le> 2 ^ 31 * 2 ^ 31" by (rule mult_mono) (use a in auto)
  then show ?thesis using a by simp
qed

lemma mm_row_fp_total:
  assumes W: "mat_ok True W (nat K) (nat N)" and x: "nat K \<le> length x"
    and K: "0 \<le> K" "K < 2 ^ 31" and N: "0 \<le> N" "N < 2 ^ 31"
  shows "\<exists>out. mm_row_fp x W K N = Inr out \<and> length out = nat N"
proof -
  let ?f = "\<lambda>acc k. rbind (read_at x k) (\<lambda>xk. let xv = fcvt F64 xk
     in if flt_eq xv fzero then Inr acc else fp_row W N (u64 (k * to_size N)) xv acc)"
  have row: "\<exists>b. fp_row W N (u64 (k * to_size N)) xv acc = Inr b \<and> length b = nat N"
    if k: "k < nat K" for k xv acc
  proof -
    have "\<exists>w. weight_f64 W (u64 (k * nat N + j)) = Inr w" if "j < nat N" for j
      using weight_total [OF W entry_in [OF k that]] u64_entry [of "nat N" k j] that k K N by simp
    then have "\<exists>ys. fp_row W N (u64 (k * to_size N)) xv acc = Inr ys \<and> length ys = length [0..<nat N]"
      unfolding fp_row_def row_base [OF N, of k] by (intro rmap_total) (use k K N row_base [OF N, of k] in auto)
    then show ?thesis by simp
  qed
  have "\<exists>b. rfold ?f (replicate (nat N) fzero) [0..<nat K] = Inr b \<and> length b = nat N"
    by (rule rfold_total [where I = "\<lambda>a. length a = nat N"]) (use row x in \<open>auto simp: read_at_in Let_def\<close>)
  then show ?thesis using N by (auto simp: mm_row_fp_def new_vec_ok)
qed

lemma block_row_total:
  assumes W: "mat_ok False W K (nat N)" and blk: "tt_block_scales W \<noteq> []" and k: "k < K" "K < 2 ^ 31"
    and N: "0 \<le> N" "N < 2 ^ 31"
  shows "\<exists>b. block_row W N (u64 (k * to_size N)) xv acc = Inr b \<and> length b = nat N"
proof -
  have bs: "to_size (tt_block_size W) = nat (tt_block_size W)" "0 < nat (tt_block_size W)"
    using W blk by (auto simp: mat_ok_def intro!: to_size_id)
  have "\<exists>ys. block_row W N (u64 (k * to_size N)) xv acc = Inr ys \<and> length ys = length [0..<nat N]"
    unfolding block_row_def
  proof (rule rmap_total)
    fix j assume "j \<in> set [0..<nat N]"
    then have j: "j < nat N" by simp
    have i: "k * nat N + j < K * nat N" by (rule entry_in) (use k j in auto)
    have u: "u64 (k * nat N + j) = k * nat N + j" using u64_entry [of "nat N" k j] j k N by simp
    have w: "k * nat N + j < length (tt_payload W)" using W i by (auto simp: mat_ok_def)
    have s: "(k * nat N + j) div nat (tt_block_size W) < length (tt_block_scales W)"
      using W blk i bs(2) by (intro block_index [OF i]) (auto simp: mat_ok_def)
    have base: "u64 (k * to_size N) = k * nat N" using row_base [OF N, of k] k by simp
    show "\<exists>y. (if to_size (tt_block_size W) = 0 then Inl (DivisionByZero ''mm_row'')
        else rbind (read_at (tt_payload W) (u64 (k * to_size N) + j))
             (\<lambda>w. rbind (read_at (tt_block_scales W) (u64 (u64 (k * to_size N) + j) div to_size (tt_block_size W)))
             (\<lambda>s. Inr (fadd F64 (acc ! j) (fmul F64 (fmul F64 (of_int_flt F64 xv) (of_int_flt F64 w)) (fcvt F64 s)))))) = Inr y"
      unfolding base u bs(1) using w s bs(2) by (simp add: read_at_in)
  qed
  then show ?thesis by simp
qed

definition tick :: "64 word \<Rightarrow> sim \<Rightarrow> sim" where
  "tick n s = s\<lparr>sim_counters := bump_n TVMAC n (sim_counters s)\<rparr>"

lemma tick_0 [simp]: "tick 0 s = s"
  by (simp add: tick_def bump_n_def)

lemma tick_tick [simp]: "tick n (tick m s) = tick (m + n) s"
  by (simp add: tick_def bump_n_def ac_simps)

lemma mm_row_total:
  assumes W: "mat_ok False W (nat K) (nat N)" and x: "nat K \<le> length (tt_payload X)" "\<forall>q \<in> set (tt_payload X). \<bar>q\<bar> \<le> 9841"
    and K: "0 \<le> K" "K \<le> 400000" and N: "0 \<le> N" "N < 2 ^ 31"
  shows "\<exists>out. mm_row X 0 W K N s = (Inr out, tick (of_nat (tiles (nat K) * nat N)) s) \<and> length out = nat N"
proof (cases "tt_block_scales W = []")
  case True
  have "mm_row X 0 W K N s =
    (Inr (map (\<lambda>j. fmul F32 (of_int_flt F32 (dot_col (tt_payload X) (nat 0 * nat K) (tt_payload W) (nat N) (nat K) j))
        (fmul F32 (tt_scale X) (tt_scale W))) [0..<nat N]),
     s\<lparr>sim_counters := bump_n TVMAC (of_nat (tiles (nat K) * nat N)) (sim_counters s)\<rparr>)"
    by (rule mm_row_ok [OF True]) (use W x K N in \<open>auto simp: mat_ok_def\<close>)
  then show ?thesis by (simp add: tick_def)
next
  case False
  let ?f = "\<lambda>acc k. rbind (read_at (tt_payload X) (0 + k)) (\<lambda>xv. if xv = 0 then Inr acc
      else block_row W N (u64 (k * to_size N)) xv acc)"
  have "\<exists>b. rfold ?f (replicate (nat N) fzero) [0..<nat K] = Inr b \<and> length b = nat N"
  proof (rule rfold_total [where I = "\<lambda>a. length a = nat N"])
    fix acc :: "flt list" and k assume k: "k \<in> set [0..<nat K]" and a: "length acc = nat N"
    have "\<exists>b. block_row W N (u64 (k * to_size N)) (tt_payload X ! k) acc = Inr b \<and> length b = nat N"
      by (rule block_row_total [OF W False]) (use k K N in auto)
    then show "\<exists>b. ?f acc k = Inr b \<and> length b = nat N" using k x a by (simp add: read_at_in)
  qed simp
  then obtain b where b: "block_rows (tt_payload X) 0 W N (replicate (nat N) fzero) [0..<nat K] = Inr b" "length b = nat N"
    unfolding block_rows_def by auto
  have "to_size 0 = 0" by (simp add: to_size_def)
  then have "\<exists>out. mm_row_out X 0 W K N = Inr out \<and> length out = nat N"
    using False b N by (simp add: mm_row_out_def new_vec_ok)
  then obtain out where out: "mm_row_out X 0 W K N = Inr out" "length out = nat N" by auto
  have "tvmac_tiles K N = Inr (of_nat (tiles (nat K) * nat N))"
    by (rule tvmac_tiles_ok) (use K N in auto)
  then show ?thesis using out by (simp add: mm_row_def bump_tvmac_def sbind_def modify_run ret_run tick_def)
qed

section \<open>Activations\<close>

lemma rmsnorm_host_total: "length x \<le> length w \<Longrightarrow> \<exists>y. rmsnorm_host L x w eps = Inr y \<and> length y = length x"
proof -
  assume "length x \<le> length w"
  then have "\<exists>ys. rmsnorm_host L x w eps = Inr ys \<and> length ys = length [0..<length x]"
    unfolding rmsnorm_host_def Let_def by (intro rmap_total) (simp add: read_at_in)
  then show ?thesis by simp
qed

lemma rotate_pair_total: "2 * k + 1 < length v \<Longrightarrow> \<exists>w. rotate_pair c s k v = Inr w \<and> length w = length v"
  by (simp add: rotate_pair_def read_at_in)

lemma pairs_in: "k < nat (d sdiv 2) \<Longrightarrow> d \<le> int n \<Longrightarrow> 2 * k + 1 < n"
proof -
  assume k: "k < nat (d sdiv 2)" and d: "d \<le> int n"
  have "d sdiv 2 \<le> 0" if "d < 0" using that by (simp add: signed_divide_int_def sgn_if)
  then have "0 \<le> d" using k by (cases "d < 0") auto
  then have "d sdiv 2 = d div 2" by (simp add: signed_divide_int_def sgn_if)
  then have "int k + 1 \<le> d div 2" using k by linarith
  then show ?thesis using d by linarith
qed

lemma rope_host_total: "d \<le> int (length v) \<Longrightarrow> \<exists>w. rope_host L v pos d theta = Inr w \<and> length w = length v"
  unfolding rope_host_def
proof (rule rfold_total [where I = "\<lambda>a. length a = length v"])
  fix a :: "flt list" and k assume k: "k \<in> set [0..<nat (d sdiv 2)]" and a: "length a = length v"
    and d: "d \<le> int (length v)"
  have "2 * k + 1 < length a" using pairs_in [of k d "length v"] k a d by simp
  from rotate_pair_total [OF this]
  show "\<exists>b. (let x = rope_angle L pos d theta k in rotate_pair (lm_cos L x) (lm_sin L x) k a) = Inr b \<and> length b = length v"
    using a by (simp add: Let_def)
qed simp

lemma softmax_host_length [simp]: "length (softmax_host L v) = length v"
  by (simp add: softmax_host_def Let_def)

lemma silu_mul_host_total: "length gate \<le> length u \<Longrightarrow> \<exists>y. silu_mul_host L gate u = Inr y \<and> length y = length gate"
proof -
  assume "length gate \<le> length u"
  then have "\<exists>ys. silu_mul_host L gate u = Inr ys \<and> length ys = length [0..<length gate]"
    unfolding silu_mul_host_def by (intro rmap_total) (simp add: read_at_in Let_def)
  then show ?thesis by simp
qed

lemma relu2_mul_host_total: "length gate \<le> length u \<Longrightarrow> \<exists>y. relu2_mul_host gate u = Inr y \<and> length y = length gate"
proof -
  assume "length gate \<le> length u"
  then have "\<exists>ys. relu2_mul_host gate u = Inr ys \<and> length ys = length [0..<length gate]"
    unfolding relu2_mul_host_def by (intro rmap_total) (simp add: read_at_in Let_def)
  then show ?thesis by simp
qed

lemma residual_total:
  "0 \<le> H \<Longrightarrow> H < 2 ^ 31 \<Longrightarrow> nat H \<le> length x \<Longrightarrow> nat H \<le> length y \<Longrightarrow> \<exists>z. residual H x y = Inr z \<and> length z = nat H"
proof -
  assume a: "0 \<le> H" "H < 2 ^ 31" "nat H \<le> length x" "nat H \<le> length y"
  have "\<exists>z. rmap (\<lambda>i. rbind (read_at x i) (\<lambda>a. rbind (read_at y i) (\<lambda>b. Inr (fadd F32 a b)))) [0..<nat H] = Inr z
      \<and> length z = length [0..<nat H]"
    using a by (intro rmap_total) (simp add: read_at_in)
  then show ?thesis using a by (simp add: residual_def new_vec_ok)
qed

lemma add_into_total: "n \<le> length v \<Longrightarrow> n \<le> length w \<Longrightarrow> \<exists>u. add_into n v w = Inr u \<and> length u = length v"
  unfolding add_into_def
  by (rule rfold_total [where I = "\<lambda>a. length a = length v"]) (auto simp: read_at_in)

section \<open>Quantised activations\<close>

lemma quant_block_range:
  assumes "q \<in> set (snd (quant_block L 9841 xs))"
  shows "\<bar>q\<bar> \<le> 9841"
proof -
  have "\<bar>quant_int L 9841 s x\<bar> \<le> 9841" for s x
    by (rule conjunct1 [OF quant_int_range]) simp_all
  then show ?thesis using assms by (auto simp: quant_block_def Let_def simp del: abs_le_iff split: if_splits)
qed

lemma max_trit_int_9: "max_trit_int 9 = 9841"
  by (simp add: max_trit_int_eq)

lemma shape_row: "0 \<le> K \<Longrightarrow> K < 2 ^ 31 \<Longrightarrow> shape_elems [1, K] = nat K"
  by (simp add: shape_elems_def to_size_id)

lemma quantize_row_total:
  assumes "0 \<le> K" "K < 2 ^ 31" "nat K \<le> length x"
  shows "\<exists>t. quantize L x [1, K] 9 = Inr t \<and> length (tt_payload t) = nat K \<and> (\<forall>q \<in> set (tt_payload t). \<bar>q\<bar> \<le> 9841)"
proof -
  obtain t where t: "quantize L x [1, K] 9 = Inr t"
    using quantize_ok [of 9 "[1, K]" x L] assms by (auto simp: shape_row)
  have f: "tt_payload t = snd (quant_block L 9841 (take (nat K) x))"
    using quantize_block [OF t] assms by (simp add: shape_row max_trit_int_9) (metis snd_conv)
  have "length (tt_payload t) = nat K" unfolding f quant_block_length using assms by simp
  then show ?thesis using t f quant_block_range by auto
qed

end
