(* ===== verification/TerLayer.thy ===== *)
theory TerLayer
  imports TerTotal
begin

text \<open>
  Total correctness of a layer and of a forward pass on the host path (dimensions above the 27
  lanes of the kernels and a position of at least 27): with weights, caches and state of the right sizes it returns,
  writes only its own row of the cache, and changes nothing in the simulator but the analytic
  count of \<open>TVMAC\<close>.
\<close>

section \<open>Sizes\<close>

definition q_dim :: "dims \<Rightarrow> nat" where
  "q_dim D = nat (dm_heads D) * nat (dm_head_dim D)"

definition kv_width :: "dims \<Rightarrow> nat" where
  "kv_width D = nat (dm_kv_heads D) * nat (dm_head_dim D)"

text \<open>Grouped query heads, and dimensions on the host path.\<close>

definition heads_ok :: "dims \<Rightarrow> bool" where
  "heads_ok D \<longleftrightarrow>
     0 < dm_head_dim D \<and> 0 < dm_kv_heads D \<and> 0 < dm_heads D \<and> dm_heads D mod dm_kv_heads D = 0 \<and>
     dm_heads D * dm_head_dim D \<le> 400000"

definition dims_ok :: "dims \<Rightarrow> bool" where
  "dims_ok D \<longleftrightarrow>
     27 < dm_hidden D \<and> dm_hidden D \<le> 400000 \<and> 26 < dm_head_dim D \<and> heads_ok D \<and>
     0 \<le> dm_inter D \<and> dm_inter D \<le> 400000 \<and> (dm_relu2 D \<or> 27 < dm_inter D)"

definition weights_ok :: "bool \<Rightarrow> dims \<Rightarrow> layer_weights \<Rightarrow> bool" where
  "weights_ok bypass D W \<longleftrightarrow>
     (let H = nat (dm_hidden D); F = nat (dm_inter D); Q = q_dim D; V = kv_width D
      in mat_ok bypass (lw_q W) H Q \<and> mat_ok bypass (lw_k W) H V \<and> mat_ok bypass (lw_v W) H V \<and>
         mat_ok bypass (lw_o W) Q H \<and> mat_ok bypass (lw_gate W) H F \<and> mat_ok bypass (lw_up W) H F \<and>
         mat_ok bypass (lw_down W) F H \<and> H \<le> length (lw_attn_norm W) \<and> H \<le> length (lw_ffn_norm W) \<and>
         (lw_attn_sub_norm W = [] \<or> Q \<le> length (lw_attn_sub_norm W)) \<and>
         (lw_ffn_sub_norm W = [] \<or> F \<le> length (lw_ffn_sub_norm W)))"

text \<open>A cache with room for the rows \<open>0 .. pos\<close>.\<close>

definition cache_ok :: "dims \<Rightarrow> int \<Rightarrow> kv_cache \<Rightarrow> bool" where
  "cache_ok D pos c \<longleftrightarrow>
     Suc (nat pos) * kv_width D \<le> length (kv_K c) \<and> Suc (nat pos) * kv_width D \<le> length (kv_V c)"

text \<open>The per-token state of a model with \<open>n\<close> layers, and what layer \<open>idx\<close> needs of it.\<close>

definition brandon_ok :: "nat \<Rightarrow> dims \<Rightarrow> brandon_state option \<Rightarrow> bool" where
  "brandon_ok n D bo \<longleftrightarrow>
     (case bo of None \<Rightarrow> True
      | Some b \<Rightarrow> bs_n_layers b = int n \<and>
          (bs_use_dwa b \<longrightarrow> length (bs_dwa_buf b) = Suc n * nat (dm_hidden D) \<and> Suc n * nat (dm_hidden D) < 2 ^ 31 \<and>
             (\<forall>ws. bs_dwa_weights b = Some ws \<longrightarrow> n * Suc n \<le> length ws)) \<and>
          (bs_use_value_residual b \<and> bs_v_first_captured b \<longrightarrow> kv_width D \<le> length (bs_v_first b)))"

definition residual_ready :: "int \<Rightarrow> brandon_state option \<Rightarrow> bool" where
  "residual_ready idx bo \<longleftrightarrow>
     (case bo of None \<Rightarrow> True | Some b \<Rightarrow> bs_use_value_residual b \<longrightarrow> 0 < idx \<longrightarrow> bs_v_first_captured b)"

section \<open>Arithmetic of the dimensions\<close>

lemma heads_facts:
  assumes "heads_ok D"
  shows "mul_i32 (dm_heads D) (dm_head_dim D) = Inr (int (q_dim D))"
    and "mul_i32 (dm_kv_heads D) (dm_head_dim D) = Inr (int (kv_width D))"
    and "q_dim D \<le> 400000" and "kv_width D \<le> q_dim D"
    and "div_i32 (dm_heads D) (dm_kv_heads D) = Inr (dm_heads D div dm_kv_heads D)"
    and "0 < dm_heads D div dm_kv_heads D"
proof -
  let ?h = "dm_heads D" and ?k = "dm_kv_heads D" and ?d = "dm_head_dim D"
  have pos: "0 < ?h" "0 < ?k" "0 < ?d" and dvd: "?k dvd ?h" and q: "?h * ?d \<le> 400000"
    using assms by (auto simp: heads_ok_def)
  have kh: "?k \<le> ?h" using dvd pos by (simp add: zdvd_imp_le)
  then have kd: "?k * ?d \<le> ?h * ?d" using pos by (simp add: mult_right_mono)
  have int_q: "int (q_dim D) = ?h * ?d" and int_k: "int (kv_width D) = ?k * ?d"
    using pos by (simp_all add: q_dim_def kv_width_def)
  have "0 < ?h * ?d" "0 < ?k * ?d" using pos by simp_all
  then show "mul_i32 ?h ?d = Inr (int (q_dim D))" "mul_i32 ?k ?d = Inr (int (kv_width D))"
    using q kd unfolding int_q int_k by (simp_all add: mul_i32_def in_i32_def)
  show "q_dim D \<le> 400000" using q int_q by linarith
  show "kv_width D \<le> q_dim D" using kd int_q int_k by linarith
  have d1: "?h sdiv ?k = ?h div ?k" using pos by (simp add: signed_divide_int_def sgn_if)
  have "?h \<le> ?h * ?d" using pos by (simp add: mult_le_cancel_left1)
  have "?h div ?k * 1 \<le> ?h div ?k * ?k" using pos by (intro mult_left_mono) (auto simp: pos_imp_zdiv_nonneg_iff)
  then have "?h div ?k \<le> 400000" using \<open>?h \<le> ?h * ?d\<close> q dvd by simp
  moreover show "0 < ?h div ?k" using kh pos by (simp add: pos_imp_zdiv_pos_iff)
  ultimately show "div_i32 ?h ?k = Inr (?h div ?k)" using pos by (simp add: div_i32_def d1 in_i32_def)
qed

lemma group_head:
  assumes D: "heads_ok D" and h: "h < nat (dm_heads D)"
  shows "\<exists>g. div_i32 (int h) (dm_heads D div dm_kv_heads D) = Inr (int g) \<and> g < nat (dm_kv_heads D)"
proof -
  let ?g = "dm_heads D div dm_kv_heads D"
  have g: "0 < ?g" using heads_facts [OF D] by simp
  have hk: "dm_heads D = ?g * dm_kv_heads D" using D by (auto simp: heads_ok_def)
  have "int h div ?g < dm_kv_heads D"
  proof (rule ccontr)
    assume "\<not> int h div ?g < dm_kv_heads D"
    then have "?g * dm_kv_heads D \<le> ?g * (int h div ?g)" using g by (intro mult_left_mono) auto
    also have "\<dots> = int h - int h mod ?g" by (simp add: minus_mod_eq_mult_div)
    also have "\<dots> \<le> int h" using g by simp
    finally show False using h hk by linarith
  qed
  moreover have lo: "0 \<le> int h div ?g" using g by (simp add: pos_imp_zdiv_nonneg_iff)
  moreover have "dm_kv_heads D \<le> 400000"
  proof -
    have "dm_kv_heads D \<le> dm_kv_heads D * dm_head_dim D" using D by (simp add: heads_ok_def mult_le_cancel_left1)
    also have "\<dots> = int (kv_width D)" using D by (simp add: heads_ok_def kv_width_def)
    finally show ?thesis using heads_facts [OF D] by linarith
  qed
  moreover have "int h sdiv ?g = int h div ?g" using g by (simp add: signed_divide_int_def sgn_if)
  ultimately have "div_i32 (int h) ?g = Inr (int (nat (int h div ?g))) \<and> nat (int h div ?g) < nat (dm_kv_heads D)"
    using g by (simp add: div_i32_def in_i32_def)
  then show ?thesis by blast
qed

lemma dims_ok_heads: "dims_ok D \<Longrightarrow> heads_ok D"
  by (simp add: dims_ok_def)

lemmas dims_facts = heads_facts [OF dims_ok_heads]

section \<open>Stages\<close>

lemma norm_stage_total:
  "27 < dm_hidden D \<Longrightarrow> length x \<le> length w \<Longrightarrow> does s (norm_stage E D x w) (\<lambda>y t. t = s \<and> length y = length x)"
  using rmsnorm_host_total [of x w] by (auto simp: norm_stage_def intro!: does_lift)

lemma sub_norm_total:
  "w = [] \<or> length x \<le> length w \<Longrightarrow> does s (sub_norm E D x w) (\<lambda>y t. t = s \<and> length y = length x)"
  using rmsnorm_host_total [of x w] by (auto simp: sub_norm_def intro!: does_lift does_ret)

text \<open>The count of one product: nothing when the bypass is on.\<close>

definition mm_cost :: "bool \<Rightarrow> nat \<Rightarrow> nat \<Rightarrow> nat" where
  "mm_cost bypass K N = (if bypass then 0 else tiles K * N)"

definition ticked :: "nat \<Rightarrow> fwd \<Rightarrow> fwd" where
  "ticked n s = s\<lparr>fw_sim := tick (of_nat n) (fw_sim s)\<rparr>"

lemma ticked_0 [simp]: "ticked 0 s = s"
  by (simp add: ticked_def)

lemma ticked_ticked [simp]: "ticked m (ticked n s) = ticked (n + m) s"
  by (simp add: ticked_def)

lemma ticked_fields [simp]: "fw_cache (ticked n s) = fw_cache s" "fw_state (ticked n s) = fw_state s"
  "fw_sim (ticked n s) = tick (of_nat n) (fw_sim s)"
  by (simp_all add: ticked_def)

lemma smap_total:
  assumes "\<And>x t. x \<in> set xs \<Longrightarrow> does t (f x) (\<lambda>y u. u = ticked (c x) t \<and> P x y)"
  shows "does s (smap f xs) (\<lambda>ys u. u = ticked (sum_list (map c xs)) s \<and> list_all2 P xs ys)"
  using assms
proof (induction xs arbitrary: s)
  case (Cons x xs)
  show ?case
    unfolding smap.simps
  proof (rule does_bind [OF Cons.prems [of x]])
    fix y t assume y: "t = ticked (c x) s \<and> P x y"
    show "does t (sbind (smap f xs) (\<lambda>ys. ret (y # ys)))
        (\<lambda>ys u. u = ticked (sum_list (map c (x # xs))) s \<and> list_all2 P (x # xs) ys)"
      by (rule does_bind [OF Cons.IH]) (use Cons.prems y in \<open>auto intro!: does_ret\<close>)
  qed simp
qed (simp add: does_ret)

lemma project_total:
  assumes x: "nat K \<le> length x" and K: "0 \<le> K" "K \<le> 400000"
    and ws: "\<forall>(W, N) \<in> set ws. mat_ok (he_bypass E) W (nat K) (nat N) \<and> 0 \<le> N \<and> N < 2 ^ 31"
  shows "does s (project E x K ws)
    (\<lambda>rs u. u = ticked (sum_list (map (\<lambda>(W, N). mm_cost (he_bypass E) (nat K) (nat N)) ws)) s
       \<and> list_all2 (\<lambda>(W, N) r. length r = nat N) ws rs)"
proof (cases "he_bypass E")
  case True
  have "does t (lift (mm_row_fp x W K N)) (\<lambda>y u. u = ticked 0 t \<and> length y = nat N)"
    if "(W, N) \<in> set ws" for W N t
    using mm_row_fp_total [of W K N x] ws that True x K by (auto intro!: does_lift)
  then show ?thesis
    unfolding project_def using True
    by (auto simp: mm_cost_def split_def intro!: does_weaken [OF smap_total [where P = "\<lambda>(W, N) r. length r = nat N" and c = "\<lambda>_. 0"]])
next
  case False
  obtain xt where xt: "quantize (he_lib E) x [1, K] 9 = Inr xt" "length (tt_payload xt) = nat K"
    "\<forall>q \<in> set (tt_payload xt). \<bar>q\<bar> \<le> 9841"
    using quantize_row_total [of K x "he_lib E"] x K by auto
  have row: "does t (on_sim (mm_row xt 0 W K N)) (\<lambda>y u. u = ticked (tiles (nat K) * nat N) t \<and> length y = nat N)"
    if "(W, N) \<in> set ws" for W N t
  proof -
    have "mat_ok False W (nat K) (nat N)" "0 \<le> N" "N < 2 ^ 31" using ws that False by auto
    then obtain out where "mm_row xt 0 W K N (fw_sim t) = (Inr out, tick (of_nat (tiles (nat K) * nat N)) (fw_sim t))"
      "length out = nat N"
      using mm_row_total [of W K N xt "fw_sim t"] xt K by auto
    then show ?thesis by (simp add: does_def on_sim_def ticked_def del: of_nat_mult)
  qed
  show ?thesis
    unfolding project_def using False xt(1) row
    by (auto simp: mm_cost_def intro!: does_weaken [OF smap_total [where P = "\<lambda>(W, N) r. length r = nat N"
        and c = "\<lambda>(W, N). tiles (nat K) * nat N"]])
qed

lemma project1_total:
  assumes "nat K \<le> length x" and "0 \<le> K" "K \<le> 400000" and "mat_ok (he_bypass E) W (nat K) (nat N)" "0 \<le> N" "N < 2 ^ 31"
  shows "does s (project1 E x K W N) (\<lambda>r u. u = ticked (mm_cost (he_bypass E) (nat K) (nat N)) s \<and> length r = nat N)"
  unfolding project1_def
  by (rule does_bind [OF project_total]) (use assms in \<open>auto simp: list_all2_Cons1 intro!: does_ret\<close>)

lemma splice_length: "a + length ys \<le> length xs \<Longrightarrow> length (splice xs a ys) = length xs"
  by (simp add: splice_def)

lemma slice_length: "a + n \<le> length xs \<Longrightarrow> length (slice xs a n) = n"
  by (simp add: slice_def)

lemma head_in: "h < n \<Longrightarrow> h * d + d \<le> n * (d :: nat)"
  using mult_le_mono1 [of "Suc h" n d] by simp

lemma rope_heads_total:
  assumes d: "26 < dm_head_dim D" and n: "nat n * nat (dm_head_dim D) \<le> length q"
  shows "does s (rope_heads E D pos n q) (\<lambda>r t. t = s \<and> length r = length q)"
proof -
  let ?d = "nat (dm_head_dim D)"
  have "does t (sbind (rope_one E D pos (slice r (h * ?d) ?d)) (\<lambda>vh. ret (splice r (h * ?d) vh)))
      (\<lambda>r t. t = s \<and> length r = length q)" if h: "h < nat n" and r: "t = s \<and> length r = length q" for h r t
  proof -
    have len: "length (slice r (h * ?d) ?d) = ?d"
      using head_in [OF h, of ?d] n r by (intro slice_length) simp
    have "does t (rope_one E D pos (slice r (h * ?d) ?d)) (\<lambda>v u. u = t \<and> length v = ?d)"
      using rope_host_total [of "dm_head_dim D" "slice r (h * ?d) ?d" "he_lib E" pos "dm_theta D"] len d
      by (auto simp: rope_one_def intro!: does_lift)
    then show ?thesis
      by (rule does_bind) (use head_in [OF h, of ?d] n r in \<open>auto intro!: does_ret splice_length [THEN trans]\<close>)
  qed
  then show ?thesis unfolding rope_heads_def Let_def by (intro does_sfold) auto
qed

section \<open>The cache\<close>

text \<open>Only the cells from \<open>a\<close> up to \<open>b\<close> may differ.\<close>

definition same_outside :: "nat \<Rightarrow> nat \<Rightarrow> 'a list \<Rightarrow> 'a list \<Rightarrow> bool" where
  "same_outside a b xs ys \<longleftrightarrow> length ys = length xs \<and> (\<forall>i. i < a \<or> b \<le> i \<longrightarrow> ys ! i = xs ! i)"

lemma same_outside_refl [simp]: "same_outside a b xs xs"
  by (simp add: same_outside_def)

lemma same_outside_trans: "same_outside a b xs ys \<Longrightarrow> same_outside a b ys zs \<Longrightarrow> same_outside a b xs zs"
  by (auto simp: same_outside_def)

lemma same_outside_update: "a \<le> i \<Longrightarrow> i < b \<Longrightarrow> same_outside a b xs (xs[i := x])"
  by (auto simp: same_outside_def nth_list_update)

definition row_written :: "dims \<Rightarrow> int \<Rightarrow> fwd \<Rightarrow> fwd \<Rightarrow> bool" where
  "row_written D pos s t \<longleftrightarrow>
     same_outside (nat pos * kv_width D) (Suc (nat pos) * kv_width D) (kv_K (fw_cache s)) (kv_K (fw_cache t)) \<and>
     same_outside (nat pos * kv_width D) (Suc (nat pos) * kv_width D) (kv_V (fw_cache s)) (kv_V (fw_cache t))"

lemma row_written_trans: "row_written D pos s t \<Longrightarrow> row_written D pos t u \<Longrightarrow> row_written D pos s u"
  by (auto simp: row_written_def intro: same_outside_trans)

lemma kv_row_eq:
  assumes "heads_ok D" and "t < 2 ^ 31"
  shows "kv_row (int t) (int (kv_width D)) = t * kv_width D"
proof -
  have w: "kv_width D \<le> 400000" using heads_facts [OF assms(1)] by linarith
  have "t * kv_width D \<le> 2 ^ 31 * 400000" by (rule mult_mono) (use assms w in auto)
  moreover have "to_size (int t) = t" "to_size (int (kv_width D)) = kv_width D"
    using assms w by (simp_all add: to_size_of_nat)
  ultimately show ?thesis by (simp add: kv_row_def)
qed

lemma put_kv_total:
  assumes D: "dims_ok D" and pos: "0 \<le> pos" "pos < 2 ^ 31 - 1" and c: "cache_ok D pos (fw_cache s)"
    and k: "length k = kv_width D" "length v = kv_width D"
  shows "does s (put_kv pos (int (kv_width D)) k v)
    (\<lambda>_ t. fw_sim t = fw_sim s \<and> fw_state t = fw_state s \<and> row_written D pos s t)"
proof -
  let ?w = "kv_width D" and ?p = "nat pos"
  have w: "?w \<le> 400000" using dims_facts [OF D] by linarith
  have row: "kv_row pos (int ?w) = ?p * ?w" using kv_row_eq [OF dims_ok_heads [OF D], of ?p] pos by simp
  have le: "?p * ?w \<le> 2 ^ 31 * 400000" by (rule mult_mono) (use pos w in auto)
  let ?I = "\<lambda>t. fw_sim t = fw_sim s \<and> fw_state t = fw_state s \<and> row_written D pos s t"
  have "does t (sbind (lift (read_at k i)) (\<lambda>x. sbind (put_K (u64 (kv_row pos (int ?w) + i)) x) (\<lambda>_.
      sbind (lift (read_at v i)) (\<lambda>y. put_V (u64 (kv_row pos (int ?w) + i)) y)))) (\<lambda>_. ?I)"
    if i: "i < ?w" and I: "?I t" for i t
  proof -
    have u: "u64 (kv_row pos (int ?w) + i) = ?p * ?w + i" unfolding row using le i w by simp
    have lenK: "length (kv_K (fw_cache t)) = length (kv_K (fw_cache s))"
      and lenV: "length (kv_V (fw_cache t)) = length (kv_V (fw_cache s))"
      using I by (auto simp: row_written_def same_outside_def)
    have a: "?p * ?w + i < length (kv_K (fw_cache t))" "?p * ?w + i < length (kv_V (fw_cache t))"
      using c i unfolding lenK lenV cache_ok_def by auto
    have r: "?p * ?w \<le> ?p * ?w + i" "?p * ?w + i < Suc ?p * ?w" using i by auto
    show ?thesis
      unfolding u using I a i k same_outside_update [OF r]
      by (auto simp: does_def sbind_def lift_def put_K_def put_V_def read_at_in write_at_def row_written_def
          intro!: same_outside_trans [OF _ same_outside_update])
  qed
  then show ?thesis
    unfolding put_kv_def by (intro does_sfor) (auto simp: row_written_def)
qed

section \<open>Attention\<close>

lemma head_row_eq:
  assumes D: "heads_ok D" and t: "t < 2 ^ 31" and g: "g < nat (dm_kv_heads D)" and d: "d < nat (dm_head_dim D)"
  shows "u64 (head_row (int (kv_width D)) (nat (dm_head_dim D)) g t + d) = t * kv_width D + (g * nat (dm_head_dim D) + d)"
    and "g * nat (dm_head_dim D) + d < kv_width D"
proof -
  let ?h = "nat (dm_head_dim D)"
  show lt: "g * ?h + d < kv_width D" unfolding kv_width_def using entry_in [OF g d] .
  have w: "kv_width D \<le> 400000" using heads_facts [OF D] by linarith
  have "t * kv_width D \<le> 2 ^ 31 * 400000" by (rule mult_mono) (use t w in auto)
  then show "u64 (head_row (int (kv_width D)) ?h g t + d) = t * kv_width D + (g * ?h + d)"
    using lt w by (simp add: head_row_def kv_row_eq [OF D t])
qed

lemma cell_in: "t < n \<Longrightarrow> i < w \<Longrightarrow> n * w \<le> m \<Longrightarrow> t * w + i < (m :: nat)"
  using entry_in [of t n i w] by linarith

lemma attn_scores_total:
  assumes D: "dims_ok D" and n: "n < 2 ^ 31" and g: "g < nat (dm_kv_heads D)"
    and q: "length q = nat (dm_head_dim D)" and K: "n * kv_width D \<le> length K"
  shows "\<exists>sc. attn_scores q K (int (kv_width D)) (nat (dm_head_dim D)) g n scale = Inr sc \<and> length sc = n"
proof -
  let ?h = "nat (dm_head_dim D)"
  have "\<exists>a. dot_f64 q K (head_row (int (kv_width D)) ?h g t) ?h = Inr a" if t: "t < n" for t
  proof -
    have "\<exists>a. dot_f64 q K (head_row (int (kv_width D)) ?h g t) ?h = Inr a \<and> True"
      unfolding dot_f64_def
    proof (rule rfold_total)
      fix acc d assume "d \<in> set [0..<?h]"
      then have d: "d < ?h" by simp
      have "t < 2 ^ 31" using t n by simp
      note r = head_row_eq [OF dims_ok_heads [OF D] this g d]
      have "t * kv_width D + (g * ?h + d) < length K" by (rule cell_in [OF t r(2) K])
      then show "\<exists>b. rbind (read_at q d) (\<lambda>a. rbind (read_at K (u64 (head_row (int (kv_width D)) ?h g t + d)))
          (\<lambda>b. Inr (fadd F64 acc (fmul F64 (fcvt F64 a) (fcvt F64 b))))) = Inr b \<and> True"
        unfolding r(1) using q d by (simp add: read_at_in)
    qed simp
    then show ?thesis by blast
  qed
  then have "\<exists>sc. attn_scores q K (int (kv_width D)) ?h g n scale = Inr sc \<and> length sc = length [0..<n]"
    unfolding attn_scores_def by (intro rmap_total) fastforce
  then show ?thesis by simp
qed

lemma attn_mix_total:
  assumes D: "dims_ok D" and n: "n < 2 ^ 31" and g: "g < nat (dm_kv_heads D)"
    and ws: "length ws = n" and V: "n * kv_width D \<le> length V"
  shows "\<exists>r. attn_mix ws V (int (kv_width D)) (nat (dm_head_dim D)) g n = Inr r \<and> length r = nat (dm_head_dim D)"
  unfolding attn_mix_def
proof (rule rfold_total)
  let ?h = "nat (dm_head_dim D)"
  fix r :: "flt list" and t assume "t \<in> set [0..<n]" and r: "length r = ?h"
  then have t: "t < n" "t < 2 ^ 31" using n by auto
  have "\<exists>ys. rmap (\<lambda>d. rbind (read_at V (u64 (head_row (int (kv_width D)) ?h g t + d)))
      (\<lambda>x. Inr (fadd F32 (r ! d) (fmul F32 (ws ! t) x)))) [0..<?h] = Inr ys \<and> length ys = length [0..<?h]"
  proof (rule rmap_total)
    fix d assume "d \<in> set [0..<?h]"
    then have d: "d < ?h" by simp
    note e = head_row_eq [OF dims_ok_heads [OF D] t(2) g d]
    have "t * kv_width D + (g * ?h + d) < length V" by (rule cell_in [OF t(1) e(2) V])
    then show "\<exists>y. rbind (read_at V (u64 (head_row (int (kv_width D)) ?h g t + d)))
        (\<lambda>x. Inr (fadd F32 (r ! d) (fmul F32 (ws ! t) x))) = Inr y"
      unfolding e(1) by (simp add: read_at_in)
  qed
  then show "\<exists>b. rbind (read_at ws t) (\<lambda>w. rmap (\<lambda>d. rbind (read_at V (u64 (head_row (int (kv_width D)) ?h g t + d)))
      (\<lambda>x. Inr (fadd F32 (r ! d) (fmul F32 w x)))) [0..<?h]) = Inr b \<and> length b = ?h"
    using t ws by (simp add: read_at_in)
qed simp

lemma attend_head_total:
  assumes D: "dims_ok D" and pos: "27 \<le> pos" "pos < 2 ^ 31 - 1" and c: "cache_ok D pos (fw_cache s)"
    and q: "length q = q_dim D" and h: "h < nat (dm_heads D)"
  shows "does s (attend_head E (int (kv_width D)) (nat (dm_head_dim D)) (dm_heads D div dm_kv_heads D) (pos + 1) scale q (int h))
    (\<lambda>r t. t = s \<and> length r = nat (dm_head_dim D))"
proof -
  let ?h = "nat (dm_head_dim D)" and ?n = "Suc (nat pos)"
  have n: "nat (pos + 1) = ?n" "?n < 2 ^ 31" "27 < ?n" using pos by auto
  obtain g where g: "div_i32 (int h) (dm_heads D div dm_kv_heads D) = Inr (int g)" "g < nat (dm_kv_heads D)"
    using group_head [OF dims_ok_heads [OF D] h] by auto
  have "length (slice q (h * ?h) ?h) = ?h"
    using head_in [OF h, of ?h] q by (intro slice_length) (simp add: q_dim_def)
  then obtain sc where sc: "attn_scores (slice q (h * ?h) ?h) (kv_K (fw_cache s)) (int (kv_width D)) ?h g ?n scale = Inr sc" "length sc = ?n"
    using attn_scores_total [OF D n(2) g(2), of "slice q (h * ?h) ?h" "kv_K (fw_cache s)" scale] c by (auto simp: cache_ok_def)
  obtain r where r: "attn_mix (softmax_host (he_lib E) sc) (kv_V (fw_cache s)) (int (kv_width D)) ?h g ?n = Inr r" "length r = ?h"
    using attn_mix_total [OF D n(2) g(2), of "softmax_host (he_lib E) sc" "kv_V (fw_cache s)"] sc c by (auto simp: cache_ok_def)
  have "softmax_stage E sc = ret (softmax_host (he_lib E) sc)" using sc n by (simp add: softmax_stage_def)
  then show ?thesis
    using g sc r by (simp add: does_def attend_head_def sbind_def ret_def n(1))
qed

lemma attention_total:
  assumes D: "dims_ok D" and pos: "27 \<le> pos" "pos < 2 ^ 31 - 1" and c: "cache_ok D pos (fw_cache s)"
    and q: "length q = q_dim D"
  shows "does s (attention E D pos (int (q_dim D)) (int (kv_width D)) q) (\<lambda>r t. t = s \<and> length r = q_dim D)"
proof -
  have qd: "q_dim D \<le> 400000" and gqa: "div_i32 (dm_heads D) (dm_kv_heads D) = Inr (dm_heads D div dm_kv_heads D)"
    using dims_facts [OF D] by simp_all
  have n: "add_i32 pos 1 = Inr (pos + 1)" "new_vec 4 (to_size (pos + 1)) fzero = Inr (replicate (nat (pos + 1)) fzero)"
    using pos by (simp_all add: add_i32_def in_i32_def new_vec_ok)
  have z: "new_vec 4 (to_size (int (q_dim D))) fzero = Inr (replicate (q_dim D) fzero)"
    using qd by (simp add: new_vec_ok)
  have body: "does t (sbind (attend_head E (int (kv_width D)) (nat (dm_head_dim D)) (dm_heads D div dm_kv_heads D) (pos + 1) scale q (int h))
      (\<lambda>r. ret (splice ctx (h * nat (dm_head_dim D)) r))) (\<lambda>r t. t = s \<and> length r = q_dim D)"
    if h: "h < nat (dm_heads D)" and I: "t = s \<and> length ctx = q_dim D" for h ctx t scale
  proof (rule does_bind [OF attend_head_total [OF D pos _ q h]])
    show "cache_ok D pos (fw_cache t)" using c I by simp
    fix r :: "flt list" and u assume "u = t \<and> length r = nat (dm_head_dim D)"
    then show "does u (ret (splice ctx (h * nat (dm_head_dim D)) r)) (\<lambda>r t. t = s \<and> length r = q_dim D)"
      using I head_in [OF h, of "nat (dm_head_dim D)"] by (auto simp: q_dim_def intro!: does_ret splice_length [THEN trans])
  qed
  show ?thesis
    unfolding attention_def gqa z n sbind_lift Let_def
    by (rule does_sfold) (use body in auto)
qed

section \<open>State of the token\<close>

lemma value_residual_total:
  assumes "brandon_ok n D (fw_state s)" and "residual_ready idx (fw_state s)" and "0 \<le> idx"
    and "length v = kv_width D"
  shows "does s (value_residual idx (int (kv_width D)) v) (\<lambda>r t. length r = kv_width D \<and>
    fw_sim t = fw_sim s \<and> fw_cache t = fw_cache s \<and> brandon_ok n D (fw_state t) \<and> residual_ready (idx + 1) (fw_state t))"
proof (cases "fw_state s")
  case None
  then show ?thesis using assms
    by (simp add: does_def value_residual_def brandon_ok_def residual_ready_def)
next
  case (Some b)
  show ?thesis
  proof (cases "bs_use_value_residual b \<and> idx \<noteq> 0")
    case True
    then have "kv_width D \<le> length (bs_v_first b)"
      using assms Some by (auto simp: brandon_ok_def residual_ready_def)
    then obtain u where "add_into (kv_width D) v (bs_v_first b) = Inr u" "length u = length v"
      using add_into_total [of "kv_width D" v "bs_v_first b"] assms by auto
    then show ?thesis using True assms Some
      by (auto simp: does_def value_residual_def residual_ready_def)
  next
    case False
    then show ?thesis using assms Some
      by (auto simp: does_def value_residual_def brandon_ok_def residual_ready_def)
  qed
qed

lemma ffn_act_total:
  "dims_ok D \<Longrightarrow> length gate = nat (dm_inter D) \<Longrightarrow> length u = nat (dm_inter D) \<Longrightarrow>
   does s (ffn_act E D gate u) (\<lambda>y t. t = s \<and> length y = nat (dm_inter D))"
  using relu2_mul_host_total [of gate u] silu_mul_host_total [of gate u]
  by (auto simp: ffn_act_def dims_ok_def intro!: does_lift)

lemma in_i32_of_nat: "m < 2 ^ 31 \<Longrightarrow> in_i32 (int m)"
  by (simp add: in_i32_def)

lemma dwa_store_total:
  assumes H: "0 \<le> H" and idx: "0 \<le> idx" "idx < int n" and x: "nat H \<le> length x"
    and buf: "length buf = Suc n * nat H" "Suc n * nat H < 2 ^ 31"
  shows "\<exists>b. dwa_store idx H x buf = Inr b \<and> length b = length buf"
  unfolding dwa_store_def
proof (rule rfold_total [where I = "\<lambda>a. length a = length buf"])
  fix a :: "flt list" and i assume "i \<in> set [0..<nat H]" and a: "length a = length buf"
  then have i: "i < nat H" by simp
  let ?r = "Suc (nat idx)"
  have cell: "?r * nat H + i < Suc n * nat H" by (rule entry_in) (use idx i in auto)
  have n: "n \<le> Suc n * nat H" using i by (cases "nat H") auto
  have e1: "add_i32 idx 1 = Inr (int ?r)" using idx n buf(2) by (auto simp: add_i32_def in_i32_def)
  have p: "int ?r * H = int (?r * nat H)" using H by (simp only: of_nat_mult int_nat_eq if_True)
  have lt: "?r * nat H < 2 ^ 31" using cell buf(2) by linarith
  have lt2: "?r * nat H + i < 2 ^ 31" using cell buf(2) by linarith
  have e2: "mul_i32 (int ?r) H = Inr (int (?r * nat H))"
    unfolding mul_i32_def p by (simp only: in_i32_of_nat [OF lt] if_True)
  have e3: "add_i32 (int (?r * nat H)) (int i) = Inr (int (?r * nat H + i))"
    by (simp only: add_i32_def of_nat_add [symmetric] in_i32_of_nat [OF lt2] if_True)
  have e4: "to_size (int (?r * nat H + i)) = ?r * nat H + i"
    using cell buf(2) by (intro to_size_of_nat) simp
  show "\<exists>b. rbind (add_i32 idx 1) (\<lambda>r. rbind (mul_i32 r H) (\<lambda>p. rbind (add_i32 p (int i)) (\<lambda>aa.
      rbind (read_at x i) (\<lambda>y. write_at a (to_size aa) y)))) = Inr b \<and> length b = length buf"
    unfolding e1 rbind_simps e2 e3 e4
    using i x cell a buf(1) by (simp add: read_at_in write_at_def del: mult_Suc)
qed simp

lemma dwa_mix_total:
  assumes H: "0 \<le> H" "H < 2 ^ 31" and idx: "0 \<le> idx" "idx < int n" and n: "n < 2 ^ 31 - 1"
    and buf: "length buf = Suc n * nat H" "Suc n * nat H < 2 ^ 31" and ws: "n * Suc n \<le> length ws"
  shows "\<exists>r. dwa_mix idx H (int n + 1) ws buf = Inr r \<and> length r = nat H"
  unfolding dwa_mix_def
proof (rule rfold_total)
  fix r :: "flt list" and j assume "j \<in> set [0..<nat (idx + 2)]" and r: "length r = nat H"
  then have j: "j \<le> Suc (nat idx)" using idx by auto
  let ?w = "u64 (to_size idx * to_size (int n + 1)) + j"
  have "nat idx * Suc n \<le> 2 ^ 31 * 2 ^ 31" by (rule mult_mono) (use idx n in auto)
  moreover have "to_size idx = nat idx" using idx n by (intro to_size_id) auto
  moreover have "to_size (int n + 1) = Suc n" using n to_size_of_nat [of "Suc n"] by (simp add: ac_simps)
  ultimately have w: "?w = nat idx * Suc n + j" by simp
  have "nat idx * Suc n + j < n * Suc n" by (rule entry_in) (use idx j in auto)
  then have wl: "?w < length ws" unfolding w using ws by simp
  have mix: "\<exists>ys. rbind (mul_i32 (int j) H) (\<lambda>base. rmap (\<lambda>i. rbind (read_at buf (to_size base + i)) (\<lambda>x.
      Inr (fadd F32 (r ! i) (fmul F32 v x)))) [0..<nat H]) = Inr ys \<and> length ys = nat H" for v
  proof -
    have cell: "j * nat H + i < Suc n * nat H" if "i < nat H" for i by (rule entry_in) (use idx j that in auto)
    have jH: "j * nat H \<le> Suc n * nat H" by (rule mult_le_mono1) (use idx j in linarith)
    have p: "int j * H = int (j * nat H)" using H by simp
    have lt: "j * nat H < 2 ^ 31" using jH buf(2) by linarith
    have e: "mul_i32 (int j) H = Inr (int (j * nat H))"
      unfolding mul_i32_def p by (simp only: in_i32_of_nat [OF lt] if_True)
    have s: "to_size (int (j * nat H)) = j * nat H" using lt by (intro to_size_of_nat) simp
    have "\<exists>ys. rmap (\<lambda>i. rbind (read_at buf (j * nat H + i)) (\<lambda>x. Inr (fadd F32 (r ! i) (fmul F32 v x)))) [0..<nat H] = Inr ys
        \<and> length ys = length [0..<nat H]"
      by (rule rmap_total) (use cell buf(1) in \<open>auto simp: read_at_in simp del: mult_Suc\<close>)
    then show ?thesis unfolding e rbind_simps s by simp
  qed
  show "\<exists>b. rbind (read_at ws ?w) (\<lambda>w. if flt_eq w fzero then Inr r
      else rbind (mul_i32 (int j) H) (\<lambda>base. rmap (\<lambda>i. rbind (read_at buf (to_size base + i)) (\<lambda>x.
        Inr (fadd F32 (r ! i) (fmul F32 w x)))) [0..<nat H])) = Inr b \<and> length b = nat H"
    using mix r unfolding read_at_in [OF wl] by simp
qed simp

lemma dwa_stage_total:
  assumes D: "dims_ok D" and b: "brandon_ok n D (fw_state s)" and idx: "0 \<le> idx" "idx < int n" and n: "n < 2 ^ 31 - 1"
    and x: "length x = nat (dm_hidden D)"
  shows "does s (dwa_stage idx (dm_hidden D) x) (\<lambda>r t. length r = nat (dm_hidden D) \<and> fw_sim t = fw_sim s \<and>
    fw_cache t = fw_cache s \<and> brandon_ok n D (fw_state t) \<and>
    (residual_ready k (fw_state s) \<longrightarrow> residual_ready k (fw_state t)))"
proof (cases "\<exists>b ws. fw_state s = Some b \<and> bs_use_dwa b \<and> bs_dwa_weights b = Some ws")
  case False
  then show ?thesis using b x
    by (auto simp: does_def dwa_stage_def split: option.split)
next
  case True
  then obtain bb ws where s: "fw_state s = Some bb" "bs_use_dwa bb" "bs_dwa_weights bb = Some ws" by blast
  have f: "bs_n_layers bb = int n" "length (bs_dwa_buf bb) = Suc n * nat (dm_hidden D)"
    "Suc n * nat (dm_hidden D) < 2 ^ 31" "n * Suc n \<le> length ws"
    using b s by (auto simp: brandon_ok_def)
  have H: "0 \<le> dm_hidden D" "dm_hidden D < 2 ^ 31" using D by (auto simp: dims_ok_def)
  have e: "add_i32 (bs_n_layers bb) 1 = Inr (int n + 1)" using f n by (simp add: add_i32_def in_i32_def)
  obtain buf where buf: "dwa_store idx (dm_hidden D) x (bs_dwa_buf bb) = Inr buf" "length buf = length (bs_dwa_buf bb)"
    using dwa_store_total [OF H(1) idx _ f(2,3), of x] x by auto
  obtain r where r: "dwa_mix idx (dm_hidden D) (int n + 1) ws buf = Inr r" "length r = nat (dm_hidden D)"
    using dwa_mix_total [OF H idx n _ f(3,4), of buf] buf f by auto
  show ?thesis
    using b s f e buf r
    by (simp add: does_def dwa_stage_def brandon_ok_def residual_ready_def)
qed

section \<open>A layer\<close>

text \<open>The \<open>TVMAC\<close> count of a layer, as the kernels would issue it.\<close>

definition layer_tiles :: "dims \<Rightarrow> nat" where
  "layer_tiles D =
     (let H = nat (dm_hidden D); F = nat (dm_inter D); Q = q_dim D; V = kv_width D
      in tiles H * Q + tiles H * V + tiles H * V + tiles Q * H + tiles H * F + tiles H * F + tiles F * H)"

definition layer_post :: "bool \<Rightarrow> nat \<Rightarrow> dims \<Rightarrow> int \<Rightarrow> nat \<Rightarrow> fwd \<Rightarrow> fwd \<Rightarrow> bool" where
  "layer_post bypass n D pos c s t \<longleftrightarrow>
     fw_sim t = tick (of_nat (if bypass then 0 else c)) (fw_sim s) \<and> row_written D pos s t \<and> brandon_ok n D (fw_state t)"

lemma row_written_cache: "fw_cache t = fw_cache u \<Longrightarrow> row_written D pos s t \<longleftrightarrow> row_written D pos s u"
  and row_written_same: "fw_cache t = fw_cache s \<Longrightarrow> row_written D pos s t"
  by (simp_all add: row_written_def)

lemma cache_ok_written: "cache_ok D pos (fw_cache s) \<Longrightarrow> row_written D pos s t \<Longrightarrow> cache_ok D pos (fw_cache t)"
  by (auto simp: cache_ok_def row_written_def same_outside_def)

lemma doesE: "does s m Q \<Longrightarrow> (\<And>a t. m s = (Inr a, t) \<Longrightarrow> Q a t \<Longrightarrow> P) \<Longrightarrow> P"
  by (auto simp: does_def)

lemma attn_block_total:
  assumes D: "dims_ok D" and W: "weights_ok (he_bypass E) D W" and pos: "27 \<le> pos" "pos < 2 ^ 31 - 1"
    and c: "cache_ok D pos (fw_cache s)" and b: "brandon_ok n D (fw_state s)" "residual_ready idx (fw_state s)" "0 \<le> idx"
    and x: "length x = nat (dm_hidden D)"
  shows "does s (attn_block E D W pos idx x) (\<lambda>y t. length y = nat (dm_hidden D) \<and>
    layer_post (he_bypass E) n D pos (tiles (nat (dm_hidden D)) * q_dim D + tiles (nat (dm_hidden D)) * kv_width D
      + tiles (nat (dm_hidden D)) * kv_width D + tiles (q_dim D) * nat (dm_hidden D)) s t \<and> residual_ready (idx + 1) (fw_state t))"
proof -
  let ?H = "nat (dm_hidden D)" and ?B = "he_bypass E" and ?Q = "int (q_dim D)" and ?V = "int (kv_width D)"
  note f = dims_facts [OF D]
  have H: "27 < dm_hidden D" "dm_hidden D \<le> 400000" and hd: "26 < dm_head_dim D" using D by (auto simp: dims_ok_def)
  have w: "mat_ok ?B (lw_q W) ?H (q_dim D)" "mat_ok ?B (lw_k W) ?H (kv_width D)" "mat_ok ?B (lw_v W) ?H (kv_width D)"
    "mat_ok ?B (lw_o W) (q_dim D) ?H" "?H \<le> length (lw_attn_norm W)"
    "lw_attn_sub_norm W = [] \<or> q_dim D \<le> length (lw_attn_sub_norm W)"
    using W by (auto simp: weights_ok_def Let_def)
  have pre: "0 \<le> pos" "pos < 2 ^ 31 - 1" using pos by auto
  have "length x \<le> length (lw_attn_norm W)" using x w(5) by simp
  note ns = norm_stage_total [OF H(1) this, of s E]
  obtain xn where xn: "norm_stage E D x (lw_attn_norm W) s = (Inr xn, s)" "length xn = ?H"
    by (rule doesE [OF ns]) (use x in auto)
  define c1 where "c1 = mm_cost ?B ?H (q_dim D) + mm_cost ?B ?H (kv_width D) + mm_cost ?B ?H (kv_width D)"
  have "does s (project E xn (dm_hidden D) [(lw_q W, ?Q), (lw_k W, ?V), (lw_v W, ?V)])
    (\<lambda>r u. u = ticked c1 s \<and> length (r ! 0) = q_dim D \<and> length (r ! 1) = kv_width D \<and> length (r ! 2) = kv_width D)"
    by (rule does_weaken [OF project_total])
      (use xn H w f(3,4) in \<open>auto simp: c1_def add.assoc list_all2_Cons1 numeral_2_eq_2\<close>)
  then obtain qkv where qkv: "project E xn (dm_hidden D) [(lw_q W, ?Q), (lw_k W, ?V), (lw_v W, ?V)] s = (Inr qkv, ticked c1 s)"
    "length (qkv ! 0) = q_dim D" "length (qkv ! 1) = kv_width D" "length (qkv ! 2) = kv_width D"
    by (rule doesE) blast
  let ?u = "ticked c1 s"
  have "brandon_ok n D (fw_state ?u)" "residual_ready idx (fw_state ?u)" using b by simp_all
  from value_residual_total [OF this b(3) qkv(4)]
  obtain v t where v: "value_residual idx ?V (qkv ! 2) ?u = (Inr v, t)" "length v = kv_width D"
    "fw_sim t = tick (of_nat c1) (fw_sim s)" "fw_cache t = fw_cache s" "brandon_ok n D (fw_state t)"
    "residual_ready (idx + 1) (fw_state t)"
    by (rule doesE) simp
  obtain q where q: "rope_heads E D pos (dm_heads D) (qkv ! 0) t = (Inr q, t)" "length q = q_dim D"
    by (rule doesE [OF rope_heads_total [OF hd, of "dm_heads D" "qkv ! 0" t E pos]]) (use qkv in \<open>auto simp: q_dim_def\<close>)
  obtain k where k: "rope_heads E D pos (dm_kv_heads D) (qkv ! 1) t = (Inr k, t)" "length k = kv_width D"
    by (rule doesE [OF rope_heads_total [OF hd, of "dm_kv_heads D" "qkv ! 1" t E pos]]) (use qkv in \<open>auto simp: kv_width_def\<close>)
  have ct: "cache_ok D pos (fw_cache t)" using c v(4) by simp
  obtain y1 w1 where p: "put_kv pos ?V k v t = (Inr y1, w1)" "fw_sim w1 = fw_sim t" "fw_state w1 = fw_state t" "row_written D pos t w1"
    by (rule doesE [OF put_kv_total [OF D pre ct k(2) v(2)]]) blast
  have c1': "cache_ok D pos (fw_cache w1)" by (rule cache_ok_written [OF ct p(4)])
  obtain ctx where ctx: "attention E D pos ?Q ?V q w1 = (Inr ctx, w1)" "length ctx = q_dim D"
    by (rule doesE [OF attention_total [OF D pos c1' q(2)]]) blast
  have "lw_attn_sub_norm W = [] \<or> length ctx \<le> length (lw_attn_sub_norm W)" using w(6) ctx by simp
  from sub_norm_total [OF this, of w1 E D]
  obtain ctx' where ctx': "sub_norm E D ctx (lw_attn_sub_norm W) w1 = (Inr ctx', w1)" "length ctx' = q_dim D"
    by (rule doesE) (use ctx in auto)
  have "does w1 (project1 E ctx' ?Q (lw_o W) (dm_hidden D)) (\<lambda>r u. u = ticked (mm_cost ?B (q_dim D) ?H) w1 \<and> length r = ?H)"
    using project1_total [of ?Q ctx' E "lw_o W" "dm_hidden D" w1] ctx' f(3) w(4) H by simp
  then obtain o1 where o1: "project1 E ctx' ?Q (lw_o W) (dm_hidden D) w1 = (Inr o1, ticked (mm_cost ?B (q_dim D) ?H) w1)" "length o1 = ?H"
    by (rule doesE) blast
  obtain z where z: "residual (dm_hidden D) x o1 = Inr z" "length z = ?H"
    using residual_total [of "dm_hidden D" x o1] H x o1 by auto
  have row: "row_written D pos s w1" using p(4) v(4) by (simp add: row_written_def)
  show ?thesis
    unfolding does_def attn_block_def f(1,2) sbind_lift
    using b row v(3,5,6) p(2,3) z
    by (simp add: sbind_def xn(1) qkv(1) v(1) q(1) k(1) p(1) ctx(1) ctx'(1) o1(1) lift_run del: One_nat_def)
      (simp add: layer_post_def c1_def mm_cost_def row_written_def ac_simps)
qed

lemma ffn_block_total:
  assumes D: "dims_ok D" and W: "weights_ok (he_bypass E) D W" and x: "length x = nat (dm_hidden D)"
  shows "does s (ffn_block E D W x) (\<lambda>y t. length y = nat (dm_hidden D) \<and>
    t = ticked (if he_bypass E then 0 else tiles (nat (dm_hidden D)) * nat (dm_inter D)
      + tiles (nat (dm_hidden D)) * nat (dm_inter D) + tiles (nat (dm_inter D)) * nat (dm_hidden D)) s)"
proof -
  let ?H = "nat (dm_hidden D)" and ?F = "nat (dm_inter D)" and ?B = "he_bypass E"
  have H: "27 < dm_hidden D" "dm_hidden D \<le> 400000" and F: "0 \<le> dm_inter D" "dm_inter D \<le> 400000"
    using D by (auto simp: dims_ok_def)
  have w: "mat_ok ?B (lw_gate W) ?H ?F" "mat_ok ?B (lw_up W) ?H ?F" "mat_ok ?B (lw_down W) ?F ?H"
    "?H \<le> length (lw_ffn_norm W)" "lw_ffn_sub_norm W = [] \<or> ?F \<le> length (lw_ffn_sub_norm W)"
    using W by (auto simp: weights_ok_def Let_def)
  have "length x \<le> length (lw_ffn_norm W)" using x w(4) by simp
  note ns = norm_stage_total [OF H(1) this, of s E]
  obtain xn where xn: "norm_stage E D x (lw_ffn_norm W) s = (Inr xn, s)" "length xn = ?H"
    by (rule doesE [OF ns]) (use x in auto)
  define c1 where "c1 = mm_cost ?B ?H ?F + mm_cost ?B ?H ?F"
  have "does s (project E xn (dm_hidden D) [(lw_gate W, dm_inter D), (lw_up W, dm_inter D)])
    (\<lambda>r u. u = ticked c1 s \<and> length (r ! 0) = ?F \<and> length (r ! 1) = ?F)"
    by (rule does_weaken [OF project_total])
      (use xn H F w in \<open>auto simp: c1_def list_all2_Cons1\<close>)
  then obtain gu where gu: "project E xn (dm_hidden D) [(lw_gate W, dm_inter D), (lw_up W, dm_inter D)] s = (Inr gu, ticked c1 s)"
    "length (gu ! 0) = ?F" "length (gu ! 1) = ?F"
    by (rule doesE) blast
  obtain ff where ff: "ffn_act E D (gu ! 0) (gu ! 1) (ticked c1 s) = (Inr ff, ticked c1 s)" "length ff = ?F"
    by (rule doesE [OF ffn_act_total [OF D gu(2,3)]]) blast
  have "lw_ffn_sub_norm W = [] \<or> length ff \<le> length (lw_ffn_sub_norm W)" using w(5) ff by simp
  from sub_norm_total [OF this, of "ticked c1 s" E D]
  obtain ff' where ff': "sub_norm E D ff (lw_ffn_sub_norm W) (ticked c1 s) = (Inr ff', ticked c1 s)" "length ff' = ?F"
    by (rule doesE) (use ff in auto)
  have "does (ticked c1 s) (project1 E ff' (dm_inter D) (lw_down W) (dm_hidden D))
      (\<lambda>r u. u = ticked (mm_cost ?B ?F ?H) (ticked c1 s) \<and> length r = ?H)"
    using project1_total [of "dm_inter D" ff' E "lw_down W" "dm_hidden D" "ticked c1 s"] ff' F w(3) H by simp
  then obtain o1 where o1: "project1 E ff' (dm_inter D) (lw_down W) (dm_hidden D) (ticked c1 s)
      = (Inr o1, ticked (c1 + mm_cost ?B ?F ?H) s)" "length o1 = ?H"
    by (rule doesE) simp
  obtain z where z: "residual (dm_hidden D) x o1 = Inr z" "length z = ?H"
    using residual_total [of "dm_hidden D" x o1] H x o1 by auto
  show ?thesis
    unfolding does_def ffn_block_def using z
    by (simp add: sbind_def xn(1) gu(1) ff(1) ff'(1) o1(1) lift_run del: One_nat_def)
      (simp add: c1_def mm_cost_def)
qed

lemma layer_total:
  assumes D: "dims_ok D" and W: "weights_ok (he_bypass E) D W" and pos: "27 \<le> pos" "pos < 2 ^ 31 - 1"
    and c: "cache_ok D pos (fw_cache s)" and b: "brandon_ok n D (fw_state s)" "residual_ready idx (fw_state s)"
    and idx: "0 \<le> idx" "idx < int n" "n < 2 ^ 31 - 1" and x: "length x = nat (dm_hidden D)"
  shows "does s (forward_layer E D W pos idx x) (\<lambda>y t. length y = nat (dm_hidden D) \<and>
    layer_post (he_bypass E) n D pos (layer_tiles D) s t \<and> residual_ready (idx + 1) (fw_state t))"
proof -
  obtain y t where y: "attn_block E D W pos idx x s = (Inr y, t)" "length y = nat (dm_hidden D)"
    "layer_post (he_bypass E) n D pos (tiles (nat (dm_hidden D)) * q_dim D + tiles (nat (dm_hidden D)) * kv_width D
      + tiles (nat (dm_hidden D)) * kv_width D + tiles (q_dim D) * nat (dm_hidden D)) s t" "residual_ready (idx + 1) (fw_state t)"
    by (rule doesE [OF attn_block_total [OF D W pos c b idx(1) x]]) blast
  define k where "k = (if he_bypass E then 0 else tiles (nat (dm_hidden D)) * nat (dm_inter D)
      + tiles (nat (dm_hidden D)) * nat (dm_inter D) + tiles (nat (dm_inter D)) * nat (dm_hidden D))"
  obtain z where z: "ffn_block E D W y t = (Inr z, ticked k t)" "length z = nat (dm_hidden D)"
    by (rule doesE [OF ffn_block_total [OF D W y(2), of t]]) (simp add: k_def)
  have "brandon_ok n D (fw_state (ticked k t))" using y(3) by (simp add: layer_post_def)
  from dwa_stage_total [OF D this idx z(2), of "idx + 1"]
  obtain r v where r: "dwa_stage idx (dm_hidden D) z (ticked k t) = (Inr r, v)" "length r = nat (dm_hidden D)"
    "fw_sim v = fw_sim (ticked k t)" "fw_cache v = fw_cache t" "brandon_ok n D (fw_state v)" "residual_ready (idx + 1) (fw_state v)"
    by (rule doesE) (use y(4) in auto)
  have "row_written D pos s v" using y(3) r(4) by (simp add: layer_post_def row_written_def)
  then show ?thesis
    using r y(3) unfolding does_def forward_layer_def
    by (simp add: sbind_def y(1) z(1)) (simp add: layer_post_def layer_tiles_def Let_def k_def ac_simps)
qed

section \<open>A token\<close>

lemma does_sfold_index:
  assumes "I 0 a s" and "\<And>l a t. l < n \<Longrightarrow> I l a t \<Longrightarrow> does t (f a l) (I (Suc l))"
  shows "does s (sfold f a [0..<n]) (I n)"
proof -
  have "does s (sfold f a [k..<n]) (I n)" if "I k a s" "k \<le> n" for k a s
    using that
  proof (induction "n - k" arbitrary: k a s)
    case 0
    then show ?case by (simp add: does_ret)
  next
    case (Suc m)
    then have k: "k < n" by simp
    have e: "[k..<n] = k # [Suc k..<n]" using k by (rule upt_conv_Cons)
    show ?case
      unfolding e sfold.simps
      by (rule does_bind [OF assms(2) [OF k Suc.prems(1)]]) (use Suc k in auto)
  qed
  then show ?thesis using assms(1) by simp
qed

text \<open>A transformer whose parts have the sizes its configuration names, for position \<open>pos\<close>.\<close>

definition transformer_ok :: "bool \<Rightarrow> int \<Rightarrow> transformer \<Rightarrow> bool" where
  "transformer_ok bypass pos tx \<longleftrightarrow>
     dims_ok (dims_of tx) \<and> 0 \<le> tx_n_layers tx \<and> tx_n_layers tx < 2 ^ 31 - 1 \<and> length (tx_blocks tx) < 2 ^ 31 \<and>
     length (tx_layer_map tx) = nat (tx_n_layers tx) \<and>
     (\<forall>b \<in> set (tx_layer_map tx). 0 \<le> b \<and> b < int (length (tx_blocks tx))) \<and>
     (\<forall>W \<in> set (tx_blocks tx). weights_ok bypass (dims_of tx) W) \<and>
     length (tx_kv_caches tx) = nat (tx_n_layers tx) \<and> (\<forall>c \<in> set (tx_kv_caches tx). cache_ok (dims_of tx) pos c)"

lemma layer_parts_total:
  assumes "transformer_ok bypass pos tx" and "l < nat (tx_n_layers tx)"
  shows "\<exists>W c. layer_parts tx l = Inr (W, c) \<and> weights_ok bypass (dims_of tx) W \<and> c = tx_kv_caches tx ! l \<and> cache_ok (dims_of tx) pos c"
proof -
  let ?b = "tx_layer_map tx ! l"
  have l: "l < length (tx_layer_map tx)" "l < length (tx_kv_caches tx)" using assms by (auto simp: transformer_ok_def)
  then have b: "0 \<le> ?b" "?b < int (length (tx_blocks tx))" using assms(1) nth_mem [OF l(1)] by (auto simp: transformer_ok_def)
  have n: "to_i32 (int (length (tx_blocks tx))) = int (length (tx_blocks tx))"
    using assms(1) by (intro to_i32_id in_i32_of_nat) (simp add: transformer_ok_def)
  have nb: "nat ?b < length (tx_blocks tx)" and g: "\<not> (?b < 0 \<or> ?b \<ge> int (length (tx_blocks tx)))" using b by linarith+
  have "layer_parts tx l = Inr (tx_blocks tx ! nat ?b, tx_kv_caches tx ! l)"
    unfolding layer_parts_def read_at_in [OF l(1)] rbind_simps n if_not_P [OF g] read_at_in [OF nb] read_at_in [OF l(2)] ..
  then show ?thesis
    using assms(1) nth_mem [OF nb] nth_mem [OF l(2)] by (auto simp: transformer_ok_def)
qed

text \<open>What a pass over the first \<open>l\<close> layers leaves.\<close>

definition caches_written :: "int \<Rightarrow> nat \<Rightarrow> transformer \<Rightarrow> transformer \<Rightarrow> bool" where
  "caches_written pos l tx ty \<longleftrightarrow>
     ty = tx\<lparr>tx_kv_caches := tx_kv_caches ty\<rparr> \<and> length (tx_kv_caches ty) = length (tx_kv_caches tx) \<and>
     (\<forall>j < length (tx_kv_caches tx). same_outside (nat pos * kv_width (dims_of tx)) (Suc (nat pos) * kv_width (dims_of tx))
         (kv_K (tx_kv_caches tx ! j)) (kv_K (tx_kv_caches ty ! j)) \<and>
       same_outside (nat pos * kv_width (dims_of tx)) (Suc (nat pos) * kv_width (dims_of tx))
         (kv_V (tx_kv_caches tx ! j)) (kv_V (tx_kv_caches ty ! j)) \<and> (l \<le> j \<longrightarrow> tx_kv_caches ty ! j = tx_kv_caches tx ! j))"

lemma caches_written_refl: "caches_written pos l tx tx"
  by (simp add: caches_written_def)

lemma caches_written_ok: "caches_written pos l tx ty \<Longrightarrow> transformer_ok bypass q tx \<Longrightarrow> transformer_ok bypass q ty"
proof -
  assume w: "caches_written pos l tx ty" and ok: "transformer_ok bypass q tx"
  have ty: "ty = tx\<lparr>tx_kv_caches := tx_kv_caches ty\<rparr>" and len: "length (tx_kv_caches ty) = length (tx_kv_caches tx)"
    using w by (simp_all add: caches_written_def)
  have d: "dims_of (tx\<lparr>tx_kv_caches := cs\<rparr>) = dims_of tx" for cs by (simp add: dims_of_def)
  have "cache_ok (dims_of tx) q (tx_kv_caches ty ! j)" if "j < length (tx_kv_caches ty)" for j
  proof -
    have "cache_ok (dims_of tx) q (tx_kv_caches tx ! j)" using ok that len by (simp add: transformer_ok_def)
    then show ?thesis using w that len by (auto simp: caches_written_def cache_ok_def same_outside_def)
  qed
  then have "\<forall>c \<in> set (tx_kv_caches ty). cache_ok (dims_of tx) q c" by (metis in_set_conv_nth)
  then show ?thesis using ok len by (subst ty) (simp add: transformer_ok_def d)
qed

lemma run_layer_total:
  assumes ok: "transformer_ok (he_bypass E) pos (ho_tx s)" and l: "l < nat (tx_n_layers (ho_tx s))"
    and pos: "27 \<le> pos" "pos < 2 ^ 31 - 1"
    and b: "brandon_ok (nat (tx_n_layers (ho_tx s))) (dims_of (ho_tx s)) (ho_state s)" "residual_ready (int l) (ho_state s)"
    and h: "length h = nat (tx_hidden_size (ho_tx s))"
  shows "does s (run_layer E pos h l) (\<lambda>y t. length y = nat (tx_hidden_size (ho_tx s)) \<and>
    ho_sim t = tick (of_nat (if he_bypass E then 0 else layer_tiles (dims_of (ho_tx s)))) (ho_sim s) \<and>
    brandon_ok (nat (tx_n_layers (ho_tx s))) (dims_of (ho_tx s)) (ho_state t) \<and> residual_ready (int (Suc l)) (ho_state t) \<and>
    caches_written pos (Suc l) (ho_tx s) (ho_tx t) \<and>
    (\<forall>j. j \<noteq> l \<longrightarrow> tx_kv_caches (ho_tx t) ! j = tx_kv_caches (ho_tx s) ! j))"
proof -
  let ?tx = "ho_tx s" and ?D = "dims_of (ho_tx s)"
  obtain W where W: "layer_parts ?tx l = Inr (W, tx_kv_caches ?tx ! l)" "weights_ok (he_bypass E) ?D W"
    "cache_ok ?D pos (tx_kv_caches ?tx ! l)"
    using layer_parts_total [OF ok l] by auto
  let ?f = "\<lparr>fw_sim = ho_sim s, fw_cache = tx_kv_caches ?tx ! l, fw_state = ho_state s\<rparr>"
  have D: "dims_ok ?D" "tx_n_layers ?tx < 2 ^ 31 - 1" and lc: "l < length (tx_kv_caches ?tx)"
    using ok l by (auto simp: transformer_ok_def)
  have hd: "length h = nat (dm_hidden ?D)" "nat (dm_hidden ?D) = nat (tx_hidden_size ?tx)" using h by (simp_all add: dims_of_def)
  have "does ?f (forward_layer E ?D W pos (int l) h) (\<lambda>y t. length y = nat (dm_hidden ?D) \<and>
    layer_post (he_bypass E) (nat (tx_n_layers ?tx)) ?D pos (layer_tiles ?D) ?f t \<and> residual_ready (int l + 1) (fw_state t))"
    by (rule layer_total [OF D(1) W(2) pos]) (use W b l D hd in auto)
  then obtain y t where y: "forward_layer E ?D W pos (int l) h ?f = (Inr y, t)" "length y = nat (tx_hidden_size ?tx)"
    "layer_post (he_bypass E) (nat (tx_n_layers ?tx)) ?D pos (layer_tiles ?D) ?f t" "residual_ready (int l + 1) (fw_state t)"
    by (rule doesE) (simp add: hd(2))
  have "caches_written pos (Suc l) ?tx (?tx\<lparr>tx_kv_caches := (tx_kv_caches ?tx)[l := fw_cache t]\<rparr>)"
    using y(3) lc by (auto simp: caches_written_def layer_post_def row_written_def nth_list_update)
  then show ?thesis
    using y lc by (simp add: does_def run_layer_def W(1) layer_post_def add.commute)
qed

lemma caches_written_step:
  assumes "caches_written pos l tx ty" and "caches_written pos (Suc l) ty tz"
    and "\<forall>j. j \<noteq> l \<longrightarrow> tx_kv_caches tz ! j = tx_kv_caches ty ! j" and "dims_of ty = dims_of tx"
  shows "caches_written pos (Suc l) tx tz"
proof -
  have "tz = tx\<lparr>tx_kv_caches := tx_kv_caches tz\<rparr>"
    using assms(1,2) unfolding caches_written_def by (metis transformer.surjective transformer.update_convs(2))
  then show ?thesis
    using assms unfolding caches_written_def by (auto intro: same_outside_trans)
qed

lemma caches_written_dims: "caches_written pos l tx ty \<Longrightarrow> dims_of ty = dims_of tx \<and>
    tx_n_layers ty = tx_n_layers tx \<and> tx_hidden_size ty = tx_hidden_size tx"
  unfolding caches_written_def dims_of_def by (elim conjE) (erule ssubst, simp)

lemma run_layers_total:
  assumes ok: "transformer_ok (he_bypass E) pos (ho_tx s)" and pos: "27 \<le> pos" "pos < 2 ^ 31 - 1"
    and b: "brandon_ok (nat (tx_n_layers (ho_tx s))) (dims_of (ho_tx s)) (ho_state s)" "residual_ready 0 (ho_state s)"
    and h: "length h = nat (tx_hidden_size (ho_tx s))"
  shows "does s (run_layers E pos h) (\<lambda>y t. length y = nat (tx_hidden_size (ho_tx s)) \<and>
    ho_sim t = tick (of_nat (if he_bypass E then 0 else nat (tx_n_layers (ho_tx s)) * layer_tiles (dims_of (ho_tx s)))) (ho_sim s) \<and>
    caches_written pos (nat (tx_n_layers (ho_tx s))) (ho_tx s) (ho_tx t))"
proof -
  let ?n = "nat (tx_n_layers (ho_tx s))" and ?H = "nat (tx_hidden_size (ho_tx s))" and ?D = "dims_of (ho_tx s)"
  let ?c = "if he_bypass E then 0 else layer_tiles ?D"
  let ?I = "\<lambda>l (h :: flt list) (t :: host). length h = ?H \<and> ho_sim t = tick (of_nat (l * ?c)) (ho_sim s) \<and> brandon_ok ?n ?D (ho_state t) \<and>
    residual_ready (int l) (ho_state t) \<and> caches_written pos l (ho_tx s) (ho_tx t)"
  have "does s (\<lambda>s. sfold (\<lambda>h l. run_layer E pos h l) h [0..<?n] s) (?I ?n)"
  proof (rule does_sfold_index [where I = ?I])
    show "?I 0 h s" using b h by (simp add: caches_written_refl)
    fix l and h' :: "flt list" and t :: host assume l: "l < ?n" and I: "?I l h' t"
    have d: "dims_of (ho_tx t) = ?D" "tx_n_layers (ho_tx t) = tx_n_layers (ho_tx s)" "tx_hidden_size (ho_tx t) = tx_hidden_size (ho_tx s)"
      using I caches_written_dims by blast+
    have okt: "transformer_ok (he_bypass E) pos (ho_tx t)" by (rule caches_written_ok [OF _ ok]) (use I in blast)
    have "l < nat (tx_n_layers (ho_tx t))" using l d by simp
    note r = run_layer_total [OF okt this pos, of h', unfolded d]
    show "does t (run_layer E pos h' l) (?I (Suc l))"
    proof (rule does_weaken [OF r])
      show "brandon_ok ?n ?D (ho_state t)" "residual_ready (int l) (ho_state t)" "length h' = ?H" using I by blast+
      fix y :: "flt list" and u :: host
      assume u: "length y = ?H \<and> ho_sim u = tick (of_nat ?c) (ho_sim t) \<and> brandon_ok ?n ?D (ho_state u) \<and>
        residual_ready (int (Suc l)) (ho_state u) \<and> caches_written pos (Suc l) (ho_tx t) (ho_tx u) \<and>
        (\<forall>j. j \<noteq> l \<longrightarrow> tx_kv_caches (ho_tx u) ! j = tx_kv_caches (ho_tx t) ! j)"
      have "caches_written pos (Suc l) (ho_tx s) (ho_tx u)"
        by (rule caches_written_step [of pos l _ "ho_tx t"]) (use I u d in blast)+
      then show "?I (Suc l) y u" using u I by (simp add: ac_simps)
    qed
  qed
  then show ?thesis
    unfolding run_layers_def does_def by (auto split: if_splits)
qed

section \<open>The whole pass\<close>

text \<open>The state handed to \<open>forward_token\<close>: sizes only, nothing captured is needed.\<close>

definition fresh_state_ok :: "nat \<Rightarrow> dims \<Rightarrow> brandon_state option \<Rightarrow> bool" where
  "fresh_state_ok n D bo \<longleftrightarrow>
     (case bo of None \<Rightarrow> True
      | Some b \<Rightarrow> brandon_ok n D (Some (b\<lparr>bs_v_first_captured := False\<rparr>)))"

definition token_tiles :: "bool \<Rightarrow> transformer \<Rightarrow> nat" where
  "token_tiles bypass tx =
     (if bypass then 0 else nat (tx_n_layers tx) * layer_tiles (dims_of tx)) +
     tiles (nat (tx_hidden_size tx)) * nat (tx_vocab_size tx)"

lemma start_state_total:
  assumes D: "dims_ok D" and b: "fresh_state_ok n D bo" and n: "n < 2 ^ 31 - 1" and h: "length h = nat (dm_hidden D)"
  shows "\<exists>bo'. start_state (dm_hidden D) h bo = Inr bo' \<and> brandon_ok n D bo' \<and> residual_ready 0 bo'"
proof (cases bo)
  case None
  then show ?thesis by (simp add: start_state_def brandon_ok_def residual_ready_def)
next
  case (Some b)
  let ?H = "nat (dm_hidden D)"
  have H: "0 \<le> dm_hidden D" using D by (simp add: dims_ok_def)
  have f: "bs_n_layers b = int n"
    "bs_use_dwa b \<longrightarrow> length (bs_dwa_buf b) = Suc n * ?H \<and> Suc n * ?H < 2 ^ 31 \<and> (\<forall>ws. bs_dwa_weights b = Some ws \<longrightarrow> n * Suc n \<le> length ws)"
    using assms(2) Some by (auto simp: fresh_state_ok_def brandon_ok_def)
  have "\<exists>b'. start_dwa (dm_hidden D) h b = Inr b' \<and> (\<exists>buf. b' = b\<lparr>bs_dwa_buf := buf\<rparr> \<and> length buf = length (bs_dwa_buf b))"
  proof (cases "bs_use_dwa b")
    case False
    then show ?thesis by (auto simp: start_dwa_def intro!: exI [of _ "bs_dwa_buf b"])
  next
    case True
    then have g: "length (bs_dwa_buf b) = Suc n * ?H" "Suc n * ?H < 2 ^ 31" using f(2) by auto
    have e1: "add_i32 (bs_n_layers b) 1 = Inr (int (Suc n))" using f(1) n by (simp add: add_i32_def in_i32_def)
    have p: "int (Suc n) * dm_hidden D = int (Suc n * ?H)" using H by (simp only: of_nat_mult int_nat_eq if_True)
    have e2: "mul_i32 (int (Suc n)) (dm_hidden D) = Inr (int (Suc n * ?H))"
      unfolding mul_i32_def p by (simp only: in_i32_of_nat [OF g(2)] if_True)
    have e3: "to_i32 (int (length (bs_dwa_buf b))) = int (Suc n * ?H)"
      unfolding g(1) by (rule to_i32_id) (rule in_i32_of_nat [OF g(2)])
    have "\<exists>buf. rfold (\<lambda>buf i. rbind (read_at h i) (write_at buf i)) (bs_dwa_buf b) [0..<?H] = Inr buf \<and> length buf = length (bs_dwa_buf b)"
      by (rule rfold_total [where I = "\<lambda>buf. length buf = length (bs_dwa_buf b)"]) (use h g(1) in \<open>auto simp: read_at_in write_at_def\<close>)
    then obtain buf where buf: "rfold (\<lambda>buf i. rbind (read_at h i) (write_at buf i)) (bs_dwa_buf b) [0..<?H] = Inr buf"
      "length buf = length (bs_dwa_buf b)" by auto
    have ne: "\<not> to_i32 (int (length (bs_dwa_buf b))) \<noteq> int (Suc n * ?H)" using e3 by simp
    have "start_dwa (dm_hidden D) h b = Inr (b\<lparr>bs_dwa_buf := buf\<rparr>)"
      unfolding start_dwa_def e1 rbind_simps e2 if_not_P [OF ne] buf(1) using True by simp
    then show ?thesis using buf(2) by auto
  qed
  then obtain buf where buf: "start_dwa (dm_hidden D) h b = Inr (b\<lparr>bs_dwa_buf := buf\<rparr>)" "length buf = length (bs_dwa_buf b)" by auto
  show ?thesis using Some f buf by (simp add: start_state_def brandon_ok_def residual_ready_def)
qed

end
