(* ===== verification/TerToken.thy ===== *)
theory TerToken
  imports TerLayer
begin

text \<open>
  A whole forward pass is total on a well-sized transformer, and its analytic \<open>TVMAC\<close> count
  covers the multiplications of the equivalent floating-point model.
\<close>

section \<open>Embedding and logits\<close>

text \<open>The embedding table and the projection matrix hold a row per token.\<close>

definition vocab_ok :: "transformer \<Rightarrow> bool" where
  "vocab_ok tx \<longleftrightarrow>
     0 \<le> tx_vocab_size tx \<and> tx_vocab_size tx < 2 ^ 31 \<and>
     nat (tx_hidden_size tx) \<le> length (tx_output_norm tx) \<and>
     (case dequantize (tx_token_embd tx) of
        Inl e \<Rightarrow> False
      | Inr emb \<Rightarrow> nat (tx_vocab_size tx) * nat (tx_hidden_size tx) \<le> length emb \<and>
          (case lm_weights tx emb of Inl e \<Rightarrow> False
           | Inr W \<Rightarrow> nat (tx_vocab_size tx) * nat (tx_hidden_size tx) \<le> length W))"

lemma row_cells:
  assumes "0 \<le> H" "H < 2 ^ 31" "v < 2 ^ 31" "v < n" "n * nat H \<le> m" "i < nat H"
  shows "u64 (v * to_size H) + i < m"
  using row_base [OF assms(1-3)] cell_in [OF assms(4) assms(6) assms(5)] by simp

lemma embed_token_total:
  assumes "vocab_ok tx" and "0 \<le> tx_hidden_size tx" "tx_hidden_size tx < 2 ^ 31" and "0 \<le> tid" "tid < tx_vocab_size tx"
  shows "\<exists>h emb. embed_token tx tid = Inr (h, emb) \<and> length h = nat (tx_hidden_size tx) \<and> dequantize (tx_token_embd tx) = Inr emb"
proof -
  obtain emb where emb: "dequantize (tx_token_embd tx) = Inr emb"
    "nat (tx_vocab_size tx) * nat (tx_hidden_size tx) \<le> length emb"
    using assms(1) by (auto simp: vocab_ok_def split: sum.splits)
  have tk: "nat tid < 2 ^ 31" "nat tid < nat (tx_vocab_size tx)" using assms by (auto simp: vocab_ok_def)
  have "\<exists>h. rmap (\<lambda>i. read_at emb (u64 (nat tid * to_size (tx_hidden_size tx)) + i)) [0..<nat (tx_hidden_size tx)] = Inr h
      \<and> length h = length [0..<nat (tx_hidden_size tx)]"
    by (rule rmap_total) (use row_cells [OF assms(2,3) tk emb(2)] in \<open>auto simp: read_at_in\<close>)
  then show ?thesis using assms emb by (auto simp: embed_token_def)
qed

lemma output_norm_total:
  "length h \<le> length (tx_output_norm tx) \<Longrightarrow> \<exists>y. output_norm L tx h = Inr y \<and> length y = length h"
proof -
  assume "length h \<le> length (tx_output_norm tx)"
  then have "\<exists>y. output_norm L tx h = Inr y \<and> length y = length [0..<length h]"
    unfolding output_norm_def Let_def by (intro rmap_total) (simp add: read_at_in)
  then show ?thesis by simp
qed

lemma logits_total:
  assumes H: "0 \<le> tx_hidden_size tx" "tx_hidden_size tx < 2 ^ 31" and V: "tx_vocab_size tx < 2 ^ 31"
    and h: "length h = nat (tx_hidden_size tx)" and W: "nat (tx_vocab_size tx) * nat (tx_hidden_size tx) \<le> length W"
  shows "\<exists>y. logits_of tx h W = Inr y \<and> length y = nat (tx_vocab_size tx)"
proof -
  let ?H = "nat (tx_hidden_size tx)" and ?V = "nat (tx_vocab_size tx)"
  have "\<exists>y. logits_of tx h W = Inr y \<and> length y = length [0..<?V]"
    unfolding logits_of_def
  proof (rule rmap_total)
    fix v assume "v \<in> set [0..<?V]"
    then have v: "v < 2 ^ 31" "v < ?V" using V by auto
    have "\<exists>a. rfold (\<lambda>acc i. rbind (read_at h i) (\<lambda>a. rbind (read_at W (u64 (v * to_size (tx_hidden_size tx)) + i))
        (\<lambda>w. Inr (fadd F64 acc (fmul F64 (fcvt F64 a) (fcvt F64 w)))))) fzero [0..<?H] = Inr a \<and> True"
      by (rule rfold_total) (use h row_cells [OF H v W] in \<open>auto simp: read_at_in\<close>)
    then show "\<exists>y. rbind (rfold (\<lambda>acc i. rbind (read_at h i) (\<lambda>a. rbind (read_at W (u64 (v * to_size (tx_hidden_size tx)) + i))
        (\<lambda>w. Inr (fadd F64 acc (fmul F64 (fcvt F64 a) (fcvt F64 w)))))) fzero [0..<?H]) (\<lambda>acc. Inr (fcvt F32 acc)) = Inr y"
      by auto
  qed
  then show ?thesis by simp
qed

lemma logit_tiles_eq:
  assumes "0 \<le> tx_hidden_size tx" "tx_hidden_size tx < 2 ^ 31" "0 \<le> tx_vocab_size tx"
  shows "logit_tiles tx = of_nat (tiles (nat (tx_hidden_size tx)) * nat (tx_vocab_size tx))"
proof -
  let ?h = "nat (tx_hidden_size tx)"
  have lt: "?h + 26 < 2 ^ 64" using assms by simp
  have "(of_int (tx_hidden_size tx) + 26 :: 64 word) = of_nat (?h + 26)" using assms by simp
  also have "\<dots> div 27 = of_nat ((?h + 26) div 27)"
  proof (rule word_unat_eq_iff [THEN iffD2])
    have "(?h + 26) div 27 < 2 ^ 64" using lt by simp
    then show "unat (of_nat (?h + 26) div 27 :: 64 word) = unat (of_nat ((?h + 26) div 27) :: 64 word)"
      using lt by (simp only: unat_div_distrib unat_of_nat) simp
  qed
  finally show ?thesis using assms by (simp add: logit_tiles_def tiles_def)
qed

section \<open>The pass\<close>

lemma token_total:
  assumes ok: "transformer_ok (he_bypass E) pos (ho_tx s)" and voc: "vocab_ok (ho_tx s)"
    and b: "fresh_state_ok (nat (tx_n_layers (ho_tx s))) (dims_of (ho_tx s)) (ho_state s)"
    and pos: "27 \<le> pos" "pos < 2 ^ 31 - 1" and tid: "0 \<le> tid" "tid < tx_vocab_size (ho_tx s)"
  shows "does s (forward_token E tid pos None) (\<lambda>y t. length y = nat (tx_vocab_size (ho_tx s)) \<and>
    ho_sim t = tick (of_nat (token_tiles (he_bypass E) (ho_tx s))) (ho_sim s) \<and>
    caches_written pos (nat (tx_n_layers (ho_tx s))) (ho_tx s) (ho_tx t))"
proof -
  let ?tx = "ho_tx s" and ?H = "nat (tx_hidden_size (ho_tx s))" and ?D = "dims_of (ho_tx s)"
  have D: "dims_ok ?D" and n: "nat (tx_n_layers ?tx) < 2 ^ 31 - 1" using ok by (auto simp: transformer_ok_def)
  have H: "0 \<le> tx_hidden_size ?tx" "tx_hidden_size ?tx < 2 ^ 31" and HD: "dm_hidden ?D = tx_hidden_size ?tx"
    using D by (auto simp: dims_ok_def dims_of_def)
  have V: "0 \<le> tx_vocab_size ?tx" "tx_vocab_size ?tx < 2 ^ 31" using voc by (simp_all add: vocab_ok_def)
  obtain h emb where h: "embed_token ?tx tid = Inr (h, emb)" "length h = ?H" "dequantize (tx_token_embd ?tx) = Inr emb"
    using embed_token_total [OF voc H tid] by blast
  obtain bo where bo: "start_state (tx_hidden_size ?tx) h (ho_state s) = Inr bo"
    "brandon_ok (nat (tx_n_layers ?tx)) ?D bo" "residual_ready 0 bo"
    using start_state_total [OF D b n, of h] h(2) by (auto simp: HD)
  let ?s1 = "s\<lparr>ho_state := bo\<rparr>"
  have e: "enter_token tid None s = (Inr (h, emb), ?s1)"
    using h H bo by (simp add: enter_token_def start_hidden_def new_vec_ok)
  have "does ?s1 (run_layers E pos h) (\<lambda>y t. length y = nat (tx_hidden_size (ho_tx ?s1)) \<and>
    ho_sim t = tick (of_nat (if he_bypass E then 0 else nat (tx_n_layers (ho_tx ?s1)) * layer_tiles (dims_of (ho_tx ?s1)))) (ho_sim ?s1) \<and>
    caches_written pos (nat (tx_n_layers (ho_tx ?s1))) (ho_tx ?s1) (ho_tx t))"
    by (rule run_layers_total) (use ok pos bo h in auto)
  then obtain y t where y: "run_layers E pos h ?s1 = (Inr y, t)" "length y = ?H"
    "ho_sim t = tick (of_nat (if he_bypass E then 0 else nat (tx_n_layers ?tx) * layer_tiles ?D)) (ho_sim s)"
    "caches_written pos (nat (tx_n_layers ?tx)) ?tx (ho_tx t)"
    by (rule doesE) simp
  have tx: "ho_tx t = ?tx\<lparr>tx_kv_caches := tx_kv_caches (ho_tx t)\<rparr>" using y(4) by (simp add: caches_written_def)
  define cs where "cs = tx_kv_caches (ho_tx t)"
  have txe: "ho_tx t = ?tx\<lparr>tx_kv_caches := cs\<rparr>" unfolding cs_def by (rule tx)
  have same: "output_norm L (?tx\<lparr>tx_kv_caches := cs\<rparr>) v = output_norm L ?tx v" "lm_weights (?tx\<lparr>tx_kv_caches := cs\<rparr>) v = lm_weights ?tx v"
    "logits_of (?tx\<lparr>tx_kv_caches := cs\<rparr>) v W = logits_of ?tx v W" "logit_tiles (?tx\<lparr>tx_kv_caches := cs\<rparr>) = logit_tiles ?tx" for L v W
    by (simp_all add: output_norm_def lm_weights_def logits_of_def logit_tiles_def)
  obtain W where W: "lm_weights ?tx emb = Inr W" "nat (tx_vocab_size ?tx) * ?H \<le> length W"
    using voc h(3) by (auto simp: vocab_ok_def split: sum.splits)
  obtain yn where yn: "output_norm (he_lib E) ?tx y = Inr yn" "length yn = ?H"
    using output_norm_total [of y ?tx "he_lib E"] voc y(2) by (auto simp: vocab_ok_def)
  obtain z where z: "logits_of ?tx yn W = Inr z" "length z = nat (tx_vocab_size ?tx)"
    using logits_total [OF H V(2) yn(2) W(2)] by blast
  have "project_logits E y emb t = (Inr z, t\<lparr>ho_sim := tick (logit_tiles ?tx) (ho_sim t)\<rparr>)"
    unfolding project_logits_def Let_def txe same yn(1) W(1) sbind_lift
    using V z(1) by (simp add: sbind_def on_host_sim_def bump_tvmac_def modify_run lift_run tick_def new_vec_ok same)
  then have f: "forward_token E tid pos None s = (Inr z, t\<lparr>ho_sim := tick (logit_tiles ?tx) (ho_sim t)\<rparr>)"
    using e y(1) by (simp add: forward_token_def sbind_def)
  have "logit_tiles ?tx = of_nat (tiles ?H * nat (tx_vocab_size ?tx))" by (rule logit_tiles_eq [OF H V(1)])
  then show ?thesis using f z(2) y(3,4) by (simp add: does_def token_tiles_def)
qed

section \<open>The count covers the multiplications\<close>

lemma tiles_cover: "K \<le> 27 * tiles K" "27 * tiles K < K + 27"
  by (simp_all add: tiles_def)

text \<open>The multiplications of one pass of the floating-point model, over the natural numbers.\<close>

definition token_macs :: "transformer \<Rightarrow> nat" where
  "token_macs tx =
     (let H = nat (tx_hidden_size tx); F = nat (tx_intermediate_size tx); D = dims_of tx
      in nat (tx_n_layers tx) * (H * q_dim D + H * kv_width D + H * kv_width D + q_dim D * H + H * F + H * F + F * H)
         + H * nat (tx_vocab_size tx))"

lemma analytical_eq:
  assumes "0 \<le> tx_hidden_size tx" "0 \<le> tx_intermediate_size tx" "0 \<le> tx_n_heads tx" "0 \<le> tx_n_kv_heads tx"
    "0 \<le> tx_head_dim tx" "0 \<le> tx_n_layers tx" "0 \<le> tx_vocab_size tx"
  shows "analytical_fp16_macs (tx_hidden_size tx) (tx_intermediate_size tx) (tx_n_heads tx) (tx_n_kv_heads tx)
    (tx_head_dim tx) (tx_n_layers tx) (tx_vocab_size tx) = of_nat (token_macs tx)"
  using assms
  by (simp add: analytical_fp16_macs_def token_macs_def Let_def q_dim_def kv_width_def dims_of_def algebra_simps)

lemma token_macs_covered: "token_macs tx \<le> 27 * token_tiles False tx"
proof -
  let ?D = "dims_of tx"
  let ?H = "nat (tx_hidden_size tx)" and ?F = "nat (tx_intermediate_size tx)" and ?Q = "q_dim ?D" and ?V = "kv_width ?D"
  have t: "K * N \<le> 27 * (tiles K * N)" for K N
    using mult_le_mono1 [OF tiles_cover(1), of K N] by (simp add: ac_simps)
  have "?H * ?Q + ?H * ?V + ?H * ?V + ?Q * ?H + ?H * ?F + ?H * ?F + ?F * ?H \<le> 27 * layer_tiles ?D"
  proof -
    have "layer_tiles ?D = tiles ?H * ?Q + tiles ?H * ?V + tiles ?H * ?V + tiles ?Q * ?H + tiles ?H * ?F + tiles ?H * ?F + tiles ?F * ?H"
      by (simp add: layer_tiles_def Let_def) (simp add: dims_of_def)
    then show ?thesis using t [of ?H ?Q] t [of ?H ?V] t [of ?Q ?H] t [of ?H ?F] t [of ?F ?H] by linarith
  qed
  then have "nat (tx_n_layers tx) * (?H * ?Q + ?H * ?V + ?H * ?V + ?Q * ?H + ?H * ?F + ?H * ?F + ?F * ?H)
      \<le> nat (tx_n_layers tx) * (27 * layer_tiles ?D)" by (rule mult_le_mono2)
  then have "token_macs tx \<le> nat (tx_n_layers tx) * (27 * layer_tiles ?D) + 27 * (tiles ?H * nat (tx_vocab_size tx))"
    unfolding token_macs_def Let_def by (rule add_mono [OF _ t])
  also have "\<dots> = 27 * token_tiles False tx" by (simp add: token_tiles_def)
  finally show ?thesis .
qed

lemma stats_tick: "os_tvmac (op_stats_from (tick n s)) = os_tvmac (op_stats_from s) + n"
  by (simp add: op_stats_from_def tick_def get_count_bump_n Let_def)

end
