(* ===== verification/TerCausal.thy ===== *)
theory TerCausal
  imports TerLayer
begin

text \<open>
  Causality of the cached attention: the result of a layer at position \<open>pos\<close> and the new rows
  \<open>0 .. pos\<close> of its cache do not depend on the rows after \<open>pos\<close>. The proof relates two runs of
  the same computation; \<open>agrees R m\<close> says that \<open>m\<close> returns the same result from related states
  and relates the final states.
\<close>

section \<open>Two runs\<close>

definition agrees :: "('s \<Rightarrow> 's \<Rightarrow> bool) \<Rightarrow> ('s, 'a) sx \<Rightarrow> bool" where
  "agrees R m \<longleftrightarrow> (\<forall>s t. R s t \<longrightarrow> fst (m s) = fst (m t) \<and> R (snd (m s)) (snd (m t)))"

named_theorems agrees_intros \<open>rules for related runs\<close>

lemma agreesD: "agrees R m \<Longrightarrow> R s t \<Longrightarrow> m s = (r, s') \<Longrightarrow> \<exists>t'. m t = (r, t') \<and> R s' t'"
  by (metis agrees_def fst_conv snd_conv surj_pair)

lemma agreesI: "(\<And>s t. R s t \<Longrightarrow> fst (m s) = fst (m t) \<and> R (snd (m s)) (snd (m t))) \<Longrightarrow> agrees R m"
  by (simp add: agrees_def)

lemma agrees_ret [agrees_intros]: "agrees R (ret a)"
  and agrees_throw [agrees_intros]: "agrees R (throw e)"
  and agrees_lift [agrees_intros]: "agrees R (lift r)"
  by (simp_all add: agrees_def ret_def throw_def lift_def)

lemma agrees_sbind_dep:
  assumes "agrees R m" and "\<And>s a t. m s = (Inr a, t) \<Longrightarrow> agrees R (f a)"
  shows "agrees R (sbind m f)"
proof (rule agreesI)
  fix s t assume R: "R s t"
  obtain r s' where m: "m s = (r, s')" by (cases "m s")
  obtain t' where t': "m t = (r, t')" "R s' t'" using agreesD [OF assms(1) R m] by blast
  show "fst (sbind m f s) = fst (sbind m f t) \<and> R (snd (sbind m f s)) (snd (sbind m f t))"
  proof (cases r)
    case (Inr a)
    then show ?thesis using m t' assms(2) by (simp add: sbind_def agrees_def)
  qed (use m t' in \<open>simp add: sbind_def\<close>)
qed

lemma agrees_sbind [agrees_intros]: "agrees R m \<Longrightarrow> (\<And>a. agrees R (f a)) \<Longrightarrow> agrees R (sbind m f)"
  by (rule agrees_sbind_dep)

lemma agrees_lift_bind: "(\<And>a. r = Inr a \<Longrightarrow> agrees R (f a)) \<Longrightarrow> agrees R (sbind (lift r) f)"
  by (rule agrees_sbind_dep) (auto simp: lift_def intro: agrees_intros)

lemma agrees_sfor: "(\<And>x. x \<in> set xs \<Longrightarrow> agrees R (f x)) \<Longrightarrow> agrees R (sfor f xs)"
  by (induction xs) (auto intro: agrees_intros)

lemma agrees_sfold: "(\<And>a x. x \<in> set xs \<Longrightarrow> agrees R (f a x)) \<Longrightarrow> agrees R (sfold f a xs)"
  by (induction xs arbitrary: a) (auto intro: agrees_intros)

lemma agrees_smap [agrees_intros]: "(\<And>x. agrees R (f x)) \<Longrightarrow> agrees R (smap f xs)"
  by (induction xs) (auto intro: agrees_intros)

section \<open>Equal pasts\<close>

definition same_prefix :: "nat \<Rightarrow> 'a list \<Rightarrow> 'a list \<Rightarrow> bool" where
  "same_prefix n xs ys \<longleftrightarrow> length xs = length ys \<and> take n xs = take n ys"

definition same_past :: "nat \<Rightarrow> fwd \<Rightarrow> fwd \<Rightarrow> bool" where
  "same_past n s t \<longleftrightarrow>
     fw_sim s = fw_sim t \<and> fw_state s = fw_state t \<and>
     same_prefix n (kv_K (fw_cache s)) (kv_K (fw_cache t)) \<and> same_prefix n (kv_V (fw_cache s)) (kv_V (fw_cache t))"

lemma same_prefix_update: "same_prefix n xs ys \<Longrightarrow> same_prefix n (xs[i := x]) (ys[i := x])"
  by (simp add: same_prefix_def take_update_swap)

lemma same_prefix_read: "same_prefix n xs ys \<Longrightarrow> i < n \<Longrightarrow> read_at xs i = read_at ys i"
  by (simp add: same_prefix_def read_at_def) (metis nth_take)

lemma agrees_on_sim [agrees_intros]: "agrees (same_past n) (on_sim m)"
  by (rule agreesI) (auto simp: same_past_def on_sim_def split: prod.splits)

lemma agrees_norm [agrees_intros]: "agrees (same_past n) (norm_stage E D x w)"
  unfolding norm_stage_def by (auto intro: agrees_intros)

lemma agrees_project [agrees_intros]: "agrees (same_past n) (project E x K ws)"
  unfolding project_def by (auto intro!: agrees_intros split: prod.split)

lemma agrees_project1 [agrees_intros]: "agrees (same_past n) (project1 E x K W N)"
  unfolding project1_def by (intro agrees_intros)

lemma agrees_value_residual [agrees_intros]: "agrees (same_past n) (value_residual idx kvd v)"
  by (rule agreesI) (auto simp: same_past_def value_residual_def split: option.splits)

lemma agrees_dwa [agrees_intros]: "agrees (same_past n) (dwa_stage idx H x)"
  by (rule agreesI) (auto simp: same_past_def dwa_stage_def split: option.splits sum.splits)

lemma agrees_rope_heads [agrees_intros]: "agrees (same_past n) (rope_heads E D pos m q)"
  unfolding rope_heads_def rope_one_def Let_def
  by (rule agrees_sfold) (auto intro!: agrees_intros)

lemma agrees_sub_norm [agrees_intros]: "agrees (same_past n) (sub_norm E D x w)"
  unfolding sub_norm_def by (auto intro: agrees_intros)

lemma agrees_ffn_act [agrees_intros]: "agrees (same_past n) (ffn_act E D g u)"
  unfolding ffn_act_def by (auto intro: agrees_intros)

lemma agrees_softmax [agrees_intros]: "agrees (same_past n) (softmax_stage E sc)"
  unfolding softmax_stage_def by (auto intro: agrees_intros)

lemma same_prefix_length: "same_prefix n xs ys \<Longrightarrow> length xs = length ys"
  by (simp add: same_prefix_def)

lemma agrees_put_K [agrees_intros]: "agrees (same_past n) (put_K a x)"
  by (rule agreesI) (auto simp: same_past_def put_K_def write_at_def same_prefix_update dest: same_prefix_length)

lemma agrees_put_V [agrees_intros]: "agrees (same_past n) (put_V a x)"
  by (rule agreesI) (auto simp: same_past_def put_V_def write_at_def same_prefix_update dest: same_prefix_length)

lemma agrees_put_kv [agrees_intros]: "agrees (same_past n) (put_kv pos kvd k v)"
  unfolding put_kv_def by (rule agrees_sfor) (intro agrees_intros)

section \<open>Attention reads the past only\<close>

lemma past_cell:
  assumes D: "heads_ok D" and t: "t < m" "m < 2 ^ 31" and g: "g < nat (dm_kv_heads D)" and d: "d < nat (dm_head_dim D)"
  shows "u64 (head_row (int (kv_width D)) (nat (dm_head_dim D)) g t + d) < m * kv_width D"
proof -
  have "t < 2 ^ 31" using t by simp
  note e = head_row_eq [OF D this g d]
  show ?thesis unfolding e(1) by (rule entry_in [OF t(1) e(2)])
qed

lemma scores_past:
  assumes D: "heads_ok D" and m: "m < 2 ^ 31" and g: "g < nat (dm_kv_heads D)" and K: "same_prefix (m * kv_width D) K K'"
  shows "attn_scores q K (int (kv_width D)) (nat (dm_head_dim D)) g m scale
    = attn_scores q K' (int (kv_width D)) (nat (dm_head_dim D)) g m scale"
proof -
  have "dot_f64 q K (head_row (int (kv_width D)) (nat (dm_head_dim D)) g t) (nat (dm_head_dim D))
      = dot_f64 q K' (head_row (int (kv_width D)) (nat (dm_head_dim D)) g t) (nat (dm_head_dim D))" if "t < m" for t
    unfolding dot_f64_def
    by (rule rfold_cong) (use same_prefix_read [OF K past_cell [OF D that m g]] in simp)
  then show ?thesis unfolding attn_scores_def by (intro rmap_cong) simp
qed

lemma mix_past:
  assumes D: "heads_ok D" and m: "m < 2 ^ 31" and g: "g < nat (dm_kv_heads D)" and V: "same_prefix (m * kv_width D) V V'"
  shows "attn_mix ws V (int (kv_width D)) (nat (dm_head_dim D)) g m = attn_mix ws V' (int (kv_width D)) (nat (dm_head_dim D)) g m"
proof -
  have "rmap (\<lambda>d. rbind (read_at V (u64 (head_row (int (kv_width D)) (nat (dm_head_dim D)) g t + d))) (\<lambda>x.
          Inr (fadd F32 (out ! d) (fmul F32 w x)))) [0..<nat (dm_head_dim D)]
      = rmap (\<lambda>d. rbind (read_at V' (u64 (head_row (int (kv_width D)) (nat (dm_head_dim D)) g t + d))) (\<lambda>x.
          Inr (fadd F32 (out ! d) (fmul F32 w x)))) [0..<nat (dm_head_dim D)]" if "t < m" for t out w
    by (rule rmap_cong) (use same_prefix_read [OF V past_cell [OF D that m g]] in simp)
  then show ?thesis unfolding attn_mix_def by (intro rfold_cong) simp
qed

lemma agrees_attend_head:
  assumes D: "heads_ok D" and pos: "0 \<le> pos" "pos < 2 ^ 31 - 1" and h: "h < nat (dm_heads D)"
  shows "agrees (same_past (Suc (nat pos) * kv_width D))
    (attend_head E (int (kv_width D)) (nat (dm_head_dim D)) (dm_heads D div dm_kv_heads D) (pos + 1) scale q (int h))"
proof -
  obtain g where g: "div_i32 (int h) (dm_heads D div dm_kv_heads D) = Inr (int g)" "g < nat (dm_kv_heads D)"
    using group_head [OF D h] by auto
  have n: "nat (pos + 1) = Suc (nat pos)" "Suc (nat pos) < 2 ^ 31" using pos by auto
  let ?R = "same_past (Suc (nat pos) * kv_width D)"
  have sc: "agrees ?R (\<lambda>s. (attn_scores qh (kv_K (fw_cache s)) (int (kv_width D)) (nat (dm_head_dim D)) g (Suc (nat pos)) scale, s))" for qh
    by (rule agreesI) (use scores_past [OF D n(2) g(2)] in \<open>auto simp: same_past_def\<close>)
  have mx: "agrees ?R (\<lambda>s. (attn_mix ws (kv_V (fw_cache s)) (int (kv_width D)) (nat (dm_head_dim D)) g (Suc (nat pos)), s))" for ws
    by (rule agreesI) (use mix_past [OF D n(2) g(2)] in \<open>auto simp: same_past_def\<close>)
  show ?thesis
    unfolding attend_head_def g(1) sbind_lift n(1) nat_int
    by (intro agrees_sbind sc agrees_softmax mx)
qed

lemma agrees_attention:
  assumes D: "heads_ok D" and pos: "0 \<le> pos" "pos < 2 ^ 31 - 1"
  shows "agrees (same_past (Suc (nat pos) * kv_width D)) (attention E D pos qd (int (kv_width D)) q)"
proof -
  have a: "add_i32 pos 1 = Inr (pos + 1)" using pos by (simp add: add_i32_def in_i32_def)
  show ?thesis
    unfolding attention_def heads_facts(5) [OF D] sbind_lift Let_def a
    by (intro agrees_sbind agrees_lift agrees_sfold agrees_attend_head [OF D pos] agrees_ret) simp
qed

lemma agrees_forward_layer:
  assumes D: "heads_ok D" and pos: "0 \<le> pos" "pos < 2 ^ 31 - 1"
  shows "agrees (same_past (Suc (nat pos) * kv_width D)) (forward_layer E D W pos idx x)"
  unfolding forward_layer_def attn_block_def ffn_block_def heads_facts(1,2) [OF D] sbind_lift
  by (intro agrees_sbind agrees_intros agrees_attention [OF D pos])

end
