(* ===== verification/TerHostProps.thy ===== *)
theory TerHostProps
  imports TerToken TerCausal
begin

text \<open>
  The properties of the number formats and of the transformer host code, each with a concrete
  instance.
\<close>

section \<open>Number formats\<close>

text \<open>
  C36: Quantisation to at most 20 trits stores every element as the rounded quotient clamped to the range of the trits, so each integer lies in [-max_trit_int, max_trit_int] and the narrowing to int32_t loses nothing; beyond the element count nothing is read.
\<close>

theorem quantize_contract:
  assumes "1 \<le> n" and "n \<le> 20" and "shape_elems shape \<le> length data"
  shows "\<exists>t. quantize L data shape n = Inr t \<and> length (tt_payload t) = shape_elems shape \<and>
    (\<forall>i < shape_elems shape. \<bar>tt_payload t ! i\<bar> \<le> max_trit_int n \<and>
      (\<not> flt_eq (max_abs_of (take (shape_elems shape) data)) fzero \<longrightarrow>
        tt_payload t ! i = clamp (- max_trit_int n) (max_trit_int n) (lround L (fdiv F32 (data ! i) (tt_scale t)))))"
proof -
  let ?m = "max_trit_int n" and ?xs = "take (shape_elems shape) data"
  have "?m \<le> max_trit_int 20" by (rule max_trit_int_mono) (use assms in auto)
  then have m: "0 \<le> ?m" "?m < 2 ^ 31" using max_trit_int_pos [OF assms(1)] max_trit_int_20 by auto
  obtain t where t: "quantize L data shape n = Inr t"
    using quantize_ok [of n shape data L] assms by auto
  have q: "(tt_scale t, tt_payload t) = quant_block L ?m ?xs" using quantize_block [OF t] by blast
  have range: "\<bar>quant_int L ?m s x\<bar> \<le> ?m" "quant_int L ?m s x = clamp (- ?m) ?m (lround L (fdiv F32 x s))" for s x
    using quant_int_range [OF m, of L s x] by blast+
  have "length (tt_payload t) = shape_elems shape"
    using arg_cong [OF q, of "\<lambda>p. length (snd p)"] assms(3) by (simp add: quant_block_length)
  moreover have "\<bar>tt_payload t ! i\<bar> \<le> ?m \<and> (\<not> flt_eq (max_abs_of ?xs) fzero \<longrightarrow>
      tt_payload t ! i = clamp (- ?m) ?m (lround L (fdiv F32 (data ! i) (tt_scale t))))" if "i < shape_elems shape" for i
    using q that assms(3) m(1) range by (auto simp: quant_block_def Let_def split: if_splits)
  ultimately show ?thesis using t by blast
qed

theorem quantize_contract_witness:
  "\<exists>t. quantize plain_libm [fone, Num True (1 / 2)] [2] 9 = Inr t \<and> length (tt_payload t) = 2"
proof -
  have s: "shape_elems [2] = 2" by (simp add: shape_elems_def to_size_id)
  show ?thesis
    using quantize_contract [of 9 "[2]" "[fone, Num True (1 / 2)]" plain_libm] by (auto simp: s)
qed

text \<open>
  C26: Blocked quantisation is plain quantisation block by block: block b of the payload and its scale are those of quantising block b of the data as a tensor of its own, and dequantising commutes with taking the block.
\<close>

theorem quantize_blocked_is_blockwise:
  assumes "quantize_blocked L data shape n bsz = Inr t" and "shape_elems shape + nat bsz \<le> 2 ^ 64"
    and "in_i32 bsz" and "b * nat bsz < shape_elems shape"
  shows "\<exists>tb out outb. quantize L (block (nat bsz) (take (shape_elems shape) data) b)
        [int (length (block (nat bsz) (take (shape_elems shape) data) b))] n = Inr tb
    \<and> tt_scale tb = tt_block_scales t ! b \<and> tt_payload tb = block (nat bsz) (tt_payload t) b
    \<and> dequantize t = Inr out \<and> dequantize tb = Inr outb \<and> outb = block (nat bsz) out b"
  using assms by (rule quantize_blocked_blockwise)

theorem quantize_blocked_is_blockwise_witness:
  "\<exists>t tb out. quantize_blocked plain_libm (replicate 5 fzero) [5] 9 2 = Inr t \<and> dequantize t = Inr out \<and>
     dequantize tb = Inr (block 2 out 2) \<and> tt_payload tb = block 2 (tt_payload t) 2"
proof -
  have s: "shape_elems [5] = 5" by (simp add: shape_elems_def to_size_id)
  then obtain t where t: "quantize_blocked plain_libm (replicate 5 fzero) [5] 9 2 = Inr t"
    by (auto simp: quantize_blocked_def buffer_def Let_def)
  have "\<exists>tb out outb. quantize plain_libm (block (nat 2) (take (shape_elems [5]) (replicate 5 fzero)) 2)
        [int (length (block (nat 2) (take (shape_elems [5]) (replicate 5 fzero)) 2))] 9 = Inr tb
    \<and> tt_scale tb = tt_block_scales t ! 2 \<and> tt_payload tb = block (nat 2) (tt_payload t) 2
    \<and> dequantize t = Inr out \<and> dequantize tb = Inr outb \<and> outb = block (nat 2) out 2"
    by (rule quantize_blocked_is_blockwise [OF t]) (simp_all add: s in_i32_def)
  then show ?thesis using t by (elim exE conjE) (intro exI conjI, simp_all)
qed

text \<open>
  Format A encoding keeps its fields in range for every input and every mantissa width: no sign bit, an exponent in [-121, 121] and a mantissa in [-9841, 9841]; with nine mantissa trits it is the standard encoding.
\<close>

theorem tfloat_in_range:
  assumes "from_float_trits L x n = Inr t"
  shows "tf_sign t = 0 \<and> \<bar>tf_exp t\<bar> \<le> 121 \<and> \<bar>tf_mantissa t\<bar> \<le> 9841 \<and> (n = 9 \<longrightarrow> from_float L x = Inr t)"
  using from_float_range [OF assms] assms from_float_trits_9 [of L x] by auto

theorem tfloat_in_range_witness:
  "\<exists>t. from_float_trits plain_libm NaN 9 = Inr t \<and> \<bar>tf_mantissa t\<bar> \<le> 9841"
proof -
  have t: "from_float_trits plain_libm NaN 9 = Inr tf_zero" by (simp add: from_float_trits_def)
  show ?thesis using tfloat_in_range [OF t] t by auto
qed

text \<open>
  The operation count of a BitNet matrix issues no multiply-accumulate, one addition per positive weight, one subtraction per negative weight and a skip per zero, and the three together are the number of weights.
\<close>

theorem bitnet_no_multiplications:
  assumes "K * N < 2 ^ 64" and "length W = K * N"
  shows "\<exists>c. bitnet_matmul_ops W K N = Inr c \<and> bo_tvmac c = 0 \<and>
    bo_tvadd c = of_nat (length (filter (\<lambda>w. w > 0) W)) \<and> bo_tvsub c = of_nat (length (filter (\<lambda>w. w < 0) W)) \<and>
    bo_tvadd c + bo_tvsub c + bo_skips c = of_nat (K * N)"
  using bitnet_count_sum [of no_bitnet_ops W] assms
  by (auto simp: bitnet_matmul_ops_def no_bitnet_ops_def)

theorem bitnet_no_multiplications_witness:
  "\<exists>c. bitnet_matmul_ops [1, 0, - 1, 1] 2 2 = Inr c \<and> bo_tvadd c = 2 \<and> bo_tvsub c = 1"
  using bitnet_no_multiplications [of 2 2 "[1, 0, - 1, 1]"] by auto

section \<open>Matrix product\<close>



section \<open>Forward pass\<close>

text \<open>
  C14: Causality of the key-value cache. Two runs of a layer at position pos from states that agree on the simulator, the per-token state and the cache rows 0 .. pos return the same result and again agree on these, whatever the later rows hold, for grouped heads that divide evenly.
\<close>

theorem forward_layer_causal:
  assumes "heads_ok D" and "0 \<le> pos" "pos < 2 ^ 31 - 1"
    and "same_past (Suc (nat pos) * kv_width D) s t"
  shows "fst (forward_layer E D W pos idx x s) = fst (forward_layer E D W pos idx x t) \<and>
    same_past (Suc (nat pos) * kv_width D) (snd (forward_layer E D W pos idx x s)) (snd (forward_layer E D W pos idx x t))"
  using agrees_forward_layer [OF assms(1-3), of E W idx x] assms(4) by (simp add: agrees_def)

text \<open>A small configuration for the instances: one layer of zero weights, 28 dimensions.\<close>

definition zero_matrix :: trit_tensor where
  "zero_matrix = mk_tensor\<lparr>tt_shape := [28, 28], tt_payload := replicate 784 0\<rparr>"

definition zero_layer :: layer_weights where
  "zero_layer = \<lparr>lw_q = zero_matrix, lw_k = zero_matrix, lw_v = zero_matrix, lw_o = zero_matrix, lw_gate = zero_matrix,
     lw_up = zero_matrix, lw_down = zero_matrix, lw_attn_norm = replicate 28 fone, lw_ffn_norm = replicate 28 fone,
     lw_attn_sub_norm = [], lw_ffn_sub_norm = []\<rparr>"

definition zero_cache :: "nat \<Rightarrow> flt \<Rightarrow> kv_cache" where
  "zero_cache n x = \<lparr>kv_max_seq = 29, kv_n_heads = 1, kv_head_dim = 28, kv_K = replicate 784 fzero @ replicate n x,
     kv_V = replicate 784 fzero @ replicate n x\<rparr>"

definition small_transformer :: transformer where
  "small_transformer = mk_transformer\<lparr>tx_blocks := [zero_layer], tx_kv_caches := [zero_cache 28 fone],
     tx_token_embd := mk_tensor\<lparr>tt_shape := [1, 28], tt_payload := replicate 28 0\<rparr>, tx_output_norm := replicate 28 fone,
     tx_vocab_size := 1, tx_hidden_size := 28, tx_head_dim := 28, tx_n_heads := 1, tx_n_kv_heads := 1,
     tx_intermediate_size := 28, tx_n_layers := 1, tx_layer_map := [0]\<rparr>"

definition small_env :: host_env where
  "small_env = \<lparr>he_lib = plain_libm, he_bypass = False, he_kt = mk_kernel_table,
     he_luts = \<lparr>la_rsqrt = 5000, la_exp = 5600, la_rcp = 5900, la_sigmoid = 5300\<rparr>\<rparr>"

definition small_host :: host where
  "small_host = \<lparr>ho_sim = mk_sim 0, ho_tx = small_transformer, ho_state = None\<rparr>"

definition small_fwd :: "flt \<Rightarrow> fwd" where
  "small_fwd x = \<lparr>fw_sim = mk_sim 0, fw_cache = zero_cache 28 x, fw_state = None\<rparr>"

theorem forward_layer_causal_witness:
  "fst (forward_layer small_env (dims_of small_transformer) zero_layer 27 0 [] (small_fwd fone))
     = fst (forward_layer small_env (dims_of small_transformer) zero_layer 27 0 [] (small_fwd NaN))"
proof -
  have "heads_ok (dims_of small_transformer)" "kv_width (dims_of small_transformer) = 28"
    by (simp_all add: heads_ok_def dims_of_def small_transformer_def kv_width_def)
  moreover have "same_past (Suc (nat 27) * 28) (small_fwd fone) (small_fwd NaN)"
    by (simp add: same_past_def same_prefix_def small_fwd_def zero_cache_def)
  ultimately show ?thesis
    using forward_layer_causal [of "dims_of small_transformer" 27 "small_fwd fone" "small_fwd NaN" small_env zero_layer 0 "[]"]
    by simp
qed

text \<open>
  C13: A forward pass on the host path always returns: on a transformer, caches and state of the sizes its configuration names, forward_token at a position of at least 27 performs no out-of-range access, no division by zero and no signed overflow, returns one logit per vocabulary entry, writes only row pos of each layer's cache, and changes nothing in the simulator but the TVMAC counter.
\<close>

theorem forward_token_total:
  assumes "transformer_ok (he_bypass E) pos (ho_tx s)" and "vocab_ok (ho_tx s)"
    and "fresh_state_ok (nat (tx_n_layers (ho_tx s))) (dims_of (ho_tx s)) (ho_state s)"
    and "27 \<le> pos" "pos < 2 ^ 31 - 1" and "0 \<le> token" "token < tx_vocab_size (ho_tx s)"
  shows "\<exists>logits t. forward_token E token pos None s = (Inr logits, t) \<and>
    length logits = nat (tx_vocab_size (ho_tx s)) \<and>
    ho_sim t = (ho_sim s)\<lparr>sim_counters := bump_n TVMAC (of_nat (token_tiles (he_bypass E) (ho_tx s))) (sim_counters (ho_sim s))\<rparr> \<and>
    caches_written pos (nat (tx_n_layers (ho_tx s))) (ho_tx s) (ho_tx t)"
  using token_total [OF assms] by (simp add: does_def tick_def)

lemma small_embd: "dequantize (tx_token_embd small_transformer) = Inr (map (\<lambda>q. fmul F32 (of_int_flt F32 q) fzero) (replicate 28 0))"
proof -
  have "shape_elems [1, 28] = 28" by (simp add: shape_elems_def to_size_id)
  then show ?thesis
    by (subst dequantize_plain) (simp_all add: small_transformer_def mk_transformer_def mk_tensor_def num_elems_def)
qed

lemma small_ok:
  "transformer_ok False 27 small_transformer" "vocab_ok small_transformer" "tx_n_layers small_transformer = 1"
  "tx_vocab_size small_transformer = 1"
proof -
  have w: "q_dim (dims_of small_transformer) = 28" "kv_width (dims_of small_transformer) = 28"
    by (simp_all add: dims_of_def small_transformer_def kv_width_def q_dim_def)
  show "transformer_ok False 27 small_transformer"
    unfolding transformer_ok_def
    by (simp add: w weights_ok_def cache_ok_def)
      (simp add: dims_ok_def heads_ok_def dims_of_def small_transformer_def zero_layer_def zero_cache_def mat_ok_def zero_matrix_def mk_tensor_def)
  have "lm_weights small_transformer emb = Inr emb" for emb
    by (simp add: lm_weights_def small_transformer_def mk_transformer_def mk_tensor_def)
  then show "vocab_ok small_transformer"
    unfolding vocab_ok_def small_embd by (simp add: small_transformer_def)
qed (simp_all add: small_transformer_def)

theorem forward_token_total_witness:
  "\<exists>logits t. forward_token small_env 0 27 None small_host = (Inr logits, t) \<and> length logits = 1 \<and>
     sim_mem (ho_sim t) = mk_memory 0"
  using forward_token_total [of small_env 27 small_host 0] small_ok
  by (auto simp: small_env_def small_host_def fresh_state_ok_def mk_sim_def)

text \<open>
  The analytic counters are honest: from a fresh counter, the lane multiplications reported after a quantised forward pass (27 per counted TVMAC) are at least the multiplications of the equivalent floating-point model as op_stats.hpp counts them.
\<close>

theorem lane_macs_cover_fp16:
  assumes "transformer_ok False pos (ho_tx s)" and "vocab_ok (ho_tx s)"
    and "fresh_state_ok (nat (tx_n_layers (ho_tx s))) (dims_of (ho_tx s)) (ho_state s)"
    and "27 \<le> pos" "pos < 2 ^ 31 - 1" and "0 \<le> token" "token < tx_vocab_size (ho_tx s)"
    and "\<not> he_bypass E" and "os_tvmac (op_stats_from (ho_sim s)) = 0" and "27 * token_tiles False (ho_tx s) < 2 ^ 64"
  shows "\<exists>logits t. forward_token E token pos None s = (Inr logits, t) \<and>
    analytical_fp16_macs (tx_hidden_size (ho_tx s)) (tx_intermediate_size (ho_tx s)) (tx_n_heads (ho_tx s)) (tx_n_kv_heads (ho_tx s))
      (tx_head_dim (ho_tx s)) (tx_n_layers (ho_tx s)) (tx_vocab_size (ho_tx s)) \<le> lane_macs (op_stats_from (ho_sim t))"
proof -
  let ?tx = "ho_tx s"
  have D: "dims_ok (dims_of ?tx)" "0 \<le> tx_n_layers ?tx" using assms(1) by (auto simp: transformer_ok_def)
  have nn: "0 \<le> tx_hidden_size ?tx" "0 \<le> tx_intermediate_size ?tx" "0 \<le> tx_n_heads ?tx" "0 \<le> tx_n_kv_heads ?tx"
    "0 \<le> tx_head_dim ?tx" "0 \<le> tx_n_layers ?tx" "0 \<le> tx_vocab_size ?tx"
    using D assms(2) by (auto simp: dims_ok_def heads_ok_def dims_of_def vocab_ok_def)
  obtain logits t where t: "forward_token E token pos None s = (Inr logits, t)"
    "ho_sim t = tick (of_nat (token_tiles False ?tx)) (ho_sim s)"
    using token_total [of E pos s token] assms by (auto simp: does_def)
  have lane: "lane_macs (op_stats_from (ho_sim t)) = of_nat (27 * token_tiles False ?tx)"
    unfolding t(2) lane_macs_def stats_tick assms(9) by simp
  have lt: "token_macs ?tx < 2 ^ 64" using token_macs_covered [of ?tx] assms(10) by linarith
  have "(of_nat (token_macs ?tx) :: 64 word) \<le> of_nat (27 * token_tiles False ?tx)"
    using token_macs_covered [of ?tx] assms(10) lt
    by (simp add: word_le_nat_alt unat_of_nat take_bit_nat_eq_self del: of_nat_mult)
  then have "analytical_fp16_macs (tx_hidden_size ?tx) (tx_intermediate_size ?tx) (tx_n_heads ?tx) (tx_n_kv_heads ?tx)
      (tx_head_dim ?tx) (tx_n_layers ?tx) (tx_vocab_size ?tx) \<le> lane_macs (op_stats_from (ho_sim t))"
    unfolding lane analytical_eq [OF nn] .
  then show ?thesis using t(1) by blast
qed

theorem lane_macs_cover_fp16_witness:
  "\<exists>logits t. forward_token small_env 0 27 None small_host = (Inr logits, t) \<and>
    analytical_fp16_macs 28 28 1 1 28 1 1 \<le> lane_macs (op_stats_from (ho_sim t))"
proof -
  have w: "q_dim (dims_of small_transformer) = 28" "kv_width (dims_of small_transformer) = 28"
    by (simp_all add: dims_of_def small_transformer_def kv_width_def q_dim_def)
  have tl: "token_tiles False small_transformer < 1000"
    unfolding token_tiles_def layer_tiles_def w Let_def by (simp add: tiles_def dims_of_def small_transformer_def)
  have f: "tx_hidden_size small_transformer = 28" "tx_intermediate_size small_transformer = 28" "tx_n_heads small_transformer = 1"
    "tx_n_kv_heads small_transformer = 1" "tx_head_dim small_transformer = 28"
    by (simp_all add: small_transformer_def)
  show ?thesis
    using lane_macs_cover_fp16 [of 27 small_host 0 small_env] small_ok tl
    by (auto simp: small_env_def small_host_def fresh_state_ok_def mk_sim_def op_stats_from_def get_count_def counters_init_def f)
qed

text \<open>
  The argument errors of forward_token leave everything as it was: a token outside the vocabulary and an override of the wrong length each raise their exception before the simulator, a cache or the per-token state is touched.
\<close>

theorem forward_token_rejects:
  assumes "0 \<le> tx_hidden_size (ho_tx s)" and "tx_hidden_size (ho_tx s) < 2 ^ 31"
  shows "(token < 0 \<or> tx_vocab_size (ho_tx s) \<le> token \<longrightarrow>
      forward_token E token pos None s = (Inl (RuntimeError ''forward_token: token_id out of range''), s)) \<and>
    (to_i32 (int (length h)) \<noteq> tx_hidden_size (ho_tx s) \<longrightarrow>
      forward_token E token pos (Some h) s = (Inl (RuntimeError ''forward_token: hidden_override size != hidden_size''), s))"
  using assms
  by (auto simp: forward_token_def enter_token_def start_hidden_def embed_token_def sbind_def new_vec_ok)

theorem forward_token_rejects_witness:
  "forward_token small_env 5 0 None small_host = (Inl (RuntimeError ''forward_token: token_id out of range''), small_host)"
  using forward_token_rejects [of small_host 5 small_env 0 "[]"] by (simp add: small_host_def small_transformer_def)

end
