(* ===== verification/TerText.thy ===== *)
theory TerText
  imports TerAsm
begin

text \<open>
  Numbers and lists as text: \<open>std::to_string\<close> and the stream output of integers, \<open>std::atoi\<close>, and
  the splitting of a comma-separated list; with the lemmas that reading undoes printing.
\<close>

section \<open>Printing and reading integers\<close>

definition digit_char :: "nat \<Rightarrow> char" where
  "digit_char d = digits_chars ! d"

fun dec_string :: "nat \<Rightarrow> string" where
  "dec_string n = (if n < 10 then [digit_char n] else dec_string (n div 10) @ [digit_char (n mod 10)])"

declare dec_string.simps [simp del]

definition show_int :: "int \<Rightarrow> string" where
  "show_int k = (if k < 0 then ''-'' @ dec_string (nat (- k)) else dec_string (nat k))"

definition show_u64 :: "64 word \<Rightarrow> string" where
  "show_u64 w = dec_string (unat w)"

text \<open>
  \<open>std::atoi\<close>: leading white space is skipped, text without a number reads as 0, and a value outside
  \<open>int\<close> is undefined behaviour.
\<close>

definition atoi :: "string \<Rightarrow> int res" where
  "atoi s =
     (case stoi (dropWhile isspace s) of
        Inr v \<Rightarrow> Inr v
      | Inl (InvalidArgument _) \<Rightarrow> Inr 0
      | Inl _ \<Rightarrow> Inl (SignedOverflow ''atoi''))"

section \<open>Separated lists\<close>

fun split_on :: "char \<Rightarrow> string \<Rightarrow> string list" where
  "split_on c [] = [[]]"
| "split_on c (x # xs) = (if x = c then [] # split_on c xs
     else case split_on c xs of [] \<Rightarrow> [[x]] | w # ws \<Rightarrow> (x # w) # ws)"

fun join_with :: "string \<Rightarrow> string list \<Rightarrow> string" where
  "join_with sep [] = []"
| "join_with sep [w] = w"
| "join_with sep (w # v # ws) = w @ sep @ join_with sep (v # ws)"

lemma split_on_nonempty: "split_on c s \<noteq> []"
  by (cases s) (auto split: list.split)

lemma split_on_word: "c \<notin> set w \<Longrightarrow> split_on c w = [w]"
  by (induction w) auto

lemma split_on_append: "c \<notin> set w \<Longrightarrow> split_on c (w @ c # s) = w # split_on c s"
  by (induction w) auto

lemma split_on_join: "ws \<noteq> [] \<Longrightarrow> (\<And>w. w \<in> set ws \<Longrightarrow> c \<notin> set w) \<Longrightarrow> split_on c (join_with [c] ws) = ws"
  by (induction "[c]" ws rule: join_with.induct) (auto simp: split_on_word split_on_append)

lemma length_split_on: "length (split_on c s) = Suc (count_list s c)"
proof (induction s)
  case (Cons x s)
  then show ?case using split_on_nonempty [of c s] by (auto split: list.split)
qed simp

section \<open>Reading undoes printing\<close>

lemma dec_string_digits: "set (dec_string n) \<subseteq> set digits_chars" "dec_string n \<noteq> []"
proof -
  have d: "digit_char d \<in> set digits_chars" if "d < 10" for d
    unfolding digit_char_def by (rule nth_mem) (use that in \<open>simp add: digits_chars_def\<close>)
  show "set (dec_string n) \<subseteq> set digits_chars"
    by (induction n rule: dec_string.induct) (subst dec_string.simps, use d in auto)
  show "dec_string n \<noteq> []" by (subst dec_string.simps) simp
qed

lemma digit_val_char: "d < 10 \<Longrightarrow> digit_val (digit_char d) = d"
proof -
  assume "d < 10"
  then have "d \<in> {0, 1, 2, 3, 4, 5, 6, 7, 8, 9}" by auto
  then show ?thesis by (elim insertE) (simp_all add: digit_val_def digit_char_def digits_chars_def)
qed

lemma value_dec_string: "foldl (\<lambda>v c. v * 10 + int (digit_val c)) 0 (dec_string n) = int n"
proof (induction n rule: dec_string.induct)
  case (1 n)
  have "int (n div 10) * 10 + int (n mod 10) = int n" using div_mult_mod_eq [of n 10] by linarith
  then show ?case using 1 by (subst dec_string.simps) (auto simp: digit_val_char)
qed

lemma digits_not: "CHR ''-'' \<notin> set digits_chars" "CHR ''+'' \<notin> set digits_chars" "CHR '','' \<notin> set digits_chars"
  "x \<in> set digits_chars \<Longrightarrow> \<not> isspace x"
  by (auto simp: digits_chars_def isspace_def)

lemma takeWhile_digits: "takeWhile isdigit (dec_string n) = dec_string n"
  unfolding takeWhile_eq_all_conv isdigit_def using dec_string_digits(1) by blast

lemma atoi_show_int: "in_i32 k \<Longrightarrow> atoi (show_int k) = Inr k"
proof -
  assume k: "in_i32 k"
  show ?thesis
  proof (cases "k < 0")
    case True
    have "dropWhile isspace (''-'' @ dec_string (nat (- k))) = ''-'' @ dec_string (nat (- k))"
      by (simp add: isspace_def)
    then show ?thesis
      using True k by (simp add: atoi_def stoi_def show_int_def takeWhile_digits dec_string_digits(2) value_dec_string Let_def)
  next
    case False
    obtain c cs where c: "dec_string (nat k) = c # cs" using dec_string_digits(2) [of "nat k"] by (cases "dec_string (nat k)") auto
    then have d: "c \<in> set digits_chars" using dec_string_digits(1) [of "nat k"] by simp
    then have "dropWhile isspace (dec_string (nat k)) = dec_string (nat k)" "c \<noteq> CHR ''-''" "c \<noteq> CHR ''+''"
      using digits_not c by auto
    then show ?thesis
      using False k takeWhile_digits [of "nat k"] value_dec_string [of "nat k"]
      by (simp add: atoi_def stoi_def show_int_def c Let_def)
  qed
qed

lemma comma_show_int: "CHR '','' \<notin> set (show_int k)" "show_int k \<noteq> []"
  using dec_string_digits [of "nat (- k)"] dec_string_digits [of "nat k"] digits_not(3) by (auto simp: show_int_def)

end
