(* ===== verification/TerRound.thy ===== *)
theory TerRound
  imports TerFloat
begin

text \<open>
  Facts about the rounding of \<open>TerFloat\<close>: the exponent is the binary exponent, rounding keeps the
  bounds that are powers of two, and it is off by at most half a unit in the last place.
\<close>

section \<open>Powers of two\<close>

lemma pow2_powi: "pow2 k = 2 powi k"
  unfolding pow2_def power_int_def by (simp add: power_one_over)

lemma pow2_add: "pow2 (a + b) = pow2 a * pow2 b"
  by (simp add: pow2_powi power_int_add)

lemma pow2_pos [simp]: "0 < pow2 k"
  by (simp add: pow2_def)

lemma pow2_nonneg [simp]: "0 \<le> pow2 k"
  by (simp add: pow2_def)

lemma pow2_mono: "a \<le> b \<Longrightarrow> pow2 a \<le> pow2 b"
  by (simp add: pow2_powi power_int_increasing)

lemma pow2_less: "pow2 a < pow2 b \<longleftrightarrow> a < b"
  using pow2_mono [of b a] power_int_strict_increasing [of a b "2 :: rat"] by (force simp: pow2_powi not_le)

lemma pow2_nat: "0 \<le> k \<Longrightarrow> pow2 k = of_nat (2 ^ nat k)"
  by (simp add: pow2_def)

lemma pow2_diff: "pow2 (a - b) = pow2 a / pow2 b"
  by (simp add: pow2_powi power_int_diff)

section \<open>The exponent\<close>

lemma exponent_bounds:
  assumes "0 < x"
  shows "pow2 (exponent x) \<le> x \<and> x < pow2 (exponent x + 1)"
proof -
  obtain a b where ab: "quotient_of x = (a, b)" by (cases "quotient_of x")
  have b: "0 < b" using ab quotient_of_denom_pos' [of x] by simp
  have x: "x = of_int a / of_int b" by (rule quotient_of_div [OF ab])
  then have a: "0 < a" using assms b by (simp add: zero_less_divide_iff)
  let ?f = "\<lambda>c. int (floorlog 2 (nat c))"
  have lb: "pow2 (?f c - 1) \<le> of_int c" "of_int c < pow2 (?f c)" if "0 < c" for c
  proof -
    have "2 ^ (floorlog 2 (nat c) - 1) \<le> nat c \<and> nat c < 2 ^ floorlog 2 (nat c)" "0 < floorlog 2 (nat c)"
      using floorlog_bounds [of "nat c" 2] that by (auto simp: floorlog_def)
    moreover have "(of_int c :: rat) = of_nat (nat c)" using that by simp
    moreover have "pow2 (?f c - 1) = of_nat (2 ^ (floorlog 2 (nat c) - 1))"
      using calculation(2) by (subst pow2_nat) (auto simp: nat_diff_distrib)
    moreover have "pow2 (?f c) = of_nat (2 ^ floorlog 2 (nat c))" by (subst pow2_nat) auto
    ultimately show "pow2 (?f c - 1) \<le> of_int c" "of_int c < pow2 (?f c)" by (simp_all only: of_nat_le_iff of_nat_less_iff)
  qed
  have "pow2 (?f a - 1) / pow2 (?f b) \<le> x" unfolding x
    using lb(1) [OF a] lb(2) [OF b] a b by (intro frac_le) auto
  moreover have "x < pow2 (?f a) / pow2 (?f b - 1)" unfolding x
    using lb(2) [OF a] lb(1) [OF b] by (intro frac_less) (use a in auto)
  ultimately have "pow2 (?f a - ?f b - 1) \<le> x" "x < pow2 (?f a - ?f b + 1)"
    by (simp_all add: pow2_diff [symmetric] algebra_simps)
  then show ?thesis by (simp add: exponent_def ab Let_def not_le)
qed

lemma exponent_le: "0 < x \<Longrightarrow> x \<le> pow2 k \<Longrightarrow> exponent x \<le> k"
  using exponent_bounds [of x] pow2_less [of "exponent x" "k + 1"] pow2_mono [of k "k + 1"] pow2_less [of k "k + 1"]
  by linarith

section \<open>Rounding\<close>

lemma round_even_near: "\<bar>of_int (round_even x) - x\<bar> \<le> 1 / 2"
proof -
  have "of_int \<lfloor>x\<rfloor> \<le> x" "x < of_int \<lfloor>x\<rfloor> + 1" by linarith+
  then show ?thesis unfolding round_even_def Let_def by (auto simp: abs_le_iff)
qed

lemma round_even_bounds: "of_int a \<le> x \<Longrightarrow> a \<le> round_even x" "x \<le> of_int b \<Longrightarrow> round_even x \<le> b"
proof -
  show "a \<le> round_even x" if "of_int a \<le> x"
    using that round_even_near [of x] by linarith
  show "round_even x \<le> b" if "x \<le> of_int b"
    using that round_even_near [of x] by linarith
qed

definition ulp :: "prec \<Rightarrow> rat \<Rightarrow> rat" where
  "ulp p m = pow2 (max (exponent m - (sig_bits p - 1)) (min_exp p))"

lemma ulp_pos [simp]: "0 < ulp p m"
  by (simp add: ulp_def)

lemma ulp_nz [simp]: "ulp p m \<noteq> 0" "0 \<le> ulp p m"
  using ulp_pos [of p m] by linarith+

lemma round_mag_Some:
  "round_mag p m = Some r \<longleftrightarrow>
    (if m = 0 then r = 0 else r = of_int (round_even (m / ulp p m)) * ulp p m \<and> r < pow2 (max_exp p + 1))"
  by (auto simp: round_mag_def ulp_def Let_def not_le)

lemma round_mag_near:
  assumes "round_mag p m = Some r"
  shows "\<bar>r - m\<bar> \<le> ulp p m / 2"
proof (cases "m = 0")
  case False
  then have r: "r - m = (of_int (round_even (m / ulp p m)) - m / ulp p m) * ulp p m"
    using assms by (simp add: round_mag_Some left_diff_distrib)
  have "\<bar>r - m\<bar> \<le> 1 / 2 * ulp p m"
    unfolding r abs_mult using round_even_near [of "m / ulp p m"] by (intro mult_mono) auto
  then show ?thesis by simp
qed (use assms in \<open>simp add: round_mag_Some less_imp_le\<close>)

text \<open>Below the largest finite power of two nothing overflows, and a power of two bounds the result.\<close>

lemma round_mag_le:
  assumes "0 \<le> m" "m \<le> pow2 k" "min_exp p \<le> k" "k \<le> max_exp p"
  shows "\<exists>r. round_mag p m = Some r \<and> 0 \<le> r \<and> r \<le> pow2 k"
proof (cases "m = 0")
  case True
  then show ?thesis by (simp add: round_mag_def less_imp_le)
next
  case False
  define j where "j = max (exponent m - (sig_bits p - 1)) (min_exp p)"
  have u: "ulp p m = pow2 j" by (simp add: ulp_def j_def)
  have "j \<le> k" using exponent_le [of m k] False assms by (cases p) (auto simp: j_def)
  then have "pow2 k = of_int (2 ^ nat (k - j)) * pow2 j"
    using pow2_add [of "k - j" j] by (simp add: pow2_nat)
  then have "m / pow2 j \<le> of_int (2 ^ nat (k - j))" using assms(2) by (simp add: divide_le_eq)
  then have le: "of_int (round_even (m / pow2 j)) * pow2 j \<le> pow2 k"
    using round_even_bounds(2) [of "m / pow2 j" "2 ^ nat (k - j)"] \<open>pow2 k = _\<close>
    by (metis mult_right_mono of_int_le_iff order_less_imp_le pow2_pos)
  have "0 \<le> round_even (m / pow2 j)" using round_even_bounds(1) [of 0 "m / pow2 j"] assms(1)
    by (simp add: zero_le_divide_iff less_imp_le)
  moreover have "pow2 k < pow2 (max_exp p + 1)" using assms(4) by (simp add: pow2_less)
  ultimately show ?thesis using False le by (auto simp: round_mag_Some u)
qed

text \<open>The relative error of a normal result.\<close>

lemma round_mag_relative:
  assumes "round_mag p m = Some r" and "pow2 (min_exp p + (sig_bits p - 1)) \<le> m"
  shows "\<bar>r - m\<bar> \<le> pow2 (- sig_bits p) * m"
proof -
  have m: "0 < m" using assms(2) pow2_pos [of "min_exp p + (sig_bits p - 1)"] by linarith
  have "min_exp p + (sig_bits p - 1) \<le> exponent m"
    using exponent_bounds [OF m] assms(2) pow2_less [of "min_exp p + (sig_bits p - 1)" "exponent m + 1"] by linarith
  then have "ulp p m = pow2 (exponent m) * (pow2 1 * pow2 (- sig_bits p))"
    unfolding ulp_def pow2_add [symmetric] by (simp add: max_def algebra_simps)
  then have "ulp p m / 2 = pow2 (exponent m) * pow2 (- sig_bits p)" by (simp add: pow2_def [of 1])
  also have "\<dots> \<le> m * pow2 (- sig_bits p)" using exponent_bounds [OF m] by simp
  finally show ?thesis using round_mag_near [OF assms(1)] by (simp add: mult.commute)
qed

section \<open>Bounded non-negative numbers\<close>

text \<open>A finite number with a plus sign, at most \<open>2^k\<close>.\<close>

definition at_most :: "int \<Rightarrow> flt \<Rightarrow> bool" where
  "at_most k x \<longleftrightarrow> (\<exists>m. x = Num False m \<and> 0 \<le> m \<and> m \<le> pow2 k)"

lemma at_most_mono: "at_most j x \<Longrightarrow> j \<le> k \<Longrightarrow> at_most k x"
  using pow2_mono by (fastforce simp: at_most_def intro: order_trans)

lemma at_most_zero [simp]: "at_most k fzero"
  by (simp add: at_most_def less_imp_le)

lemma rounded_at_most: "0 \<le> m \<Longrightarrow> m \<le> pow2 k \<Longrightarrow> min_exp p \<le> k \<Longrightarrow> k \<le> max_exp p \<Longrightarrow> at_most k (rounded p False m)"
  using round_mag_le [of m k p] by (auto simp: rounded_def at_most_def)

lemma of_value_at_most: "0 \<le> v \<Longrightarrow> v \<le> pow2 k \<Longrightarrow> min_exp p \<le> k \<Longrightarrow> k \<le> max_exp p \<Longrightarrow> at_most k (of_value p False v)"
  using rounded_at_most [of v k p] by (cases "v = 0") (auto simp: of_value_def at_most_def less_imp_le)

lemma fadd_at_most:
  assumes "at_most j x" "at_most j y" "min_exp p \<le> j + 1" "j + 1 \<le> max_exp p"
  shows "at_most (j + 1) (fadd p x y)"
proof -
  obtain m n where mn: "x = Num False m" "y = Num False n" "0 \<le> m" "0 \<le> n" "m \<le> pow2 j" "n \<le> pow2 j"
    using assms by (auto simp: at_most_def)
  then have "m + n \<le> pow2 (j + 1)" by (simp add: pow2_add pow2_def [of 1])
  then show ?thesis using mn assms of_value_at_most [of "m + n" "j + 1" p] by simp
qed

lemma fmul_at_most:
  assumes "at_most j x" "at_most k y" "min_exp p \<le> j + k" "j + k \<le> max_exp p"
  shows "at_most (j + k) (fmul p x y)"
proof -
  obtain m n where mn: "x = Num False m" "y = Num False n" "0 \<le> m" "0 \<le> n" "m \<le> pow2 j" "n \<le> pow2 k"
    using assms by (auto simp: at_most_def)
  then have "m * n \<le> pow2 (j + k)" by (simp add: pow2_add mult_mono)
  then show ?thesis using mn assms rounded_at_most [of "m * n" "j + k" p] by simp
qed

text \<open>The same with a lower bound, for divisors.\<close>

lemma round_mag_ge:
  assumes "round_mag p m = Some r" "pow2 k \<le> m" "min_exp p \<le> k"
  shows "pow2 k \<le> r"
proof -
  have m: "0 < m" using assms(2) pow2_pos [of k] by linarith
  define j where "j = max (exponent m - (sig_bits p - 1)) (min_exp p)"
  have u: "ulp p m = pow2 j" by (simp add: ulp_def j_def)
  have r: "r = of_int (round_even (m / pow2 j)) * pow2 j" using assms(1) m by (auto simp: round_mag_Some u)
  show ?thesis
  proof (cases "j \<le> k")
    case True
    then have k: "pow2 k = of_int (2 ^ nat (k - j)) * pow2 j"
      using pow2_add [of "k - j" j] by (simp add: pow2_nat)
    then have "of_int (2 ^ nat (k - j)) \<le> m / pow2 j" using assms(2) by (simp add: le_divide_eq)
    then have "2 ^ nat (k - j) \<le> round_even (m / pow2 j)" by (rule round_even_bounds(1))
    then have "(of_int (2 ^ nat (k - j)) :: rat) \<le> of_int (round_even (m / pow2 j))" by (simp only: of_int_le_iff)
    then show ?thesis unfolding r k by (rule mult_right_mono) simp
  next
    case False
    then have "j = exponent m - (sig_bits p - 1)" using assms(3) by (auto simp: j_def max_def split: if_splits)
    then have "pow2 j \<le> pow2 (exponent m)" by (intro pow2_mono) (cases p; simp)
    then have "of_int 1 \<le> m / pow2 j" using exponent_bounds [OF m] by (simp add: le_divide_eq)
    then have "1 \<le> round_even (m / pow2 j)" by (rule round_even_bounds(1))
    then have "1 * pow2 j \<le> r" unfolding r by (intro mult_right_mono) auto
    then show ?thesis using pow2_mono [of k j] False by simp
  qed
qed

definition between :: "int \<Rightarrow> int \<Rightarrow> flt \<Rightarrow> bool" where
  "between j k x \<longleftrightarrow> (\<exists>m. x = Num False m \<and> pow2 j \<le> m \<and> m \<le> pow2 k)"

lemma between_at_most: "between j k x \<Longrightarrow> at_most k x"
  unfolding between_def at_most_def using order_trans [OF pow2_nonneg [of j]] by blast

lemma rounded_between:
  assumes "pow2 j \<le> m" "m \<le> pow2 k" "min_exp p \<le> j" "k \<le> max_exp p"
  shows "between j k (rounded p False m)"
proof -
  have "0 \<le> m" "min_exp p \<le> k" using assms pow2_less [of k j] pow2_nonneg [of j] by linarith+
  then show ?thesis
    using round_mag_le [of m k p] round_mag_ge [of p m _ j] assms by (auto simp: rounded_def between_def)
qed

lemma of_value_between:
  assumes "pow2 j \<le> v" "v \<le> pow2 k" "min_exp p \<le> j" "k \<le> max_exp p"
  shows "between j k (of_value p False v)"
proof -
  have "0 < v" using assms(1) pow2_pos [of j] by linarith
  then show ?thesis using rounded_between [OF assms] by (simp add: of_value_def)
qed

lemma fmul_between:
  assumes "between j k x" "between j' k' y" "min_exp p \<le> j + j'" "k + k' \<le> max_exp p"
  shows "between (j + j') (k + k') (fmul p x y)"
proof -
  obtain m n where mn: "x = Num False m" "y = Num False n" "pow2 j \<le> m" "m \<le> pow2 k" "pow2 j' \<le> n" "n \<le> pow2 k'"
    using assms by (auto simp: between_def)
  have "0 \<le> m" "0 \<le> n" using mn pow2_nonneg [of j] pow2_nonneg [of j'] by linarith+
  then show ?thesis
    using mn assms by (auto simp: pow2_add intro!: rounded_between mult_mono)
qed

lemma fdiv_at_most:
  assumes "at_most k x" "between j l y" "min_exp p \<le> k - j" "k - j \<le> max_exp p"
  shows "at_most (k - j) (fdiv p x y)"
proof -
  obtain m n where mn: "x = Num False m" "y = Num False n" "0 \<le> m" "m \<le> pow2 k" "pow2 j \<le> n"
    using assms by (auto simp: between_def at_most_def)
  have n: "0 < n" using mn pow2_pos [of j] by linarith
  have "m / n \<le> pow2 (k - j)" unfolding pow2_diff using mn n by (intro frac_le) auto
  then show ?thesis using mn n assms rounded_at_most [of "m / n" "k - j" p] by simp
qed

end
