(* ===== verification/TerEnergy.thy ===== *)
theory TerEnergy
  imports TerRound TerState
begin

text \<open>
  The closed-form projections: the GPU roofline (\<open>v2/src/layer1_gpu/gpu_model.cpp\<close>) and the ASIC
  energy model (\<open>v2/src/layer3/asic_energy.cpp\<close>), in binary64 arithmetic with the sources' order of
  operations. A fixed-width count is a \<open>64 word\<close> and wraps.
\<close>

section \<open>Literals and helpers\<close>

text \<open>A \<open>double\<close> literal, an unsigned count as a \<open>double\<close>, and \<open>std::max\<close>.\<close>

definition dlit :: "rat \<Rightarrow> flt" where
  "dlit q = of_value F64 False q"

definition dcount :: "64 word \<Rightarrow> flt" where
  "dcount w = of_int_flt F64 (uint w)"

definition dmax :: "flt \<Rightarrow> flt \<Rightarrow> flt" where
  "dmax a b = (if flt_less a b then b else a)"

text \<open>\<open>a >= b\<close>, false when an operand is a NaN.\<close>

definition dge :: "flt \<Rightarrow> flt \<Rightarrow> bool" where
  "dge a b \<longleftrightarrow> flt_less b a \<or> flt_eq a b"

text \<open>A quotient guarded against a divisor that is not positive.\<close>

definition ratio :: "flt \<Rightarrow> flt \<Rightarrow> flt" where
  "ratio a b = (if flt_less fzero b then fdiv F64 a b else fzero)"

section \<open>GPU roofline\<close>

datatype gpu_path = Dp4a | Int8Tc | Int4Tc | AddOnly

record gpu_config =
  gc_name :: string
  gc_sm_count :: int
  gc_boost_clock_ghz :: flt
  gc_dp4a_peak_tops :: flt
  gc_int8_tc_peak_tops :: flt
  gc_int4_tc_peak_tops :: flt
  gc_addonly_peak_tops :: flt
  gc_hbm_peak_bw_gbps :: flt
  gc_asymptote_int8tc :: flt
  gc_asymptote_dp4a :: flt
  gc_asymptote_int4tc :: flt
  gc_asymptote_addonly :: flt
  gc_bytes_half_int8tc :: flt
  gc_bytes_half_dp4a :: flt
  gc_bytes_half_int4tc :: flt
  gc_bytes_half_addonly :: flt
  gc_compute_efficiency :: flt

definition default_gpu_config :: gpu_config where
  "default_gpu_config = \<lparr>gc_name = ''RTX 3090'', gc_sm_count = 82, gc_boost_clock_ghz = dlit (170 / 100),
     gc_dp4a_peak_tops = dlit 71, gc_int8_tc_peak_tops = dlit 284, gc_int4_tc_peak_tops = dlit 568,
     gc_addonly_peak_tops = dlit 142, gc_hbm_peak_bw_gbps = dlit 936,
     gc_asymptote_int8tc = dlit (45 / 100), gc_asymptote_dp4a = dlit (42 / 100),
     gc_asymptote_int4tc = dlit (95 / 100), gc_asymptote_addonly = dlit (20 / 100),
     gc_bytes_half_int8tc = fmul F64 (dlit 4) (dcount (2 ^ 20)), gc_bytes_half_dp4a = fmul F64 (dlit 4) (dcount (2 ^ 20)),
     gc_bytes_half_int4tc = fmul F64 (dlit 10) (dcount (2 ^ 20)), gc_bytes_half_addonly = fmul F64 (dlit 6) (dcount (2 ^ 20)),
     gc_compute_efficiency = dlit (50 / 100)\<rparr>"

record gpu_kernel =
  gk_macs :: "64 word"
  gk_load_bytes :: "64 word"
  gk_store_bytes :: "64 word"
  gk_path :: gpu_path
  gk_batch_m :: int
  gk_label :: string

definition mk_gpu_kernel :: gpu_kernel where
  "mk_gpu_kernel = \<lparr>gk_macs = 0, gk_load_bytes = 0, gk_store_bytes = 0, gk_path = Dp4a, gk_batch_m = 1, gk_label = ''kernel''\<rparr>"

record gpu_report =
  gr_compute_time_s :: flt
  gr_memory_time_s :: flt
  gr_wall_time_s :: flt
  gr_memory_bound :: bool
  gr_bw_utilization :: flt
  gr_tops_achieved :: flt

fun peak_tops_for :: "gpu_config \<Rightarrow> gpu_path \<Rightarrow> flt" where
  "peak_tops_for c Dp4a = gc_dp4a_peak_tops c"
| "peak_tops_for c Int8Tc = gc_int8_tc_peak_tops c"
| "peak_tops_for c Int4Tc = gc_int4_tc_peak_tops c"
| "peak_tops_for c AddOnly = gc_addonly_peak_tops c"

text \<open>The asymptote and half-saturation of a path.\<close>

fun bw_curve :: "gpu_config \<Rightarrow> gpu_path \<Rightarrow> flt \<times> flt" where
  "bw_curve c Int8Tc = (gc_asymptote_int8tc c, gc_bytes_half_int8tc c)"
| "bw_curve c Dp4a = (gc_asymptote_dp4a c, gc_bytes_half_dp4a c)"
| "bw_curve c Int4Tc = (gc_asymptote_int4tc c, gc_bytes_half_int4tc c)"
| "bw_curve c AddOnly = (gc_asymptote_addonly c, gc_bytes_half_addonly c)"

definition effective_bw_gbps :: "gpu_config \<Rightarrow> int \<Rightarrow> gpu_path \<Rightarrow> 64 word \<Rightarrow> flt" where
  "effective_bw_gbps c batch_m path bytes =
     (case bw_curve c path of (asy, half) \<Rightarrow>
        let B = dcount bytes;
            eff_m1 = ratio (fmul F64 asy B) (fadd F64 B half)
        in if batch_m \<ge> 16 then fmul F64 (gc_hbm_peak_bw_gbps c) (dmax eff_m1 (dlit (65 / 100)))
           else if batch_m \<le> 1 then fmul F64 (gc_hbm_peak_bw_gbps c) eff_m1
           else
             let t = fdiv F64 (of_int_flt F64 (batch_m - 1)) (dlit 15);
                 frac = fadd F64 eff_m1 (fmul F64 t (fsub F64 (dlit (65 / 100)) eff_m1))
             in fmul F64 (gc_hbm_peak_bw_gbps c) frac)"

definition gpu_project :: "gpu_config \<Rightarrow> gpu_kernel \<Rightarrow> gpu_report" where
  "gpu_project c d =
     (let total_bytes = gk_load_bytes d + gk_store_bytes d;
          eff_bw_Bs = fmul F64 (effective_bw_gbps c (gk_batch_m d) (gk_path d) total_bytes) (dlit (10 ^ 9));
          memory = ratio (dcount total_bytes) eff_bw_Bs;
          peak_ops_s = fmul F64 (fmul F64 (peak_tops_for c (gk_path d)) (dlit (10 ^ 12))) (gc_compute_efficiency c);
          compute = (if gk_path d = AddOnly then ratio (dcount (gk_macs d)) peak_ops_s
                     else ratio (fmul F64 (dlit 2) (dcount (gk_macs d))) peak_ops_s);
          wall = dmax compute memory
      in \<lparr>gr_compute_time_s = compute, gr_memory_time_s = memory, gr_wall_time_s = wall,
          gr_memory_bound = dge memory compute,
          gr_bw_utilization = (if flt_less fzero wall
            then fdiv F64 (fdiv F64 (dcount total_bytes) wall) (fmul F64 (gc_hbm_peak_bw_gbps c) (dlit (10 ^ 9))) else fzero),
          gr_tops_achieved = (if flt_less fzero wall
            then fdiv F64 (fdiv F64 (fmul F64 (dlit 2) (dcount (gk_macs d))) wall) (dlit (10 ^ 12)) else fzero)\<rparr>)"

definition tokens_per_second :: "gpu_config \<Rightarrow> gpu_kernel \<Rightarrow> flt" where
  "tokens_per_second c d = ratio (dlit 1) (gr_wall_time_s (gpu_project c d))"

section \<open>ASIC energy\<close>

datatype tech_node = N22nm | N7nm | N3nm

text \<open>\<open>AsicConfig\<close>: the energy per operation in picojoules, grouped as the source groups them.\<close>

record asic_config =
  ac_node :: tech_node
  ac_pj_tadd :: flt
  ac_pj_tsub :: flt
  ac_pj_tneg :: flt
  ac_pj_tabs :: flt
  ac_pj_tlogic3 :: flt
  ac_pj_tcmp :: flt
  ac_pj_tsign :: flt
  ac_pj_tloadi :: flt
  ac_pj_tbranch :: flt
  ac_pj_tcontrol :: flt
  ac_pj_tvadd :: flt
  ac_pj_tvsub :: flt
  ac_pj_tvneg :: flt
  ac_pj_tvmul :: flt
  ac_pj_tvmac :: flt
  ac_pj_tvsum :: flt
  ac_pj_tvmax :: flt
  ac_pj_tvshuf :: flt
  ac_pj_tvbcast :: flt
  ac_pj_l1_access :: flt
  ac_pj_l2_access :: flt
  ac_pj_dram_access :: flt
  ac_freq_ghz :: flt
  ac_kge_alu :: flt
  ac_kge_vec_unit :: flt
  ac_kge_l1d :: flt
  ac_kge_l2 :: flt
  ac_kge_ctrl :: flt
  ac_mm2_per_kge :: flt
  ac_leakage_w_per_mm2 :: flt

definition mk_asic_config :: asic_config where
  "mk_asic_config = \<lparr>ac_node = N22nm,
     ac_pj_tadd = dlit (30 / 1000), ac_pj_tsub = dlit (30 / 1000), ac_pj_tneg = dlit (15 / 1000), ac_pj_tabs = dlit (15 / 1000),
     ac_pj_tlogic3 = dlit (20 / 1000), ac_pj_tcmp = dlit (25 / 1000), ac_pj_tsign = dlit (15 / 1000),
     ac_pj_tloadi = dlit (10 / 1000), ac_pj_tbranch = dlit (40 / 1000), ac_pj_tcontrol = dlit (5 / 1000),
     ac_pj_tvadd = dlit (60 / 1000), ac_pj_tvsub = dlit (60 / 1000), ac_pj_tvneg = dlit (30 / 1000),
     ac_pj_tvmul = dlit (300 / 1000), ac_pj_tvmac = dlit (180 / 1000), ac_pj_tvsum = dlit (90 / 1000),
     ac_pj_tvmax = dlit (90 / 1000), ac_pj_tvshuf = dlit (40 / 1000), ac_pj_tvbcast = dlit (20 / 1000),
     ac_pj_l1_access = dlit 5, ac_pj_l2_access = dlit 50, ac_pj_dram_access = dlit 1300, ac_freq_ghz = dlit (125 / 100),
     ac_kge_alu = dlit 25, ac_kge_vec_unit = dlit 220, ac_kge_l1d = dlit 800, ac_kge_l2 = dlit 8000, ac_kge_ctrl = dlit 50,
     ac_mm2_per_kge = dlit (12 / 10000), ac_leakage_w_per_mm2 = dlit (20 / 1000)\<rparr>"

record node_factors =
  nf_energy :: flt
  nf_freq :: flt
  nf_area :: flt
  nf_leakage :: flt

fun node_factors_of :: "tech_node \<Rightarrow> node_factors" where
  "node_factors_of N22nm = \<lparr>nf_energy = dlit 1, nf_freq = dlit 1, nf_area = dlit 1, nf_leakage = dlit 1\<rparr>"
| "node_factors_of N7nm = \<lparr>nf_energy = dlit (50 / 100), nf_freq = dlit (170 / 100), nf_area = dlit (20 / 100), nf_leakage = dlit (70 / 100)\<rparr>"
| "node_factors_of N3nm = \<lparr>nf_energy = dlit (31 / 100), nf_freq = dlit (220 / 100), nf_area = dlit (9 / 100), nf_leakage = dlit (50 / 100)\<rparr>"

text \<open>The scale of the on-die memories: the mean of 1 and the energy scale.\<close>

definition mem_scale :: "node_factors \<Rightarrow> flt" where
  "mem_scale f =
     (if flt_less (nf_energy f) (dlit 1) then fmul F64 (dlit (1 / 2)) (fadd F64 (dlit 1) (nf_energy f)) else dlit 1)"

definition defaults_for :: "tech_node \<Rightarrow> asic_config" where
  "defaults_for node =
     (let c = mk_asic_config; f = node_factors_of node; pj = (\<lambda>v. fmul F64 v (nf_energy f))
      in c\<lparr>ac_node := node,
           ac_pj_tadd := pj (ac_pj_tadd c), ac_pj_tsub := pj (ac_pj_tsub c), ac_pj_tneg := pj (ac_pj_tneg c),
           ac_pj_tabs := pj (ac_pj_tabs c), ac_pj_tlogic3 := pj (ac_pj_tlogic3 c), ac_pj_tcmp := pj (ac_pj_tcmp c),
           ac_pj_tsign := pj (ac_pj_tsign c), ac_pj_tloadi := pj (ac_pj_tloadi c), ac_pj_tbranch := pj (ac_pj_tbranch c),
           ac_pj_tcontrol := pj (ac_pj_tcontrol c), ac_pj_tvadd := pj (ac_pj_tvadd c), ac_pj_tvsub := pj (ac_pj_tvsub c),
           ac_pj_tvneg := pj (ac_pj_tvneg c), ac_pj_tvmul := pj (ac_pj_tvmul c), ac_pj_tvmac := pj (ac_pj_tvmac c),
           ac_pj_tvsum := pj (ac_pj_tvsum c), ac_pj_tvmax := pj (ac_pj_tvmax c), ac_pj_tvshuf := pj (ac_pj_tvshuf c),
           ac_pj_tvbcast := pj (ac_pj_tvbcast c),
           ac_pj_l1_access := fmul F64 (ac_pj_l1_access c) (mem_scale f), ac_pj_l2_access := fmul F64 (ac_pj_l2_access c) (mem_scale f),
           ac_freq_ghz := fmul F64 (ac_freq_ghz c) (nf_freq f), ac_mm2_per_kge := fmul F64 (ac_mm2_per_kge c) (nf_area f),
           ac_leakage_w_per_mm2 := fmul F64 (ac_leakage_w_per_mm2 c) (nf_leakage f)\<rparr>)"

text \<open>The charged opcodes and their energies, in the order of \<open>compute_energy_pJ\<close>.\<close>

definition op_costs :: "asic_config \<Rightarrow> (opcode \<times> flt) list" where
  "op_costs c =
     [(TADD, ac_pj_tadd c), (TSUB, ac_pj_tsub c), (TNEG, ac_pj_tneg c), (TABS, ac_pj_tabs c),
      (TAND3, ac_pj_tlogic3 c), (TOR3, ac_pj_tlogic3 c), (TXOR3, ac_pj_tlogic3 c), (TCMP, ac_pj_tcmp c),
      (TSIGN, ac_pj_tsign c), (TLOADI, ac_pj_tloadi c), (TBEQ, ac_pj_tbranch c), (TBNE, ac_pj_tbranch c),
      (TBLT, ac_pj_tbranch c), (TJUMP, ac_pj_tbranch c), (TCALL, ac_pj_tbranch c), (TRET, ac_pj_tbranch c),
      (TNOP, ac_pj_tcontrol c), (THALT, ac_pj_tcontrol c), (TDBG, ac_pj_tcontrol c),
      (TVADD, ac_pj_tvadd c), (TVSUB, ac_pj_tvsub c), (TVNEG, ac_pj_tvneg c), (TVBROADCAST, ac_pj_tvbcast c),
      (TVMAC, ac_pj_tvmac c), (TVSUM, ac_pj_tvsum c), (TVMAX, ac_pj_tvmax c), (TVSHUF, ac_pj_tvshuf c),
      (TVMUL, ac_pj_tvmul c)]"

definition compute_energy_pJ :: "asic_config \<Rightarrow> op_counters \<Rightarrow> flt" where
  "compute_energy_pJ c k =
     foldl (\<lambda>e (p, pj). fadd F64 e (fmul F64 (dcount (get_count p k)) pj)) fzero (op_costs c)"

record asic_workload =
  aw_counters :: "op_counters option"
  aw_cycles_total :: "64 word"
  aw_l1d_accesses :: "64 word"
  aw_l2_accesses :: "64 word"
  aw_dram_accesses :: "64 word"
  aw_tokens :: "64 word"

record asic_report =
  ar_total_pJ_per_token :: flt
  ar_perf_per_watt :: flt
  ar_area_mm2 :: flt
  ar_freq_GHz :: flt
  ar_wall_s_per_token :: flt
  ar_compute_pJ :: flt
  ar_memory_pJ :: flt
  ar_leakage_pJ :: flt

definition no_asic_report :: asic_report where
  "no_asic_report = \<lparr>ar_total_pJ_per_token = fzero, ar_perf_per_watt = fzero, ar_area_mm2 = fzero, ar_freq_GHz = fzero,
     ar_wall_s_per_token = fzero, ar_compute_pJ = fzero, ar_memory_pJ = fzero, ar_leakage_pJ = fzero\<rparr>"

definition memory_energy_pJ :: "asic_config \<Rightarrow> asic_workload \<Rightarrow> flt" where
  "memory_energy_pJ c w =
     (let l1 = fmul F64 (dcount (aw_l1d_accesses w)) (ac_pj_l1_access c);
          l2 = fmul F64 (dcount (aw_l2_accesses w)) (ac_pj_l2_access c);
          dr = fmul F64 (dcount (aw_dram_accesses w)) (ac_pj_dram_access c)
      in fadd F64 (fadd F64 l1 l2) dr)"

definition total_area_mm2 :: "asic_config \<Rightarrow> flt" where
  "total_area_mm2 c =
     (let kge = fadd F64 (fadd F64 (fadd F64 (fadd F64 (ac_kge_alu c) (ac_kge_vec_unit c)) (ac_kge_l1d c)) (ac_kge_l2 c)) (ac_kge_ctrl c)
      in fmul F64 kge (ac_mm2_per_kge c))"

definition asic_project :: "asic_config \<Rightarrow> asic_workload \<Rightarrow> asic_report" where
  "asic_project c w =
     (case aw_counters w of
        None \<Rightarrow> no_asic_report
      | Some k \<Rightarrow>
          if aw_tokens w = 0 then no_asic_report
          else
            let tokens = dcount (aw_tokens w); area = total_area_mm2 c;
                clk_hz = fmul F64 (ac_freq_ghz c) (dlit (10 ^ 9));
                per_token = (if flt_less fzero clk_hz
                  then fdiv F64 (fdiv F64 (dcount (aw_cycles_total w)) clk_hz) tokens else fzero);
                e_compute = compute_energy_pJ c k; e_memory = memory_energy_pJ c w;
                wall = fmul F64 per_token tokens;
                leak_w = fmul F64 area (ac_leakage_w_per_mm2 c);
                e_leak = fmul F64 (fmul F64 leak_w wall) (dlit (10 ^ 12));
                total = fadd F64 (fadd F64 e_compute e_memory) e_leak;
                watts = fdiv F64 (fmul F64 total (dlit (1 / 10 ^ 12))) wall
            in \<lparr>ar_total_pJ_per_token = fdiv F64 total tokens,
                ar_perf_per_watt = (if flt_less fzero wall then ratio (fdiv F64 tokens wall) watts else fzero),
                ar_area_mm2 = area, ar_freq_GHz = ac_freq_ghz c, ar_wall_s_per_token = per_token,
                ar_compute_pJ = e_compute, ar_memory_pJ = e_memory, ar_leakage_pJ = e_leak\<rparr>)"

section \<open>Facts\<close>

text \<open>Every opcode but the loads and stores is charged, and none twice.\<close>

lemma op_costs_once:
  "distinct (map fst (op_costs c))"
  "p \<in> set (map fst (op_costs c)) \<longleftrightarrow> p \<notin> {TLOAD, TSTORE, TVLOAD, TVSTORE}"
  by (simp_all add: op_costs_def) (cases p; simp)

section \<open>Every projected energy is a finite non-negative number\<close>

lemma dcount_at_most: "at_most 64 (dcount w)"
proof -
  have "(0 :: rat) \<le> of_int (uint w)" by (simp only: of_int_0_le_iff uint_nonnegative)
  moreover have "(of_int (uint w) :: rat) \<le> of_int (2 ^ 64)"
    unfolding of_int_le_iff using uint_lt2p [of w] by simp
  ultimately show ?thesis
    unfolding dcount_def of_int_flt_def by (intro of_value_at_most) (simp_all add: pow2_def)
qed

lemma dcount_between: "w \<noteq> 0 \<Longrightarrow> between 0 64 (dcount w)"
proof -
  assume "w \<noteq> 0"
  then have "1 \<le> uint w" using uint_ge_0 [of w] by (simp add: int_one_le_iff_zero_less less_le uint_0_iff)
  moreover have "uint w \<le> 2 ^ 64" using uint_lt2p [of w] by simp
  ultimately have "(of_int 1 :: rat) \<le> of_int (uint w)" "(of_int (uint w) :: rat) \<le> of_int (2 ^ 64)"
    by (simp_all only: of_int_le_iff)
  then show ?thesis unfolding dcount_def of_int_flt_def by (intro of_value_between) (simp_all add: pow2_def)
qed

lemma dlit_at_most: "0 \<le> q \<Longrightarrow> q \<le> pow2 k \<Longrightarrow> - 1074 \<le> k \<Longrightarrow> k \<le> 1023 \<Longrightarrow> at_most k (dlit q)"
  unfolding dlit_def by (rule of_value_at_most) simp_all

lemma dlit_between: "pow2 j \<le> q \<Longrightarrow> q \<le> pow2 k \<Longrightarrow> - 1074 \<le> j \<Longrightarrow> k \<le> 1023 \<Longrightarrow> between j k (dlit q)"
  unfolding dlit_def by (rule of_value_between) simp_all

lemma unit_scale: "at_most k x \<Longrightarrow> at_most 0 y \<Longrightarrow> - 1074 \<le> k \<Longrightarrow> k \<le> 1023 \<Longrightarrow> at_most k (fmul F64 x y)"
  using fmul_at_most [of k x 0 y F64] by simp

lemma node_scales:
  "at_most 0 (nf_energy (node_factors_of n))" "at_most 0 (nf_area (node_factors_of n))" "at_most 0 (nf_leakage (node_factors_of n))"
  "between 0 2 (nf_freq (node_factors_of n))"
  by (cases n; auto intro!: dlit_at_most dlit_between simp: pow2_def)+

lemma op_costs_unit: "x \<in> set (op_costs (defaults_for n)) \<Longrightarrow> at_most 0 (snd x)"
  unfolding op_costs_def defaults_for_def Let_def mk_asic_config_def
  by (auto intro!: unit_scale dlit_at_most node_scales simp: pow2_def)

lemma compute_energy_at_most: "at_most 92 (compute_energy_pJ (defaults_for n) k)"
proof -
  have "at_most (64 + int (length cs)) (foldl (\<lambda>e (p, pj). fadd F64 e (fmul F64 (dcount (get_count p k)) pj)) fzero cs)"
    if "\<And>x. x \<in> set cs \<Longrightarrow> at_most 0 (snd x)" "length cs \<le> 100" for cs
    using that
  proof (induction cs rule: rev_induct)
    case (snoc c cs)
    obtain p pj where c: "c = (p, pj)" by (cases c)
    have "at_most 64 (fmul F64 (dcount (get_count p k)) pj)"
      using snoc.prems(1) [of c] c by (intro unit_scale dcount_at_most) auto
    then have "at_most (64 + int (length cs)) (fmul F64 (dcount (get_count p k)) pj)" by (rule at_most_mono) simp
    moreover have "at_most (64 + int (length cs)) (foldl (\<lambda>e (p, pj). fadd F64 e (fmul F64 (dcount (get_count p k)) pj)) fzero cs)"
      using snoc by auto
    ultimately show ?case using fadd_at_most [of "64 + int (length cs)" _ _ F64] snoc.prems(2) c by (simp add: add.assoc)
  qed simp
  from this [of "op_costs (defaults_for n)"] show ?thesis
    unfolding compute_energy_pJ_def using op_costs_unit [of _ n] by (force simp: op_costs_def)
qed

lemma mem_scale_unit: "at_most 0 (mem_scale (node_factors_of n))"
proof -
  have "at_most 1 (fadd F64 (dlit 1) (nf_energy (node_factors_of n)))"
    using fadd_at_most [of 0 "dlit 1" "nf_energy (node_factors_of n)" F64] node_scales(1) dlit_at_most [of 1 0] by (simp add: pow2_def)
  moreover have "at_most (- 1) (dlit (1 / 2))" by (rule dlit_at_most) (simp_all add: pow2_def)
  ultimately have "at_most (- 1 + 1) (fmul F64 (dlit (1 / 2)) (fadd F64 (dlit 1) (nf_energy (node_factors_of n))))"
    by (intro fmul_at_most) simp_all
  moreover have "at_most 0 (dlit 1)" by (rule dlit_at_most) (simp_all add: pow2_def)
  ultimately show ?thesis by (simp add: mem_scale_def)
qed

lemma memory_energy_at_most: "at_most 77 (memory_energy_pJ (defaults_for n) w)"
proof -
  let ?c = "defaults_for n"
  have "at_most 11 (ac_pj_l1_access ?c)" "at_most 11 (ac_pj_l2_access ?c)" "at_most 11 (ac_pj_dram_access ?c)"
    unfolding defaults_for_def Let_def mk_asic_config_def
    by (auto intro!: unit_scale mem_scale_unit dlit_at_most simp: pow2_def)
  then have "at_most 75 (fmul F64 (dcount x) (ac_pj_l1_access ?c))" "at_most 75 (fmul F64 (dcount x) (ac_pj_l2_access ?c))"
    "at_most 75 (fmul F64 (dcount x) (ac_pj_dram_access ?c))" for x
    using fmul_at_most [OF dcount_at_most, of 11 _ F64] by simp_all
  then show ?thesis
    unfolding memory_energy_pJ_def Let_def
    using fadd_at_most [of 75 _ _ F64] fadd_at_most [of 76 _ _ F64] at_most_mono [of 75 _ 76] by simp
qed

lemma leakage_parts:
  fixes n :: tech_node
  defines "c \<equiv> defaults_for n"
  shows "between 29 33 (fmul F64 (ac_freq_ghz c) (dlit (10 ^ 9)))" "at_most 17 (fmul F64 (total_area_mm2 c) (ac_leakage_w_per_mm2 c))"
proof -
  have f: "between 0 1 (dlit (125 / 100))" by (rule dlit_between) (simp_all add: pow2_def)
  have "between (0 + 0) (1 + 2) (fmul F64 (dlit (125 / 100)) (nf_freq (node_factors_of n)))"
    by (rule fmul_between [OF f node_scales(4)]) simp_all
  then have "between 0 3 (ac_freq_ghz c)" by (simp add: c_def defaults_for_def Let_def mk_asic_config_def)
  moreover have "between 29 30 (dlit (10 ^ 9))" by (rule dlit_between) (simp_all add: pow2_def)
  ultimately show "between 29 33 (fmul F64 (ac_freq_ghz c) (dlit (10 ^ 9)))"
    using fmul_between [of 0 3 _ 29 30 _ F64] by simp
  have k: "at_most 13 (ac_kge_alu c)" "at_most 13 (ac_kge_vec_unit c)" "at_most 13 (ac_kge_l1d c)" "at_most 13 (ac_kge_l2 c)"
    "at_most 13 (ac_kge_ctrl c)" "at_most 0 (ac_mm2_per_kge c)" "at_most 0 (ac_leakage_w_per_mm2 c)"
    unfolding c_def defaults_for_def Let_def mk_asic_config_def
    by (auto intro!: unit_scale node_scales dlit_at_most simp: pow2_def)
  have up: "at_most j (ac_kge_l1d c)" "at_most j (ac_kge_l2 c)" "at_most j (ac_kge_ctrl c)" if "13 \<le> j" for j
    using k that by (auto intro: at_most_mono)
  have "at_most 17 (total_area_mm2 c)"
    unfolding total_area_mm2_def Let_def
    using fadd_at_most [OF k(1,2), of F64] fadd_at_most [of 14 _ _ F64, OF _ up(1)] fadd_at_most [of 15 _ _ F64, OF _ up(2)]
      fadd_at_most [of 16 _ _ F64, OF _ up(3)] k(6) by (simp add: unit_scale)
  then show "at_most 17 (fmul F64 (total_area_mm2 c) (ac_leakage_w_per_mm2 c))" using k(7) by (simp add: unit_scale)
qed

text \<open>
  C38: Projected onto any of the three nodes, every workload has finite, non-negative energies: the compute energy is below 2^92 pJ, the memory energy below 2^77 pJ, and neither the leakage nor the total per token overflows or becomes a NaN.
\<close>

theorem asic_energies_finite:
  "at_most 92 (ar_compute_pJ (asic_project (defaults_for node) w)) \<and>
   at_most 77 (ar_memory_pJ (asic_project (defaults_for node) w)) \<and>
   at_most 156 (ar_leakage_pJ (asic_project (defaults_for node) w)) \<and>
   at_most 158 (ar_total_pJ_per_token (asic_project (defaults_for node) w))"
proof (cases "aw_counters w = None \<or> aw_tokens w = 0")
  case True
  then show ?thesis by (auto simp: asic_project_def no_asic_report_def split: option.split)
next
  case False
  then obtain k where k: "aw_counters w = Some k" and t: "between 0 64 (dcount (aw_tokens w))"
    using dcount_between by auto
  let ?c = "defaults_for node" and ?t = "dcount (aw_tokens w)"
  let ?hz = "fmul F64 (ac_freq_ghz ?c) (dlit (10 ^ 9))"
  define q where "q = (if flt_less fzero ?hz then fdiv F64 (fdiv F64 (dcount (aw_cycles_total w)) ?hz) ?t else fzero)"
  define leak where "leak = fmul F64 (fmul F64 (fmul F64 (total_area_mm2 ?c) (ac_leakage_w_per_mm2 ?c)) (fmul F64 q ?t)) (dlit (10 ^ 12))"
  have "at_most 35 (fdiv F64 (dcount (aw_cycles_total w)) ?hz)"
    using fdiv_at_most [OF dcount_at_most leakage_parts(1) [of node], of F64] by simp
  then have "at_most 35 q" using fdiv_at_most [of 35 _ 0 64 ?t F64] t by (simp add: q_def)
  then have "at_most 99 (fmul F64 q ?t)" using fmul_at_most [OF _ dcount_at_most, of 35 q F64] by simp
  then have "at_most 116 (fmul F64 (fmul F64 (total_area_mm2 ?c) (ac_leakage_w_per_mm2 ?c)) (fmul F64 q ?t))"
    using fmul_at_most [OF leakage_parts(2) [of node], of 99 _ F64] by simp
  moreover have "at_most 40 (dlit (10 ^ 12))" by (rule dlit_at_most) (simp_all add: pow2_def)
  ultimately have leak: "at_most 156 leak" unfolding leak_def using fmul_at_most [of 116 _ 40 _ F64] by simp
  have cm: "at_most 92 (compute_energy_pJ ?c k)" "at_most 77 (memory_energy_pJ ?c w)"
    by (rule compute_energy_at_most memory_energy_at_most)+
  then have "at_most 93 (fadd F64 (compute_energy_pJ ?c k) (memory_energy_pJ ?c w))"
    using fadd_at_most [of 92 _ _ F64] at_most_mono [of 77 _ 92] by simp
  then have "at_most 157 (fadd F64 (fadd F64 (compute_energy_pJ ?c k) (memory_energy_pJ ?c w)) leak)"
    using fadd_at_most [of 156 _ _ F64] at_most_mono [of 93 _ 156] leak by simp
  then have "at_most 157 (fdiv F64 (fadd F64 (fadd F64 (compute_energy_pJ ?c k) (memory_energy_pJ ?c w)) leak) ?t)"
    using fdiv_at_most [of 157 _ 0 64 ?t F64] t by simp
  then have "at_most 158 (fdiv F64 (fadd F64 (fadd F64 (compute_energy_pJ ?c k) (memory_energy_pJ ?c w)) leak) ?t)"
    by (rule at_most_mono) simp
  moreover have "ar_compute_pJ (asic_project ?c w) = compute_energy_pJ ?c k" "ar_memory_pJ (asic_project ?c w) = memory_energy_pJ ?c w"
    "ar_leakage_pJ (asic_project ?c w) = leak"
    "ar_total_pJ_per_token (asic_project ?c w)
       = fdiv F64 (fadd F64 (fadd F64 (compute_energy_pJ ?c k) (memory_energy_pJ ?c w)) leak) ?t"
    using k False by (simp_all add: asic_project_def Let_def q_def leak_def)
  ultimately show ?thesis using cm leak by metis
qed

section \<open>The roofline\<close>

lemma rounded_not_NaN [simp]: "rounded p s m \<noteq> NaN"
  by (simp add: rounded_def split: option.split)

lemma ratio_not_NaN: "at_most k a \<Longrightarrow> ratio a b \<noteq> NaN"
  by (cases b) (auto simp: ratio_def at_most_def split: if_splits)

lemma dmax_total:
  assumes "a \<noteq> NaN" "b \<noteq> NaN"
  shows "dge (dmax a b) a" "dge (dmax a b) b" "dmax a b = a \<or> dmax a b = b" "dge b a \<longleftrightarrow> flt_eq (dmax a b) b"
  using assms by (cases a; cases b; auto simp: dge_def dmax_def)+

lemma gpu_times_total:
  "gr_memory_time_s (gpu_project c d) \<noteq> NaN" "gr_compute_time_s (gpu_project c d) \<noteq> NaN"
proof -
  have "at_most 2 (dlit 2)" by (rule dlit_at_most) (simp_all add: pow2_def)
  then have m: "at_most 66 (fmul F64 (dlit 2) (dcount x))" for x
    using fmul_at_most [OF _ dcount_at_most, of 2 "dlit 2" F64] by simp
  show "gr_memory_time_s (gpu_project c d) \<noteq> NaN" "gr_compute_time_s (gpu_project c d) \<noteq> NaN"
    using ratio_not_NaN [OF dcount_at_most] ratio_not_NaN [OF m] by (auto simp: gpu_project_def Let_def)
qed

text \<open>
  The GPU projection is a roofline for every configuration and kernel: the wall time is the compute or the memory time and at least both, no time is a NaN, and the kernel is reported as memory bound exactly when the wall time is the memory time.
\<close>

theorem gpu_roofline:
  "let r = gpu_project c d
   in dge (gr_wall_time_s r) (gr_compute_time_s r) \<and> dge (gr_wall_time_s r) (gr_memory_time_s r) \<and>
      gr_wall_time_s r \<in> {gr_compute_time_s r, gr_memory_time_s r} \<and>
      gr_memory_bound r = flt_eq (gr_wall_time_s r) (gr_memory_time_s r)"
proof -
  let ?r = "gpu_project c d"
  have "gr_wall_time_s ?r = dmax (gr_compute_time_s ?r) (gr_memory_time_s ?r)"
    "gr_memory_bound ?r = dge (gr_memory_time_s ?r) (gr_compute_time_s ?r)"
    by (simp_all add: gpu_project_def Let_def)
  then show ?thesis using dmax_total [OF gpu_times_total(2,1), of c d c d] by (auto simp: Let_def)
qed

end
