(* ===== verification/TerArgs.thy ===== *)
theory TerArgs
  imports TerText TerEnergy
begin

text \<open>
  The command line of the harness (\<open>v2/src/harness/tersim_main.cpp\<close>): its options, the model presets
  and the list of golden tokens. What is written to the error stream is left out.
\<close>

section \<open>Options\<close>

record args =
  ha_workload :: string
  ha_kernel :: string
  ha_K :: int
  ha_N :: int
  ha_iters :: int
  ha_model :: string
  ha_out_path :: string
  ha_format :: string
  ha_asic_node :: string
  ha_model_path :: string
  ha_n_gen :: int
  ha_n_trits :: int
  ha_block_size :: int
  ha_fp_bypass :: bool
  ha_bitnet :: bool
  ha_fp32_weights :: bool
  ha_golden :: string

definition default_args :: args where
  "default_args = \<lparr>ha_workload = ''kernel'', ha_kernel = ''tk_matmul_b_9t'', ha_K = 27, ha_N = 1, ha_iters = 1,
     ha_model = ''tiny'', ha_out_path = '''', ha_format = ''json'', ha_asic_node = ''22nm'',
     ha_model_path = ''/Users/pc/osito-a-models/downloads/llama-3.2-1b-instruct/llama-3.2-1b-instruct-q8_0.gguf'',
     ha_n_gen = 16, ha_n_trits = 9, ha_block_size = 0, ha_fp_bypass = False, ha_bitnet = False, ha_fp32_weights = False,
     ha_golden = ''''\<rparr>"

definition parse_node :: "string \<Rightarrow> tech_node" where
  "parse_node s = (if s = ''22nm'' then N22nm else if s = ''7nm'' then N7nm else if s = ''3nm'' then N3nm else N22nm)"

text \<open>An option with a value: \<open>None\<close> when the name is not one of them.\<close>

definition eat :: "string \<Rightarrow> string \<Rightarrow> args \<Rightarrow> args res option" where
  "eat k v a =
     (if k = ''--workload'' then Some (Inr (a\<lparr>ha_workload := v\<rparr>))
      else if k = ''--kernel'' then Some (Inr (a\<lparr>ha_kernel := v\<rparr>))
      else if k = ''--model'' then Some (Inr (a\<lparr>ha_model := v\<rparr>))
      else if k = ''--out'' then Some (Inr (a\<lparr>ha_out_path := v\<rparr>))
      else if k = ''--format'' then Some (Inr (a\<lparr>ha_format := v\<rparr>))
      else if k = ''--asic-node'' then Some (Inr (a\<lparr>ha_asic_node := v\<rparr>))
      else if k = ''--model-path'' then Some (Inr (a\<lparr>ha_model_path := v\<rparr>))
      else if k = ''--golden'' then Some (Inr (a\<lparr>ha_golden := v\<rparr>))
      else if k = ''--K'' then Some (rbind (atoi v) (\<lambda>n. Inr (a\<lparr>ha_K := n\<rparr>)))
      else if k = ''--N'' then Some (rbind (atoi v) (\<lambda>n. Inr (a\<lparr>ha_N := n\<rparr>)))
      else if k = ''--iters'' then Some (rbind (atoi v) (\<lambda>n. Inr (a\<lparr>ha_iters := n\<rparr>)))
      else if k = ''--n-gen'' then Some (rbind (atoi v) (\<lambda>n. Inr (a\<lparr>ha_n_gen := n\<rparr>)))
      else if k = ''--n-trits'' then Some (rbind (atoi v) (\<lambda>n. Inr (a\<lparr>ha_n_trits := n\<rparr>)))
      else if k = ''--block-size'' then Some (rbind (atoi v) (\<lambda>n. Inr (a\<lparr>ha_block_size := n\<rparr>)))
      else None)"

text \<open>What the command line asks for: a run, or the end of the process with a code.\<close>

datatype request = Run args | Exit int

fun flag :: "string \<Rightarrow> args \<Rightarrow> request" where
  "flag k a =
     (if k = ''--fp-bypass'' then Run (a\<lparr>ha_fp_bypass := True\<rparr>)
      else if k = ''--bitnet'' then Run (a\<lparr>ha_bitnet := True\<rparr>)
      else if k = ''--fp32-weights'' then Run (a\<lparr>ha_fp32_weights := True, ha_fp_bypass := True\<rparr>)
      else if k = ''-h'' \<or> k = ''--help'' then Exit 0 else Exit 1)"

text \<open>
  The loop over \<open>argv\<close>; an option that would take its value beyond the end falls through to the
  flags.
\<close>

fun parse_args :: "args \<Rightarrow> string list \<Rightarrow> request res" where
  "parse_args a [] = Inr (Run a)"
| "parse_args a [k] = Inr (flag k a)"
| "parse_args a (k # v # rest) =
     (case eat k v a of
        Some r \<Rightarrow> rbind r (\<lambda>b. parse_args b rest)
      | None \<Rightarrow> (case flag k a of Exit c \<Rightarrow> Inr (Exit c) | Run b \<Rightarrow> parse_args b (v # rest)))"

declare flag.simps [simp del]

section \<open>Golden tokens\<close>

definition kLlamaQ8Golden :: "int list" where
  "kLlamaQ8Golden = [28783, 25, 220, 679, 24, 11, 220, 2366, 15, 11, 220, 2366, 16, 11, 220, 2366]"

definition parse_golden :: "string \<Rightarrow> int list res" where
  "parse_golden s = rmap atoi (filter (\<lambda>w. w \<noteq> []) (split_on CHR '','' s))"

definition golden_of :: "args \<Rightarrow> int list res" where
  "golden_of a = (if ha_golden a = [] then Inr kLlamaQ8Golden else parse_golden (ha_golden a))"

text \<open>The positions at which the generated tokens equal the golden ones.\<close>

definition count_matches :: "int list \<Rightarrow> int list \<Rightarrow> nat" where
  "count_matches gen golden = length (filter (\<lambda>i. gen ! i = golden ! i) [0..<min (length gen) (length golden)])"

section \<open>Model presets\<close>

record model_dims =
  md_name :: string
  md_H :: int
  md_HD :: int
  md_Hn :: int
  md_Kn :: int
  md_I :: int
  md_layers :: int
  md_vocab :: int

definition dims_for :: "string \<Rightarrow> model_dims" where
  "dims_for m =
     (if m = ''llama1b'' then \<lparr>md_name = ''llama1b'', md_H = 2048, md_HD = 64, md_Hn = 32, md_Kn = 8, md_I = 8192,
        md_layers = 16, md_vocab = 128256\<rparr>
      else if m = ''bitnet2b'' then \<lparr>md_name = ''bitnet2b'', md_H = 2560, md_HD = 128, md_Hn = 20, md_Kn = 5, md_I = 6912,
        md_layers = 30, md_vocab = 128256\<rparr>
      else \<lparr>md_name = ''tiny'', md_H = 64, md_HD = 32, md_Hn = 2, md_Kn = 1, md_I = 128, md_layers = 4, md_vocab = 512\<rparr>)"

section \<open>Facts\<close>

lemma rmap_atoi_show: "(\<And>k. k \<in> set ks \<Longrightarrow> in_i32 k) \<Longrightarrow> rmap atoi (map show_int ks) = Inr ks"
  by (induction ks) (auto simp: atoi_show_int)

text \<open>
  Reading a golden-token list undoes printing it: every list of \<open>int\<close> values joined by commas is parsed back by parse_golden to exactly that list, negative values and the empty list included.
\<close>

theorem parse_golden_roundtrip:
  assumes "\<forall>k \<in> set ks. in_i32 k"
  shows "parse_golden (join_with '','' (map show_int ks)) = Inr ks"
proof (cases "ks = []")
  case True
  then show ?thesis by (simp add: parse_golden_def)
next
  case False
  then have "split_on CHR '','' (join_with '','' (map show_int ks)) = map show_int ks"
    using comma_show_int(1) by (intro split_on_join) auto
  moreover have "filter (\<lambda>w. w \<noteq> []) (map show_int ks) = map show_int ks"
    using comma_show_int(2) by (auto simp: filter_id_conv)
  ultimately show ?thesis using assms by (simp add: parse_golden_def rmap_atoi_show)
qed

theorem parse_golden_roundtrip_witness:
  "parse_golden (join_with '','' (map show_int [28783, - 7, 0])) = Inr [28783, - 7, 0]"
  by (rule parse_golden_roundtrip) (simp add: in_i32_def)

lemma eat_flags: "eat k v a = Some (Inr b) \<Longrightarrow> ha_fp32_weights b = ha_fp32_weights a \<and> ha_fp_bypass b = ha_fp_bypass a"
  by (auto simp: eat_def split: if_splits)

lemma flag_flags: "flag k a = Run b \<Longrightarrow> (ha_fp32_weights a \<longrightarrow> ha_fp_bypass a) \<Longrightarrow> ha_fp32_weights b \<longrightarrow> ha_fp_bypass b"
  by (auto simp: flag.simps split: if_splits)

lemma parse_args_flags:
  "parse_args a as = Inr (Run b) \<Longrightarrow> (ha_fp32_weights a \<longrightarrow> ha_fp_bypass a) \<Longrightarrow> ha_fp32_weights b \<longrightarrow> ha_fp_bypass b"
proof (induction a as rule: parse_args.induct)
  case (2 a k)
  then show ?case using flag_flags by simp
next
  case (3 a k v rest)
  show ?case
  proof (cases "eat k v a")
    case None
    then obtain c where "flag k a = Run c" "parse_args c (v # rest) = Inr (Run b)"
      using "3.prems"(1) by (auto split: request.splits)
    then show ?thesis using "3.IH"(1) [OF None] flag_flags "3.prems"(2) by blast
  next
    case (Some r)
    then obtain c where "eat k v a = Some (Inr c)" "r = Inr c" "parse_args c rest = Inr (Run b)"
      using "3.prems"(1) by auto
    then show ?thesis using "3.IH"(2) [OF Some] eat_flags [of k v a c] "3.prems"(2) by simp
  qed
qed simp

end
