(* ===== verification/TerReport.thy ===== *)
theory TerReport
  imports TerText TerEnergy TerPipeline
begin

text \<open>
  The unified report and its two output formats (\<open>v2/include/tersim/report.hpp\<close>,
  \<open>v2/src/harness/report.cpp\<close>). The stream's formatting of a \<open>double\<close> is the parameter \<open>show_d\<close>.
\<close>

section \<open>The report\<close>

record correctness =
  co_has_golden :: bool
  co_tokens_generated :: int
  co_tokens_matched :: int
  co_generated :: "int list"
  co_golden :: "int list"

definition no_correctness :: correctness where
  "no_correctness = \<lparr>co_has_golden = False, co_tokens_generated = 0, co_tokens_matched = 0, co_generated = [], co_golden = []\<rparr>"

record workload_meta =
  wm_timestamp :: string
  wm_workload_name :: string
  wm_host_device :: string
  wm_op_count_total :: "64 word"
  wm_iters :: int

record report =
  rp_meta :: workload_meta
  rp_cpu :: pipeline_report
  rp_mem :: mem_stats
  rp_gpu :: gpu_report
  rp_asic :: asic_report
  rp_gpu_desc :: gpu_kernel
  rp_asic_workload :: asic_workload
  rp_correctness :: correctness

definition hit_rate :: "cache_stats \<Rightarrow> flt" where
  "hit_rate c = (if cs_accesses c \<noteq> 0 then fdiv F64 (dcount (cs_hits c)) (dcount (cs_accesses c)) else fzero)"

definition ipc :: "pipeline_report \<Rightarrow> flt" where
  "ipc r = (if pr_cycles_total r \<noteq> 0 then fdiv F64 (dcount (pr_insns_total r)) (dcount (pr_cycles_total r)) else fzero)"

section \<open>Names\<close>

definition QUOTE :: char where "QUOTE = CHR 0x22"

definition BACKSLASH :: char where "BACKSLASH = CHR 0x5C"

definition NL :: char where "NL = CHR 0x0A"

definition json_string :: "string \<Rightarrow> string" where
  "json_string s = [QUOTE] @ concat (map (\<lambda>c. if c = BACKSLASH \<or> c = QUOTE then [BACKSLASH, c] else [c]) s) @ [QUOTE]"

fun fu_name :: "fu_kind \<Rightarrow> string" where
  "fu_name FU_Scalar = ''scalar''" | "fu_name FU_Vector = ''vector''" | "fu_name FU_Memory = ''memory''"
| "fu_name FU_Branch = ''branch''" | "fu_name FU_Control = ''control''"

fun node_name :: "tech_node \<Rightarrow> string" where
  "node_name N22nm = ''22nm''" | "node_name N7nm = ''7nm''" | "node_name N3nm = ''3nm''"

fun path_name :: "gpu_path \<Rightarrow> string" where
  "path_name Dp4a = ''dp4a''" | "path_name Int8Tc = ''int8_tc''" | "path_name Int4Tc = ''int4_tc''"
| "path_name AddOnly = ''add_only''"

section \<open>JSON\<close>

text \<open>One \<open>"key": value\<close> line at an indentation, with what follows the value.\<close>

definition key :: "nat \<Rightarrow> string \<Rightarrow> string" where
  "key n k = replicate n CHR '' '' @ [QUOTE] @ k @ [QUOTE] @ '': ''"

definition field :: "nat \<Rightarrow> string \<Rightarrow> string \<Rightarrow> string \<Rightarrow> string" where
  "field n k v after = key n k @ v @ after @ [NL]"

definition object :: "string \<Rightarrow> string \<Rightarrow> string \<Rightarrow> string" where
  "object k body after = key 2 k @ ''{'' @ [NL] @ body @ ''  }'' @ after"

definition kinds :: "fu_kind list" where
  "kinds = [FU_Scalar, FU_Vector, FU_Memory, FU_Branch, FU_Control]"

definition json_metadata :: "workload_meta \<Rightarrow> string" where
  "json_metadata m = object ''metadata''
     (field 4 ''timestamp'' (json_string (wm_timestamp m)) '','' @
      field 4 ''workload'' (json_string (wm_workload_name m)) '','' @
      field 4 ''host_device'' (json_string (wm_host_device m)) '','' @
      field 4 ''op_count_total'' (show_u64 (wm_op_count_total m)) '','' @
      field 4 ''iters'' (show_int (wm_iters m)) '''') ('','' @ [NL])"

definition json_cpu :: "(flt \<Rightarrow> string) \<Rightarrow> pipeline_report \<Rightarrow> string" where
  "json_cpu show_d r = object ''cpu_pipeline''
     (field 4 ''cycles_total'' (show_u64 (pr_cycles_total r)) '','' @
      field 4 ''insns_total'' (show_u64 (pr_insns_total r)) '','' @
      field 4 ''ipc'' (show_d (ipc r)) '','' @
      field 4 ''mshr_stall_cycles'' (show_u64 (pr_mshr_stall_cycles r)) '','' @
      field 4 ''bp_penalty_cycles'' (show_u64 (pr_bp_penalty_cycles r)) '','' @
      key 4 ''fu_mix'' @ ''{'' @ [NL] @
      concat (map (\<lambda>(i, k). field 6 (fu_name k) (show_u64 (pr_insns_by_fu r ! i)) (if i + 1 < kFuKindCount then '','' else ''''))
        (enumerate 0 kinds)) @
      ''    }'' @ [NL]) ('','' @ [NL])"

definition json_memory :: "(flt \<Rightarrow> string) \<Rightarrow> mem_stats \<Rightarrow> string" where
  "json_memory show_d m = object ''memory''
     (field 4 ''l1d_accesses'' (show_u64 (cs_accesses (ms_l1d m))) '','' @
      field 4 ''l1d_hits'' (show_u64 (cs_hits (ms_l1d m))) '','' @
      field 4 ''l1d_misses'' (show_u64 (cs_misses (ms_l1d m))) '','' @
      field 4 ''l1d_hit_rate'' (show_d (hit_rate (ms_l1d m))) '','' @
      field 4 ''l2_accesses'' (show_u64 (cs_accesses (ms_l2 m))) '','' @
      field 4 ''l2_hits'' (show_u64 (cs_hits (ms_l2 m))) '','' @
      field 4 ''l2_hit_rate'' (show_d (hit_rate (ms_l2 m))) '','' @
      field 4 ''dram_accesses'' (show_u64 (ms_dram_accesses m)) '','' @
      field 4 ''mshr_stall_cycles'' (show_u64 (ms_mshr_stall m)) '''') ('','' @ [NL])"

definition milli :: "flt \<Rightarrow> flt" where
  "milli x = fmul F64 x (dlit 1000)"

definition json_gpu :: "(flt \<Rightarrow> string) \<Rightarrow> gpu_kernel \<Rightarrow> gpu_report \<Rightarrow> string" where
  "json_gpu show_d d g = object ''gpu_projection''
     (field 4 ''path'' (json_string (path_name (gk_path d))) '','' @
      field 4 ''macs'' (show_u64 (gk_macs d)) '','' @
      field 4 ''mem_bytes'' (show_u64 (gk_load_bytes d + gk_store_bytes d)) '','' @
      field 4 ''batch_m'' (show_int (gk_batch_m d)) '','' @
      field 4 ''compute_time_ms'' (show_d (milli (gr_compute_time_s g))) '','' @
      field 4 ''memory_time_ms'' (show_d (milli (gr_memory_time_s g))) '','' @
      field 4 ''wall_time_ms'' (show_d (milli (gr_wall_time_s g))) '','' @
      field 4 ''memory_bound'' (if gr_memory_bound g then ''true'' else ''false'') '','' @
      field 4 ''bw_utilization'' (show_d (gr_bw_utilization g)) '','' @
      field 4 ''tops_achieved'' (show_d (gr_tops_achieved g)) '''') ('','' @ [NL])"

definition json_asic :: "(flt \<Rightarrow> string) \<Rightarrow> asic_report \<Rightarrow> string" where
  "json_asic show_d a = object ''asic_projection''
     (field 4 ''node'' (json_string (node_name N22nm)) '','' @
      field 4 ''total_energy_pJ_per_token'' (show_d (ar_total_pJ_per_token a)) '','' @
      field 4 ''perf_per_watt_tokps'' (show_d (ar_perf_per_watt a)) '','' @
      field 4 ''area_mm2'' (show_d (ar_area_mm2 a)) '','' @
      field 4 ''freq_GHz'' (show_d (ar_freq_GHz a)) '','' @
      field 4 ''wall_time_s_per_token'' (show_d (ar_wall_s_per_token a)) '','' @
      key 4 ''breakdown'' @ ''{'' @ [NL] @
      field 6 ''compute_pJ'' (show_d (ar_compute_pJ a)) '','' @
      field 6 ''memory_pJ'' (show_d (ar_memory_pJ a)) '','' @
      field 6 ''leakage_pJ'' (show_d (ar_leakage_pJ a)) '''' @
      ''    }'' @ [NL]) ''''"

definition int_array :: "int list \<Rightarrow> string" where
  "int_array v = ''['' @ join_with '', '' (map show_int v) @ '']''"

definition json_correctness :: "(flt \<Rightarrow> string) \<Rightarrow> correctness \<Rightarrow> string" where
  "json_correctness show_d c =
     (if co_has_golden c then
        '','' @ [NL] @ object ''correctness''
          (field 4 ''tokens_generated'' (show_int (co_tokens_generated c)) '','' @
           field 4 ''tokens_matched'' (show_int (co_tokens_matched c)) '','' @
           field 4 ''match_fraction'' (show_d (if co_tokens_generated c \<noteq> 0
             then fdiv F64 (of_int_flt F64 (co_tokens_matched c)) (of_int_flt F64 (co_tokens_generated c)) else fzero)) '','' @
           field 4 ''generated'' (int_array (co_generated c)) '','' @
           field 4 ''golden'' (int_array (co_golden c)) '''') [NL]
      else [NL])"

definition emit_json :: "(flt \<Rightarrow> string) \<Rightarrow> report \<Rightarrow> string" where
  "emit_json show_d r =
     ''{'' @ [NL] @ json_metadata (rp_meta r) @ json_cpu show_d (rp_cpu r) @ json_memory show_d (rp_mem r) @
     json_gpu show_d (rp_gpu_desc r) (rp_gpu r) @ json_asic show_d (rp_asic r) @ json_correctness show_d (rp_correctness r) @
     ''}'' @ [NL]"

section \<open>CSV\<close>

definition csv_columns :: "string list" where
  "csv_columns = [''workload'', ''cycles'', ''insns'', ''ipc'', ''l1d_hit_rate'', ''dram_accesses'', ''gpu_path'',
     ''gpu_wall_ms'', ''gpu_bw_util'', ''asic_pJ_per_tok'', ''asic_perf_per_watt_tokps'', ''asic_freq_GHz'']"

definition emit_csv_header :: string where
  "emit_csv_header = join_with '','' csv_columns @ [NL]"

definition csv_values :: "(flt \<Rightarrow> string) \<Rightarrow> report \<Rightarrow> string list" where
  "csv_values show_d r =
     [wm_workload_name (rp_meta r), show_u64 (pr_cycles_total (rp_cpu r)), show_u64 (pr_insns_total (rp_cpu r)),
      show_d (ipc (rp_cpu r)), show_d (hit_rate (ms_l1d (rp_mem r))), show_u64 (ms_dram_accesses (rp_mem r)),
      path_name (gk_path (rp_gpu_desc r)), show_d (milli (gr_wall_time_s (rp_gpu r))), show_d (gr_bw_utilization (rp_gpu r)),
      show_d (ar_total_pJ_per_token (rp_asic r)), show_d (ar_perf_per_watt (rp_asic r)), show_d (ar_freq_GHz (rp_asic r))]"

definition emit_csv_row :: "(flt \<Rightarrow> string) \<Rightarrow> report \<Rightarrow> string" where
  "emit_csv_row show_d r = join_with '','' (csv_values show_d r) @ [NL]"

section \<open>Facts\<close>

text \<open>A reader of the JSON strings.\<close>

fun unescape :: "string \<Rightarrow> string option" where
  "unescape [] = None"
| "unescape [c] = (if c = QUOTE then Some [] else None)"
| "unescape (c # d # s) =
     (if c = QUOTE then None
      else if c = BACKSLASH then map_option ((#) d) (unescape s)
      else map_option ((#) c) (unescape (d # s)))"

definition read_json_string :: "string \<Rightarrow> string option" where
  "read_json_string s = (case s of c # t \<Rightarrow> if c = QUOTE then unescape t else None | [] \<Rightarrow> None)"

lemma unescape_plain: "c \<noteq> QUOTE \<Longrightarrow> c \<noteq> BACKSLASH \<Longrightarrow> t \<noteq> [] \<Longrightarrow> unescape (c # t) = map_option ((#) c) (unescape t)"
  by (cases t) auto

lemma unescape_json: "unescape (concat (map (\<lambda>c. if c = BACKSLASH \<or> c = QUOTE then [BACKSLASH, c] else [c]) s) @ [QUOTE]) = Some s"
proof (induction s)
  case (Cons c s)
  have "BACKSLASH \<noteq> QUOTE" by (simp add: BACKSLASH_def QUOTE_def)
  then show ?case using Cons by (auto simp: unescape_plain)
qed simp

text \<open>
  The JSON escaping is unambiguous: a reader that undoes a backslash before any character and stops at the first bare quote gets back exactly the string that was written, whatever quotes and backslashes it holds.
\<close>

theorem json_string_roundtrip: "read_json_string (json_string s) = Some s"
  by (simp add: read_json_string_def json_string_def unescape_json)

lemma count_join: "count_list (join_with '','' ws) CHR '','' = sum_list (map (\<lambda>w. count_list w CHR '','') ws) + (length ws - 1)"
  by (induction "'',''" ws rule: join_with.induct) auto

lemma comma_show_u64: "count_list (show_u64 w) CHR '','' = 0"
  using dec_string_digits(1) [of "unat w"] digits_not(3) by (auto simp: show_u64_def count_list_0_iff)

lemma comma_path_name: "count_list (path_name p) CHR '','' = 0"
  by (cases p) simp_all

text \<open>The columns of a CSV row: the name is written without quoting.\<close>

lemma csv_row_columns:
  assumes "\<And>x. CHR '','' \<notin> set (show_d x)"
  shows "length (split_on CHR '','' (emit_csv_row show_d r))
    = length (split_on CHR '','' emit_csv_header) + count_list (wm_workload_name (rp_meta r)) CHR '',''"
proof -
  have c: "count_list (show_d x) CHR '','' = 0" for x using assms by (simp add: count_list_0_iff)
  have "count_list (join_with '','' csv_columns) CHR '','' = 11" by (simp add: count_join csv_columns_def)
  then show ?thesis
    by (simp add: length_split_on emit_csv_row_def emit_csv_header_def count_join csv_values_def c comma_show_u64 comma_path_name NL_def)
qed

end
