(* ===== verification/TerGguf.thy ===== *)
theory TerGguf
  imports TerTransformer TerText
begin

unbundle bit_operations_syntax

text \<open>
  Model loading: the decoders of the weight formats (\<open>vendor/ntransformer/core/dequant.cpp\<close>),
  \<open>tensor_to_trit\<close> (\<open>src/host/load_gguf.cpp\<close>) and the three loaders (\<open>src/tx/transformer.cpp\<close>). The
  GGUF reader is a record of what its methods return; the bytes of a tensor are a list.
\<close>

section \<open>Bytes and floats\<close>

text \<open>Little-endian reads from a byte buffer.\<close>

definition byte_u16 :: "8 word list \<Rightarrow> nat \<Rightarrow> 32 word res" where
  "byte_u16 bs i =
     rbind (read_at bs i) (\<lambda>a. rbind (read_at bs (i + 1)) (\<lambda>b. Inr (ucast a OR push_bit 8 (ucast b))))"

definition byte_u32 :: "8 word list \<Rightarrow> nat \<Rightarrow> 32 word res" where
  "byte_u32 bs i =
     rbind (byte_u16 bs i) (\<lambda>lo. rbind (byte_u16 bs (i + 2)) (\<lambda>hi. Inr (lo OR push_bit 16 hi)))"

text \<open>The \<open>float\<close> with a given bit pattern (\<open>std::memcpy\<close>).\<close>

definition float_of_fields :: "bool \<Rightarrow> nat \<Rightarrow> nat \<Rightarrow> flt" where
  "float_of_fields s e m =
     (if e = 255 then if m = 0 then Inf s else NaN
      else if e = 0 then Num s (of_nat m * pow2 (- 149))
      else Num s (of_nat (2 ^ 23 + m) * pow2 (int e - 150)))"

definition float_of_bits :: "32 word \<Rightarrow> flt" where
  "float_of_bits f = float_of_fields (bit f 31) (unat (drop_bit 23 f AND 0xFF)) (unat (f AND 0x7FFFFF))"

text \<open>\<open>while (!(mant & 0x400)) { mant <<= 1; --exp; }\<close>; ten steps suffice for a non-zero 10-bit number.\<close>

fun renormalise :: "nat \<Rightarrow> 32 word \<Rightarrow> 32 word \<Rightarrow> 32 word \<times> 32 word" where
  "renormalise 0 mant ex = (mant, ex)"
| "renormalise (Suc n) mant ex =
     (if mant AND 0x400 = 0 then renormalise n (push_bit 1 mant) (ex - 1) else (mant, ex))"

definition half_bits :: "32 word \<Rightarrow> 32 word" where
  "half_bits h =
     (let s = push_bit 16 (h AND 0x8000); ex = drop_bit 10 h AND 0x1F; mant = h AND 0x3FF
      in if ex = 0 then
           if mant = 0 then s
           else (case renormalise 10 mant 1 of (mant, ex) \<Rightarrow>
                  s OR push_bit 23 (127 - 15 - 1 + ex) OR push_bit 13 (mant AND 0x3FF))
         else if ex = 0x1F then s OR 0x7F800000 OR push_bit 13 mant
         else s OR push_bit 23 (ex + (127 - 15)) OR push_bit 13 mant)"

definition half_to_float :: "32 word \<Rightarrow> flt" where
  "half_to_float h = float_of_bits (half_bits h)"

section \<open>Decoders\<close>

text \<open>A decoder writes a prefix of the output buffer.\<close>

definition overwrite :: "'a list \<Rightarrow> 'a list res \<Rightarrow> 'a list res" where
  "overwrite out r =
     rbind r (\<lambda>ys. if length ys \<le> length out then Inr (ys @ drop (length ys) out)
       else Inl (OutOfRange ''write beyond a buffer''))"

definition dequant_f16 :: "8 word list \<Rightarrow> nat \<Rightarrow> flt list \<Rightarrow> flt list res" where
  "dequant_f16 src n out =
     overwrite out (rmap (\<lambda>i. rbind (byte_u16 src (2 * i)) (\<lambda>h. Inr (half_to_float h))) [0..<n])"

definition dequant_f32 :: "8 word list \<Rightarrow> nat \<Rightarrow> flt list \<Rightarrow> flt list res" where
  "dequant_f32 src n out =
     overwrite out (rmap (\<lambda>i. rbind (byte_u32 src (4 * i)) (\<lambda>f. Inr (float_of_bits f))) [0..<n])"

definition i8 :: "8 word \<Rightarrow> flt" where
  "i8 b = of_int_flt F32 (sint b)"

definition u8 :: "8 word \<Rightarrow> flt" where
  "u8 b = of_int_flt F32 (uint b)"

definition q8_block :: "8 word list \<Rightarrow> nat \<Rightarrow> flt list res" where
  "q8_block src blk =
     rbind (byte_u16 src blk) (\<lambda>h. let d = half_to_float h
       in rmap (\<lambda>i. rbind (read_at src (blk + 2 + i)) (\<lambda>q. Inr (fmul F32 d (i8 q)))) [0..<32])"

definition dequant_q8_0 :: "8 word list \<Rightarrow> nat \<Rightarrow> flt list \<Rightarrow> flt list res" where
  "dequant_q8_0 src n out =
     overwrite out (rbind (rmap (\<lambda>b. q8_block src (b * 34)) [0..<n div 32]) (\<lambda>xs. Inr (concat xs)))"

text \<open>The packed 6-bit scale and minimum of sub-block \<open>j\<close>.\<close>

definition scale_min_k4 :: "nat \<Rightarrow> 8 word list \<Rightarrow> 8 word \<times> 8 word" where
  "scale_min_k4 j q =
     (if j < 4 then (q ! j AND 63, q ! (j + 4) AND 63)
      else ((q ! (j + 4) AND 0xF) OR push_bit 4 (drop_bit 6 (q ! (j - 4))),
            drop_bit 4 (q ! (j + 4)) OR push_bit 4 (drop_bit 6 (q ! (j - 0)))))"

definition q4k_group :: "flt \<Rightarrow> flt \<Rightarrow> 8 word list \<Rightarrow> 8 word list \<Rightarrow> nat \<Rightarrow> flt list" where
  "q4k_group d dmin scales qs g =
     (case (scale_min_k4 (2 * g) scales, scale_min_k4 (2 * g + 1) scales) of ((sc1, mn1), (sc2, mn2)) \<Rightarrow>
        let d1 = fmul F32 d (u8 sc1); m1 = fmul F32 dmin (u8 mn1);
            d2 = fmul F32 d (u8 sc2); m2 = fmul F32 dmin (u8 mn2);
            q = slice qs (g * 32) 32
        in map (\<lambda>b. fsub F32 (fmul F32 d1 (u8 (b AND 0xF))) m1) q @
           map (\<lambda>b. fsub F32 (fmul F32 d2 (u8 (drop_bit 4 b))) m2) q)"

definition take_block :: "8 word list \<Rightarrow> nat \<Rightarrow> nat \<Rightarrow> 8 word list res" where
  "take_block src a n =
     (if a + n \<le> length src then Inr (slice src a n) else Inl (OutOfRange ''read beyond a buffer''))"

definition q4k_block :: "8 word list \<Rightarrow> flt list res" where
  "q4k_block blk =
     rbind (byte_u16 blk 0) (\<lambda>dh. rbind (byte_u16 blk 2) (\<lambda>mh.
       Inr (concat (map (q4k_group (half_to_float dh) (half_to_float mh) (slice blk 4 12) (slice blk 16 128)) [0..<4]))))"

definition dequant_q4_k_m :: "8 word list \<Rightarrow> nat \<Rightarrow> flt list \<Rightarrow> flt list res" where
  "dequant_q4_k_m src n out =
     overwrite out (rbind (rmap (\<lambda>b. rbind (take_block src (b * 144) 144) q4k_block) [0..<n div 256]) (\<lambda>xs. Inr (concat xs)))"

text \<open>
  One 6-bit code: the low four bits from \<open>ql\<close>, the high two from \<open>qh\<close>; group \<open>g\<close> of a half
  covers the outputs \<open>32 g .. 32 g + 31\<close>.
\<close>

definition q6k_code :: "8 word list \<Rightarrow> 8 word list \<Rightarrow> nat \<Rightarrow> nat \<Rightarrow> int" where
  "q6k_code ql qh g l =
     (let low = (if g < 2 then ql ! (l + 32 * g) AND 0xF else drop_bit 4 (ql ! (l + 32 * (g - 2))));
          high = drop_bit (2 * g) (qh ! l) AND 3
      in sint (low OR push_bit 4 high) - 32)"

definition q6k_half :: "flt \<Rightarrow> 8 word list \<Rightarrow> 8 word list \<Rightarrow> 8 word list \<Rightarrow> flt list" where
  "q6k_half d ql qh sc =
     concat (map (\<lambda>g. map (\<lambda>l. fmul F32 (fmul F32 d (i8 (sc ! (l div 16 + 2 * g)))) (of_int_flt F32 (q6k_code ql qh g l)))
       [0..<32]) [0..<4])"

definition q6k_block :: "8 word list \<Rightarrow> flt list res" where
  "q6k_block blk =
     rbind (byte_u16 blk 208) (\<lambda>dh. let d = half_to_float dh
       in Inr (concat (map (\<lambda>h. q6k_half d (slice blk (h * 64) 64) (slice blk (128 + h * 32) 32) (slice blk (192 + h * 8) 8)) [0..<2])))"

definition dequant_q6_k :: "8 word list \<Rightarrow> nat \<Rightarrow> flt list \<Rightarrow> flt list res" where
  "dequant_q6_k src n out =
     overwrite out (rbind (rmap (\<lambda>b. rbind (take_block src (b * 210) 210) q6k_block) [0..<n div 256]) (\<lambda>xs. Inr (concat xs)))"

definition i2s_lut :: "8 word \<Rightarrow> flt" where
  "i2s_lut c = (if c = 0 then Num True 1 else if c = 2 then Num False 1 else fzero)"

definition i2s_block :: "flt \<Rightarrow> 8 word list \<Rightarrow> flt list" where
  "i2s_block scale bb =
     concat (map (\<lambda>g. map (\<lambda>p. fmul F32 (i2s_lut (drop_bit (6 - g * 2) (bb ! p) AND 3)) scale) [0..<32]) [0..<4])"

definition dequant_i2_s :: "8 word list \<Rightarrow> nat \<Rightarrow> flt list \<Rightarrow> flt list res" where
  "dequant_i2_s src n out =
     rbind (byte_u32 src (n div 4)) (\<lambda>s.
     rbind (rmap (\<lambda>b. rbind (take_block src (b * 32) 32) (\<lambda>bb. Inr (i2s_block (float_of_bits s) bb))) [0..<n div 128]) (\<lambda>xs.
     overwrite out (Inr (concat xs @ replicate (n - n div 128 * 128) fzero))))"

section \<open>Tensors\<close>

datatype nt_dtype = NT_F32 | NT_F16 | NT_Q8_0 | NT_Q4_0 | NT_Q4_K_M | NT_Q6_K | NT_Q5_K | NT_Q2_K | NT_I32 | NT_TERNARY | NT_I2_S

record nt_tensor =
  nt_cpu :: bool
  nt_dtype_of :: nt_dtype
  nt_shape :: "int list"
  nt_data :: "8 word list"

definition dequant_tensor :: "nt_tensor \<Rightarrow> nat \<Rightarrow> flt list \<Rightarrow> flt list res" where
  "dequant_tensor t n out =
     (case nt_dtype_of t of
        NT_F32 \<Rightarrow> dequant_f32 (nt_data t) n out
      | NT_F16 \<Rightarrow> dequant_f16 (nt_data t) n out
      | NT_Q8_0 \<Rightarrow> dequant_q8_0 (nt_data t) n out
      | NT_Q4_K_M \<Rightarrow> dequant_q4_k_m (nt_data t) n out
      | NT_Q6_K \<Rightarrow> dequant_q6_k (nt_data t) n out
      | NT_I2_S \<Rightarrow> dequant_i2_s (nt_data t) n out
      | _ \<Rightarrow> Inl (RuntimeError ''tensor_to_trit: unsupported dtype''))"

definition elem_count :: "int list \<Rightarrow> nat" where
  "elem_count shape = foldl (\<lambda>n d. u64 (n * to_size d)) 1 shape"

definition format_a :: "libm \<Rightarrow> int \<Rightarrow> flt list \<Rightarrow> flt list res" where
  "format_a L mant xs = rmap (\<lambda>x. rbind (from_float_trits L x mant) (\<lambda>t. Inr (to_float L t))) xs"

definition bitnet_round :: "libm \<Rightarrow> flt list \<Rightarrow> flt list" where
  "bitnet_round L xs = (case quantize_bitnet L xs of (scale, ds) \<Rightarrow> map (\<lambda>d. fmul F32 (of_int_flt F32 d) scale) ds)"

text \<open>Transposition of an \<open>[out][in]\<close> matrix (\<open>d1\<close> rows of \<open>d0\<close>) to \<open>[in][out]\<close>.\<close>

definition transpose_step :: "int \<Rightarrow> int \<Rightarrow> flt list \<Rightarrow> flt list \<Rightarrow> nat \<times> nat \<Rightarrow> flt list res" where
  "transpose_step d0 d1 src tr oi =
     (case oi of (ou, i) \<Rightarrow>
        rbind (read_at src (u64 (u64 (ou * to_size d0) + i))) (\<lambda>x.
        write_at tr (u64 (u64 (i * to_size d1) + ou)) x))"

definition transpose2 :: "int \<Rightarrow> int \<Rightarrow> flt list \<Rightarrow> flt list res" where
  "transpose2 d0 d1 src =
     rfold (transpose_step d0 d1 src) (replicate (length src) fzero)
       (concat (map (\<lambda>ou. map (\<lambda>i. (ou, i)) [0..<nat d0]) [0..<nat d1]))"

record convert_opts =
  co_n_trits :: int
  co_format_a :: bool
  co_mant :: int
  co_bitnet :: bool
  co_block_size :: int
  co_transpose :: bool
  co_fp32 :: bool

definition tensor_to_trit :: "libm \<Rightarrow> nt_tensor \<Rightarrow> convert_opts \<Rightarrow> trit_tensor res" where
  "tensor_to_trit L t c =
     (if \<not> nt_cpu t then Inl (RuntimeError ''tensor_to_trit: input must be on CPU'')
      else
        let n = elem_count (nt_shape t); shape = map to_i32 (nt_shape t)
        in rbind (new_vec 4 n fzero) (\<lambda>tmp0.
           rbind (dequant_tensor t n tmp0) (\<lambda>tmp1.
           rbind (if co_format_a c then format_a L (co_mant c) tmp1 else Inr tmp1) (\<lambda>tmp2.
           let tmp3 = (if co_bitnet c then bitnet_round L tmp2 else tmp2)
           in rbind (if co_transpose c \<and> length shape = 2 then transpose2 (shape ! 0) (shape ! 1) tmp3 else Inr tmp3) (\<lambda>tmp4.
           if co_fp32 c then Inr (mk_tensor\<lparr>tt_n_trits := co_n_trits c, tt_shape := shape, tt_fp32 := tmp4\<rparr>)
           else if co_block_size c > 0 then quantize_blocked L tmp4 shape (co_n_trits c) (co_block_size c)
           else quantize L tmp4 shape (co_n_trits c))))))"

section \<open>Loaders\<close>

text \<open>What the loaders read of the configuration, and the GGUF reader as the results of its methods.\<close>

record brandon_config =
  bc_block_count :: int
  bc_layer_map :: "int list"
  bc_n_registers :: int
  bc_use_dwa :: bool
  bc_use_value_residual :: bool
  bc_weight_tying :: bool

record model_config =
  mc_architecture :: string
  mc_bos_token_id :: int
  mc_vocab_size :: int
  mc_hidden_size :: int
  mc_intermediate_size :: int
  mc_n_layers :: int
  mc_n_heads :: int
  mc_n_kv_heads :: int
  mc_head_dim :: int
  mc_norm_eps :: flt
  mc_rope_theta :: flt
  mc_brandon :: brandon_config

record gguf =
  gg_config :: model_config
  gg_tensor :: "string \<Rightarrow> nt_tensor res"
  gg_info_shape :: "string \<Rightarrow> int list option"

definition as_floats :: "nt_tensor \<Rightarrow> flt list res" where
  "as_floats t =
     (let n = elem_count (nt_shape t)
      in rbind (new_vec 4 n fzero) (\<lambda>out.
         case nt_dtype_of t of
           NT_F32 \<Rightarrow> dequant_f32 (nt_data t) n out
         | NT_F16 \<Rightarrow> dequant_f16 (nt_data t) n out
         | _ \<Rightarrow> Inl (RuntimeError ''as_floats: only F16/F32 supported'')))"

definition load_floats :: "gguf \<Rightarrow> string \<Rightarrow> flt list res" where
  "load_floats G name = rbind (gg_tensor G name) as_floats"

definition load_matrix :: "libm \<Rightarrow> gguf \<Rightarrow> convert_opts \<Rightarrow> string \<Rightarrow> trit_tensor res" where
  "load_matrix L G c name = rbind (gg_tensor G name) (\<lambda>t. tensor_to_trit L t c)"

definition block_prefix :: "nat \<Rightarrow> string" where
  "block_prefix b = ''blk.'' @ dec_string b @ ''.''"

definition build_block :: "libm \<Rightarrow> gguf \<Rightarrow> convert_opts \<Rightarrow> nat \<Rightarrow> layer_weights res" where
  "build_block L G c b =
     (let m = (\<lambda>name. load_matrix L G (c\<lparr>co_transpose := True\<rparr>) (block_prefix b @ name));
          f = (\<lambda>name. load_floats G (block_prefix b @ name))
      in rbind (m ''attn_q.weight'') (\<lambda>q. rbind (m ''attn_k.weight'') (\<lambda>k. rbind (m ''attn_v.weight'') (\<lambda>v.
         rbind (m ''attn_output.weight'') (\<lambda>w. rbind (m ''ffn_gate.weight'') (\<lambda>g. rbind (m ''ffn_up.weight'') (\<lambda>u.
         rbind (m ''ffn_down.weight'') (\<lambda>d. rbind (f ''attn_norm.weight'') (\<lambda>an. rbind (f ''ffn_norm.weight'') (\<lambda>fn.
         Inr \<lparr>lw_q = q, lw_k = k, lw_v = v, lw_o = w, lw_gate = g, lw_up = u, lw_down = d, lw_attn_norm = an,
              lw_ffn_norm = fn, lw_attn_sub_norm = [], lw_ffn_sub_norm = []\<rparr>))))))))))"

definition plain_opts :: "int \<Rightarrow> convert_opts" where
  "plain_opts n_trits = \<lparr>co_n_trits = n_trits, co_format_a = False, co_mant = 9, co_bitnet = False, co_block_size = 0,
     co_transpose = False, co_fp32 = False\<rparr>"

text \<open>\<open>std::vector::reserve\<close> and \<open>resize\<close> refuse more elements than their maximal size.\<close>

definition reserve :: "nat \<Rightarrow> int \<Rightarrow> unit res" where
  "reserve width n = (if to_size n > (2 ^ 63 - 1) div width then Inl (LengthError ''vector::reserve'') else Inr ())"

definition new_caches :: "int \<Rightarrow> transformer \<Rightarrow> kv_cache list res" where
  "new_caches max_seq tx =
     rbind (reserve 64 (tx_n_layers tx)) (\<lambda>_.
     rmap (\<lambda>_. kv_resize max_seq (tx_n_kv_heads tx) (tx_head_dim tx)) [0..<nat (tx_n_layers tx)])"

text \<open>The fields all loaders copy from the configuration.\<close>

definition config_fields :: "model_config \<Rightarrow> transformer" where
  "config_fields c = mk_transformer\<lparr>tx_hidden_size := mc_hidden_size c, tx_head_dim := mc_head_dim c, tx_n_heads := mc_n_heads c,
     tx_n_kv_heads := mc_n_kv_heads c, tx_intermediate_size := mc_intermediate_size c, tx_n_layers := mc_n_layers c,
     tx_rmsnorm_eps := mc_norm_eps c, tx_rope_theta := mc_rope_theta c\<rparr>"

definition load_brandon_transformer :: "libm \<Rightarrow> gguf \<Rightarrow> int \<Rightarrow> int \<Rightarrow> transformer res" where
  "load_brandon_transformer L G max_seq n_trits =
     (let cfg = gg_config G; b = mc_brandon cfg;
          tx = (config_fields cfg)\<lparr>tx_vocab_size := mc_vocab_size cfg, tx_n_registers := bc_n_registers b,
            tx_use_dwa := bc_use_dwa b, tx_use_value_residual := bc_use_value_residual b, tx_weight_tying := bc_weight_tying b,
            tx_layer_map := bc_layer_map b\<rparr>
      in rbind (rbind (reserve 880 (bc_block_count b)) (\<lambda>_.
           rmap (build_block L G (plain_opts n_trits)) [0..<nat (bc_block_count b)])) (\<lambda>blocks.
         rbind (load_matrix L G (plain_opts n_trits) ''token_embd.weight'') (\<lambda>emb.
         rbind (load_floats G ''output_norm.weight'') (\<lambda>onorm.
         rbind (if bc_n_registers b > 0 then load_floats G ''register.weight'' else Inr []) (\<lambda>reg.
         rbind (if bc_use_dwa b then load_floats G ''dwa.weight'' else Inr []) (\<lambda>dwa.
         rbind (new_caches max_seq tx) (\<lambda>caches.
         Inr (tx\<lparr>tx_blocks := blocks, tx_token_embd := emb, tx_output_norm := onorm, tx_register_w := reg,
                 tx_dwa_w := dwa, tx_kv_caches := caches\<rparr>))))))))"

definition identity_map :: "int \<Rightarrow> int list" where
  "identity_map n = map int [0..<nat n]"

definition load_llama_transformer :: "libm \<Rightarrow> gguf \<Rightarrow> int \<Rightarrow> convert_opts \<Rightarrow> transformer res" where
  "load_llama_transformer L G max_seq c =
     (case gg_info_shape G ''token_embd.weight'' of
        None \<Rightarrow> Inl (RuntimeError ''load_llama_transformer: token_embd.weight missing or not 2D'')
      | Some shape \<Rightarrow>
          if length shape \<noteq> 2 then Inl (RuntimeError ''load_llama_transformer: token_embd.weight missing or not 2D'')
          else
            let cfg = gg_config G; flat = c\<lparr>co_block_size := 0, co_transpose := False\<rparr>;
                tx = (config_fields cfg)\<lparr>tx_vocab_size := to_i32 (shape ! 1), tx_weight_tying := True,
                  tx_layer_map := identity_map (mc_n_layers cfg)\<rparr>
            in rbind (rbind (reserve 880 (mc_n_layers cfg)) (\<lambda>_. rmap (build_block L G c) [0..<nat (mc_n_layers cfg)])) (\<lambda>blocks.
               rbind (load_matrix L G flat ''token_embd.weight'') (\<lambda>emb.
               rbind (load_floats G ''output_norm.weight'') (\<lambda>onorm.
               rbind (if gg_info_shape G ''output.weight'' \<noteq> None
                      then rbind (load_matrix L G flat ''output.weight'') (\<lambda>m. Inr (m, False))
                      else Inr (mk_tensor, True)) (\<lambda>(lm, tying).
               rbind (new_caches max_seq tx) (\<lambda>caches.
               Inr (tx\<lparr>tx_blocks := blocks, tx_token_embd := emb, tx_output_norm := onorm, tx_lm_head := lm,
                       tx_weight_tying := tying, tx_kv_caches := caches\<rparr>)))))))"

definition bitnet_vocab :: "gguf \<Rightarrow> int res" where
  "bitnet_vocab G =
     (if mc_vocab_size (gg_config G) > 0 then Inr (mc_vocab_size (gg_config G))
      else case gg_info_shape G ''token_embd.weight'' of
        None \<Rightarrow> Inl (RuntimeError ''load_bitnet_transformer: cannot derive vocab_size'')
      | Some shape \<Rightarrow> if length shape \<noteq> 2 then Inl (RuntimeError ''load_bitnet_transformer: cannot derive vocab_size'')
          else Inr (to_i32 (shape ! 1)))"

definition bitnet_block :: "libm \<Rightarrow> gguf \<Rightarrow> int \<Rightarrow> nat \<Rightarrow> layer_weights res" where
  "bitnet_block L G n_trits i =
     rbind (build_block L G (plain_opts n_trits) i) (\<lambda>W.
     rbind (load_floats G (block_prefix i @ ''attn_sub_norm.weight'')) (\<lambda>an.
     rbind (load_floats G (block_prefix i @ ''ffn_sub_norm.weight'')) (\<lambda>fn.
     Inr (W\<lparr>lw_attn_sub_norm := an, lw_ffn_sub_norm := fn\<rparr>))))"

definition load_bitnet_transformer :: "libm \<Rightarrow> gguf \<Rightarrow> int \<Rightarrow> int \<Rightarrow> transformer res" where
  "load_bitnet_transformer L G max_seq n_trits =
     rbind (bitnet_vocab G) (\<lambda>vocab.
       let cfg = gg_config G; tying = (gg_info_shape G ''output.weight'' = None);
           tx = (config_fields cfg)\<lparr>tx_vocab_size := vocab, tx_ffn_relu2 := True, tx_weight_tying := tying,
             tx_layer_map := identity_map (mc_n_layers cfg)\<rparr>
       in rbind (rbind (reserve 880 (mc_n_layers cfg)) (\<lambda>_. rmap (bitnet_block L G n_trits) [0..<nat (mc_n_layers cfg)])) (\<lambda>blocks.
          rbind (load_matrix L G (plain_opts n_trits) ''token_embd.weight'') (\<lambda>emb.
          rbind (load_floats G ''output_norm.weight'') (\<lambda>onorm.
          rbind (if \<not> tying then load_matrix L G (plain_opts n_trits) ''output.weight'' else Inr mk_tensor) (\<lambda>lm.
          rbind (new_caches max_seq tx) (\<lambda>caches.
          Inr (tx\<lparr>tx_blocks := blocks, tx_token_embd := emb, tx_output_norm := onorm, tx_lm_head := lm,
                  tx_kv_caches := caches\<rparr>)))))))"

end
