(* ===== verification/TerHarness.thy ===== *)
theory TerHarness
  imports TerArgs TerReport TerTrace TerGguf
begin

text \<open>
  The workloads of the harness (\<open>v2/src/harness/tersim_main.cpp\<close>): one bytecode kernel through the
  traced simulator, one synthetic transformer layer extrapolated to a model, and greedy generation
  with a loaded model. The files, the clock, the random numbers and the GGUF reader are parameters;
  a process exit is a value \<open>Inl code\<close>. The layers of the model do not thread the tracer, so the
  cycle and cache numbers a traced forward pass leaves are arguments of the two reports that use
  them.
\<close>

section \<open>A traced kernel call\<close>

definition on_traced :: "(sim, 'a) sx \<Rightarrow> (traced, 'a) sx" where
  "on_traced m x = (case m (tr_sim x) of (r, s) \<Rightarrow> (r, x\<lparr>tr_sim := s\<rparr>))"

text \<open>\<open>call_kernel\<close> on a simulator whose tracer is set: the same call with the traced loop.\<close>

definition call_kernel_traced :: "kernel_id \<Rightarrow> int list \<Rightarrow> (traced, int) sx" where
  "call_kernel_traced ident args =
     (if \<not> ki_valid ident then throw (RuntimeError ''call_kernel: invalid KernelId'')
      else if length args > 7 then throw (RuntimeError ''call_kernel: max 7 register args'')
      else
        sbind (on_traced (modify (\<lambda>s. s\<lparr>sim_regs := reset_caller_saved (sim_regs s)\<rparr>))) (\<lambda>_.
        sbind (on_traced (write_args 1 args)) (\<lambda>_.
        sbind (on_traced (from_int (to_i64 (int (ki_entry ident))))) (\<lambda>pc.
        sbind (on_traced (set_pc pc)) (\<lambda>_.
        sbind (on_traced (set_halted False)) (\<lambda>_.
        sbind run_traced (\<lambda>_.
        sbind (on_traced (rd 1)) (\<lambda>w. ret (word27_to_int w)))))))))"

text \<open>The pipeline the harness attaches: eight MSHRs, a predictor without history.\<close>

definition harness_pipeline :: "pipeline res" where
  "harness_pipeline =
     rbind (mk_mem_hier (default_mem_config\<lparr>mc_mshrs := 8\<rparr>)) (\<lambda>mh.
     rbind (mk_predictor (default_bp_config\<lparr>bc_ghr_history_bits := 0\<rparr>)) (\<lambda>bp.
     Inr (set_branch_predictor (Some bp) (set_mem_hierarchy (Some mh) (mk_pipeline default_pipeline_config)))))"

text \<open>The statistics read from the attached hierarchy.\<close>

definition mem_stats_of :: "pipeline \<Rightarrow> mem_stats" where
  "mem_stats_of p = (case pl_mem p of None \<Rightarrow> no_mem_stats | Some mh \<Rightarrow> mh_stats mh)"

section \<open>The kernel workload\<close>

definition fill_inputs :: "nat \<Rightarrow> nat \<Rightarrow> int \<Rightarrow> (sim, unit) sx" where
  "fill_inputs xa wa K =
     sfor (\<lambda>i. sbind (from_int (int (i * 7 mod 3) - 1)) (\<lambda>w. sbind (store_at (xa + i) w) (\<lambda>_.
       sbind (from_int (int (i * 11 mod 3) - 1)) (store_at (wa + i))))) [0..<nat K]"

definition workload_of :: "op_counters \<Rightarrow> pipeline_report \<Rightarrow> mem_stats \<Rightarrow> int \<Rightarrow> asic_workload" where
  "workload_of k r m tokens =
     \<lparr>aw_counters = Some k, aw_cycles_total = pr_cycles_total r, aw_l1d_accesses = cs_accesses (ms_l1d m),
      aw_l2_accesses = cs_accesses (ms_l2 m), aw_dram_accesses = ms_dram_accesses m, aw_tokens = of_int tokens\<rparr>"

definition meta_of :: "string \<Rightarrow> string \<Rightarrow> op_counters \<Rightarrow> int \<Rightarrow> workload_meta" where
  "meta_of now name k iters = \<lparr>wm_timestamp = now, wm_workload_name = name, wm_host_device = ''MacBook i9-9880H'',
     wm_op_count_total = oc_total k, wm_iters = iters\<rparr>"

text \<open>The kernel of \<open>macs\<close> multiply-accumulates over packed trits, four to a byte.\<close>

definition packed_kernel :: "64 word \<Rightarrow> string \<Rightarrow> gpu_kernel" where
  "packed_kernel macs label = mk_gpu_kernel\<lparr>gk_macs := macs, gk_load_bytes := macs div 4, gk_path := Dp4a, gk_batch_m := 1, gk_label := label\<rparr>"

definition kernel_report :: "string \<Rightarrow> args \<Rightarrow> op_counters \<Rightarrow> pipeline \<Rightarrow> report" where
  "kernel_report now a k p =
     (let gd = packed_kernel (of_int (ha_K a) * of_int (ha_N a)) (ha_kernel a);
          aw = workload_of k (pl_report p) (mem_stats_of p) (ha_iters a)
      in \<lparr>rp_meta = meta_of now (ha_kernel a) k (ha_iters a), rp_cpu = pl_report p, rp_mem = mem_stats_of p,
          rp_gpu = gpu_project default_gpu_config gd, rp_asic = asic_project (defaults_for (parse_node (ha_asic_node a))) aw,
          rp_gpu_desc = gd, rp_asic_workload = aw,
          rp_correctness = no_correctness\<rparr>)"

definition run_kernel_workload :: "(string \<Rightarrow> string option) \<Rightarrow> string \<Rightarrow> string \<Rightarrow> args \<Rightarrow> (int + report) res" where
  "run_kernel_workload files dir now a =
     (case install_default_kernels files dir \<lparr>ks_sim = mk_sim 8192, ks_kt = mk_kernel_table\<rparr> of
        (Inl e, _) \<Rightarrow> Inl e
      | (Inr _, ks) \<Rightarrow>
          let ident = find_kernel (ks_kt ks) (ha_kernel a)
          in if \<not> ki_valid ident then Inr (Inl 2)
             else (case fill_inputs 200 600 (ha_K a) (ks_sim ks) of
                 (Inl e, _) \<Rightarrow> Inl e
               | (Inr _, s) \<Rightarrow>
                   rbind harness_pipeline (\<lambda>p.
                   case sfor (\<lambda>_. sbind (call_kernel_traced ident [200, 600, 1000, 0, 0, 0, 0]) (\<lambda>_. ret ()))
                       [0..<nat (ha_iters a)] \<lparr>tr_sim = s, tr_pipe = p\<rparr> of
                     (Inl e, _) \<Rightarrow> Inl e
                   | (Inr _, x) \<Rightarrow> Inr (Inr (kernel_report now a (sim_counters (tr_sim x)) (tr_pipe x))))))"

section \<open>The forward workload\<close>

text \<open>Consecutive draws: \<open>n\<close> numbers from position \<open>k\<close> of the random stream.\<close>

definition randvec :: "(nat \<Rightarrow> flt) \<Rightarrow> nat \<Rightarrow> int \<Rightarrow> flt list" where
  "randvec rnd k n = map (\<lambda>i. rnd (k + i)) [0..<nat n]"

fun randvecs :: "(nat \<Rightarrow> flt) \<Rightarrow> nat \<Rightarrow> (int \<times> int) list \<Rightarrow> (flt list \<times> int \<times> int) list" where
  "randvecs rnd k [] = []"
| "randvecs rnd k ((r, c) # rs) = (randvec rnd k (r * c), r, c) # randvecs rnd (k + nat (r * c)) rs"

text \<open>The shapes of the seven matrices, in the order they are drawn.\<close>

definition layer_shapes :: "model_dims \<Rightarrow> (int \<times> int) list" where
  "layer_shapes d =
     (let H = md_H d; kv = md_Kn d * md_HD d; I = md_I d
      in [(H, H), (H, kv), (H, kv), (H, H), (H, I), (H, I), (I, H)])"

definition synthetic_layer :: "libm \<Rightarrow> (nat \<Rightarrow> flt) \<Rightarrow> model_dims \<Rightarrow> layer_weights res" where
  "synthetic_layer L rnd d =
     quantize_layer L (randvecs rnd 0 (layer_shapes d)) (replicate (nat (md_H d)) fone) (md_H d)
       (replicate (nat (md_H d)) fone) (md_H d)"

definition synthetic_hidden :: "(nat \<Rightarrow> flt) \<Rightarrow> model_dims \<Rightarrow> flt list" where
  "synthetic_hidden rnd d = randvec rnd (nat (sum_list (map (\<lambda>(r, c). r * c) (layer_shapes d)))) (md_H d)"

text \<open>The multiply-accumulates of a layer and of the output projection, in \<open>uint64_t\<close>.\<close>

definition macs_per_layer :: "int \<Rightarrow> int \<Rightarrow> int \<Rightarrow> 64 word" where
  "macs_per_layer H kv I =
     of_int H * of_int H + of_int H * of_int kv * 2 + of_int H * of_int H + of_int H * of_int I * 2 + of_int I * of_int H"

definition macs_full :: "int \<Rightarrow> int \<Rightarrow> int \<Rightarrow> int \<Rightarrow> int \<Rightarrow> 64 word" where
  "macs_full H kv I layers vocab = macs_per_layer H kv I * of_int layers + of_int H * of_int vocab"

text \<open>The layer run on the simulator, without its tracer.\<close>

definition run_synthetic_layer ::
  "libm \<Rightarrow> (string \<Rightarrow> string option) \<Rightarrow> string \<Rightarrow> (string \<Rightarrow> nat list option) \<Rightarrow> string \<Rightarrow> (nat \<Rightarrow> flt) \<Rightarrow> model_dims \<Rightarrow>
    (flt list \<times> fwd) res" where
  "run_synthetic_layer L files kdir luts ldir rnd d =
     rbind (synthetic_layer L rnd d) (\<lambda>W.
     case install_default_kernels files kdir \<lparr>ks_sim = mk_sim (2 ^ 22), ks_kt = mk_kernel_table\<rparr> of
       (Inl e, _) \<Rightarrow> Inl e
     | (Inr _, ks) \<Rightarrow> (case load_default_luts luts ldir (ks_sim ks) of
           (Inl e, _) \<Rightarrow> Inl e
         | (Inr la, s) \<Rightarrow>
             rbind (kv_resize 8 (md_Kn d) (md_HD d)) (\<lambda>cache.
             case forward_layer \<lparr>he_lib = L, he_bypass = False, he_kt = ks_kt ks, he_luts = la\<rparr>
                 \<lparr>dm_hidden = md_H d, dm_head_dim = md_HD d, dm_heads = md_Hn d, dm_kv_heads = md_Kn d, dm_inter = md_I d,
                  dm_eps = rounded F32 False (1 / 10 ^ 6), dm_theta = Num False 10000, dm_relu2 = False\<rparr>
                 W 0 0 (synthetic_hidden rnd d) \<lparr>fw_sim = s, fw_cache = cache, fw_state = None\<rparr> of
               (Inl e, _) \<Rightarrow> Inl e | (Inr y, f) \<Rightarrow> Inr (y, f))))"

definition scale_asic :: "flt \<Rightarrow> asic_report \<Rightarrow> asic_report" where
  "scale_asic x r = r\<lparr>ar_total_pJ_per_token := fmul F64 (ar_total_pJ_per_token r) x, ar_compute_pJ := fmul F64 (ar_compute_pJ r) x,
     ar_memory_pJ := fmul F64 (ar_memory_pJ r) x, ar_leakage_pJ := fmul F64 (ar_leakage_pJ r) x\<rparr>"

text \<open>The name holds the UTF-8 bytes of the multiplication sign.\<close>

definition forward_name :: "model_dims \<Rightarrow> string" where
  "forward_name d = ''forward:'' @ md_name d @ '' (1 layer measured '' @ [CHR 0xC3, CHR 0x97] @ show_int (md_layers d) @
     '' + lm_head, extrapolated)''"

definition forward_report :: "string \<Rightarrow> args \<Rightarrow> op_counters \<Rightarrow> pipeline_report \<Rightarrow> mem_stats \<Rightarrow> report" where
  "forward_report now a k per_layer m =
     (let d = dims_for (ha_model a); kv = md_Kn d * md_HD d;
          layer_macs = macs_per_layer (md_H d) kv (md_I d); head_macs = of_int (md_H d) * of_int (md_vocab d) :: 64 word;
          gd = packed_kernel (macs_full (md_H d) kv (md_I d) (md_layers d) (md_vocab d)) (md_name d);
          aw = workload_of k per_layer m 1;
          scale = fadd F64 (of_int_flt F64 (md_layers d)) (fdiv F64 (dcount head_macs) (dcount layer_macs))
      in \<lparr>rp_meta = meta_of now (forward_name d) k 1, rp_cpu = per_layer, rp_mem = m,
          rp_gpu = gpu_project default_gpu_config gd,
          rp_asic = scale_asic scale (asic_project (defaults_for (parse_node (ha_asic_node a))) aw),
          rp_gpu_desc = gd, rp_asic_workload = aw, rp_correctness = no_correctness\<rparr>)"

section \<open>Greedy generation\<close>

text \<open>\<open>Sampler::argmax\<close>: the first greatest logit, starting from entry 0.\<close>

definition argmax_step :: "flt list \<Rightarrow> int \<times> flt \<Rightarrow> nat \<Rightarrow> (int \<times> flt) res" where
  "argmax_step logits acc i =
     (case acc of (best, x) \<Rightarrow> rbind (read_at logits i) (\<lambda>y. Inr (if flt_less x y then (int i, y) else (best, x))))"

definition argmax :: "flt list \<Rightarrow> int \<Rightarrow> int res" where
  "argmax logits vocab =
     rbind (read_at logits 0) (\<lambda>x0.
     rbind (rfold (argmax_step logits) (0, x0) [1..<nat vocab]) (\<lambda>(best, x). Inr best))"

definition contains :: "string \<Rightarrow> string \<Rightarrow> bool" where
  "contains w s \<longleftrightarrow> list_ex (\<lambda>i. take (length w) (drop i s) = w) [0..<Suc (length s)]"

definition is_bitnet :: "string \<Rightarrow> bool" where
  "is_bitnet arch \<longleftrightarrow> contains ''bitnet'' arch \<or> contains ''BitNet'' arch"

definition load_any :: "libm \<Rightarrow> gguf \<Rightarrow> args \<Rightarrow> int \<Rightarrow> transformer res" where
  "load_any L G a max_seq =
     (if is_bitnet (mc_architecture (gg_config G)) then load_bitnet_transformer L G max_seq (ha_n_trits a)
      else load_llama_transformer L G max_seq \<lparr>co_n_trits = ha_n_trits a, co_format_a = False, co_mant = 9,
        co_bitnet = ha_bitnet a, co_block_size = ha_block_size a, co_transpose = False, co_fp32 = ha_fp32_weights a\<rparr>)"

definition start_token :: "int \<Rightarrow> int \<Rightarrow> int" where
  "start_token bos vocab =
     (let b = (if bos > 0 then bos else 128000) in if b \<ge> vocab then 128000 else b)"

text \<open>
  One step: the logits of the current token, their argmax, and at the first step the report of the
  five best logits, which sorts a prefix of five out of \<open>vocab\<close> entries.
\<close>

definition generate_step :: "host_env \<Rightarrow> nat \<Rightarrow> int \<Rightarrow> int \<Rightarrow> (host, int) sx" where
  "generate_step E g cur pos =
     sbind (forward_token E cur pos None) (\<lambda>logits s.
       sbind (lift (argmax logits (tx_vocab_size (ho_tx s)))) (\<lambda>nxt.
       if g = 0 \<and> tx_vocab_size (ho_tx s) < 5 then throw (OutOfRange ''partial_sort'') else ret nxt) s)"

fun generate_from :: "host_env \<Rightarrow> nat \<Rightarrow> nat \<Rightarrow> int \<Rightarrow> int \<Rightarrow> (host, int list) sx" where
  "generate_from E 0 g cur pos = ret []"
| "generate_from E (Suc n) g cur pos =
     sbind (generate_step E g cur pos) (\<lambda>nxt.
     sbind (lift (add_i32 pos 1)) (\<lambda>pos'.
     sbind (generate_from E n (Suc g) nxt pos') (\<lambda>rest. ret (nxt # rest))))"

definition generate_name :: "args \<Rightarrow> string" where
  "generate_name a = ''generate:llama1b n_trits='' @ show_int (ha_n_trits a) @ '' block_size='' @ show_int (ha_block_size a)"

definition generate_report ::
  "string \<Rightarrow> args \<Rightarrow> transformer \<Rightarrow> op_counters \<Rightarrow> pipeline_report \<Rightarrow> mem_stats \<Rightarrow> int list \<Rightarrow> int list \<Rightarrow> report" where
  "generate_report now a tx k r m gen golden =
     (let kv = tx_n_kv_heads tx * tx_head_dim tx;
          gd = packed_kernel (macs_full (tx_hidden_size tx) kv (tx_intermediate_size tx) (tx_n_layers tx) (tx_vocab_size tx)) ''llama1b-generate'';
          aw = workload_of k r m (ha_n_gen a)
      in \<lparr>rp_meta = meta_of now (generate_name a) k (ha_n_gen a), rp_cpu = r, rp_mem = m,
          rp_gpu = gpu_project default_gpu_config gd, rp_asic = asic_project (defaults_for (parse_node (ha_asic_node a))) aw,
          rp_gpu_desc = gd, rp_asic_workload = aw,
          rp_correctness = \<lparr>co_has_golden = True, co_tokens_generated = int (length gen), co_tokens_matched = int (count_matches gen golden),
            co_generated = gen, co_golden = golden\<rparr>\<rparr>)"

definition run_generate ::
  "libm \<Rightarrow> (string \<Rightarrow> string option) \<Rightarrow> string \<Rightarrow> (string \<Rightarrow> nat list option) \<Rightarrow> string \<Rightarrow> (string \<Rightarrow> gguf option) \<Rightarrow> args \<Rightarrow>
    (int + int list \<times> int list \<times> host) res" where
  "run_generate L files kdir luts ldir models a =
     (case models (ha_model_path a) of
        None \<Rightarrow> Inr (Inl 2)
      | Some G \<Rightarrow>
          rbind (add_i32 (ha_n_gen a) 2) (\<lambda>max_seq.
          rbind (load_any L G a max_seq) (\<lambda>tx.
          case install_default_kernels files kdir \<lparr>ks_sim = mk_sim (64 * 1024), ks_kt = mk_kernel_table\<rparr> of
            (Inl e, _) \<Rightarrow> Inl e
          | (Inr _, ks) \<Rightarrow> (case load_default_luts luts ldir (ks_sim ks) of
                (Inl e, _) \<Rightarrow> Inl e
              | (Inr la, s) \<Rightarrow>
                  rbind (golden_of a) (\<lambda>golden.
                  case generate_from \<lparr>he_lib = L, he_bypass = ha_fp_bypass a, he_kt = ks_kt ks, he_luts = la\<rparr> (nat (ha_n_gen a)) 0
                      (start_token (mc_bos_token_id (gg_config G)) (tx_vocab_size tx)) 0 \<lparr>ho_sim = s, ho_tx = tx, ho_state = None\<rparr> of
                    (Inl e, _) \<Rightarrow> Inl e
                  | (Inr gen, h) \<Rightarrow> Inr (Inr (gen, golden, h)))))))"

section \<open>The program\<close>

definition emit :: "(flt \<Rightarrow> string) \<Rightarrow> args \<Rightarrow> report \<Rightarrow> string" where
  "emit show_d a r = (if ha_format a = ''csv'' then emit_csv_header @ emit_csv_row show_d r else emit_json show_d r)"

end
