(* ===== verification/TerHalf.thy ===== *)
theory TerHalf
  imports TerGguf TerRound
begin

unbundle bit_operations_syntax

text \<open>
  The half-precision decoder of \<open>vendor/ntransformer/core/dequant.cpp\<close> against the value IEEE 754
  gives a binary16 pattern.
\<close>

section \<open>Half-precision floats\<close>

text \<open>The value of a binary16 pattern, as IEEE 754 defines it.\<close>

definition half_value :: "32 word \<Rightarrow> flt" where
  "half_value h =
     (let s = bit h 15; e = unat (take_bit 5 (drop_bit 10 h)); m = unat (take_bit 10 h)
      in if e = 31 then if m = 0 then Inf s else NaN
         else if e = 0 then Num s (of_nat m * pow2 (- 24))
         else Num s (of_nat (1024 + m) * pow2 (int e - 25)))"

text \<open>Half of a number.\<close>

fun halve :: "flt \<Rightarrow> flt" where
  "halve NaN = NaN" | "halve (Inf s) = Inf s" | "halve (Num s m) = Num s (m / 2)"

lemma mask_numerals: "(0xFF :: 32 word) = mask 8" "(0x7FFFFF :: 32 word) = mask 23" "(0x3FF :: 32 word) = mask 10"
  "(0x1F :: 32 word) = mask 5"
  by (simp_all add: mask_eq_exp_minus_1)

lemma fields_of_bits:
  fixes s :: bool and x y :: "32 word"
  defines "f \<equiv> push_bit 31 (of_bool s) OR push_bit 23 (take_bit 8 x) OR push_bit 13 (take_bit 10 y)"
  shows "bit f 31 = s" "take_bit 8 (drop_bit 23 f) = take_bit 8 x" "take_bit 23 f = push_bit 13 (take_bit 10 y)"
proof -
  show "bit f 31 = s" by (auto simp: f_def bit_simps)
  show "take_bit 8 (drop_bit 23 f) = take_bit 8 x"
    by (rule bit_eqI) (auto simp: f_def bit_simps)
  show "take_bit 23 f = push_bit 13 (take_bit 10 y)"
    by (rule bit_eqI) (auto simp: f_def bit_simps)
qed

lemma unat_take_bit_less: "unat (take_bit n (w :: 32 word)) < 2 ^ n"
  by (simp add: unsigned_take_bit_eq)

lemma float_of_parts:
  fixes s :: bool and x y :: "32 word"
  shows "float_of_bits (push_bit 31 (of_bool s) OR push_bit 23 (take_bit 8 x) OR push_bit 13 (take_bit 10 y))
    = float_of_fields s (unat (take_bit 8 x)) (unat (take_bit 10 y) * 8192)"
proof -
  define f where "f = push_bit 31 (of_bool s) OR push_bit 23 (take_bit 8 x) OR push_bit 13 (take_bit 10 y)"
  have n: "unat (push_bit 13 (take_bit 10 y)) = unat (take_bit 10 y) * 8192"
    using unat_take_bit_less [of 10 y] unfolding unsigned_push_bit_eq by (simp add: push_bit_eq_mult take_bit_nat_eq_self)
  have "float_of_bits f = float_of_fields (bit f 31) (unat (take_bit 8 (drop_bit 23 f))) (unat (take_bit 23 f))"
    by (simp only: float_of_bits_def mask_numerals take_bit_eq_mask)
  then show ?thesis
    using fields_of_bits [of s x y] n by (simp only: f_def [symmetric])
qed

lemma push_bit_single:
  assumes "\<And>n. bit k n \<longleftrightarrow> n = 15"
  shows "push_bit 16 (h AND k) = push_bit 31 (of_bool (bit h 15) :: 32 word)"
proof (rule bit_eqI)
  fix n
  show "bit (push_bit 16 (h AND k)) n = bit (push_bit 31 (of_bool (bit h 15) :: 32 word)) n"
    by (cases "n = 31") (auto simp: bit_simps assms)
qed

lemma sign_part: "push_bit 16 (h AND 0x8000) = push_bit 31 (of_bool (bit h 15) :: 32 word)"
proof -
  have "bit (0x8000 :: 32 word) n \<longleftrightarrow> n = 15" for n
    using bit_exp_iff [of 15 n, where 'a = "32 word"] by (auto simp: possible_bit_word)
  then show ?thesis by (rule push_bit_single)
qed

lemma renormalise_ok:
  assumes "0 < unat m" and "unat m < 2048" and "1024 \<le> unat m * 2 ^ n" and "n \<le> 10"
  shows "\<exists>j \<le> n. renormalise n m ex = (of_nat (unat m * 2 ^ j), ex - of_nat j) \<and> 1024 \<le> unat m * 2 ^ j \<and> unat m * 2 ^ j < 2048"
  using assms
proof (induction n arbitrary: m ex)
  case 0
  then show ?case by simp
next
  case (Suc n)
  have "m AND 2 ^ 10 = 0 \<longleftrightarrow> \<not> bit m 10" by (rule and_exp_eq_0_iff_not_bit)
  then have "m AND 0x400 = 0 \<longleftrightarrow> \<not> bit m 10" by simp
  also have "bit m 10 \<longleftrightarrow> 1024 \<le> unat m"
  proof -
    have "bit m 10 \<longleftrightarrow> bit (unat m) 10" by (simp add: bit_unsigned_iff)
    then have "bit m 10 \<longleftrightarrow> odd (unat m div 1024)" by (simp only: bit_iff_odd [of "unat m"]) simp
    moreover have "unat m div 1024 = 0 \<or> unat m div 1024 = 1" using Suc.prems by linarith
    ultimately show ?thesis by (auto simp: div_eq_0_iff)
  qed
  finally have t: "m AND 0x400 = 0 \<longleftrightarrow> unat m < 1024" by (simp add: not_le)
  show ?case
  proof (cases "unat m < 1024")
    case True
    have u: "unat (push_bit 1 m) = 2 * unat m"
      unfolding unsigned_push_bit_eq using True by (simp add: push_bit_eq_mult take_bit_nat_eq_self)
    obtain j where "j \<le> n" "renormalise n (push_bit 1 m) (ex - 1) = (of_nat (unat (push_bit 1 m) * 2 ^ j), ex - 1 - of_nat j)"
      "1024 \<le> unat (push_bit 1 m) * 2 ^ j" "unat (push_bit 1 m) * 2 ^ j < 2048"
      using Suc.IH [of "push_bit 1 m" "ex - 1"] Suc.prems True u by (auto simp: mult.assoc)
    then show ?thesis using True t u by (intro exI [of _ "Suc j"]) (simp add: ac_simps diff_diff_eq)
  next
    case False
    then show ?thesis using t Suc.prems by (intro exI [of _ 0]) simp
  qed
qed

lemma half_to_float_fields:
  defines "e \<equiv> \<lambda>h :: 32 word. unat (take_bit 5 (drop_bit 10 h))" and "m \<equiv> \<lambda>h :: 32 word. unat (take_bit 10 h)"
  shows "half_to_float h = (if e h = 0 then Num (bit h 15) (of_nat (m h) * pow2 (- 25)) else half_value h)"
proof -
  have ml: "m h < 1024" and el: "e h < 32"
    using unat_take_bit_less [of 10 h] unat_take_bit_less [of 5 "drop_bit 10 h"] by (simp_all add: m_def e_def)
  have ex: "drop_bit 10 h AND 0x1F = take_bit 5 (drop_bit 10 h)" and mx: "h AND 0x3FF = take_bit 10 h"
    by (simp_all add: mask_numerals take_bit_eq_mask)
  have z: "take_bit 5 (drop_bit 10 h) = 0 \<longleftrightarrow> e h = 0" "take_bit 10 h = 0 \<longleftrightarrow> m h = 0"
    by (simp_all add: e_def m_def unat_eq_0)
  consider "e h = 0" "m h = 0" | "e h = 0" "m h \<noteq> 0" | "e h = 31" | "0 < e h" "e h < 31" using el by linarith
  then show ?thesis
  proof cases
    case 1
    have "half_bits h = push_bit 31 (of_bool (bit h 15)) OR push_bit 23 (take_bit 8 0) OR push_bit 13 (take_bit 10 0)"
      using 1 z by (simp only: half_bits_def Let_def ex mx sign_part) simp
    then show ?thesis using 1 float_of_parts [of "bit h 15" 0 0] by (simp add: half_to_float_def float_of_fields_def)
  next
    case 2
    obtain j where j: "j \<le> 10" "renormalise 10 (take_bit 10 h) 1 = (of_nat (m h * 2 ^ j), 1 - of_nat j)"
      "1024 \<le> m h * 2 ^ j" "m h * 2 ^ j < 2048"
      using renormalise_ok [of "take_bit 10 h" 10 1] 2 ml by (auto simp: m_def)
    define k where "k = m h * 2 ^ j - 1024"
    have k: "k < 1024" "m h * 2 ^ j = 1024 + k" using j by (auto simp: k_def)
    have "(127 - 15 - 1 + (1 - of_nat j) :: 32 word) = of_nat (112 - j)" using j(1) by (simp add: of_nat_diff)
    moreover have "take_bit 8 (of_nat (112 - j) :: 32 word) = of_nat (112 - j)"
      by (simp add: take_bit_of_nat take_bit_nat_eq_self)
    ultimately have E: "(127 - 15 - 1 + (1 - of_nat j) :: 32 word) = take_bit 8 (of_nat (112 - j))" by simp
    have M: "of_nat (m h * 2 ^ j) AND 0x3FF = take_bit 10 (of_nat k :: 32 word)"
    proof -
      have "take_bit 10 (1024 + k) = take_bit 10 k" by (simp add: take_bit_eq_mod)
      then show ?thesis unfolding k(2) mask_numerals
        by (simp only: and.commute [of _ "mask 10"] take_bit_eq_mask [symmetric] take_bit_of_nat of_nat_add [symmetric])
    qed
    have "half_bits h = push_bit 31 (of_bool (bit h 15)) OR push_bit 23 (take_bit 8 (of_nat (112 - j))) OR push_bit 13 (take_bit 10 (of_nat k))"
      using 2 z unfolding half_bits_def Let_def ex mx sign_part j(2) by (simp add: E [symmetric] M [symmetric])
    moreover have "unat (take_bit 8 (of_nat (112 - j) :: 32 word)) = 112 - j" "unat (take_bit 10 (of_nat k :: 32 word)) = k"
      using k(1) by (simp_all only: take_bit_of_nat) (simp_all add: unat_of_nat take_bit_nat_eq_self)
    ultimately have "half_to_float h = float_of_fields (bit h 15) (112 - j) (k * 8192)"
      using float_of_parts [of "bit h 15" "of_nat (112 - j)" "of_nat k"] by (simp add: half_to_float_def)
    also have "\<dots> = Num (bit h 15) (of_nat (2 ^ 23 + k * 8192) * pow2 (int (112 - j) - 150))"
    proof -
      have "112 - j \<noteq> 255" and "112 - j \<noteq> 0" using j(1) by linarith+
      then show ?thesis by (simp add: float_of_fields_def)
    qed
    also have "of_nat (2 ^ 23 + k * 8192) = (of_nat (m h) * 2 ^ j * 8192 :: rat)"
      using arg_cong [OF k(2), of "of_nat :: nat \<Rightarrow> rat"] by simp
    also have "of_nat (m h) * 2 ^ j * 8192 * pow2 (int (112 - j) - 150) = (of_nat (m h) * pow2 (- 25) :: rat)"
    proof -
      have "pow2 (- 25) = pow2 (int j) * (pow2 13 * pow2 (int (112 - j) - 150))"
        using j by (simp only: pow2_add [symmetric]) (simp add: of_nat_diff)
      then show ?thesis by (simp add: pow2_def [of "int j"] pow2_def [of 13])
    qed
    finally show ?thesis using 2 by simp
  next
    case 3
    have nz: "take_bit 5 (drop_bit 10 h) \<noteq> 0" "take_bit 5 (drop_bit 10 h) = 0x1F"
      using 3 z by (auto simp: e_def word_unat_eq_iff)
    have "(0x7F800000 :: 32 word) = push_bit 23 (take_bit 8 0xFF)" by (simp add: push_bit_eq_mult mask_eq_exp_minus_1)
    then have "half_bits h = push_bit 31 (of_bool (bit h 15)) OR push_bit 23 (take_bit 8 0xFF) OR push_bit 13 (take_bit 10 h)"
      using nz by (simp only: half_bits_def Let_def ex mx sign_part) simp
    then show ?thesis using 3 float_of_parts [of "bit h 15" "0xFF" h]
      by (simp add: half_to_float_def float_of_fields_def half_value_def Let_def e_def m_def mask_eq_exp_minus_1)
  next
    case 4
    have nz: "take_bit 5 (drop_bit 10 h) \<noteq> 0" "take_bit 5 (drop_bit 10 h) \<noteq> 0x1F"
      using 4 z by (auto simp: e_def word_unat_eq_iff)
    define x where "x = take_bit 5 (drop_bit 10 h) + (127 - 15 :: 32 word)"
    have u: "unat x = e h + 112" using 4 by (simp add: x_def e_def unat_word_ariths)
    have t: "take_bit 8 x = x" using u 4 by (simp add: word_unat_eq_iff unsigned_take_bit_eq take_bit_nat_eq_self)
    have "half_bits h = push_bit 31 (of_bool (bit h 15)) OR push_bit 23 (take_bit 8 x) OR push_bit 13 (take_bit 10 h)"
      using nz unfolding t by (simp only: half_bits_def Let_def ex mx sign_part x_def) simp
    then have "half_to_float h = float_of_fields (bit h 15) (e h + 112) (m h * 8192)"
      using float_of_parts [of "bit h 15" x h] by (simp add: half_to_float_def t u m_def)
    also have "\<dots> = Num (bit h 15) (of_nat (2 ^ 23 + m h * 8192) * pow2 (int (e h + 112) - 150))"
      using 4 by (simp add: float_of_fields_def)
    also have "of_nat (2 ^ 23 + m h * 8192) * pow2 (int (e h + 112) - 150) = (of_nat (1024 + m h) * pow2 (int (e h) - 25) :: rat)"
    proof -
      have "pow2 (int (e h) - 25) = pow2 13 * pow2 (int (e h + 112) - 150)" by (simp only: pow2_add [symmetric]) simp
      then show ?thesis by (simp add: pow2_def [of 13] algebra_simps)
    qed
    finally show ?thesis using 4 by (simp add: half_value_def Let_def e_def m_def)
  qed
qed

text \<open>
  C22: \<open>half_to_float\<close> returns the IEEE 754 value of every normal, infinite and NaN binary16 pattern and
  of the zeros, and exactly half of the value of every subnormal one (the bias of its exponent is
  one too small).
\<close>

theorem half_to_float_value:
  "half_to_float h =
    (if take_bit 5 (drop_bit 10 h) = 0 then halve (half_value h) else half_value h)"
proof -
  have "take_bit 5 (drop_bit 10 h) = 0 \<longleftrightarrow> unat (take_bit 5 (drop_bit 10 h)) = 0" by (simp add: unat_eq_0)
  moreover have "pow2 (- 24) / 2 = pow2 (- 25)" by (simp add: pow2_def)
  ultimately show ?thesis
    using half_to_float_fields [of h] by (auto simp: half_value_def Let_def)
qed

end
