(* ===== verification/TerLoad.thy ===== *)
theory TerLoad
  imports TerGguf TerLayer
begin

text \<open>
  What the loaders guarantee: a loaded transformer has a block and a cache for every layer, every
  layer finds them, and the caches have the rows the caller asked for. And the transposition of
  \<open>tensor_to_trit\<close>.
\<close>

section \<open>Loaded transformers\<close>

text \<open>A transformer whose layers can all be looked up, with caches of \<open>max_seq\<close> rows.\<close>

definition layers_ready :: "int \<Rightarrow> transformer \<Rightarrow> bool" where
  "layers_ready max_seq tx \<longleftrightarrow>
     0 \<le> tx_n_layers tx \<and> length (tx_blocks tx) = nat (tx_n_layers tx) \<and> tx_layer_map tx = identity_map (tx_n_layers tx) \<and>
     length (tx_kv_caches tx) = nat (tx_n_layers tx) \<and>
     (\<forall>c \<in> set (tx_kv_caches tx). kv_max_seq c = max_seq \<and> kv_n_heads c = tx_n_kv_heads tx \<and> kv_head_dim c = tx_head_dim tx \<and>
        length (kv_K c) = u64 (u64 (to_size max_seq * to_size (tx_n_kv_heads tx)) * to_size (tx_head_dim tx)) \<and>
        length (kv_V c) = length (kv_K c))"

lemma reserve_nonneg: "reserve w n = Inr u \<Longrightarrow> 0 < w \<Longrightarrow> in_i32 n \<Longrightarrow> 0 \<le> n"
proof (rule ccontr)
  assume r: "reserve w n = Inr u" "0 < w" "in_i32 n" and "\<not> 0 \<le> n"
  then have "2 ^ 63 \<le> to_size n" by (intro to_size_neg) (auto simp: in_i32_def)
  moreover have "(2 ^ 63 - 1) div w \<le> 2 ^ 63 - 1" by (rule div_le_dividend)
  moreover have "to_size n \<le> (2 ^ 63 - 1) div w" using r(1) by (simp add: reserve_def not_less split: if_splits)
  ultimately have "(2 :: nat) ^ 63 \<le> 2 ^ 63 - 1" by linarith
  then show False by simp
qed

lemma new_caches_shape:
  assumes "new_caches max_seq tx = Inr cs" and "in_i32 (tx_n_layers tx)"
  shows "0 \<le> tx_n_layers tx \<and> length cs = nat (tx_n_layers tx) \<and>
    (\<forall>c \<in> set cs. kv_resize max_seq (tx_n_kv_heads tx) (tx_head_dim tx) = Inr c)"
proof -
  obtain u where u: "reserve 64 (tx_n_layers tx) = Inr u"
    and r: "rmap (\<lambda>_. kv_resize max_seq (tx_n_kv_heads tx) (tx_head_dim tx)) [0..<nat (tx_n_layers tx)] = Inr cs"
    using assms(1) by (auto simp: new_caches_def)
  have "kv_resize max_seq (tx_n_kv_heads tx) (tx_head_dim tx) = Inr c" if "c \<in> set cs" for c
    using that rmap_nth [OF r] rmap_length [OF r] by (metis in_set_conv_nth)
  then show ?thesis using reserve_nonneg [OF u _ assms(2)] rmap_length [OF r] by simp
qed

lemma kv_resize_shape:
  "kv_resize max_seq h d = Inr c \<Longrightarrow> kv_max_seq c = max_seq \<and> kv_n_heads c = h \<and> kv_head_dim c = d \<and>
    length (kv_K c) = u64 (u64 (to_size max_seq * to_size h) * to_size d) \<and> length (kv_V c) = length (kv_K c)"
  by (auto simp: kv_resize_def Let_def new_vec_def split: if_splits)

lemma layers_ready_cong:
  assumes "layers_ready max_seq tx" and "tx_n_layers ty = tx_n_layers tx" "tx_blocks ty = tx_blocks tx" "tx_layer_map ty = tx_layer_map tx"
    "tx_kv_caches ty = tx_kv_caches tx" "tx_n_kv_heads ty = tx_n_kv_heads tx" "tx_head_dim ty = tx_head_dim tx"
  shows "layers_ready max_seq ty"
  using assms by (simp add: layers_ready_def)

lemma ready_of_parts:
  assumes "rmap f [0..<nat (tx_n_layers tx)] = Inr blocks" and "new_caches max_seq tx = Inr caches" and "in_i32 (tx_n_layers tx)"
    and "tx_layer_map tx = identity_map (tx_n_layers tx)"
  shows "layers_ready max_seq (tx\<lparr>tx_blocks := blocks, tx_kv_caches := caches\<rparr>)"
  using rmap_length [OF assms(1)] new_caches_shape [OF assms(2,3)] assms(4) kv_resize_shape
  unfolding layers_ready_def by fastforce

lemma llama_ready:
  assumes "load_llama_transformer L G max_seq c = Inr tx" and "in_i32 (mc_n_layers (gg_config G))"
  shows "layers_ready max_seq tx" and "tx_n_layers tx = mc_n_layers (gg_config G)"
proof -
  define t0 where "t0 = (\<lambda>v. (config_fields (gg_config G))\<lparr>tx_vocab_size := v, tx_weight_tying := True,
    tx_layer_map := identity_map (mc_n_layers (gg_config G))\<rparr>)"
  obtain v blocks emb onorm lm tying caches where p:
    "rmap (build_block L G c) [0..<nat (mc_n_layers (gg_config G))] = Inr blocks" "new_caches max_seq (t0 v) = Inr caches"
    "tx = (t0 v)\<lparr>tx_blocks := blocks, tx_token_embd := emb, tx_output_norm := onorm, tx_lm_head := lm,
       tx_weight_tying := tying, tx_kv_caches := caches\<rparr>"
    using assms(1) unfolding load_llama_transformer_def Let_def t0_def by (auto split: option.splits if_splits)
  have f: "tx_n_layers (t0 v) = mc_n_layers (gg_config G)" "tx_layer_map (t0 v) = identity_map (mc_n_layers (gg_config G))"
    by (simp_all add: t0_def config_fields_def)
  have "layers_ready max_seq ((t0 v)\<lparr>tx_blocks := blocks, tx_kv_caches := caches\<rparr>)"
    by (rule ready_of_parts [of "build_block L G c"]) (use p f assms(2) in auto)
  then show "layers_ready max_seq tx" by (rule layers_ready_cong) (simp_all add: p(3))
  show "tx_n_layers tx = mc_n_layers (gg_config G)" using f by (simp add: p(3))
qed

lemma bitnet_ready:
  assumes "load_bitnet_transformer L G max_seq n_trits = Inr tx" and "in_i32 (mc_n_layers (gg_config G))"
  shows "layers_ready max_seq tx" and "tx_n_layers tx = mc_n_layers (gg_config G)"
proof -
  define t0 where "t0 = (\<lambda>v tying. (config_fields (gg_config G))\<lparr>tx_vocab_size := v, tx_ffn_relu2 := True, tx_weight_tying := tying,
    tx_layer_map := identity_map (mc_n_layers (gg_config G))\<rparr>)"
  obtain v tying blocks emb onorm lm caches where p:
    "rmap (bitnet_block L G n_trits) [0..<nat (mc_n_layers (gg_config G))] = Inr blocks" "new_caches max_seq (t0 v tying) = Inr caches"
    "tx = (t0 v tying)\<lparr>tx_blocks := blocks, tx_token_embd := emb, tx_output_norm := onorm, tx_lm_head := lm, tx_kv_caches := caches\<rparr>"
    using assms(1) unfolding load_bitnet_transformer_def Let_def t0_def by (auto split: if_splits)
  have f: "tx_n_layers (t0 v tying) = mc_n_layers (gg_config G)" "tx_layer_map (t0 v tying) = identity_map (mc_n_layers (gg_config G))"
    by (simp_all add: t0_def config_fields_def)
  have "layers_ready max_seq ((t0 v tying)\<lparr>tx_blocks := blocks, tx_kv_caches := caches\<rparr>)"
    by (rule ready_of_parts [of "bitnet_block L G n_trits"]) (use p f assms(2) in auto)
  then show "layers_ready max_seq tx" by (rule layers_ready_cong) (simp_all add: p(3))
  show "tx_n_layers tx = mc_n_layers (gg_config G)" using f by (simp add: p(3))
qed

lemma ready_parts:
  assumes "layers_ready max_seq tx" and "in_i32 (tx_n_layers tx)" and "l < nat (tx_n_layers tx)"
  shows "layer_parts tx l = Inr (tx_blocks tx ! l, tx_kv_caches tx ! l)"
proof -
  have "to_i32 (int (length (tx_blocks tx))) = tx_n_layers tx"
    using assms by (simp add: layers_ready_def to_i32_id)
  then show ?thesis
    using assms by (auto simp: layer_parts_def layers_ready_def identity_map_def read_at_in)
qed

section \<open>Transposition\<close>

lemma transpose_fold:
  assumes d: "d0 < 2 ^ 31" "d1 < 2 ^ 31" and len: "d0 * d1 \<le> length src" "length src < 2 ^ 64"
    and ps: "\<forall>(ou, i) \<in> set ps. ou < d1 \<and> i < d0" and tr: "length tr = length src"
  shows "\<exists>out. rfold (transpose_step (int d0) (int d1) src) tr ps = Inr out \<and> length out = length src \<and>
    (\<forall>ou i. ou < d1 \<longrightarrow> i < d0 \<longrightarrow> out ! (i * d1 + ou) = (if (ou, i) \<in> set ps then src ! (ou * d0 + i) else tr ! (i * d1 + ou)))"
  using ps tr
proof (induction ps arbitrary: tr)
  case Nil
  then show ?case by simp
next
  case (Cons p ps)
  obtain ou i where p: "p = (ou, i)" "ou < d1" "i < d0" using Cons.prems(1) by (cases p) auto
  have in_src: "a * d0 + b < length src" if "a < d1" "b < d0" for a b
    using cell_in [OF that, of "length src"] len(1) by (simp add: mult.commute)
  have in_out: "b * d1 + a < length src" if "a < d1" "b < d0" for a b
    using cell_in [OF that(2,1) len(1)] .
  have sz: "to_size (int d0) = d0" "to_size (int d1) = d1" using d by (simp_all add: to_size_of_nat)
  have idx: "u64 (u64 (ou * d0) + i) = ou * d0 + i" "u64 (u64 (i * d1) + ou) = i * d1 + ou"
    using in_src [OF p(2,3)] in_out [OF p(2,3)] len(2) by simp_all
  let ?tr = "tr[i * d1 + ou := src ! (ou * d0 + i)]"
  have step: "transpose_step (int d0) (int d1) src tr p = Inr ?tr"
    using in_src [OF p(2,3)] in_out [OF p(2,3)] Cons.prems(2)
    by (simp add: transpose_step_def p(1) sz idx read_at_in write_at_def)
  obtain out where out: "rfold (transpose_step (int d0) (int d1) src) ?tr ps = Inr out" "length out = length src"
    "\<forall>ou i. ou < d1 \<longrightarrow> i < d0 \<longrightarrow> out ! (i * d1 + ou) = (if (ou, i) \<in> set ps then src ! (ou * d0 + i) else ?tr ! (i * d1 + ou))"
    using Cons.IH [of ?tr] Cons.prems by auto
  have upd: "?tr ! (b * d1 + a) = (if a = ou \<and> b = i then src ! (ou * d0 + i) else tr ! (b * d1 + a))" if "a < d1" "b < d0" for a b
  proof -
    have "b * d1 + a = i * d1 + ou \<longleftrightarrow> b = i \<and> a = ou"
    proof
      assume e: "b * d1 + a = i * d1 + ou"
      have "b = (b * d1 + a) div d1" "i = (i * d1 + ou) div d1" using that p(2) by simp_all
      then show "b = i \<and> a = ou" using e by simp
    qed simp
    then show ?thesis using in_out [OF that] Cons.prems(2) by (auto simp: nth_list_update)
  qed
  have "\<forall>a b. a < d1 \<longrightarrow> b < d0 \<longrightarrow> out ! (b * d1 + a) = (if (a, b) \<in> set (p # ps) then src ! (a * d0 + b) else tr ! (b * d1 + a))"
    using out(3) upd by (simp add: p(1))
  then show ?case using out(1,2) by (simp add: step)
qed

text \<open>
  C37: tensor_to_trit transposes exactly: for a matrix of d1 rows of d0 entries, the result holds at row i, column o the entry of row o, column i, and no access leaves the buffer.
\<close>

theorem transpose2_correct:
  assumes "d0 < 2 ^ 31" "d1 < 2 ^ 31" and "d0 * d1 \<le> length src" "length src < 2 ^ 64"
  shows "\<exists>out. transpose2 (int d0) (int d1) src = Inr out \<and> length out = length src \<and>
    (\<forall>ou < d1. \<forall>i < d0. out ! (i * d1 + ou) = src ! (ou * d0 + i))"
proof -
  let ?ps = "concat (map (\<lambda>ou. map (\<lambda>i. (ou, i)) [0..<d0]) [0..<d1])"
  have ps: "\<forall>(ou, i) \<in> set ?ps. ou < d1 \<and> i < d0" "\<And>ou i. ou < d1 \<Longrightarrow> i < d0 \<Longrightarrow> (ou, i) \<in> set ?ps"
    by force+
  show ?thesis
    using transpose_fold [OF assms ps(1), of "replicate (length src) fzero"] ps(2) unfolding transpose2_def by auto
qed

theorem transpose2_correct_witness:
  "\<exists>out. transpose2 2 3 (map (\<lambda>k. Num False (of_nat k)) [0..<6]) = Inr out \<and> out ! 1 = Num False 2 \<and> out ! 5 = Num False 5"
proof -
  let ?src = "map (\<lambda>k. Num False (of_nat k)) [0..<6]"
  obtain out where out: "transpose2 2 3 ?src = Inr out" "\<forall>ou < 3. \<forall>i < 2. out ! (i * 3 + ou) = ?src ! (ou * 2 + i)"
    using transpose2_correct [of 2 3 ?src] by auto
  have "out ! 1 = Num False 2" "out ! 5 = Num False 5" using out(2) [rule_format, of 1 0] out(2) [rule_format, of 2 1] by simp_all
  then show ?thesis using out(1) by blast
qed

end
