(* ===== verification/TerHarnessProps.thy ===== *)
theory TerHarnessProps
  imports TerHarness TerHostProps TerHalf TerLoad TerSimProps TerKernelProps
begin

text \<open>
  Properties of the harness: the argmax, greedy generation, the traced kernel call and the CSV output
  of the forward workload.
\<close>

section \<open>The argmax\<close>

lemma argmax_loop:
  assumes "n \<le> length xs" "0 < k" "k \<le> n" "0 \<le> b" "b < int k" "x = xs ! nat b"
  shows "\<exists>b'. rfold (argmax_step xs) (b, x) [k..<n]
      = Inr (b', xs ! nat b') \<and> 0 \<le> b' \<and> b' < int n \<and>
    ((\<forall>j < k. \<not> flt_less x (xs ! j)) \<longrightarrow> (\<forall>j < n. \<not> flt_less (xs ! nat b') (xs ! j)))"
  using assms
proof (induction "n - k" arbitrary: k b x)
  case 0
  then show ?case by auto
next
  case (Suc m)
  then have k: "k < n" and e: "[k..<n] = k # [Suc k..<n]" by (simp_all add: upt_conv_Cons)
  define c where "c = (if flt_less x (xs ! k) then int k else b)"
  define y where "y = xs ! nat c"
  have y: "y = (if flt_less x (xs ! k) then xs ! k else x)" and c: "0 \<le> c" "c < int (Suc k)"
    using Suc.prems by (auto simp: y_def c_def)
  obtain b' where b': "rfold (argmax_step xs) (c, y) [Suc k..<n]
      = Inr (b', xs ! nat b')" "0 \<le> b'" "b' < int n"
    "(\<forall>j < Suc k. \<not> flt_less y (xs ! j)) \<longrightarrow> (\<forall>j < n. \<not> flt_less (xs ! nat b') (xs ! j))"
  proof -
    have "m = n - Suc k" "Suc k \<le> n" using Suc.hyps(2) k by simp_all
    then show ?thesis using Suc.hyps(1) [of "Suc k" c y] Suc.prems(1) c that by (auto simp: y_def)
  qed
  have "\<forall>j < Suc k. \<not> flt_less y (xs ! j)" if "\<forall>j < k. \<not> flt_less x (xs ! j)"
    using that flt_less_trans [of x "xs ! k"] by (auto simp: y less_Suc_eq)
  then show ?case
    unfolding e using b' k Suc.prems(1) by (intro exI [of _ b']) (auto simp: argmax_step_def read_at_in c_def y)
qed

lemma argmax_index:
  assumes "0 < vocab" and "nat vocab \<le> length logits"
  shows "\<exists>b. argmax logits vocab = Inr b \<and> 0 \<le> b \<and> b < vocab \<and>
    (\<forall>j < nat vocab. \<not> flt_less (logits ! nat b) (logits ! j))"
proof -
  obtain b where "rfold (argmax_step logits) (0, logits ! 0) [1..<nat vocab]
      = Inr (b, logits ! nat b)" "0 \<le> b" "b < int (nat vocab)"
    "(\<forall>j < 1. \<not> flt_less (logits ! 0) (logits ! j)) \<longrightarrow> (\<forall>j < nat vocab. \<not> flt_less (logits ! nat b) (logits ! j))"
  proof -
    have "1 \<le> nat vocab" using assms by linarith
    then show ?thesis using argmax_loop [of "nat vocab" logits 1 0 "logits ! 0"] assms that by auto
  qed
  moreover have "read_at logits 0 = Inr (logits ! 0)" using assms by (intro read_at_in) linarith
  ultimately show ?thesis using assms(1) by (auto simp: argmax_def)
qed

text \<open>
  Sampler::argmax returns an index of the vocabulary, and no logit compares greater than the one it picks (a NaN compares with nothing).
\<close>

theorem argmax_greatest:
  assumes "0 < vocab" and "nat vocab \<le> length logits"
  shows "\<exists>b. argmax logits vocab = Inr b \<and> 0 \<le> b \<and> b < vocab \<and>
    (\<forall>j < nat vocab. \<not> flt_less (logits ! nat b) (logits ! j))"
  by (rule argmax_index [OF assms])

theorem argmax_greatest_witness:
  "\<exists>b. argmax [fzero, Num False 3, Num True 4] 3 = Inr b \<and> 0 \<le> b \<and> b < 3"
  using argmax_greatest [of 3 "[fzero, Num False 3, Num True 4]"] by auto

section \<open>Greedy generation\<close>

text \<open>Without a per-token state the pass leaves it absent.\<close>

lemma keeps_reader [keeps_intros]: "keeps P (\<lambda>s. (f s, s))"
  by (simp add: keeps_def)

lemma keeps_on_sim: "keeps (\<lambda>s. fw_state s = None) (TerForward.on_sim m)"
  by (simp add: keeps_def TerForward.on_sim_def split: prod.split)

lemma keeps_smap: "(\<And>x. keeps P (f x)) \<Longrightarrow> keeps P (smap f xs)"
  by (induction xs) (simp_all add: keeps_intros)

lemma stateless_parts:
  "keeps (\<lambda>s. fw_state s = None) (value_residual idx kvd v)" "keeps (\<lambda>s. fw_state s = None) (dwa_stage idx H x)"
  "keeps (\<lambda>s. fw_state s = None) (put_K a z)" "keeps (\<lambda>s. fw_state s = None) (put_V a z)"
  by (auto simp: keeps_def value_residual_def dwa_stage_def put_K_def put_V_def split: option.splits sum.splits)

lemmas stateless = keeps_intros keeps_on_sim keeps_smap stateless_parts

lemma stateless_layer: "keeps (\<lambda>s. fw_state s = None) (forward_layer E D W pos idx x)"
  unfolding forward_layer_def attn_block_def ffn_block_def norm_stage_def project_def project1_def rope_heads_def rope_one_def
    put_kv_def attention_def attend_head_def softmax_stage_def sub_norm_def ffn_act_def Let_def
  by (auto intro!: stateless split: prod.split)


lemma stateless_run_layer: "keeps (\<lambda>s. ho_state s = None) (run_layer E pos h l)"
  unfolding keeps_def run_layer_def
  by (auto split: sum.split prod.split intro: keepsD [OF stateless_layer, rotated])

lemma keeps_state: "(\<And>x. keeps P (m x)) \<Longrightarrow> keeps P (\<lambda>s. m (f s) s)"
  by (simp add: keeps_def)

lemma stateless_sim: "keeps (\<lambda>s. ho_state s = None) (on_host_sim m)"
  by (simp add: keeps_def on_host_sim_def split: prod.split)

lemma stateless_project: "keeps (\<lambda>s. ho_state s = None) (project_logits E h emb)"
proof -
  have "keeps (\<lambda>s. ho_state s = None) (sbind (lift a) (\<lambda>y. sbind (lift (b :: flt list res)) (\<lambda>W. sbind (on_host_sim (m :: (sim, unit) sx))
      (\<lambda>_. sbind (lift (v :: flt list res)) (\<lambda>_. lift (c y W :: flt list res))))))" for a :: "flt list res" and b m v c
    by (intro keeps_intros stateless_sim)
  then show ?thesis unfolding keeps_def project_logits_def Let_def by blast
qed

lemma stateless_enter: "keeps (\<lambda>s. ho_state s = None) (enter_token t ov)"
  by (auto simp: keeps_def enter_token_def start_state_def split: sum.split prod.split)

lemma stateless_layers: "keeps (\<lambda>s. ho_state s = None) (run_layers E pos h)"
proof -
  have "keeps (\<lambda>s. ho_state s = None) (sfold (\<lambda>h l. run_layer E pos h l) h ls)" for ls
    by (intro keeps_intros stateless_run_layer)
  then show ?thesis unfolding run_layers_def by (rule keeps_state)
qed

lemma stateless_token: "keeps (\<lambda>s. ho_state s = None) (forward_token E t pos ov)"
  unfolding forward_token_def
  by (auto intro!: keeps_intros stateless_enter stateless_layers stateless_project split: prod.split)

text \<open>What one step of the generation needs, and keeps, up to a last position \<open>q\<close>.\<close>

definition can_generate :: "bool \<Rightarrow> int \<Rightarrow> int \<Rightarrow> host \<Rightarrow> bool" where
  "can_generate bypass q V s \<longleftrightarrow>
     transformer_ok bypass q (ho_tx s) \<and> vocab_ok (ho_tx s) \<and> ho_state s = None \<and> tx_vocab_size (ho_tx s) = V"

lemma cache_ok_less: "cache_ok D q c \<Longrightarrow> p \<le> q \<Longrightarrow> cache_ok D p c"
proof -
  assume c: "cache_ok D q c" and p: "p \<le> q"
  then have "Suc (nat p) * kv_width D \<le> Suc (nat q) * kv_width D" by (intro mult_le_mono1) auto
  then show ?thesis using c unfolding cache_ok_def by linarith
qed

lemma transformer_ok_less: "transformer_ok bypass q tx \<Longrightarrow> p \<le> q \<Longrightarrow> transformer_ok bypass p tx"
  using cache_ok_less by (auto simp: transformer_ok_def)

lemma vocab_ok_caches: "vocab_ok (tx\<lparr>tx_kv_caches := cs\<rparr>) = vocab_ok tx"
  by (simp add: vocab_ok_def lm_weights_def cong: sum.case_cong)

lemma generate_step_total:
  assumes "can_generate (he_bypass E) q V s" and "27 \<le> pos" "pos \<le> q" "q < 2 ^ 31 - 1" and "0 \<le> cur" "cur < V" and "0 < g \<or> 5 \<le> V"
  shows "does s (generate_step E g cur pos) (\<lambda>x t. 0 \<le> x \<and> x < V \<and> can_generate (he_bypass E) q V t)"
proof -
  have ok: "transformer_ok (he_bypass E) pos (ho_tx s)" "vocab_ok (ho_tx s)" "ho_state s = None" "tx_vocab_size (ho_tx s) = V"
    using assms(1) transformer_ok_less [OF _ assms(3)] by (auto simp: can_generate_def)
  then have "does s (forward_token E cur pos None) (\<lambda>y t. length y = nat (tx_vocab_size (ho_tx s)) \<and>
    ho_sim t = tick (of_nat (token_tiles (he_bypass E) (ho_tx s))) (ho_sim s) \<and>
    caches_written pos (nat (tx_n_layers (ho_tx s))) (ho_tx s) (ho_tx t))"
    by (intro token_total) (use assms in \<open>auto simp: fresh_state_ok_def\<close>)
  then obtain y t where y: "forward_token E cur pos None s = (Inr y, t)" "length y = nat V"
    "caches_written pos (nat (tx_n_layers (ho_tx s))) (ho_tx s) (ho_tx t)"
    by (rule doesE) (use ok in simp)
  have tx: "ho_tx t = (ho_tx s)\<lparr>tx_kv_caches := tx_kv_caches (ho_tx t)\<rparr>" using y(3) by (simp add: caches_written_def)
  have "vocab_ok (ho_tx t)" "tx_vocab_size (ho_tx t) = V" using ok vocab_ok_caches by (subst tx, simp)+
  moreover have "ho_state t = None" using keepsD [OF stateless_token _ y(1)] ok(3) by blast
  moreover have "transformer_ok (he_bypass E) q (ho_tx t)"
    using caches_written_ok [OF y(3)] assms(1) by (simp add: can_generate_def)
  ultimately have t: "can_generate (he_bypass E) q V t" "tx_vocab_size (ho_tx t) = V" by (simp_all add: can_generate_def)
  obtain b where "argmax y V = Inr b" "0 \<le> b" "b < V" using argmax_index [of V y] assms y(2) by auto
  then show ?thesis using t y(1) assms(7) by (auto simp: does_def generate_step_def sbind_def lift_def ret_def)
qed

lemma generate_total:
  assumes "can_generate (he_bypass E) q V s" and "27 \<le> pos" "pos + int n \<le> q + 1" "q < 2 ^ 31 - 2" and "0 \<le> cur" "cur < V"
    and "0 < g \<or> 5 \<le> V"
  shows "does s (generate_from E n g cur pos) (\<lambda>xs t. length xs = n \<and> (\<forall>x \<in> set xs. 0 \<le> x \<and> x < V) \<and> can_generate (he_bypass E) q V t)"
  using assms
proof (induction n arbitrary: s g cur pos)
  case 0
  then show ?case by (simp add: does_ret)
next
  case (Suc n)
  obtain x t where x: "generate_step E g cur pos s = (Inr x, t)" "0 \<le> x" "x < V" "can_generate (he_bypass E) q V t"
    by (rule doesE [OF generate_step_total [OF Suc.prems(1,2), of cur g]]) (use Suc.prems in auto)
  have p: "add_i32 pos 1 = Inr (pos + 1)" using Suc.prems by (simp add: add_i32_def in_i32_def)
  obtain xs u where u: "generate_from E n (Suc g) x (pos + 1) t = (Inr xs, u)" "length xs = n"
    "\<forall>x \<in> set xs. 0 \<le> x \<and> x < V" "can_generate (he_bypass E) q V u"
    by (rule doesE [OF Suc.IH [OF x(4), of "pos + 1" x "Suc g"]]) (use Suc.prems x in auto)
  show ?case using x u by (simp add: does_def sbind_def p lift_def ret_def)
qed

text \<open>
  C12: Greedy generation always delivers: from a position of at least 27, on a well-sized transformer whose caches have room, the loop of run_generate_workload returns after exactly the requested number of steps with that many tokens, each inside the vocabulary, so every token fed back is a legal input of the next pass.
\<close>

theorem generation_delivers:
  assumes "transformer_ok (he_bypass E) (pos + int n - 1) (ho_tx s)" and "vocab_ok (ho_tx s)" and "ho_state s = None"
    and "27 \<le> pos" "pos + int n < 2 ^ 31 - 1" and "0 \<le> cur" "cur < tx_vocab_size (ho_tx s)"
    and "0 < g \<or> 5 \<le> tx_vocab_size (ho_tx s)"
  shows "\<exists>gen t. generate_from E n g cur pos s = (Inr gen, t) \<and> length gen = n \<and>
    (\<forall>x \<in> set gen. 0 \<le> x \<and> x < tx_vocab_size (ho_tx s))"
proof -
  have "can_generate (he_bypass E) (pos + int n - 1) (tx_vocab_size (ho_tx s)) s"
    using assms by (simp add: can_generate_def)
  from generate_total [OF this, of pos n cur g] show ?thesis using assms by (auto simp: does_def)
qed

theorem generation_delivers_witness:
  "\<exists>gen t. generate_from small_env 1 1 0 27 small_host = (Inr gen, t) \<and> length gen = 1"
  using generation_delivers [of small_env 27 1 small_host 0 1] small_ok by (auto simp: small_env_def small_host_def)

section \<open>Traced kernel calls\<close>

text \<open>The set-up of a call leaves the counters alone.\<close>

lemma keeps_counters:
  "keeps (\<lambda>s. sim_counters s = c) (write_args k args)" "keeps (\<lambda>s. sim_counters s = c) (set_pc w)"
  "keeps (\<lambda>s. sim_counters s = c) (set_halted b)" "keeps (\<lambda>s. sim_counters s = c) (from_int v)"
  "keeps (\<lambda>s. sim_counters s = c) (modify (\<lambda>s. s\<lparr>sim_regs := f (sim_regs s)\<rparr>))" "keeps (\<lambda>s. sim_counters s = c) (rd k)"
proof -
  have w: "keeps (\<lambda>s. sim_counters s = c) (wr k w)" for k w by (simp add: keeps_def wr_def split: sum.split)
  show "keeps (\<lambda>s. sim_counters s = c) (write_args k args)"
    unfolding write_args_def from_int_def write_reg_def by (auto intro!: keeps_intros w split: prod.split)
qed (auto simp: keeps_def set_pc_def set_halted_def from_int_def rd_def modify_def lift_def)

text \<open>
  C23: Attaching the cycle model does not change what a kernel call computes: whenever call_kernel returns, the traced call of the harness returns the same value and leaves the same simulator, and the pipeline has retired exactly the instructions the simulator counted.
\<close>

theorem traced_call_same:
  assumes call: "call_kernel ident args s = (Inr v, t)" and "pipe_ok E P p" and "bounded E N p"
    and "roomy E P N kSafetyLimit (pl_cfg p)"
  shows "\<exists>q. call_kernel_traced ident args \<lparr>tr_sim = s, tr_pipe = p\<rparr> = (Inr v, \<lparr>tr_sim = t, tr_pipe = q\<rparr>) \<and>
    pr_insns_total (pl_report q) - pr_insns_total (pl_report p) = oc_total (sim_counters t) - oc_total (sim_counters s)"
proof -
  have ok: "ki_valid ident" "\<not> length args > 7" using call by (auto simp: call_kernel_def throw_def split: if_splits)
  obtain s1 where s1: "modify (\<lambda>s. s\<lparr>sim_regs := reset_caller_saved (sim_regs s)\<rparr>) s = (Inr (), s1)" by (simp add: modify_def)
  from call ok s1 obtain s2 where s2: "write_args 1 args s1 = (Inr (), s2)"
    by (auto simp: call_kernel_def sbind_def split: prod.splits sum.splits)
  from call ok s1 s2 obtain pc s3 where s3: "from_int (to_i64 (int (ki_entry ident))) s2 = (Inr pc, s3)"
    by (auto simp: call_kernel_def sbind_def split: prod.splits sum.splits)
  obtain s4 where s4: "set_pc pc s3 = (Inr (), s4)" by (simp add: set_pc_def modify_def)
  obtain s5 where s5: "set_halted False s4 = (Inr (), s5)" by (simp add: set_halted_def modify_def)
  note steps = s1 s2 s3 s4 s5
  have rest: "sbind run (\<lambda>_ :: unit. sbind (rd 1) (\<lambda>w. ret (word27_to_int w))) s5 = (Inr v, t)"
    using call ok by (simp add: call_kernel_def sbind_def steps del: One_nat_def)
  then obtain s6 where s6: "run s5 = (Inr (), s6)" and r: "sbind (rd 1) (\<lambda>w. ret (word27_to_int w)) s6 = (Inr v, t)"
    by (auto simp: sbind_def split: prod.splits sum.splits)
  then obtain w where w: "rd 1 s6 = (Inr w, t)" "v = word27_to_int w"
    by (auto simp: sbind_def rd_def ret_def split: prod.splits sum.splits)
  obtain q where q: "run_traced \<lparr>tr_sim = s5, tr_pipe = p\<rparr> = (Inr (), \<lparr>tr_sim = s6, tr_pipe = q\<rparr>)"
    "pr_insns_total (pl_report q) - pr_insns_total (pl_report p) = oc_total (sim_counters s6) - oc_total (sim_counters s5)"
    using run_traced_same [OF s6 assms(2-4)] by blast
  have "call_kernel_traced ident args \<lparr>tr_sim = s, tr_pipe = p\<rparr> = (Inr v, \<lparr>tr_sim = t, tr_pipe = q\<rparr>)"
    using ok w by (simp add: call_kernel_traced_def sbind_def on_traced_def steps q(1) ret_def del: One_nat_def)
  moreover have "sim_counters s5 = sim_counters s" "sim_counters t = sim_counters s6"
    using keepsD [OF keeps_counters(5) _ s1] keepsD [OF keeps_counters(1) _ s2] keepsD [OF keeps_counters(4) _ s3]
      keepsD [OF keeps_counters(2) _ s4] keepsD [OF keeps_counters(3) _ s5] keepsD [OF keeps_counters(6) _ w(1)] by blast+
  ultimately show ?thesis using q(2) by auto
qed

theorem traced_call_same_witness:
  "\<exists>t u q. call_kernel_traced \<lparr>ki_entry = 0, ki_valid = True\<rparr> [10, 40, 70] \<lparr>tr_sim = t, tr_pipe = mk_pipeline default_pipeline_config\<rparr>
     = (Inr 10, \<lparr>tr_sim = u, tr_pipe = q\<rparr>) \<and> pr_insns_total (pl_report q) = 6"
proof -
  let ?k = "\<lparr>ks_sim = mk_sim 100, ks_kt = mk_kernel_table\<rparr>"
  have z: "kt_next (ks_kt ?k) = 0" by (simp add: mk_kernel_table_def)
  then have h: "kt_next (ks_kt ?k) + 6 \<le> msize (ks_sim ?k)" "msize (ks_sim ?k) \<le> 2 ^ 31"
    "free_slots (kt_entries (ks_kt ?k)) \<noteq> 0" "slots_ok (kt_entries (ks_kt ?k))"
    "lookup_entry (kt_entries (ks_kt ?k)) ''tk_matmul_b_9t'' = None"
    by (simp_all add: fresh_table wf_sim_init)
  obtain t :: kstate where t: "code_at (ks_sim t) 0 matmul_prog" "sim_regs (ks_sim t) = sim_regs (mk_sim 100)" "msize (ks_sim t) = msize (mk_sim 100)"
    using matmul_installed [OF h] z by auto
  have "shaped (ks_sim t)" "block_ok (ks_sim t) 10" "block_ok (ks_sim t) 40" "addr_ok (ks_sim t) 70" "msize (ks_sim t) \<le> 2 ^ 31"
  proof -
    have "shaped (mk_sim 100)" using wf_sim_init [of 100] by simp
    then show "shaped (ks_sim t)" by (simp add: shaped_def t(2))
  qed (simp_all add: block_ok_def addr_ok_def t(3))
  from matmul_call [OF t(1) this(1,5,2-4)]
  obtain u where u: "call_kernel \<lparr>ki_entry = 0, ki_valid = True\<rparr> [10, 40, 70] (ks_sim t) = (Inr 10, u)"
    "sim_counters u = foldl (\<lambda>c i. bump (op i) c) (sim_counters (ks_sim t)) matmul_prog" by auto
  have "oc_total (sim_counters u) = oc_total (sim_counters (ks_sim t)) + 6"
    unfolding u(2) by (simp add: matmul_prog_def bump_def)
  with traced_call_same [OF u(1) default_pipe_ok default_pipe_room] show ?thesis
    by (auto simp: mk_pipeline_def no_report_def)
qed

section \<open>CSV output\<close>

lemma forward_name_comma: "count_list (forward_name (dims_for m)) CHR '','' = 1"
proof -
  have "count_list (show_int k) CHR '','' = 0" for k using comma_show_int(1) by (simp add: count_list_0_iff)
  moreover have "count_list (md_name (dims_for m)) CHR '','' = 0" by (simp add: dims_for_def)
  ultimately show ?thesis by (simp add: forward_name_def)
qed

text \<open>
  The CSV output of the kernel workload lines up with its header when the kernel's name holds no comma, but a row of the forward workload always has one column more than the header: its workload name contains a comma and is written without quoting (numbers are assumed to be printed without commas, as in the default locale).
\<close>

theorem csv_forward_shifted:
  assumes "\<And>x. CHR '','' \<notin> set (show_d x)"
  shows "(CHR '','' \<notin> set (ha_kernel a) \<longrightarrow>
      length (split_on CHR '','' (emit_csv_row show_d (kernel_report now a k p))) = length (split_on CHR '','' emit_csv_header)) \<and>
    length (split_on CHR '','' (emit_csv_row show_d (forward_report now a k r m))) = length (split_on CHR '','' emit_csv_header) + 1"
  unfolding csv_row_columns [OF assms]
  by (simp add: kernel_report_def forward_report_def Let_def meta_of_def forward_name_comma count_list_0_iff)

theorem csv_forward_shifted_witness:
  "length (split_on CHR '','' (emit_csv_row (\<lambda>_. ''0'') (forward_report ''now'' default_args counters_init no_report no_mem_stats)))
    = length (split_on CHR '','' emit_csv_header) + 1"
  using csv_forward_shifted [of "\<lambda>_. ''0''" default_args] by simp

section \<open>Loading\<close>

text \<open>
  C19: Whatever model file the harness accepts, the transformer it builds is well-formed: the layer count is not negative, there is one block and one cache per layer, every layer of forward_token finds its block and its cache, and each cache has the sizes of max_seq rows.
\<close>

theorem loaded_layers_found:
  assumes "load_any L G a max_seq = Inr tx" and "in_i32 (mc_n_layers (gg_config G))"
  shows "layers_ready max_seq tx \<and> (\<forall>l < nat (tx_n_layers tx). layer_parts tx l = Inr (tx_blocks tx ! l, tx_kv_caches tx ! l))"
proof -
  have "layers_ready max_seq tx \<and> tx_n_layers tx = mc_n_layers (gg_config G)"
    using assms llama_ready bitnet_ready by (auto simp: load_any_def split: if_splits)
  then show ?thesis using ready_parts assms(2) by auto
qed

text \<open>A model file of one layer whose tensors all hold a single zero.\<close>

definition unit_gguf :: gguf where
  "unit_gguf = \<lparr>gg_config = \<lparr>mc_architecture = ''llama'', mc_bos_token_id = 1, mc_vocab_size = 1, mc_hidden_size = 1,
       mc_intermediate_size = 1, mc_n_layers = 1, mc_n_heads = 1, mc_n_kv_heads = 1, mc_head_dim = 1, mc_norm_eps = fzero,
       mc_rope_theta = fone, mc_brandon = \<lparr>bc_block_count = 0, bc_layer_map = [], bc_n_registers = 0, bc_use_dwa = False,
         bc_use_value_residual = False, bc_weight_tying = True\<rparr>\<rparr>,
     gg_tensor = (\<lambda>_. Inr \<lparr>nt_cpu = True, nt_dtype_of = NT_F32, nt_shape = [1, 1], nt_data = [0, 0, 0, 0]\<rparr>),
     gg_info_shape = (\<lambda>_. Some [1, 1])\<rparr>"

lemma unit_tensor:
  assumes "co_fp32 c" "\<not> co_format_a c" "\<not> co_bitnet c"
  shows "\<exists>m. tensor_to_trit plain_libm \<lparr>nt_cpu = True, nt_dtype_of = NT_F32, nt_shape = [1, 1], nt_data = [0, 0, 0, 0]\<rparr> c = Inr m"
proof -
  have n: "elem_count [1, 1] = 1" by (simp add: elem_count_def to_size_id)
  have d: "dequant_f32 [0, 0, 0, 0] 1 (replicate 1 fzero) = Inr [float_of_bits 0]"
    by (simp add: dequant_f32_def overwrite_def byte_u32_def byte_u16_def read_at_def)
  have t: "\<exists>ys. transpose2 1 1 [x] = Inr ys" for x
    by (simp add: transpose2_def transpose_step_def read_at_def write_at_def to_size_id)
  obtain ys where "transpose2 1 1 [float_of_bits 0] = Inr ys" using t by blast
  then show ?thesis using assms by (simp add: tensor_to_trit_def n new_vec_def dequant_tensor_def d Let_def to_i32_def del: One_nat_def)
qed

lemma unit_matrix: "co_fp32 c \<Longrightarrow> \<not> co_format_a c \<Longrightarrow> \<not> co_bitnet c \<Longrightarrow> \<exists>m. load_matrix plain_libm unit_gguf c name = Inr m"
  using unit_tensor by (simp add: load_matrix_def unit_gguf_def)

lemma unit_floats: "\<exists>xs. load_floats unit_gguf name = Inr xs"
proof -
  have n: "elem_count [1, 1] = 1" by (simp add: elem_count_def to_size_id)
  have d: "dequant_f32 [0, 0, 0, 0] 1 (replicate 1 fzero) = Inr [float_of_bits 0]"
    by (simp add: dequant_f32_def overwrite_def byte_u32_def byte_u16_def read_at_def)
  show ?thesis by (simp add: load_floats_def unit_gguf_def as_floats_def n new_vec_def d del: One_nat_def)
qed

lemma unit_load: "\<exists>tx. load_any plain_libm unit_gguf (default_args\<lparr>ha_fp32_weights := True\<rparr>) 4 = Inr tx \<and> tx_n_layers tx = 1"
proof -
  define c where "c = \<lparr>co_n_trits = 9, co_format_a = False, co_mant = 9, co_bitnet = False, co_block_size = 0,
    co_transpose = False, co_fp32 = True\<rparr>"
  define m where "m = (\<lambda>c name. projr (load_matrix plain_libm unit_gguf c name))"
  have m: "load_matrix plain_libm unit_gguf (c\<lparr>co_transpose := True\<rparr>) name = Inr (m (c\<lparr>co_transpose := True\<rparr>) name)"
    "load_matrix plain_libm unit_gguf (c\<lparr>co_block_size := 0, co_transpose := False\<rparr>) name = Inr (m (c\<lparr>co_block_size := 0, co_transpose := False\<rparr>) name)" for name
    using unit_matrix [of "c\<lparr>co_transpose := True\<rparr>" name] unit_matrix [of "c\<lparr>co_block_size := 0, co_transpose := False\<rparr>" name]
    by (auto simp: m_def c_def)
  define f where "f = (\<lambda>name. projr (load_floats unit_gguf name))"
  have f: "load_floats unit_gguf name = Inr (f name)" for name using unit_floats [of name] by (auto simp: f_def)
  have "\<exists>W. build_block plain_libm unit_gguf c 0 = Inr W" by (simp only: build_block_def Let_def m f rbind_simps) simp
  then obtain W where W: "build_block plain_libm unit_gguf c 0 = Inr W" by blast
  have g: "mc_n_layers (gg_config unit_gguf) = 1" "mc_n_kv_heads (gg_config unit_gguf) = 1" "mc_head_dim (gg_config unit_gguf) = 1"
    "gg_info_shape unit_gguf n = Some [1, 1]" "is_bitnet (mc_architecture (gg_config unit_gguf)) = False" for n
    by (simp_all add: unit_gguf_def is_bitnet_def contains_def)
  have "\<exists>tx. load_llama_transformer plain_libm unit_gguf 4 c = Inr tx \<and> tx_n_layers tx = 1"
    by (simp add: load_llama_transformer_def g Let_def reserve_def to_size_id W m f new_caches_def kv_resize_def new_vec_def config_fields_def)
  then show ?thesis by (simp add: load_any_def g default_args_def c_def)
qed

theorem loaded_layers_found_witness:
  "\<exists>tx. load_any plain_libm unit_gguf (default_args\<lparr>ha_fp32_weights := True\<rparr>) 4 = Inr tx \<and> length (tx_blocks tx) = 1"
proof -
  obtain tx where tx: "load_any plain_libm unit_gguf (default_args\<lparr>ha_fp32_weights := True\<rparr>) 4 = Inr tx" "tx_n_layers tx = 1"
    using unit_load by blast
  have "in_i32 (mc_n_layers (gg_config unit_gguf))" by (simp add: unit_gguf_def in_i32_def)
  then show ?thesis using loaded_layers_found [OF tx(1)] tx by (auto simp: layers_ready_def)
qed

end
