(* ===== verification/TerCuda.thy ===== *)
theory TerCuda
  imports TerMatmul
begin

text \<open>
  What the packed-trit CUDA kernels (\<open>cuda/ter_cuda_packed*.cu\<close>) share: the two-bit codes of the
  trits, the row-major and column-major byte layouts of a weight matrix, aligned 32-bit loads,
  \<open>__dp4a\<close>, the loops over a column, the shuffle reduction of a warp, the cooperative load of a
  tile into shared memory, and the launch of a kernel as the writes of its threads. A misaligned
  load, an access beyond a buffer, a signed overflow and a read of shared memory that no thread has
  written are error values. The threads of a launch write disjoint cells, so their order is not
  modelled except where a kernel lacks a barrier.
\<close>

section \<open>Codes and layouts\<close>

definition trit_code :: "int \<Rightarrow> 8 word" where
  "trit_code v = (if v = 1 then 1 else if v = - 1 then 2 else 0)"

definition pack_byte :: "(nat \<Rightarrow> int) \<Rightarrow> 8 word" where
  "pack_byte f = foldl (\<lambda>b t. or b (push_bit (t * 2) (and (trit_code (f t)) 3))) 0 [0..<4]"

text \<open>The matrix \<open>W\<close> is given by rows of \<open>N\<close> trits; a byte holds four columns of a row.\<close>

definition pack_rows :: "nat \<Rightarrow> nat \<Rightarrow> int list \<Rightarrow> 8 word list" where
  "pack_rows K N W =
     concat (map (\<lambda>k. map (\<lambda>jb. pack_byte (\<lambda>t. W ! (k * N + jb * 4 + t))) [0..<N div 4]) [0..<K])"

definition col_bytes :: "nat \<Rightarrow> nat \<Rightarrow> 8 word list \<Rightarrow> 8 word list" where
  "col_bytes K N row = concat (map (\<lambda>jb. map (\<lambda>k. row ! (k * (N div 4) + jb)) [0..<K]) [0..<N div 4])"

definition code_of :: "8 word \<Rightarrow> nat \<Rightarrow> int" where
  "code_of b sb = uint (and (drop_bit sb b) 3)"

text \<open>The two decoders: by comparisons, and without branches.\<close>

definition dec_cmp :: "int \<Rightarrow> int" where
  "dec_cmp t = of_bool (t = 1) - of_bool (t = 2)"

definition dec_trit :: "int \<Rightarrow> int" where
  "dec_trit t = and t 1 - and (drop_bit 1 t) 1"

section \<open>Words of four bytes\<close>

definition quad_of :: "8 word list \<Rightarrow> 32 word" where
  "quad_of bs = foldl (\<lambda>w i. or w (push_bit (8 * i) (ucast (bs ! i)))) 0 [0..<4]"

definition byte_of :: "32 word \<Rightarrow> nat \<Rightarrow> 8 word" where
  "byte_of w i = ucast (and (drop_bit (8 * i) w) 0xff)"

text \<open>A 32-bit load through a reinterpreted byte pointer; the buffers themselves are aligned.\<close>

definition load_u32 :: "8 word list \<Rightarrow> nat \<Rightarrow> 32 word res" where
  "load_u32 bs i =
     (if i mod 4 \<noteq> 0 then Inl (InvalidArgument ''misaligned address'')
      else rbind (rmap (read_at bs) [i..<i + 4]) (\<lambda>q. Inr (quad_of q)))"

definition dp4a :: "32 word \<Rightarrow> 32 word \<Rightarrow> int \<Rightarrow> int" where
  "dp4a x w acc = to_i32 (acc + (\<Sum>i\<leftarrow>[0..<4]. sint (byte_of x i) * sint (byte_of w i)))"

section \<open>Multiply-accumulate steps\<close>

text \<open>
  One row, and four rows by \<open>__dp4a\<close>, for the column at bit \<open>sb\<close> of its byte. How a kernel reads
  an activation (\<open>rx\<close>, \<open>rx4\<close>) and a weight byte (\<open>rw\<close>, \<open>rw4\<close>) is an argument.
\<close>

definition mac1 :: "(int \<Rightarrow> int) \<Rightarrow> (nat \<Rightarrow> 8 word res) \<Rightarrow> (nat \<Rightarrow> 8 word res) \<Rightarrow> nat \<Rightarrow> nat \<Rightarrow> int \<Rightarrow> int res" where
  "mac1 dec rx rw sb k acc =
     rbind (rx k) (\<lambda>x. if sint x = 0 then Inr acc
       else rbind (rw k) (\<lambda>b. add_i32 acc (sint x * dec (code_of b sb))))"

definition weights4 :: "(int \<Rightarrow> int) \<Rightarrow> nat \<Rightarrow> 8 word list \<Rightarrow> 32 word" where
  "weights4 dec sb bs = quad_of (map (\<lambda>b. word_of_int (dec (code_of b sb))) bs)"

definition mac4 :: "(int \<Rightarrow> int) \<Rightarrow> (nat \<Rightarrow> 32 word res) \<Rightarrow> (nat \<Rightarrow> 8 word list res) \<Rightarrow> nat \<Rightarrow> nat \<Rightarrow> int \<Rightarrow> int res" where
  "mac4 dec rx4 rw4 sb k acc =
     rbind (rw4 k) (\<lambda>bs. rbind (rx4 k) (\<lambda>x. Inr (dp4a x (weights4 dec sb bs) acc)))"

text \<open>The same for \<open>n\<close> adjacent columns.\<close>

definition macs1 :: "nat \<Rightarrow> (int \<Rightarrow> int) \<Rightarrow> (nat \<Rightarrow> 8 word res) \<Rightarrow> (nat \<Rightarrow> nat \<Rightarrow> int res) \<Rightarrow> nat \<Rightarrow> int list \<Rightarrow> int list res" where
  "macs1 n dec rx rt k accs =
     rbind (rx k) (\<lambda>x. if sint x = 0 then Inr accs
       else rmap (\<lambda>i. rbind (rt k i) (\<lambda>t. add_i32 (accs ! i) (sint x * dec t))) [0..<n])"

definition macs4 :: "(int \<Rightarrow> int) \<Rightarrow> (nat \<Rightarrow> 32 word res) \<Rightarrow> (nat \<Rightarrow> 8 word list res) \<Rightarrow> nat \<Rightarrow> int list \<Rightarrow> int list res" where
  "macs4 dec rx4 rw4 k accs =
     rbind (rw4 k) (\<lambda>bs. rbind (rx4 k) (\<lambda>x.
       Inr (map (\<lambda>sub. dp4a x (weights4 dec (sub * 2) bs) (accs ! sub)) [0..<4])))"

text \<open>\<open>for (; kk + n <= kend; kk += n)\<close>: the counter and the accumulator it leaves.\<close>

function stride_loop :: "nat \<Rightarrow> (nat \<Rightarrow> 'a \<Rightarrow> 'a res) \<Rightarrow> nat \<Rightarrow> nat \<Rightarrow> 'a \<Rightarrow> (nat \<times> 'a) res" where
  "stride_loop n f kend kk acc =
     (if n = 0 \<or> kk + n > kend then Inr (kk, acc) else rbind (f kk acc) (\<lambda>a. stride_loop n f kend (kk + n) a))"
  by pat_completeness auto
termination by (relation "measure (\<lambda>(n, f, kend, kk, acc). kend - kk)") auto

declare stride_loop.simps [simp del]

text \<open>Four rows at a time and then the rest; sixteen, four and the rest.\<close>

definition quad_loop :: "(nat \<Rightarrow> 'a \<Rightarrow> 'a res) \<Rightarrow> (nat \<Rightarrow> 'a \<Rightarrow> 'a res) \<Rightarrow> nat \<Rightarrow> nat \<Rightarrow> 'a \<Rightarrow> 'a res" where
  "quad_loop f4 f1 kend kk acc =
     rbind (stride_loop 4 f4 kend kk acc) (\<lambda>(kk, acc).
     rbind (stride_loop 1 f1 kend kk acc) (\<lambda>(kk, acc). Inr acc))"

definition deep_loop :: "(nat \<Rightarrow> 'a \<Rightarrow> 'a res) \<Rightarrow> (nat \<Rightarrow> 'a \<Rightarrow> 'a res) \<Rightarrow> (nat \<Rightarrow> 'a \<Rightarrow> 'a res) \<Rightarrow> nat \<Rightarrow> nat \<Rightarrow> 'a \<Rightarrow> 'a res" where
  "deep_loop f16 f4 f1 kend kk acc =
     rbind (stride_loop 16 f16 kend kk acc) (\<lambda>(kk, acc). quad_loop f4 f1 kend kk acc)"

section \<open>A warp\<close>

text \<open>\<open>acc += __shfl_xor_sync(0xffffffff, acc, o)\<close> on all 32 lanes, for the offsets 16, 8, 4, 2, 1.\<close>

definition shuffle_add :: "nat \<Rightarrow> int list \<Rightarrow> int list res" where
  "shuffle_add o' v = rmap (\<lambda>i. add_i32 (v ! i) (v ! (xor i o'))) [0..<32]"

definition warp_sum :: "int list \<Rightarrow> int list res" where
  "warp_sum v = rfold (\<lambda>v o'. shuffle_add o' v) v [16, 8, 4, 2, 1]"

section \<open>A block with a tile in shared memory\<close>

definition tile_starts :: "nat \<Rightarrow> nat \<Rightarrow> nat list" where
  "tile_starts KT K = map (\<lambda>i. i * KT) [0..<(K + KT - 1) div KT]"

text \<open>
  \<open>for (i = tid; i < K_TILE && k0 + i < K; i += blockDim.x) X_smem[i] = X[k0 + i]\<close> by the threads
  that are still running; those that have returned load nothing.
\<close>

definition coop_load :: "nat \<Rightarrow> nat \<Rightarrow> nat list \<Rightarrow> 8 word list \<Rightarrow> nat \<Rightarrow> nat \<Rightarrow> 8 word option list \<Rightarrow> 8 word option list res" where
  "coop_load KT bd alive X K k0 smem =
     rfold (\<lambda>s tid. rfold (\<lambda>s i. rbind (read_at X (k0 + i)) (\<lambda>x. write_at s i (Some x))) s
         (filter (\<lambda>i. i mod bd = tid) [0..<min KT (K - k0)])) smem alive"

definition smem_at :: "8 word option list \<Rightarrow> nat \<Rightarrow> 8 word res" where
  "smem_at s i = rbind (read_at s i) (\<lambda>c. case c of None \<Rightarrow> Inl (RuntimeError ''shared memory not written'') | Some x \<Rightarrow> Inr x)"

text \<open>
  The tiles of a block: all running threads load, then each runs its loop over the tile. \<open>accs\<close>
  holds the accumulator of each running thread.
\<close>

definition tiled_block ::
  "nat \<Rightarrow> nat \<Rightarrow> nat list \<Rightarrow> 8 word list \<Rightarrow> nat \<Rightarrow> ((nat \<Rightarrow> 8 word res) \<Rightarrow> nat \<Rightarrow> nat \<Rightarrow> nat \<Rightarrow> 'a \<Rightarrow> 'a res) \<Rightarrow> 'a \<Rightarrow>
    'a list res" where
  "tiled_block KT bd alive X K body a0 =
     rbind (rfold (\<lambda>(smem, accs) k0.
         rbind (coop_load KT bd alive X K k0 smem) (\<lambda>smem'.
         rbind (rmap (\<lambda>(tid, a). body (smem_at smem') k0 (min KT (K - k0)) tid a) (zip alive accs)) (\<lambda>accs'.
         Inr (smem', accs'))))
       (replicate KT None, replicate (length alive) a0) (tile_starts KT K)) (\<lambda>(smem, accs). Inr accs)"

section \<open>A launch\<close>

text \<open>\<open>__float2half((float)acc * scale)\<close>.\<close>

definition out_half :: "flt \<Rightarrow> int \<Rightarrow> flt" where
  "out_half scale acc = fcvt F16 (fmul F32 (of_int_flt F32 acc) scale)"

text \<open>The units of a launch (threads, warps or blocks) with the cells each writes.\<close>

definition launch :: "nat \<Rightarrow> (nat \<Rightarrow> (nat \<times> flt) list res) \<Rightarrow> flt list \<Rightarrow> flt list res" where
  "launch n body out =
     rfold (\<lambda>o' u. rbind (body u) (\<lambda>ws. rfold (\<lambda>o' (i, y). write_at o' i y) o' ws)) out [0..<n]"

section \<open>Facts\<close>

lemma dec_trit_cmp: "0 \<le> t \<Longrightarrow> t < 4 \<Longrightarrow> dec_trit t = dec_cmp t"
proof -
  assume "0 \<le> t" "t < 4"
  then have "t = 0 \<or> t = 1 \<or> t = 2 \<or> t = 3" by linarith
  then show ?thesis by (elim disjE) (simp_all add: dec_trit_def dec_cmp_def)
qed

lemma code_of_range: "0 \<le> code_of b sb" "code_of b sb < 4"
proof -
  have "and (drop_bit sb b) 3 \<le> (3 :: 8 word)" by (rule word_and_le1)
  then show "code_of b sb < 4" unfolding code_of_def by (simp add: word_le_def)
  show "0 \<le> code_of b sb" by (simp add: code_of_def)
qed

definition is_decoder :: "(int \<Rightarrow> int) \<Rightarrow> bool" where
  "is_decoder dec \<longleftrightarrow> (\<forall>t. 0 \<le> t \<and> t < 4 \<longrightarrow> dec t = dec_cmp t)"

lemma decoders: "is_decoder dec_cmp" "is_decoder dec_trit"
  by (simp_all add: is_decoder_def dec_trit_cmp)

lemma decoder_code: "is_decoder dec \<Longrightarrow> dec (code_of b sb) = dec_cmp (code_of b sb)"
  by (simp add: is_decoder_def code_of_range)

lemma dec_cmp_range: "dec_cmp t = - 1 \<or> dec_cmp t = 0 \<or> dec_cmp t = 1"
  by (simp add: dec_cmp_def)

lemma upt_4: "[0..<4] = [0, 1, 2, 3 :: nat]"
  by (simp add: upt_rec)

lemma code_of_pack:
  assumes "\<And>t. t < 4 \<Longrightarrow> f t = - 1 \<or> f t = 0 \<or> f t = 1" and "i < 4"
  shows "dec_cmp (code_of (pack_byte f) (i * 2)) = f i"
proof -
  have "f 0 = - 1 \<or> f 0 = 0 \<or> f 0 = 1" "f 1 = - 1 \<or> f 1 = 0 \<or> f 1 = 1"
    "f 2 = - 1 \<or> f 2 = 0 \<or> f 2 = 1" "f 3 = - 1 \<or> f 3 = 0 \<or> f 3 = 1" using assms(1) by simp_all
  moreover have "i = 0 \<or> i = 1 \<or> i = 2 \<or> i = 3" using assms(2) by linarith
  ultimately show ?thesis
    by (elim disjE) (simp_all add: pack_byte_def upt_4 trit_code_def code_of_def dec_cmp_def)
qed

lemma concat_cells:
  "k < K \<Longrightarrow> j < n \<Longrightarrow> concat (map (\<lambda>k. map (g k) [0..<n]) [0..<K]) ! (k * n + j) = g k j"
proof (induction K)
  case (Suc K)
  let ?pre = "concat (map (\<lambda>k. map (g k) [0..<n]) [0..<K])"
  have len: "length ?pre = K * n" by (induction K) auto
  show ?case
  proof (cases "k < K")
    case True
    then have "k * n + j < K * n" using Suc.prems(2) by (rule entry_in)
    then show ?thesis using Suc.IH [OF True Suc.prems(2)] len by (simp add: nth_append)
  next
    case False
    then have "k = K" using Suc.prems(1) by simp
    then show ?thesis using len Suc.prems(2) by (simp add: nth_append)
  qed
qed simp

lemma concat_cells_length: "length (concat (map (\<lambda>k. map (g k) [0..<n]) [0..<K])) = K * n"
  by (induction K) auto

text \<open>
  The interface of a layout: a row and a group of four columns name the byte that packs their
  trits. Both layouts provide it.
\<close>

locale packed_layout =
  fixes fetch :: "nat \<Rightarrow> nat \<Rightarrow> int list \<Rightarrow> nat \<Rightarrow> nat \<Rightarrow> 8 word res"
  assumes fetch_ok: "4 dvd N \<Longrightarrow> k < K \<Longrightarrow> jb < N div 4 \<Longrightarrow>
    fetch K N W jb k = Inr (pack_byte (\<lambda>t. W ! (k * N + jb * 4 + t)))"
begin

text \<open>The trit of column \<open>j\<close> in row \<open>k\<close> is what a decoder reads from that byte.\<close>

lemma fetch_trit:
  assumes "4 dvd N" and "k < K" and "j < N" and "\<And>i. i < K * N \<Longrightarrow> W ! i = - 1 \<or> W ! i = 0 \<or> W ! i = 1"
    and "is_decoder dec"
  shows "\<exists>b. fetch K N W (j div 4) k = Inr b \<and> dec (code_of b (j mod 4 * 2)) = W ! (k * N + j)"
proof -
  have jb: "j div 4 < N div 4" using assms(1,3) by (auto elim!: dvdE)
  have cell: "k * N + j div 4 * 4 + t < K * N" if "t < 4" for t
  proof -
    have "j div 4 * 4 + t < N" using that jb assms(1) by (auto elim!: dvdE)
    then show ?thesis using entry_in [OF assms(2), of "j div 4 * 4 + t" N] by (simp add: add.assoc)
  qed
  have "dec_cmp (code_of (pack_byte (\<lambda>t. W ! (k * N + j div 4 * 4 + t))) (j mod 4 * 2)) = W ! (k * N + j div 4 * 4 + j mod 4)"
    by (rule code_of_pack) (use assms(4) cell in auto)
  moreover have "k * N + j div 4 * 4 + j mod 4 = k * N + j" by (simp add: add.assoc)
  ultimately show ?thesis using fetch_ok [OF assms(1,2) jb] decoder_code [OF assms(5)] by simp
qed

end

definition row_fetch :: "nat \<Rightarrow> nat \<Rightarrow> int list \<Rightarrow> nat \<Rightarrow> nat \<Rightarrow> 8 word res" where
  "row_fetch K N W jb k = read_at (pack_rows K N W) (k * (N div 4) + jb)"

definition col_fetch :: "nat \<Rightarrow> nat \<Rightarrow> int list \<Rightarrow> nat \<Rightarrow> nat \<Rightarrow> 8 word res" where
  "col_fetch K N W jb k = read_at (col_bytes K N (pack_rows K N W)) (jb * K + k)"

interpretation by_rows: packed_layout row_fetch
proof
  fix N k K jb :: nat and W :: "int list" assume "4 dvd N" "k < K" "jb < N div 4"
  then show "row_fetch K N W jb k = Inr (pack_byte (\<lambda>t. W ! (k * N + jb * 4 + t)))"
    unfolding row_fetch_def pack_rows_def
    by (simp add: read_at_def concat_cells_length entry_in concat_cells)
qed

interpretation by_cols: packed_layout col_fetch
proof
  fix N k K jb :: nat and W :: "int list" assume a: "4 dvd N" "k < K" "jb < N div 4"
  have "pack_rows K N W ! (k * (N div 4) + jb) = pack_byte (\<lambda>t. W ! (k * N + jb * 4 + t))"
    unfolding pack_rows_def by (rule concat_cells) (use a in auto)
  then show "col_fetch K N W jb k = Inr (pack_byte (\<lambda>t. W ! (k * N + jb * 4 + t)))"
    unfolding col_fetch_def col_bytes_def
    using a by (simp add: read_at_def concat_cells_length entry_in concat_cells)
qed

section \<open>Four products at once\<close>

lemma bit_quad: "m < 32 \<Longrightarrow> bit (quad_of bs) m \<longleftrightarrow> (\<exists>i < 4. 8 * i \<le> m \<and> bit (bs ! i) (m - 8 * i))"
proof -
  assume "m < 32"
  then have "bit (quad_of bs) m \<longleftrightarrow> bit (bs ! 0) m \<or> (8 \<le> m \<and> bit (bs ! 1) (m - 8)) \<or> (16 \<le> m \<and> bit (bs ! 2) (m - 16)) \<or>
      (24 \<le> m \<and> bit (bs ! 3) (m - 24))"
    by (auto simp: quad_of_def upt_4 bit_or_iff bit_push_bit_iff bit_ucast_iff)
  moreover have "(\<exists>i < 4. P i) \<longleftrightarrow> P 0 \<or> P 1 \<or> P 2 \<or> P (3 :: nat)" for P
    by (auto simp: numeral_eq_Suc less_Suc_eq)
  ultimately show ?thesis by simp
qed

lemma byte_of_quad: "length bs = 4 \<Longrightarrow> i < 4 \<Longrightarrow> byte_of (quad_of bs) i = bs ! i"
proof (rule bit_word_eqI)
  fix n assume i: "i < 4" and n: "n < LENGTH(8)"
  have "bit (quad_of bs) (8 * i + n) \<longleftrightarrow> bit (bs ! i) n"
  proof -
    have only: "j = i" if "j < 4" "8 * j \<le> 8 * i + n" "bit (bs ! j) (8 * i + n - 8 * j)" for j
    proof -
      have "8 * i + n - 8 * j < 8" using bit_imp_le_length [OF that(3)] by simp
      then show ?thesis using that(2) n by simp
    qed
    have "8 * i + n < 32" using i n by simp
    then have "bit (quad_of bs) (8 * i + n) \<longleftrightarrow> (\<exists>j < 4. 8 * j \<le> 8 * i + n \<and> bit (bs ! j) (8 * i + n - 8 * j))"
      by (rule bit_quad)
    also have "\<dots> \<longleftrightarrow> bit (bs ! i) n"
    proof
      assume "bit (bs ! i) n"
      then show "\<exists>j < 4. 8 * j \<le> 8 * i + n \<and> bit (bs ! j) (8 * i + n - 8 * j)" using i by (intro exI [of _ i]) simp
    next
      assume "\<exists>j < 4. 8 * j \<le> 8 * i + n \<and> bit (bs ! j) (8 * i + n - 8 * j)"
      then obtain j where j: "j < 4" "8 * j \<le> 8 * i + n" "bit (bs ! j) (8 * i + n - 8 * j)" by blast
      with only [OF j] show "bit (bs ! i) n" by simp
    qed
    finally show ?thesis .
  qed
  moreover have "bit (0xff :: 32 word) n"
  proof -
    have "bit (mask 8 :: 32 word) n" unfolding bit_mask_iff using n by simp
    moreover have "(mask 8 :: 32 word) = 0xff" by (simp add: mask_eq_exp_minus_1)
    ultimately show ?thesis by (simp only:)
  qed
  ultimately show "bit (byte_of (quad_of bs) i) n \<longleftrightarrow> bit (bs ! i) n"
    using n i by (simp add: byte_of_def bit_and_iff bit_ucast_iff bit_drop_bit_eq)
qed

lemma weight_byte: "is_decoder dec \<Longrightarrow> sint (word_of_int (dec (code_of b sb)) :: 8 word) = dec (code_of b sb)"
proof -
  assume d: "is_decoder dec"
  show ?thesis using dec_cmp_range [of "code_of b sb"] decoder_code [OF d, of b sb]
    by (elim disjE) simp_all
qed

text \<open>The integer a stretch of a column adds up to.\<close>

definition segment :: "8 word list \<Rightarrow> (nat \<Rightarrow> int) \<Rightarrow> nat \<Rightarrow> nat \<Rightarrow> int" where
  "segment X w a b = (\<Sum>k = a..<b. sint (X ! k) * w k)"

lemma segment_empty [simp]: "segment X w a a = 0"
  by (simp add: segment_def)

lemma segment_Suc: "a \<le> b \<Longrightarrow> segment X w a (Suc b) = segment X w a b + sint (X ! b) * w b"
  by (simp add: segment_def)

lemma segment_split: "a \<le> b \<Longrightarrow> b \<le> c \<Longrightarrow> segment X w a b + segment X w b c = segment X w a c"
  by (simp add: segment_def sum.atLeastLessThan_concat)

lemma sint_byte: "\<bar>sint (x :: 8 word)\<bar> \<le> 128"
  using sint_ge [of x] sint_lt [of x] by simp

lemma segment_bound:
  assumes "\<And>k. a \<le> k \<Longrightarrow> k < b \<Longrightarrow> \<bar>w k\<bar> \<le> 1"
  shows "\<bar>segment X w a b\<bar> \<le> 128 * int (b - a)"
proof -
  have "\<bar>segment X w a b\<bar> \<le> (\<Sum>k = a..<b. \<bar>sint (X ! k) * w k\<bar>)" unfolding segment_def by (rule sum_abs)
  also have "\<dots> \<le> (\<Sum>k = a..<b. 128)"
  proof (rule sum_mono)
    fix k assume "k \<in> {a..<b}"
    then have "\<bar>sint (X ! k)\<bar> * \<bar>w k\<bar> \<le> 128 * 1" using assms sint_byte by (intro mult_mono) auto
    then show "\<bar>sint (X ! k) * w k\<bar> \<le> 128" by (simp add: abs_mult)
  qed
  finally show ?thesis by simp
qed

lemma segment_in_i32:
  assumes "\<And>k. a \<le> k \<Longrightarrow> k < b \<Longrightarrow> \<bar>w k\<bar> \<le> 1" and "b \<le> 2 ^ 23"
  shows "in_i32 (segment X w a b)"
proof -
  have "\<bar>segment X w a b\<bar> \<le> 128 * int (b - a)" by (rule segment_bound) (use assms in auto)
  also have "\<dots> \<le> 128 * 2 ^ 23"
  proof -
    have "int (b - a) \<le> int (2 ^ 23)" using assms(2) by (intro of_nat_mono) simp
    then show ?thesis by simp
  qed
  finally show ?thesis by (auto simp: in_i32_def abs_le_iff)
qed

lemma dp4a_segment:
  assumes "length xs = 4" and "\<And>i. i < 4 \<Longrightarrow> xs ! i = X ! (k + i)"
    and "length bs = 4" and "is_decoder dec" and "\<And>i. i < 4 \<Longrightarrow> dec (code_of (bs ! i) sb) = w (k + i)"
    and "a \<le> k" and "in_i32 (segment X w a (k + 4))"
  shows "dp4a (quad_of xs) (weights4 dec sb bs) (segment X w a k) = segment X w a (k + 4)"
proof -
  let ?ws = "map (\<lambda>b. word_of_int (dec (code_of b sb)) :: 8 word) bs"
  have b: "byte_of (quad_of xs) i = X ! (k + i)" "sint (byte_of (quad_of ?ws) i) = w (k + i)" if "i < 4" for i
  proof -
    show "byte_of (quad_of xs) i = X ! (k + i)" using that assms(1,2) by (simp add: byte_of_quad)
    have "byte_of (quad_of ?ws) i = ?ws ! i" by (rule byte_of_quad) (use that assms(3) in simp_all)
    also have "\<dots> = word_of_int (dec (code_of (bs ! i) sb))" using that assms(3) by simp
    finally have "sint (byte_of (quad_of ?ws) i) = dec (code_of (bs ! i) sb)" by (simp only: weight_byte [OF assms(4)])
    then show "sint (byte_of (quad_of ?ws) i) = w (k + i)" by (simp only: assms(5) [OF that])
  qed
  have s: "segment X w a (k + 4) = segment X w a k + (\<Sum>i\<leftarrow>[0..<4]. sint (X ! (k + i)) * w (k + i))"
    using segment_Suc [of a k X w] segment_Suc [of a "Suc k" X w] segment_Suc [of a "Suc (Suc k)" X w]
      segment_Suc [of a "Suc (Suc (Suc k))" X w] assms(6)
    by (simp add: upt_4 numeral_eq_Suc)
  have "dp4a (quad_of xs) (quad_of ?ws) (segment X w a k) = to_i32 (segment X w a (k + 4))"
    unfolding dp4a_def s by (simp add: upt_4 b)
  then show ?thesis using assms(7) to_i32_id by (simp add: weights4_def)
qed

section \<open>Loops over a column\<close>

lemma stride_loop_ok:
  assumes n: "0 < n" and step: "\<And>i. k0 + i * n + n \<le> kend \<Longrightarrow> f (k0 + i * n) (F (k0 + i * n)) = Inr (F (k0 + i * n + n))"
  shows "\<exists>i. stride_loop n f kend k0 (F k0) = Inr (k0 + i * n, F (k0 + i * n)) \<and> (i = 0 \<or> k0 + i * n \<le> kend) \<and> kend < k0 + i * n + n"
  using step
proof (induction "kend - k0" arbitrary: k0 rule: less_induct)
  case less
  show ?case
  proof (cases "k0 + n > kend")
    case True
    then show ?thesis by (intro exI [of _ 0]) (simp add: stride_loop.simps)
  next
    case False
    have f: "f k0 (F k0) = Inr (F (k0 + n))" using less.prems [of 0] False by simp
    have "\<exists>i. stride_loop n f kend (k0 + n) (F (k0 + n)) = Inr (k0 + n + i * n, F (k0 + n + i * n)) \<and>
        (i = 0 \<or> k0 + n + i * n \<le> kend) \<and> kend < k0 + n + i * n + n"
    proof (rule less.hyps)
      show "kend - (k0 + n) < kend - k0" using False n by simp
      fix i assume "k0 + n + i * n + n \<le> kend"
      then show "f (k0 + n + i * n) (F (k0 + n + i * n)) = Inr (F (k0 + n + i * n + n))"
        using less.prems [of "Suc i"] by (simp add: algebra_simps)
    qed
    then obtain i where i: "stride_loop n f kend (k0 + n) (F (k0 + n)) = Inr (k0 + n + i * n, F (k0 + n + i * n))"
      "i = 0 \<or> k0 + n + i * n \<le> kend" "kend < k0 + n + i * n + n" by blast
    have "stride_loop n f kend k0 (F k0) = stride_loop n f kend (k0 + n) (F (k0 + n))"
      using False n f by (simp add: stride_loop.simps [of n f kend k0])
    then show ?thesis using i False by (intro exI [of _ "Suc i"]) (auto simp: algebra_simps)
  qed
qed

lemma quad_loop_ok:
  assumes "4 dvd k0"
    and s4: "\<And>k. 4 dvd k \<Longrightarrow> k0 \<le> k \<Longrightarrow> k + 4 \<le> kend \<Longrightarrow> f4 k (F k) = Inr (F (k + 4))"
    and s1: "\<And>k. k0 \<le> k \<Longrightarrow> k < kend \<Longrightarrow> f1 k (F k) = Inr (F (Suc k))"
  shows "quad_loop f4 f1 kend k0 (F k0) = Inr (F (max k0 kend))"
proof -
  obtain i where i: "stride_loop 4 f4 kend k0 (F k0) = Inr (k0 + i * 4, F (k0 + i * 4))"
    "i = 0 \<or> k0 + i * 4 \<le> kend" using stride_loop_ok [of 4 k0 kend f4 F] s4 assms(1) by auto
  obtain j where j: "stride_loop 1 f1 kend (k0 + i * 4) (F (k0 + i * 4)) = Inr (k0 + i * 4 + j * 1, F (k0 + i * 4 + j * 1))"
    "j = 0 \<or> k0 + i * 4 + j * 1 \<le> kend" "kend < k0 + i * 4 + j * 1 + 1"
    using stride_loop_ok [of 1 "k0 + i * 4" kend f1 F] s1 by auto
  have "k0 + i * 4 + j = max k0 kend" using i(2) j(2,3) by auto
  then show ?thesis using i(1) j(1) by (simp add: quad_loop_def)
qed

lemma deep_loop_ok:
  assumes "4 dvd k0"
    and s16: "\<And>k. 4 dvd k \<Longrightarrow> k0 \<le> k \<Longrightarrow> k + 16 \<le> kend \<Longrightarrow> f16 k (F k) = Inr (F (k + 16))"
    and s4: "\<And>k. 4 dvd k \<Longrightarrow> k0 \<le> k \<Longrightarrow> k + 4 \<le> kend \<Longrightarrow> f4 k (F k) = Inr (F (k + 4))"
    and s1: "\<And>k. k0 \<le> k \<Longrightarrow> k < kend \<Longrightarrow> f1 k (F k) = Inr (F (Suc k))"
  shows "deep_loop f16 f4 f1 kend k0 (F k0) = Inr (F (max k0 kend))"
proof -
  have al: "4 dvd k0 + i * 16" for i using assms(1) by (simp add: dvd_add)
  obtain i where i: "stride_loop 16 f16 kend k0 (F k0) = Inr (k0 + i * 16, F (k0 + i * 16))"
    "i = 0 \<or> k0 + i * 16 \<le> kend" using stride_loop_ok [of 16 k0 kend f16 F] s16 al by auto
  have "quad_loop f4 f1 kend (k0 + i * 16) (F (k0 + i * 16)) = Inr (F (max (k0 + i * 16) kend))"
    by (rule quad_loop_ok) (use al s4 s1 in auto)
  moreover have "max (k0 + i * 16) kend = max k0 kend" using i(2) by auto
  ultimately show ?thesis using i(1) by (simp add: deep_loop_def)
qed

text \<open>The stretches of the 32 lanes make up the column.\<close>

lemma lanes_cover:
  "K \<le> n * kpt \<Longrightarrow> (\<Sum>l < n. segment X w (l * kpt) (max (l * kpt) (min K (l * kpt + kpt)))) = segment X w 0 K"
proof -
  have "(\<Sum>l < n. segment X w (l * kpt) (max (l * kpt) (min K (l * kpt + kpt)))) = segment X w 0 (min K (n * kpt))" for n
  proof (induction n)
    case (Suc n)
    have s: "Suc n * kpt = n * kpt + kpt" by simp
    show ?case
    proof (cases "K \<le> n * kpt")
      case True
      then have "min K (n * kpt + kpt) = K" "max (n * kpt) K = n * kpt" "min K (n * kpt) = K" by simp_all
      then show ?thesis using Suc by (simp add: add.commute)
    next
      case False
      then have "max (n * kpt) (min K (n * kpt + kpt)) = min K (n * kpt + kpt)" "min K (n * kpt) = n * kpt" by simp_all
      moreover have "segment X w 0 (n * kpt) + segment X w (n * kpt) (min K (n * kpt + kpt)) = segment X w 0 (min K (n * kpt + kpt))"
        by (rule segment_split) (use False in auto)
      ultimately show ?thesis using Suc by (simp add: add.commute)
    qed
  qed simp
  then show "K \<le> n * kpt \<Longrightarrow> ?thesis" by (simp add: min_absorb1)
qed

section \<open>The reduction of a warp\<close>

lemma xor_lane: "i < 32 \<Longrightarrow> o' \<in> {16, 8, 4, 2, 1} \<Longrightarrow> xor i o' < (32 :: nat)"
proof -
  assume "i < 32" "o' \<in> {16, 8, 4, 2, 1}"
  then have "int i < 2 ^ 5" "int o' < 2 ^ 5" by auto
  then have "xor (int i) (int o') < 2 ^ 5" by (intro XOR_upper) simp_all
  then show ?thesis by (simp add: xor_nat_def)
qed

definition shuffled :: "nat \<Rightarrow> int list \<Rightarrow> int list" where
  "shuffled o' v = map (\<lambda>i. v ! i + v ! (xor i o')) [0..<32]"

lemma shuffled_bound:
  assumes "\<And>i. i < 32 \<Longrightarrow> \<bar>v ! i\<bar> \<le> B" and "o' \<in> {16, 8, 4, 2, 1}" and "i < 32"
  shows "\<bar>shuffled o' v ! i\<bar> \<le> 2 * B"
proof -
  have "\<bar>v ! i + v ! (xor i o')\<bar> \<le> \<bar>v ! i\<bar> + \<bar>v ! (xor i o')\<bar>" by (rule abs_triangle_ineq)
  also have "\<dots> \<le> B + B" by (intro add_mono assms(1) assms(3) xor_lane [OF assms(3,2)])
  finally show ?thesis using assms(3) by (simp add: shuffled_def)
qed

lemma shuffle_add_ok:
  assumes "\<And>i. i < 32 \<Longrightarrow> \<bar>v ! i\<bar> \<le> B" and "o' \<in> {16, 8, 4, 2, 1}" and "2 * B < 2 ^ 31"
  shows "shuffle_add o' v = Inr (shuffled o' v)"
  unfolding shuffle_add_def shuffled_def
proof (rule rmap_all)
  fix i :: nat assume "i \<in> set [0..<32]"
  then have i: "i < 32" by simp
  have "\<bar>shuffled o' v ! i\<bar> \<le> 2 * B" by (rule shuffled_bound) (use assms i in auto)
  then have "in_i32 (v ! i + v ! (xor i o'))" using assms(3) i by (auto simp: shuffled_def in_i32_def)
  then show "add_i32 (v ! i) (v ! (xor i o')) = Inr (v ! i + v ! (xor i o'))" by (simp add: add_i32_def)
qed

lemma upt_32:
  "[0..<32] = [0, 1, 2, 3, 4, 5, 6, 7, 8, 9, 10, 11, 12, 13, 14, 15, 16,
     17, 18, 19, 20, 21, 22, 23, 24, 25, 26, 27, 28, 29, 30, 31 :: nat]"
  by code_simp

lemma shuffled_sum: "shuffled 1 (shuffled 2 (shuffled 4 (shuffled 8 (shuffled 16 v)))) ! 0 = (\<Sum>i < 32. v ! i)"
proof -
  have s: "shuffled o' u ! i = u ! i + u ! (xor i o')" if "i < 32" for o' u i using that by (simp add: shuffled_def)
  have "(\<Sum>i < 32. v ! i) = (\<Sum>i\<leftarrow>[0..<32]. v ! i)"
    by (simp add: interv_sum_list_conv_sum_set_nat atLeast0LessThan)
  then show ?thesis by (simp add: s upt_32 numeral_3_eq_3 [symmetric])
qed

lemma warp_sum_ok:
  assumes b: "\<And>i. i < 32 \<Longrightarrow> \<bar>v ! i\<bar> \<le> B" and B: "32 * B < 2 ^ 31" "0 \<le> B"
  shows "\<exists>u. warp_sum v = Inr u \<and> length u = 32 \<and> u ! 0 = (\<Sum>i < 32. v ! i)"
proof -
  let ?v1 = "shuffled 16 v" let ?v2 = "shuffled 8 ?v1" let ?v3 = "shuffled 4 ?v2" let ?v4 = "shuffled 2 ?v3"
  have b1: "\<bar>?v1 ! i\<bar> \<le> 2 * B" if "i < 32" for i by (rule shuffled_bound) (use b that in auto)
  have b2: "\<bar>?v2 ! i\<bar> \<le> 2 * (2 * B)" if "i < 32" for i by (rule shuffled_bound) (use b1 that in auto)
  have b3: "\<bar>?v3 ! i\<bar> \<le> 2 * (2 * (2 * B))" if "i < 32" for i by (rule shuffled_bound) (use b2 that in auto)
  have b4: "\<bar>?v4 ! i\<bar> \<le> 2 * (2 * (2 * (2 * B)))" if "i < 32" for i by (rule shuffled_bound) (use b3 that in auto)
  have "shuffle_add 16 v = Inr ?v1" by (rule shuffle_add_ok [OF b]) (use B in auto)
  moreover have "shuffle_add 8 ?v1 = Inr ?v2" by (rule shuffle_add_ok [OF b1]) (use B in auto)
  moreover have "shuffle_add 4 ?v2 = Inr ?v3" by (rule shuffle_add_ok [OF b2]) (use B in auto)
  moreover have "shuffle_add 2 ?v3 = Inr ?v4" by (rule shuffle_add_ok [OF b3]) (use B in auto)
  moreover have "shuffle_add 1 ?v4 = Inr (shuffled 1 ?v4)" by (rule shuffle_add_ok [OF b4]) (use B in auto)
  ultimately have "warp_sum v = Inr (shuffled 1 ?v4)" by (simp add: warp_sum_def del: One_nat_def)
  moreover have "length (shuffled 1 ?v4) = 32" by (simp add: shuffled_def)
  ultimately show ?thesis using shuffled_sum [of v] by blast
qed

section \<open>The writes of a launch\<close>

lemma write_run:
  assumes "a + n \<le> length out"
  shows "rfold (\<lambda>o' (i, y). write_at o' i y) out (map (\<lambda>i. (a + i, f (a + i))) [0..<n]) =
    Inr (map (\<lambda>i. if a \<le> i \<and> i < a + n then f i else out ! i) [0..<length out])"
  using assms
proof (induction n)
  case 0
  have "map (\<lambda>i. if a \<le> i \<and> i < a + 0 then f i else out ! i) [0..<length out] = map ((!) out) [0..<length out]"
    by (rule map_cong) auto
  then show ?case by (simp add: map_nth)
next
  case (Suc n)
  have "(map (\<lambda>i. if a \<le> i \<and> i < a + n then f i else out ! i) [0..<length out])[a + n := f (a + n)] =
      map (\<lambda>i. if a \<le> i \<and> i < a + Suc n then f i else out ! i) [0..<length out]"
  proof (rule nth_equalityI)
    fix i assume "i < length ((map (\<lambda>i. if a \<le> i \<and> i < a + n then f i else out ! i) [0..<length out])[a + n := f (a + n)])"
    then show "(map (\<lambda>i. if a \<le> i \<and> i < a + n then f i else out ! i) [0..<length out])[a + n := f (a + n)] ! i =
        map (\<lambda>i. if a \<le> i \<and> i < a + Suc n then f i else out ! i) [0..<length out] ! i"
      by (cases "i = a + n") auto
  qed simp
  then show ?case using Suc by (simp add: rfold_append write_at_def)
qed

lemma rbind_Inr_id: "rbind m Inr = m"
  by (cases m) simp_all

lemma launch_cong: "(\<And>u. u < n \<Longrightarrow> f u = g u) \<Longrightarrow> launch n f out = launch n g out"
  unfolding launch_def by (rule rfold_cong) simp

lemma launch_min:
  assumes len: "length out = N" and n: "N \<le> n * c"
    and body: "\<And>u. u < n \<Longrightarrow> body u = Inr (map (\<lambda>i. (u * c + i, f (u * c + i))) [0..<min c (N - u * c)])"
  shows "launch n body out = Inr (map f [0..<N])"
proof -
  have "launch m body out = Inr (map (\<lambda>i. if i < m * c then f i else out ! i) [0..<N])" if "m \<le> n" for m
    using that
  proof (induction m)
    case 0
    then show ?case using len by (auto simp: launch_def map_nth)
  next
    case (Suc m)
    let ?o = "map (\<lambda>i. if i < m * c then f i else out ! i) [0..<N]"
    have o: "launch m body out = Inr ?o" using Suc by simp
    have step: "launch (Suc m) body out = rbind (body m) (\<lambda>ws. rfold (\<lambda>o' (i, y). write_at o' i y) ?o ws)"
      using o by (simp add: launch_def rfold_append rbind_Inr_id)
    show ?case
    proof (cases "m * c < N")
      case True
      have "rfold (\<lambda>o' (i, y). write_at o' i y) ?o (map (\<lambda>i. (m * c + i, f (m * c + i))) [0..<min c (N - m * c)]) =
          Inr (map (\<lambda>i. if m * c \<le> i \<and> i < m * c + min c (N - m * c) then f i else ?o ! i) [0..<N])"
        using write_run [of "m * c" "min c (N - m * c)" ?o f] True by simp
      also have "map (\<lambda>i. if m * c \<le> i \<and> i < m * c + min c (N - m * c) then f i else ?o ! i) [0..<N] =
          map (\<lambda>i. if i < Suc m * c then f i else out ! i) [0..<N]"
        by (rule map_cong) auto
      finally show ?thesis using step body [of m] Suc.prems by simp
    next
      case False
      have "?o = map (\<lambda>i. if i < Suc m * c then f i else out ! i) [0..<N]"
        by (rule map_cong) (use False in auto)
      then show ?thesis using step body [of m] Suc.prems False by simp
    qed
  qed
  moreover have "map (\<lambda>i. if i < n * c then f i else out ! i) [0..<N] = map f [0..<N]"
    by (rule map_cong) (use n in auto)
  ultimately show ?thesis by (metis order_refl)
qed

text \<open>Units of \<open>c\<close> cells that divide the output; the units beyond it write nothing.\<close>

lemma launch_ok:
  assumes len: "length out = N" and c: "0 < c" "c dvd N" and n: "N \<le> n * c"
    and body: "\<And>u. u < n \<Longrightarrow> u * c < N \<Longrightarrow> body u = Inr (map (\<lambda>i. (u * c + i, f (u * c + i))) [0..<c])"
    and out: "\<And>u. u < n \<Longrightarrow> N \<le> u * c \<Longrightarrow> body u = Inr []"
  shows "launch n body out = Inr (map f [0..<N])"
proof (rule launch_min [OF len n])
  fix u assume u: "u < n"
  obtain q where q: "N = c * q" using c by (auto elim!: dvdE)
  show "body u = Inr (map (\<lambda>i. (u * c + i, f (u * c + i))) [0..<min c (N - u * c)])"
  proof (cases "u * c < N")
    case True
    then have "u < q" using q by (simp add: mult.commute)
    then have "Suc u * c \<le> q * c" by (intro mult_le_mono1) simp
    then have "min c (N - u * c) = c" using q by (simp add: mult.commute)
    then show ?thesis using body [OF u True] by simp
  next
    case False
    then show ?thesis using out [OF u] by simp
  qed
qed

section \<open>The tiles of a block\<close>

lemma coop_writes:
  assumes "\<And>i. i \<in> set is \<Longrightarrow> i < length s \<and> k0 + i < length X"
  shows "rfold (\<lambda>s i. rbind (read_at X (k0 + i)) (\<lambda>x. write_at s i (Some x))) s is =
    Inr (map (\<lambda>j. if j \<in> set is then Some (X ! (k0 + j)) else s ! j) [0..<length s])"
  using assms
proof (induction "is" arbitrary: s)
  case Nil
  then show ?case by (simp add: map_nth)
next
  case (Cons i "is")
  have i: "i < length s" "k0 + i < length X" using Cons.prems [of i] by auto
  have "map (\<lambda>j. if j \<in> set is then Some (X ! (k0 + j)) else s[i := Some (X ! (k0 + i))] ! j) [0..<length (s[i := Some (X ! (k0 + i))])] =
      map (\<lambda>j. if j \<in> set (i # is) then Some (X ! (k0 + j)) else s ! j) [0..<length s]"
    by (rule nth_equalityI) (auto simp: nth_list_update)
  then show ?case using Cons.IH [of "s[i := Some (X ! (k0 + i))]"] Cons.prems i by (simp add: read_at_def write_at_def)
qed

text \<open>What a load leaves: the cells of the threads that ran.\<close>

lemma coop_load_cells:
  assumes X: "K \<le> length X" and s: "length smem = KT"
  shows "coop_load KT bd alive X K k0 smem =
    Inr (map (\<lambda>j. if j < K - k0 \<and> j mod bd \<in> set alive then Some (X ! (k0 + j)) else smem ! j) [0..<KT])"
  using s unfolding coop_load_def
proof (induction alive arbitrary: smem)
  case Nil
  have "map (\<lambda>j. if j < K - k0 \<and> j mod bd \<in> set [] then Some (X ! (k0 + j)) else smem ! j) [0..<KT] = map ((!) smem) [0..<KT]"
    by (rule map_cong) auto
  then show ?case using Nil by (auto simp: map_nth)
next
  case (Cons tid alive)
  let ?is = "filter (\<lambda>i. i mod bd = tid) [0..<min KT (K - k0)]"
  let ?s = "map (\<lambda>j. if j \<in> set ?is then Some (X ! (k0 + j)) else smem ! j) [0..<length smem]"
  have one: "rfold (\<lambda>s i. rbind (read_at X (k0 + i)) (\<lambda>x. write_at s i (Some x))) smem ?is = Inr ?s"
    by (rule coop_writes) (use X Cons.prems in auto)
  have len: "length ?s = KT" using Cons.prems by simp
  have "map (\<lambda>j. if j < K - k0 \<and> j mod bd \<in> set alive then Some (X ! (k0 + j)) else ?s ! j) [0..<KT] =
      map (\<lambda>j. if j < K - k0 \<and> j mod bd \<in> set (tid # alive) then Some (X ! (k0 + j)) else smem ! j) [0..<KT]"
    by (rule map_cong) (use Cons.prems in auto)
  then show ?case using Cons.IH [OF len] one by simp
qed

text \<open>Every cell of the tile is loaded by some running thread.\<close>

definition loaders_cover :: "nat \<Rightarrow> nat \<Rightarrow> nat list \<Rightarrow> nat \<Rightarrow> bool" where
  "loaders_cover KT bd alive K \<longleftrightarrow> (\<forall>i < min KT K. i mod bd \<in> set alive)"

lemma tiled_block_ok:
  fixes F :: "nat \<Rightarrow> nat \<Rightarrow> 'a"
  assumes X: "K \<le> length X" and KT: "0 < KT" and cover: "loaders_cover KT bd alive K"
    and a0: "\<And>tid. tid \<in> set alive \<Longrightarrow> F tid 0 = a0"
    and body: "\<And>rx i tid. tid \<in> set alive \<Longrightarrow> i * KT < K \<Longrightarrow> (\<And>j. j < min KT (K - i * KT) \<Longrightarrow> rx j = Inr (X ! (i * KT + j))) \<Longrightarrow>
      body rx (i * KT) (min KT (K - i * KT)) tid (F tid (i * KT)) = Inr (F tid (min K (Suc i * KT)))"
  shows "tiled_block KT bd alive X K body a0 = Inr (map (\<lambda>tid. F tid K) alive)"
proof -
  define step where "step = (\<lambda>(smem, accs) k0.
         rbind (coop_load KT bd alive X K k0 smem) (\<lambda>smem'.
         rbind (rmap (\<lambda>(tid, a). body (smem_at smem') k0 (min KT (K - k0)) tid a) (zip alive accs)) (\<lambda>accs'.
         Inr (smem', accs'))))"
  let ?T = "(K + KT - 1) div KT"
  have run: "\<exists>s. rfold step (replicate KT None, replicate (length alive) a0) (map (\<lambda>i. i * KT) [0..<t]) =
      Inr (s, map (\<lambda>tid. F tid (min K (t * KT))) alive) \<and> length s = KT" if "t \<le> ?T" for t
    using that
  proof (induction t)
    case 0
    have "replicate (length alive) a0 = map (\<lambda>tid. F tid 0) alive"
      by (rule nth_equalityI) (auto simp: a0)
    then show ?case by simp
  next
    case (Suc t)
    then obtain s where s: "rfold step (replicate KT None, replicate (length alive) a0) (map (\<lambda>i. i * KT) [0..<t]) =
      Inr (s, map (\<lambda>tid. F tid (min K (t * KT))) alive)" "length s = KT" by auto
    have tK: "t * KT < K"
    proof -
      have "Suc t * KT \<le> ?T * KT" using Suc.prems by (rule mult_le_mono1)
      also have "\<dots> \<le> K + KT - 1" by simp
      finally show ?thesis using KT by simp
    qed
    define s' where "s' = map (\<lambda>j. if j < K - t * KT \<and> j mod bd \<in> set alive then Some (X ! (t * KT + j)) else s ! j) [0..<KT]"
    have load: "coop_load KT bd alive X K (t * KT) s = Inr s'" unfolding s'_def by (rule coop_load_cells [OF X s(2)])
    have read: "smem_at s' j = Inr (X ! (t * KT + j))" if "j < min KT (K - t * KT)" for j
    proof -
      have "j mod bd \<in> set alive" using cover that by (auto simp: loaders_cover_def)
      then show ?thesis using that by (simp add: smem_at_def read_at_def s'_def)
    qed
    have accs: "rmap (\<lambda>(tid, a). body (smem_at s') (t * KT) (min KT (K - t * KT)) tid a)
        (zip alive (map (\<lambda>tid. F tid (min K (t * KT))) alive)) = Inr (map (\<lambda>tid. F tid (min K (Suc t * KT))) alive)"
    proof -
      have z: "zip alive (map (\<lambda>tid. F tid (min K (t * KT))) alive) = map (\<lambda>tid. (tid, F tid (t * KT))) alive"
        using tK by (simp add: zip_map2 zip_same_conv_map)
      have "rmap (\<lambda>(tid, a). body (smem_at s') (t * KT) (min KT (K - t * KT)) tid a) (map (\<lambda>tid. (tid, F tid (t * KT))) alive) =
          Inr (map (\<lambda>(tid, a). F tid (min K (Suc t * KT))) (map (\<lambda>tid. (tid, F tid (t * KT))) alive))"
      proof (rule rmap_all)
        fix p assume "p \<in> set (map (\<lambda>tid. (tid, F tid (t * KT))) alive)"
        then obtain tid where p: "p = (tid, F tid (t * KT))" "tid \<in> set alive" by auto
        then show "(case p of (tid, a) \<Rightarrow> body (smem_at s') (t * KT) (min KT (K - t * KT)) tid a) =
            Inr (case p of (tid, a) \<Rightarrow> F tid (min K (Suc t * KT)))"
          using body [OF p(2) tK read] by simp
      qed
      then show ?thesis using z by (simp add: comp_def)
    qed
    have "step (s, map (\<lambda>tid. F tid (min K (t * KT))) alive) (t * KT) = Inr (s', map (\<lambda>tid. F tid (min K (Suc t * KT))) alive)"
      unfolding step_def using load accs by simp
    moreover have "length s' = KT" by (simp add: s'_def)
    ultimately show ?case using s(1) by (simp add: rfold_append)
  qed
  have "K \<le> ?T * KT"
  proof -
    have "K + KT - 1 < ?T * KT + KT" using KT by (metis div_mult_mod_eq add_less_cancel_left mod_less_divisor mult.commute)
    then show ?thesis by simp
  qed
  then have "min K (?T * KT) = K" by simp
  then show ?thesis using run [of ?T] unfolding tiled_block_def step_def [symmetric] tile_starts_def by auto
qed

text \<open>A cell that no running thread loads makes the first tile fail, when the threads read every cell.\<close>

lemma tiled_block_gap:
  assumes X: "K \<le> length X" and KT: "0 < KT" and gap: "j < min KT K" "j mod bd \<notin> set alive" and some: "alive \<noteq> []"
    and reads: "\<And>rx tid a e. rx j = Inl e \<Longrightarrow> \<exists>e. body rx 0 (min KT K) tid a = Inl e"
  shows "\<exists>e. tiled_block KT bd alive X K body a0 = Inl e"
proof -
  obtain tid rest where al: "alive = tid # rest" using some by (cases alive) auto
  let ?s = "map (\<lambda>j. if j < K - 0 \<and> j mod bd \<in> set alive then Some (X ! (0 + j)) else replicate KT None ! j) [0..<KT]"
  have load: "coop_load KT bd alive X K 0 (replicate KT None) = Inr ?s" by (rule coop_load_cells [OF X]) simp
  have "smem_at ?s j = Inl (RuntimeError ''shared memory not written'')"
    using gap by (simp add: smem_at_def read_at_def)
  then obtain e where e: "body (smem_at ?s) 0 (min KT K) tid a0 = Inl e" using reads by blast
  have "0 < K" using gap(1) by simp
  then have "0 < (K + KT - 1) div KT" using KT by (simp add: div_greater_zero_iff)
  then obtain ks where "tile_starts KT K = 0 # ks" by (auto simp: tile_starts_def upt_conv_Cons)
  then show ?thesis using load e al by (simp add: tiled_block_def)
qed

end
