(* ===== verification/TerPacked.thy ===== *)
theory TerPacked
  imports TerCuda
begin

text \<open>
  The kernels of \<open>cuda/ter_cuda_packed.cu\<close> and \<open>ter_cuda_packed_v2.cu\<close> to \<open>_v6.cu\<close>: ten versions of
  the product of an int8 vector with a packed-trit matrix. \<open>n\<close> is the number of units of the launch
  (threads, warps, or blocks of \<open>bd\<close> threads).
\<close>

section \<open>One thread for several columns\<close>

text \<open>The code of column \<open>i\<close> of the byte or word that a thread reads in a row.\<close>

definition byte_codes :: "8 word list \<Rightarrow> (nat \<Rightarrow> nat) \<Rightarrow> nat \<Rightarrow> nat \<Rightarrow> int res" where
  "byte_codes W cell k i = rbind (read_at W (cell k)) (\<lambda>b. Inr (code_of b (i * 2)))"

definition word_codes :: "8 word list \<Rightarrow> (nat \<Rightarrow> nat) \<Rightarrow> nat \<Rightarrow> nat \<Rightarrow> int res" where
  "word_codes W cell k i = rbind (load_u32 W (4 * cell k)) (\<lambda>u. Inr (uint (and (drop_bit (i * 2) u) 3)))"

definition columns :: "flt \<Rightarrow> nat \<Rightarrow> int list \<Rightarrow> (nat \<times> flt) list" where
  "columns scale j_base accs = map (\<lambda>i. (j_base + i, out_half scale (accs ! i))) [0..<length accs]"

definition mm_packed_trit_v4 :: "8 word list \<Rightarrow> 8 word list \<Rightarrow> nat \<Rightarrow> nat \<Rightarrow> flt \<Rightarrow> nat \<Rightarrow> flt list \<Rightarrow> flt list res" where
  "mm_packed_trit_v4 X W K N scale n =
     launch n (\<lambda>u. let j_base = u * 4 in
       if j_base \<ge> N then Inr []
       else rbind (rfold (\<lambda>accs k. macs1 4 dec_cmp (read_at X) (byte_codes W (\<lambda>k. k * (N div 4) + j_base div 4)) k accs)
              (replicate 4 0) [0..<K])
            (\<lambda>accs. Inr (columns scale j_base accs)))"

definition mm_packed_trit_v16 :: "8 word list \<Rightarrow> 8 word list \<Rightarrow> nat \<Rightarrow> nat \<Rightarrow> flt \<Rightarrow> nat \<Rightarrow> flt list \<Rightarrow> flt list res" where
  "mm_packed_trit_v16 X W K N scale n =
     launch n (\<lambda>u. let j_base = u * 16 in
       if j_base \<ge> N then Inr []
       else rbind (rfold (\<lambda>accs k. macs1 16 dec_cmp (read_at X) (word_codes W (\<lambda>k. k * (N div 16) + j_base div 16)) k accs)
              (replicate 16 0) [0..<K])
            (\<lambda>accs. Inr (columns scale j_base accs)))"

section \<open>A tile of activations in shared memory\<close>

text \<open>The threads of block \<open>b\<close> that own a column, when a thread owns \<open>c\<close> of the \<open>N\<close> columns.\<close>

definition running :: "nat \<Rightarrow> nat \<Rightarrow> nat \<Rightarrow> nat \<Rightarrow> nat list" where
  "running bd c N b = filter (\<lambda>tid. (b * bd + tid) * c < N) [0..<bd]"

definition block_columns :: "nat \<Rightarrow> nat \<Rightarrow> nat \<Rightarrow> nat \<Rightarrow> flt \<Rightarrow> int list list \<Rightarrow> (nat \<times> flt) list" where
  "block_columns bd c N b scale accss =
     concat (map (\<lambda>(tid, accs). columns scale ((b * bd + tid) * c) accs) (zip (running bd c N b) accss))"

definition mm_packed_v3_tiled :: "nat \<Rightarrow> 8 word list \<Rightarrow> 8 word list \<Rightarrow> nat \<Rightarrow> nat \<Rightarrow> flt \<Rightarrow> nat \<Rightarrow> flt list \<Rightarrow> flt list res" where
  "mm_packed_v3_tiled bd X W K N scale n =
     launch n (\<lambda>b. rbind (tiled_block 256 bd (running bd 4 N b) X K
         (\<lambda>rx k0 m tid accs. rfold (\<lambda>accs kk. macs1 4 dec_cmp rx
            (byte_codes W (\<lambda>kk. (k0 + kk) * (N div 4) + (b * bd + tid) * 4 div 4)) kk accs) accs [0..<m])
         (replicate 4 0))
       (\<lambda>accss. Inr (block_columns bd 4 N b scale accss)))"

definition mm_packed_v4_wide :: "nat \<Rightarrow> 8 word list \<Rightarrow> 8 word list \<Rightarrow> nat \<Rightarrow> nat \<Rightarrow> flt \<Rightarrow> nat \<Rightarrow> flt list \<Rightarrow> flt list res" where
  "mm_packed_v4_wide bd X W K N scale n =
     launch n (\<lambda>b. rbind (tiled_block 512 bd (running bd 1 N b) X K
         (\<lambda>rx k0 m tid acc. let j = b * bd + tid in
            rfold (\<lambda>acc kk. mac1 dec_cmp rx (\<lambda>kk. read_at W ((k0 + kk) * (N div 4) + j div 4)) (j mod 4 * 2) kk acc) acc [0..<m])
         0)
       (\<lambda>accs. Inr (block_columns bd 1 N b scale (map (\<lambda>a. [a]) accs))))"

definition mm_packed_v5_fat :: "nat \<Rightarrow> 8 word list \<Rightarrow> 8 word list \<Rightarrow> nat \<Rightarrow> nat \<Rightarrow> flt \<Rightarrow> nat \<Rightarrow> flt list \<Rightarrow> flt list res" where
  "mm_packed_v5_fat bd X W K N scale n =
     launch n (\<lambda>b. rbind (tiled_block 256 bd (running bd 16 N b) X K
         (\<lambda>rx k0 m tid accs. rfold (\<lambda>accs kk. macs1 16 dec_cmp rx
            (word_codes W (\<lambda>kk. (k0 + kk) * (N div 16) + (b * bd + tid) * 16 div 16)) kk accs) accs [0..<m])
         (replicate 16 0))
       (\<lambda>accss. Inr (block_columns bd 16 N b scale accss)))"

text \<open>Four activations packed from single reads; four weight bytes from one word.\<close>

definition x_quad :: "(nat \<Rightarrow> 8 word res) \<Rightarrow> nat \<Rightarrow> 32 word res" where
  "x_quad rx kk = rbind (rmap rx [kk..<kk + 4]) (\<lambda>q. Inr (quad_of q))"

definition bytes_u32 :: "8 word list \<Rightarrow> nat \<Rightarrow> 8 word list res" where
  "bytes_u32 W i = rbind (load_u32 W i) (\<lambda>w. Inr (map (byte_of w) [0..<4]))"

definition mm_v6_dp4a :: "nat \<Rightarrow> 8 word list \<Rightarrow> 8 word list \<Rightarrow> nat \<Rightarrow> nat \<Rightarrow> flt \<Rightarrow> nat \<Rightarrow> flt list \<Rightarrow> flt list res" where
  "mm_v6_dp4a bd X W K N scale n =
     launch n (\<lambda>b. rbind (tiled_block 512 bd (running bd 1 N b) X K
         (\<lambda>rx k0 m tid acc. let j = b * bd + tid; rw = (\<lambda>kk. read_at W ((k0 + kk) * (N div 4) + j div 4)) in
            quad_loop (mac4 dec_cmp (x_quad rx) (\<lambda>kk. rmap rw [kk..<kk + 4]) (j mod 4 * 2))
              (mac1 dec_cmp rx rw (j mod 4 * 2)) m 0 acc)
         0)
       (\<lambda>accs. Inr (block_columns bd 1 N b scale (map (\<lambda>a. [a]) accs))))"

definition mm_v7_colmaj :: "nat \<Rightarrow> 8 word list \<Rightarrow> 8 word list \<Rightarrow> nat \<Rightarrow> nat \<Rightarrow> flt \<Rightarrow> nat \<Rightarrow> flt list \<Rightarrow> flt list res" where
  "mm_v7_colmaj bd X W K N scale n =
     launch n (\<lambda>b. rbind (tiled_block 512 bd (running bd 1 N b) X K
         (\<lambda>rx k0 m tid acc. let j = b * bd + tid; W_my_col = j div 4 * K in
            quad_loop (mac4 dec_cmp (x_quad rx) (\<lambda>kk. bytes_u32 W (W_my_col + k0 + kk)) (j mod 4 * 2))
              (mac1 dec_cmp rx (\<lambda>kk. read_at W (W_my_col + k0 + kk)) (j mod 4 * 2)) m 0 acc)
         0)
       (\<lambda>accs. Inr (block_columns bd 1 N b scale (map (\<lambda>a. [a]) accs))))"

definition mm_v9_multi :: "nat \<Rightarrow> 8 word list \<Rightarrow> 8 word list \<Rightarrow> nat \<Rightarrow> nat \<Rightarrow> flt \<Rightarrow> nat \<Rightarrow> flt list \<Rightarrow> flt list res" where
  "mm_v9_multi bd X W K N scale n =
     launch n (\<lambda>b. rbind (tiled_block 512 bd (running bd 4 N b) X K
         (\<lambda>rx k0 m tid accs. let W_my_col = (b * bd + tid) * 4 div 4 * K in
            quad_loop (macs4 dec_cmp (x_quad rx) (\<lambda>kk. bytes_u32 W (W_my_col + k0 + kk)))
              (macs1 4 dec_cmp rx (byte_codes W (\<lambda>kk. W_my_col + k0 + kk))) m 0 accs)
         (replicate 4 0))
       (\<lambda>accss. Inr (block_columns bd 4 N b scale accss)))"

section \<open>A warp for one column or four\<close>

text \<open>The stretch of rows of a lane.\<close>

definition stretch :: "nat \<Rightarrow> nat \<Rightarrow> nat \<Rightarrow> nat \<times> nat" where
  "stretch kpt K i = (i * kpt, min K (i * kpt + kpt))"

definition one_column :: "(nat \<Rightarrow> int res) \<Rightarrow> flt \<Rightarrow> nat \<Rightarrow> (nat \<times> flt) list res" where
  "one_column lane_acc scale j =
     rbind (rmap lane_acc [0..<32]) (\<lambda>v. rbind (warp_sum v) (\<lambda>v. Inr [(j, out_half scale (v ! 0))]))"

definition four_columns :: "(nat \<Rightarrow> int list res) \<Rightarrow> flt \<Rightarrow> nat \<Rightarrow> (nat \<times> flt) list res" where
  "four_columns lane_acc scale j_base =
     rbind (rmap lane_acc [0..<32]) (\<lambda>lanes.
     rbind (rmap (\<lambda>sub. rbind (warp_sum (map (\<lambda>accs. accs ! sub) lanes)) (\<lambda>v. Inr (v ! 0))) [0..<4]) (\<lambda>accs.
     Inr (columns scale j_base accs)))"

definition mm_v8_warp :: "8 word list \<Rightarrow> 8 word list \<Rightarrow> nat \<Rightarrow> nat \<Rightarrow> flt \<Rightarrow> nat \<Rightarrow> flt list \<Rightarrow> flt list res" where
  "mm_v8_warp X W K N scale n =
     launch n (\<lambda>w. if w \<ge> N then Inr [] else
       one_column (\<lambda>i. let (kstart, kend) = stretch ((K + 31) div 32) K i; W_my_col = w div 4 * K in
         quad_loop (mac4 dec_cmp (x_quad (read_at X)) (\<lambda>kk. bytes_u32 W (W_my_col + kk)) (w mod 4 * 2))
           (mac1 dec_cmp (read_at X) (\<lambda>kk. read_at W (W_my_col + kk)) (w mod 4 * 2)) kend kstart 0) scale w)"

text \<open>The length of a stretch rounded up to a multiple of 16.\<close>

definition kpt16 :: "nat \<Rightarrow> nat" where
  "kpt16 K = ((K + 31) div 32 + 15) div 16 * 16"

text \<open>Sixteen rows: four words of activations and of weights.\<close>

definition mm_v10_unroll :: "8 word list \<Rightarrow> 8 word list \<Rightarrow> nat \<Rightarrow> nat \<Rightarrow> flt \<Rightarrow> nat \<Rightarrow> flt list \<Rightarrow> flt list res" where
  "mm_v10_unroll X W K N scale n =
     launch n (\<lambda>w. if w \<ge> N then Inr [] else
       one_column (\<lambda>i. let (kstart, kend) = stretch (kpt16 K) K i; Wc = w div 4 * K;
           quad = mac4 dec_cmp (load_u32 X) (\<lambda>kk. bytes_u32 W (Wc + kk)) (w mod 4 * 2) in
         deep_loop (\<lambda>kk acc. rfold (\<lambda>acc qi. quad (kk + 4 * qi) acc) acc [0..<4]) quad
           (mac1 dec_cmp (read_at X) (\<lambda>kk. read_at W (Wc + kk)) (w mod 4 * 2)) kend kstart 0) scale w)"

text \<open>Four columns; \<open>dec\<close> is the decoder of version 11 or of version 12.\<close>

definition mm_warp4 :: "(int \<Rightarrow> int) \<Rightarrow> 8 word list \<Rightarrow> 8 word list \<Rightarrow> nat \<Rightarrow> nat \<Rightarrow> flt \<Rightarrow> nat \<Rightarrow> flt list \<Rightarrow> flt list res" where
  "mm_warp4 dec X W K N scale n =
     launch n (\<lambda>w. let j_base = w * 4 in if j_base \<ge> N then Inr [] else
       four_columns (\<lambda>i. let (kstart, kend) = stretch ((K + 31) div 32) K i; Wc = j_base div 4 * K in
         quad_loop (macs4 dec (load_u32 X) (\<lambda>kk. bytes_u32 W (Wc + kk)))
           (macs1 4 dec (read_at X) (byte_codes W (\<lambda>kk. Wc + kk))) kend kstart (replicate 4 0)) scale j_base)"

definition mm_v11_warp4 :: "8 word list \<Rightarrow> 8 word list \<Rightarrow> nat \<Rightarrow> nat \<Rightarrow> flt \<Rightarrow> nat \<Rightarrow> flt list \<Rightarrow> flt list res" where
  "mm_v11_warp4 = mm_warp4 dec_cmp"

definition mm_v12_branchless :: "8 word list \<Rightarrow> 8 word list \<Rightarrow> nat \<Rightarrow> nat \<Rightarrow> flt \<Rightarrow> nat \<Rightarrow> flt list \<Rightarrow> flt list res" where
  "mm_v12_branchless = mm_warp4 dec_trit"

definition mm_v13_unrolled :: "8 word list \<Rightarrow> 8 word list \<Rightarrow> nat \<Rightarrow> nat \<Rightarrow> flt \<Rightarrow> nat \<Rightarrow> flt list \<Rightarrow> flt list res" where
  "mm_v13_unrolled X W K N scale n =
     launch n (\<lambda>w. let j_base = w * 4 in if j_base \<ge> N then Inr [] else
       four_columns (\<lambda>i. let (kstart, kend) = stretch (kpt16 K) K i; Wc = j_base div 4 * K;
           quad = macs4 dec_trit (load_u32 X) (\<lambda>kk. bytes_u32 W (Wc + kk)) in
         deep_loop (\<lambda>kk accs. rfold (\<lambda>accs qi. quad (kk + 4 * qi) accs) accs [0..<4]) quad
           (macs1 4 dec_trit (read_at X) (byte_codes W (\<lambda>kk. Wc + kk))) kend kstart (replicate 4 0)) scale j_base)"

end
