(* ===== verification/TerProduct.thy ===== *)
theory TerProduct
  imports TerPacked
begin

text \<open>
  Every version of the packed product computes the integer products of the columns: the reads of
  each layout, one step of a loop, the lane, thread or block, and the launch.
\<close>

section \<open>The reference\<close>

definition packed_ok :: "8 word list \<Rightarrow> int list \<Rightarrow> nat \<Rightarrow> nat \<Rightarrow> bool" where
  "packed_ok X W K N \<longleftrightarrow> 4 dvd N \<and> K \<le> 2 ^ 23 \<and> K \<le> length X \<and> (\<forall>i < K * N. W ! i = - 1 \<or> W ! i = 0 \<or> W ! i = 1)"

definition packed_product :: "8 word list \<Rightarrow> int list \<Rightarrow> nat \<Rightarrow> nat \<Rightarrow> flt \<Rightarrow> flt list" where
  "packed_product X W K N scale = map (\<lambda>j. out_half scale (dot_col (map sint X) 0 W N K j)) [0..<N]"

text \<open>The rows \<open>a\<close> to \<open>b\<close> of column \<open>j\<close>.\<close>

definition part :: "8 word list \<Rightarrow> int list \<Rightarrow> nat \<Rightarrow> nat \<Rightarrow> nat \<Rightarrow> nat \<Rightarrow> int" where
  "part X W N j a b = segment X (\<lambda>k. W ! (k * N + j)) a b"

lemma part_empty [simp]: "part X W N j a a = 0"
  by (simp add: part_def)

lemma part_dot: "K \<le> length X \<Longrightarrow> part X W N j 0 K = dot_col (map sint X) 0 W N K j"
  by (simp add: part_def segment_def dot_col_def atLeast0LessThan)

lemma packed_trit:
  assumes "packed_ok X W K N" and "k < K" and "j < N"
  shows "W ! (k * N + j) = - 1 \<or> W ! (k * N + j) = 0 \<or> W ! (k * N + j) = 1"
  using assms entry_in [OF assms(2,3)] by (simp add: packed_ok_def)

lemma part_in_i32:
  assumes "packed_ok X W K N" and "b \<le> K" and "j < N"
  shows "in_i32 (part X W N j a b)"
  unfolding part_def
proof (rule segment_in_i32)
  fix k assume "k < b"
  then have "k < K" using assms(2) by simp
  then show "\<bar>W ! (k * N + j)\<bar> \<le> 1" using packed_trit [OF assms(1) _ assms(3)] by fastforce
next
  show "b \<le> 2 ^ 23" using assms(1,2) by (simp add: packed_ok_def)
qed

lemma part_bound:
  assumes "packed_ok X W K N" and "b \<le> K" and "j < N"
  shows "\<bar>part X W N j a b\<bar> \<le> 128 * int (b - a)"
  unfolding part_def
proof (rule segment_bound)
  fix k assume "k < b"
  then have "k < K" using assms(2) by simp
  then show "\<bar>W ! (k * N + j)\<bar> \<le> 1" using packed_trit [OF assms(1) _ assms(3)] by fastforce
qed

lemma packed_x: "packed_ok X W K N \<Longrightarrow> k < K \<Longrightarrow> read_at X k = Inr (X ! k)"
  by (simp add: packed_ok_def read_at_def)

section \<open>Reads\<close>

lemma row_byte:
  assumes "packed_ok X W K N" and "k < K" and "j < N" and "is_decoder dec"
  shows "\<exists>b. read_at (pack_rows K N W) (k * (N div 4) + j div 4) = Inr b \<and> dec (code_of b (j mod 4 * 2)) = W ! (k * N + j)"
  using by_rows.fetch_trit [of N k K j W dec] assms by (simp add: row_fetch_def packed_ok_def)

lemma col_byte:
  assumes "packed_ok X W K N" and "k < K" and "j < N" and "is_decoder dec"
  shows "\<exists>b. read_at (col_bytes K N (pack_rows K N W)) (j div 4 * K + k) = Inr b \<and> dec (code_of b (j mod 4 * 2)) = W ! (k * N + j)"
  using by_cols.fetch_trit [of N k K j W dec] assms by (simp add: col_fetch_def packed_ok_def)

text \<open>Four consecutive bytes, read singly or as a word.\<close>

lemma rmap_reads:
  assumes "\<And>i. i < n \<Longrightarrow> f (k + i) = Inr (g i)"
  shows "rmap f [k..<k + n] = Inr (map g [0..<n])"
proof -
  have "rmap f [k..<k + n] = Inr (map (\<lambda>i. g (i - k)) [k..<k + n])"
  proof (rule rmap_all)
    fix i assume "i \<in> set [k..<k + n]"
    then show "f i = Inr (g (i - k))" using assms [of "i - k"] by auto
  qed
  moreover have "map (\<lambda>i. g (i - k)) [k..<k + n] = map g [0..<n]"
    by (rule nth_equalityI) auto
  ultimately show ?thesis by simp
qed

lemma load_u32_ok:
  assumes "4 dvd i" and "\<And>t. t < 4 \<Longrightarrow> read_at bs (i + t) = Inr (g t)"
  shows "load_u32 bs i = Inr (quad_of (map g [0..<4]))"
  using rmap_reads [of 4 "read_at bs" i g] assms by (simp add: load_u32_def dvd_eq_mod_eq_0)

lemma bytes_u32_ok:
  assumes "4 dvd i" and "\<And>t. t < 4 \<Longrightarrow> read_at bs (i + t) = Inr (g t)"
  shows "bytes_u32 bs i = Inr (map g [0..<4])"
proof -
  have "map (byte_of (quad_of (map g [0..<4]))) [0..<4] = map g [0..<4]"
    by (rule nth_equalityI) (simp_all add: byte_of_quad)
  then show ?thesis using load_u32_ok [OF assms] by (simp add: bytes_u32_def)
qed

lemma x_quad_ok:
  assumes "\<And>i. i < 4 \<Longrightarrow> rx (kk + i) = Inr (X ! (k + i))"
  shows "x_quad rx kk = Inr (quad_of (map (\<lambda>i. X ! (k + i)) [0..<4]))"
  using rmap_reads [of 4 rx kk "\<lambda>i. X ! (k + i)"] assms by (simp add: x_quad_def)

lemma x_load_ok:
  assumes "packed_ok X W K N" and "4 dvd k" and "k + 4 \<le> K"
  shows "load_u32 X k = Inr (quad_of (map (\<lambda>i. X ! (k + i)) [0..<4]))"
  by (rule load_u32_ok [OF assms(2)]) (use assms in \<open>simp add: packed_x\<close>)

section \<open>Steps\<close>

lemma mac1_part:
  assumes ok: "packed_ok X W K N" "k < K" "j < N" "is_decoder dec" and rx: "rx kk = Inr (X ! k)"
    and rw: "\<exists>b. rw kk = Inr b \<and> dec (code_of b sb) = W ! (k * N + j)" and a: "a \<le> k"
  shows "mac1 dec rx rw sb kk (part X W N j a k) = Inr (part X W N j a (Suc k))"
proof -
  obtain b where b: "rw kk = Inr b" "dec (code_of b sb) = W ! (k * N + j)" using rw by blast
  have "in_i32 (part X W N j a (Suc k))" by (rule part_in_i32) (use ok in auto)
  moreover have "part X W N j a (Suc k) = part X W N j a k + sint (X ! k) * W ! (k * N + j)"
    unfolding part_def using a by (rule segment_Suc)
  ultimately show ?thesis using rx b by (auto simp: mac1_def add_i32_def)
qed

lemma macs1_part:
  assumes ok: "packed_ok X W K N" "k < K" and n: "\<And>i. i < n \<Longrightarrow> j + i < N" and rx: "rx kk = Inr (X ! k)"
    and rt: "\<And>i. i < n \<Longrightarrow> \<exists>t. rt kk i = Inr t \<and> dec t = W ! (k * N + (j + i))" and a: "a \<le> k"
  shows "macs1 n dec rx rt kk (map (\<lambda>i. part X W N (j + i) a k) [0..<n]) = Inr (map (\<lambda>i. part X W N (j + i) a (Suc k)) [0..<n])"
proof -
  have s: "part X W N (j + i) a (Suc k) = part X W N (j + i) a k + sint (X ! k) * W ! (k * N + (j + i))" for i
    unfolding part_def using a by (rule segment_Suc)
  show ?thesis
  proof (cases "sint (X ! k) = 0")
    case True
    then show ?thesis using rx by (simp add: macs1_def s)
  next
    case False
    let ?old = "map (\<lambda>i. part X W N (j + i) a k) [0..<n]"
    have "rmap (\<lambda>i. rbind (rt kk i) (\<lambda>t. add_i32 (?old ! i) (sint (X ! k) * dec t))) [0..<n] =
        Inr (map (\<lambda>i. part X W N (j + i) a (Suc k)) [0..<n])"
    proof (rule rmap_all)
      fix i assume "i \<in> set [0..<n]"
      then have i: "i < n" by simp
      obtain t where t: "rt kk i = Inr t" "dec t = W ! (k * N + (j + i))" using rt [OF i] by blast
      have "in_i32 (part X W N (j + i) a (Suc k))" by (rule part_in_i32) (use ok n [OF i] in auto)
      then show "rbind (rt kk i) (\<lambda>t. add_i32 (?old ! i) (sint (X ! k) * dec t)) = Inr (part X W N (j + i) a (Suc k))"
        using t i s by (simp add: add_i32_def)
    qed
    then show ?thesis using rx False by (simp add: macs1_def)
  qed
qed

lemma mac4_part:
  assumes ok: "packed_ok X W K N" "k + 4 \<le> K" "j < N" "is_decoder dec"
    and rx4: "rx4 kk = Inr (quad_of (map (\<lambda>i. X ! (k + i)) [0..<4]))"
    and rw4: "rw4 kk = Inr (map g [0..<4])" "\<And>i. i < 4 \<Longrightarrow> dec (code_of (g i) sb) = W ! ((k + i) * N + j)" and a: "a \<le> k"
  shows "mac4 dec rx4 rw4 sb kk (part X W N j a k) = Inr (part X W N j a (k + 4))"
proof -
  have "dp4a (quad_of (map (\<lambda>i. X ! (k + i)) [0..<4])) (weights4 dec sb (map g [0..<4])) (part X W N j a k) = part X W N j a (k + 4)"
    unfolding part_def
    by (rule dp4a_segment) (use ok a rw4(2) part_in_i32 [OF ok(1,2,3)] in \<open>simp_all add: part_def\<close>)
  then show ?thesis using rx4 rw4(1) by (simp add: mac4_def)
qed

lemma macs4_part:
  assumes ok: "packed_ok X W K N" "k + 4 \<le> K" "is_decoder dec" and n: "j + 4 \<le> N"
    and rx4: "rx4 kk = Inr (quad_of (map (\<lambda>i. X ! (k + i)) [0..<4]))"
    and rw4: "rw4 kk = Inr (map g [0..<4])"
      "\<And>i s. i < 4 \<Longrightarrow> s < 4 \<Longrightarrow> dec (code_of (g i) (s * 2)) = W ! ((k + i) * N + (j + s))" and a: "a \<le> k"
  shows "macs4 dec rx4 rw4 kk (map (\<lambda>i. part X W N (j + i) a k) [0..<4]) = Inr (map (\<lambda>i. part X W N (j + i) a (k + 4)) [0..<4])"
proof -
  let ?old = "map (\<lambda>i. part X W N (j + i) a k) [0..<4]"
  have "dp4a (quad_of (map (\<lambda>i. X ! (k + i)) [0..<4])) (weights4 dec (s * 2) (map g [0..<4])) (?old ! s) = part X W N (j + s) a (k + 4)"
    if "s < 4" for s
  proof -
    have "mac4 dec rx4 rw4 (s * 2) kk (part X W N (j + s) a k) = Inr (part X W N (j + s) a (k + 4))"
      by (rule mac4_part [where g = g]) (use ok n rx4 rw4 a that in auto)
    then show ?thesis using rx4 rw4(1) that by (simp add: mac4_def)
  qed
  then show ?thesis using rx4 rw4(1) by (simp add: macs4_def)
qed

section \<open>Threads\<close>

lemma rows_ok: "(\<And>k. k < m \<Longrightarrow> f (F k) k = Inr (F (Suc k))) \<Longrightarrow> rfold f (F 0) [0..<m] = Inr (F m)"
  by (induction m) (simp_all add: rfold_append)

lemma columns_parts:
  assumes "packed_ok X W K N"
  shows "columns scale jb (map (\<lambda>i. part X W N (jb + i) 0 K) [0..<c]) =
    map (\<lambda>i. (jb + i, out_half scale (dot_col (map sint X) 0 W N K (jb + i)))) [0..<c]"
  unfolding columns_def by (rule nth_equalityI) (use assms in \<open>auto simp: part_dot packed_ok_def\<close>)

lemma parts_start: "map (\<lambda>i. part X W N (jb + i) a a) [0..<c] = replicate c 0"
  by (rule nth_equalityI) auto

lemma byte_codes_row:
  assumes "packed_ok X W K N" and "k < K" and "u * 4 + i < N" and "i < 4" and "is_decoder dec" and f: "f kk = k"
  shows "\<exists>t. byte_codes (pack_rows K N W) (\<lambda>k. f k * (N div 4) + u) kk i = Inr t \<and> dec t = W ! (k * N + (u * 4 + i))"
  using row_byte [OF assms(1,2,3,5)] assms(4) f by (auto simp: byte_codes_def)

lemma byte_codes_col:
  assumes "packed_ok X W K N" and "k < K" and "u * 4 + i < N" and "i < 4" and "is_decoder dec" and f: "f kk = k"
  shows "\<exists>t. byte_codes (col_bytes K N (pack_rows K N W)) (\<lambda>k. u * K + f k) kk i = Inr t \<and> dec t = W ! (k * N + (u * 4 + i))"
  using col_byte [OF assms(1,2,3,5)] assms(4) f by (auto simp: byte_codes_def)

lemma bit_three: "bit (3 :: 'a :: len word) n \<longleftrightarrow> n < 2 \<and> n < LENGTH('a)"
proof -
  have "(3 :: 'a word) = mask 2" by (simp add: mask_eq_exp_minus_1)
  then show ?thesis by (simp only: bit_mask_iff) auto
qed

text \<open>The code of a column inside a word of sixteen.\<close>

lemma word_code:
  assumes "length bs = 4" and "i < 16"
  shows "uint (and (drop_bit (i * 2) (quad_of bs)) 3) = code_of (bs ! (i div 4)) (i mod 4 * 2)"
proof -
  have "and (drop_bit (i * 2) (quad_of bs)) 3 = ucast (and (drop_bit (i mod 4 * 2) (bs ! (i div 4))) 3)"
  proof (rule bit_word_eqI)
    fix n assume "n < LENGTH(32)"
    show "bit (and (drop_bit (i * 2) (quad_of bs)) 3) n = bit (ucast (and (drop_bit (i mod 4 * 2) (bs ! (i div 4))) 3) :: 32 word) n"
    proof (cases "n < 2")
      case True
      let ?m = "i * 2 + n"
      have m: "?m < 32" "?m = 8 * (i div 4) + (i mod 4 * 2 + n)" using assms(2) True by presburger+
      have inner: "i mod 4 * 2 + n < 8" using True by presburger
      have "bit (quad_of bs) ?m \<longleftrightarrow> bit (byte_of (quad_of bs) (i div 4)) (i mod 4 * 2 + n)"
      proof -
        have "bit (0xff :: 32 word) (i mod 4 * 2 + n)"
        proof -
          have "bit (mask 8 :: 32 word) (i mod 4 * 2 + n)" unfolding bit_mask_iff using inner by simp
          moreover have "(mask 8 :: 32 word) = 0xff" by (simp add: mask_eq_exp_minus_1)
          ultimately show ?thesis by (simp only:)
        qed
        then show ?thesis using m(2) inner by (simp add: byte_of_def bit_and_iff bit_ucast_iff bit_drop_bit_eq add.assoc)
      qed
      also have "\<dots> \<longleftrightarrow> bit (bs ! (i div 4)) (i mod 4 * 2 + n)" using assms by (simp add: byte_of_quad)
      finally show ?thesis unfolding bit_ucast_iff bit_and_iff bit_three bit_drop_bit_eq using True m(1) by auto
    next
      case False
      then show ?thesis unfolding bit_ucast_iff bit_and_iff bit_three by simp
    qed
  qed
  moreover have "uint (ucast b :: 32 word) = uint b" for b :: "8 word"
    by (rule uint_up_ucast) (simp add: is_up)
  ultimately show ?thesis by (simp only: code_of_def)
qed

lemma word_codes_row:
  assumes ok: "packed_ok X W K N" "k < K" "u * 16 + i < N" "i < 16" "is_decoder dec" and N: "16 dvd N" and f: "f kk = k"
  shows "\<exists>t. word_codes (pack_rows K N W) (\<lambda>k. f k * (N div 16) + u) kk i = Inr t \<and> dec t = W ! (k * N + (u * 16 + i))"
proof -
  let ?rows = "pack_rows K N W"
  obtain q where q: "N = 16 * q" using N by (auto elim!: dvdE)
  have u: "u < q" using ok(3) q by simp
  have base: "4 * (f kk * (N div 16) + u) = k * (N div 4) + 4 * u" using q f by (simp add: algebra_simps)
  have read: "\<exists>b. read_at ?rows (k * (N div 4) + 4 * u + t) = Inr b \<and>
      (\<forall>s < 4. dec (code_of b (s * 2)) = W ! (k * N + (u * 16 + t * 4 + s)))" if "t < 4" for t
  proof -
    have N: "u * 16 + t * 4 + s < N" if "s < 4" for s using that \<open>t < 4\<close> u q by simp
    have d: "(u * 16 + t * 4 + s) div 4 = 4 * u + t" "(u * 16 + t * 4 + s) mod 4 = s" if "s < 4" for s
      using that by presburger+
    have r: "\<exists>b. read_at ?rows (k * (N div 4) + (4 * u + t)) = Inr b \<and> dec (code_of b (s * 2)) = W ! (k * N + (u * 16 + t * 4 + s))"
      if "s < 4" for s
      using row_byte [OF ok(1,2) N [OF that] ok(5)] by (simp only: d [OF that])
    obtain b where b: "read_at ?rows (k * (N div 4) + (4 * u + t)) = Inr b" using r [of 0] by auto
    then have "\<forall>s < 4. dec (code_of b (s * 2)) = W ! (k * N + (u * 16 + t * 4 + s))" using r by fastforce
    then show ?thesis using b by (auto simp: add.assoc)
  qed
  define g where "g = (\<lambda>t. projr (read_at ?rows (k * (N div 4) + 4 * u + t)))"
  have g: "read_at ?rows (k * (N div 4) + 4 * u + t) = Inr (g t)"
    "\<And>s. s < 4 \<Longrightarrow> dec (code_of (g t) (s * 2)) = W ! (k * N + (u * 16 + t * 4 + s))" if "t < 4" for t
    using read [OF that] by (auto simp: g_def)
  have al: "4 dvd k * (N div 4) + 4 * u" using q by (simp add: dvd_add)
  have load: "load_u32 ?rows (k * (N div 4) + 4 * u) = Inr (quad_of (map g [0..<4]))" by (rule load_u32_ok [OF al]) (rule g(1))
  have w: "word_codes ?rows (\<lambda>k. f k * (N div 16) + u) kk i = Inr (uint (and (drop_bit (i * 2) (quad_of (map g [0..<4]))) 3))"
    unfolding word_codes_def base load by simp
  have "uint (and (drop_bit (i * 2) (quad_of (map g [0..<4]))) 3) = code_of (g (i div 4)) (i mod 4 * 2)"
    using word_code [of "map g [0..<4]" i] ok(4) by simp
  moreover have "u * 16 + i div 4 * 4 + i mod 4 = u * 16 + i" by (simp add: add.assoc)
  moreover have "i div 4 < 4" "i mod 4 < 4" using ok(4) by simp_all
  ultimately show ?thesis using w g(2) by (simp add: add.commute)
qed

text \<open>The two kernels without shared memory.\<close>

lemma mm_packed_trit_v4_ok:
  assumes ok: "packed_ok X W K N" and out: "length out = N" and n: "N \<le> n * 4"
  shows "mm_packed_trit_v4 X (pack_rows K N W) K N scale n out = Inr (packed_product X W K N scale)"
  unfolding mm_packed_trit_v4_def packed_product_def
proof (rule launch_ok [OF out])
  show "4 dvd N" using ok by (simp add: packed_ok_def)
  fix u assume "u * 4 < N"
  moreover have "4 dvd N" using ok by (simp add: packed_ok_def)
  ultimately have uN: "u * 4 + i < N" if "i < 4" for i using that by (auto elim!: dvdE)
  let ?F = "\<lambda>k. map (\<lambda>i. part X W N (u * 4 + i) 0 k) [0..<4]"
  have "rfold (\<lambda>accs k. macs1 4 dec_cmp (read_at X) (byte_codes (pack_rows K N W) (\<lambda>k. k * (N div 4) + u)) k accs) (?F 0) [0..<K] = Inr (?F K)"
  proof (rule rows_ok)
    fix k assume k: "k < K"
    show "macs1 4 dec_cmp (read_at X) (byte_codes (pack_rows K N W) (\<lambda>k. k * (N div 4) + u)) k (?F k) = Inr (?F (Suc k))"
      by (rule macs1_part [OF ok k uN])
        (use byte_codes_row [OF ok k _ _ decoders(1), where f = "\<lambda>k. k"] uN packed_x [OF ok k] in auto)
  qed
  then show "(let j_base = u * 4 in if j_base \<ge> N then Inr []
       else rbind (rfold (\<lambda>accs k. macs1 4 dec_cmp (read_at X) (byte_codes (pack_rows K N W) (\<lambda>k. k * (N div 4) + j_base div 4)) k accs)
              (replicate 4 0) [0..<K]) (\<lambda>accs. Inr (columns scale j_base accs))) =
      Inr (map (\<lambda>i. (u * 4 + i, out_half scale (dot_col (map sint X) 0 W N K (u * 4 + i)))) [0..<4])"
    using \<open>u * 4 < N\<close> columns_parts [OF ok, of scale "u * 4" 4] parts_start [of X W N "u * 4" 0 4] by (simp add: Let_def)
qed (use n in auto)

lemma mm_packed_trit_v16_ok:
  assumes ok: "packed_ok X W K N" and N: "16 dvd N" and out: "length out = N" and n: "N \<le> n * 16"
  shows "mm_packed_trit_v16 X (pack_rows K N W) K N scale n out = Inr (packed_product X W K N scale)"
  unfolding mm_packed_trit_v16_def packed_product_def
proof (rule launch_ok [OF out])
  fix u assume "u * 16 < N"
  then have uN: "u * 16 + i < N" if "i < 16" for i using that N by (auto elim!: dvdE)
  let ?F = "\<lambda>k. map (\<lambda>i. part X W N (u * 16 + i) 0 k) [0..<16]"
  have "rfold (\<lambda>accs k. macs1 16 dec_cmp (read_at X) (word_codes (pack_rows K N W) (\<lambda>k. k * (N div 16) + u)) k accs) (?F 0) [0..<K] = Inr (?F K)"
  proof (rule rows_ok)
    fix k assume k: "k < K"
    show "macs1 16 dec_cmp (read_at X) (word_codes (pack_rows K N W) (\<lambda>k. k * (N div 16) + u)) k (?F k) = Inr (?F (Suc k))"
      by (rule macs1_part [OF ok k uN])
        (use word_codes_row [OF ok k _ _ decoders(1) N, where f = "\<lambda>k. k"] uN packed_x [OF ok k] in auto)
  qed
  then show "(let j_base = u * 16 in if j_base \<ge> N then Inr []
       else rbind (rfold (\<lambda>accs k. macs1 16 dec_cmp (read_at X) (word_codes (pack_rows K N W) (\<lambda>k. k * (N div 16) + j_base div 16)) k accs)
              (replicate 16 0) [0..<K]) (\<lambda>accs. Inr (columns scale j_base accs))) =
      Inr (map (\<lambda>i. (u * 16 + i, out_half scale (dot_col (map sint X) 0 W N K (u * 16 + i)))) [0..<16])"
    using \<open>u * 16 < N\<close> columns_parts [OF ok, of scale "u * 16" 16] parts_start [of X W N "u * 16" 0 16] by (simp add: Let_def)
qed (use n N in auto)

section \<open>Blocks with a tile\<close>

lemma filter_less_upt: "filter (\<lambda>t. t < a) [0..<b] = [0..<min b a]"
proof (induction b)
  case (Suc b)
  then show ?case by (cases "b < a") (simp_all add: min_def)
qed simp

lemma running_upt:
  assumes "0 < c" and "c dvd N"
  shows "running bd c N b = [0..<min bd (N div c - b * bd)]"
proof -
  obtain q where q: "N = c * q" using assms by (auto elim!: dvdE)
  have "(b * bd + tid) * c < N \<longleftrightarrow> tid < q - b * bd" for tid
    unfolding q mult.commute [of c q] mult_less_cancel2 less_diff_conv using assms(1) by (simp add: add.commute)
  then have "running bd c N b = [0..<min bd (q - b * bd)]" unfolding running_def by (simp only: filter_less_upt)
  moreover have "N div c = q" using q assms(1) by simp
  ultimately show ?thesis by simp
qed

lemma concat_runs: "concat (map (\<lambda>t. map (\<lambda>i. g (t * c + i)) [0..<c]) [0..<r]) = map g [0..<r * c]"
proof (induction r)
  case (Suc r)
  have "map (\<lambda>i. g (r * c + i)) [0..<c] = map g [r * c..<r * c + c]"
    by (rule nth_equalityI) auto
  moreover have "[0..<Suc r * c] = [0..<r * c] @ [r * c..<r * c + c]"
    using upt_add_eq_append [of 0 "r * c" c] by (simp add: add.commute)
  ultimately show ?case using Suc by simp
qed simp

definition column_parts :: "8 word list \<Rightarrow> int list \<Rightarrow> nat \<Rightarrow> nat \<Rightarrow> nat \<Rightarrow> nat \<Rightarrow> int list" where
  "column_parts X W N c jb k = map (\<lambda>i. part X W N (jb + i) 0 k) [0..<c]"

lemma block_columns_parts:
  assumes ok: "packed_ok X W K N" and c: "0 < c" "c dvd N"
  shows "block_columns bd c N b scale (map (\<lambda>tid. column_parts X W N c ((b * bd + tid) * c) K) (running bd c N b)) =
    map (\<lambda>i. (b * (bd * c) + i, out_half scale (dot_col (map sint X) 0 W N K (b * (bd * c) + i)))) [0..<min (bd * c) (N - b * (bd * c))]"
proof -
  let ?f = "\<lambda>j. out_half scale (dot_col (map sint X) 0 W N K j)" and ?r = "min bd (N div c - b * bd)"
  have z: "zip ts (map h ts) = map (\<lambda>t. (t, h t)) ts" for ts :: "nat list" and h :: "nat \<Rightarrow> int list"
    by (simp add: zip_map2 zip_same_conv_map)
  have one: "columns scale ((b * bd + t) * c) (column_parts X W N c ((b * bd + t) * c) K) =
      map (\<lambda>i. (b * (bd * c) + (t * c + i), ?f (b * (bd * c) + (t * c + i)))) [0..<c]" for t
  proof -
    have e: "(b * bd + t) * c + i = b * (bd * c) + (t * c + i)" for i by (simp add: algebra_simps)
    show ?thesis unfolding column_parts_def columns_parts [OF ok] by (simp only: e)
  qed
  have "block_columns bd c N b scale (map (\<lambda>tid. column_parts X W N c ((b * bd + tid) * c) K) (running bd c N b)) =
      concat (map (\<lambda>t. map (\<lambda>i. (b * (bd * c) + (t * c + i), ?f (b * (bd * c) + (t * c + i)))) [0..<c]) [0..<?r])"
    unfolding block_columns_def running_upt [OF c] z by (simp add: comp_def one)
  also have "\<dots> = map (\<lambda>i. (b * (bd * c) + i, ?f (b * (bd * c) + i))) [0..<?r * c]"
    by (rule concat_runs)
  also have "?r * c = min (bd * c) (N - b * (bd * c))"
  proof -
    obtain q where "N = c * q" using c by (auto elim!: dvdE)
    then have "?r * c = min bd (q - b * bd) * c" using c(1) by simp
    also have "\<dots> = min (bd * c) (q * c - b * bd * c)" by (simp only: nat_mult_min_left diff_mult_distrib)
    finally show ?thesis using \<open>N = c * q\<close> by (simp only: mult.commute [of q c] mult.assoc)
  qed
  finally show ?thesis .
qed

lemma launch_blocks:
  assumes ok: "packed_ok X W K N" and out: "length out = N" and c: "0 < c" "c dvd N" and n: "N \<le> n * (bd * c)"
    and blk: "\<And>b. b < n \<Longrightarrow> blk b = Inr (map (\<lambda>tid. column_parts X W N c ((b * bd + tid) * c) K) (running bd c N b))"
  shows "launch n (\<lambda>b. rbind (blk b) (\<lambda>accss. Inr (block_columns bd c N b scale accss))) out = Inr (packed_product X W K N scale)"
  unfolding packed_product_def
  by (rule launch_min [OF out n]) (simp add: blk block_columns_parts [OF ok c])

lemma launch_blocks1:
  assumes ok: "packed_ok X W K N" and out: "length out = N" and n: "N \<le> n * bd"
    and blk: "\<And>b. b < n \<Longrightarrow> blk b = Inr (map (\<lambda>tid. part X W N (b * bd + tid) 0 K) (running bd 1 N b))"
  shows "launch n (\<lambda>b. rbind (blk b) (\<lambda>accs. Inr (block_columns bd 1 N b scale (map (\<lambda>a. [a]) accs)))) out = Inr (packed_product X W K N scale)"
proof -
  have "launch n (\<lambda>b. rbind (rbind (blk b) (\<lambda>accs. Inr (map (\<lambda>a. [a]) accs))) (\<lambda>accss. Inr (block_columns bd 1 N b scale accss))) out =
      Inr (packed_product X W K N scale)"
    by (rule launch_blocks [OF ok out]) (use n blk in \<open>auto simp: column_parts_def\<close>)
  moreover have "rbind (rbind (blk b) (\<lambda>accs. Inr (map (\<lambda>a. [a]) accs))) (\<lambda>accss. Inr (block_columns bd 1 N b scale accss)) =
      rbind (blk b) (\<lambda>accs. Inr (block_columns bd 1 N b scale (map (\<lambda>a. [a]) accs)))" for b
    by (cases "blk b") simp_all
  ultimately show ?thesis by simp
qed

text \<open>The loop over a tile, one row at a time and four rows at a time.\<close>

lemma tile_end: "i * KT < K \<Longrightarrow> i * KT + min KT (K - i * KT) = min K (Suc i * KT)"
  by auto

lemma running_in: "tid \<in> set (running bd c N b) \<Longrightarrow> (b * bd + tid) * c < N"
  by (simp add: running_def)

lemma owned_in: "0 < c \<Longrightarrow> c dvd N \<Longrightarrow> u * c < N \<Longrightarrow> i < c \<Longrightarrow> u * c + i < (N :: nat)"
proof -
  assume "0 < c" "c dvd N" "u * c < N" "i < c"
  then obtain q where q: "N = c * q" by (auto elim!: dvdE)
  then have "u < q" using \<open>u * c < N\<close> by (simp add: mult.commute)
  then show ?thesis using entry_in [of u q i c] \<open>i < c\<close> q by (simp add: mult.commute)
qed

text \<open>Scalar loops of \<open>c\<close> columns over rows given by a code reader.\<close>

lemma scalar_block:
  assumes ok: "packed_ok X W K N" and c: "0 < c" "c dvd N" and KT: "0 < KT" and cover: "loaders_cover KT bd (running bd c N b) K"
    and codes: "\<And>k0 k kk tid i. tid \<in> set (running bd c N b) \<Longrightarrow> k < K \<Longrightarrow> k0 + kk = k \<Longrightarrow> i < c \<Longrightarrow>
      \<exists>t. rt k0 tid kk i = Inr t \<and> dec t = W ! (k * N + ((b * bd + tid) * c + i))"
  shows "tiled_block KT bd (running bd c N b) X K
      (\<lambda>rx k0 m tid accs. rfold (\<lambda>accs kk. macs1 c dec rx (rt k0 tid) kk accs) accs [0..<m]) (replicate c 0) =
    Inr (map (\<lambda>tid. column_parts X W N c ((b * bd + tid) * c) K) (running bd c N b))"
proof (rule tiled_block_ok [OF _ KT cover])
  show "K \<le> length X" using ok by (simp add: packed_ok_def)
  show "column_parts X W N c ((b * bd + tid) * c) 0 = replicate c 0" for tid
    unfolding column_parts_def by (rule parts_start)
  fix rx :: "nat \<Rightarrow> 8 word res" and i tid assume tid: "tid \<in> set (running bd c N b)" and i: "i * KT < K"
    and rx: "\<And>j. j < min KT (K - i * KT) \<Longrightarrow> rx j = Inr (X ! (i * KT + j))"
  let ?m = "min KT (K - i * KT)" and ?u = "(b * bd + tid)"
  let ?F = "\<lambda>kk. column_parts X W N c (?u * c) (i * KT + kk)"
  have "rfold (\<lambda>accs kk. macs1 c dec rx (rt (i * KT) tid) kk accs) (?F 0) [0..<?m] = Inr (?F ?m)"
  proof (rule rows_ok)
    fix kk assume kk: "kk < ?m"
    then have k: "i * KT + kk < K" by linarith
    have "macs1 c dec rx (rt (i * KT) tid) kk (map (\<lambda>ia. part X W N (?u * c + ia) 0 (i * KT + kk)) [0..<c]) =
        Inr (map (\<lambda>ia. part X W N (?u * c + ia) 0 (Suc (i * KT + kk))) [0..<c])"
    proof (rule macs1_part [OF ok k])
      show "?u * c + ia < N" if "ia < c" for ia using owned_in [OF c running_in [OF tid] that] .
      show "rx kk = Inr (X ! (i * KT + kk))" using rx kk by simp
      show "\<exists>t. rt (i * KT) tid kk ia = Inr t \<and> dec t = W ! ((i * KT + kk) * N + (?u * c + ia))" if "ia < c" for ia
        by (rule codes [OF tid k refl that])
    qed simp
    then show "macs1 c dec rx (rt (i * KT) tid) kk (?F kk) = Inr (?F (Suc kk))" by (simp add: column_parts_def)
  qed
  then show "rfold (\<lambda>accs kk. macs1 c dec rx (rt (i * KT) tid) kk accs) (column_parts X W N c (?u * c) (i * KT)) [0..<?m] =
      Inr (column_parts X W N c (?u * c) (min K (Suc i * KT)))"
    using tile_end [OF i] by simp
qed

text \<open>Any loop that extends the sums of its columns by a tile.\<close>

lemma tile_block:
  assumes ok: "packed_ok X W K N" and KT: "0 < KT" and cover: "loaders_cover KT bd ts K" and zero: "\<And>tid. F tid 0 = a0"
    and body: "\<And>rx k0 m tid. tid \<in> set ts \<Longrightarrow> KT dvd k0 \<Longrightarrow> k0 + m \<le> K \<Longrightarrow>
      (\<And>kk. kk < m \<Longrightarrow> rx kk = Inr (X ! (k0 + kk))) \<Longrightarrow> body rx k0 m tid (F tid k0) = Inr (F tid (k0 + m))"
  shows "tiled_block KT bd ts X K body a0 = Inr (map (\<lambda>tid. F tid K) ts)"
proof (rule tiled_block_ok [where F = F, OF _ KT cover])
  show "K \<le> length X" using ok by (simp add: packed_ok_def)
  show "F tid 0 = a0" for tid by (rule zero)
  fix rx :: "nat \<Rightarrow> 8 word res" and i tid
  assume tid: "tid \<in> set ts" and i: "i * KT < K" and rx: "\<And>j. j < min KT (K - i * KT) \<Longrightarrow> rx j = Inr (X ! (i * KT + j))"
  have "body rx (i * KT) (min KT (K - i * KT)) tid (F tid (i * KT)) = Inr (F tid (i * KT + min KT (K - i * KT)))"
    by (rule body [OF tid]) (use i rx in auto)
  then show "body rx (i * KT) (min KT (K - i * KT)) tid (F tid (i * KT)) = Inr (F tid (min K (Suc i * KT)))"
    using tile_end [OF i] by simp
qed

lemma mm_packed_v3_tiled_ok:
  assumes ok: "packed_ok X W K N" and out: "length out = N" and n: "N \<le> n * (bd * 4)"
    and cover: "\<And>b. b < n \<Longrightarrow> loaders_cover 256 bd (running bd 4 N b) K"
  shows "mm_packed_v3_tiled bd X (pack_rows K N W) K N scale n out = Inr (packed_product X W K N scale)"
proof -
  have N: "4 dvd N" using ok by (simp add: packed_ok_def)
  show ?thesis
    unfolding mm_packed_v3_tiled_def
  proof (rule launch_blocks [OF ok out _ N n])
    fix b assume b: "b < n"
    show "tiled_block 256 bd (running bd 4 N b) X K
         (\<lambda>rx k0 m tid accs. rfold (\<lambda>accs kk. macs1 4 dec_cmp rx
            (byte_codes (pack_rows K N W) (\<lambda>kk. (k0 + kk) * (N div 4) + (b * bd + tid) * 4 div 4)) kk accs) accs [0..<m])
         (replicate 4 0) = Inr (map (\<lambda>tid. column_parts X W N 4 ((b * bd + tid) * 4) K) (running bd 4 N b))"
    proof (rule scalar_block [OF ok _ N _ cover [OF b]])
      fix k0 k kk tid i :: nat
      assume tid: "tid \<in> set (running bd 4 N b)" and k: "k < K" "k0 + kk = k" and i: "i < 4"
      have u: "(b * bd + tid) * 4 + i < N" by (rule owned_in [OF _ N running_in [OF tid] i]) simp
      show "\<exists>t. byte_codes (pack_rows K N W) (\<lambda>kk. (k0 + kk) * (N div 4) + (b * bd + tid) * 4 div 4) kk i = Inr t \<and>
          dec_cmp t = W ! (k * N + ((b * bd + tid) * 4 + i))"
        using byte_codes_row [OF ok k(1) u i decoders(1), where f = "\<lambda>kk. k0 + kk", OF k(2)] by simp
    qed simp_all
  qed simp
qed

lemma mm_packed_v5_fat_ok:
  assumes ok: "packed_ok X W K N" and N: "16 dvd N" and out: "length out = N" and n: "N \<le> n * (bd * 16)"
    and cover: "\<And>b. b < n \<Longrightarrow> loaders_cover 256 bd (running bd 16 N b) K"
  shows "mm_packed_v5_fat bd X (pack_rows K N W) K N scale n out = Inr (packed_product X W K N scale)"
  unfolding mm_packed_v5_fat_def
proof (rule launch_blocks [OF ok out _ N n])
  fix b assume b: "b < n"
  show "tiled_block 256 bd (running bd 16 N b) X K
       (\<lambda>rx k0 m tid accs. rfold (\<lambda>accs kk. macs1 16 dec_cmp rx
          (word_codes (pack_rows K N W) (\<lambda>kk. (k0 + kk) * (N div 16) + (b * bd + tid) * 16 div 16)) kk accs) accs [0..<m])
       (replicate 16 0) = Inr (map (\<lambda>tid. column_parts X W N 16 ((b * bd + tid) * 16) K) (running bd 16 N b))"
  proof (rule scalar_block [OF ok _ N _ cover [OF b]])
    fix k0 k kk tid i :: nat
    assume tid: "tid \<in> set (running bd 16 N b)" and k: "k < K" "k0 + kk = k" and i: "i < 16"
    have u: "(b * bd + tid) * 16 + i < N" by (rule owned_in [OF _ N running_in [OF tid] i]) simp
    show "\<exists>t. word_codes (pack_rows K N W) (\<lambda>kk. (k0 + kk) * (N div 16) + (b * bd + tid) * 16 div 16) kk i = Inr t \<and>
        dec_cmp t = W ! (k * N + ((b * bd + tid) * 16 + i))"
      using word_codes_row [OF ok k(1) u i decoders(1) N, where f = "\<lambda>kk. k0 + kk", OF k(2)] by simp
  qed simp_all
qed simp

text \<open>One column: the rows \<open>kk\<close> of a tile, by single bytes and by fours.\<close>

lemma one_step:
  assumes ok: "packed_ok X W K N" and j: "j < N" and m: "k0 + m \<le> K" and rx: "\<And>kk. kk < m \<Longrightarrow> rx kk = Inr (X ! (k0 + kk))"
    and rw: "\<And>k kk. k < K \<Longrightarrow> k0 + kk = k \<Longrightarrow> \<exists>b. rw kk = Inr b \<and> dec_cmp (code_of b (j mod 4 * 2)) = W ! (k * N + j)" and kk: "kk < m"
  shows "mac1 dec_cmp rx rw (j mod 4 * 2) kk (part X W N j 0 (k0 + kk)) = Inr (part X W N j 0 (k0 + Suc kk))"
proof -
  have k: "k0 + kk < K" using m kk by simp
  show ?thesis using mac1_part [OF ok k j decoders(1), of rx kk rw "j mod 4 * 2" 0] rx [OF kk] rw [OF k refl] by simp
qed

lemma four_steps:
  assumes ok: "packed_ok X W K N" and j: "j < N" and m: "k0 + m \<le> K" and kk: "kk + 4 \<le> m"
    and rx4: "rx4 kk = Inr (quad_of (map (\<lambda>i. X ! (k0 + kk + i)) [0..<4]))"
    and rw4: "rw4 kk = Inr (map g [0..<4])" "\<And>i. i < 4 \<Longrightarrow> dec_cmp (code_of (g i) (j mod 4 * 2)) = W ! ((k0 + kk + i) * N + j)"
  shows "mac4 dec_cmp rx4 rw4 (j mod 4 * 2) kk (part X W N j 0 (k0 + kk)) = Inr (part X W N j 0 (k0 + (kk + 4)))"
proof -
  have "mac4 dec_cmp rx4 rw4 (j mod 4 * 2) kk (part X W N j 0 (k0 + kk)) = Inr (part X W N j 0 (k0 + kk + 4))"
    by (rule mac4_part [where g = g]) (use ok j m kk rx4 rw4 decoders(1) in auto)
  then show ?thesis by (simp add: add.assoc)
qed

lemma mm_packed_v4_wide_ok:
  assumes ok: "packed_ok X W K N" and out: "length out = N" and n: "N \<le> n * bd"
    and cover: "\<And>b. b < n \<Longrightarrow> loaders_cover 512 bd (running bd 1 N b) K"
  shows "mm_packed_v4_wide bd X (pack_rows K N W) K N scale n out = Inr (packed_product X W K N scale)"
  unfolding mm_packed_v4_wide_def
proof (rule launch_blocks1 [OF ok out n], rule tile_block [OF ok _ cover])
  fix b tid k0 m and rx :: "nat \<Rightarrow> 8 word res"
  assume "tid \<in> set (running bd 1 N b)" and m: "k0 + m \<le> K" and rx: "\<And>kk. kk < m \<Longrightarrow> rx kk = Inr (X ! (k0 + kk))"
  then have j: "b * bd + tid < N" using running_in [of tid bd 1 N b] by simp
  let ?j = "b * bd + tid" and ?F = "\<lambda>kk. part X W N (b * bd + tid) 0 (k0 + kk)"
  have "rfold (\<lambda>acc kk. mac1 dec_cmp rx (\<lambda>kk. read_at (pack_rows K N W) ((k0 + kk) * (N div 4) + ?j div 4)) (?j mod 4 * 2) kk acc) (?F 0) [0..<m] = Inr (?F m)"
  proof (rule rows_ok)
    fix kk assume "kk < m"
    then show "mac1 dec_cmp rx (\<lambda>kk. read_at (pack_rows K N W) ((k0 + kk) * (N div 4) + ?j div 4)) (?j mod 4 * 2) kk (?F kk) = Inr (?F (Suc kk))"
      by (intro one_step [OF ok j m rx]) (use row_byte [OF ok _ j decoders(1)] in auto)
  qed
  then show "(let j = b * bd + tid in rfold (\<lambda>acc kk. mac1 dec_cmp rx (\<lambda>kk. read_at (pack_rows K N W) ((k0 + kk) * (N div 4) + j div 4)) (j mod 4 * 2) kk acc)
      (part X W N (b * bd + tid) 0 k0) [0..<m]) = Inr (part X W N (b * bd + tid) 0 (k0 + m))"
    by (simp add: Let_def)
qed simp_all

section \<open>Four rows at a time\<close>

text \<open>A byte of the column layout, for its four columns.\<close>

lemma col_group:
  assumes ok: "packed_ok X W K N" and k: "k < K" and u: "u * 4 < N" and dec: "is_decoder dec"
  shows "\<exists>b. read_at (col_bytes K N (pack_rows K N W)) (u * K + k) = Inr b \<and> (\<forall>s < 4. dec (code_of b (s * 2)) = W ! (k * N + (u * 4 + s)))"
proof -
  have N: "u * 4 + s < N" if "s < 4" for s
    by (rule owned_in [OF _ _ u that]) (use ok in \<open>auto simp: packed_ok_def\<close>)
  have r: "\<exists>b. read_at (col_bytes K N (pack_rows K N W)) (u * K + k) = Inr b \<and> dec (code_of b (s * 2)) = W ! (k * N + (u * 4 + s))"
    if "s < 4" for s
    using col_byte [OF ok k N [OF that] dec] that by simp
  obtain b where "read_at (col_bytes K N (pack_rows K N W)) (u * K + k) = Inr b" using r [of 0] by auto
  then show ?thesis using r by fastforce
qed

lemma col_quad:
  assumes ok: "packed_ok X W K N" and k: "k + 4 \<le> K" "4 dvd K" "4 dvd k" and u: "u * 4 < N" and dec: "is_decoder dec"
  shows "\<exists>g. bytes_u32 (col_bytes K N (pack_rows K N W)) (u * K + k) = Inr (map g [0..<4]) \<and>
    (\<forall>i < 4. \<forall>s < 4. dec (code_of (g i) (s * 2)) = W ! ((k + i) * N + (u * 4 + s)))"
proof -
  have "\<forall>i. \<exists>b. i < 4 \<longrightarrow> read_at (col_bytes K N (pack_rows K N W)) (u * K + k + i) = Inr b \<and>
      (\<forall>s < 4. dec (code_of b (s * 2)) = W ! ((k + i) * N + (u * 4 + s)))"
    using col_group [OF ok _ u dec] k(1) by (auto simp: add.assoc)
  then obtain g where g: "\<And>i. i < 4 \<Longrightarrow> read_at (col_bytes K N (pack_rows K N W)) (u * K + k + i) = Inr (g i)"
    "\<And>i s. i < 4 \<Longrightarrow> s < 4 \<Longrightarrow> dec (code_of (g i) (s * 2)) = W ! ((k + i) * N + (u * 4 + s))" by metis
  have "4 dvd u * K + k" using k by (simp add: dvd_add)
  then have "bytes_u32 (col_bytes K N (pack_rows K N W)) (u * K + k) = Inr (map g [0..<4])" by (rule bytes_u32_ok) (rule g(1))
  then show ?thesis using g(2) by blast
qed

lemma row_quad:
  assumes ok: "packed_ok X W K N" and k: "k0 + kk + 4 \<le> K" and j: "j < N" and dec: "is_decoder dec"
  shows "\<exists>g. rmap (\<lambda>kk. read_at (pack_rows K N W) ((k0 + kk) * (N div 4) + j div 4)) [kk..<kk + 4] = Inr (map g [0..<4]) \<and>
    (\<forall>i < 4. dec (code_of (g i) (j mod 4 * 2)) = W ! ((k0 + kk + i) * N + j))"
proof -
  have "\<forall>i. \<exists>b. i < 4 \<longrightarrow> read_at (pack_rows K N W) ((k0 + (kk + i)) * (N div 4) + j div 4) = Inr b \<and>
      dec (code_of b (j mod 4 * 2)) = W ! ((k0 + kk + i) * N + j)"
    using row_byte [OF ok _ j dec] k by (auto simp: add.assoc)
  then obtain g where g: "\<And>i. i < 4 \<Longrightarrow> read_at (pack_rows K N W) ((k0 + (kk + i)) * (N div 4) + j div 4) = Inr (g i)"
    "\<And>i. i < 4 \<Longrightarrow> dec (code_of (g i) (j mod 4 * 2)) = W ! ((k0 + kk + i) * N + j)" by metis
  have "rmap (\<lambda>kk. read_at (pack_rows K N W) ((k0 + kk) * (N div 4) + j div 4)) [kk..<kk + 4] = Inr (map g [0..<4])"
    by (rule rmap_reads) (rule g(1))
  then show ?thesis using g(2) by blast
qed

text \<open>The loop of one column over a stretch of rows that starts at \<open>k0\<close>.\<close>

lemma quad_column:
  assumes ok: "packed_ok X W K N" and j: "j < N" and m: "k0 + m \<le> K"
    and rx: "\<And>kk. kk < m \<Longrightarrow> rx kk = Inr (X ! (k0 + kk))"
    and rx4: "\<And>kk. 4 dvd kk \<Longrightarrow> kk + 4 \<le> m \<Longrightarrow> rx4 kk = Inr (quad_of (map (\<lambda>i. X ! (k0 + kk + i)) [0..<4]))"
    and rw: "\<And>k kk. k < K \<Longrightarrow> k0 + kk = k \<Longrightarrow> \<exists>b. rw kk = Inr b \<and> dec_cmp (code_of b (j mod 4 * 2)) = W ! (k * N + j)"
    and rw4: "\<And>kk. 4 dvd kk \<Longrightarrow> kk + 4 \<le> m \<Longrightarrow> \<exists>g. rw4 kk = Inr (map g [0..<4]) \<and>
      (\<forall>i < 4. dec_cmp (code_of (g i) (j mod 4 * 2)) = W ! ((k0 + kk + i) * N + j))"
  shows "quad_loop (mac4 dec_cmp rx4 rw4 (j mod 4 * 2)) (mac1 dec_cmp rx rw (j mod 4 * 2)) m 0 (part X W N j 0 k0) = Inr (part X W N j 0 (k0 + m))"
proof -
  let ?F = "\<lambda>kk. part X W N j 0 (k0 + kk)"
  have "quad_loop (mac4 dec_cmp rx4 rw4 (j mod 4 * 2)) (mac1 dec_cmp rx rw (j mod 4 * 2)) m 0 (?F 0) = Inr (?F (max 0 m))"
  proof (rule quad_loop_ok)
    fix kk :: nat assume kk: "4 dvd kk" "kk + 4 \<le> m"
    obtain g where g: "rw4 kk = Inr (map g [0..<4])" "\<And>i. i < 4 \<Longrightarrow> dec_cmp (code_of (g i) (j mod 4 * 2)) = W ! ((k0 + kk + i) * N + j)"
      using rw4 [OF kk] by blast
    show "mac4 dec_cmp rx4 rw4 (j mod 4 * 2) kk (?F kk) = Inr (?F (kk + 4))"
      by (rule four_steps [where g = g]) (use ok j m kk rx4 g in auto)
  next
    fix kk assume "kk < m"
    then show "mac1 dec_cmp rx rw (j mod 4 * 2) kk (?F kk) = Inr (?F (Suc kk))"
      by (intro one_step) (use ok j m rx rw in auto)
  qed simp
  then show ?thesis by simp
qed

lemma mm_v6_dp4a_ok:
  assumes ok: "packed_ok X W K N" and out: "length out = N" and n: "N \<le> n * bd"
    and cover: "\<And>b. b < n \<Longrightarrow> loaders_cover 512 bd (running bd 1 N b) K"
  shows "mm_v6_dp4a bd X (pack_rows K N W) K N scale n out = Inr (packed_product X W K N scale)"
  unfolding mm_v6_dp4a_def Let_def
proof (rule launch_blocks1 [OF ok out n], rule tile_block [OF ok _ cover])
  fix b tid k0 m and rx :: "nat \<Rightarrow> 8 word res"
  assume "tid \<in> set (running bd 1 N b)" and m: "k0 + m \<le> K" and rx: "\<And>kk. kk < m \<Longrightarrow> rx kk = Inr (X ! (k0 + kk))"
  then have j: "b * bd + tid < N" using running_in [of tid bd 1 N b] by simp
  show "quad_loop (mac4 dec_cmp (x_quad rx)
        (\<lambda>kk. rmap (\<lambda>kk. read_at (pack_rows K N W) ((k0 + kk) * (N div 4) + (b * bd + tid) div 4)) [kk..<kk + 4]) ((b * bd + tid) mod 4 * 2))
      (mac1 dec_cmp rx (\<lambda>kk. read_at (pack_rows K N W) ((k0 + kk) * (N div 4) + (b * bd + tid) div 4)) ((b * bd + tid) mod 4 * 2)) m 0
      (part X W N (b * bd + tid) 0 k0) = Inr (part X W N (b * bd + tid) 0 (k0 + m))"
  proof (rule quad_column [OF ok j m rx])
    show "x_quad rx kk = Inr (quad_of (map (\<lambda>i. X ! (k0 + kk + i)) [0..<4]))" if "kk + 4 \<le> m" for kk
      by (rule x_quad_ok) (use rx that in \<open>simp add: add.assoc\<close>)
    show "\<exists>ba. read_at (pack_rows K N W) ((k0 + kk) * (N div 4) + (b * bd + tid) div 4) = Inr ba \<and>
        dec_cmp (code_of ba ((b * bd + tid) mod 4 * 2)) = W ! (k * N + (b * bd + tid))" if "k < K" "k0 + kk = k" for k kk
      using row_byte [OF ok that(1) j decoders(1)] that(2) by simp
    show "\<exists>g. rmap (\<lambda>kk. read_at (pack_rows K N W) ((k0 + kk) * (N div 4) + (b * bd + tid) div 4)) [kk..<kk + 4] = Inr (map g [0..<4]) \<and>
        (\<forall>i < 4. dec_cmp (code_of (g i) ((b * bd + tid) mod 4 * 2)) = W ! ((k0 + kk + i) * N + (b * bd + tid)))" if "kk + 4 \<le> m" for kk
      by (rule row_quad [OF ok _ j decoders(1)]) (use that m in simp)
  qed
qed simp_all

lemma mm_v7_colmaj_ok:
  assumes ok: "packed_ok X W K N" and K: "4 dvd K" and out: "length out = N" and n: "N \<le> n * bd"
    and cover: "\<And>b. b < n \<Longrightarrow> loaders_cover 512 bd (running bd 1 N b) K"
  shows "mm_v7_colmaj bd X (col_bytes K N (pack_rows K N W)) K N scale n out = Inr (packed_product X W K N scale)"
  unfolding mm_v7_colmaj_def Let_def
proof (rule launch_blocks1 [OF ok out n], rule tile_block [OF ok _ cover])
  fix b tid k0 m and rx :: "nat \<Rightarrow> 8 word res"
  assume "tid \<in> set (running bd 1 N b)" and k0: "512 dvd k0" and m: "k0 + m \<le> K" and rx: "\<And>kk. kk < m \<Longrightarrow> rx kk = Inr (X ! (k0 + kk))"
  then have j: "b * bd + tid < N" using running_in [of tid bd 1 N b] by simp
  let ?j = "b * bd + tid"
  have al: "4 dvd k0" using k0 by (rule dvd_trans [rotated]) simp
  have u: "?j div 4 * 4 < N" using j by simp
  show "quad_loop (mac4 dec_cmp (x_quad rx) (\<lambda>kk. bytes_u32 (col_bytes K N (pack_rows K N W)) (?j div 4 * K + k0 + kk)) (?j mod 4 * 2))
      (mac1 dec_cmp rx (\<lambda>kk. read_at (col_bytes K N (pack_rows K N W)) (?j div 4 * K + k0 + kk)) (?j mod 4 * 2)) m 0
      (part X W N ?j 0 k0) = Inr (part X W N ?j 0 (k0 + m))"
  proof (rule quad_column [OF ok j m rx])
    show "x_quad rx kk = Inr (quad_of (map (\<lambda>i. X ! (k0 + kk + i)) [0..<4]))" if "kk + 4 \<le> m" for kk
      by (rule x_quad_ok) (use rx that in \<open>simp add: add.assoc\<close>)
    show "\<exists>ba. read_at (col_bytes K N (pack_rows K N W)) (?j div 4 * K + k0 + kk) = Inr ba \<and>
        dec_cmp (code_of ba (?j mod 4 * 2)) = W ! (k * N + ?j)" if "k < K" "k0 + kk = k" for k kk
      using col_byte [OF ok that(1) j decoders(1)] that(2) by (simp add: add.assoc)
    show "\<exists>g. bytes_u32 (col_bytes K N (pack_rows K N W)) (?j div 4 * K + k0 + kk) = Inr (map g [0..<4]) \<and>
        (\<forall>i < 4. dec_cmp (code_of (g i) (?j mod 4 * 2)) = W ! ((k0 + kk + i) * N + ?j))" if "4 dvd kk" "kk + 4 \<le> m" for kk
    proof -
      have kle: "k0 + kk + 4 \<le> K" and al2: "4 dvd k0 + kk" using m that al by (simp_all add: dvd_add)
      obtain g where g: "bytes_u32 (col_bytes K N (pack_rows K N W)) (?j div 4 * K + (k0 + kk)) = Inr (map g [0..<4])"
        "\<And>i s. i < 4 \<Longrightarrow> s < 4 \<Longrightarrow> dec_cmp (code_of (g i) (s * 2)) = W ! ((k0 + kk + i) * N + (?j div 4 * 4 + s))"
        using col_quad [OF ok kle K al2 u decoders(1)] by blast
      have "?j div 4 * 4 + ?j mod 4 = ?j" by simp
      then show ?thesis using g(1) g(2) [of _ "?j mod 4"] by (auto simp: add.assoc)
    qed
  qed
qed simp_all

text \<open>Four columns.\<close>

definition group_parts :: "8 word list \<Rightarrow> int list \<Rightarrow> nat \<Rightarrow> nat \<Rightarrow> nat \<Rightarrow> nat \<Rightarrow> int list" where
  "group_parts X W N u a k = map (\<lambda>i. part X W N (u * 4 + i) a k) [0..<4]"

lemma group_in: "packed_ok X W K N \<Longrightarrow> u * 4 < N \<Longrightarrow> i < 4 \<Longrightarrow> u * 4 + i < N"
  by (rule owned_in) (auto simp: packed_ok_def)

lemma group_one:
  assumes ok: "packed_ok X W K N" and u: "u * 4 < N" and dec: "is_decoder dec" and k: "k < K" "a \<le> k"
    and rx: "rx kk = Inr (X ! k)" and f: "f kk = u * K + k"
  shows "macs1 4 dec rx (byte_codes (col_bytes K N (pack_rows K N W)) f) kk (group_parts X W N u a k) = Inr (group_parts X W N u a (Suc k))"
  unfolding group_parts_def
proof (rule macs1_part [OF ok k(1) group_in [OF ok u]])
  show "rx kk = Inr (X ! k)" by (rule rx)
  show "\<exists>t. byte_codes (col_bytes K N (pack_rows K N W)) f kk i = Inr t \<and> dec t = W ! (k * N + (u * 4 + i))" if "i < 4" for i
    using col_group [OF ok k(1) u dec] that f by (auto simp: byte_codes_def)
qed (use k in simp_all)

lemma group_four:
  assumes ok: "packed_ok X W K N" and u: "u * 4 < N" and dec: "is_decoder dec" and k: "k + 4 \<le> K" "4 dvd K" "4 dvd k" "a \<le> k"
    and rx4: "rx4 kk = Inr (quad_of (map (\<lambda>i. X ! (k + i)) [0..<4]))"
    and f: "f kk = u * K + k"
  shows "macs4 dec rx4 (\<lambda>kk. bytes_u32 (col_bytes K N (pack_rows K N W)) (f kk)) kk (group_parts X W N u a k) = Inr (group_parts X W N u a (k + 4))"
proof -
  obtain g where g: "bytes_u32 (col_bytes K N (pack_rows K N W)) (u * K + k) = Inr (map g [0..<4])"
    "\<And>i s. i < 4 \<Longrightarrow> s < 4 \<Longrightarrow> dec (code_of (g i) (s * 2)) = W ! ((k + i) * N + (u * 4 + s))"
    using col_quad [OF ok k(1,2,3) u dec] by blast
  have "u * 4 + 4 \<le> N" using group_in [OF ok u, of 3] by simp
  then show ?thesis unfolding group_parts_def
    by (intro macs4_part [where g = g]) (use ok k dec rx4 g f in auto)
qed

lemma group_zero: "group_parts X W N u a a = replicate 4 0"
  unfolding group_parts_def by (rule parts_start)

lemma mm_v9_multi_ok:
  assumes ok: "packed_ok X W K N" and K: "4 dvd K" and out: "length out = N" and n: "N \<le> n * (bd * 4)"
    and cover: "\<And>b. b < n \<Longrightarrow> loaders_cover 512 bd (running bd 4 N b) K"
  shows "mm_v9_multi bd X (col_bytes K N (pack_rows K N W)) K N scale n out = Inr (packed_product X W K N scale)"
  unfolding mm_v9_multi_def Let_def
proof (rule launch_blocks [OF ok out _ _ n])
  fix b assume b: "b < n"
  let ?cols = "col_bytes K N (pack_rows K N W)"
  have "tiled_block 512 bd (running bd 4 N b) X K
      (\<lambda>rx k0 m tid accs. quad_loop (macs4 dec_cmp (x_quad rx) (\<lambda>kk. bytes_u32 ?cols ((b * bd + tid) * 4 div 4 * K + k0 + kk)))
         (macs1 4 dec_cmp rx (byte_codes ?cols (\<lambda>kk. (b * bd + tid) * 4 div 4 * K + k0 + kk))) m 0 accs)
      (replicate 4 0) = Inr (map (\<lambda>tid. group_parts X W N (b * bd + tid) 0 K) (running bd 4 N b))"
  proof (rule tile_block [OF ok _ cover [OF b]])
    fix tid k0 m and rx :: "nat \<Rightarrow> 8 word res"
    assume "tid \<in> set (running bd 4 N b)" and k0: "512 dvd k0" and m: "k0 + m \<le> K" and rx: "\<And>kk. kk < m \<Longrightarrow> rx kk = Inr (X ! (k0 + kk))"
    then have u: "(b * bd + tid) * 4 < N" using running_in [of tid bd 4 N b] by simp
    let ?u = "b * bd + tid" and ?F = "\<lambda>kk. group_parts X W N (b * bd + tid) 0 (k0 + kk)"
    have al: "4 dvd k0" using k0 by (rule dvd_trans [rotated]) simp
    have "quad_loop (macs4 dec_cmp (x_quad rx) (\<lambda>kk. bytes_u32 ?cols (?u * 4 div 4 * K + k0 + kk)))
         (macs1 4 dec_cmp rx (byte_codes ?cols (\<lambda>kk. ?u * 4 div 4 * K + k0 + kk))) m 0 (?F 0) = Inr (?F (max 0 m))"
    proof (rule quad_loop_ok)
      fix kk :: nat assume kk: "4 dvd kk" "kk + 4 \<le> m"
      have xq: "x_quad rx kk = Inr (quad_of (map (\<lambda>i. X ! (k0 + kk + i)) [0..<4]))"
        by (rule x_quad_ok) (use rx kk in \<open>simp add: add.assoc\<close>)
      have "macs4 dec_cmp (x_quad rx) (\<lambda>kk. bytes_u32 ?cols (?u * 4 div 4 * K + k0 + kk)) kk (group_parts X W N ?u 0 (k0 + kk)) =
          Inr (group_parts X W N ?u 0 (k0 + kk + 4))"
        by (rule group_four [OF ok u decoders(1)]) (use kk m al K xq in \<open>simp_all add: dvd_add\<close>)
      then show "macs4 dec_cmp (x_quad rx) (\<lambda>kk. bytes_u32 ?cols (?u * 4 div 4 * K + k0 + kk)) kk (?F kk) = Inr (?F (kk + 4))"
        by (simp add: add.assoc)
    next
      fix kk assume kk: "kk < m"
      have "macs1 4 dec_cmp rx (byte_codes ?cols (\<lambda>kk. ?u * 4 div 4 * K + k0 + kk)) kk (group_parts X W N ?u 0 (k0 + kk)) =
          Inr (group_parts X W N ?u 0 (Suc (k0 + kk)))"
        by (rule group_one [OF ok u decoders(1)]) (use kk m rx in simp_all)
      then show "macs1 4 dec_cmp rx (byte_codes ?cols (\<lambda>kk. ?u * 4 div 4 * K + k0 + kk)) kk (?F kk) = Inr (?F (Suc kk))" by simp
    qed simp
    then show "quad_loop (macs4 dec_cmp (x_quad rx) (\<lambda>kk. bytes_u32 ?cols (?u * 4 div 4 * K + k0 + kk)))
         (macs1 4 dec_cmp rx (byte_codes ?cols (\<lambda>kk. ?u * 4 div 4 * K + k0 + kk))) m 0 (group_parts X W N ?u 0 k0) =
        Inr (group_parts X W N ?u 0 (k0 + m))" by simp
  qed (simp_all add: group_zero)
  then show "tiled_block 512 bd (running bd 4 N b) X K
      (\<lambda>rx k0 m tid accs. quad_loop (macs4 dec_cmp (x_quad rx) (\<lambda>kk. bytes_u32 ?cols ((b * bd + tid) * 4 div 4 * K + k0 + kk)))
         (macs1 4 dec_cmp rx (byte_codes ?cols (\<lambda>kk. (b * bd + tid) * 4 div 4 * K + k0 + kk))) m 0 accs)
      (replicate 4 0) = Inr (map (\<lambda>tid. column_parts X W N 4 ((b * bd + tid) * 4) K) (running bd 4 N b))"
    by (simp add: group_parts_def column_parts_def)
qed (use ok in \<open>simp_all add: packed_ok_def\<close>)

end
