(* ===== verification/TerWarp.thy ===== *)
theory TerWarp
  imports TerProduct
begin

text \<open>
  The warp-cooperative versions of the packed product: the stretches of the lanes, the shuffle
  reduction, and what happens when the stretches are not aligned.
\<close>

section \<open>The lanes of a warp\<close>

definition lane_end :: "nat \<Rightarrow> nat \<Rightarrow> nat \<Rightarrow> nat" where
  "lane_end kpt K i = max (i * kpt) (min K (i * kpt + kpt))"

lemma lane_end_in: "i * kpt < K \<Longrightarrow> lane_end kpt K i \<le> K"
  by (simp add: lane_end_def)

lemma lane_part_bound:
  assumes "packed_ok X W K N" and "j < N"
  shows "\<bar>part X W N j (i * kpt) (lane_end kpt K i)\<bar> \<le> 128 * int kpt"
proof (cases "i * kpt < K")
  case True
  have "\<bar>part X W N j (i * kpt) (lane_end kpt K i)\<bar> \<le> 128 * int (lane_end kpt K i - i * kpt)"
    by (rule part_bound) (use assms lane_end_in [OF True] in auto)
  also have "\<dots> \<le> 128 * int kpt"
  proof -
    have "lane_end kpt K i - i * kpt \<le> kpt" by (simp add: lane_end_def)
    then have "int (lane_end kpt K i - i * kpt) \<le> int kpt" by (rule of_nat_mono)
    then show ?thesis by simp
  qed
  finally show ?thesis .
next
  case False
  then show ?thesis by (simp add: lane_end_def)
qed

lemma warp_column:
  assumes ok: "packed_ok X W K N" and j: "j < N" and kpt: "K \<le> 32 * kpt" "kpt \<le> 2 ^ 18 + 16"
    and v: "length v = 32" "\<And>i. i < 32 \<Longrightarrow> v ! i = part X W N j (i * kpt) (lane_end kpt K i)"
  shows "\<exists>r. warp_sum v = Inr r \<and> r ! 0 = dot_col (map sint X) 0 W N K j"
proof -
  have "\<exists>u. warp_sum v = Inr u \<and> length u = 32 \<and> u ! 0 = (\<Sum>i < 32. v ! i)"
  proof (rule warp_sum_ok)
    show "\<bar>v ! i\<bar> \<le> 128 * int kpt" if "i < 32" for i using v(2) [OF that] lane_part_bound [OF ok j] by simp
    have "int kpt \<le> int (2 ^ 18 + 16)" using kpt(2) by (intro of_nat_mono)
    then show "32 * (128 * int kpt) < 2 ^ 31" by simp
  qed simp
  moreover have "(\<Sum>i < 32. v ! i) = part X W N j 0 K"
    using lanes_cover [OF kpt(1), of X "\<lambda>k. W ! (k * N + j)"] v(2) by (simp add: part_def lane_end_def)
  ultimately show ?thesis using part_dot ok by (auto simp: packed_ok_def)
qed

lemma one_column_ok:
  assumes ok: "packed_ok X W K N" and j: "j < N" and kpt: "K \<le> 32 * kpt" "kpt \<le> 2 ^ 18 + 16"
    and lanes: "\<And>i. i < 32 \<Longrightarrow> f i = Inr (part X W N j (i * kpt) (lane_end kpt K i))"
  shows "one_column f scale j = Inr [(j, out_half scale (dot_col (map sint X) 0 W N K j))]"
proof -
  let ?v = "map (\<lambda>i. part X W N j (i * kpt) (lane_end kpt K i)) [0..<32]"
  have "rmap f [0..<32] = Inr ?v" by (rule rmap_all) (use lanes in simp)
  moreover obtain r where "warp_sum ?v = Inr r" "r ! 0 = dot_col (map sint X) 0 W N K j"
    using warp_column [OF ok j kpt, of ?v] by auto
  ultimately show ?thesis by (simp add: one_column_def)
qed

lemma four_columns_ok:
  assumes ok: "packed_ok X W K N" and u: "u * 4 < N" and kpt: "K \<le> 32 * kpt" "kpt \<le> 2 ^ 18 + 16"
    and lanes: "\<And>i. i < 32 \<Longrightarrow> f i = Inr (group_parts X W N u (i * kpt) (lane_end kpt K i))"
  shows "four_columns f scale (u * 4) = Inr (map (\<lambda>i. (u * 4 + i, out_half scale (dot_col (map sint X) 0 W N K (u * 4 + i)))) [0..<4])"
proof -
  let ?l = "map (\<lambda>i. group_parts X W N u (i * kpt) (lane_end kpt K i)) [0..<32]"
  have l: "rmap f [0..<32] = Inr ?l" by (rule rmap_all) (use lanes in simp)
  have "rmap (\<lambda>sub. rbind (warp_sum (map (\<lambda>accs. accs ! sub) ?l)) (\<lambda>v. Inr (v ! 0))) [0..<4] =
      Inr (map (\<lambda>sub. dot_col (map sint X) 0 W N K (u * 4 + sub)) [0..<4])"
  proof (rule rmap_all)
    fix sub :: nat assume "sub \<in> set [0..<4]"
    then have s: "sub < 4" by simp
    obtain r where "warp_sum (map (\<lambda>accs. accs ! sub) ?l) = Inr r" "r ! 0 = dot_col (map sint X) 0 W N K (u * 4 + sub)"
      using warp_column [OF ok group_in [OF ok u s] kpt, of "map (\<lambda>accs. accs ! sub) ?l"] s by (auto simp: group_parts_def)
    then show "rbind (warp_sum (map (\<lambda>accs. accs ! sub) ?l)) (\<lambda>v. Inr (v ! 0)) = Inr (dot_col (map sint X) 0 W N K (u * 4 + sub))" by simp
  qed
  then show ?thesis using l by (simp add: four_columns_def columns_def)
qed

section \<open>The loops of a lane\<close>

lemma stretch_simp: "(case stretch kpt K i of (a, b) \<Rightarrow> f a b) = f (i * kpt) (min K (i * kpt + kpt))"
  by (simp add: stretch_def)

text \<open>One column from row \<open>a\<close>, by single bytes and by fours; the activations are read either way.\<close>

lemma column_one:
  assumes ok: "packed_ok X W K N" and j: "j < N" and k: "k < K" "a \<le> k"
  shows "mac1 dec_cmp (read_at X) (\<lambda>kk. read_at (col_bytes K N (pack_rows K N W)) (j div 4 * K + kk)) (j mod 4 * 2) k (part X W N j a k) =
    Inr (part X W N j a (Suc k))"
  by (rule mac1_part [OF ok k(1) j decoders(1)])
    (use col_byte [OF ok k(1) j decoders(1)] packed_x [OF ok k(1)] k in auto)

lemma column_four:
  assumes ok: "packed_ok X W K N" and j: "j < N" and k: "k + 4 \<le> K" "4 dvd K" "4 dvd k" "a \<le> k"
    and rx4: "rx4 k = Inr (quad_of (map (\<lambda>i. X ! (k + i)) [0..<4]))"
  shows "mac4 dec_cmp rx4 (\<lambda>kk. bytes_u32 (col_bytes K N (pack_rows K N W)) (j div 4 * K + kk)) (j mod 4 * 2) k (part X W N j a k) =
    Inr (part X W N j a (k + 4))"
proof -
  have u: "j div 4 * 4 < N" using j by simp
  obtain g where g: "bytes_u32 (col_bytes K N (pack_rows K N W)) (j div 4 * K + k) = Inr (map g [0..<4])"
    "\<And>i s. i < 4 \<Longrightarrow> s < 4 \<Longrightarrow> dec_cmp (code_of (g i) (s * 2)) = W ! ((k + i) * N + (j div 4 * 4 + s))"
    using col_quad [OF ok k(1,2,3) u decoders(1)] by blast
  have "j div 4 * 4 + j mod 4 = j" by simp
  then show ?thesis
    by (intro mac4_part [where g = g]) (use ok j k rx4 g(1) g(2) [of _ "j mod 4"] decoders(1) in auto)
qed

lemma x_reads:
  assumes ok: "packed_ok X W K N" and k: "k + 4 \<le> K" "4 dvd k"
  shows "x_quad (read_at X) k = Inr (quad_of (map (\<lambda>i. X ! (k + i)) [0..<4]))"
    and "load_u32 X k = Inr (quad_of (map (\<lambda>i. X ! (k + i)) [0..<4]))"
  using x_quad_ok [of "read_at X" k X k] packed_x [OF ok] x_load_ok [OF ok k(2,1)] k by auto

text \<open>Sixteen rows are four times four.\<close>

lemma sixteen:
  assumes "\<And>q. q < 4 \<Longrightarrow> f (k + 4 * q) (F (k + 4 * q)) = Inr (F (k + 4 * q + 4))"
  shows "rfold (\<lambda>acc q. f (k + 4 * q) acc) (F k) [0..<4] = Inr (F (k + 16))"
proof -
  have "rfold (\<lambda>acc q. f (k + 4 * q) acc) (F (k + 4 * 0)) [0..<4] = Inr (F (k + 4 * 4))"
    by (rule rows_ok) (use assms in \<open>simp add: add.commute add.left_commute\<close>)
  then show ?thesis by simp
qed

lemma aligned_steps: "4 dvd (k :: nat) \<Longrightarrow> 4 dvd k + 4 * q"
  by (simp add: dvd_add)

section \<open>The kernels\<close>

lemma kpt_facts:
  assumes "K \<le> 2 ^ 23"
  shows "K \<le> 32 * ((K + 31) div 32)" "(K + 31) div 32 \<le> 2 ^ 18 + 16" "K \<le> 32 * kpt16 K" "kpt16 K \<le> 2 ^ 18 + 16" "4 dvd kpt16 K"
proof -
  show a: "K \<le> 32 * ((K + 31) div 32)" by presburger
  have b: "(K + 31) div 32 \<le> 2 ^ 18" using assms by simp
  then show "(K + 31) div 32 \<le> 2 ^ 18 + 16" by simp
  have "q \<le> (q + 15) div 16 * 16" "(q + 15) div 16 * 16 \<le> q + 15" for q :: nat by presburger+
  then have c: "(K + 31) div 32 \<le> kpt16 K" "kpt16 K \<le> (K + 31) div 32 + 15" unfolding kpt16_def by blast+
  then show "K \<le> 32 * kpt16 K" using a by simp
  show "kpt16 K \<le> 2 ^ 18 + 16" using b c by simp
  show "4 dvd kpt16 K" unfolding kpt16_def by (rule dvd_mult) simp
qed

lemma kpt_aligned: "128 dvd K \<Longrightarrow> 4 dvd (K + 31) div (32 :: nat)"
proof -
  assume "128 dvd K"
  then obtain q where "K = 128 * q" by (auto elim!: dvdE)
  then have "(K + 31) div 32 = 4 * q" by simp
  then show ?thesis by simp
qed

lemma mm_v8_warp_ok:
  assumes ok: "packed_ok X W K N" and K: "128 dvd K" and out: "length out = N" and n: "N \<le> n"
  shows "mm_v8_warp X (col_bytes K N (pack_rows K N W)) K N scale n out = Inr (packed_product X W K N scale)"
  unfolding mm_v8_warp_def packed_product_def Let_def stretch_simp
proof (rule launch_ok [OF out, where c = 1])
  fix w assume "w * 1 < N"
  then have w: "w < N" by simp
  have K4: "4 dvd K" using K by (rule dvd_trans [rotated]) simp
  let ?cols = "col_bytes K N (pack_rows K N W)" and ?kpt = "(K + 31) div 32"
  have "one_column (\<lambda>i. quad_loop (mac4 dec_cmp (x_quad (read_at X)) (\<lambda>kk. bytes_u32 ?cols (w div 4 * K + kk)) (w mod 4 * 2))
         (mac1 dec_cmp (read_at X) (\<lambda>kk. read_at ?cols (w div 4 * K + kk)) (w mod 4 * 2)) (min K (i * ?kpt + ?kpt)) (i * ?kpt) 0) scale w =
      Inr [(w, out_half scale (dot_col (map sint X) 0 W N K w))]"
  proof (rule one_column_ok [OF ok w, where kpt = ?kpt])
    fix i :: nat
    have al: "4 dvd i * ?kpt" using kpt_aligned [OF K] by simp
    have "quad_loop (mac4 dec_cmp (x_quad (read_at X)) (\<lambda>kk. bytes_u32 ?cols (w div 4 * K + kk)) (w mod 4 * 2))
         (mac1 dec_cmp (read_at X) (\<lambda>kk. read_at ?cols (w div 4 * K + kk)) (w mod 4 * 2)) (min K (i * ?kpt + ?kpt)) (i * ?kpt)
         (part X W N w (i * ?kpt) (i * ?kpt)) = Inr (part X W N w (i * ?kpt) (max (i * ?kpt) (min K (i * ?kpt + ?kpt))))"
      by (rule quad_loop_ok [OF al])
        (use column_four [OF ok w _ K4] column_one [OF ok w] x_reads(1) [OF ok] in auto)
    then show "quad_loop (mac4 dec_cmp (x_quad (read_at X)) (\<lambda>kk. bytes_u32 ?cols (w div 4 * K + kk)) (w mod 4 * 2))
         (mac1 dec_cmp (read_at X) (\<lambda>kk. read_at ?cols (w div 4 * K + kk)) (w mod 4 * 2)) (min K (i * ?kpt + ?kpt)) (i * ?kpt) 0 =
        Inr (part X W N w (i * ?kpt) (lane_end ?kpt K i))" by (simp add: lane_end_def)
  qed (use ok kpt_facts in \<open>auto simp: packed_ok_def\<close>)
  then show "(if N \<le> w then Inr [] else one_column (\<lambda>i. quad_loop (mac4 dec_cmp (x_quad (read_at X)) (\<lambda>kk. bytes_u32 ?cols (w div 4 * K + kk)) (w mod 4 * 2))
         (mac1 dec_cmp (read_at X) (\<lambda>kk. read_at ?cols (w div 4 * K + kk)) (w mod 4 * 2)) (min K (i * ?kpt + ?kpt)) (i * ?kpt) 0) scale w) =
      Inr (map (\<lambda>i. (w * 1 + i, out_half scale (dot_col (map sint X) 0 W N K (w * 1 + i)))) [0..<1])"
    using w by simp
qed (use n in simp_all)

lemma mm_v10_unroll_ok:
  assumes ok: "packed_ok X W K N" and K: "4 dvd K" and out: "length out = N" and n: "N \<le> n"
  shows "mm_v10_unroll X (col_bytes K N (pack_rows K N W)) K N scale n out = Inr (packed_product X W K N scale)"
  unfolding mm_v10_unroll_def packed_product_def Let_def stretch_simp
proof (rule launch_ok [OF out, where c = 1])
  fix w assume "w * 1 < N"
  then have w: "w < N" by simp
  let ?cols = "col_bytes K N (pack_rows K N W)" and ?kpt = "kpt16 K"
  let ?quad = "mac4 dec_cmp (load_u32 X) (\<lambda>kk. bytes_u32 ?cols (w div 4 * K + kk)) (w mod 4 * 2)"
  let ?one = "mac1 dec_cmp (read_at X) (\<lambda>kk. read_at ?cols (w div 4 * K + kk)) (w mod 4 * 2)"
  have "one_column (\<lambda>i. deep_loop (\<lambda>kk acc. rfold (\<lambda>acc qi. ?quad (kk + 4 * qi) acc) acc [0..<4]) ?quad ?one
         (min K (i * ?kpt + ?kpt)) (i * ?kpt) 0) scale w = Inr [(w, out_half scale (dot_col (map sint X) 0 W N K w))]"
  proof (rule one_column_ok [OF ok w, where kpt = ?kpt])
    fix i :: nat
    let ?F = "part X W N w (i * ?kpt)"
    have al: "4 dvd i * ?kpt" using kpt_facts(5) [of K] ok by (simp add: packed_ok_def)
    have quad: "?quad k (?F k) = Inr (?F (k + 4))" if "4 dvd k" "i * ?kpt \<le> k" "k + 4 \<le> K" for k
      by (rule column_four [OF ok w]) (use that K x_reads(2) [OF ok] in auto)
    have "deep_loop (\<lambda>kk acc. rfold (\<lambda>acc qi. ?quad (kk + 4 * qi) acc) acc [0..<4]) ?quad ?one
         (min K (i * ?kpt + ?kpt)) (i * ?kpt) (?F (i * ?kpt)) = Inr (?F (max (i * ?kpt) (min K (i * ?kpt + ?kpt))))"
    proof (rule deep_loop_ok [OF al])
      fix k assume k: "4 dvd k" "i * ?kpt \<le> k" "k + 16 \<le> min K (i * ?kpt + ?kpt)"
      show "rfold (\<lambda>acc qi. ?quad (k + 4 * qi) acc) (?F k) [0..<4] = Inr (?F (k + 16))"
        by (rule sixteen, rule quad) (use k in \<open>auto simp: aligned_steps\<close>)
    qed (use quad column_one [OF ok w] in auto)
    then show "deep_loop (\<lambda>kk acc. rfold (\<lambda>acc qi. ?quad (kk + 4 * qi) acc) acc [0..<4]) ?quad ?one
         (min K (i * ?kpt + ?kpt)) (i * ?kpt) 0 = Inr (part X W N w (i * ?kpt) (lane_end ?kpt K i))" by (simp add: lane_end_def)
  qed (use ok kpt_facts in \<open>auto simp: packed_ok_def\<close>)
  then show "(if N \<le> w then Inr [] else one_column (\<lambda>i. deep_loop (\<lambda>kk acc. rfold (\<lambda>acc qi. ?quad (kk + 4 * qi) acc) acc [0..<4]) ?quad ?one
         (min K (i * ?kpt + ?kpt)) (i * ?kpt) 0) scale w) =
      Inr (map (\<lambda>i. (w * 1 + i, out_half scale (dot_col (map sint X) 0 W N K (w * 1 + i)))) [0..<1])"
    using w by simp
qed (use n in simp_all)

lemma warp4_lane:
  assumes ok: "packed_ok X W K N" and u: "u * 4 < N" and K: "4 dvd K" and dec: "is_decoder dec" and al: "4 dvd kpt"
  shows "quad_loop (macs4 dec (load_u32 X) (\<lambda>kk. bytes_u32 (col_bytes K N (pack_rows K N W)) (u * K + kk)))
      (macs1 4 dec (read_at X) (byte_codes (col_bytes K N (pack_rows K N W)) (\<lambda>kk. u * K + kk))) (min K (i * kpt + kpt)) (i * kpt) (replicate 4 0) =
    Inr (group_parts X W N u (i * kpt) (lane_end kpt K i))"
proof -
  let ?cols = "col_bytes K N (pack_rows K N W)" and ?F = "group_parts X W N u (i * kpt)"
  have "quad_loop (macs4 dec (load_u32 X) (\<lambda>kk. bytes_u32 ?cols (u * K + kk)))
      (macs1 4 dec (read_at X) (byte_codes ?cols (\<lambda>kk. u * K + kk))) (min K (i * kpt + kpt)) (i * kpt) (?F (i * kpt)) =
    Inr (?F (max (i * kpt) (min K (i * kpt + kpt))))"
  proof (rule quad_loop_ok)
    show "4 dvd i * kpt" using al by simp
    show "macs4 dec (load_u32 X) (\<lambda>kk. bytes_u32 ?cols (u * K + kk)) k (?F k) = Inr (?F (k + 4))"
      if "4 dvd k" "i * kpt \<le> k" "k + 4 \<le> min K (i * kpt + kpt)" for k
      by (rule group_four [OF ok u dec]) (use that K x_reads(2) [OF ok] in auto)
    show "macs1 4 dec (read_at X) (byte_codes ?cols (\<lambda>kk. u * K + kk)) k (?F k) = Inr (?F (Suc k))"
      if "i * kpt \<le> k" "k < min K (i * kpt + kpt)" for k
      by (rule group_one [OF ok u dec]) (use that packed_x [OF ok] in auto)
  qed
  then show ?thesis by (simp add: lane_end_def group_zero)
qed

lemma mm_warp4_ok:
  assumes ok: "packed_ok X W K N" and K: "128 dvd K" and dec: "is_decoder dec" and out: "length out = N" and n: "N \<le> n * 4"
  shows "mm_warp4 dec X (col_bytes K N (pack_rows K N W)) K N scale n out = Inr (packed_product X W K N scale)"
  unfolding mm_warp4_def packed_product_def Let_def stretch_simp
proof (rule launch_ok [OF out, where c = 4])
  show "4 dvd N" using ok by (simp add: packed_ok_def)
  have K4: "4 dvd K" using K by (rule dvd_trans [rotated]) simp
  fix w assume w: "w * 4 < N"
  let ?cols = "col_bytes K N (pack_rows K N W)" and ?kpt = "(K + 31) div 32"
  have "four_columns (\<lambda>i. quad_loop (macs4 dec (load_u32 X) (\<lambda>kk. bytes_u32 ?cols (w * 4 div 4 * K + kk)))
       (macs1 4 dec (read_at X) (byte_codes ?cols (\<lambda>kk. w * 4 div 4 * K + kk))) (min K (i * ?kpt + ?kpt)) (i * ?kpt) (replicate 4 0)) scale (w * 4) =
      Inr (map (\<lambda>i. (w * 4 + i, out_half scale (dot_col (map sint X) 0 W N K (w * 4 + i)))) [0..<4])"
    by (rule four_columns_ok [OF ok w, where kpt = ?kpt])
      (use ok kpt_facts warp4_lane [OF ok w K4 dec kpt_aligned [OF K]] in \<open>auto simp: packed_ok_def\<close>)
  then show "(if N \<le> w * 4 then Inr [] else four_columns (\<lambda>i. quad_loop (macs4 dec (load_u32 X) (\<lambda>kk. bytes_u32 ?cols (w * 4 div 4 * K + kk)))
       (macs1 4 dec (read_at X) (byte_codes ?cols (\<lambda>kk. w * 4 div 4 * K + kk))) (min K (i * ?kpt + ?kpt)) (i * ?kpt) (replicate 4 0)) scale (w * 4)) =
      Inr (map (\<lambda>i. (w * 4 + i, out_half scale (dot_col (map sint X) 0 W N K (w * 4 + i)))) [0..<4])"
    using w by simp
qed (use n in simp_all)

lemma mm_v13_unrolled_ok:
  assumes ok: "packed_ok X W K N" and K: "4 dvd K" and out: "length out = N" and n: "N \<le> n * 4"
  shows "mm_v13_unrolled X (col_bytes K N (pack_rows K N W)) K N scale n out = Inr (packed_product X W K N scale)"
  unfolding mm_v13_unrolled_def packed_product_def Let_def stretch_simp
proof (rule launch_ok [OF out, where c = 4])
  show "4 dvd N" using ok by (simp add: packed_ok_def)
  fix w assume w: "w * 4 < N"
  let ?cols = "col_bytes K N (pack_rows K N W)" and ?kpt = "kpt16 K"
  let ?quad = "macs4 dec_trit (load_u32 X) (\<lambda>kk. bytes_u32 ?cols (w * 4 div 4 * K + kk))"
  let ?one = "macs1 4 dec_trit (read_at X) (byte_codes ?cols (\<lambda>kk. w * 4 div 4 * K + kk))"
  have "four_columns (\<lambda>i. deep_loop (\<lambda>kk accs. rfold (\<lambda>accs qi. ?quad (kk + 4 * qi) accs) accs [0..<4]) ?quad ?one
       (min K (i * ?kpt + ?kpt)) (i * ?kpt) (replicate 4 0)) scale (w * 4) =
      Inr (map (\<lambda>i. (w * 4 + i, out_half scale (dot_col (map sint X) 0 W N K (w * 4 + i)))) [0..<4])"
  proof (rule four_columns_ok [OF ok w, where kpt = ?kpt])
    fix i :: nat
    let ?F = "group_parts X W N w (i * ?kpt)"
    have al: "4 dvd i * ?kpt" using kpt_facts(5) [of K] ok by (simp add: packed_ok_def)
    have quad: "?quad k (?F k) = Inr (?F (k + 4))" if "4 dvd k" "i * ?kpt \<le> k" "k + 4 \<le> K" for k
      by (rule group_four [OF ok w decoders(2)]) (use that K x_reads(2) [OF ok] in auto)
    have "deep_loop (\<lambda>kk accs. rfold (\<lambda>accs qi. ?quad (kk + 4 * qi) accs) accs [0..<4]) ?quad ?one
         (min K (i * ?kpt + ?kpt)) (i * ?kpt) (?F (i * ?kpt)) = Inr (?F (max (i * ?kpt) (min K (i * ?kpt + ?kpt))))"
    proof (rule deep_loop_ok [OF al])
      show "rfold (\<lambda>accs qi. ?quad (k + 4 * qi) accs) (?F k) [0..<4] = Inr (?F (k + 16))"
        if "4 dvd k" "i * ?kpt \<le> k" "k + 16 \<le> min K (i * ?kpt + ?kpt)" for k
        by (rule sixteen, rule quad) (use that in \<open>auto simp: aligned_steps\<close>)
      show "?one k (?F k) = Inr (?F (Suc k))" if "i * ?kpt \<le> k" "k < min K (i * ?kpt + ?kpt)" for k
        by (rule group_one [OF ok w decoders(2)]) (use that packed_x [OF ok] in auto)
    qed (use quad in auto)
    then show "deep_loop (\<lambda>kk accs. rfold (\<lambda>accs qi. ?quad (kk + 4 * qi) accs) accs [0..<4]) ?quad ?one
         (min K (i * ?kpt + ?kpt)) (i * ?kpt) (replicate 4 0) = Inr (group_parts X W N w (i * ?kpt) (lane_end ?kpt K i))"
      by (simp add: lane_end_def group_zero)
  qed (use ok kpt_facts in \<open>auto simp: packed_ok_def\<close>)
  then show "(if N \<le> w * 4 then Inr [] else four_columns (\<lambda>i. deep_loop (\<lambda>kk accs. rfold (\<lambda>accs qi. ?quad (kk + 4 * qi) accs) accs [0..<4]) ?quad ?one
       (min K (i * ?kpt + ?kpt)) (i * ?kpt) (replicate 4 0)) scale (w * 4)) =
      Inr (map (\<lambda>i. (w * 4 + i, out_half scale (dot_col (map sint X) 0 W N K (w * 4 + i)))) [0..<4])"
    using w by simp
qed (use n in simp_all)

end
