(* ===== verification/TerCudaProps.thy ===== *)
theory TerCudaProps
  imports TerWarp
begin

text \<open>
  The properties of the packed kernels: all versions compute one product on launches that fill
  their blocks; a block that is only partly filled reads shared memory that nobody wrote; lanes
  whose stretches are not aligned fault.
\<close>

section \<open>Full blocks\<close>

lemma full_block_covers:
  assumes c: "0 < c" and bd: "0 < bd" "bd * c dvd N" and b: "b < N div (bd * c)"
  shows "loaders_cover KT bd (running bd c N b) K"
proof -
  obtain q where q: "N = bd * c * q" using bd(2) by (auto elim!: dvdE)
  have bq: "b < q" using b q c bd(1) by simp
  have "(b * bd + tid) * c < N" if "tid < bd" for tid
  proof -
    have "b * bd + tid < q * bd" by (rule entry_in) (use bq that in auto)
    then have "(b * bd + tid) * c < q * bd * c" using c by (intro mult_less_mono1)
    then show ?thesis by (simp add: q mult.commute mult.left_commute)
  qed
  then have "running bd c N b = [0..<bd]" by (simp add: running_def)
  then show ?thesis using bd(1) by (simp add: loaders_cover_def)
qed

lemma full_launch: "0 < c \<Longrightarrow> 0 < bd \<Longrightarrow> bd * c dvd N \<Longrightarrow> N div (bd * c) * (bd * c) = (N :: nat)"
  by simp

definition every_version :: "(flt list res \<Rightarrow> bool) \<Rightarrow> nat \<Rightarrow> 8 word list \<Rightarrow> int list \<Rightarrow> nat \<Rightarrow> nat \<Rightarrow> flt \<Rightarrow> flt list \<Rightarrow> bool" where
  "every_version P bd X W K N scale out =
     (let rows = pack_rows K N W; cols = col_bytes K N rows in
        P (mm_packed_trit_v4 X rows K N scale (N div 4) out) \<and>
        P (mm_packed_trit_v16 X rows K N scale (N div 16) out) \<and>
        P (mm_packed_v3_tiled bd X rows K N scale (N div (bd * 4)) out) \<and>
        P (mm_packed_v4_wide bd X rows K N scale (N div bd) out) \<and>
        P (mm_packed_v5_fat bd X rows K N scale (N div (bd * 16)) out) \<and>
        P (mm_v6_dp4a bd X rows K N scale (N div bd) out) \<and>
        P (mm_v7_colmaj bd X cols K N scale (N div bd) out) \<and>
        P (mm_v8_warp X cols K N scale N out) \<and>
        P (mm_v9_multi bd X cols K N scale (N div (bd * 4)) out) \<and>
        P (mm_v10_unroll X cols K N scale N out) \<and>
        P (mm_v11_warp4 X cols K N scale (N div 4) out) \<and>
        P (mm_v12_branchless X cols K N scale (N div 4) out) \<and>
        P (mm_v13_unrolled X cols K N scale (N div 4) out))"

text \<open>
  C2: The thirteen versions of the packed product (scalar, 32-bit loads, shared-memory tiles, four
  rows by dp4a, column-major bytes, one warp for a column with a shuffle reduction, four columns for
  a warp, unrolled, branch-free decoding) return the same half-precision vector, the rounded
  scaled integer products of the columns, when K is a multiple of 128 and the blocks are full.
\<close>

theorem packed_kernels_agree:
  assumes "packed_ok X W K N" and "128 dvd K" and "0 < bd" and "bd * 16 dvd N" and "length out = N"
  shows "every_version (\<lambda>r. r = Inr (packed_product X W K N scale)) bd X W K N scale out"
proof -
  have d4: "bd * 4 dvd N" and d1: "bd * 1 dvd N" and N16: "16 dvd N"
    using assms(4) by (auto elim: dvd_trans [rotated] dvd_mult_right)
  have K4: "4 dvd K" using assms(2) by (rule dvd_trans [rotated]) simp
  have N4: "4 dvd N" using assms(1) by (simp add: packed_ok_def)
  note ok = assms(1) and K = assms(2) and out = assms(5)
  note c1 = full_block_covers [OF zero_less_one assms(3) d1, unfolded mult_1_right]
    and c4 = full_block_covers [OF zero_less_numeral assms(3) d4]
    and c16 = full_block_covers [OF zero_less_numeral assms(3) assms(4)]
  have n1: "N \<le> N div bd * bd" using d1 by simp
  have n4: "N \<le> N div (bd * 4) * (bd * 4)" using d4 by simp
  have n16: "N \<le> N div (bd * 16) * (bd * 16)" using assms(4) by simp
  have m4: "N \<le> N div 4 * 4" and m16: "N \<le> N div 16 * 16" using N4 N16 by simp_all
  show ?thesis
    unfolding every_version_def Let_def mm_v11_warp4_def mm_v12_branchless_def
    by (intro conjI mm_packed_trit_v4_ok [OF ok out m4] mm_packed_trit_v16_ok [OF ok N16 out m16]
        mm_packed_v3_tiled_ok [OF ok out n4 c4] mm_packed_v4_wide_ok [OF ok out n1 c1]
        mm_packed_v5_fat_ok [OF ok N16 out n16 c16] mm_v6_dp4a_ok [OF ok out n1 c1]
        mm_v7_colmaj_ok [OF ok K4 out n1 c1] mm_v8_warp_ok [OF ok K out] mm_v9_multi_ok [OF ok K4 out n4 c4]
        mm_v10_unroll_ok [OF ok K4 out] mm_warp4_ok [OF ok K _ out m4] mm_v13_unrolled_ok [OF ok K4 out m4] decoders)
      simp_all
qed

lemma trits_mod3: "int (i mod 3) - 1 = - 1 \<or> int (i mod 3) - 1 = 0 \<or> int (i mod 3) - 1 = 1"
  by presburger

theorem packed_kernels_agree_witness:
  "let X = map (\<lambda>k. word_of_int (int k - 60)) [0..<128]; W = map (\<lambda>i. int (i mod 3) - 1) [0..<2048];
       scale = Num False (1 / 4) in
     every_version (\<lambda>r. r = Inr (packed_product X W 128 16 scale)) 1 X W 128 16 scale (replicate 16 fzero)"
  unfolding Let_def
proof (rule packed_kernels_agree)
  have "\<forall>i < 2048. map (\<lambda>i. int (i mod 3) - 1) [0..<2048] ! i = int (i mod 3) - 1" by simp
  then show "packed_ok (map (\<lambda>k. word_of_int (int k - 60)) [0..<128]) (map (\<lambda>i. int (i mod 3) - 1) [0..<2048]) 128 16"
    using trits_mod3 by (simp add: packed_ok_def)
qed simp_all

section \<open>Partial blocks\<close>

lemma rfold_error: "x \<in> set xs \<Longrightarrow> (\<And>a. \<exists>e. f a x = Inl e) \<Longrightarrow> \<exists>e. rfold f acc xs = Inl e"
proof (induction xs arbitrary: acc)
  case (Cons y ys)
  show ?case
  proof (cases "f acc y")
    case (Inr b)
    then have "x \<noteq> y" using Cons.prems(2) [of acc] by auto
    then show ?thesis using Inr Cons.IH [of b] Cons.prems by simp
  qed simp
qed simp

lemma rmap_error: "x \<in> set xs \<Longrightarrow> f x = Inl e \<Longrightarrow> \<exists>e. rmap f xs = Inl e"
proof (induction xs)
  case (Cons y ys)
  then show ?case by (cases "f y") auto
qed simp

lemma launch_error:
  assumes "u < n" and "body u = Inl e"
  shows "\<exists>e. launch n body out = Inl e"
  unfolding launch_def by (rule rfold_error [where x = u]) (use assms in auto)

lemma stride_loop_error:
  assumes "0 < n" and "kk \<le> k" and "n dvd k - kk" and "k + n \<le> kend" and "\<And>a. \<exists>e. f k a = Inl e"
  shows "\<exists>e. stride_loop n f kend kk acc = Inl e"
  using assms
proof (induction n f kend kk acc rule: stride_loop.induct)
  case (1 n f kend kk acc)
  show ?case
  proof (cases "kk = k")
    case True
    then obtain e where "f kk acc = Inl e" using 1(6) by blast
    then show ?thesis using 1(2,5) True by (simp add: stride_loop.simps)
  next
    case False
    then have lt: "kk < k" using 1(3) by simp
    then have "n \<le> k - kk" using 1(4) by (intro dvd_imp_le) auto
    then have le: "kk + n \<le> k" using lt by simp
    have go: "\<not> (n = 0 \<or> kk + n > kend)" using 1(2,5) le by simp
    have dv: "n dvd k - (kk + n)" using 1(4) le by (metis diff_diff_left dvd_diff_nat dvd_refl)
    show ?thesis
    proof (cases "f kk acc")
      case (Inl e)
      then show ?thesis using go by (simp add: stride_loop.simps)
    next
      case (Inr a)
      then show ?thesis using 1(1) [OF go] 1(2,5,6) go le dv by (simp add: stride_loop.simps)
    qed
  qed
qed

lemma stride_loop_stops:
  assumes "stride_loop n f kend kk acc = Inr (k', a)" and "0 < n" and "kk \<le> kend"
  shows "kk \<le> k' \<and> k' \<le> kend \<and> n dvd k' - kk"
  using assms
proof (induction n f kend kk acc rule: stride_loop.induct)
  case (1 n f kend kk acc)
  show ?case
  proof (cases "kk + n > kend")
    case True
    then show ?thesis using 1(2,4) by (auto simp: stride_loop.simps)
  next
    case False
    then obtain b where b: "f kk acc = Inr b" "stride_loop n f kend (kk + n) b = Inr (k', a)"
      using 1(2,3) by (auto simp: stride_loop.simps [of n f kend kk acc])
    have h: "kk + n \<le> k' \<and> k' \<le> kend \<and> n dvd k' - (kk + n)" using 1(1) [of b] False 1(3) b by simp
    then have "n dvd k' - (kk + n) + n" by (intro dvd_add) simp_all
    moreover have "k' - (kk + n) + n = k' - kk" using h by simp
    ultimately show ?thesis using h by simp
  qed
qed

lemma quad_loop_error:
  assumes j: "j < m" and f4: "\<And>kk a. kk \<le> j \<Longrightarrow> j < kk + 4 \<Longrightarrow> \<exists>e. f4 kk a = Inl e" and f1: "\<And>a. \<exists>e. f1 j a = Inl e"
  shows "\<exists>e. quad_loop f4 f1 m 0 acc = Inl e"
proof (cases "stride_loop 4 f4 m 0 acc")
  case (Inl e)
  then show ?thesis by (simp add: quad_loop_def)
next
  case (Inr p)
  obtain kk a where p: "p = (kk, a)" by (cases p)
  have few: "m < j div 4 * 4 + 4"
  proof (rule ccontr)
    assume "\<not> m < j div 4 * 4 + 4"
    then have "\<exists>e. stride_loop 4 f4 m 0 acc = Inl e"
      by (intro stride_loop_error [where k = "j div 4 * 4"] f4) (auto simp: dividend_less_div_times)
    then show False using Inr by simp
  qed
  have "kk \<le> m \<and> 4 dvd kk" using stride_loop_stops [of 4 f4 m 0 acc kk a] Inr p by simp
  then have "kk \<le> j" using few by presburger
  then have "\<exists>e. stride_loop 1 f1 m kk a = Inl e"
    by (intro stride_loop_error [where k = j] f1) (use j in simp_all)
  then show ?thesis using Inr p by (auto simp: quad_loop_def)
qed

text \<open>The loops read every cell of the tile.\<close>

lemma macs1_reads: "rx k = Inl e \<Longrightarrow> \<exists>e. macs1 n dec rx rt k accs = Inl e"
  and mac1_reads: "rx k = Inl e \<Longrightarrow> \<exists>e. mac1 dec rx rw sb k acc = Inl e"
  by (simp_all add: macs1_def mac1_def)

lemma x_quad_reads:
  assumes "rx j = Inl e" and "kk \<le> j" and "j < kk + 4"
  shows "\<exists>e. x_quad rx kk = Inl e"
proof -
  have "\<exists>e. rmap rx [kk..<kk + 4] = Inl e" by (rule rmap_error [of j]) (use assms in auto)
  then show ?thesis by (auto simp: x_quad_def)
qed

lemma mac4_reads: "x_quad rx kk = Inl e \<Longrightarrow> \<exists>e. mac4 dec (x_quad rx) rw4 sb kk acc = Inl e"
  and macs4_reads: "x_quad rx kk = Inl e \<Longrightarrow> \<exists>e. macs4 dec (x_quad rx) rw4 kk accs = Inl e"
  by (cases "rw4 kk"; simp add: mac4_def macs4_def)+

text \<open>The last block is partial and its running threads are fewer than the cells of a tile.\<close>

definition sparse_block :: "nat \<Rightarrow> nat \<Rightarrow> nat \<Rightarrow> nat \<Rightarrow> bool" where
  "sparse_block bd c N K \<longleftrightarrow> (let r = N div c mod bd in 0 < r \<and> r < min bd (min 256 K))"

text \<open>\<open>(units + bd - 1) / bd\<close> blocks.\<close>

definition blocks_for :: "nat \<Rightarrow> nat \<Rightarrow> nat \<Rightarrow> nat" where
  "blocks_for bd c N = (N div c + bd - 1) div bd"

lemma sparse_block_fails:
  assumes sp: "sparse_block bd c N K" and c: "0 < c" "c dvd N" and KT: "256 \<le> KT" and X: "K \<le> length X"
    and reads: "\<And>rx b tid a e j. rx j = Inl e \<Longrightarrow> j < min KT K \<Longrightarrow> \<exists>e. body b rx 0 (min KT K) tid a = Inl e"
  shows "isl (launch (blocks_for bd c N) (\<lambda>b. rbind (tiled_block KT bd (running bd c N b) X K (body b) a0) (\<lambda>accs. Inr (fin b accs))) out)"
proof -
  define r b where "r = N div c mod bd" and "b = N div c div bd"
  have r: "0 < r" "r < bd" "r < 256" "r < K" using sp by (auto simp: sparse_block_def r_def Let_def)
  have N: "N div c = b * bd + r" by (simp add: r_def b_def)
  have run: "running bd c N b = [0..<r]" using r(2) N by (simp add: running_upt [OF c])
  have "\<exists>e. tiled_block KT bd (running bd c N b) X K (body b) a0 = Inl e"
  proof (rule tiled_block_gap [OF X, where j = r])
    show "\<exists>e. body b rx 0 (min KT K) tid a = Inl e" if "rx r = Inl e" for rx tid a e
      using that r KT by (intro reads [where j = r and rx = rx]) auto
  qed (use r KT run in auto)
  then obtain e where e: "tiled_block KT bd (running bd c N b) X K (body b) a0 = Inl e" by blast
  have "b < blocks_for bd c N"
  proof -
    have "b * bd + bd \<le> N div c + bd - 1" using N r(1) by simp
    then have "Suc b * bd div bd \<le> (N div c + bd - 1) div bd" by (intro div_le_mono) simp
    then show ?thesis using r(2) by (simp add: blocks_for_def)
  qed
  then have "\<exists>e. launch (blocks_for bd c N) (\<lambda>b. rbind (tiled_block KT bd (running bd c N b) X K (body b) a0) (\<lambda>accs. Inr (fin b accs))) out = Inl e"
    by (rule launch_error) (simp add: e)
  then show ?thesis by auto
qed

text \<open>
  C28: The threads of a block that own no column return before the cooperative load, so a last block
  with fewer running threads than the block and the tile have leaves cells of the tile unwritten,
  and the kernels read them: the tiled versions fail on such a launch.
\<close>

theorem partial_block_fails:
  assumes "K \<le> length X" and "16 dvd N"
  shows "(sparse_block bd 1 N K \<longrightarrow>
           isl (mm_packed_v4_wide bd X W K N scale (blocks_for bd 1 N) out) \<and>
           isl (mm_v6_dp4a bd X W K N scale (blocks_for bd 1 N) out) \<and>
           isl (mm_v7_colmaj bd X W K N scale (blocks_for bd 1 N) out)) \<and>
         (sparse_block bd 4 N K \<longrightarrow>
           isl (mm_packed_v3_tiled bd X W K N scale (blocks_for bd 4 N) out) \<and>
           isl (mm_v9_multi bd X W K N scale (blocks_for bd 4 N) out)) \<and>
         (sparse_block bd 16 N K \<longrightarrow> isl (mm_packed_v5_fat bd X W K N scale (blocks_for bd 16 N) out))"
proof -
  have d: "1 dvd N" "4 dvd N" using assms(2) by (auto elim: dvd_trans [rotated])
  note fails = sparse_block_fails [OF _ _ _ _ assms(1)]
  show ?thesis
    unfolding mm_packed_v4_wide_def mm_v6_dp4a_def mm_v7_colmaj_def mm_packed_v3_tiled_def mm_v9_multi_def mm_packed_v5_fat_def Let_def
    by (intro conjI impI; rule fails; (rule rfold_error quad_loop_error)?)
      (use assms(2) d in \<open>auto intro: macs1_reads mac1_reads mac4_reads macs4_reads dest: x_quad_reads\<close>)
qed

theorem partial_block_fails_witness:
  "isl (mm_packed_v5_fat 128 (replicate 2048 1) (replicate 262144 1) 2048 512 (Num False 1) 1 (replicate 512 fzero))"
proof -
  have "sparse_block 128 16 512 2048" "blocks_for 128 16 512 = 1"
    by (simp_all add: sparse_block_def blocks_for_def)
  then show ?thesis
    using partial_block_fails [of 2048 "replicate 2048 1" 512 128 "replicate 262144 1" "Num False 1" "replicate 512 fzero"] by simp
qed

section \<open>Misaligned lanes\<close>

lemma misaligned: "\<not> 4 dvd i \<Longrightarrow> isl (load_u32 W i)"
  by (auto simp: load_u32_def dvd_eq_mod_eq_0)

lemma misaligned_bytes: "\<not> 4 dvd i \<Longrightarrow> \<exists>e. bytes_u32 W i = Inl e"
  using misaligned [of i W] by (auto simp: bytes_u32_def isl_def)

lemma rmap_fails: "x \<in> set xs \<Longrightarrow> isl (f x) \<Longrightarrow> isl (rmap f xs)"
  using rmap_error [of x xs f] by (auto simp: isl_def)

lemma rfold_fails: "x \<in> set xs \<Longrightarrow> (\<And>a. isl (f a x)) \<Longrightarrow> isl (rfold f acc xs)"
  using rfold_error [of x xs f acc] by (auto simp: isl_def)

lemma rbind_fails: "isl m \<Longrightarrow> isl (rbind m f)"
  by (auto simp: isl_def)

lemma launch_fails: "u < n \<Longrightarrow> isl (body u) \<Longrightarrow> isl (launch n body out)"
  using launch_error [of u n body] by (auto simp: isl_def)

lemma lane_fails: "i < 32 \<Longrightarrow> isl (f i) \<Longrightarrow> isl (one_column f scale j)"
  and lanes_fail: "i < 32 \<Longrightarrow> isl (g i) \<Longrightarrow> isl (four_columns g scale j)"
  unfolding one_column_def four_columns_def by (rule rbind_fails, rule rmap_fails [of i]; simp)+

lemma quad_loop_first: "kk + 4 \<le> kend \<Longrightarrow> f4 kk acc = Inl e \<Longrightarrow> isl (quad_loop f4 f1 kend kk acc)"
  by (simp add: quad_loop_def stride_loop.simps)

text \<open>
  C39: The warp versions without the rounded stretch (8, 11 and 12) split the rows into stretches of
  (K + 31) / 32: when that is not a multiple of four, the second lane loads a word from an address
  that is not aligned and the launch fails, for every K from 97 on and whatever the data.
\<close>

theorem misaligned_lanes_fail:
  assumes "97 \<le> K" and "\<not> 4 dvd (K + 31) div 32" and "0 < N" and "0 < n"
  shows "isl (mm_v8_warp X W K N scale n out) \<and> isl (mm_v11_warp4 X W K N scale n out) \<and>
    isl (mm_v12_branchless X W K N scale n out)"
proof -
  let ?kpt = "(K + 31) div 32"
  have room: "?kpt + 4 \<le> min K (?kpt + ?kpt)" using assms(1) by (auto simp: min_def)
  obtain e where e: "bytes_u32 W ?kpt = Inl e" using misaligned_bytes [OF assms(2)] by blast
  have one: "isl (quad_loop (mac4 dec_cmp rx (\<lambda>kk. bytes_u32 W kk) sb) f1 (min K (?kpt + ?kpt)) ?kpt acc)" for rx sb f1 acc
    by (rule quad_loop_first [OF room]) (simp add: mac4_def e)
  have four: "isl (quad_loop (macs4 dec rx (\<lambda>kk. bytes_u32 W kk)) f1 (min K (?kpt + ?kpt)) ?kpt acc)" for dec rx f1 acc
    by (rule quad_loop_first [OF room]) (simp add: macs4_def e)
  have warp4: "isl (mm_warp4 dec X W K N scale n out)" for dec
    unfolding mm_warp4_def using assms(3)
    by (intro launch_fails [OF assms(4)]) (auto simp: stretch_def intro!: lanes_fail [of 1] four)
  have "isl (mm_v8_warp X W K N scale n out)"
    unfolding mm_v8_warp_def using assms(3)
    by (intro launch_fails [OF assms(4)]) (auto simp: stretch_def intro!: lane_fails [of 1] one)
  then show ?thesis using warp4 by (simp add: mm_v11_warp4_def mm_v12_branchless_def)
qed

theorem misaligned_lanes_fail_witness:
  "isl (mm_v11_warp4 (replicate 160 1) (replicate 160 1) 160 4 (Num False 1) 1 (replicate 4 fzero))"
proof -
  have "\<not> 4 dvd (160 + 31) div (32 :: nat)" by simp
  then show ?thesis
    using misaligned_lanes_fail [of 160 4 1 "replicate 160 1" "replicate 160 1" "Num False 1" "replicate 4 fzero"] by simp
qed

end
