(* ===== verification/TerVariants.thy ===== *)
theory TerVariants
  imports TerWarp
begin

text \<open>
  Variants of the packed product: conditional additions in the place of products
  (\<open>cuda/ter_cuda_bitnet_addonly.cu\<close>), unpacking by a look-up table
  (\<open>ter_cuda_forward_packed_v13_lut.cu\<close>) and activations staged in shared memory by asynchronous
  copies (\<open>ter_cuda_forward_packed_v13_cpasync.cu\<close>). Each computes the product of version 11.
\<close>

section \<open>Additions only\<close>

definition add_only :: "int \<Rightarrow> int \<Rightarrow> int \<Rightarrow> int res" where
  "add_only t x acc = (if t = 1 then add_i32 acc x else if t = 2 then add_i32 acc (- x) else Inr acc)"

definition addonly4 :: "(nat \<Rightarrow> 32 word res) \<Rightarrow> (nat \<Rightarrow> 8 word list res) \<Rightarrow> nat \<Rightarrow> int list \<Rightarrow> int list res" where
  "addonly4 rx4 rw4 kk accs =
     rbind (rw4 kk) (\<lambda>bs. rbind (rx4 kk) (\<lambda>x.
       rmap (\<lambda>sub. rfold (\<lambda>a i. add_only (code_of (bs ! i) (sub * 2)) (sint (byte_of x i)) a) (accs ! sub) [0..<4]) [0..<4]))"

definition addonly1 :: "(nat \<Rightarrow> 8 word res) \<Rightarrow> (nat \<Rightarrow> 8 word res) \<Rightarrow> nat \<Rightarrow> int list \<Rightarrow> int list res" where
  "addonly1 rx rw kk accs =
     rbind (rx kk) (\<lambda>x. if sint x = 0 then Inr accs
       else rbind (rw kk) (\<lambda>b. rmap (\<lambda>sub. add_only (code_of b (sub * 2)) (sint x) (accs ! sub)) [0..<4]))"

definition mm_bitnet_addonly :: "8 word list \<Rightarrow> 8 word list \<Rightarrow> nat \<Rightarrow> nat \<Rightarrow> flt \<Rightarrow> nat \<Rightarrow> flt list \<Rightarrow> flt list res" where
  "mm_bitnet_addonly X W K N scale n out =
     launch n (\<lambda>w. let j_base = w * 4 in if j_base \<ge> N then Inr [] else
       four_columns (\<lambda>i. let (kstart, kend) = stretch ((K + 31) div 32) K i; Wc = j_base div 4 * K in
         quad_loop (addonly4 (load_u32 X) (\<lambda>kk. bytes_u32 W (Wc + kk)))
           (addonly1 (read_at X) (\<lambda>kk. read_at W (Wc + kk))) kend kstart (replicate 4 0)) scale j_base) out"

section \<open>A table of unpacked bytes\<close>

definition kUnpackLUT :: "32 word list" where
  "kUnpackLUT = map (\<lambda>b. quad_of (map (\<lambda>s. word_of_int (dec_cmp (code_of (of_nat b) (s * 2)))) [0..<4])) [0..<256]"

definition lut_byte :: "8 word \<Rightarrow> nat \<Rightarrow> 8 word" where
  "lut_byte b sub = byte_of (kUnpackLUT ! unat b) sub"

definition lut4 :: "(nat \<Rightarrow> 32 word res) \<Rightarrow> (nat \<Rightarrow> 8 word list res) \<Rightarrow> nat \<Rightarrow> int list \<Rightarrow> int list res" where
  "lut4 rx4 rw4 kk accs =
     rbind (rw4 kk) (\<lambda>bs. rbind (rx4 kk) (\<lambda>x.
       Inr (map (\<lambda>sub. dp4a x (quad_of (map (\<lambda>b. lut_byte b sub) bs)) (accs ! sub)) [0..<4])))"

definition lut_codes :: "8 word list \<Rightarrow> (nat \<Rightarrow> nat) \<Rightarrow> nat \<Rightarrow> nat \<Rightarrow> int res" where
  "lut_codes W c kk sub = rbind (read_at W (c kk)) (\<lambda>b. Inr (sint (lut_byte b sub)))"

text \<open>\<open>if (col < N) out[col] = ...\<close>.\<close>

definition guarded :: "nat \<Rightarrow> (nat \<times> flt) list res \<Rightarrow> (nat \<times> flt) list res" where
  "guarded N r = rbind r (\<lambda>ws. Inr (filter (\<lambda>(j, y). j < N) ws))"

definition mm_packed_v13_lut :: "8 word list \<Rightarrow> 8 word list \<Rightarrow> nat \<Rightarrow> nat \<Rightarrow> flt \<Rightarrow> flt \<Rightarrow> nat \<Rightarrow> flt list \<Rightarrow> flt list res" where
  "mm_packed_v13_lut X W K N scale_x w_scale n out =
     launch n (\<lambda>w. let j_base = w * 4 in if j_base \<ge> N then Inr [] else
       guarded N (four_columns (\<lambda>i. let (kstart, kend) = stretch ((K + 31) div 32) K i; Wc = j_base div 4 * K in
         quad_loop (lut4 (load_u32 X) (\<lambda>kk. bytes_u32 W (Wc + kk)))
           (macs1 4 (\<lambda>t. t) (read_at X) (lut_codes W (\<lambda>kk. Wc + kk))) kend kstart (replicate 4 0)) (fmul F32 scale_x w_scale) j_base)) out"

section \<open>Staged activations\<close>

text \<open>\<open>cp_async_16\<close> for the whole chunks of 16 bytes; the rest of the shared buffer is not written.\<close>

definition staged :: "8 word list \<Rightarrow> nat \<Rightarrow> 8 word option list res" where
  "staged X K = rmap (\<lambda>i. if i < K div 16 * 16 then rbind (read_at X i) (\<lambda>x. Inr (Some x)) else Inr None) [0..<K]"

definition smem_u32 :: "8 word option list \<Rightarrow> nat \<Rightarrow> 32 word res" where
  "smem_u32 sX kk =
     (if kk mod 4 \<noteq> 0 then Inl (InvalidArgument ''misaligned address'')
      else rbind (rmap (smem_at sX) [kk..<kk + 4]) (\<lambda>q. Inr (quad_of q)))"

definition mm_packed_v13_cpasync :: "8 word list \<Rightarrow> 8 word list \<Rightarrow> nat \<Rightarrow> nat \<Rightarrow> flt \<Rightarrow> flt \<Rightarrow> nat \<Rightarrow> flt list \<Rightarrow> flt list res" where
  "mm_packed_v13_cpasync X W K N scale_x w_scale n out =
     launch n (\<lambda>w. rbind (staged X K) (\<lambda>sX. let j_base = w * 4 in if j_base \<ge> N then Inr [] else
       guarded N (four_columns (\<lambda>i. let (kstart, kend) = stretch ((K + 31) div 32) K i; Wc = j_base div 4 * K in
         quad_loop (macs4 dec_cmp (smem_u32 sX) (\<lambda>kk. bytes_u32 W (Wc + kk)))
           (macs1 4 dec_cmp (smem_at sX) (byte_codes W (\<lambda>kk. Wc + kk))) kend kstart (replicate 4 0)) (fmul F32 scale_x w_scale) j_base))) out"

section \<open>Lanes of four columns\<close>

text \<open>Steps that advance the sums of the columns give the lane, and lanes give the kernel.\<close>

lemma group_lane:
  assumes al: "4 dvd kpt"
    and f4: "\<And>k. 4 dvd k \<Longrightarrow> i * kpt \<le> k \<Longrightarrow> k + 4 \<le> K \<Longrightarrow> f4 k (group_parts X W N u (i * kpt) k) = Inr (group_parts X W N u (i * kpt) (k + 4))"
    and f1: "\<And>k. i * kpt \<le> k \<Longrightarrow> k < K \<Longrightarrow> f1 k (group_parts X W N u (i * kpt) k) = Inr (group_parts X W N u (i * kpt) (Suc k))"
  shows "quad_loop f4 f1 (min K (i * kpt + kpt)) (i * kpt) (replicate 4 0) = Inr (group_parts X W N u (i * kpt) (lane_end kpt K i))"
proof -
  let ?F = "group_parts X W N u (i * kpt)"
  have "quad_loop f4 f1 (min K (i * kpt + kpt)) (i * kpt) (?F (i * kpt)) = Inr (?F (max (i * kpt) (min K (i * kpt + kpt))))"
  proof (rule quad_loop_ok)
    show "4 dvd i * kpt" using al by simp
    show "f4 k (?F k) = Inr (?F (k + 4))" if "4 dvd k" "i * kpt \<le> k" "k + 4 \<le> min K (i * kpt + kpt)" for k
      by (rule f4) (use that in auto)
    show "f1 k (?F k) = Inr (?F (Suc k))" if "i * kpt \<le> k" "k < min K (i * kpt + kpt)" for k
      by (rule f1) (use that in auto)
  qed
  then show ?thesis by (simp add: lane_end_def group_zero)
qed

lemma group_kernel:
  assumes ok: "packed_ok X W K N" and K: "128 dvd K" and out: "length out = N" and n: "N \<le> n * 4"
    and lanes: "\<And>w i. w * 4 < N \<Longrightarrow> fl w i = Inr (group_parts X W N w (i * ((K + 31) div 32)) (lane_end ((K + 31) div 32) K i))"
  shows "launch n (\<lambda>w. if N \<le> w * 4 then Inr [] else four_columns (fl w) scale (w * 4)) out = Inr (packed_product X W K N scale)"
  unfolding packed_product_def
proof (rule launch_ok [OF out, where c = 4])
  show "4 dvd N" using ok by (simp add: packed_ok_def)
  fix w assume w: "w * 4 < N"
  have "four_columns (fl w) scale (w * 4) =
      Inr (map (\<lambda>i. (w * 4 + i, out_half scale (dot_col (map sint X) 0 W N K (w * 4 + i)))) [0..<4])"
    by (rule four_columns_ok [OF ok w, where kpt = "(K + 31) div 32"]) (use ok kpt_facts lanes [OF w] in \<open>auto simp: packed_ok_def\<close>)
  then show "(if N \<le> w * 4 then Inr [] else four_columns (fl w) scale (w * 4)) =
      Inr (map (\<lambda>i. (w * 4 + i, out_half scale (dot_col (map sint X) 0 W N K (w * 4 + i)))) [0..<4])" using w by simp
qed (use n in simp_all)

section \<open>The variants compute the product\<close>

lemma add_only_part:
  assumes ok: "packed_ok X W K N" and k: "k < K" "a \<le> k" and j: "j < N" and t: "dec_cmp (code_of b sb) = W ! (k * N + j)"
    and x: "x = sint (X ! k)"
  shows "add_only (code_of b sb) x (part X W N j a k) = Inr (part X W N j a (Suc k))"
proof -
  have s: "part X W N j a (Suc k) = part X W N j a k + sint (X ! k) * W ! (k * N + j)"
    unfolding part_def using k(2) by (rule segment_Suc)
  have i: "in_i32 (part X W N j a (Suc k))" by (rule part_in_i32 [OF ok _ j]) (use k in simp)
  have r: "in_i32 (part X W N j a k)" by (rule part_in_i32 [OF ok _ j]) (use k in simp)
  consider "code_of b sb = 1" "W ! (k * N + j) = 1" | "code_of b sb = 2" "W ! (k * N + j) = - 1"
    | "code_of b sb \<noteq> 1" "code_of b sb \<noteq> 2" "W ! (k * N + j) = 0"
    using t by (cases "code_of b sb = 1"; cases "code_of b sb = 2") (auto simp: dec_cmp_def)
  then show ?thesis using s i by cases (simp_all add: add_only_def add_i32_def x)
qed

lemma add_only_four:
  assumes ok: "packed_ok X W K N" and j: "j < N" and k: "a \<le> k" "k + 4 \<le> K"
    and g: "\<And>i. i < 4 \<Longrightarrow> dec_cmp (code_of (g i) sb) = W ! ((k + i) * N + j)"
  shows "rfold (\<lambda>a i. add_only (code_of (map g [0..<4] ! i) sb) (sint (byte_of (quad_of (map (\<lambda>i. X ! (k + i)) [0..<4])) i)) a)
      (part X W N j a k) [0..<4] = Inr (part X W N j a (k + 4))"
proof -
  let ?F = "\<lambda>i. part X W N j a (k + i)"
  have "rfold (\<lambda>a i. add_only (code_of (map g [0..<4] ! i) sb) (sint (byte_of (quad_of (map (\<lambda>i. X ! (k + i)) [0..<4])) i)) a)
      (?F 0) [0..<4] = Inr (?F 4)"
  proof (rule rows_ok)
    fix i :: nat assume i: "i < 4"
    then show "add_only (code_of (map g [0..<4] ! i) sb) (sint (byte_of (quad_of (map (\<lambda>i. X ! (k + i)) [0..<4])) i)) (?F i) = Inr (?F (Suc i))"
      unfolding add_Suc_right
      by (intro add_only_part [OF ok _ _ j]) (use k g [OF i] in \<open>simp_all add: byte_of_quad\<close>)
  qed
  then show ?thesis by simp
qed

lemma addonly4_group:
  assumes ok: "packed_ok X W K N" and u: "u * 4 < N" and K: "4 dvd K" and k: "4 dvd k" "a \<le> k" "k + 4 \<le> K"
  shows "addonly4 (load_u32 X) (\<lambda>kk. bytes_u32 (col_bytes K N (pack_rows K N W)) (u * K + kk)) k (group_parts X W N u a k) =
    Inr (group_parts X W N u a (k + 4))"
proof -
  obtain g where g: "bytes_u32 (col_bytes K N (pack_rows K N W)) (u * K + k) = Inr (map g [0..<4])"
    "\<And>i s. i < 4 \<Longrightarrow> s < 4 \<Longrightarrow> dec_cmp (code_of (g i) (s * 2)) = W ! ((k + i) * N + (u * 4 + s))"
    using col_quad [OF ok k(3) K k(1) u decoders(1)] by blast
  have "rmap (\<lambda>s. rfold (\<lambda>a i. add_only (code_of (map g [0..<4] ! i) (s * 2)) (sint (byte_of (quad_of (map (\<lambda>i. X ! (k + i)) [0..<4])) i)) a)
      (group_parts X W N u a k ! s) [0..<4]) [0..<4] = Inr (map (\<lambda>s. part X W N (u * 4 + s) a (k + 4)) [0..<4])"
  proof (rule rmap_all)
    fix s :: nat assume "s \<in> set [0..<4]"
    then have s: "s < 4" by simp
    then show "rfold (\<lambda>a i. add_only (code_of (map g [0..<4] ! i) (s * 2)) (sint (byte_of (quad_of (map (\<lambda>i. X ! (k + i)) [0..<4])) i)) a)
      (group_parts X W N u a k ! s) [0..<4] = Inr (part X W N (u * 4 + s) a (k + 4))"
      using add_only_four [OF ok group_in [OF ok u s] k(2,3), of g "s * 2"] g(2) by (simp add: group_parts_def)
  qed
  then show ?thesis using g(1) x_reads(2) [OF ok k(3,1)] by (simp add: addonly4_def group_parts_def)
qed

lemma addonly1_group:
  assumes ok: "packed_ok X W K N" and u: "u * 4 < N" and k: "a \<le> k" "k < K"
  shows "addonly1 (read_at X) (\<lambda>kk. read_at (col_bytes K N (pack_rows K N W)) (u * K + kk)) k (group_parts X W N u a k) =
    Inr (group_parts X W N u a (Suc k))"
proof -
  obtain b where b: "read_at (col_bytes K N (pack_rows K N W)) (u * K + k) = Inr b"
    "\<And>s. s < 4 \<Longrightarrow> dec_cmp (code_of b (s * 2)) = W ! (k * N + (u * 4 + s))" using col_group [OF ok k(2) u decoders(1)] by blast
  show ?thesis
  proof (cases "sint (X ! k) = 0")
    case True
    have "part X W N j a (Suc k) = part X W N j a k" for j unfolding part_def using segment_Suc [OF k(1)] True by simp
    then show ?thesis using True packed_x [OF ok k(2)] by (simp add: addonly1_def group_parts_def)
  next
    case False
    have "rmap (\<lambda>s. add_only (code_of b (s * 2)) (sint (X ! k)) (group_parts X W N u a k ! s)) [0..<4] =
        Inr (map (\<lambda>s. part X W N (u * 4 + s) a (Suc k)) [0..<4])"
    proof (rule rmap_all)
      fix s :: nat assume "s \<in> set [0..<4]"
      then have s: "s < 4" by simp
      have "add_only (code_of b (s * 2)) (sint (X ! k)) (part X W N (u * 4 + s) a k) = Inr (part X W N (u * 4 + s) a (Suc k))"
        by (rule add_only_part [OF ok k(2,1) group_in [OF ok u s] b(2) [OF s] refl])
      then show "add_only (code_of b (s * 2)) (sint (X ! k)) (group_parts X W N u a k ! s) = Inr (part X W N (u * 4 + s) a (Suc k))"
        using s by (simp add: group_parts_def)
    qed
    then show ?thesis using False b(1) packed_x [OF ok k(2)] by (simp add: addonly1_def group_parts_def)
  qed
qed

lemma mm_bitnet_addonly_ok:
  assumes ok: "packed_ok X W K N" and K: "128 dvd K" and out: "length out = N" and n: "N \<le> n * 4"
  shows "mm_bitnet_addonly X (col_bytes K N (pack_rows K N W)) K N scale n out = Inr (packed_product X W K N scale)"
  unfolding mm_bitnet_addonly_def Let_def stretch_simp
proof (rule group_kernel [OF ok K out n])
  have K4: "4 dvd K" using K by (rule dvd_trans [rotated]) simp
  fix w i assume w: "w * 4 < N"
  show "quad_loop (addonly4 (load_u32 X) (\<lambda>kk. bytes_u32 (col_bytes K N (pack_rows K N W)) (w * 4 div 4 * K + kk)))
      (addonly1 (read_at X) (\<lambda>kk. read_at (col_bytes K N (pack_rows K N W)) (w * 4 div 4 * K + kk)))
      (min K (i * ((K + 31) div 32) + (K + 31) div 32)) (i * ((K + 31) div 32)) (replicate 4 0) =
    Inr (group_parts X W N w (i * ((K + 31) div 32)) (lane_end ((K + 31) div 32) K i))"
    by (rule group_lane [OF kpt_aligned [OF K]]) (use addonly4_group [OF ok w K4] addonly1_group [OF ok w] in simp_all)
qed

lemma lut_byte_dec: "sub < 4 \<Longrightarrow> lut_byte b sub = word_of_int (dec_cmp (code_of b (sub * 2)))"
proof -
  assume "sub < 4"
  moreover have "unat b < 256" using unsigned_less [of b] by simp
  ultimately show ?thesis by (simp add: lut_byte_def kUnpackLUT_def byte_of_quad)
qed

lemma lut4_macs4: "lut4 rx4 rw4 = macs4 dec_cmp rx4 rw4"
proof (intro ext)
  fix kk accs
  have "map (\<lambda>sub. dp4a x (quad_of (map (\<lambda>b. lut_byte b sub) bs)) (accs ! sub)) [0..<4] =
      map (\<lambda>sub. dp4a x (weights4 dec_cmp (sub * 2) bs) (accs ! sub)) [0..<4]" for x bs
    by (simp add: weights4_def lut_byte_dec)
  then show "lut4 rx4 rw4 kk accs = macs4 dec_cmp rx4 rw4 kk accs" by (simp only: lut4_def macs4_def)
qed

lemma lut_macs1: "macs1 4 (\<lambda>t. t) rx (lut_codes W c) = macs1 4 dec_cmp rx (byte_codes W c)"
proof (intro ext)
  fix kk accs
  have "rbind (lut_codes W c kk i) (\<lambda>t. add_i32 (accs ! i) (x * t)) = rbind (byte_codes W c kk i) (\<lambda>t. add_i32 (accs ! i) (x * dec_cmp t))"
    if "i < 4" for i x
    using that weight_byte [OF decoders(1)] by (cases "read_at W (c kk)") (simp_all add: lut_codes_def byte_codes_def lut_byte_dec)
  then have "rmap (\<lambda>i. rbind (lut_codes W c kk i) (\<lambda>t. add_i32 (accs ! i) (x * t))) [0..<4] =
      rmap (\<lambda>i. rbind (byte_codes W c kk i) (\<lambda>t. add_i32 (accs ! i) (x * dec_cmp t))) [0..<4]" for x
    by (intro rmap_cong) simp
  then show "macs1 4 (\<lambda>t. t) rx (lut_codes W c) kk accs = macs1 4 dec_cmp rx (byte_codes W c) kk accs"
    by (simp only: macs1_def)
qed

text \<open>The guard on the column passes every column of a whole group.\<close>

lemma guarded_whole:
  assumes "4 dvd N" and "w * 4 < N"
  shows "guarded N (four_columns fl scale (w * 4)) = four_columns fl scale (w * 4)"
proof (cases "four_columns fl scale (w * 4)")
  case (Inr ws)
  have "w * 4 + 4 \<le> N" using owned_in [OF _ assms, of 3] by simp
  moreover have "ws = columns scale (w * 4) accs \<and> length accs = 4 \<Longrightarrow> (j, y) \<in> set ws \<Longrightarrow> j < w * 4 + 4" for accs j y
    by (auto simp: columns_def)
  ultimately have "filter (\<lambda>(j, y). j < N) ws = ws"
    using Inr by (intro filter_True) (fastforce simp: four_columns_def dest: rmap_length)
  then show ?thesis using Inr by (simp add: guarded_def)
qed (simp add: guarded_def)

lemma mm_packed_v13_lut_ok:
  assumes ok: "packed_ok X W K N" and K: "128 dvd K" and out: "length out = N" and n: "N \<le> n * 4"
  shows "mm_packed_v13_lut X (col_bytes K N (pack_rows K N W)) K N sx ws n out = Inr (packed_product X W K N (fmul F32 sx ws))"
proof -
  have N: "4 dvd N" using ok by (simp add: packed_ok_def)
  have "mm_packed_v13_lut X (col_bytes K N (pack_rows K N W)) K N sx ws n out =
      mm_warp4 dec_cmp X (col_bytes K N (pack_rows K N W)) K N (fmul F32 sx ws) n out"
    unfolding mm_packed_v13_lut_def mm_warp4_def lut4_macs4 lut_macs1 Let_def
    by (rule launch_cong) (simp add: guarded_whole [OF N])
  then show ?thesis using mm_warp4_ok [OF ok K decoders(1) out n] by simp
qed

text \<open>With a whole number of chunks every activation is staged; with less the last ones are not.\<close>

lemma staged_whole: "K \<le> length X \<Longrightarrow> 16 dvd K \<Longrightarrow> staged X K = Inr (map Some (take K X))"
proof -
  assume X: "K \<le> length X" and K: "16 dvd K"
  have "staged X K = Inr (map (\<lambda>i. Some (X ! i)) [0..<K])"
    unfolding staged_def by (rule rmap_all) (use X K in \<open>simp add: read_at_def\<close>)
  moreover have "map (\<lambda>i. Some (X ! i)) [0..<K] = map Some (take K X)" using X by (intro nth_equalityI) simp_all
  ultimately show ?thesis by simp
qed

lemma product_take: "K \<le> length X \<Longrightarrow> packed_product (take K X) W K N scale = packed_product X W K N scale"
  by (simp add: packed_product_def dot_col_def)

lemma smem_whole: "smem_at (map Some X) = read_at X" "smem_u32 (map Some X) = load_u32 X"
proof -
  show b: "smem_at (map Some X) = read_at X"
    by (rule ext) (simp add: smem_at_def read_at_def)
  show "smem_u32 (map Some X) = load_u32 X"
    by (rule ext) (simp add: smem_u32_def load_u32_def b)
qed

lemma mm_packed_v13_cpasync_ok:
  assumes ok: "packed_ok X W K N" and K: "128 dvd K" and out: "length out = N" and n: "N \<le> n * 4"
  shows "mm_packed_v13_cpasync X (col_bytes K N (pack_rows K N W)) K N sx ws n out = Inr (packed_product X W K N (fmul F32 sx ws))"
proof -
  have N: "4 dvd N" using ok by (simp add: packed_ok_def)
  have K16: "16 dvd K" using K by (rule dvd_trans [rotated]) simp
  have X: "K \<le> length X" using ok by (simp add: packed_ok_def)
  have ok': "packed_ok (take K X) W K N" using ok by (simp add: packed_ok_def)
  have "mm_packed_v13_cpasync X (col_bytes K N (pack_rows K N W)) K N sx ws n out =
      mm_warp4 dec_cmp (take K X) (col_bytes K N (pack_rows K N W)) K N (fmul F32 sx ws) n out"
    unfolding mm_packed_v13_cpasync_def mm_warp4_def staged_whole [OF X K16] rbind_simps smem_whole Let_def
    by (rule launch_cong) (simp add: guarded_whole [OF N])
  then show ?thesis using mm_warp4_ok [OF ok' K decoders(1) out n] product_take [OF X] by simp
qed

end
