(* ===== verification/TerBatched.thy ===== *)
theory TerBatched
  imports TerVariants
begin

text \<open>
  The products of several tokens at once: \<open>mm_packed_batched\<close> of \<open>cuda/ter_cuda_packed_batched.cu\<close>
  and \<open>mm_bitnet_addonly_batched_k\<close> of \<open>cuda/ter_cuda_addonly_batched.cu\<close>. The accumulators of a
  lane are four rows (the columns of the group) with one entry per token; the output has the tokens
  one after another.
\<close>

section \<open>Products and tokens\<close>

text \<open>\<open>acc[sub][mi] += d\<close>.\<close>

definition add_cell :: "int list list \<Rightarrow> nat \<Rightarrow> nat \<Rightarrow> int \<Rightarrow> int list list res" where
  "add_cell acc sub mi d =
     rbind (read_at acc sub) (\<lambda>row. rbind (read_at row mi) (\<lambda>a. rbind (add_i32 a d) (\<lambda>a'.
     rbind (write_at row mi a') (\<lambda>row'. write_at acc sub row'))))"

definition batched_step :: "8 word list \<Rightarrow> 8 word list \<Rightarrow> nat \<Rightarrow> nat \<Rightarrow> nat \<Rightarrow> int list list \<Rightarrow> nat \<Rightarrow> int list list res" where
  "batched_step X W K M Wc acc kk =
     rbind (read_at W (Wc + kk)) (\<lambda>b.
     rfold (\<lambda>acc mi. rbind (read_at X (mi * K + kk)) (\<lambda>x. if sint x = 0 then Inr acc
       else rfold (\<lambda>acc sub. add_cell acc sub mi (dec_cmp (code_of b (sub * 2)) * sint x)) acc [0..<4])) acc [0..<M])"

text \<open>The shuffle reduction of every cell of the accumulators.\<close>

definition reduce_cells :: "nat \<Rightarrow> int list list list \<Rightarrow> int list list res" where
  "reduce_cells M lanes =
     rmap (\<lambda>sub. rmap (\<lambda>mi. rbind (rmap (\<lambda>acc. rbind (read_at acc sub) (\<lambda>row. read_at row mi)) lanes) (\<lambda>v.
       rbind (warp_sum v) (\<lambda>v. Inr (v ! 0)))) [0..<M]) [0..<4]"

definition M_MAX :: nat where
  "M_MAX = 16"

definition mm_packed_batched :: "8 word list \<Rightarrow> 8 word list \<Rightarrow> nat \<Rightarrow> nat \<Rightarrow> nat \<Rightarrow> flt \<Rightarrow> nat \<Rightarrow> flt list \<Rightarrow> flt list res" where
  "mm_packed_batched X W K N M scale n out =
     launch n (\<lambda>w. let j_base = w * 4 in if j_base \<ge> N then Inr [] else
       rbind (rmap (\<lambda>lane. let (kstart, kend) = stretch ((K + 31) div 32) K lane in
         rfold (batched_step X W K M (j_base div 4 * K)) (replicate 4 (replicate M_MAX 0)) [kstart..<kend]) [0..<32]) (\<lambda>lanes.
       rbind (reduce_cells M lanes) (\<lambda>acc.
       Inr (concat (map (\<lambda>mi. map (\<lambda>sub. (mi * N + (j_base + sub), out_half scale (acc ! sub ! mi))) [0..<4]) [0..<M]))))) out"

section \<open>Additions and tokens\<close>

definition addonly_batched4 :: "8 word list \<Rightarrow> (nat \<Rightarrow> 8 word list res) \<Rightarrow> nat \<Rightarrow> nat \<Rightarrow> nat \<Rightarrow> int list list \<Rightarrow> int list list res" where
  "addonly_batched4 X rw4 K M kk acc =
     rbind (rw4 kk) (\<lambda>bs. rmap (\<lambda>sub. rmap (\<lambda>m. rbind (load_u32 X (m * K + kk)) (\<lambda>x.
       rfold (\<lambda>a i. add_only (code_of (bs ! i) (sub * 2)) (sint (byte_of x i)) a) (acc ! sub ! m) [0..<4])) [0..<M]) [0..<4])"

text \<open>The tail adds for code 1 and subtracts for every other code but 0.\<close>

definition addonly_batched1 :: "8 word list \<Rightarrow> (nat \<Rightarrow> 8 word res) \<Rightarrow> nat \<Rightarrow> nat \<Rightarrow> nat \<Rightarrow> int list list \<Rightarrow> int list list res" where
  "addonly_batched1 X rw K M kk acc =
     rbind (rw kk) (\<lambda>b. rmap (\<lambda>sub. let t = code_of b (sub * 2) in
       if t = 0 then Inr (acc ! sub)
       else rmap (\<lambda>m. rbind (read_at X (m * K + kk)) (\<lambda>x.
         if sint x = 0 then Inr (acc ! sub ! m)
         else if t = 1 then add_i32 (acc ! sub ! m) (sint x)
         else add_i32 (acc ! sub ! m) (- sint x))) [0..<M]) [0..<4])"

definition mm_bitnet_addonly_batched_k ::
  "nat \<Rightarrow> 8 word list \<Rightarrow> flt list \<Rightarrow> 8 word list \<Rightarrow> nat \<Rightarrow> nat \<Rightarrow> flt \<Rightarrow> nat \<Rightarrow> flt list \<Rightarrow> flt list res" where
  "mm_bitnet_addonly_batched_k M X X_scale W K N w_scale n out =
     launch n (\<lambda>w. let j_base = w * 4 in if j_base \<ge> N then Inr [] else
       rbind (rmap (\<lambda>lane. let (kstart, kend) = stretch ((K + 31) div 32) K lane; Wc = j_base div 4 * K in
         quad_loop (addonly_batched4 X (\<lambda>kk. bytes_u32 W (Wc + kk)) K M) (addonly_batched1 X (\<lambda>kk. read_at W (Wc + kk)) K M)
           kend kstart (replicate 4 (replicate M 0))) [0..<32]) (\<lambda>lanes.
       rbind (reduce_cells M lanes) (\<lambda>acc.
       rbind (rmap (\<lambda>m. rbind (read_at X_scale m) (\<lambda>s.
         Inr (map (\<lambda>sub. (m * N + (j_base + sub), out_half (fmul F32 s w_scale) (acc ! sub ! m)))
           (filter (\<lambda>sub. j_base + sub < N) [0..<4])))) [0..<M]) (\<lambda>cells.
       Inr (concat cells))))) out"

section \<open>Launches that write anywhere\<close>

lemma writes_cells:
  assumes "\<And>i y. (i, y) \<in> set ws \<Longrightarrow> i < length o' \<and> y = g i"
  shows "rfold (\<lambda>o' (i, y). write_at o' i y) o' ws = Inr (map (\<lambda>i. if i \<in> fst ` set ws then g i else o' ! i) [0..<length o'])"
  using assms
proof (induction ws arbitrary: o')
  case Nil
  then show ?case by (simp add: map_nth)
next
  case (Cons p ws)
  obtain a y where p: "p = (a, y)" by (cases p)
  have a: "a < length o'" "y = g a" using Cons.prems [of a y] p by simp_all
  have "rfold (\<lambda>o' (i, y). write_at o' i y) (o'[a := g a]) ws =
      Inr (map (\<lambda>i. if i \<in> fst ` set ws then g i else o'[a := g a] ! i) [0..<length o'])"
    by (subst Cons.IH) (use Cons.prems in auto)
  moreover have "map (\<lambda>i. if i \<in> fst ` set ws then g i else o'[a := g a] ! i) [0..<length o'] =
      map (\<lambda>i. if i \<in> fst ` set (p # ws) then g i else o' ! i) [0..<length o']"
    by (rule map_cong) (auto simp: p nth_list_update)
  ultimately show ?case using a by (simp add: p write_at_def)
qed

lemma launch_cells:
  assumes body: "\<And>u. u < n \<Longrightarrow> body u = Inr (ws u)"
    and cells: "\<And>u i y. u < n \<Longrightarrow> (i, y) \<in> set (ws u) \<Longrightarrow> i < length out \<and> y = g i"
    and all: "\<And>i. i < length out \<Longrightarrow> \<exists>u < n. i \<in> fst ` set (ws u)"
  shows "launch n body out = Inr (map g [0..<length out])"
proof -
  let ?w = "\<lambda>m i. \<exists>u < m. i \<in> fst ` set (ws u)"
  have L: "launch m body out = Inr (map (\<lambda>i. if ?w m i then g i else out ! i) [0..<length out])" if "m \<le> n" for m
    using that
  proof (induction m)
    case 0
    then show ?case by (simp add: launch_def map_nth)
  next
    case (Suc m)
    let ?o = "map (\<lambda>i. if ?w m i then g i else out ! i) [0..<length out]"
    have "launch (Suc m) body out = rfold (\<lambda>o' (i, y). write_at o' i y) ?o (ws m)"
      using Suc body [of m] by (simp add: launch_def rfold_append rbind_Inr_id)
    also have "\<dots> = Inr (map (\<lambda>i. if i \<in> fst ` set (ws m) then g i else ?o ! i) [0..<length ?o])"
      by (rule writes_cells) (use cells [of m] Suc.prems in auto)
    also have "map (\<lambda>i. if i \<in> fst ` set (ws m) then g i else ?o ! i) [0..<length ?o] =
        map (\<lambda>i. if ?w (Suc m) i then g i else out ! i) [0..<length out]"
      by (rule map_cong) (auto simp: Ex_less_Suc)
    finally show ?case .
  qed
  have "map (\<lambda>i. if ?w n i then g i else out ! i) [0..<length out] = map g [0..<length out]"
    by (rule map_cong) (use all in auto)
  then show ?thesis using L [OF order_refl] by (simp only:)
qed

lemma concat_flat: "concat (map (\<lambda>k. map (g k) [0..<n]) [0..<K]) = map (\<lambda>i. g (i div n) (i mod n)) [0..<K * n]"
proof (rule nth_equalityI)
  show "length (concat (map (\<lambda>k. map (g k) [0..<n]) [0..<K])) = length (map (\<lambda>i. g (i div n) (i mod n)) [0..<K * n])"
    using concat_cells_length [of g n K] by simp
  fix i assume "i < length (concat (map (\<lambda>k. map (g k) [0..<n]) [0..<K]))"
  then have i: "i < K * n" using concat_cells_length [of g n K] by simp
  then have "0 < n" by (cases n) auto
  then show "concat (map (\<lambda>k. map (g k) [0..<n]) [0..<K]) ! i = map (\<lambda>i. g (i div n) (i mod n)) [0..<K * n] ! i"
    using concat_cells [of "i div n" K "i mod n" n g] i by (simp add: less_mult_imp_div_less)
qed

text \<open>Units that write a group of four columns of every token.\<close>

lemma launch_tokens:
  assumes len: "length out = M * N" and N: "4 dvd N" "N \<le> n * 4"
    and body: "\<And>u. u * 4 < N \<Longrightarrow> body u = Inr (concat (map (\<lambda>m. map (\<lambda>s. (m * N + (u * 4 + s), h m (u * 4 + s))) [0..<4]) [0..<M]))"
    and over: "\<And>u. N \<le> u * 4 \<Longrightarrow> body u = Inr []"
  shows "launch n body out = Inr (concat (map (\<lambda>m. map (h m) [0..<N]) [0..<M]))"
proof -
  let ?ws = "\<lambda>u. if u * 4 < N then concat (map (\<lambda>m. map (\<lambda>s. (m * N + (u * 4 + s), h m (u * 4 + s))) [0..<4]) [0..<M]) else []"
  let ?g = "\<lambda>i. h (i div N) (i mod N)"
  have cell: "\<exists>m s. m < M \<and> s < 4 \<and> u * 4 + s < N \<and> u * 4 < N \<and> i = m * N + (u * 4 + s) \<and> y = h m (u * 4 + s)"
    if w: "(i, y) \<in> set (?ws u)" for u i y
  proof -
    have u: "u * 4 < N" using w by (auto split: if_splits)
    then obtain m s where "m < M" "s < 4" "i = m * N + (u * 4 + s)" "y = h m (u * 4 + s)" using w by auto
    then show ?thesis using u owned_in [OF _ N(1) u, of s] by auto
  qed
  have "launch n body out = Inr (map ?g [0..<length out])"
  proof (rule launch_cells)
    show "body u = Inr (?ws u)" for u using body [of u] over [of u] by simp
    show "i < length out \<and> y = ?g i" if w: "(i, y) \<in> set (?ws u)" for u i y
    proof -
      obtain m s where c: "m < M" "u * 4 + s < N" "i = m * N + (u * 4 + s)" "y = h m (u * 4 + s)" using cell [OF w] by blast
      then show ?thesis using entry_in [OF c(1,2)] len by simp
    qed
    show "\<exists>u < n. i \<in> fst ` set (?ws u)" if i: "i < length out" for i
    proof -
      have N0: "0 < N" using i len by (cases N) auto
      let ?j = "i mod N"
      have j: "?j < N" using N0 by simp
      have m: "i div N < M" using i len by (simp add: less_mult_imp_div_less)
      have q: "?j div 4 * 4 < N" using j by (meson div_times_less_eq_dividend le_less_trans)
      have "(i div N * N + (?j div 4 * 4 + r), h (i div N) (?j div 4 * 4 + r)) \<in> set (?ws (?j div 4))" if "r < 4" for r
        using q m that by simp (intro bexI [of _ "i div N"] image_eqI [of _ _ r]; simp)
      from this [of "?j mod 4"] have "(i, h (i div N) ?j) \<in> set (?ws (?j div 4))" by simp
      moreover have "?j div 4 < n" using j N(2) by (simp add: less_mult_imp_div_less)
      ultimately show ?thesis by force
    qed
  qed
  moreover have "map ?g [0..<length out] = concat (map (\<lambda>m. map (h m) [0..<N]) [0..<M])"
    by (simp add: concat_flat len)
  ultimately show ?thesis by simp
qed

section \<open>The tokens of a batch\<close>

definition batch_ok :: "8 word list \<Rightarrow> int list \<Rightarrow> nat \<Rightarrow> nat \<Rightarrow> nat \<Rightarrow> bool" where
  "batch_ok X W K N M \<longleftrightarrow> 4 dvd N \<and> K \<le> 2 ^ 23 \<and> M * K \<le> length X \<and> (\<forall>i < K * N. W ! i = - 1 \<or> W ! i = 0 \<or> W ! i = 1)"

definition token :: "8 word list \<Rightarrow> nat \<Rightarrow> nat \<Rightarrow> 8 word list" where
  "token X K m = drop (m * K) X"

lemma token_ok: "batch_ok X W K N M \<Longrightarrow> m < M \<Longrightarrow> packed_ok (token X K m) W K N"
proof -
  assume ok: "batch_ok X W K N M" and m: "m < M"
  have "Suc m * K \<le> M * K" using m by (intro mult_le_mono1) simp
  also have "\<dots> \<le> length X" using ok by (simp add: batch_ok_def)
  finally have "K \<le> length X - m * K" by simp
  then show ?thesis using ok by (simp add: batch_ok_def packed_ok_def token_def)
qed

lemma token_read: "batch_ok X W K N M \<Longrightarrow> m < M \<Longrightarrow> k < K \<Longrightarrow> read_at X (m * K + k) = Inr (token X K m ! k)"
  using entry_in [of m M k K] by (simp add: batch_ok_def read_at_def token_def)

lemma token_quad:
  assumes ok: "batch_ok X W K N M" and m: "m < M" and k: "4 dvd k" "k + 4 \<le> K" "4 dvd K"
  shows "load_u32 X (m * K + k) = Inr (quad_of (map (\<lambda>i. token X K m ! (k + i)) [0..<4]))"
proof -
  have "4 dvd m * K + k" using k by (intro dvd_add dvd_mult)
  then have "(m * K + k) mod 4 = 0" by simp
  moreover have "rmap (read_at X) [m * K + k..<m * K + k + 4] = Inr (map (\<lambda>i. token X K m ! (k + i)) [0..<4])"
    by (rule rmap_reads) (use token_read [OF ok m] k in \<open>simp add: add.assoc\<close>)
  ultimately show ?thesis by (simp add: load_u32_def)
qed

text \<open>The accumulators with the cell \<open>P s m\<close> for column \<open>s\<close> of the group and token \<open>m\<close>.\<close>

definition cells :: "nat \<Rightarrow> (nat \<Rightarrow> nat \<Rightarrow> int) \<Rightarrow> int list list" where
  "cells n P = map (\<lambda>s. map (P s) [0..<n]) [0..<4]"

lemma cells_nth [simp]: "s < 4 \<Longrightarrow> cells n P ! s = map (P s) [0..<n]"
  by (simp add: cells_def)

lemma cells_cong: "(\<And>s m. s < 4 \<Longrightarrow> m < n \<Longrightarrow> P s m = Q s m) \<Longrightarrow> cells n P = cells n Q"
  by (simp add: cells_def)

lemma cells_replicate: "replicate 4 (replicate n 0) = cells n (\<lambda>s m. 0)"
  by (simp add: cells_def map_replicate_const)

lemma add_cell_cells:
  assumes "s < 4" and "m < n" and "in_i32 (P s m + d)"
  shows "add_cell (cells n P) s m d = Inr (cells n (\<lambda>s' m'. if s' = s \<and> m' = m then P s m + d else P s' m'))"
proof -
  let ?Q = "\<lambda>s' m'. if s' = s \<and> m' = m then P s m + d else P s' m'"
  have "add_cell (cells n P) s m d = Inr ((cells n P)[s := (map (P s) [0..<n])[m := P s m + d]])"
    using assms by (simp add: add_cell_def read_at_def write_at_def add_i32_def cells_def)
  moreover have "(map (P s) [0..<n])[m := P s m + d] = map (?Q s) [0..<n]"
    using assms(2) by (intro nth_equalityI) (auto simp: nth_list_update)
  moreover have "(cells n P)[s := map (?Q s) [0..<n]] = cells n ?Q"
    unfolding cells_def using assms(1) by (intro nth_equalityI) (auto simp: nth_list_update)
  ultimately show ?thesis by simp
qed

text \<open>The rows \<open>a\<close> to \<open>k\<close> of every token; the cells beyond the batch stay zero.\<close>

definition token_parts :: "8 word list \<Rightarrow> int list \<Rightarrow> nat \<Rightarrow> nat \<Rightarrow> nat \<Rightarrow> nat \<Rightarrow> nat \<Rightarrow> nat \<Rightarrow> nat \<Rightarrow> int list list" where
  "token_parts X W K N M n u a k = cells n (\<lambda>s m. if m < M then part (token X K m) W N (u * 4 + s) a k else 0)"

lemma token_zero: "token_parts X W K N M n u a a = replicate 4 (replicate n 0)"
  unfolding cells_replicate token_parts_def by (rule cells_cong) (simp add: part_def segment_def)

lemma rmap_over: "(\<And>x. x \<in> set xs \<Longrightarrow> f (g x) = Inr (h x)) \<Longrightarrow> rmap f (map g xs) = Inr (map h xs)"
  by (induction xs) simp_all

lemma reduce_cells_ok:
  assumes ok: "batch_ok X W K N M" and u: "u * 4 < N" and n: "M \<le> n" and kpt: "K \<le> 32 * kpt" "kpt \<le> 2 ^ 18 + 16"
  shows "reduce_cells M (map (\<lambda>i. token_parts X W K N M n u (i * kpt) (lane_end kpt K i)) [0..<32]) =
    Inr (map (\<lambda>s. map (\<lambda>m. dot_col (map sint (token X K m)) 0 W N K (u * 4 + s)) [0..<M]) [0..<4])"
  unfolding reduce_cells_def
proof (rule rmap_all, rule rmap_all)
  fix s m :: nat assume "s \<in> set [0..<4]" "m \<in> set [0..<M]"
  then have s: "s < 4" and m: "m < M" by simp_all
  let ?v = "map (\<lambda>i. part (token X K m) W N (u * 4 + s) (i * kpt) (lane_end kpt K i)) [0..<32]"
  let ?lanes = "map (\<lambda>i. token_parts X W K N M n u (i * kpt) (lane_end kpt K i)) [0..<32]"
  have v: "rmap (\<lambda>acc. rbind (read_at acc s) (\<lambda>row. read_at row m)) ?lanes = Inr ?v"
    by (rule rmap_over) (use s m n in \<open>simp add: token_parts_def cells_def read_at_def\<close>)
  obtain r where "warp_sum ?v = Inr r" "r ! 0 = dot_col (map sint (token X K m)) 0 W N K (u * 4 + s)"
    using warp_column [OF token_ok [OF ok m] group_in [OF token_ok [OF ok m] u s] kpt, of ?v] by auto
  then show "rbind (rmap (\<lambda>acc. rbind (read_at acc s) (\<lambda>row. read_at row m)) ?lanes) (\<lambda>v. rbind (warp_sum v) (\<lambda>v. Inr (v ! 0))) =
      Inr (dot_col (map sint (token X K m)) 0 W N K (u * 4 + s))" using v by simp
qed

lemma loop_from: "(\<And>k. a \<le> k \<Longrightarrow> k < b \<Longrightarrow> f (F k) k = Inr (F (Suc k))) \<Longrightarrow> rfold f (F a) [a..<b] = Inr (F (max a b))"
proof (induction b)
  case (Suc b)
  show ?case
  proof (cases "a \<le> b")
    case True
    then show ?thesis using Suc.IH Suc.prems by (simp add: rfold_append max_def)
  next
    case False
    then have "[a..<Suc b] = []" "max a (Suc b) = a" by simp_all
    then show ?thesis by simp
  qed
qed simp

section \<open>The batched kernels compute the products of the tokens\<close>

lemma batch_any: "batch_ok X W K N M \<Longrightarrow> packed_ok (replicate K 0) W K N"
  by (simp add: batch_ok_def packed_ok_def)

lemma part_next:
  "a \<le> k \<Longrightarrow> part X W N j a (Suc k) = part X W N j a k + sint (X ! k) * W ! (k * N + j)"
  unfolding part_def by (rule segment_Suc)

text \<open>The accumulators in the middle of row \<open>k\<close>: the tokens before \<open>mi\<close> and the first \<open>sub\<close> columns of \<open>mi\<close> have it.\<close>

definition row_parts :: "8 word list \<Rightarrow> int list \<Rightarrow> nat \<Rightarrow> nat \<Rightarrow> nat \<Rightarrow> nat \<Rightarrow> nat \<Rightarrow> nat \<Rightarrow> nat \<Rightarrow> nat \<Rightarrow> nat \<Rightarrow> int list list" where
  "row_parts X W K N M n u a k mi sub = cells n (\<lambda>s m. if m < M
     then part (token X K m) W N (u * 4 + s) a (if m < mi \<or> m = mi \<and> s < sub then Suc k else k) else 0)"

lemma row_parts_next: "row_parts X W K N M n u a k mi 4 = row_parts X W K N M n u a k (Suc mi) 0"
  unfolding row_parts_def by (rule cells_cong) (simp add: less_Suc_eq)

lemma row_parts_ends:
  "row_parts X W K N M n u a k 0 0 = token_parts X W K N M n u a k"
  "row_parts X W K N M n u a k M 0 = token_parts X W K N M n u a (Suc k)"
  unfolding row_parts_def token_parts_def by (rule cells_cong; simp)+

lemma row_cell:
  assumes ok: "batch_ok X W K N M" and u: "u * 4 < N" and n: "M \<le> n" and k: "a \<le> k" "k < K" and mi: "mi < M" and s: "sub < 4"
    and d: "d = W ! (k * N + (u * 4 + sub)) * sint (token X K mi ! k)"
  shows "add_cell (row_parts X W K N M n u a k mi sub) sub mi d = Inr (row_parts X W K N M n u a k mi (Suc sub))"
proof -
  have t: "packed_ok (token X K mi) W K N" by (rule token_ok [OF ok mi])
  let ?p = "\<lambda>k. part (token X K mi) W N (u * 4 + sub) a k"
  have nx: "?p k + d = ?p (Suc k)" using part_next [OF k(1)] d by (simp add: mult.commute)
  have fit: "in_i32 (?p (Suc k))" by (rule part_in_i32 [OF t _ group_in [OF t u s]]) (use k in simp)
  show ?thesis
    unfolding row_parts_def
    by (subst add_cell_cells) (use s mi n nx fit in \<open>auto intro!: cells_cong simp: less_Suc_eq\<close>)
qed

lemma batched_step_ok:
  assumes ok: "batch_ok X W K N M" and u: "u * 4 < N" and n: "M \<le> n" and k: "a \<le> k" "k < K"
  shows "batched_step X (col_bytes K N (pack_rows K N W)) K M (u * K) (token_parts X W K N M n u a k) k =
    Inr (token_parts X W K N M n u a (Suc k))"
proof -
  obtain b where b: "read_at (col_bytes K N (pack_rows K N W)) (u * K + k) = Inr b"
    "\<And>s. s < 4 \<Longrightarrow> dec_cmp (code_of b (s * 2)) = W ! (k * N + (u * 4 + s))"
    using col_group [OF batch_any [OF ok] k(2) u decoders(1)] by blast
  let ?R = "row_parts X W K N M n u a k"
  have tok: "rbind (read_at X (mi * K + k)) (\<lambda>x. if sint x = 0 then Inr (?R mi 0)
      else rfold (\<lambda>acc sub. add_cell acc sub mi (dec_cmp (code_of b (sub * 2)) * sint x)) (?R mi 0) [0..<4]) = Inr (?R (Suc mi) 0)"
    if mi: "mi < M" for mi
  proof (cases "sint (token X K mi ! k) = 0")
    case True
    have "?R mi 0 = ?R (Suc mi) 0"
      unfolding row_parts_def by (rule cells_cong) (auto simp: less_Suc_eq part_next [OF k(1)] True)
    then show ?thesis using True token_read [OF ok mi k(2)] by simp
  next
    case False
    have "rfold (\<lambda>acc sub. add_cell acc sub mi (dec_cmp (code_of b (sub * 2)) * sint (token X K mi ! k))) (?R mi 0) [0..<4] = Inr (?R mi 4)"
      by (rule rows_ok, rule row_cell [OF ok u n k mi]) (simp_all add: b(2))
    then show ?thesis using False token_read [OF ok mi k(2)] by (simp add: row_parts_next)
  qed
  have "rfold (\<lambda>acc mi. rbind (read_at X (mi * K + k)) (\<lambda>x. if sint x = 0 then Inr acc
      else rfold (\<lambda>acc sub. add_cell acc sub mi (dec_cmp (code_of b (sub * 2)) * sint x)) acc [0..<4])) (?R 0 0) [0..<M] = Inr (?R M 0)"
    by (rule rows_ok [where F = "\<lambda>mi. ?R mi 0"]) (rule tok)
  then show ?thesis using b(1) by (simp add: batched_step_def row_parts_ends)
qed

definition token_products :: "8 word list \<Rightarrow> int list \<Rightarrow> nat \<Rightarrow> nat \<Rightarrow> nat \<Rightarrow> (nat \<Rightarrow> flt) \<Rightarrow> flt list" where
  "token_products X W K N M scale = concat (map (\<lambda>m. packed_product (token X K m) W K N (scale m)) [0..<M])"

lemma mm_packed_batched_ok:
  assumes ok: "batch_ok X W K N M" and M: "M \<le> M_MAX" and out: "length out = M * N" and n: "N \<le> n * 4"
  shows "mm_packed_batched X (col_bytes K N (pack_rows K N W)) K N M scale n out = Inr (token_products X W K N M (\<lambda>m. scale))"
  unfolding mm_packed_batched_def Let_def stretch_simp token_products_def packed_product_def
proof (rule launch_tokens [OF out])
  show "4 dvd N" using ok by (simp add: batch_ok_def)
  fix u assume u: "u * 4 < N"
  let ?kpt = "(K + 31) div 32" and ?cols = "col_bytes K N (pack_rows K N W)"
  have K: "K \<le> 2 ^ 23" using ok by (simp add: batch_ok_def)
  let ?T = "\<lambda>i. token_parts X W K N M M_MAX u (i * ?kpt)"
  have "rfold (batched_step X ?cols K M (u * 4 div 4 * K)) (?T i (i * ?kpt)) [i * ?kpt..<min K (i * ?kpt + ?kpt)] =
      Inr (?T i (lane_end ?kpt K i))" for i
    unfolding lane_end_def by (rule loop_from) (use batched_step_ok [OF ok u M] in auto)
  then have "rmap (\<lambda>i. rfold (batched_step X ?cols K M (u * 4 div 4 * K)) (replicate 4 (replicate M_MAX 0))
      [i * ?kpt..<min K (i * ?kpt + ?kpt)]) [0..<32] = Inr (map (\<lambda>i. ?T i (lane_end ?kpt K i)) [0..<32])"
    by (intro rmap_all) (simp add: token_zero)
  then show "(if N \<le> u * 4 then Inr [] else
       rbind (rmap (\<lambda>i. rfold (batched_step X ?cols K M (u * 4 div 4 * K)) (replicate 4 (replicate M_MAX 0))
         [i * ?kpt..<min K (i * ?kpt + ?kpt)]) [0..<32]) (\<lambda>lanes.
       rbind (reduce_cells M lanes) (\<lambda>acc.
       Inr (concat (map (\<lambda>mi. map (\<lambda>sub. (mi * N + (u * 4 + sub), out_half scale (acc ! sub ! mi))) [0..<4]) [0..<M]))))) =
      Inr (concat (map (\<lambda>m. map (\<lambda>s. (m * N + (u * 4 + s), out_half scale (dot_col (map sint (token X K m)) 0 W N K (u * 4 + s)))) [0..<4]) [0..<M]))"
    using u reduce_cells_ok [OF ok u M kpt_facts(1,2) [OF K]] by simp (intro arg_cong [where f = concat] map_cong refl; simp)
qed (use n in simp_all)

lemma quad_even:
  assumes al: "4 dvd k0" "4 dvd kend"
    and s4: "\<And>k. 4 dvd k \<Longrightarrow> k0 \<le> k \<Longrightarrow> k + 4 \<le> kend \<Longrightarrow> f4 k (F k) = Inr (F (k + 4))"
  shows "quad_loop f4 f1 kend k0 (F k0) = Inr (F (max k0 kend))"
proof -
  obtain i where i: "stride_loop 4 f4 kend k0 (F k0) = Inr (k0 + i * 4, F (k0 + i * 4))"
    "i = 0 \<or> k0 + i * 4 \<le> kend" "kend < k0 + i * 4 + 4" using stride_loop_ok [of 4 k0 kend f4 F] s4 al by auto
  have e: "k0 + i * 4 = max k0 kend"
  proof -
    obtain q r where q: "k0 = 4 * q" "kend = 4 * r" using al by (auto elim!: dvdE)
    show ?thesis unfolding q using i(2,3) unfolding q max_def by presburger
  qed
  then have "stride_loop 1 f1 kend (max k0 kend) (F (max k0 kend)) = Inr (max k0 kend, F (max k0 kend))"
    by (subst stride_loop.simps) (simp add: less_Suc_eq_le)
  then show ?thesis using i(1) e by (simp add: quad_loop_def)
qed

lemma addonly_batched4_ok:
  assumes ok: "batch_ok X W K N M" and u: "u * 4 < N" and K: "4 dvd K" and k: "4 dvd k" "a \<le> k" "k + 4 \<le> K"
  shows "addonly_batched4 X (\<lambda>kk. bytes_u32 (col_bytes K N (pack_rows K N W)) (u * K + kk)) K M k (token_parts X W K N M M u a k) =
    Inr (token_parts X W K N M M u a (k + 4))"
proof -
  obtain g where g: "bytes_u32 (col_bytes K N (pack_rows K N W)) (u * K + k) = Inr (map g [0..<4])"
    "\<And>i s. i < 4 \<Longrightarrow> s < 4 \<Longrightarrow> dec_cmp (code_of (g i) (s * 2)) = W ! ((k + i) * N + (u * 4 + s))"
    using col_quad [OF batch_any [OF ok] k(3) K k(1) u decoders(1)] by blast
  have "rmap (\<lambda>s. rmap (\<lambda>m. rbind (load_u32 X (m * K + k)) (\<lambda>x.
      rfold (\<lambda>a i. add_only (code_of (map g [0..<4] ! i) (s * 2)) (sint (byte_of x i)) a) (token_parts X W K N M M u a k ! s ! m) [0..<4])) [0..<M]) [0..<4] =
    Inr (map (\<lambda>s. map (\<lambda>m. part (token X K m) W N (u * 4 + s) a (k + 4)) [0..<M]) [0..<4])"
  proof (rule rmap_all, rule rmap_all)
    fix s m :: nat assume "s \<in> set [0..<4]" "m \<in> set [0..<M]"
    then have s: "s < 4" and m: "m < M" by simp_all
    then show "rbind (load_u32 X (m * K + k)) (\<lambda>x. rfold (\<lambda>a i. add_only (code_of (map g [0..<4] ! i) (s * 2)) (sint (byte_of x i)) a)
        (token_parts X W K N M M u a k ! s ! m) [0..<4]) = Inr (part (token X K m) W N (u * 4 + s) a (k + 4))"
      using add_only_four [OF token_ok [OF ok m] group_in [OF batch_any [OF ok] u s] k(2,3), of g "s * 2"] g(2)
        token_quad [OF ok m k(1,3) K] by (simp add: token_parts_def)
  qed
  moreover have "map (\<lambda>s. map (\<lambda>m. part (token X K m) W N (u * 4 + s) a (k + 4)) [0..<M]) [0..<4] = token_parts X W K N M M u a (k + 4)"
    unfolding token_parts_def cells_def by (intro map_cong refl) simp
  ultimately show ?thesis using g(1) by (simp add: addonly_batched4_def)
qed

lemma mm_bitnet_addonly_batched_ok:
  assumes ok: "batch_ok X W K N M" and K: "128 dvd K" and out: "length out = M * N" and n: "N \<le> n * 4" and sc: "length Xs = M"
  shows "mm_bitnet_addonly_batched_k M X Xs (col_bytes K N (pack_rows K N W)) K N ws n out =
    Inr (token_products X W K N M (\<lambda>m. fmul F32 (Xs ! m) ws))"
  unfolding mm_bitnet_addonly_batched_k_def Let_def stretch_simp token_products_def packed_product_def
proof (rule launch_tokens [OF out])
  show N: "4 dvd N" using ok by (simp add: batch_ok_def)
  fix u assume u: "u * 4 < N"
  let ?kpt = "(K + 31) div 32" and ?cols = "col_bytes K N (pack_rows K N W)"
  let ?f4 = "addonly_batched4 X (\<lambda>kk. bytes_u32 ?cols (u * 4 div 4 * K + kk)) K M"
  let ?f1 = "addonly_batched1 X (\<lambda>kk. read_at ?cols (u * 4 div 4 * K + kk)) K M"
  have K4: "4 dvd K" using K by (rule dvd_trans [rotated]) simp
  have K23: "K \<le> 2 ^ 23" using ok by (simp add: batch_ok_def)
  let ?T = "\<lambda>i. token_parts X W K N M M u (i * ?kpt)"
  have lane: "quad_loop ?f4 ?f1 (min K (i * ?kpt + ?kpt)) (i * ?kpt) (?T i (i * ?kpt)) = Inr (?T i (lane_end ?kpt K i))" for i
    unfolding lane_end_def
  proof (rule quad_even)
    show "4 dvd i * ?kpt" "4 dvd min K (i * ?kpt + ?kpt)" using kpt_aligned [OF K] K4 by (simp_all add: min_def)
    show "?f4 k (?T i k) = Inr (?T i (k + 4))" if "4 dvd k" "i * ?kpt \<le> k" "k + 4 \<le> min K (i * ?kpt + ?kpt)" for k
      using addonly_batched4_ok [OF ok u K4 that(1,2)] that(3) by simp
  qed
  then have "rmap (\<lambda>i. quad_loop ?f4 ?f1 (min K (i * ?kpt + ?kpt)) (i * ?kpt) (replicate 4 (replicate M 0))) [0..<32] =
      Inr (map (\<lambda>i. ?T i (lane_end ?kpt K i)) [0..<32])"
    by (intro rmap_all) (simp add: token_zero)
  moreover have "rmap (\<lambda>m. rbind (read_at Xs m) (\<lambda>s. Inr (map (\<lambda>sub. (m * N + (u * 4 + sub), out_half (fmul F32 s ws)
        (map (\<lambda>s. map (\<lambda>m. dot_col (map sint (token X K m)) 0 W N K (u * 4 + s)) [0..<M]) [0..<4] ! sub ! m)))
        (filter (\<lambda>sub. u * 4 + sub < N) [0..<4])))) [0..<M] =
      Inr (map (\<lambda>m. map (\<lambda>s. (m * N + (u * 4 + s), out_half (fmul F32 (Xs ! m) ws) (dot_col (map sint (token X K m)) 0 W N K (u * 4 + s)))) [0..<4]) [0..<M])"
  proof (rule rmap_all)
    fix m assume "m \<in> set [0..<M]"
    moreover have "filter (\<lambda>sub. u * 4 + sub < N) [0..<4] = [0..<4]" using owned_in [OF _ N u] by (intro filter_True) simp
    ultimately show "rbind (read_at Xs m) (\<lambda>s. Inr (map (\<lambda>sub. (m * N + (u * 4 + sub), out_half (fmul F32 s ws)
        (map (\<lambda>s. map (\<lambda>m. dot_col (map sint (token X K m)) 0 W N K (u * 4 + s)) [0..<M]) [0..<4] ! sub ! m)))
        (filter (\<lambda>sub. u * 4 + sub < N) [0..<4]))) =
      Inr (map (\<lambda>s. (m * N + (u * 4 + s), out_half (fmul F32 (Xs ! m) ws) (dot_col (map sint (token X K m)) 0 W N K (u * 4 + s)))) [0..<4])"
      using sc by (simp add: read_at_def)
  qed
  ultimately show "(if N \<le> u * 4 then Inr [] else
       rbind (rmap (\<lambda>i. quad_loop ?f4 ?f1 (min K (i * ?kpt + ?kpt)) (i * ?kpt) (replicate 4 (replicate M 0))) [0..<32]) (\<lambda>lanes.
       rbind (reduce_cells M lanes) (\<lambda>acc.
       rbind (rmap (\<lambda>m. rbind (read_at Xs m) (\<lambda>s. Inr (map (\<lambda>sub. (m * N + (u * 4 + sub), out_half (fmul F32 s ws) (acc ! sub ! m)))
         (filter (\<lambda>sub. u * 4 + sub < N) [0..<4])))) [0..<M]) (\<lambda>cells. Inr (concat cells))))) =
      Inr (concat (map (\<lambda>m. map (\<lambda>s. (m * N + (u * 4 + s), out_half (fmul F32 (Xs ! m) ws)
        (dot_col (map sint (token X K m)) 0 W N K (u * 4 + s)))) [0..<4]) [0..<M]))"
    using u reduce_cells_ok [OF ok u order_refl kpt_facts(1,2) [OF K23]] by simp
qed (use n in simp_all)

end
