(* ===== verification/TerBatchProps.thy ===== *)
theory TerBatchProps
  imports TerBatched TerCudaProps
begin

text \<open>
  The properties of the variants and of the batched kernels: they compute the products of the
  tokens, and what happens beyond the sizes they are written for.
\<close>

section \<open>The variants and the batches\<close>

text \<open>
  C5: The variants of the packed product agree with it when the number \<open>K\<close> of rows is a multiple
  of 128 and there are at most 16 tokens (\<open>M \<le> M_MAX\<close>), with a launch that covers the columns:
  conditional additions instead of products, unpacking by the table of 256 entries, and activations
  staged in shared memory all return the rounded scaled dot product of every column; and the two
  batched kernels return, one token after another, the products of the tokens, the additions-only
  one with the scale of each token.
\<close>

theorem variant_kernels_agree:
  assumes "batch_ok X W K N M" and "0 < M" and "M \<le> M_MAX" and "128 dvd K" and "N \<le> n * 4" and "length Xs = M"
    and "length out = N" and "length outs = M * N"
  shows "let Wc = col_bytes K N (pack_rows K N W); product = packed_product X W K N in
    mm_bitnet_addonly X Wc K N scale n out = Inr (product scale) \<and>
    mm_packed_v13_lut X Wc K N sx ws n out = Inr (product (fmul F32 sx ws)) \<and>
    mm_packed_v13_cpasync X Wc K N sx ws n out = Inr (product (fmul F32 sx ws)) \<and>
    mm_packed_batched X Wc K N M scale n outs = Inr (concat (map (\<lambda>m. packed_product (drop (m * K) X) W K N scale) [0..<M])) \<and>
    mm_bitnet_addonly_batched_k M X Xs Wc K N ws n outs =
      Inr (concat (map (\<lambda>m. packed_product (drop (m * K) X) W K N (fmul F32 (Xs ! m) ws)) [0..<M]))"
proof -
  have ok: "packed_ok X W K N" using token_ok [OF assms(1,2)] by (simp add: token_def)
  show ?thesis
    using mm_bitnet_addonly_ok [OF ok assms(4,7,5)] mm_packed_v13_lut_ok [OF ok assms(4,7,5)] mm_packed_v13_cpasync_ok [OF ok assms(4,7,5)]
      mm_packed_batched_ok [OF assms(1,3,8,5)] mm_bitnet_addonly_batched_ok [OF assms(1,4,8,5,6)]
    by (simp add: token_products_def token_def)
qed

theorem variant_kernels_agree_witness:
  "let Wc = col_bytes 128 4 (pack_rows 128 4 (replicate 512 1)); product = packed_product (replicate 256 1) (replicate 512 1) 128 4 in
    mm_bitnet_addonly (replicate 256 1) Wc 128 4 fzero 1 (replicate 4 fzero) = Inr (product fzero) \<and>
    mm_packed_v13_lut (replicate 256 1) Wc 128 4 fzero fzero 1 (replicate 4 fzero) = Inr (product (fmul F32 fzero fzero)) \<and>
    mm_packed_v13_cpasync (replicate 256 1) Wc 128 4 fzero fzero 1 (replicate 4 fzero) = Inr (product (fmul F32 fzero fzero)) \<and>
    mm_packed_batched (replicate 256 1) Wc 128 4 2 fzero 1 (replicate 8 fzero) =
      Inr (concat (map (\<lambda>m. packed_product (drop (m * 128) (replicate 256 1)) (replicate 512 1) 128 4 fzero) [0..<2])) \<and>
    mm_bitnet_addonly_batched_k 2 (replicate 256 1) [fzero, fzero] Wc 128 4 fzero 1 (replicate 8 fzero) =
      Inr (concat (map (\<lambda>m. packed_product (drop (m * 128) (replicate 256 1)) (replicate 512 1) 128 4 (fmul F32 ([fzero, fzero] ! m) fzero)) [0..<2]))"
proof -
  have "batch_ok (replicate 256 1) (replicate 512 1) 128 4 2" unfolding batch_ok_def by simp
  from variant_kernels_agree [OF this, of 1 "[fzero, fzero]" "replicate 4 fzero" "replicate 8 fzero" fzero fzero fzero] show ?thesis
    by (simp add: M_MAX_def)
qed

section \<open>Beyond the sizes\<close>

text \<open>A step keeps the shape of the accumulators: a token beyond \<open>M_MAX\<close> has no cell.\<close>

definition shaped :: "nat \<Rightarrow> int list list \<Rightarrow> bool" where
  "shaped n acc \<longleftrightarrow> length acc = 4 \<and> (\<forall>row \<in> set acc. length row = n)"

lemma rfold_keeps: "rfold f a xs = Inr b \<Longrightarrow> I a \<Longrightarrow> (\<And>a x b. f a x = Inr b \<Longrightarrow> I a \<Longrightarrow> I b) \<Longrightarrow> I b"
proof (induction xs arbitrary: a)
  case (Cons x xs)
  then show ?case by (cases "f a x") auto
qed simp

lemma add_cell_shaped: "add_cell acc sub mi d = Inr acc' \<Longrightarrow> shaped n acc \<Longrightarrow> shaped n acc'"
  by (auto simp: add_cell_def rbind_eq_Inr read_at_def write_at_def shaped_def split: if_splits dest!: set_update_subset_insert [THEN subsetD])

lemma batched_step_shaped:
  assumes "batched_step X W K M Wc acc kk = Inr acc'" and "shaped n acc"
  shows "shaped n acc'"
proof -
  obtain b where b: "rfold (\<lambda>acc mi. rbind (read_at X (mi * K + kk)) (\<lambda>x. if sint x = 0 then Inr acc
      else rfold (\<lambda>acc sub. add_cell acc sub mi (dec_cmp (code_of b (sub * 2)) * sint x)) acc [0..<4])) acc [0..<M] = Inr acc'"
    using assms(1) by (auto simp: batched_step_def rbind_eq_Inr)
  show ?thesis
  proof (rule rfold_keeps [where I = "shaped n", OF b assms(2)])
    fix a mi a'
    assume s: "rbind (read_at X (mi * K + kk)) (\<lambda>x. if sint x = 0 then Inr a
      else rfold (\<lambda>acc sub. add_cell acc sub mi (dec_cmp (code_of b (sub * 2)) * sint x)) a [0..<4]) = Inr a'" and a: "shaped n a"
    show "shaped n a'"
    proof (cases "read_at X (mi * K + kk)")
      case (Inr x)
      then show ?thesis
        using s a by (cases "sint x = 0") (auto elim!: rfold_keeps [where I = "shaped n"] dest: add_cell_shaped)
    qed (use s in simp)
  qed
qed

lemma reduce_cells_beyond:
  assumes lanes: "lanes \<noteq> []" "shaped n (hd lanes)" and M: "n < M"
  shows "isl (reduce_cells M lanes)"
proof -
  obtain l ls where l: "lanes = l # ls" using lanes(1) by (cases lanes) auto
  then obtain row rows where r: "l = row # rows" "length row = n" using lanes(2) by (cases l) (auto simp: shaped_def)
  have "isl (rmap (\<lambda>mi. rbind (rmap (\<lambda>acc. rbind (read_at acc 0) (\<lambda>row. read_at row mi)) lanes) (\<lambda>v.
       rbind (warp_sum v) (\<lambda>v. Inr (v ! 0)))) [0..<M])"
    by (rule rmap_fails [of n]) (use M l r in \<open>simp_all add: read_at_def\<close>)
  then show ?thesis unfolding reduce_cells_def by (rule rmap_fails [of 0, rotated]) simp
qed

lemma mm_packed_batched_beyond:
  assumes "M_MAX < M" and "0 < N" and "0 < n"
  shows "isl (mm_packed_batched X W K N M scale n out)"
proof -
  let ?lane = "\<lambda>lane. rfold (batched_step X W K M 0) (replicate 4 (replicate M_MAX 0))
    [lane * ((K + 31) div 32)..<min K (lane * ((K + 31) div 32) + (K + 31) div 32)]"
  have "isl (rbind (rmap ?lane [0..<32]) (\<lambda>lanes. rbind (reduce_cells M lanes) g))" for g :: "int list list \<Rightarrow> (nat \<times> flt) list res"
  proof (cases "rmap ?lane [0..<32]")
    case (Inr lanes)
    have ne: "lanes \<noteq> []" using rmap_length [OF Inr] by auto
    have "?lane 0 = Inr (hd lanes)" using rmap_nth [OF Inr, of 0] by (simp add: hd_conv_nth [OF ne])
    then have "shaped M_MAX (hd lanes)"
      by (rule rfold_keeps [where I = "shaped M_MAX"]) (simp add: shaped_def, rule batched_step_shaped)
    then have "isl (reduce_cells M lanes)" by (rule reduce_cells_beyond [OF ne _ assms(1)])
    then show ?thesis using Inr rbind_fails by simp
  qed simp
  then show ?thesis
    unfolding mm_packed_batched_def Let_def stretch_simp using assms(2) by (intro launch_fails [OF assms(3)]) simp
qed

text \<open>A loop by fours from \<open>k0\<close> that cannot read row \<open>j\<close> fails.\<close>

lemma quad_loop_from_error:
  assumes j: "k0 \<le> j" "j < m" and f4: "\<And>kk a. kk \<le> j \<Longrightarrow> j < kk + 4 \<Longrightarrow> isl (f4 kk a)" and f1: "\<And>a. isl (f1 j a)"
  shows "isl (quad_loop f4 f1 m k0 acc)"
proof (cases "stride_loop 4 f4 m k0 acc")
  case (Inr p)
  obtain kk a where p: "p = (kk, a)" by (cases p)
  let ?k = "k0 + (j - k0) div 4 * 4"
  have d: "(j - k0) div 4 * 4 \<le> j - k0" "j - k0 < (j - k0) div 4 * 4 + 4" by (simp_all add: dividend_less_div_times)
  then have k: "?k \<le> j" "j < ?k + 4" using j by linarith+
  have few: "m < ?k + 4"
  proof (rule ccontr)
    assume "\<not> m < ?k + 4"
    then have "\<exists>e. stride_loop 4 f4 m k0 acc = Inl e"
      by (intro stride_loop_error [where k = ?k]) (use f4 [OF k] in \<open>auto simp: isl_def\<close>)
    then show False using Inr by simp
  qed
  have "k0 \<le> kk \<and> kk \<le> m \<and> 4 dvd kk - k0" using stride_loop_stops [of 4 f4 m k0 acc kk a] Inr p j by simp
  then obtain q where q: "kk = k0 + q * 4" "kk \<le> m" by (metis dvd_def le_add_diff_inverse mult.commute)
  then have "q * 4 < ((j - k0) div 4 + 1) * 4" using few by simp
  then have "q \<le> (j - k0) div 4" by simp
  then have "kk \<le> j" using q(1) d(1) k(1) by simp
  then have "\<exists>e. stride_loop 1 f1 m kk a = Inl e"
    by (intro stride_loop_error [where k = j]) (use f1 j in \<open>auto simp: isl_def\<close>)
  then show ?thesis using Inr p by (auto simp: quad_loop_def)
qed (simp add: quad_loop_def)

lemma smem_u32_fails: "kk \<le> j \<Longrightarrow> j < kk + 4 \<Longrightarrow> isl (smem_at sX j) \<Longrightarrow> isl (smem_u32 sX kk)"
  using rmap_fails [of j "[kk..<kk + 4]" "smem_at sX"] by (simp add: smem_u32_def rbind_fails)

lemma staged_gap:
  assumes "staged X K = Inr sX" and "\<not> 16 dvd K"
  shows "isl (smem_at sX (K - 1))"
proof -
  have l: "length sX = K" using rmap_length [OF assms(1) [unfolded staged_def]] by simp
  have K: "0 < K" "K div 16 * 16 \<le> K - 1"
  proof -
    show "0 < K" using assms(2) by (cases K) auto
    have "K div 16 * 16 \<noteq> K" using assms(2) by (metis dvd_triv_right)
    then show "K div 16 * 16 \<le> K - 1" using div_times_less_eq_dividend [of K 16] by linarith
  qed
  have "sX ! (K - 1) = None"
    using rmap_nth [OF assms(1) [unfolded staged_def], of "K - 1"] K by simp
  then show ?thesis using l K(1) by (simp add: smem_at_def read_at_def)
qed

lemma mm_packed_v13_cpasync_gap:
  assumes K: "\<not> 16 dvd K" and "0 < N" and "0 < n"
  shows "isl (mm_packed_v13_cpasync X W K N sx ws n out)"
proof -
  let ?kpt = "(K + 31) div 32"
  let ?l = "(K - 1) div ?kpt"
  have K0: "0 < K" using K by (cases K) auto
  have kpt: "0 < ?kpt" "K \<le> 32 * ?kpt" using K0 by (simp_all add: div_greater_zero_iff)
  have "K - 1 < 32 * ?kpt" using kpt K0 by linarith
  then have l: "?l < 32" using kpt(1) by (simp add: less_mult_imp_div_less)
  have lo: "?l * ?kpt \<le> K - 1" by simp
  have "K - 1 < ?l * ?kpt + ?kpt" using kpt(1) by (metis dividend_less_div_times add.commute)
  then have hi: "K - 1 < min K (?l * ?kpt + ?kpt)" using K0 by simp
  have "isl (rbind (staged X K) (\<lambda>sX. guarded N (four_columns (\<lambda>i.
      quad_loop (macs4 dec_cmp (smem_u32 sX) (rw4 i)) (macs1 4 dec_cmp (smem_at sX) (rt i)) (min K (i * ?kpt + ?kpt)) (i * ?kpt) (replicate 4 0)) s 0)))"
    for rw4 rt s
  proof (cases "staged X K")
    case (Inr sX)
    have gap: "isl (smem_at sX (K - 1))" by (rule staged_gap [OF Inr K])
    have "isl (quad_loop (macs4 dec_cmp (smem_u32 sX) (rw4 ?l)) (macs1 4 dec_cmp (smem_at sX) (rt ?l)) (min K (?l * ?kpt + ?kpt)) (?l * ?kpt) (replicate 4 0))"
    proof (rule quad_loop_from_error [OF lo hi])
      show "isl (macs4 dec_cmp (smem_u32 sX) (rw4 ?l) kk a)" if "kk \<le> K - 1" "K - 1 < kk + 4" for kk a
        using smem_u32_fails [OF that gap] by (cases "rw4 ?l kk") (simp_all add: macs4_def rbind_fails)
      show "isl (macs1 4 dec_cmp (smem_at sX) (rt ?l) (K - 1) a)" for a
        using gap by (simp add: macs1_def rbind_fails)
    qed
    then show ?thesis using Inr lanes_fail [OF l] by (simp add: guarded_def rbind_fails)
  qed simp
  then show ?thesis
    unfolding mm_packed_v13_cpasync_def Let_def stretch_simp using assms(2) by (intro launch_fails [OF assms(3)]) simp
qed

text \<open>
  C40: The batched kernel has accumulators for 16 tokens and does not check the count: a launch with
  more reads beyond them. The kernel with asynchronous copies stages whole chunks of 16 bytes only:
  when K is not a multiple of 16, a lane reads shared memory that was never written.
\<close>

theorem variant_limits:
  assumes "0 < N" and "0 < n"
  shows "(M_MAX < M \<longrightarrow> isl (mm_packed_batched X W K N M scale n out)) \<and>
    (\<not> 16 dvd K \<longrightarrow> isl (mm_packed_v13_cpasync X W K N sx ws n out))"
  using mm_packed_batched_beyond [OF _ assms] mm_packed_v13_cpasync_gap [OF _ assms] by blast

theorem variant_limits_witness:
  "isl (mm_packed_batched (replicate 1700 1) (replicate 100 1) 100 4 17 fzero 1 (replicate 68 fzero)) \<and>
    isl (mm_packed_v13_cpasync (replicate 1700 1) (replicate 100 1) 100 4 fzero fzero 1 (replicate 68 fzero))"
  using variant_limits [where N = 4 and n = 1 and M = 17 and K = 100 and X = "replicate 1700 1" and W = "replicate 100 1" and
      scale = fzero and sx = fzero and ws = fzero and out = "replicate 68 fzero"] by (simp add: M_MAX_def)

text \<open>
  The tail of the additions-only batched kernel and its main loop treat the code 3 differently: the
  main loop ignores it, the tail subtracts.
\<close>

lemma code_3_tail:
  "addonly_batched1 [5] (\<lambda>kk. Inr 3) 1 1 0 [[0], [0], [0], [0]] = Inr [[- 5], [0], [0], [0]]"
  "addonly_batched4 [5, 5, 5, 5] (\<lambda>kk. Inr [3, 3, 3, 3]) 4 1 0 [[0], [0], [0], [0]] = Inr [[0], [0], [0], [0]]"
  by code_simp+

end
