(* ===== verification/TerTensor.thy ===== *)
theory TerTensor
  imports TerBatched
begin

unbundle bit_operations_syntax

text \<open>
  The product on integer tensor cores (\<open>cuda/ter_cuda_forward_packed_v13_int4tc.cu\<close>): weights and
  activations as signed nibbles, a warp for a tile of eight columns, and one
  \<open>mma.m8n8k32\<close> for 32 rows. Two versions: activations clamped to -7 .. 7, and activations split
  into a high and a low nibble, whose sums are recombined with the column sums of the weights.
\<close>

section \<open>Nibbles\<close>

definition nibble :: "32 word \<Rightarrow> nat \<Rightarrow> int" where
  "nibble w i = sint (ucast (drop_bit (4 * i) w) :: 4 word)"

definition trit_to_int4 :: "int \<Rightarrow> 8 word" where
  "trit_to_int4 t = (if t = 1 then 1 else if t = 2 then 15 else 0)"

text \<open>\<open>packed |= (nib & 0xF) << (i * 4)\<close>.\<close>

definition eight_of :: "(nat \<Rightarrow> 8 word) \<Rightarrow> 32 word" where
  "eight_of f = foldl (\<lambda>w i. w OR push_bit (i * 4) (ucast (f i AND 15))) 0 [0..<8]"

definition byte_of_pair :: "int \<Rightarrow> int \<Rightarrow> 8 word" where
  "byte_of_pair a b = word_of_int ((a AND 15) OR push_bit 4 (b AND 15))"

section \<open>Weights\<close>

text \<open>The word of a lane: eight rows of one of the eight columns of the tile.\<close>

definition lane_word :: "8 word list \<Rightarrow> nat \<Rightarrow> nat \<Rightarrow> nat \<Rightarrow> nat \<Rightarrow> 32 word res" where
  "lane_word W_col K n_tile k_tile L =
     (let groupID = L div 4; tig = L mod 4; n = n_tile * 8 + groupID in
      rbind (rmap (\<lambda>i. rbind (read_at W_col (n div 4 * K + (k_tile * 32 + tig * 8 + i))) (\<lambda>b.
        Inr (trit_to_int4 (code_of b (n mod 4 * 2))))) [0..<8]) (\<lambda>nibs.
      Inr (eight_of (\<lambda>i. nibs ! i))))"

definition repack_trits_to_int4_host :: "8 word list \<Rightarrow> nat \<Rightarrow> nat \<Rightarrow> 32 word list res" where
  "repack_trits_to_int4_host W_col K N =
     (if K mod 32 \<noteq> 0 then Inl (RuntimeError ''K % 32 == 0'')
      else if N mod 8 \<noteq> 0 then Inl (RuntimeError ''N % 8 == 0'')
      else rbind (rmap (\<lambda>n_tile. rbind (rmap (\<lambda>k_tile. rmap (lane_word W_col K n_tile k_tile) [0..<32]) [0..<K div 32]) (\<lambda>ws.
             Inr (concat ws))) [0..<N div 8]) (\<lambda>ws.
           Inr (concat ws)))"

definition compute_w_sum_k :: "8 word list \<Rightarrow> nat \<Rightarrow> nat \<Rightarrow> int list res" where
  "compute_w_sum_k W_col K N =
     rmap (\<lambda>n. rfold (\<lambda>acc k. rbind (read_at W_col (n div 4 * K + k)) (\<lambda>b.
       add_i32 acc (dec_cmp (code_of b (n mod 4 * 2))))) 0 [0..<K]) [0..<N]"

section \<open>Activations\<close>

definition clamp7 :: "int \<Rightarrow> int" where
  "clamp7 a = (let a = if a < - 7 then - 7 else a in if a > 7 then 7 else a)"

definition quant_int8_to_int4_k :: "8 word list \<Rightarrow> nat \<Rightarrow> 8 word list res" where
  "quant_int8_to_int4_k X K =
     rmap (\<lambda>tid. rbind (read_at X (2 * tid)) (\<lambda>a. rbind (read_at X (2 * tid + 1)) (\<lambda>b.
       Inr (byte_of_pair (clamp7 (sint a)) (clamp7 (sint b)))))) [0..<K div 2]"

text \<open>The host version of the same packing.\<close>

definition repack_x_int8_to_int4_host :: "8 word list \<Rightarrow> nat \<Rightarrow> 8 word list res" where
  "repack_x_int8_to_int4_host X K =
     (if K mod 2 \<noteq> 0 then Inl (RuntimeError ''K % 2 == 0'')
      else rmap (\<lambda>i. rbind (read_at X (2 * i)) (\<lambda>a. rbind (read_at X (2 * i + 1)) (\<lambda>b.
        Inr (byte_of_pair (clamp7 (sint a)) (clamp7 (sint b)))))) [0..<K div 2])"

lemma host_packs_alike: "even K \<Longrightarrow> repack_x_int8_to_int4_host X K = quant_int8_to_int4_k X K"
  by (simp add: repack_x_int8_to_int4_host_def quant_int8_to_int4_k_def)

definition hi4 :: "int \<Rightarrow> int" where
  "hi4 a = drop_bit 4 a"

definition lo4 :: "int \<Rightarrow> int" where
  "lo4 a = (a AND 15) - 8"

definition quant_int8_to_int4_p_k :: "8 word list \<Rightarrow> nat \<Rightarrow> (8 word \<times> 8 word) list res" where
  "quant_int8_to_int4_p_k X K =
     rmap (\<lambda>tid. rbind (read_at X (2 * tid)) (\<lambda>a. rbind (read_at X (2 * tid + 1)) (\<lambda>b.
       Inr (byte_of_pair (hi4 (sint a)) (hi4 (sint b)), byte_of_pair (lo4 (sint a)) (lo4 (sint b)))))) [0..<K div 2]"

section \<open>The kernels\<close>

text \<open>
  \<open>mma.sync.aligned.m8n8k32.row.col.s32.s4.s4.s32\<close> without saturation, on the fragments of the 32
  lanes: lane \<open>L\<close> holds row \<open>L / 4\<close> of A and column \<open>L / 4\<close> of B, eight entries from \<open>L mod 4 * 8\<close>
  on, and the two entries of row \<open>L / 4\<close> of C from column \<open>L mod 4 * 2\<close> on.
\<close>

definition mma_m8n8k32 :: "32 word list \<Rightarrow> 32 word list \<Rightarrow> int list list \<Rightarrow> int list list" where
  "mma_m8n8k32 a b c =
     map (\<lambda>L. map (\<lambda>i. to_i32 (c ! L ! i +
       (\<Sum>k\<leftarrow>[0..<32]. nibble (a ! (L div 4 * 4 + k div 8)) (k mod 8) * nibble (b ! ((L mod 4 * 2 + i) * 4 + k div 8)) (k mod 8)))) [0..<2]) [0..<32]"

definition load_a_frag_m1 :: "8 word list \<Rightarrow> nat \<Rightarrow> nat \<Rightarrow> 32 word res" where
  "load_a_frag_m1 X_int4 k_base tig = load_u32 X_int4 ((k_base + tig * 8) div 2)"

text \<open>
  The fragments of all lanes for one k-tile; the accumulators of a lane are two. The instruction is
  compiled in from \<open>__CUDA_ARCH__\<close> 800 on; below, the accumulators stay zero.
\<close>

definition a_frags :: "8 word list \<Rightarrow> nat \<Rightarrow> 32 word list res" where
  "a_frags X_int4 kt = rmap (\<lambda>lane. load_a_frag_m1 X_int4 (kt * 32) (lane mod 4)) [0..<32]"

definition b_frags :: "32 word list \<Rightarrow> nat \<Rightarrow> nat \<Rightarrow> nat \<Rightarrow> 32 word list res" where
  "b_frags W_int4 n_tile k_tiles kt = rmap (\<lambda>lane. read_at W_int4 (n_tile * k_tiles * 32 + (kt * 32 + lane))) [0..<32]"

definition mma_tiles :: "nat \<Rightarrow> 8 word list \<Rightarrow> 32 word list \<Rightarrow> nat \<Rightarrow> nat \<Rightarrow> int list list res" where
  "mma_tiles arch X_int4 W_int4 n_tile k_tiles =
     rfold (\<lambda>acc kt. rbind (a_frags X_int4 kt) (\<lambda>a. rbind (b_frags W_int4 n_tile k_tiles kt) (\<lambda>b.
       Inr (if 800 \<le> arch then mma_m8n8k32 a b acc else acc)))) (replicate 32 [0, 0]) [0..<k_tiles]"

definition mma_tiles_p :: "nat \<Rightarrow> 8 word list \<Rightarrow> 8 word list \<Rightarrow> 32 word list \<Rightarrow> nat \<Rightarrow> nat \<Rightarrow> (int list list \<times> int list list) res" where
  "mma_tiles_p arch X_hi X_lo W_int4 n_tile k_tiles =
     (if arch < 800 then Inr (replicate 32 [0, 0], replicate 32 [0, 0]) else
     rfold (\<lambda>(hi, lo) kt. rbind (a_frags X_hi kt) (\<lambda>a_hi. rbind (a_frags X_lo kt) (\<lambda>a_lo. rbind (b_frags W_int4 n_tile k_tiles kt) (\<lambda>b.
       Inr (mma_m8n8k32 a_hi b hi, mma_m8n8k32 a_lo b lo))))) (replicate 32 [0, 0], replicate 32 [0, 0]) [0..<k_tiles])"

text \<open>The lanes of group 0 write the eight columns of the tile, two each.\<close>

definition tile_outputs :: "(nat \<Rightarrow> nat \<Rightarrow> int res) \<Rightarrow> nat \<Rightarrow> nat \<Rightarrow> flt \<Rightarrow> (nat \<times> flt) list res" where
  "tile_outputs y n_base N scale =
     rmap (\<lambda>(tig, i). rbind (y tig i) (\<lambda>v. Inr (n_base + (tig * 2 + i), out_half scale v)))
       (filter (\<lambda>(tig, i). n_base + (tig * 2 + i) < N) (concat (map (\<lambda>tig. map (\<lambda>i. (tig, i)) [0..<2]) [0..<4])))"

definition mm_packed_v13_int4tc :: "nat \<Rightarrow> 8 word list \<Rightarrow> 32 word list \<Rightarrow> nat \<Rightarrow> nat \<Rightarrow> flt \<Rightarrow> flt \<Rightarrow> nat \<Rightarrow> flt list \<Rightarrow> flt list res" where
  "mm_packed_v13_int4tc arch X_int4 W_int4 K N scale_x w_scale n out =
     launch n (\<lambda>n_tile. let n_base = n_tile * 8 in if n_base \<ge> N then Inr [] else
       rbind (mma_tiles arch X_int4 W_int4 n_tile (K div 32)) (\<lambda>acc.
       tile_outputs (\<lambda>tig i. Inr (acc ! tig ! i)) n_base N (fmul F32 scale_x w_scale))) out"

definition mm_packed_v13_int4tc_p ::
  "nat \<Rightarrow> 8 word list \<Rightarrow> 8 word list \<Rightarrow> 32 word list \<Rightarrow> int list \<Rightarrow> nat \<Rightarrow> nat \<Rightarrow> flt \<Rightarrow> flt \<Rightarrow> nat \<Rightarrow> flt list \<Rightarrow> flt list res" where
  "mm_packed_v13_int4tc_p arch X_hi X_lo W_int4 W_sum K N scale_x w_scale n out =
     launch n (\<lambda>n_tile. let n_base = n_tile * 8 in if n_base \<ge> N then Inr [] else
       rbind (mma_tiles_p arch X_hi X_lo W_int4 n_tile (K div 32)) (\<lambda>(hi, lo).
       tile_outputs (\<lambda>tig i. rbind (read_at W_sum (n_base + (tig * 2 + i))) (\<lambda>s.
         rbind (mul_i32 16 (hi ! tig ! i)) (\<lambda>h. rbind (add_i32 h (lo ! tig ! i)) (\<lambda>hl.
         rbind (mul_i32 8 s) (\<lambda>s8. add_i32 hl s8))))) n_base N (fmul F32 scale_x w_scale))) out"

text \<open>The launch wrappers: eight warps a block, and blocks for all tiles.\<close>

definition tile_warps :: "nat \<Rightarrow> nat" where
  "tile_warps N = (let n_tiles = (N + 7) div 8; blocks = (n_tiles + 7) div 8 in blocks * 8)"

definition launch_mm_packed_v13_int4tc :: "nat \<Rightarrow> 8 word list \<Rightarrow> 32 word list \<Rightarrow> nat \<Rightarrow> nat \<Rightarrow> flt \<Rightarrow> flt \<Rightarrow> flt list \<Rightarrow> flt list res" where
  "launch_mm_packed_v13_int4tc arch X W_int4 K N scale ws out =
     rbind (quant_int8_to_int4_k X K) (\<lambda>X_int4.
     mm_packed_v13_int4tc arch X_int4 W_int4 K N scale ws (tile_warps N) out)"

definition launch_mm_packed_v13_int4tc_p :: "nat \<Rightarrow> 8 word list \<Rightarrow> 32 word list \<Rightarrow> int list \<Rightarrow> nat \<Rightarrow> nat \<Rightarrow> flt \<Rightarrow> flt \<Rightarrow> flt list \<Rightarrow> flt list res" where
  "launch_mm_packed_v13_int4tc_p arch X W_int4 W_sum K N scale ws out =
     rbind (quant_int8_to_int4_p_k X K) (\<lambda>q.
     mm_packed_v13_int4tc_p arch (map fst q) (map snd q) W_int4 W_sum K N scale ws (tile_warps N) out)"

section \<open>Nibbles, facts\<close>

lemma upt_8: "[0..<8] = [0, 1, 2, 3, 4, 5, 6, 7 :: nat]"
  by code_simp

lemma less_8: "i < 8 \<longleftrightarrow> i = 0 \<or> i = 1 \<or> i = 2 \<or> i = 3 \<or> i = 4 \<or> i = 5 \<or> i = 6 \<or> i = (7 :: nat)"
  by arith

lemma less_4: "i < 4 \<longleftrightarrow> i = 0 \<or> i = 1 \<or> i = 2 \<or> i = (3 :: nat)"
  by arith

lemma nibble_eight:
  assumes "i < 8"
  shows "nibble (eight_of f) i = sint (ucast (f i) :: 4 word)"
proof -
  have "(ucast (drop_bit (4 * i) (eight_of f)) :: 4 word) = ucast (f i)"
  proof (rule bit_word_eqI)
    fix n assume "n < LENGTH(4)"
    then have n: "n = 0 \<or> n = 1 \<or> n = 2 \<or> n = 3" by (simp add: less_4)
    have i: "i = 0 \<or> i = 1 \<or> i = 2 \<or> i = 3 \<or> i = 4 \<or> i = 5 \<or> i = 6 \<or> i = 7" using assms by (simp add: less_8)
    show "bit (ucast (drop_bit (4 * i) (eight_of f)) :: 4 word) n \<longleftrightarrow> bit (ucast (f i) :: 4 word) n"
      using n i
      by (elim disjE) (simp_all add: eight_of_def upt_8 bit_simps)
  qed
  then show ?thesis by (simp add: nibble_def)
qed

lemma nibble_quad:
  assumes "length q = 4" and "i < 8"
  shows "nibble (quad_of q) i = sint (ucast (drop_bit (4 * (i mod 2)) (q ! (i div 2))) :: 4 word)"
proof -
  have "(ucast (drop_bit (4 * i) w) :: 4 word) = ucast (drop_bit (4 * (i mod 2)) (byte_of w (i div 2)))" for w
  proof (rule bit_word_eqI)
    fix n assume n: "n < LENGTH(4)"
    have e: "8 * (i div 2) + (4 * (i mod 2) + n) = 4 * i + n" by presburger
    have l: "4 * (i mod 2) + n < 8" using n by simp
    have ff: "bit (0xff :: 32 word) (4 * (i mod 2) + n)"
    proof -
      have "(mask 8 :: 32 word) = 0xff" by (simp add: mask_eq_exp_minus_1)
      moreover have "bit (mask 8 :: 32 word) (4 * (i mod 2) + n)" unfolding bit_mask_iff using l by simp
      ultimately show ?thesis by (simp only:)
    qed
    have "bit (ucast (drop_bit (4 * i) w) :: 4 word) n \<longleftrightarrow> bit w (8 * (i div 2) + (4 * (i mod 2) + n))"
      unfolding e using n by (simp add: bit_ucast_iff bit_drop_bit_eq)
    also have "\<dots> \<longleftrightarrow> bit (byte_of w (i div 2)) (4 * (i mod 2) + n)"
      using l ff by (simp add: byte_of_def bit_ucast_iff bit_drop_bit_eq bit_and_iff)
    also have "\<dots> \<longleftrightarrow> bit (ucast (drop_bit (4 * (i mod 2)) (byte_of w (i div 2))) :: 4 word) n"
      using n by (simp add: bit_ucast_iff bit_drop_bit_eq)
    finally show "bit (ucast (drop_bit (4 * i) w) :: 4 word) n \<longleftrightarrow> bit (ucast (drop_bit (4 * (i mod 2)) (byte_of w (i div 2))) :: 4 word) n" .
  qed
  then show ?thesis using byte_of_quad [OF assms(1), of "i div 2"] assms(2) by (simp add: nibble_def)
qed

lemma pair_nibbles:
  assumes "- 8 \<le> a" "a < 8" "- 8 \<le> b" "b < 8"
  shows "sint (ucast (byte_of_pair a b) :: 4 word) = a" "sint (ucast (drop_bit 4 (byte_of_pair a b)) :: 4 word) = b"
proof -
  have bit15: "bit (15 :: int) n \<longleftrightarrow> n < 4" for n
  proof -
    have m: "(15 :: int) = mask 4" by (simp add: mask_eq_exp_minus_1)
    show ?thesis unfolding m by (simp only: bit_mask_iff) simp
  qed
  have "(ucast (byte_of_pair a b) :: 4 word) = word_of_int a"
    by (rule bit_word_eqI) (simp add: byte_of_pair_def bit_simps bit15)
  moreover have "(ucast (drop_bit 4 (byte_of_pair a b)) :: 4 word) = word_of_int b"
    by (rule bit_word_eqI) (auto simp: byte_of_pair_def bit_simps bit15 simp del: push_bit_and)
  moreover have "sint (word_of_int c :: 4 word) = c" if "- 8 \<le> c" "c < 8" for c
    using that by (simp add: signed_of_int signed_take_bit_int_eq_self)
  ultimately show "sint (ucast (byte_of_pair a b) :: 4 word) = a" "sint (ucast (drop_bit 4 (byte_of_pair a b)) :: 4 word) = b"
    using assms by simp_all
qed

lemma trit_nibble: "sint (ucast (trit_to_int4 t) :: 4 word) = dec_cmp t"
  by (simp add: trit_to_int4_def dec_cmp_def)

section \<open>Fragments\<close>

definition nibbled :: "(nat \<Rightarrow> int) \<Rightarrow> nat \<Rightarrow> 8 word list" where
  "nibbled x K = map (\<lambda>t. byte_of_pair (x (2 * t)) (x (2 * t + 1))) [0..<K div 2]"

lemma nibbled_nibble:
  assumes "\<And>k. k < K \<Longrightarrow> - 8 \<le> x k \<and> x k < 8" and "even K" and "k < K"
  shows "sint (ucast (drop_bit (4 * (k mod 2)) (nibbled x K ! (k div 2))) :: 4 word) = x k"
proof -
  have t: "2 * (k div 2) < K" "2 * (k div 2) + 1 < K" "k div 2 < K div 2" using assms(2,3) by presburger+
  have n: "nibbled x K ! (k div 2) = byte_of_pair (x (2 * (k div 2))) (x (2 * (k div 2) + 1))" using t(3) by (simp add: nibbled_def)
  have r: "- 8 \<le> x (2 * (k div 2))" "x (2 * (k div 2)) < 8" "- 8 \<le> x (2 * (k div 2) + 1)" "x (2 * (k div 2) + 1) < 8"
    using assms(1) [OF t(1)] assms(1) [OF t(2)] by simp_all
  show ?thesis
  proof (cases "even k")
    case True
    then have e: "k mod 2 = 0" "2 * (k div 2) = k" by simp_all
    show ?thesis unfolding n e(1) using pair_nibbles(1) [OF r] e(2) by simp
  next
    case False
    then have e: "k mod 2 = 1" "2 * (k div 2) + 1 = k" by presburger+
    show ?thesis unfolding n e(1) using pair_nibbles(2) [OF r] e(2) by simp
  qed
qed

lemma a_frags_ok:
  assumes x: "\<And>k. k < K \<Longrightarrow> - 8 \<le> x k \<and> x k < 8" and K: "32 dvd K" and kt: "kt < K div 32"
  shows "\<exists>a. a_frags (nibbled x K) kt = Inr a \<and> (\<forall>r < 8. \<forall>k < 32. nibble (a ! (r * 4 + k div 8)) (k mod 8) = x (kt * 32 + k))"
proof -
  obtain q where q: "K = 32 * q" using K by (auto elim!: dvdE)
  let ?q = "\<lambda>tig. map (\<lambda>i. nibbled x K ! (kt * 16 + tig * 4 + i)) [0..<4]"
  have len: "length (nibbled x K) = 16 * q" by (simp add: nibbled_def q)
  have load: "load_a_frag_m1 (nibbled x K) (kt * 32) tig = Inr (quad_of (?q tig))" if "tig < 4" for tig
  proof -
    have o: "(kt * 32 + tig * 8) div 2 = kt * 16 + tig * 4" by simp
    have m: "(kt * 16 + tig * 4) mod 4 = 0" by presburger
    have "rmap (read_at (nibbled x K)) [kt * 16 + tig * 4..<kt * 16 + tig * 4 + 4] = Inr (?q tig)"
      by (rule rmap_reads) (use that kt in \<open>simp add: read_at_def nibbled_def q\<close>)
    then show ?thesis unfolding load_a_frag_m1_def o load_u32_def using m by simp
  qed
  let ?a = "map (\<lambda>L. quad_of (?q (L mod 4))) [0..<32]"
  have "a_frags (nibbled x K) kt = Inr ?a"
    unfolding a_frags_def by (rule rmap_all) (simp add: load)
  moreover have "nibble (?a ! (r * 4 + k div 8)) (k mod 8) = x (kt * 32 + k)" if "r < 8" "k < 32" for r k
  proof -
    have i: "r * 4 + k div 8 < 32" "(r * 4 + k div 8) mod 4 = k div 8" "k mod 8 div 2 < 4"
    proof -
      have c: "k div 8 < 4" using that(2) by (simp add: less_mult_imp_div_less)
      then show "r * 4 + k div 8 < 32" "(r * 4 + k div 8) mod 4 = k div 8" using that(1) by simp_all
      show "k mod 8 div 2 < 4" by (simp add: less_mult_imp_div_less)
    qed
    have e: "kt * 16 + k div 8 * 4 + k mod 8 div 2 = (kt * 32 + k) div 2" "k mod 8 mod 2 = (kt * 32 + k) mod 2"
    proof -
      have "(8 * c + d) div 2 = c * 4 + d div 2" for c d :: nat by presburger
      from this [of "k div 8" "k mod 8"] have "k div 2 = k div 8 * 4 + k mod 8 div 2" by simp
      moreover have "(kt * 32 + k) div 2 = kt * 16 + k div 2" by simp
      ultimately show "kt * 16 + k div 8 * 4 + k mod 8 div 2 = (kt * 32 + k) div 2" by simp
      have "k mod 8 mod 2 = k mod 2" by (rule mod_mod_cancel) simp
      moreover have "(kt * 32 + k) mod 2 = k mod 2" by (metis dvd_mult mod_add_left_eq mod_eq_0_iff_dvd add_0 even_numeral)
      ultimately show "k mod 8 mod 2 = (kt * 32 + k) mod 2" by simp
    qed
    have b: "kt * 32 + k < K" using kt that(2) q by simp
    have ev: "even K" by (simp add: q)
    have "nibble (?a ! (r * 4 + k div 8)) (k mod 8) = nibble (quad_of (?q (k div 8))) (k mod 8)" using i(1,2) by simp
    also have "\<dots> = sint (ucast (drop_bit (4 * (k mod 8 mod 2)) (?q (k div 8) ! (k mod 8 div 2))) :: 4 word)"
      by (rule nibble_quad) simp_all
    also have "?q (k div 8) ! (k mod 8 div 2) = nibbled x K ! ((kt * 32 + k) div 2)" using i(3) e(1) by simp
    also have "sint (ucast (drop_bit (4 * (k mod 8 mod 2)) (nibbled x K ! ((kt * 32 + k) div 2))) :: 4 word) = x (kt * 32 + k)"
      unfolding e(2) by (rule nibbled_nibble [OF x ev b])
    finally show ?thesis .
  qed
  ultimately show ?thesis by blast
qed

text \<open>The repacked weights.\<close>

lemma lane_word_ok:
  assumes ok: "packed_ok X W K N" and K: "k_tile < K div 32" and N: "n_tile * 8 + 8 \<le> N" and L: "L < 32"
  shows "\<exists>w. lane_word (col_bytes K N (pack_rows K N W)) K n_tile k_tile L = Inr w \<and>
    (\<forall>i < 8. nibble w i = W ! ((k_tile * 32 + L mod 4 * 8 + i) * N + (n_tile * 8 + L div 4)))"
proof -
  let ?n = "n_tile * 8 + L div 4"
  have n: "?n < N" using N L by simp
  have k: "k_tile * 32 + L mod 4 * 8 + i < K" if "i < 8" for i
  proof -
    have "(k_tile + 1) * 32 \<le> K div 32 * 32" using K by simp
    also have "\<dots> \<le> K" by (rule div_times_less_eq_dividend)
    finally have "k_tile * 32 + 32 \<le> K" by simp
    moreover have "L mod 4 * 8 + i < 32" using that by presburger
    ultimately show ?thesis by linarith
  qed
  have "\<forall>i. \<exists>b. i < 8 \<longrightarrow> read_at (col_bytes K N (pack_rows K N W)) (?n div 4 * K + (k_tile * 32 + L mod 4 * 8 + i)) = Inr b \<and>
      dec_cmp (code_of b (?n mod 4 * 2)) = W ! ((k_tile * 32 + L mod 4 * 8 + i) * N + ?n)"
    using col_byte [OF ok k n decoders(1)] by blast
  then obtain b where b: "\<And>i. i < 8 \<Longrightarrow> read_at (col_bytes K N (pack_rows K N W)) (?n div 4 * K + (k_tile * 32 + L mod 4 * 8 + i)) = Inr (b i)"
    "\<And>i. i < 8 \<Longrightarrow> dec_cmp (code_of (b i) (?n mod 4 * 2)) = W ! ((k_tile * 32 + L mod 4 * 8 + i) * N + ?n)"
    by metis
  let ?f = "\<lambda>i. trit_to_int4 (code_of (b i) (?n mod 4 * 2))"
  have "rmap (\<lambda>i. rbind (read_at (col_bytes K N (pack_rows K N W)) (?n div 4 * K + (k_tile * 32 + L mod 4 * 8 + i))) (\<lambda>b.
      Inr (trit_to_int4 (code_of b (?n mod 4 * 2))))) [0..<8] = Inr (map ?f [0..<8])"
    by (rule rmap_all) (simp add: b(1))
  then have "lane_word (col_bytes K N (pack_rows K N W)) K n_tile k_tile L = Inr (eight_of (\<lambda>i. map ?f [0..<8] ! i))"
    by (simp add: lane_word_def Let_def)
  moreover have "nibble (eight_of (\<lambda>i. map ?f [0..<8] ! i)) i = W ! ((k_tile * 32 + L mod 4 * 8 + i) * N + ?n)" if "i < 8" for i
    using that b(2) by (simp add: nibble_eight trit_nibble del: upt.simps)
  ultimately show ?thesis by blast
qed

definition int4_of :: "32 word list \<Rightarrow> int list \<Rightarrow> nat \<Rightarrow> nat \<Rightarrow> bool" where
  "int4_of W4 W K N \<longleftrightarrow> length W4 = N div 8 * (K div 32 * 32) \<and>
     (\<forall>nt < N div 8. \<forall>kt < K div 32. \<forall>L < 32. \<forall>i < 8. nibble (W4 ! (nt * (K div 32 * 32) + (kt * 32 + L))) i =
        W ! ((kt * 32 + L mod 4 * 8 + i) * N + (nt * 8 + L div 4)))"

lemma repack_ok:
  assumes ok: "packed_ok X W K N" and K: "32 dvd K" and N: "8 dvd N"
  shows "\<exists>W4. repack_trits_to_int4_host (col_bytes K N (pack_rows K N W)) K N = Inr W4 \<and> int4_of W4 W K N"
proof -
  let ?c = "col_bytes K N (pack_rows K N W)"
  define w where "w = (\<lambda>nt kt L. projr (lane_word ?c K nt kt L))"
  have w: "lane_word ?c K nt kt L = Inr (w nt kt L) \<and>
      (\<forall>i < 8. nibble (w nt kt L) i = W ! ((kt * 32 + L mod 4 * 8 + i) * N + (nt * 8 + L div 4)))"
    if "nt < N div 8" "kt < K div 32" "L < 32" for nt kt L
  proof -
    obtain q where "N = 8 * q" using N by (auto elim!: dvdE)
    then have "nt * 8 + 8 \<le> N" using that(1) by simp
    then show ?thesis using lane_word_ok [OF ok that(2) _ that(3), of nt] by (auto simp: w_def)
  qed
  define g where "g = (\<lambda>nt i. w nt (i div 32) (i mod 32))"
  let ?W4 = "concat (map (\<lambda>nt. map (g nt) [0..<K div 32 * 32]) [0..<N div 8])"
  have "rbind (rmap (\<lambda>kt. rmap (lane_word ?c K nt kt) [0..<32]) [0..<K div 32]) (\<lambda>ws. Inr (concat ws)) = Inr (map (g nt) [0..<K div 32 * 32])"
    if "nt < N div 8" for nt
  proof -
    have "rmap (\<lambda>kt. rmap (lane_word ?c K nt kt) [0..<32]) [0..<K div 32] = Inr (map (\<lambda>kt. map (w nt kt) [0..<32]) [0..<K div 32])"
      by (rule rmap_all, rule rmap_all) (use w that in simp)
    then show ?thesis using concat_flat [of "w nt" 32 "K div 32"] by (simp add: g_def)
  qed
  then have "rmap (\<lambda>nt. rbind (rmap (\<lambda>kt. rmap (lane_word ?c K nt kt) [0..<32]) [0..<K div 32]) (\<lambda>ws. Inr (concat ws))) [0..<N div 8] =
      Inr (map (\<lambda>nt. map (g nt) [0..<K div 32 * 32]) [0..<N div 8])"
    by (intro rmap_all) simp
  then have "repack_trits_to_int4_host ?c K N = Inr ?W4"
    using K N by (simp add: repack_trits_to_int4_host_def dvd_eq_mod_eq_0)
  moreover have "int4_of ?W4 W K N"
    unfolding int4_of_def
  proof (intro conjI allI impI)
    show "length ?W4 = N div 8 * (K div 32 * 32)" by (rule concat_cells_length)
    fix nt kt L i :: nat assume a: "nt < N div 8" "kt < K div 32" "L < 32" "i < 8"
    have "kt * 32 + L < K div 32 * 32" using a(2,3) by (rule entry_in)
    then have "?W4 ! (nt * (K div 32 * 32) + (kt * 32 + L)) = g nt (kt * 32 + L)" by (rule concat_cells [OF a(1)])
    then show "nibble (?W4 ! (nt * (K div 32 * 32) + (kt * 32 + L))) i = W ! ((kt * 32 + L mod 4 * 8 + i) * N + (nt * 8 + L div 4))"
      using w [OF a(1,2,3)] a(3,4) by (simp add: g_def)
  qed
  ultimately show ?thesis by blast
qed

lemma b_frags_ok:
  assumes W: "int4_of W4 W K N" and nt: "nt < N div 8" and kt: "kt < K div 32"
  shows "\<exists>b. b_frags W4 nt (K div 32) kt = Inr b \<and> (\<forall>c < 8. \<forall>k < 32. nibble (b ! (c * 4 + k div 8)) (k mod 8) = W ! ((kt * 32 + k) * N + (nt * 8 + c)))"
proof -
  let ?b = "map (\<lambda>L. W4 ! (nt * (K div 32 * 32) + (kt * 32 + L))) [0..<32]"
  have "b_frags W4 nt (K div 32) kt = Inr ?b"
    unfolding b_frags_def
  proof (rule rmap_all)
    fix L :: nat assume "L \<in> set [0..<32]"
    then have "kt * 32 + L < K div 32 * 32" using entry_in [OF kt, of L 32] by simp
    then have "nt * (K div 32 * 32) + (kt * 32 + L) < length W4" using entry_in [OF nt] W by (simp add: int4_of_def)
    then show "read_at W4 (nt * (K div 32) * 32 + (kt * 32 + L)) = Inr (W4 ! (nt * (K div 32 * 32) + (kt * 32 + L)))"
      by (simp add: read_at_def mult.assoc)
  qed
  moreover have "nibble (?b ! (c * 4 + k div 8)) (k mod 8) = W ! ((kt * 32 + k) * N + (nt * 8 + c))" if "c < 8" "k < 32" for c k
  proof -
    have d: "k div 8 < 4" using that(2) by (simp add: less_mult_imp_div_less)
    then have L: "c * 4 + k div 8 < 32" "(c * 4 + k div 8) mod 4 = k div 8" "(c * 4 + k div 8) div 4 = c" using that(1) by simp_all
    have "nibble (?b ! (c * 4 + k div 8)) (k mod 8) = nibble (W4 ! (nt * (K div 32 * 32) + (kt * 32 + (c * 4 + k div 8)))) (k mod 8)"
      using L(1) by simp
    also have "\<dots> = W ! ((kt * 32 + (c * 4 + k div 8) mod 4 * 8 + k mod 8) * N + (nt * 8 + (c * 4 + k div 8) div 4))"
      using W nt kt L(1) unfolding int4_of_def by simp
    also have "kt * 32 + (c * 4 + k div 8) mod 4 * 8 + k mod 8 = kt * 32 + k" unfolding L(2) by simp
    finally show ?thesis unfolding L(3) .
  qed
  ultimately show ?thesis by blast
qed

section \<open>The tiles\<close>

definition nib_sum :: "(nat \<Rightarrow> int) \<Rightarrow> int list \<Rightarrow> nat \<Rightarrow> nat \<Rightarrow> nat \<Rightarrow> int" where
  "nib_sum x W N j m = (\<Sum>k < m. x k * W ! (k * N + j))"

lemma nib_sum_bound:
  assumes ok: "packed_ok X W K N" and x: "\<And>k. k < K \<Longrightarrow> - 8 \<le> x k \<and> x k < 8" and j: "j < N" and m: "m \<le> K"
  shows "\<bar>nib_sum x W N j m\<bar> \<le> 2 ^ 26"
proof -
  have "\<bar>nib_sum x W N j m\<bar> \<le> (\<Sum>k < m. \<bar>x k * W ! (k * N + j)\<bar>)" unfolding nib_sum_def by (rule sum_abs)
  also have "\<dots> \<le> (\<Sum>k < m. 8)"
  proof (rule sum_mono)
    fix k assume "k \<in> {..<m}"
    then have k: "k < K" using m by simp
    have "\<bar>x k\<bar> \<le> 8" using x [OF k] by linarith
    then show "\<bar>x k * W ! (k * N + j)\<bar> \<le> 8" using packed_trit [OF ok k j] by (elim disjE) simp_all
  qed
  also have "\<dots> = 8 * int m" by simp
  also have "\<dots> \<le> 8 * 2 ^ 23"
  proof -
    have "m \<le> 2 ^ 23" using m ok by (simp add: packed_ok_def)
    then have "int m \<le> int (2 ^ 23)" by (rule of_nat_mono)
    then show ?thesis by simp
  qed
  finally show ?thesis by simp
qed

lemma sum_add_split: "(\<Sum>k < a + b. f k) = (\<Sum>k < a. f k) + (\<Sum>k < b. f (a + k :: nat))" for f :: "nat \<Rightarrow> int"
  by (induction b) (simp_all add: add.assoc)

definition tile_acc :: "(nat \<Rightarrow> int) \<Rightarrow> int list \<Rightarrow> nat \<Rightarrow> nat \<Rightarrow> nat \<Rightarrow> int list list" where
  "tile_acc x W N nt kt = map (\<lambda>L. map (\<lambda>i. nib_sum x W N (nt * 8 + (L mod 4 * 2 + i)) (kt * 32)) [0..<2]) [0..<32]"

lemma tile_acc_0: "tile_acc x W N nt 0 = replicate 32 [0, 0]"
proof -
  have "[0..<2] = [0, 1 :: nat]" by (simp add: upt_rec)
  then show ?thesis by (simp add: tile_acc_def nib_sum_def map_replicate_const)
qed

lemma mma_step:
  assumes ok: "packed_ok X W K N" and x: "\<And>k. k < K \<Longrightarrow> - 8 \<le> x k \<and> x k < 8" and K: "32 dvd K" and nt: "nt * 8 + 8 \<le> N" and kt: "kt < K div 32"
    and a: "\<And>r k. r < 8 \<Longrightarrow> k < 32 \<Longrightarrow> nibble (a ! (r * 4 + k div 8)) (k mod 8) = x (kt * 32 + k)"
    and b: "\<And>c k. c < 8 \<Longrightarrow> k < 32 \<Longrightarrow> nibble (b ! (c * 4 + k div 8)) (k mod 8) = W ! ((kt * 32 + k) * N + (nt * 8 + c))"
  shows "mma_m8n8k32 a b (tile_acc x W N nt kt) = tile_acc x W N nt (Suc kt)"
proof -
  have e: "to_i32 (tile_acc x W N nt kt ! L ! i +
      (\<Sum>k\<leftarrow>[0..<32]. nibble (a ! (L div 4 * 4 + k div 8)) (k mod 8) * nibble (b ! ((L mod 4 * 2 + i) * 4 + k div 8)) (k mod 8))) =
    nib_sum x W N (nt * 8 + (L mod 4 * 2 + i)) (Suc kt * 32)" if "L < 32" "i < 2" for L i
  proof -
    let ?c = "L mod 4 * 2 + i"
    have c: "?c < 8" "L div 4 < 8" using that by (simp_all add: less_mult_imp_div_less)
    have "(\<Sum>k\<leftarrow>[0..<32]. nibble (a ! (L div 4 * 4 + k div 8)) (k mod 8) * nibble (b ! (?c * 4 + k div 8)) (k mod 8)) =
        (\<Sum>k < 32. nibble (a ! (L div 4 * 4 + k div 8)) (k mod 8) * nibble (b ! (?c * 4 + k div 8)) (k mod 8))"
      by (simp add: interv_sum_list_conv_sum_set_nat atLeast0LessThan)
    also have "\<dots> = (\<Sum>k < 32. x (kt * 32 + k) * W ! ((kt * 32 + k) * N + (nt * 8 + ?c)))"
      by (rule sum.cong) (use a [OF c(2)] b [OF c(1)] in simp_all)
    finally have s: "tile_acc x W N nt kt ! L ! i + (\<Sum>k\<leftarrow>[0..<32]. nibble (a ! (L div 4 * 4 + k div 8)) (k mod 8) * nibble (b ! (?c * 4 + k div 8)) (k mod 8)) =
        nib_sum x W N (nt * 8 + ?c) (kt * 32 + 32)"
      using that unfolding nib_sum_def sum_add_split by (simp add: tile_acc_def nib_sum_def)
    have "(kt + 1) * 32 \<le> K div 32 * 32" using kt by simp
    also have "\<dots> \<le> K" by (rule div_times_less_eq_dividend)
    finally have m: "kt * 32 + 32 \<le> K" by simp
    have "\<bar>nib_sum x W N (nt * 8 + ?c) (kt * 32 + 32)\<bar> \<le> 2 ^ 26"
      by (rule nib_sum_bound [OF ok x _ m]) (use c nt in simp_all)
    then show ?thesis unfolding s by (subst to_i32_id) (auto simp: in_i32_def add.commute)
  qed
  have "mma_m8n8k32 a b (tile_acc x W N nt kt) = map (\<lambda>L. map (\<lambda>i. nib_sum x W N (nt * 8 + (L mod 4 * 2 + i)) (Suc kt * 32)) [0..<2]) [0..<32]"
    unfolding mma_m8n8k32_def by (intro map_cong refl) (rule e; simp)
  then show ?thesis by (simp add: tile_acc_def)
qed

lemma mma_tiles_ok:
  assumes ok: "packed_ok X W K N" and x: "\<And>k. k < K \<Longrightarrow> - 8 \<le> x k \<and> x k < 8" and K: "32 dvd K" and W4: "int4_of W4 W K N" and nt: "nt * 8 + 8 \<le> N"
    and arch: "800 \<le> arch"
  shows "mma_tiles arch (nibbled x K) W4 nt (K div 32) = Inr (tile_acc x W N nt (K div 32))"
proof -
  have t: "nt < N div 8" using nt by simp
  have "rfold (\<lambda>acc kt. rbind (a_frags (nibbled x K) kt) (\<lambda>a. rbind (b_frags W4 nt (K div 32) kt) (\<lambda>b. Inr (mma_m8n8k32 a b acc))))
      (tile_acc x W N nt 0) [0..<K div 32] = Inr (tile_acc x W N nt (K div 32))"
  proof (rule rows_ok)
    fix kt assume kt: "kt < K div 32"
    obtain a where a: "a_frags (nibbled x K) kt = Inr a" "\<And>r k. r < 8 \<Longrightarrow> k < 32 \<Longrightarrow> nibble (a ! (r * 4 + k div 8)) (k mod 8) = x (kt * 32 + k)"
      using a_frags_ok [of K x, OF x K kt] by blast
    obtain b where b: "b_frags W4 nt (K div 32) kt = Inr b"
      "\<And>c k. c < 8 \<Longrightarrow> k < 32 \<Longrightarrow> nibble (b ! (c * 4 + k div 8)) (k mod 8) = W ! ((kt * 32 + k) * N + (nt * 8 + c))"
      using b_frags_ok [OF W4 t kt] by blast
    show "rbind (a_frags (nibbled x K) kt) (\<lambda>a. rbind (b_frags W4 nt (K div 32) kt) (\<lambda>b. Inr (mma_m8n8k32 a b (tile_acc x W N nt kt)))) =
        Inr (tile_acc x W N nt (Suc kt))"
      using a(1) b(1) mma_step [OF ok x K nt kt a(2) b(2)] by simp
  qed
  then show ?thesis using arch by (simp add: mma_tiles_def tile_acc_0)
qed

lemma mma_tiles_p_ok:
  assumes ok: "packed_ok X W K N" and x: "\<And>k. k < K \<Longrightarrow> - 8 \<le> x k \<and> x k < 8" and y: "\<And>k. k < K \<Longrightarrow> - 8 \<le> y k \<and> y k < 8"
    and K: "32 dvd K" and W4: "int4_of W4 W K N" and nt: "nt * 8 + 8 \<le> N"
    and arch: "800 \<le> arch"
  shows "mma_tiles_p arch (nibbled x K) (nibbled y K) W4 nt (K div 32) = Inr (tile_acc x W N nt (K div 32), tile_acc y W N nt (K div 32))"
proof -
  have t: "nt < N div 8" using nt by simp
  let ?F = "\<lambda>kt. (tile_acc x W N nt kt, tile_acc y W N nt kt)"
  have "rfold (\<lambda>(hi, lo) kt. rbind (a_frags (nibbled x K) kt) (\<lambda>a_hi. rbind (a_frags (nibbled y K) kt) (\<lambda>a_lo. rbind (b_frags W4 nt (K div 32) kt) (\<lambda>b.
      Inr (mma_m8n8k32 a_hi b hi, mma_m8n8k32 a_lo b lo))))) (?F 0) [0..<K div 32] = Inr (?F (K div 32))"
  proof (rule rows_ok)
    fix kt assume kt: "kt < K div 32"
    obtain a where a: "a_frags (nibbled x K) kt = Inr a" "\<And>r k. r < 8 \<Longrightarrow> k < 32 \<Longrightarrow> nibble (a ! (r * 4 + k div 8)) (k mod 8) = x (kt * 32 + k)"
      using a_frags_ok [of K x, OF x K kt] by blast
    obtain a' where a': "a_frags (nibbled y K) kt = Inr a'" "\<And>r k. r < 8 \<Longrightarrow> k < 32 \<Longrightarrow> nibble (a' ! (r * 4 + k div 8)) (k mod 8) = y (kt * 32 + k)"
      using a_frags_ok [of K y, OF y K kt] by blast
    obtain b where b: "b_frags W4 nt (K div 32) kt = Inr b"
      "\<And>c k. c < 8 \<Longrightarrow> k < 32 \<Longrightarrow> nibble (b ! (c * 4 + k div 8)) (k mod 8) = W ! ((kt * 32 + k) * N + (nt * 8 + c))"
      using b_frags_ok [OF W4 t kt] by blast
    show "(\<lambda>(hi, lo) kt. rbind (a_frags (nibbled x K) kt) (\<lambda>a_hi. rbind (a_frags (nibbled y K) kt) (\<lambda>a_lo. rbind (b_frags W4 nt (K div 32) kt) (\<lambda>b.
        Inr (mma_m8n8k32 a_hi b hi, mma_m8n8k32 a_lo b lo))))) (?F kt) kt = Inr (?F (Suc kt))"
      using a(1) a'(1) b(1) mma_step [OF ok x K nt kt a(2) b(2)] mma_step [OF ok y K nt kt a'(2) b(2)] by simp
  qed
  then show ?thesis using arch by (simp add: mma_tiles_p_def tile_acc_0)
qed

lemma tile_acc_nth:
  "tig < 4 \<Longrightarrow> i < 2 \<Longrightarrow> 32 dvd K \<Longrightarrow> tile_acc x W N nt (K div 32) ! tig ! i = nib_sum x W N (nt * 8 + (tig * 2 + i)) K"
  by (simp add: tile_acc_def)

lemma tile_outputs_ok:
  assumes N: "n_base + 8 \<le> N" and y: "\<And>tig i. tig < 4 \<Longrightarrow> i < 2 \<Longrightarrow> y tig i = Inr (v (n_base + (tig * 2 + i)))"
  shows "tile_outputs y n_base N scale = Inr (map (\<lambda>c. (n_base + c, out_half scale (v (n_base + c)))) [0..<8])"
proof -
  let ?l = "concat (map (\<lambda>tig. map (\<lambda>i. (tig, i)) [0..<2]) [0..<4 :: nat]) :: (nat \<times> nat) list"
  have l: "?l = map (\<lambda>c. (c div 2, c mod 2)) [0..<8]" using concat_flat [of Pair 2 4] by simp
  have r: "c div 2 < 4" if "c < 8" for c :: nat using that by (simp add: less_mult_imp_div_less)
  have f: "filter (\<lambda>(tig, i). n_base + (tig * 2 + i) < N) ?l = ?l"
    unfolding l by (rule filter_True) (use N in auto)
  have "tile_outputs y n_base N scale = rmap (\<lambda>(tig, i). rbind (y tig i) (\<lambda>v. Inr (n_base + (tig * 2 + i), out_half scale v))) ?l"
    unfolding tile_outputs_def f ..
  also have "\<dots> = Inr (map (\<lambda>c. (n_base + c, out_half scale (v (n_base + c)))) [0..<8])"
    unfolding l by (rule rmap_over) (use y r in simp)
  finally show ?thesis .
qed

lemma tile_warps_enough: "N \<le> tile_warps N * 8"
proof -
  have up: "m \<le> (m + 7) div 8 * 8" for m :: nat by presburger
  have "N \<le> (N + 7) div 8 * 8" by (rule up)
  also have "\<dots> \<le> ((N + 7) div 8 + 7) div 8 * 8 * 8" by (rule mult_le_mono1) (rule up)
  finally show ?thesis by (simp add: tile_warps_def Let_def)
qed

text \<open>A kernel whose warps compute the columns of their tiles returns them all.\<close>

lemma launch_tiles:
  assumes out: "length out = N" and N: "8 dvd N"
    and tile: "\<And>nt. nt * 8 + 8 \<le> N \<Longrightarrow> body nt = Inr (map (\<lambda>c. (nt * 8 + c, f (nt * 8 + c))) [0..<8])"
  shows "launch (tile_warps N) (\<lambda>nt. if N \<le> nt * 8 then Inr [] else body nt) out = Inr (map f [0..<N])"
proof (rule launch_ok [OF out _ N tile_warps_enough])
  fix u assume u: "u * 8 < N"
  have "u * 8 + 8 \<le> N" using owned_in [OF _ N u, of 7] by simp
  then show "(if N \<le> u * 8 then Inr [] else body u) = Inr (map (\<lambda>c. (u * 8 + c, f (u * 8 + c))) [0..<8])"
    using tile u by simp
qed simp_all

section \<open>Column sums\<close>

lemma w_sum_ok:
  assumes ok: "packed_ok X W K N"
  shows "compute_w_sum_k (col_bytes K N (pack_rows K N W)) K N = Inr (map (\<lambda>j. \<Sum>k < K. W ! (k * N + j)) [0..<N])"
  unfolding compute_w_sum_k_def
proof (rule rmap_all)
  fix j assume "j \<in> set [0..<N]"
  then have j: "j < N" by simp
  let ?F = "\<lambda>m. \<Sum>k < m. W ! (k * N + j)"
  have "rfold (\<lambda>acc k. rbind (read_at (col_bytes K N (pack_rows K N W)) (j div 4 * K + k)) (\<lambda>b. add_i32 acc (dec_cmp (code_of b (j mod 4 * 2))))) (?F 0) [0..<K] = Inr (?F K)"
  proof (rule rows_ok)
    fix k assume k: "k < K"
    obtain b where b: "read_at (col_bytes K N (pack_rows K N W)) (j div 4 * K + k) = Inr b" "dec_cmp (code_of b (j mod 4 * 2)) = W ! (k * N + j)"
      using col_byte [OF ok k j decoders(1)] by blast
    have "\<bar>?F (Suc k)\<bar> = \<bar>nib_sum (\<lambda>_. 1) W N j (Suc k)\<bar>" by (simp add: nib_sum_def)
    also have "\<dots> \<le> 2 ^ 26" by (rule nib_sum_bound [OF ok _ j]) (use k in simp_all)
    finally have "in_i32 (?F (Suc k))" by (auto simp: in_i32_def)
    then show "rbind (read_at (col_bytes K N (pack_rows K N W)) (j div 4 * K + k)) (\<lambda>b. add_i32 (?F k) (dec_cmp (code_of b (j mod 4 * 2)))) = Inr (?F (Suc k))"
      using b by (simp add: add_i32_def)
  qed
  then show "rfold (\<lambda>acc k. rbind (read_at (col_bytes K N (pack_rows K N W)) (j div 4 * K + k)) (\<lambda>b. add_i32 acc (dec_cmp (code_of b (j mod 4 * 2))))) 0 [0..<K] = Inr (?F K)"
    by simp
qed

end
