(* ===== verification/TerTensorProps.thy ===== *)
theory TerTensorProps
  imports TerTensor
begin

unbundle bit_operations_syntax

text \<open>
  The properties of the product on integer tensor cores: the version with two nibbles per
  activation is exact, the version with one computes the product of the clamped activations.
\<close>

lemma byte_range: "- 128 \<le> sint (x :: 8 word)" "sint (x :: 8 word) \<le> 127"
  using sint_greater_eq [of x] sint_less [of x] by simp_all

lemma clamp7_range: "- 8 \<le> clamp7 a \<and> clamp7 a < 8"
  by (simp add: clamp7_def Let_def)

text \<open>The activations the fast version multiplies.\<close>

definition clamped :: "8 word list \<Rightarrow> 8 word list" where
  "clamped X = map (\<lambda>x. word_of_int (clamp7 (sint x))) X"

lemma hi_lo:
  assumes "- 128 \<le> a" "a \<le> 127"
  shows "- 8 \<le> hi4 a \<and> hi4 a < 8" "- 8 \<le> lo4 a \<and> lo4 a < 8" "a = 16 * hi4 a + lo4 a + 8"
proof -
  have m: "(15 :: int) = mask 4" by (simp add: mask_eq_exp_minus_1)
  have l: "lo4 a = a mod 16 - 8" unfolding lo4_def m by (simp only: take_bit_eq_mask [symmetric]) (simp add: take_bit_eq_mod)
  have h: "hi4 a = a div 16" by (simp add: hi4_def drop_bit_eq_div)
  show "- 8 \<le> hi4 a \<and> hi4 a < 8" using assms unfolding h by linarith
  show "- 8 \<le> lo4 a \<and> lo4 a < 8" unfolding l by simp
  show "a = 16 * hi4 a + lo4 a + 8" unfolding l h by simp
qed

lemma pairs_ok:
  assumes X: "K \<le> length X" and K: "even K"
    and f: "\<And>a b. f a b = Inr (g a b)"
  shows "rmap (\<lambda>tid. rbind (read_at X (2 * tid)) (\<lambda>a. rbind (read_at X (2 * tid + 1)) (\<lambda>b. f a b))) [0..<K div 2] =
    Inr (map (\<lambda>t. g (X ! (2 * t)) (X ! (2 * t + 1))) [0..<K div 2])"
proof (rule rmap_all)
  fix t assume "t \<in> set [0..<K div 2]"
  then have "2 * t + 1 < length X" using X K by (auto elim!: evenE)
  then show "rbind (read_at X (2 * t)) (\<lambda>a. rbind (read_at X (2 * t + 1)) (\<lambda>b. f a b)) = Inr (g (X ! (2 * t)) (X ! (2 * t + 1)))"
    by (simp add: read_at_def f)
qed

lemma quant_ok:
  assumes X: "K \<le> length X" and K: "even K"
  shows "quant_int8_to_int4_k X K = Inr (nibbled (\<lambda>k. clamp7 (sint (X ! k))) K)"
    and "\<exists>q. quant_int8_to_int4_p_k X K = Inr q \<and> map fst q = nibbled (\<lambda>k. hi4 (sint (X ! k))) K \<and> map snd q = nibbled (\<lambda>k. lo4 (sint (X ! k))) K"
proof -
  show "quant_int8_to_int4_k X K = Inr (nibbled (\<lambda>k. clamp7 (sint (X ! k))) K)"
    unfolding quant_int8_to_int4_k_def nibbled_def
    by (rule pairs_ok [OF assms, where g = "\<lambda>a b. byte_of_pair (clamp7 (sint a)) (clamp7 (sint b))"]) simp
  have "quant_int8_to_int4_p_k X K = Inr (map (\<lambda>t. (byte_of_pair (hi4 (sint (X ! (2 * t)))) (hi4 (sint (X ! (2 * t + 1)))),
      byte_of_pair (lo4 (sint (X ! (2 * t)))) (lo4 (sint (X ! (2 * t + 1)))))) [0..<K div 2])"
    unfolding quant_int8_to_int4_p_k_def
    by (rule pairs_ok [OF assms, where g = "\<lambda>a b. (byte_of_pair (hi4 (sint a)) (hi4 (sint b)), byte_of_pair (lo4 (sint a)) (lo4 (sint b)))"]) simp
  then show "\<exists>q. quant_int8_to_int4_p_k X K = Inr q \<and> map fst q = nibbled (\<lambda>k. hi4 (sint (X ! k))) K \<and> map snd q = nibbled (\<lambda>k. lo4 (sint (X ! k))) K"
    by (simp add: nibbled_def comp_def)
qed

lemma nib_dot: "nib_sum (\<lambda>k. sint (X ! k)) W N j K = dot_col (map sint X) 0 W N K j" if "K \<le> length X"
  using that by (simp add: nib_sum_def dot_col_def)

lemma nib_recombine:
  "nib_sum (\<lambda>k. sint (X ! k)) W N j K = 16 * nib_sum (\<lambda>k. hi4 (sint (X ! k))) W N j K + nib_sum (\<lambda>k. lo4 (sint (X ! k))) W N j K + 8 * (\<Sum>k < K. W ! (k * N + j))" for X :: "8 word list"
proof -
  have "sint (X ! k) * w = 16 * (hi4 (sint (X ! k)) * w) + lo4 (sint (X ! k)) * w + 8 * w" for k and w :: int
    using hi_lo(3) [OF byte_range, of "X ! k"] by (metis distrib_right mult.assoc)
  then show ?thesis by (simp add: nib_sum_def sum.distrib sum_distrib_left)
qed

section \<open>The tensor-core products\<close>

text \<open>
  C4: The product on integer tensor cores, on devices of compute capability 8.0 and up. The repacking of the weights succeeds for K a multiple
  of 32 and N of 8. The precise version, which splits every activation into a high and a low nibble,
  multiplies both by the weights and adds eight times the column sums, returns exactly the packed
  product, for all activations and without overflow; the fast version returns the product of the
  activations clamped to -7 .. 7, so the packed product when none is larger.
\<close>

theorem int4_tensor_products:
  assumes ok: "packed_ok X W K N" and K: "32 dvd K" and N: "8 dvd N" and out: "length out = N" and arch: "800 \<le> arch"
  shows "\<exists>W4 S. repack_trits_to_int4_host (col_bytes K N (pack_rows K N W)) K N = Inr W4 \<and>
    compute_w_sum_k (col_bytes K N (pack_rows K N W)) K N = Inr S \<and>
    launch_mm_packed_v13_int4tc_p arch X W4 S K N sx ws out = Inr (packed_product X W K N (fmul F32 sx ws)) \<and>
    launch_mm_packed_v13_int4tc arch X W4 K N sx ws out = Inr (packed_product (clamped X) W K N (fmul F32 sx ws)) \<and>
    ((\<forall>x \<in> set X. \<bar>sint x\<bar> \<le> 7) \<longrightarrow> launch_mm_packed_v13_int4tc arch X W4 K N sx ws out = Inr (packed_product X W K N (fmul F32 sx ws)))"
proof -
  let ?S = "map (\<lambda>j. \<Sum>k < K. W ! (k * N + j)) [0..<N]"
  obtain W4 where W4: "repack_trits_to_int4_host (col_bytes K N (pack_rows K N W)) K N = Inr W4" "int4_of W4 W K N"
    using repack_ok [OF ok K N] by blast
  have X: "K \<le> length X" using ok by (simp add: packed_ok_def)
  have ev: "even K" using K by (rule dvd_trans [rotated]) simp
  obtain q where q: "quant_int8_to_int4_p_k X K = Inr q" "map fst q = nibbled (\<lambda>k. hi4 (sint (X ! k))) K" "map snd q = nibbled (\<lambda>k. lo4 (sint (X ! k))) K"
    using quant_ok(2) [OF X ev] by blast
  have "launch_mm_packed_v13_int4tc_p arch X W4 ?S K N sx ws out = Inr (packed_product X W K N (fmul F32 sx ws))"
    unfolding launch_mm_packed_v13_int4tc_p_def q rbind_simps mm_packed_v13_int4tc_p_def Let_def packed_product_def
  proof (rule launch_tiles [OF out N])
    fix nt assume nt: "nt * 8 + 8 \<le> N"
    let ?h = "\<lambda>j. nib_sum (\<lambda>k. hi4 (sint (X ! k))) W N j K" and ?l = "\<lambda>j. nib_sum (\<lambda>k. lo4 (sint (X ! k))) W N j K"
      and ?s = "\<lambda>j. \<Sum>k < K. W ! (k * N + j)"
    have sum: "rbind (read_at ?S j) (\<lambda>s. rbind (mul_i32 16 (?h j)) (\<lambda>h. rbind (add_i32 h (?l j)) (\<lambda>hl. rbind (mul_i32 8 s) (\<lambda>s8. add_i32 hl s8)))) =
        Inr (dot_col (map sint X) 0 W N K j)" if j: "j < N" for j
    proof -
      have b: "\<bar>?h j\<bar> \<le> 2 ^ 26" "\<bar>?l j\<bar> \<le> 2 ^ 26" by (rule nib_sum_bound [OF ok _ j]; use hi_lo byte_range in simp)+
      have "\<bar>nib_sum (\<lambda>_. 1) W N j K\<bar> \<le> 2 ^ 26" by (rule nib_sum_bound [OF ok _ j]) simp_all
      then have bs: "\<bar>?s j\<bar> \<le> 2 ^ 26" by (simp add: nib_sum_def)
      have "in_i32 (16 * ?h j)" "in_i32 (16 * ?h j + ?l j)" "in_i32 (8 * ?s j)" "in_i32 (16 * ?h j + ?l j + 8 * ?s j)"
        using b bs unfolding in_i32_def abs_le_iff by (auto; linarith)+
      then show ?thesis using j nib_recombine [of X W N j K] nib_dot [OF X] by (simp add: read_at_def mul_i32_def add_i32_def)
    qed
    show "rbind (mma_tiles_p arch (nibbled (\<lambda>k. hi4 (sint (X ! k))) K) (nibbled (\<lambda>k. lo4 (sint (X ! k))) K) W4 nt (K div 32)) (\<lambda>(hi, lo).
        tile_outputs (\<lambda>tig i. rbind (read_at ?S (nt * 8 + (tig * 2 + i))) (\<lambda>s. rbind (mul_i32 16 (hi ! tig ! i)) (\<lambda>h. rbind (add_i32 h (lo ! tig ! i)) (\<lambda>hl.
          rbind (mul_i32 8 s) (\<lambda>s8. add_i32 hl s8))))) (nt * 8) N (fmul F32 sx ws)) =
      Inr (map (\<lambda>c. (nt * 8 + c, out_half (fmul F32 sx ws) (dot_col (map sint X) 0 W N K (nt * 8 + c)))) [0..<8])"
      unfolding mma_tiles_p_ok [OF ok hi_lo(1) [OF byte_range] hi_lo(2) [OF byte_range] K W4(2) nt arch] rbind_simps prod.case
      by (rule tile_outputs_ok [OF nt]) (use sum nt in \<open>simp add: tile_acc_nth [OF _ _ K]\<close>)
  qed
  moreover have fast: "launch_mm_packed_v13_int4tc arch X W4 K N sx ws out = Inr (packed_product (clamped X) W K N (fmul F32 sx ws))"
    unfolding launch_mm_packed_v13_int4tc_def quant_ok(1) [OF X ev] rbind_simps mm_packed_v13_int4tc_def Let_def packed_product_def
  proof (rule launch_tiles [OF out N])
    fix nt assume nt: "nt * 8 + 8 \<le> N"
    have c: "sint (word_of_int (clamp7 a) :: 8 word) = clamp7 a" for a
      using clamp7_range [of a] by (simp add: signed_of_int signed_take_bit_int_eq_self)
    show "rbind (mma_tiles arch (nibbled (\<lambda>k. clamp7 (sint (X ! k))) K) W4 nt (K div 32)) (\<lambda>acc. tile_outputs (\<lambda>tig i. Inr (acc ! tig ! i)) (nt * 8) N (fmul F32 sx ws)) =
      Inr (map (\<lambda>c. (nt * 8 + c, out_half (fmul F32 sx ws) (dot_col (map sint (clamped X)) 0 W N K (nt * 8 + c)))) [0..<8])"
      unfolding mma_tiles_ok [OF ok clamp7_range K W4(2) nt arch] rbind_simps
      by (rule tile_outputs_ok [OF nt]) (use X in \<open>simp add: tile_acc_nth [OF _ _ K] nib_sum_def dot_col_def clamped_def c\<close>)
  qed
  moreover have "clamped X = X" if "\<forall>x \<in> set X. \<bar>sint x\<bar> \<le> 7"
    unfolding clamped_def by (rule map_idI) (use that in \<open>fastforce simp: clamp7_def Let_def\<close>)
  ultimately show ?thesis using W4(1) w_sum_ok [OF ok] by auto
qed

theorem int4_tensor_products_witness:
  "\<exists>W4 S. repack_trits_to_int4_host (col_bytes 32 8 (pack_rows 32 8 (replicate 256 1))) 32 8 = Inr W4 \<and>
    compute_w_sum_k (col_bytes 32 8 (pack_rows 32 8 (replicate 256 1))) 32 8 = Inr S \<and>
    launch_mm_packed_v13_int4tc_p 860 (replicate 32 100) W4 S 32 8 fzero fzero (replicate 8 fzero) =
      Inr (packed_product (replicate 32 100) (replicate 256 1) 32 8 (fmul F32 fzero fzero))"
proof -
  have "packed_ok (replicate 32 100) (replicate 256 1) 32 8" unfolding packed_ok_def by simp
  from int4_tensor_products [OF this, of "replicate 8 fzero" 860 fzero fzero] show ?thesis by auto
qed

end
