(* ===== verification/TerDevice.thy ===== *)
theory TerDevice
  imports TerPacked
begin

text \<open>
  The end-to-end decoder on the GPU, \<open>cuda/ter_cuda_forward_packed.cu\<close>: its kernels in half and
  single precision, the packed product with a device-side scale, the two-pass arg max, and the
  forward pass over the scratch buffers. The functions of the CUDA mathematics library are a
  parameter. Cells that different threads compute independently are listed in index order; a
  reduction over a block keeps the order of its additions. Where the threads of a block race, the
  outcome of the race is an argument, \<open>sched\<close>, one for every launch. Sizes are \<open>nat\<close>: the index arithmetic of the kernels
  is taken to stay in \<open>int\<close>. Products and sums are rounded one by one.
\<close>

record cuda_math =
  cm_rsqrt :: "flt \<Rightarrow> flt"
  cm_exp :: "flt \<Rightarrow> flt"
  cm_pow :: "flt \<Rightarrow> flt \<Rightarrow> flt"
  cm_cos :: "flt \<Rightarrow> flt"
  cm_sin :: "flt \<Rightarrow> flt"

text \<open>
  The races of one launch. A warp may read the shared scale of its block before thread 0 has written
  it: it then sees what the cell held before, \<open>sc_scale_stale\<close>. A thread may read the sum of squares
  after thread 0 has written its maximum over it, \<open>sc_sum_late\<close>. When the scores of an attention head
  reach into the cells of its output, \<open>sc_out_rank\<close> orders the writes of the outputs and
  \<open>sc_out_seen h d s\<close> says that the sum of output \<open>d\<close> reads cell \<open>s\<close> after an earlier output was written
  there. Every outcome that an execution has is among them.
\<close>

record sched =
  sc_scale_stale :: "nat \<Rightarrow> flt option"
  sc_sum_late :: "nat \<Rightarrow> bool"
  sc_out_rank :: "nat \<Rightarrow> nat \<Rightarrow> nat"
  sc_out_seen :: "nat \<Rightarrow> nat \<Rightarrow> nat \<Rightarrow> bool"

text \<open>The launches of a layer are numbered.\<close>

type_synonym layer_sched = "nat \<Rightarrow> sched"
type_synonym pass_sched = "nat \<Rightarrow> layer_sched"

definition lit :: "rat \<Rightarrow> flt" where
  "lit x = fcvt F32 (Num False x)"

definition half :: "flt \<Rightarrow> flt" where
  "half = fcvt F16"

text \<open>An index computed from a device value; a negative one is far beyond the buffer.\<close>

definition cell :: "int \<Rightarrow> nat res" where
  "cell i = (if i < 0 then Inl (OutOfRange ''index before a buffer'') else Inr (nat i))"

section \<open>Loops and reductions of a block\<close>

text \<open>\<open>for (i = tid; i < N; i += blockDim.x)\<close>.\<close>

definition strided :: "nat \<Rightarrow> nat \<Rightarrow> nat \<Rightarrow> nat list" where
  "strided bs N tid = filter (\<lambda>i. i mod bs = tid) [0..<N]"

definition thread_folds :: "nat \<Rightarrow> nat \<Rightarrow> ('a \<Rightarrow> nat \<Rightarrow> 'a res) \<Rightarrow> 'a \<Rightarrow> 'a list res" where
  "thread_folds bs N f z = rmap (\<lambda>tid. rfold f z (strided bs N tid)) [0..<bs]"

text \<open>\<open>for (s = blockDim.x / 2; s > 0; s >>= 1)\<close>, the threads below \<open>s\<close> combine two cells.\<close>

fun tree_reduce :: "('a \<Rightarrow> 'a \<Rightarrow> 'a) \<Rightarrow> nat \<Rightarrow> 'a list \<Rightarrow> 'a list" where
  "tree_reduce f s v =
     (if s = 0 then v
      else tree_reduce f (s div 2) (map (\<lambda>i. if i < s then f (v ! i) (v ! (i + s)) else v ! i) [0..<length v]))"

declare tree_reduce.simps [simp del]

definition block_reduce :: "('a \<Rightarrow> 'a \<Rightarrow> 'a) \<Rightarrow> 'a list \<Rightarrow> 'a" where
  "block_reduce f v = tree_reduce f (length v div 2) v ! 0"

definition larger :: "flt \<Rightarrow> flt \<Rightarrow> flt" where
  "larger a v = (if flt_less a v then v else a)"

definition fmaxf :: "flt \<Rightarrow> flt \<Rightarrow> flt" where
  "fmaxf a b = (if a = NaN then b else if b = NaN then a else larger a b)"

text \<open>\<open>__shfl_xor_sync\<close> sums of a warp in single precision.\<close>

definition fwarp_sum :: "flt list \<Rightarrow> flt list" where
  "fwarp_sum v = foldl (\<lambda>v o'. map (\<lambda>i. fadd F32 (v ! i) (v ! (xor i o'))) [0..<32]) v [16, 8, 4, 2, 1]"

section \<open>Normalisation and quantisation\<close>

definition square_sums :: "nat \<Rightarrow> flt list \<Rightarrow> nat \<Rightarrow> flt list res" where
  "square_sums bs x H = thread_folds bs H (\<lambda>s i. rbind (read_at x i) (\<lambda>v. Inr (fadd F32 s (fmul F32 v v)))) fzero"

definition rms_inv :: "cuda_math \<Rightarrow> flt \<Rightarrow> nat \<Rightarrow> flt \<Rightarrow> flt" where
  "rms_inv G sq H eps = cm_rsqrt G (fadd F32 (fdiv F32 sq (of_int_flt F32 (int H))) eps)"

definition normed :: "flt list \<Rightarrow> flt list \<Rightarrow> flt \<Rightarrow> nat \<Rightarrow> flt res" where
  "normed x w r i = rbind (read_at x i) (\<lambda>v. rbind (read_at w i) (\<lambda>g. Inr (fmul F32 (fmul F32 v r) g)))"

definition rmsnorm_k :: "cuda_math \<Rightarrow> nat \<Rightarrow> flt list \<Rightarrow> flt list \<Rightarrow> flt list \<Rightarrow> nat \<Rightarrow> flt \<Rightarrow> flt list res" where
  "rmsnorm_k G bs x w y H eps =
     rbind (square_sums bs x H) (\<lambda>sq. let r = rms_inv G (block_reduce (fadd F32) sq) H eps in
     rfold (\<lambda>y i. rbind (normed x w r i) (\<lambda>n. write_at y i (half n))) y [0..<H])"

text \<open>\<open>__float2int_rn\<close> saturates and maps a NaN to zero; then the clamp to \<open>int8_t\<close>.\<close>

fun float2int_rn :: "flt \<Rightarrow> int" where
  "float2int_rn NaN = 0"
| "float2int_rn (Inf s) = (if s then - (2 ^ 31) else 2 ^ 31 - 1)"
| "float2int_rn (Num s m) = max (- (2 ^ 31)) (min (2 ^ 31 - 1) (round_even (num_value s m)))"

definition clamp_int8 :: "int \<Rightarrow> int" where
  "clamp_int8 q = (let q = (if q > 127 then 127 else q) in if q < - 128 then - 128 else q)"

definition quantized :: "flt \<Rightarrow> flt \<Rightarrow> 8 word" where
  "quantized scale v = word_of_int (clamp_int8 (float2int_rn (fmul F32 v scale)))"

definition quant_scale :: "flt \<Rightarrow> flt" where
  "quant_scale amax = fdiv F32 (lit 127) (fadd F32 amax (lit (1 / 10 ^ 9)))"

definition write_quantized :: "(nat \<Rightarrow> flt res) \<Rightarrow> flt \<Rightarrow> nat \<Rightarrow> 8 word list \<Rightarrow> (8 word list \<times> flt) res" where
  "write_quantized val scale N y =
     rbind (rfold (\<lambda>y i. rbind (val i) (\<lambda>v. write_at y i (quantized scale v))) y [0..<N])
       (\<lambda>y. Inr (y, fdiv F32 (lit 1) scale))"

definition quant_int8_k :: "nat \<Rightarrow> flt list \<Rightarrow> nat \<Rightarrow> 8 word list \<Rightarrow> (8 word list \<times> flt) res" where
  "quant_int8_k bs x N y =
     rbind (thread_folds bs N (\<lambda>a i. rbind (read_at x i) (\<lambda>v. Inr (larger a (fabs v)))) fzero) (\<lambda>tops.
     write_quantized (read_at x) (quant_scale (block_reduce larger tops)) N y)"

text \<open>
  The fused kernel keeps the partial sums and then the partial maxima in the same cells. A thread
  that is late reads the maximum of thread 0 where the total was.
\<close>

definition local_amax :: "nat \<Rightarrow> (nat \<Rightarrow> flt res) \<Rightarrow> nat \<Rightarrow> nat \<Rightarrow> flt res" where
  "local_amax bs val N tid = rfold (\<lambda>a i. rbind (val i) (\<lambda>n. Inr (larger a (fabs n)))) fzero (strided bs N tid)"

definition rmsnorm_quant_fp16_in_k ::
  "sched \<Rightarrow> cuda_math \<Rightarrow> nat \<Rightarrow> flt list \<Rightarrow> flt list \<Rightarrow> nat \<Rightarrow> flt \<Rightarrow> 8 word list \<Rightarrow> (8 word list \<times> flt) res" where
  "rmsnorm_quant_fp16_in_k S G bs x gamma H eps y =
     rbind (square_sums bs x H) (\<lambda>sq. let r0 = rms_inv G (block_reduce (fadd F32) sq) H eps in
     rbind (local_amax bs (normed x gamma r0) H 0) (\<lambda>first.
     let r = (\<lambda>tid. if tid \<noteq> 0 \<and> sc_sum_late S tid then rms_inv G first H eps else r0);
         val = (\<lambda>i. normed x gamma (r (i mod bs)) i) in
     rbind (rmap (local_amax bs val H) [0..<bs]) (\<lambda>tops.
     write_quantized val (quant_scale (block_reduce fmaxf tops)) H y)))"

definition silu :: "cuda_math \<Rightarrow> flt \<Rightarrow> flt" where
  "silu G v = fdiv F32 v (fadd F32 (lit 1) (cm_exp G (fneg v)))"

definition gated :: "cuda_math \<Rightarrow> flt list \<Rightarrow> flt list \<Rightarrow> nat \<Rightarrow> flt res" where
  "gated G g u i = rbind (read_at g i) (\<lambda>gv. rbind (read_at u i) (\<lambda>uv. Inr (fmul F32 (silu G gv) uv)))"

definition silu_mul_quant_k :: "cuda_math \<Rightarrow> nat \<Rightarrow> flt list \<Rightarrow> flt list \<Rightarrow> nat \<Rightarrow> 8 word list \<Rightarrow> (8 word list \<times> flt) res" where
  "silu_mul_quant_k G bs g u F y =
     rbind (rmap (local_amax bs (gated G g u) F) [0..<bs]) (\<lambda>tops.
     write_quantized (gated G g u) (quant_scale (block_reduce fmaxf tops)) F y)"

section \<open>Element-wise kernels\<close>

text \<open>\<open>n\<close> threads, each guarded by the size and writing its own cell.\<close>

definition each_cell :: "nat \<Rightarrow> nat \<Rightarrow> (nat \<Rightarrow> flt res) \<Rightarrow> flt list \<Rightarrow> flt list res" where
  "each_cell n N val out = launch n (\<lambda>i. if i \<ge> N then Inr [] else rbind (val i) (\<lambda>v. Inr [(i, v)])) out"

definition silu_mul_k :: "cuda_math \<Rightarrow> nat \<Rightarrow> flt list \<Rightarrow> flt list \<Rightarrow> nat \<Rightarrow> flt list \<Rightarrow> flt list res" where
  "silu_mul_k G n g u N out = each_cell n N (\<lambda>i. rbind (gated G g u i) (\<lambda>v. Inr (half v))) out"

definition add_k :: "nat \<Rightarrow> flt list \<Rightarrow> flt list \<Rightarrow> nat \<Rightarrow> flt list res" where
  "add_k n x y N = each_cell n N (\<lambda>i. rbind (read_at x i) (\<lambda>a. rbind (read_at y i) (\<lambda>b. Inr (half (fadd F32 a b))))) x"

definition token_embed_lookup_k :: "nat \<Rightarrow> flt list \<Rightarrow> nat \<Rightarrow> int \<Rightarrow> flt list \<Rightarrow> flt list res" where
  "token_embed_lookup_k n token_embd H t hidden =
     each_cell n H (\<lambda>tid. rbind (cell (t * int H + int tid)) (read_at token_embd)) hidden"

definition rope_k :: "cuda_math \<Rightarrow> flt list \<Rightarrow> nat \<Rightarrow> nat \<Rightarrow> int \<Rightarrow> flt \<Rightarrow> flt list res" where
  "rope_k G v n_heads head_dim pos theta =
     launch (n_heads * (head_dim div 2)) (\<lambda>u.
       let h = u div (head_dim div 2); k = u mod (head_dim div 2); idx = h * head_dim + 2 * k;
           freq = fdiv F32 (lit 1) (cm_pow G theta (fdiv F32 (of_int_flt F32 (2 * int k)) (of_int_flt F32 (int head_dim))));
           a = fmul F32 (of_int_flt F32 pos) freq; c = cm_cos G a; s = cm_sin G a in
       rbind (read_at v idx) (\<lambda>v0. rbind (read_at v (idx + 1)) (\<lambda>v1.
       Inr [(idx, half (fsub F32 (fmul F32 v0 c) (fmul F32 v1 s))), (idx + 1, half (fadd F32 (fmul F32 v0 s) (fmul F32 v1 c)))]))) v"

text \<open>One of the two caches: row \<open>p\<close> of layer \<open>L\<close> in the flat buffer.\<close>

definition kv_cell :: "nat \<Rightarrow> nat \<Rightarrow> int \<Rightarrow> nat \<Rightarrow> nat \<Rightarrow> int" where
  "kv_cell L Smax p Hkv idx = (int L * int Smax + p) * int Hkv + int idx"

definition kv_put :: "nat \<Rightarrow> flt list \<Rightarrow> flt list \<Rightarrow> nat \<Rightarrow> nat \<Rightarrow> nat \<Rightarrow> int \<Rightarrow> flt list res" where
  "kv_put n k K_cache L Smax Hkv p =
     launch n (\<lambda>idx. if idx \<ge> Hkv then Inr []
       else rbind (cell (kv_cell L Smax p Hkv idx)) (\<lambda>a. rbind (read_at k idx) (\<lambda>x. Inr [(a, x)]))) K_cache"

definition kv_copy_k ::
  "nat \<Rightarrow> flt list \<Rightarrow> flt list \<Rightarrow> flt list \<Rightarrow> flt list \<Rightarrow> nat \<Rightarrow> nat \<Rightarrow> nat \<Rightarrow> int \<Rightarrow> (flt list \<times> flt list) res" where
  "kv_copy_k n k v K_cache V_cache L Smax Hkv p =
     rbind (kv_put n k K_cache L Smax Hkv p) (\<lambda>Kc. rbind (kv_put n v V_cache L Smax Hkv p) (\<lambda>Vc. Inr (Kc, Vc)))"

section \<open>Attention\<close>

text \<open>Row \<open>s\<close> of a head in the layer that starts at \<open>b\<close>.\<close>

definition kv_at :: "nat \<Rightarrow> nat \<Rightarrow> nat \<Rightarrow> nat \<Rightarrow> nat \<Rightarrow> nat \<Rightarrow> nat" where
  "kv_at b n_kv_heads kv_h head_dim s d = b + ((s * n_kv_heads + kv_h) * head_dim + d)"

text \<open>
  Shared memory holds \<open>max_seq + head_dim\<close> cells, the scores from the first, the outputs from cell
  \<open>max_seq\<close>. A score beyond the last cell leaves it; the scores from \<open>max_seq\<close> on share their cells with
  the outputs. Without a score the maximum that is read is not used, and the sums are empty.
\<close>

definition attn_score_row ::
  "cuda_math \<Rightarrow> flt list \<Rightarrow> flt list \<Rightarrow> nat \<Rightarrow> nat \<Rightarrow> nat \<Rightarrow> nat \<Rightarrow> nat \<Rightarrow> int \<Rightarrow> nat \<Rightarrow> flt list res" where
  "attn_score_row G Q Kc b n_kv_heads kv_h head_dim h seq_len max_seq =
     rmap (\<lambda>s.
        rbind (rfold (\<lambda>dot d. rbind (read_at Q (h * head_dim + d)) (\<lambda>q.
            rbind (read_at Kc (kv_at b n_kv_heads kv_h head_dim s d)) (\<lambda>k. Inr (fadd F32 dot (fmul F32 q k)))))
          fzero [0..<head_dim]) (\<lambda>dot.
        if s < max_seq + head_dim then Inr (fmul F32 dot (cm_rsqrt G (of_int_flt F32 (int head_dim))))
        else Inl (OutOfRange ''write beyond shared memory''))) [0..<nat seq_len]"

definition softmax_scores :: "cuda_math \<Rightarrow> flt list \<Rightarrow> flt list" where
  "softmax_scores G scores =
     (let mx = foldl larger (scores ! 0) (tl scores); es = map (\<lambda>x. cm_exp G (fsub F32 x mx)) scores;
          inv = fdiv F32 (lit 1) (foldl (fadd F32) fzero es)
      in map (\<lambda>e. fmul F32 e inv) es)"

definition attn_value :: "(nat \<Rightarrow> flt) \<Rightarrow> nat \<Rightarrow> flt list \<Rightarrow> nat \<Rightarrow> nat \<Rightarrow> nat \<Rightarrow> nat \<Rightarrow> nat \<Rightarrow> flt res" where
  "attn_value score n Vc b n_kv_heads kv_h head_dim d =
     rfold (\<lambda>acc s. rbind (read_at Vc (kv_at b n_kv_heads kv_h head_dim s d)) (\<lambda>x. Inr (fadd F32 acc (fmul F32 (score s) x))))
       fzero [0..<n]"

text \<open>What the sum of output \<open>d\<close> reads in cell \<open>s\<close> when the outputs \<open>outv\<close> have been written.\<close>

definition score_seen :: "sched \<Rightarrow> nat \<Rightarrow> nat \<Rightarrow> flt list \<Rightarrow> (nat \<rightharpoonup> flt) \<Rightarrow> nat \<Rightarrow> nat \<Rightarrow> flt" where
  "score_seen S max_seq h scores outv d s =
     (case if max_seq \<le> s \<and> sc_out_seen S h d s then outv (s - max_seq) else None of None \<Rightarrow> scores ! s | Some x \<Rightarrow> x)"

definition attn_outputs ::
  "sched \<Rightarrow> nat \<Rightarrow> nat \<Rightarrow> flt list \<Rightarrow> flt list \<Rightarrow> nat \<Rightarrow> nat \<Rightarrow> nat \<Rightarrow> nat \<Rightarrow> (nat \<rightharpoonup> flt) res" where
  "attn_outputs S max_seq h scores Vc b n_kv_heads kv_h head_dim =
     rfold (\<lambda>outv d. rbind (attn_value (score_seen S max_seq h scores outv d) (length scores) Vc b n_kv_heads kv_h head_dim d)
         (\<lambda>x. Inr (outv(d \<mapsto> x)))) Map.empty (sort_key (sc_out_rank S h) [0..<head_dim])"

definition attention_k ::
  "sched \<Rightarrow> cuda_math \<Rightarrow> flt list \<Rightarrow> flt list \<Rightarrow> flt list \<Rightarrow> nat \<Rightarrow> flt list \<Rightarrow> nat \<Rightarrow> nat \<Rightarrow> nat \<Rightarrow> int \<Rightarrow> nat \<Rightarrow> flt list res" where
  "attention_k S G Q Kc Vc b out n_heads n_kv_heads head_dim pos max_seq =
     launch n_heads (\<lambda>h. let kv_h = h * n_kv_heads div n_heads in
       rbind (attn_score_row G Q Kc b n_kv_heads kv_h head_dim h (pos + 1) max_seq) (\<lambda>scores.
       rbind (attn_outputs S max_seq h (softmax_scores G scores) Vc b n_kv_heads kv_h head_dim) (\<lambda>outv.
       Inr (map (\<lambda>d. (h * head_dim + d, half (the (outv d)))) [0..<head_dim])))) out"

section \<open>Logits and arg max\<close>

text \<open>One warp for a row of the embedding; pairs of halves when the width is even.\<close>

definition lm_lane :: "flt list \<Rightarrow> flt list \<Rightarrow> nat \<Rightarrow> nat \<Rightarrow> nat \<Rightarrow> flt res" where
  "lm_lane x emb H row i =
     (if H mod 2 = 0
      then rfold (\<lambda>acc k. rbind (read_at x (2 * k)) (\<lambda>a. rbind (read_at x (2 * k + 1)) (\<lambda>a'.
             rbind (read_at emb (row * H + 2 * k)) (\<lambda>b. rbind (read_at emb (row * H + 2 * k + 1)) (\<lambda>b'.
             Inr (fadd F32 acc (fadd F32 (fmul F32 a b) (fmul F32 a' b')))))))) fzero (strided 32 (H div 2) i)
      else rfold (\<lambda>acc k. rbind (read_at x k) (\<lambda>a. rbind (read_at emb (row * H + k)) (\<lambda>b.
             Inr (fadd F32 acc (fmul F32 a b))))) fzero (strided 32 H i))"

definition mm_fp16_lm_head_k :: "nat \<Rightarrow> flt list \<Rightarrow> flt list \<Rightarrow> nat \<Rightarrow> nat \<Rightarrow> flt list \<Rightarrow> flt list res" where
  "mm_fp16_lm_head_k n x emb H V logits =
     each_cell n V (\<lambda>row. rbind (rmap (lm_lane x emb H row) [0..<32]) (\<lambda>v. Inr (half (fwarp_sum v ! 0)))) logits"

definition lowest :: flt where
  "lowest = fcvt F32 (Num True (10 ^ 30))"

definition better :: "flt \<times> int \<Rightarrow> flt \<times> int \<Rightarrow> flt \<times> int" where
  "better p q = (if flt_less (fst p) (fst q) then q else p)"

definition argmax_local_k :: "nat \<Rightarrow> nat \<Rightarrow> flt list \<Rightarrow> nat \<Rightarrow> (flt \<times> int) list res" where
  "argmax_local_k n bs logits N =
     rmap (\<lambda>b. rbind (rmap (\<lambda>tid. rfold (\<lambda>p i. rbind (read_at logits i) (\<lambda>v. Inr (better p (v, int i))))
           (lowest, 0) (strided (n * bs) N (b * bs + tid))) [0..<bs]) (\<lambda>v. Inr (block_reduce better v))) [0..<n]"

definition argmax_final_k :: "nat \<Rightarrow> (flt \<times> int) list \<Rightarrow> nat \<Rightarrow> int res" where
  "argmax_final_k bs parts n_parts =
     rbind (rmap (\<lambda>tid. if tid < n_parts then read_at parts tid else Inr (lowest, 0)) [0..<bs])
       (\<lambda>v. Inr (snd (block_reduce better v)))"

definition argmax_k :: "nat \<Rightarrow> flt list \<Rightarrow> nat \<Rightarrow> int res" where
  "argmax_k bs logits N =
     rbind (thread_folds bs N (\<lambda>p i. rbind (read_at logits i) (\<lambda>v. Inr (better p (v, int i)))) (lowest, 0))
       (\<lambda>v. Inr (snd (block_reduce better v)))"

section \<open>The packed product\<close>

text \<open>
  Version 11 with the scale of the activations read from the device by thread 0 of a block of eight
  warps; nothing orders that write before the reads of the other warps.
\<close>

definition scale_seen :: "sched \<Rightarrow> flt \<Rightarrow> nat \<Rightarrow> flt" where
  "scale_seen S scale w = (case if w mod 8 = 0 then None else sc_scale_stale S w of None \<Rightarrow> scale | Some old \<Rightarrow> old)"

definition mm_packed_v4 ::
  "sched \<Rightarrow> 8 word list \<Rightarrow> 8 word list \<Rightarrow> nat \<Rightarrow> nat \<Rightarrow> flt \<Rightarrow> flt \<Rightarrow> nat \<Rightarrow> flt list \<Rightarrow> flt list res" where
  "mm_packed_v4 S X W K N scale_x w_scale n out =
     launch n (\<lambda>w. let j_base = w * 4 in if j_base \<ge> N then Inr [] else
       rbind (four_columns (\<lambda>i. let (kstart, kend) = stretch ((K + 31) div 32) K i; Wc = j_base div 4 * K in
           quad_loop (macs4 dec_cmp (load_u32 X) (\<lambda>kk. bytes_u32 W (Wc + kk)))
             (macs1 4 dec_cmp (read_at X) (byte_codes W (\<lambda>kk. Wc + kk))) kend kstart (replicate 4 0))
           (scale_seen S (fmul F32 scale_x w_scale) w) j_base) (\<lambda>ws. Inr (filter (\<lambda>(j, y). j < N) ws))) out"

record wpk =
  wp_data :: "8 word list"
  wp_scale :: flt

definition mm_packed_dispatch :: "sched \<Rightarrow> 8 word list \<Rightarrow> flt \<Rightarrow> wpk \<Rightarrow> flt list \<Rightarrow> nat \<Rightarrow> nat \<Rightarrow> flt list res" where
  "mm_packed_dispatch S X scale_x W out K N =
     mm_packed_v4 S X (wp_data W) K N scale_x (wp_scale W) (8 * ((N div 4 + 8 - 1) div 8)) out"

section \<open>The forward pass\<close>

record cfg =
  cf_H :: nat
  cf_F :: nat
  cf_Nl :: nat
  cf_Nh :: nat
  cf_Nkv :: nat
  cf_Hd :: nat
  cf_V :: nat
  cf_Smax :: nat
  cf_eps :: flt
  cf_rope_theta :: flt

record dev_layer =
  dl_Wq :: wpk
  dl_Wk :: wpk
  dl_Wv :: wpk
  dl_Wo :: wpk
  dl_Wgate :: wpk
  dl_Wup :: wpk
  dl_Wdown :: wpk
  dl_attn_norm :: "flt list"
  dl_ffn_norm :: "flt list"

text \<open>Without packed weights of its own the head is tied to the embedding.\<close>

record dev_model =
  dm_cfg :: cfg
  dm_token_embd :: "flt list"
  dm_layers :: "dev_layer list"
  dm_output_norm :: "flt list"
  dm_lm_head :: "wpk option"

record scratch =
  sh_hidden :: "flt list"
  sh_x_norm :: "flt list"
  sh_q :: "flt list"
  sh_k :: "flt list"
  sh_v :: "flt list"
  sh_attn_out :: "flt list"
  sh_gate :: "flt list"
  sh_up :: "flt list"
  sh_logits :: "flt list"
  sh_x_q :: "8 word list"
  sh_ff_q :: "8 word list"
  sh_scale_buf :: flt
  sh_K_cache :: "flt list"
  sh_V_cache :: "flt list"
  sh_pos_dev :: int
  sh_token_id_dev :: int
  sh_argmax_part :: "(flt \<times> int) list"

definition Hkv_of :: "cfg \<Rightarrow> nat" where
  "Hkv_of c = cf_Nkv c * cf_Hd c"

definition hblk :: "cfg \<Rightarrow> nat" where
  "hblk c = (cf_H c + 255) div 256"

text \<open>The buffers of \<open>alloc_scratch\<close>, with \<open>x\<close> in the cells whose content is not defined.\<close>

definition alloc_scratch :: "flt \<Rightarrow> cfg \<Rightarrow> scratch" where
  "alloc_scratch x c =
     \<lparr>sh_hidden = replicate (cf_H c) x, sh_x_norm = replicate (cf_H c) x, sh_q = replicate (cf_H c) x,
      sh_k = replicate (Hkv_of c) x, sh_v = replicate (Hkv_of c) x, sh_attn_out = replicate (cf_H c) x,
      sh_gate = replicate (cf_F c) x, sh_up = replicate (cf_F c) x, sh_logits = replicate (cf_V c) x,
      sh_x_q = replicate (max (cf_H c) (cf_F c)) 0, sh_ff_q = replicate (cf_F c) 0, sh_scale_buf = x,
      sh_K_cache = replicate (cf_Nl c * cf_Smax c * Hkv_of c) x, sh_V_cache = replicate (cf_Nl c * cf_Smax c * Hkv_of c) x,
      sh_pos_dev = 0, sh_token_id_dev = 0, sh_argmax_part = replicate 128 (x, 0)\<rparr>"

text \<open>Normalise and quantise the hidden vector.\<close>

definition norm_quant :: "sched \<Rightarrow> cuda_math \<Rightarrow> cfg \<Rightarrow> flt list \<Rightarrow> scratch \<Rightarrow> scratch res" where
  "norm_quant S G c w s =
     rbind (rmsnorm_quant_fp16_in_k S G 256 (sh_hidden s) w (cf_H c) (cf_eps c) (sh_x_q s)) (\<lambda>(y, sc).
     Inr (s\<lparr>sh_x_q := y, sh_scale_buf := sc\<rparr>))"

definition qkv_stage :: "layer_sched \<Rightarrow> cuda_math \<Rightarrow> cfg \<Rightarrow> nat \<Rightarrow> dev_layer \<Rightarrow> scratch \<Rightarrow> scratch res" where
  "qkv_stage S G c L l s =
     rbind (mm_packed_dispatch (S 1) (sh_x_q s) (sh_scale_buf s) (dl_Wq l) (sh_q s) (cf_H c) (cf_H c)) (\<lambda>q.
     rbind (mm_packed_dispatch (S 2) (sh_x_q s) (sh_scale_buf s) (dl_Wk l) (sh_k s) (cf_H c) (Hkv_of c)) (\<lambda>k.
     rbind (mm_packed_dispatch (S 3) (sh_x_q s) (sh_scale_buf s) (dl_Wv l) (sh_v s) (cf_H c) (Hkv_of c)) (\<lambda>v.
     rbind (rope_k G q (cf_Nh c) (cf_Hd c) (sh_pos_dev s) (cf_rope_theta c)) (\<lambda>q.
     rbind (rope_k G k (cf_Nkv c) (cf_Hd c) (sh_pos_dev s) (cf_rope_theta c)) (\<lambda>k.
     rbind (kv_copy_k ((Hkv_of c + 255) div 256 * 256) k v (sh_K_cache s) (sh_V_cache s) L (cf_Smax c) (Hkv_of c) (sh_pos_dev s)) (\<lambda>(Kc, Vc).
     Inr (s\<lparr>sh_q := q, sh_k := k, sh_v := v, sh_K_cache := Kc, sh_V_cache := Vc\<rparr>)))))))"

definition attn_stage :: "layer_sched \<Rightarrow> cuda_math \<Rightarrow> cfg \<Rightarrow> nat \<Rightarrow> dev_layer \<Rightarrow> scratch \<Rightarrow> scratch res" where
  "attn_stage S G c L l s =
     rbind (attention_k (S 4) G (sh_q s) (sh_K_cache s) (sh_V_cache s) (L * cf_Smax c * Hkv_of c) (sh_attn_out s)
              (cf_Nh c) (cf_Nkv c) (cf_Hd c) (sh_pos_dev s) (cf_Smax c)) (\<lambda>a.
     rbind (quant_int8_k 256 a (cf_H c) (sh_x_q s)) (\<lambda>(y, sc).
     rbind (mm_packed_dispatch (S 5) y sc (dl_Wo l) a (cf_H c) (cf_H c)) (\<lambda>a.
     rbind (add_k (hblk c * 256) (sh_hidden s) a (cf_H c)) (\<lambda>h.
     Inr (s\<lparr>sh_attn_out := a, sh_x_q := y, sh_scale_buf := sc, sh_hidden := h\<rparr>)))))"

definition ffn_stage :: "layer_sched \<Rightarrow> cuda_math \<Rightarrow> cfg \<Rightarrow> dev_layer \<Rightarrow> scratch \<Rightarrow> scratch res" where
  "ffn_stage S G c l s =
     rbind (mm_packed_dispatch (S 7) (sh_x_q s) (sh_scale_buf s) (dl_Wgate l) (sh_gate s) (cf_H c) (cf_F c)) (\<lambda>g.
     rbind (mm_packed_dispatch (S 8) (sh_x_q s) (sh_scale_buf s) (dl_Wup l) (sh_up s) (cf_H c) (cf_F c)) (\<lambda>u.
     rbind (silu_mul_quant_k G 1024 g u (cf_F c) (sh_ff_q s)) (\<lambda>(y, sc).
     rbind (mm_packed_dispatch (S 9) y sc (dl_Wdown l) (sh_attn_out s) (cf_F c) (cf_H c)) (\<lambda>a.
     rbind (add_k (hblk c * 256) (sh_hidden s) a (cf_H c)) (\<lambda>h.
     Inr (s\<lparr>sh_gate := g, sh_up := u, sh_ff_q := y, sh_scale_buf := sc, sh_attn_out := a, sh_hidden := h\<rparr>))))))"

definition device_layer :: "layer_sched \<Rightarrow> cuda_math \<Rightarrow> cfg \<Rightarrow> nat \<Rightarrow> dev_layer \<Rightarrow> scratch \<Rightarrow> scratch res" where
  "device_layer S G c L l s =
     rbind (norm_quant (S 0) G c (dl_attn_norm l) s) (\<lambda>s.
     rbind (qkv_stage S G c L l s) (\<lambda>s.
     rbind (attn_stage S G c L l s) (\<lambda>s.
     rbind (norm_quant (S 6) G c (dl_ffn_norm l) s) (\<lambda>s.
     ffn_stage S G c l s))))"

definition logits_stage :: "layer_sched \<Rightarrow> cuda_math \<Rightarrow> dev_model \<Rightarrow> scratch \<Rightarrow> scratch res" where
  "logits_stage S G m s = (let c = dm_cfg m in
     case dm_lm_head m of
       Some W \<Rightarrow> rbind (norm_quant (S 0) G c (dm_output_norm m) s) (\<lambda>s.
         rbind (mm_packed_dispatch (S 1) (sh_x_q s) (sh_scale_buf s) W (sh_logits s) (cf_H c) (cf_V c)) (\<lambda>y. Inr (s\<lparr>sh_logits := y\<rparr>)))
     | None \<Rightarrow> rbind (rmsnorm_k G 256 (sh_hidden s) (dm_output_norm m) (sh_x_norm s) (cf_H c) (cf_eps c)) (\<lambda>x.
         rbind (mm_fp16_lm_head_k ((cf_V c + 8 - 1) div 8 * 8) x (dm_token_embd m) (cf_H c) (cf_V c) (sh_logits s)) (\<lambda>y.
         Inr (s\<lparr>sh_x_norm := x, sh_logits := y\<rparr>))))"

definition select_stage :: "cfg \<Rightarrow> scratch \<Rightarrow> scratch res" where
  "select_stage c s =
     rbind (argmax_local_k 128 256 (sh_logits s) (cf_V c)) (\<lambda>parts.
     rbind (argmax_final_k 128 parts 128) (\<lambda>t.
     rbind (add_i32 (sh_pos_dev s) 1) (\<lambda>p.
     Inr (s\<lparr>sh_argmax_part := parts, sh_token_id_dev := t, sh_pos_dev := p\<rparr>))))"

definition forward_token_dev :: "pass_sched \<Rightarrow> cuda_math \<Rightarrow> dev_model \<Rightarrow> scratch \<Rightarrow> scratch res" where
  "forward_token_dev S G m s = (let c = dm_cfg m in
     rbind (token_embed_lookup_k (hblk c * 256) (dm_token_embd m) (cf_H c) (sh_token_id_dev s) (sh_hidden s)) (\<lambda>h.
     rbind (rfold (\<lambda>s L. rbind (read_at (dm_layers m) L) (\<lambda>l. device_layer (S L) G c L l s)) (s\<lparr>sh_hidden := h\<rparr>) [0..<cf_Nl c]) (\<lambda>s.
     rbind (logits_stage (S (cf_Nl c)) G m s) (select_stage c))))"

text \<open>The host wrapper, and the greedy loop of \<open>main\<close> from the start token.\<close>

definition forward_token_host :: "pass_sched \<Rightarrow> cuda_math \<Rightarrow> dev_model \<Rightarrow> scratch \<Rightarrow> int \<Rightarrow> int \<Rightarrow> (int \<times> scratch) res" where
  "forward_token_host S G m s token_id pos =
     rbind (forward_token_dev S G m (s\<lparr>sh_token_id_dev := token_id, sh_pos_dev := pos\<rparr>)) (\<lambda>s. Inr (sh_token_id_dev s, s))"

definition greedy_tokens :: "(nat \<Rightarrow> pass_sched) \<Rightarrow> cuda_math \<Rightarrow> dev_model \<Rightarrow> scratch \<Rightarrow> nat \<Rightarrow> (int list \<times> scratch) res" where
  "greedy_tokens S G m s n_gen =
     rbind (rfold (\<lambda>(toks, tok, s) p. rbind (forward_token_host (S p) G m s tok (int p)) (\<lambda>(tok, s). Inr (toks @ [tok], tok, s)))
       ([], 128000, s) [0..<n_gen]) (\<lambda>(toks, tok, s). Inr (toks, s))"

end
