(* ===== verification/TerDeviceFacts.thy ===== *)
theory TerDeviceFacts
  imports TerDevice TerWarp TerLayer
begin

text \<open>
  Facts on the kernels of the decoder: results that exist and keep a property (\<open>yields\<close>), launches
  whose threads write inside a buffer, tree reductions as a locale that the maximum and the arg max
  interpret, and the totality of every kernel on buffers of the right sizes.
\<close>

section \<open>Results\<close>

definition yields :: "'a res \<Rightarrow> ('a \<Rightarrow> bool) \<Rightarrow> bool" where
  "yields m P \<longleftrightarrow> (\<exists>a. m = Inr a \<and> P a)"

lemma yields_Inr [simp]: "yields (Inr a) P \<longleftrightarrow> P a"
  by (simp add: yields_def)

lemma yieldsE: "yields m P \<Longrightarrow> (\<And>a. m = Inr a \<Longrightarrow> P a \<Longrightarrow> Q) \<Longrightarrow> Q"
  by (auto simp: yields_def)

lemma yields_bind: "yields m Q \<Longrightarrow> (\<And>a. Q a \<Longrightarrow> yields (f a) P) \<Longrightarrow> yields (rbind m f) P"
  by (auto simp: yields_def)

lemma yields_weaken: "yields m Q \<Longrightarrow> (\<And>a. Q a \<Longrightarrow> P a) \<Longrightarrow> yields m P"
  by (auto simp: yields_def)

lemma yields_rmap: "(\<And>x. x \<in> set xs \<Longrightarrow> yields (f x) (Q x)) \<Longrightarrow> yields (rmap f xs) (\<lambda>ys. list_all2 Q xs ys)"
proof (induction xs)
  case (Cons x xs)
  have "yields (f x) (Q x)" "yields (rmap f xs) (\<lambda>ys. list_all2 Q xs ys)" using Cons by auto
  then show ?case by (auto simp: yields_def)
qed simp

lemma yields_rmap_length: "(\<And>x. x \<in> set xs \<Longrightarrow> yields (f x) (\<lambda>_. True)) \<Longrightarrow> yields (rmap f xs) (\<lambda>ys. length ys = length xs)"
  by (rule yields_weaken [OF yields_rmap]) (auto dest: list_all2_lengthD)

lemma yields_rfold:
  "P z \<Longrightarrow> (\<And>a x. x \<in> set xs \<Longrightarrow> P a \<Longrightarrow> yields (f a x) P) \<Longrightarrow> yields (rfold f z xs) P"
proof (induction xs arbitrary: z)
  case (Cons x xs)
  have "yields (f z x) P" using Cons.prems by simp
  then obtain a where "f z x = Inr a" "P a" by (rule yieldsE)
  then show ?case using Cons by simp
qed simp

lemma yields_rfold_index:
  assumes "P 0 z" and "\<And>a i. i < n \<Longrightarrow> P i a \<Longrightarrow> yields (f a i) (P (Suc i))"
  shows "yields (rfold f z [0..<n]) (P n)"
  using assms(2)
proof (induction n)
  case 0
  then show ?case using assms(1) by simp
next
  case (Suc n)
  have "yields (rfold f z [0..<n]) (P n)" using Suc by simp
  then obtain a where "rfold f z [0..<n] = Inr a" "P n a" by (rule yieldsE)
  then show ?case using Suc.prems [of n a] by (simp add: rfold_append rbind_Inr_id)
qed

lemma yields_read: "i < length xs \<Longrightarrow> P (xs ! i) \<Longrightarrow> yields (read_at xs i) P"
  by (simp add: read_at_def)

lemma yields_write: "i < length xs \<Longrightarrow> P (xs[i := v]) \<Longrightarrow> yields (write_at xs i v) P"
  by (simp add: write_at_def)

section \<open>Launches\<close>

text \<open>What a launch keeps, when the writes of its units keep it.\<close>

lemma launch_yields:
  assumes "P out" and "\<And>u. u < n \<Longrightarrow> yields (body u) (\<lambda>ws. \<forall>(j, y) \<in> set ws. Q j)"
    and "\<And>o' j y. P o' \<Longrightarrow> Q j \<Longrightarrow> yields (write_at o' j y) P"
  shows "yields (launch n body out) P"
  unfolding launch_def
proof (rule yields_rfold)
  fix o' u assume "u \<in> set [0..<n]" and P: "P o'"
  then have "yields (body u) (\<lambda>ws. \<forall>(j, y) \<in> set ws. Q j)" by (intro assms(2)) simp
  then obtain ws where ws: "body u = Inr ws" "\<forall>(j, y) \<in> set ws. Q j" by (rule yieldsE)
  have "yields (rfold (\<lambda>o' (i, y). write_at o' i y) o' ws) P"
    by (rule yields_rfold) (use P ws(2) assms(3) in auto)
  then show "yields (rbind (body u) (\<lambda>ws. rfold (\<lambda>o' (i, y). write_at o' i y) o' ws)) P" using ws(1) by simp
qed (rule assms(1))

lemma launch_total:
  assumes "\<And>u. u < n \<Longrightarrow> yields (body u) (\<lambda>ws. \<forall>(j, y) \<in> set ws. j < length out)"
  shows "yields (launch n body out) (\<lambda>r. length r = length out)"
  by (rule launch_yields [where Q = "\<lambda>j. j < length out"]) (use assms in \<open>auto simp: write_at_def\<close>)

text \<open>The writes stay in \<open>[a, b)\<close>: the rest of the buffer is kept.\<close>

lemma launch_frame:
  assumes "\<And>u. u < n \<Longrightarrow> yields (body u) (\<lambda>ws. \<forall>(j, y) \<in> set ws. a \<le> j \<and> j < b)" and "b \<le> length out"
  shows "yields (launch n body out) (\<lambda>r. same_outside a b out r \<and> length r = length out)"
proof (rule launch_yields [where Q = "\<lambda>j. a \<le> j \<and> j < b"])
  show "yields (write_at o' j y) (\<lambda>r. same_outside a b out r \<and> length r = length out)"
    if "same_outside a b out o' \<and> length o' = length out" "a \<le> j \<and> j < b" for o' j y
    using that assms(2) same_outside_trans [OF _ same_outside_update] by (auto simp: write_at_def)
qed (use assms in auto)

lemma each_cell_total:
  assumes "N \<le> length out" and "\<And>i. i < N \<Longrightarrow> yields (val i) (\<lambda>_. True)"
  shows "yields (each_cell n N val out) (\<lambda>r. length r = length out)"
  unfolding each_cell_def
proof (rule launch_total)
  fix u assume "u < n"
  show "yields (if N \<le> u then Inr [] else rbind (val u) (\<lambda>v. Inr [(u, v)])) (\<lambda>ws. \<forall>(j, y) \<in> set ws. j < length out)"
    using assms(1) assms(2) [of u] by (auto simp: yields_def)
qed

section \<open>Tree reductions\<close>

text \<open>
  A reduction combines two cells into one that stands for the indices of both; a thread that scans
  its indices starts from \<open>start\<close> and takes in one \<open>item\<close> after the other.
\<close>

locale reduction =
  fixes f :: "'a \<Rightarrow> 'a \<Rightarrow> 'a" and start :: 'a and item :: "nat \<Rightarrow> 'a" and stands_for :: "nat set \<Rightarrow> 'a \<Rightarrow> bool"
  assumes combine: "stands_for A x \<Longrightarrow> stands_for B y \<Longrightarrow> stands_for (A \<union> B) (f x y)"
    and start: "stands_for {} start"
    and extend: "stands_for A x \<Longrightarrow> stands_for (insert i A) (f x (item i))"
begin

lemma scan:
  assumes "\<And>a i. i \<in> set is \<Longrightarrow> g a i = Inr (f a (item i))"
  shows "yields (rfold g start is) (stands_for (set is))"
  using assms
proof (induction "is" rule: rev_induct)
  case Nil
  then show ?case by (simp add: start)
next
  case (snoc i "is")
  have "yields (rfold g start is) (stands_for (set is))" using snoc by simp
  then obtain a where "rfold g start is = Inr a" "stands_for (set is) a" by (rule yieldsE)
  then show ?case using snoc.prems [of i a] extend [of "set is" a i] by (simp add: rfold_append)
qed

lemma tree:
  assumes "length v = 2 ^ k * m" and "0 < m" and "\<And>i. i < 2 ^ k \<Longrightarrow> stands_for (A i) (v ! i)"
  shows "stands_for (\<Union>i < 2 ^ k. A i) (tree_reduce f (2 ^ k div 2) v ! 0)"
  using assms
proof (induction k arbitrary: v m A)
  case 0
  then show ?case by (simp add: tree_reduce.simps lessThan_Suc)
next
  case (Suc k)
  let ?s = "2 ^ k :: nat"
  let ?w = "map (\<lambda>i. if i < ?s then f (v ! i) (v ! (i + ?s)) else v ! i) [0..<length v]"
  have "2 ^ Suc k \<le> length v" using Suc.prems(1,2) by (cases m) simp_all
  then have len: "2 * ?s \<le> length v" by simp
  have "stands_for (\<Union>i < ?s. A i \<union> A (i + ?s)) (tree_reduce f (?s div 2) ?w ! 0)"
  proof (rule Suc.IH [where m = "2 * m"])
    show "stands_for (A i \<union> A (i + ?s)) (?w ! i)" if "i < ?s" for i
      using that len Suc.prems(3) [of i] Suc.prems(3) [of "i + ?s"] by (simp add: combine)
  qed (use Suc.prems in simp_all)
  moreover have "(\<Union>i < ?s. A i \<union> A (i + ?s)) = (\<Union>i < 2 ^ Suc k. A i)"
  proof -
    have "i \<in> {..<?s + ?s} \<longleftrightarrow> i \<in> {..<?s} \<union> (\<lambda>i. i + ?s) ` {..<?s}" for i
    proof -
      have "i \<in> (\<lambda>i. i + ?s) ` {..<?s} \<longleftrightarrow> ?s \<le> i \<and> i < ?s + ?s"
        by (auto simp: image_iff intro!: bexI [of _ "i - ?s"])
      then show ?thesis by auto
    qed
    then have "{..<2 ^ Suc k} = {..<?s} \<union> (\<lambda>i. i + ?s) ` {..<?s}" by (simp add: set_eq_iff mult_2)
    then show ?thesis by (auto simp: UN_Un)
  qed
  ultimately show ?case by (simp add: tree_reduce.simps [of f ?s])
qed

lemma block:
  assumes "length v = 2 ^ k" and "\<And>i. i < 2 ^ k \<Longrightarrow> stands_for (A i) (v ! i)"
  shows "stands_for (\<Union>i < 2 ^ k. A i) (block_reduce f v)"
  unfolding block_reduce_def assms(1) by (rule tree [where m = 1]) (use assms in simp_all)

end

text \<open>
  The best pair of a set of indices: the start pair, or a logit above the start value at its index,
  and no index of the set beats it.
\<close>

definition best_of :: "int \<Rightarrow> flt list \<Rightarrow> nat set \<Rightarrow> flt \<times> int \<Rightarrow> bool" where
  "best_of s l A p \<longleftrightarrow> fst p \<noteq> NaN \<and> (p = (lowest, s) \<or> (\<exists>i \<in> A. p = (l ! i, int i) \<and> flt_less lowest (l ! i))) \<and>
     (\<forall>i \<in> A. \<not> flt_less (fst p) (l ! i))"

lemma flt_not_less_trans: "\<not> flt_less x y \<Longrightarrow> \<not> flt_less y z \<Longrightarrow> y \<noteq> NaN \<Longrightarrow> \<not> flt_less x z"
  by (cases x; cases y; cases z; simp del: num_value.simps; linarith?)

lemma flt_less_NaN: "flt_less x y \<Longrightarrow> y \<noteq> NaN"
  by (cases x; cases y) auto

lemma lowest_num: "lowest \<noteq> NaN"
  by (simp add: lowest_def rounded_def split: option.split)

lemma better_combine:
  assumes p: "best_of s l A p" and q: "best_of s l B q"
  shows "best_of s l (A \<union> B) (better p q)"
proof (cases "flt_less (fst p) (fst q)")
  case True
  have "\<not> flt_less (fst q) (l ! i)" if "i \<in> A" for i
    using p that flt_less_trans [OF True, of "l ! i"] by (auto simp: best_of_def)
  then show ?thesis using q True unfolding best_of_def better_def by (simp add: ball_Un) blast
next
  case False
  have "\<not> flt_less (fst p) (l ! i)" if "i \<in> B" for i
    by (rule flt_not_less_trans [OF False]) (use q that in \<open>simp_all add: best_of_def\<close>)
  then show ?thesis using p False unfolding best_of_def better_def by (simp add: ball_Un) blast
qed

lemma better_extend:
  assumes p: "best_of s l A p"
  shows "best_of s l (insert i A) (better p (l ! i, int i))"
proof (cases "flt_less (fst p) (l ! i)")
  case True
  have "\<not> flt_less (l ! i) (l ! j)" if "j \<in> A" for j
    using p that flt_less_trans [OF True, of "l ! j"] by (auto simp: best_of_def)
  moreover have "flt_less lowest (l ! i)"
    using p True flt_less_trans [of lowest "fst p" "l ! i"] by (auto simp: best_of_def)
  ultimately show ?thesis using True flt_less_NaN [OF True] by (simp add: best_of_def better_def)
next
  case False
  then show ?thesis using p unfolding best_of_def better_def by simp blast
qed

interpretation arg_max: reduction better "(lowest, s)" "\<lambda>i. (l ! i, int i)" "best_of s l" for s l
proof unfold_locales
  show "best_of s l {} (lowest, s)" by (simp add: best_of_def lowest_num)
qed (rule better_combine better_extend; assumption)+

text \<open>The index found is that of a largest logit if one is above the start value, the start index otherwise.\<close>

lemma best_found:
  assumes "best_of s l {..<N} p"
  shows "if \<exists>i < N. flt_less lowest (l ! i)
    then 0 \<le> snd p \<and> snd p < int N \<and> flt_less lowest (l ! nat (snd p)) \<and> (\<forall>i < N. \<not> flt_less (l ! nat (snd p)) (l ! i))
    else snd p = s"
proof (cases "\<exists>i < N. flt_less lowest (l ! i)")
  case True
  then have "p \<noteq> (lowest, s)" using assms by (auto simp: best_of_def)
  then obtain i where "i < N" "p = (l ! i, int i)" "flt_less lowest (l ! i)" using assms by (auto simp: best_of_def)
  then show ?thesis using True assms by (simp add: best_of_def)
next
  case False
  then have "p = (lowest, s)" using assms by (auto simp: best_of_def)
  then show ?thesis using False by (simp only: if_False snd_conv)
qed

text \<open>The maximum of the absolute values of a set of indices.\<close>

definition amax_of :: "(nat \<Rightarrow> flt) \<Rightarrow> nat set \<Rightarrow> flt \<Rightarrow> bool" where
  "amax_of val A m \<longleftrightarrow> m \<noteq> NaN \<and> (m = fzero \<or> (\<exists>i \<in> A. m = fabs (val i))) \<and> (\<forall>i \<in> A. \<not> flt_less m (fabs (val i)))"

lemma larger_combine:
  assumes p: "amax_of val A p" and q: "amax_of val B q"
  shows "amax_of val (A \<union> B) (larger p q)"
proof (cases "flt_less p q")
  case True
  have "\<not> flt_less q (fabs (val i))" if "i \<in> A" for i
    using p that flt_less_trans [OF True, of "fabs (val i)"] by (auto simp: amax_of_def)
  then show ?thesis using q True unfolding amax_of_def larger_def by (simp add: ball_Un) blast
next
  case False
  have "\<not> flt_less p (fabs (val i))" if "i \<in> B" for i
    by (rule flt_not_less_trans [OF False]) (use q that in \<open>simp_all add: amax_of_def\<close>)
  then show ?thesis using p False unfolding amax_of_def larger_def by (simp add: ball_Un) blast
qed

lemma larger_extend:
  assumes p: "amax_of val A p"
  shows "amax_of val (insert i A) (larger p (fabs (val i)))"
proof (cases "flt_less p (fabs (val i))")
  case True
  have "\<not> flt_less (fabs (val i)) (fabs (val j))" if "j \<in> A" for j
    using p that flt_less_trans [OF True, of "fabs (val j)"] by (auto simp: amax_of_def)
  then show ?thesis using True flt_less_NaN [OF True] by (simp add: amax_of_def larger_def)
next
  case False
  then show ?thesis using p unfolding amax_of_def larger_def by simp blast
qed

lemma fmaxf_larger: "p \<noteq> NaN \<Longrightarrow> fmaxf p q = larger p q"
  by (cases q) (simp_all add: fmaxf_def larger_def)

interpretation amax: reduction larger fzero "\<lambda>i. fabs (val i)" "amax_of val" for val
proof unfold_locales
  show "amax_of val {} fzero" by (simp add: amax_of_def)
qed (rule larger_combine larger_extend; assumption)+

interpretation famax: reduction fmaxf fzero "\<lambda>i. fabs (val i)" "amax_of val" for val
proof unfold_locales
  show "amax_of val (A \<union> B) (fmaxf p q)" if "amax_of val A p" "amax_of val B q" for A B p q
    using larger_combine [OF that] that(1) by (simp add: fmaxf_larger amax_of_def)
  show "amax_of val (insert i A) (fmaxf p (fabs (val i)))" if "amax_of val A p" for A p i
    using larger_extend [OF that] that by (simp add: fmaxf_larger amax_of_def)
qed (simp add: amax_of_def)

section \<open>Threads of a block\<close>

lemma strided_in: "i \<in> set (strided bs N tid) \<Longrightarrow> i < N \<and> i mod bs = tid"
  by (simp add: strided_def)

lemma strided_cover: "0 < bs \<Longrightarrow> (\<Union>tid < bs. set (strided bs N tid)) = {..<N}"
  by (auto simp: strided_def)

lemma local_amax_of:
  assumes "\<And>i. i < N \<Longrightarrow> val i = Inr (g i)"
  shows "yields (local_amax bs val N tid) (amax_of g (set (strided bs N tid)))"
  unfolding local_amax_def by (rule amax.scan) (use assms strided_in in fastforce)

text \<open>The maximum that the tree of a block of \<open>2 ^ k\<close> threads finds.\<close>

lemma block_amax:
  assumes "list_all2 (\<lambda>tid. amax_of g (set (strided (2 ^ k) N tid))) [0..<2 ^ k] tops"
  shows "amax_of g {..<N} (block_reduce larger tops)" and "amax_of g {..<N} (block_reduce fmaxf tops)"
proof -
  have l: "length tops = 2 ^ k" using list_all2_lengthD [OF assms] by simp
  have t: "amax_of g (set (strided (2 ^ k) N i)) (tops ! i)" if "i < 2 ^ k" for i
    using list_all2_nthD [OF assms, of i] that by simp
  show "amax_of g {..<N} (block_reduce larger tops)" "amax_of g {..<N} (block_reduce fmaxf tops)"
    using amax.block [OF l t] famax.block [OF l t] by (simp_all add: strided_cover)
qed

end
