(* ===== verification/TerDeviceTotal.thy ===== *)
theory TerDeviceTotal
  imports TerDeviceFacts
begin

text \<open>
  The kernels of the decoder and its forward pass on buffers of the allocated sizes: every stage
  returns, keeps the sizes, and writes one row of each cache.
\<close>

section \<open>Normalisation and quantisation\<close>

abbreviation returns :: "'a res \<Rightarrow> bool" where
  "returns m \<equiv> yields m (\<lambda>_. True)"

lemma normed_returns: "i < length x \<Longrightarrow> i < length w \<Longrightarrow> returns (normed x w r i)"
  by (simp add: normed_def read_at_in)

lemma gated_returns: "i < length g \<Longrightarrow> i < length u \<Longrightarrow> returns (gated G g u i)"
  by (simp add: gated_def read_at_in)

lemma rfold_returns: "(\<And>a x. x \<in> set xs \<Longrightarrow> returns (f a x)) \<Longrightarrow> returns (rfold f z xs)"
  by (rule yields_rfold) auto

lemma local_amax_returns: "(\<And>i. i < N \<Longrightarrow> returns (val i)) \<Longrightarrow> returns (local_amax bs val N tid)"
  unfolding local_amax_def
  by (intro rfold_returns) (auto simp: strided_def intro!: yields_bind [where Q = "\<lambda>_. True"])

lemma thread_folds_returns: "(\<And>a i. i < N \<Longrightarrow> returns (f a i)) \<Longrightarrow> returns (thread_folds bs N f z)"
  unfolding thread_folds_def
  by (rule yields_weaken [OF yields_rmap_length]) (auto simp: strided_def intro!: rfold_returns)

lemma square_sums_returns: "H \<le> length x \<Longrightarrow> returns (square_sums bs x H)"
  unfolding square_sums_def by (rule thread_folds_returns) (simp add: read_at_in)

lemma write_quantized_total:
  assumes "N \<le> length y" and "\<And>i. i < N \<Longrightarrow> returns (val i)"
  shows "yields (write_quantized val scale N y) (\<lambda>(y', sc). length y' = length y)"
proof -
  have "yields (rfold (\<lambda>y i. rbind (val i) (\<lambda>v. write_at y i (quantized scale v))) y [0..<N]) (\<lambda>y'. length y' = length y)"
    by (rule yields_rfold) (use assms in \<open>auto simp: write_at_def intro!: yields_bind [where Q = "\<lambda>_. True"]\<close>)
  then show ?thesis unfolding write_quantized_def by (rule yields_bind) simp
qed

lemma rmsnorm_total:
  assumes "H \<le> length x" and "H \<le> length w" and "length y = H"
  shows "yields (rmsnorm_k G bs x w y H eps) (\<lambda>y'. length y' = H)"
  unfolding rmsnorm_k_def Let_def
proof (rule yields_bind [OF square_sums_returns [OF assms(1)]])
  fix sq
  show "yields (rfold (\<lambda>y i. rbind (normed x w (rms_inv G (block_reduce (fadd F32) sq) H eps) i) (\<lambda>n. write_at y i (half n))) y [0..<H])
      (\<lambda>y'. length y' = H)"
    by (rule yields_rfold) (use assms in \<open>auto simp: write_at_def intro!: yields_bind [where Q = "\<lambda>_. True"] normed_returns\<close>)
qed

lemma quant_int8_total:
  assumes "N \<le> length x" and "N \<le> length y"
  shows "yields (quant_int8_k bs x N y) (\<lambda>(y', sc). length y' = length y)"
  unfolding quant_int8_k_def
proof (rule yields_bind [OF thread_folds_returns])
  show "returns (rbind (read_at x i) (\<lambda>v. Inr (larger a (fabs v))))" if "i < N" for a i
    using that assms(1) by (simp add: read_at_in)
  show "yields (write_quantized (read_at x) (quant_scale (block_reduce larger tops)) N y) (\<lambda>(y', sc). length y' = length y)" for tops
    by (rule write_quantized_total) (use assms in \<open>simp_all add: read_at_in\<close>)
qed

lemma rmsnorm_quant_total:
  assumes "H \<le> length x" and "H \<le> length w" and "H \<le> length y"
  shows "yields (rmsnorm_quant_fp16_in_k S G bs x w H eps y) (\<lambda>(y', sc). length y' = length y)"
  unfolding rmsnorm_quant_fp16_in_k_def Let_def
proof (rule yields_bind [OF square_sums_returns [OF assms(1)]], rule yields_bind [OF local_amax_returns])
  show n: "returns (normed x w r i)" if "i < H" for r i
    using that assms by (intro normed_returns) auto
  show "yields (rbind (rmap (local_amax bs (\<lambda>i. normed x w (r (i mod bs)) i) H) [0..<bs]) (\<lambda>tops.
      write_quantized (\<lambda>i. normed x w (r (i mod bs)) i) (quant_scale (block_reduce fmaxf tops)) H y)) (\<lambda>(y', sc). length y' = length y)" for r
    by (rule yields_bind [OF yields_rmap_length]) (use n assms(3) in \<open>auto intro!: local_amax_returns write_quantized_total\<close>)
qed

lemma silu_mul_quant_total:
  assumes "F \<le> length g" and "F \<le> length u" and "F \<le> length y"
  shows "yields (silu_mul_quant_k G bs g u F y) (\<lambda>(y', sc). length y' = length y)"
  unfolding silu_mul_quant_k_def
  by (rule yields_bind [OF yields_rmap_length]) (use assms in \<open>auto intro!: local_amax_returns write_quantized_total gated_returns\<close>)

section \<open>Element-wise kernels and the caches\<close>

lemma add_total: "length x = N \<Longrightarrow> N \<le> length y \<Longrightarrow> yields (add_k n x y N) (\<lambda>r. length r = N)"
  unfolding add_k_def using each_cell_total [of N x] by (auto simp: read_at_in)

lemma embed_total:
  assumes "length emb = V * H" and "0 \<le> t" and "t < int V" and "length hidden = H"
  shows "yields (token_embed_lookup_k n emb H t hidden) (\<lambda>r. length r = H)"
proof -
  have "returns (rbind (cell (t * int H + int tid)) (read_at emb))" if "tid < H" for tid
  proof -
    have e: "t * int H + int tid = int (nat t * H + tid)" using assms(2) by simp
    have "nat t * H + tid < V * H" by (rule entry_in) (use that assms in auto)
    then show ?thesis unfolding e by (simp add: cell_def read_at_in assms(1) del: of_nat_add of_nat_mult)
  qed
  then show ?thesis unfolding token_embed_lookup_k_def using each_cell_total [of H hidden] assms(4) by auto
qed

lemma rope_total:
  assumes "length v = n * d"
  shows "yields (rope_k G v n d pos theta) (\<lambda>r. length r = n * d)"
proof -
  have "u div (d div 2) * d + 2 * (u mod (d div 2)) + 1 < n * d" if "u < n * (d div 2)" for u
  proof -
    have d: "0 < d div 2" using that by (cases "d div 2") auto
    have h: "u div (d div 2) < n" using that by (simp add: less_mult_imp_div_less)
    have "2 * (u mod (d div 2)) + 1 < d" using mod_less_divisor [OF d, of u] by linarith
    then have "u div (d div 2) * d + (2 * (u mod (d div 2)) + 1) < n * d" by (rule entry_in [OF h])
    then show ?thesis by simp
  qed
  note in_v = this
  have "yields (rope_k G v n d pos theta) (\<lambda>r. length r = length v)"
    unfolding rope_k_def Let_def
  proof (rule launch_total)
    fix u assume u: "u < n * (d div 2)"
    define i where "i = u div (d div 2) * d + 2 * (u mod (d div 2))"
    have i: "i < length v" "i + 1 < length v" using in_v [OF u] assms by (simp_all add: i_def)
    show "yields (rbind (read_at v (u div (d div 2) * d + 2 * (u mod (d div 2)))) (\<lambda>v0.
        rbind (read_at v (u div (d div 2) * d + 2 * (u mod (d div 2)) + 1)) (\<lambda>v1. Inr
          [(u div (d div 2) * d + 2 * (u mod (d div 2)), half (fsub F32 (fmul F32 v0 (c u)) (fmul F32 v1 (s u)))),
           (u div (d div 2) * d + 2 * (u mod (d div 2)) + 1, half (fadd F32 (fmul F32 v0 (s u)) (fmul F32 v1 (c u))))])))
        (\<lambda>ws. \<forall>(j, y) \<in> set ws. j < length v)" for c s
      unfolding i_def [symmetric] using i by (simp add: read_at_in)
  qed
  then show ?thesis using assms by simp
qed

text \<open>The row of position \<open>p\<close> in layer \<open>L\<close>.\<close>

definition cache_row :: "cfg \<Rightarrow> nat \<Rightarrow> nat \<Rightarrow> nat" where
  "cache_row c L p = (L * cf_Smax c + p) * Hkv_of c"

lemma kv_put_total:
  assumes p: "0 \<le> p" and k: "Hkv \<le> length k" and room: "(L * Smax + nat p) * Hkv + Hkv \<le> length Kc"
  shows "yields (kv_put n k Kc L Smax Hkv p)
    (\<lambda>r. same_outside ((L * Smax + nat p) * Hkv) ((L * Smax + nat p) * Hkv + Hkv) Kc r \<and> length r = length Kc)"
  unfolding kv_put_def
proof (rule launch_frame [OF _ room])
  fix u
  have e: "kv_cell L Smax p Hkv u = int ((L * Smax + nat p) * Hkv + u)" using p by (simp add: kv_cell_def)
  show "yields (if Hkv \<le> u then Inr [] else rbind (cell (kv_cell L Smax p Hkv u)) (\<lambda>a. rbind (read_at k u) (\<lambda>x. Inr [(a, x)])))
      (\<lambda>ws. \<forall>(j, y) \<in> set ws. (L * Smax + nat p) * Hkv \<le> j \<and> j < (L * Smax + nat p) * Hkv + Hkv)"
    unfolding e cell_def using k by (simp add: read_at_in del: of_nat_add of_nat_mult)
qed

section \<open>Attention\<close>

lemma softmax_length [simp]: "length (softmax_scores G sc) = length sc"
  by (simp add: softmax_scores_def Let_def)

lemma device_attention_total:
  assumes q: "length Q = nh * d" "length out = nh * d" and heads: "0 < nkv"
    and pos: "0 \<le> pos" "nat pos < smax" and room: "b + smax * (nkv * d) \<le> length Kc" "b + smax * (nkv * d) \<le> length Vc"
  shows "yields (attention_k S G Q Kc Vc b out nh nkv d pos smax) (\<lambda>r. length r = nh * d)"
proof -
  have at: "kv_at b nkv (h * nkv div nh) d s i < b + smax * (nkv * d)" if "h < nh" "s < smax" "i < d" for h s i
  proof -
    have "h * nkv < nh * nkv" using that(1) heads by simp
    then have "h * nkv div nh < nkv" by (simp add: less_mult_imp_div_less mult.commute)
    then have "s * nkv + h * nkv div nh < smax * nkv" by (rule entry_in [OF that(2)])
    then have "(s * nkv + h * nkv div nh) * d + i < smax * nkv * d" by (rule entry_in [OF _ that(3)])
    then show ?thesis by (simp add: kv_at_def mult.assoc)
  qed
  have hd: "h * d + i < nh * d" if "h < nh" "i < d" for h i using that by (rule entry_in)
  have scores: "yields (attn_score_row G Q Kc b nkv (h * nkv div nh) d h (pos + 1) smax) (\<lambda>sc. length sc = Suc (nat pos))"
    if "h < nh" for h
  proof -
    have n: "nat (pos + 1) = Suc (nat pos)" using pos(1) by simp
    have "yields (rmap (\<lambda>s. rbind (rfold (\<lambda>dot e. rbind (read_at Q (h * d + e)) (\<lambda>q.
        rbind (read_at Kc (kv_at b nkv (h * nkv div nh) d s e)) (\<lambda>k. Inr (fadd F32 dot (fmul F32 q k))))) fzero [0..<d])
        (\<lambda>dot. if s < smax + d then Inr (fmul F32 dot (cm_rsqrt G (of_int_flt F32 (int d)))) else Inl (OutOfRange ''write beyond shared memory'')))
        [0..<nat (pos + 1)]) (\<lambda>ys. length ys = length [0..<nat (pos + 1)])"
    proof (rule yields_rmap_length)
      fix s assume "s \<in> set [0..<nat (pos + 1)]"
      then have s: "s < smax" using pos n by auto
      have "returns (rfold (\<lambda>dot e. rbind (read_at Q (h * d + e)) (\<lambda>q.
          rbind (read_at Kc (kv_at b nkv (h * nkv div nh) d s e)) (\<lambda>k. Inr (fadd F32 dot (fmul F32 q k))))) fzero [0..<d])"
        by (rule rfold_returns) (use hd [OF that] at [OF that s] room(1) q(1) in \<open>auto simp: read_at_def dest: order.strict_trans2\<close>)
      then show "returns (rbind (rfold (\<lambda>dot e. rbind (read_at Q (h * d + e)) (\<lambda>q.
          rbind (read_at Kc (kv_at b nkv (h * nkv div nh) d s e)) (\<lambda>k. Inr (fadd F32 dot (fmul F32 q k))))) fzero [0..<d])
          (\<lambda>dot. if s < smax + d then Inr (fmul F32 dot (cm_rsqrt G (of_int_flt F32 (int d)))) else Inl (OutOfRange ''write beyond shared memory'')))"
        by (rule yields_bind) (use s in simp)
    qed
    then show ?thesis unfolding attn_score_row_def by (simp add: n del: upt_Suc)
  qed
  have val: "returns (attn_value sc (Suc (nat pos)) Vc b nkv (h * nkv div nh) d i)" if "h < nh" "i < d" for h i sc
    unfolding attn_value_def
  proof (rule rfold_returns)
    fix a s assume "s \<in> set [0..<Suc (nat pos)]"
    then have s: "s < smax" using pos(2) by auto
    show "returns (rbind (read_at Vc (kv_at b nkv (h * nkv div nh) d s i)) (\<lambda>x. Inr (fadd F32 a (fmul F32 (sc s) x))))"
      using order.strict_trans2 [OF at [OF that(1) s that(2)] room(2)] by (simp add: read_at_in)
  qed
  have outs: "returns (attn_outputs S smax h sc Vc b nkv (h * nkv div nh) d)" if "h < nh" "length sc = Suc (nat pos)" for h sc
    unfolding attn_outputs_def by (rule rfold_returns) (use val [OF that(1)] that(2) in \<open>auto intro!: yields_bind [where Q = "\<lambda>_. True"]\<close>)
  have "yields (attention_k S G Q Kc Vc b out nh nkv d pos smax) (\<lambda>r. length r = length out)"
    unfolding attention_k_def Let_def
  proof (rule launch_total, rule yields_bind [OF scores])
    fix h and sc :: "flt list" assume h: "h < nh" and sc: "length sc = Suc (nat pos)"
    show "yields (rbind (attn_outputs S smax h (softmax_scores G sc) Vc b nkv (h * nkv div nh) d)
        (\<lambda>outv. Inr (map (\<lambda>e. (h * d + e, half (the (outv e)))) [0..<d]))) (\<lambda>ws. \<forall>(j, y) \<in> set ws. j < length out)"
      by (rule yields_bind [OF outs [OF h]]) (use hd [OF h] sc q(2) in auto)
  qed
  then show ?thesis using q(2) by simp
qed

section \<open>The packed product\<close>

lemma four_columns_cells:
  assumes "four_columns f scale jb = Inr ws" and "(j, y) \<in> set ws"
  shows "j < jb + 4"
proof -
  obtain accs where "ws = columns scale jb accs" "length accs = 4"
    using assms(1) by (auto simp: four_columns_def dest: rmap_length)
  then show ?thesis using assms(2) by (auto simp: columns_def)
qed

text \<open>
  The products of the columns when every warp has a scale of its own, and kernels whose lanes sum
  stretches of the columns and whose warps scale them so.
\<close>

definition warp_product :: "8 word list \<Rightarrow> int list \<Rightarrow> nat \<Rightarrow> nat \<Rightarrow> (nat \<Rightarrow> flt) \<Rightarrow> flt list" where
  "warp_product X W K N scale = map (\<lambda>j. out_half (scale (j div 4)) (dot_col (map sint X) 0 W N K j)) [0..<N]"

lemma warp_product_const: "warp_product X W K N (\<lambda>_. scale) = packed_product X W K N scale"
  by (simp add: warp_product_def packed_product_def)

lemma warp_product_length [simp]: "length (warp_product X W K N scale) = N"
  by (simp add: warp_product_def)

lemma scaled_kernel:
  assumes ok: "packed_ok X W K N" and out: "length out = N" and n: "N \<le> n * 4"
    and lanes: "\<And>w i. w * 4 < N \<Longrightarrow> fl w i = Inr (group_parts X W N w (i * ((K + 31) div 32)) (lane_end ((K + 31) div 32) K i))"
  shows "launch n (\<lambda>w. if N \<le> w * 4 then Inr [] else rbind (four_columns (fl w) (scale w) (w * 4)) (\<lambda>ws. Inr (filter (\<lambda>(j, y). j < N) ws))) out =
    Inr (warp_product X W K N scale)"
  unfolding warp_product_def
proof (rule launch_ok [OF out, where c = 4])
  show N: "4 dvd N" using ok by (simp add: packed_ok_def)
  fix w assume w: "w * 4 < N"
  let ?ws = "map (\<lambda>i. (w * 4 + i, out_half (scale w) (dot_col (map sint X) 0 W N K (w * 4 + i)))) [0..<4]"
  have f: "four_columns (fl w) (scale w) (w * 4) = Inr ?ws"
    by (rule four_columns_ok [OF ok w, where kpt = "(K + 31) div 32"]) (use ok kpt_facts lanes [OF w] in \<open>auto simp: packed_ok_def\<close>)
  have "w * 4 + 4 \<le> N" using owned_in [OF _ N w, of 3] by simp
  then have "filter (\<lambda>(j, y). j < N) ?ws = ?ws" by (intro filter_True) auto
  moreover have "(w * 4 + i) div 4 = w" if "i < 4" for i using that by simp
  ultimately show "(if N \<le> w * 4 then Inr [] else rbind (four_columns (fl w) (scale w) (w * 4)) (\<lambda>ws. Inr (filter (\<lambda>(j, y). j < N) ws))) =
      Inr (map (\<lambda>i. (w * 4 + i, out_half (scale ((w * 4 + i) div 4)) (dot_col (map sint X) 0 W N K (w * 4 + i)))) [0..<4])"
    unfolding f using w by simp
qed (use n in simp_all)

lemma mm_packed_v4_ok:
  assumes ok: "packed_ok X W K N" and K: "128 dvd K" and out: "length out = N" and n: "N \<le> n * 4"
  shows "mm_packed_v4 S X (col_bytes K N (pack_rows K N W)) K N sx ws n out = Inr (warp_product X W K N (scale_seen S (fmul F32 sx ws)))"
  unfolding mm_packed_v4_def Let_def stretch_simp
proof (rule scaled_kernel [OF ok out n])
  fix w i assume w: "w * 4 < N"
  have "4 dvd K" using K by (rule dvd_trans [rotated]) simp
  then show "quad_loop (macs4 dec_cmp (load_u32 X) (\<lambda>kk. bytes_u32 (col_bytes K N (pack_rows K N W)) (w * 4 div 4 * K + kk)))
      (macs1 4 dec_cmp (read_at X) (byte_codes (col_bytes K N (pack_rows K N W)) (\<lambda>kk. w * 4 div 4 * K + kk)))
      (min K (i * ((K + 31) div 32) + (K + 31) div 32)) (i * ((K + 31) div 32)) (replicate 4 0) =
    Inr (group_parts X W N w (i * ((K + 31) div 32)) (lane_end ((K + 31) div 32) K i))"
    using warp4_lane [OF ok w _ decoders(1) kpt_aligned [OF K]] by simp
qed

text \<open>Packed weights in the column-major layout, as the converter writes them.\<close>

definition wpk_ok :: "nat \<Rightarrow> nat \<Rightarrow> wpk \<Rightarrow> bool" where
  "wpk_ok K N w \<longleftrightarrow> (\<exists>W. wp_data w = col_bytes K N (pack_rows K N W) \<and> (\<forall>i < K * N. W ! i = - 1 \<or> W ! i = 0 \<or> W ! i = 1))"

lemma dispatch_warps: "4 dvd (N :: nat) \<Longrightarrow> N \<le> 8 * ((N div 4 + 8 - 1) div 8) * 4"
proof -
  assume "4 dvd N"
  moreover have "N div 4 \<le> 8 * ((N div 4 + 8 - 1) div 8)" by simp
  ultimately show ?thesis by (auto elim!: dvdE)
qed

lemma wpk_trits:
  assumes "wpk_ok K N w" and "128 dvd K" and "K \<le> 2 ^ 23" and "4 dvd N" and "K \<le> length X"
  obtains W where "wp_data w = col_bytes K N (pack_rows K N W)" and "packed_ok X W K N"
  using assms by (auto simp: wpk_ok_def packed_ok_def)

lemma dispatch_total:
  assumes "wpk_ok K N w" and "128 dvd K" and "K \<le> 2 ^ 23" and "4 dvd N" and "K \<le> length X" and "length out = N"
  shows "yields (mm_packed_dispatch S X sx w out K N) (\<lambda>r. length r = N)"
proof -
  obtain W where W: "wp_data w = col_bytes K N (pack_rows K N W)" "packed_ok X W K N" by (rule wpk_trits [OF assms(1-5)])
  show ?thesis
    unfolding mm_packed_dispatch_def W(1) mm_packed_v4_ok [OF W(2) assms(2,6) dispatch_warps [OF assms(4)]] by simp
qed

section \<open>The stages\<close>

definition cfg_ok :: "cfg \<Rightarrow> bool" where
  "cfg_ok c \<longleftrightarrow> cf_H c = cf_Nh c * cf_Hd c \<and> 128 dvd cf_H c \<and> cf_H c \<le> 2 ^ 23 \<and> 128 dvd cf_F c \<and> cf_F c \<le> 2 ^ 23 \<and>
     4 dvd Hkv_of c \<and> 0 < cf_Nkv c \<and> 0 < cf_V c \<and> cf_Smax c < 2 ^ 31"

definition layer_ok :: "cfg \<Rightarrow> 'a dev_layer_scheme \<Rightarrow> bool" where
  "layer_ok c l \<longleftrightarrow> wpk_ok (cf_H c) (cf_H c) (dl_Wq l) \<and> wpk_ok (cf_H c) (Hkv_of c) (dl_Wk l) \<and> wpk_ok (cf_H c) (Hkv_of c) (dl_Wv l) \<and>
     wpk_ok (cf_H c) (cf_H c) (dl_Wo l) \<and> wpk_ok (cf_H c) (cf_F c) (dl_Wgate l) \<and> wpk_ok (cf_H c) (cf_F c) (dl_Wup l) \<and>
     wpk_ok (cf_F c) (cf_H c) (dl_Wdown l) \<and> length (dl_attn_norm l) = cf_H c \<and> length (dl_ffn_norm l) = cf_H c"

definition model_ok :: "dev_model \<Rightarrow> bool" where
  "model_ok m \<longleftrightarrow> (let c = dm_cfg m in cfg_ok c \<and> length (dm_layers m) = cf_Nl c \<and> (\<forall>l \<in> set (dm_layers m). layer_ok c l) \<and>
     length (dm_token_embd m) = cf_V c * cf_H c \<and> length (dm_output_norm m) = cf_H c \<and>
     (\<forall>W. dm_lm_head m = Some W \<longrightarrow> wpk_ok (cf_H c) (cf_V c) W \<and> 4 dvd cf_V c))"

definition scratch_ok :: "cfg \<Rightarrow> scratch \<Rightarrow> bool" where
  "scratch_ok c s \<longleftrightarrow> length (sh_hidden s) = cf_H c \<and> length (sh_x_norm s) = cf_H c \<and> length (sh_q s) = cf_H c \<and>
     length (sh_k s) = Hkv_of c \<and> length (sh_v s) = Hkv_of c \<and> length (sh_attn_out s) = cf_H c \<and>
     length (sh_gate s) = cf_F c \<and> length (sh_up s) = cf_F c \<and> length (sh_logits s) = cf_V c \<and>
     length (sh_x_q s) = max (cf_H c) (cf_F c) \<and> length (sh_ff_q s) = cf_F c \<and>
     length (sh_K_cache s) = cf_Nl c * cf_Smax c * Hkv_of c \<and> length (sh_V_cache s) = cf_Nl c * cf_Smax c * Hkv_of c"

lemma alloc_scratch_ok: "scratch_ok c (alloc_scratch x c)"
  by (simp add: scratch_ok_def alloc_scratch_def)

text \<open>Only the rows of position \<open>p\<close> in the first \<open>n\<close> layers differ.\<close>

definition only_rows :: "cfg \<Rightarrow> nat set \<Rightarrow> nat \<Rightarrow> flt list \<Rightarrow> flt list \<Rightarrow> bool" where
  "only_rows c Ls p K K' \<longleftrightarrow> length K' = length K \<and>
     (\<forall>i. (\<forall>L \<in> Ls. i < cache_row c L p \<or> cache_row c L p + Hkv_of c \<le> i) \<longrightarrow> K' ! i = K ! i)"

definition step_ok :: "cfg \<Rightarrow> nat set \<Rightarrow> scratch \<Rightarrow> scratch \<Rightarrow> bool" where
  "step_ok c Ls s t \<longleftrightarrow> scratch_ok c t \<and> sh_pos_dev t = sh_pos_dev s \<and>
     only_rows c Ls (nat (sh_pos_dev s)) (sh_K_cache s) (sh_K_cache t) \<and> only_rows c Ls (nat (sh_pos_dev s)) (sh_V_cache s) (sh_V_cache t)"

lemma step_ok_refl: "scratch_ok c s \<Longrightarrow> step_ok c Ls s s"
  by (simp add: step_ok_def only_rows_def)

lemma step_ok_trans: "step_ok c A s t \<Longrightarrow> step_ok c B t u \<Longrightarrow> step_ok c (A \<union> B) s u"
  by (simp add: step_ok_def only_rows_def)

lemma step_ok_scratch: "step_ok c Ls s t \<Longrightarrow> scratch_ok c t" and step_ok_pos: "step_ok c Ls s t \<Longrightarrow> sh_pos_dev t = sh_pos_dev s"
  by (simp_all add: step_ok_def)

lemma step_then:
  assumes "yields m (step_ok c A s)" and "\<And>t. step_ok c A s t \<Longrightarrow> yields (f t) (step_ok c B t)" and "A \<union> B \<subseteq> C"
  shows "yields (rbind m f) (step_ok c C s)"
proof -
  have w: "step_ok c C s u" if "step_ok c (A \<union> B) s u" for u
    using that assms(3) unfolding step_ok_def only_rows_def by blast
  obtain t where t: "m = Inr t" "step_ok c A s t" using assms(1) by (rule yieldsE)
  then show ?thesis using yields_weaken [OF assms(2) [OF t(2)]] w step_ok_trans [OF t(2)] by simp
qed

lemma norm_quant_total:
  assumes "scratch_ok c s" and "length w = cf_H c"
  shows "yields (norm_quant S G c w s) (step_ok c {} s)"
  unfolding norm_quant_def
  by (rule yields_bind [OF rmsnorm_quant_total]) (use assms in \<open>auto simp: scratch_ok_def step_ok_def only_rows_def\<close>)

lemma cache_row_in: "L < cf_Nl c \<Longrightarrow> p < cf_Smax c \<Longrightarrow> cache_row c L p + Hkv_of c \<le> cf_Nl c * cf_Smax c * Hkv_of c"
proof -
  assume "L < cf_Nl c" "p < cf_Smax c"
  then have "Suc (L * cf_Smax c + p) \<le> cf_Nl c * cf_Smax c" using entry_in Suc_leI by blast
  then have "Suc (L * cf_Smax c + p) * Hkv_of c \<le> cf_Nl c * cf_Smax c * Hkv_of c" by (rule mult_le_mono1)
  then show ?thesis by (simp add: cache_row_def)
qed

lemma same_outside_only:
  "same_outside ((L * cf_Smax c + p) * Hkv_of c) ((L * cf_Smax c + p) * Hkv_of c + Hkv_of c) K K' \<Longrightarrow> only_rows c {L} p K K'"
  by (auto simp: same_outside_def only_rows_def cache_row_def)

lemma qkv_total:
  assumes c: "cfg_ok c" and l: "layer_ok c l" and s: "scratch_ok c s" and L: "L < cf_Nl c"
    and p: "0 \<le> sh_pos_dev s" "nat (sh_pos_dev s) < cf_Smax c"
  shows "yields (qkv_stage S G c L l s) (step_ok c {L} s)"
proof -
  note W = l [unfolded layer_ok_def] and C = c [unfolded cfg_ok_def] and B = s [unfolded scratch_ok_def]
  have H4: "4 dvd cf_H c" using C by (auto intro: dvd_trans [of 4 128])
  have kv: "Hkv_of c = cf_Nkv c * cf_Hd c" by (simp add: Hkv_of_def)
  have room: "(L * cf_Smax c + nat (sh_pos_dev s)) * Hkv_of c + Hkv_of c \<le> cf_Nl c * cf_Smax c * Hkv_of c"
    using cache_row_in [OF L p(2)] by (simp add: cache_row_def)
  have "yields (mm_packed_dispatch (S 1) (sh_x_q s) (sh_scale_buf s) (dl_Wq l) (sh_q s) (cf_H c) (cf_H c)) (\<lambda>q0. length q0 = cf_H c)"
    by (rule dispatch_total) (use W C B H4 in auto)
  then obtain q0 where q0: "mm_packed_dispatch (S 1) (sh_x_q s) (sh_scale_buf s) (dl_Wq l) (sh_q s) (cf_H c) (cf_H c) = Inr q0" "length q0 = cf_H c"
    by (rule yieldsE)
  have "yields (mm_packed_dispatch (S 2) (sh_x_q s) (sh_scale_buf s) (dl_Wk l) (sh_k s) (cf_H c) (Hkv_of c)) (\<lambda>k0. length k0 = Hkv_of c)"
    by (rule dispatch_total) (use W C B H4 in auto)
  then obtain k0 where k0: "mm_packed_dispatch (S 2) (sh_x_q s) (sh_scale_buf s) (dl_Wk l) (sh_k s) (cf_H c) (Hkv_of c) = Inr k0" "length k0 = Hkv_of c"
    by (rule yieldsE)
  have "yields (mm_packed_dispatch (S 3) (sh_x_q s) (sh_scale_buf s) (dl_Wv l) (sh_v s) (cf_H c) (Hkv_of c)) (\<lambda>v. length v = Hkv_of c)"
    by (rule dispatch_total) (use W C B H4 in auto)
  then obtain v where v: "mm_packed_dispatch (S 3) (sh_x_q s) (sh_scale_buf s) (dl_Wv l) (sh_v s) (cf_H c) (Hkv_of c) = Inr v" "length v = Hkv_of c"
    by (rule yieldsE)
  have "yields (rope_k G q0 (cf_Nh c) (cf_Hd c) (sh_pos_dev s) (cf_rope_theta c)) (\<lambda>q. length q = cf_H c)"
    by (rule yields_weaken, rule rope_total) (use q0 C in auto)
  then obtain q where q: "rope_k G q0 (cf_Nh c) (cf_Hd c) (sh_pos_dev s) (cf_rope_theta c) = Inr q" "length q = cf_H c"
    by (rule yieldsE)
  have "yields (rope_k G k0 (cf_Nkv c) (cf_Hd c) (sh_pos_dev s) (cf_rope_theta c)) (\<lambda>k. length k = Hkv_of c)"
    by (rule yields_weaken, rule rope_total) (use k0 kv in auto)
  then obtain k where k: "rope_k G k0 (cf_Nkv c) (cf_Hd c) (sh_pos_dev s) (cf_rope_theta c) = Inr k" "length k = Hkv_of c"
    by (rule yieldsE)
  let ?n = "(Hkv_of c + 255) div 256 * 256"
  have "yields (kv_put ?n k (sh_K_cache s) L (cf_Smax c) (Hkv_of c) (sh_pos_dev s)) (\<lambda>Kc. only_rows c {L} (nat (sh_pos_dev s)) (sh_K_cache s) Kc)"
    by (rule yields_weaken, rule kv_put_total [OF p(1)]) (use k B room in \<open>auto intro: same_outside_only\<close>)
  then obtain Kc where Kc: "kv_put ?n k (sh_K_cache s) L (cf_Smax c) (Hkv_of c) (sh_pos_dev s) = Inr Kc" "only_rows c {L} (nat (sh_pos_dev s)) (sh_K_cache s) Kc"
    by (rule yieldsE)
  have "yields (kv_put ?n v (sh_V_cache s) L (cf_Smax c) (Hkv_of c) (sh_pos_dev s)) (\<lambda>Vc. only_rows c {L} (nat (sh_pos_dev s)) (sh_V_cache s) Vc)"
    by (rule yields_weaken, rule kv_put_total [OF p(1)]) (use v B room in \<open>auto intro: same_outside_only\<close>)
  then obtain Vc where Vc: "kv_put ?n v (sh_V_cache s) L (cf_Smax c) (Hkv_of c) (sh_pos_dev s) = Inr Vc" "only_rows c {L} (nat (sh_pos_dev s)) (sh_V_cache s) Vc"
    by (rule yieldsE)
  show ?thesis
    unfolding qkv_stage_def kv_copy_k_def q0(1) k0(1) v(1) q(1) k(1) rbind_simps Kc(1) Vc(1)
    using q(2) k(2) v(2) Kc(2) Vc(2) B by (auto simp: step_ok_def scratch_ok_def only_rows_def)
qed

lemma attn_total:
  assumes c: "cfg_ok c" and l: "layer_ok c l" and s: "scratch_ok c s" and L: "L < cf_Nl c"
    and p: "0 \<le> sh_pos_dev s" "nat (sh_pos_dev s) < cf_Smax c"
  shows "yields (attn_stage S G c L l s) (step_ok c {} s)"
proof -
  note W = l [unfolded layer_ok_def] and C = c [unfolded cfg_ok_def] and B = s [unfolded scratch_ok_def]
  have H4: "4 dvd cf_H c" using C by (auto intro: dvd_trans [of 4 128])
  have "Suc L * (cf_Smax c * Hkv_of c) \<le> cf_Nl c * (cf_Smax c * Hkv_of c)" using L by (intro mult_le_mono1) simp
  then have room: "L * cf_Smax c * Hkv_of c + cf_Smax c * (cf_Nkv c * cf_Hd c) \<le> cf_Nl c * cf_Smax c * Hkv_of c"
    by (simp add: Hkv_of_def mult.assoc)
  have "yields (attention_k (S 4) G (sh_q s) (sh_K_cache s) (sh_V_cache s) (L * cf_Smax c * Hkv_of c) (sh_attn_out s)
      (cf_Nh c) (cf_Nkv c) (cf_Hd c) (sh_pos_dev s) (cf_Smax c)) (\<lambda>a. length a = cf_H c)"
    by (rule yields_weaken, rule device_attention_total) (use C B room p in auto)
  then obtain a where a: "attention_k (S 4) G (sh_q s) (sh_K_cache s) (sh_V_cache s) (L * cf_Smax c * Hkv_of c) (sh_attn_out s)
      (cf_Nh c) (cf_Nkv c) (cf_Hd c) (sh_pos_dev s) (cf_Smax c) = Inr a" "length a = cf_H c"
    by (rule yieldsE)
  have "yields (quant_int8_k 256 a (cf_H c) (sh_x_q s)) (\<lambda>(y, sc). length y = length (sh_x_q s))"
    by (rule quant_int8_total) (use a B in auto)
  then obtain y sc where y: "quant_int8_k 256 a (cf_H c) (sh_x_q s) = Inr (y, sc)" "length y = length (sh_x_q s)"
    by (auto elim!: yieldsE)
  have "yields (mm_packed_dispatch (S 5) y sc (dl_Wo l) a (cf_H c) (cf_H c)) (\<lambda>b. length b = cf_H c)"
    by (rule dispatch_total) (use W C B H4 a y in auto)
  then obtain b where b: "mm_packed_dispatch (S 5) y sc (dl_Wo l) a (cf_H c) (cf_H c) = Inr b" "length b = cf_H c"
    by (rule yieldsE)
  have "yields (add_k (hblk c * 256) (sh_hidden s) b (cf_H c)) (\<lambda>h. length h = cf_H c)"
    by (rule add_total) (use B b in auto)
  then obtain h where h: "add_k (hblk c * 256) (sh_hidden s) b (cf_H c) = Inr h" "length h = cf_H c"
    by (rule yieldsE)
  show ?thesis
    unfolding attn_stage_def a(1) y(1) rbind_simps prod.case b(1) h(1)
    using y(2) b(2) h(2) B by (simp add: step_ok_def scratch_ok_def only_rows_def)
qed

lemma ffn_total:
  assumes c: "cfg_ok c" and l: "layer_ok c l" and s: "scratch_ok c s"
  shows "yields (ffn_stage S G c l s) (step_ok c {} s)"
proof -
  note W = l [unfolded layer_ok_def] and C = c [unfolded cfg_ok_def] and B = s [unfolded scratch_ok_def]
  have H4: "4 dvd cf_H c" "4 dvd cf_F c" using C by (auto intro: dvd_trans [of 4 128])
  have "yields (mm_packed_dispatch (S 7) (sh_x_q s) (sh_scale_buf s) (dl_Wgate l) (sh_gate s) (cf_H c) (cf_F c)) (\<lambda>g. length g = cf_F c)"
    by (rule dispatch_total) (use W C B H4 in auto)
  then obtain g where g: "mm_packed_dispatch (S 7) (sh_x_q s) (sh_scale_buf s) (dl_Wgate l) (sh_gate s) (cf_H c) (cf_F c) = Inr g" "length g = cf_F c"
    by (rule yieldsE)
  have "yields (mm_packed_dispatch (S 8) (sh_x_q s) (sh_scale_buf s) (dl_Wup l) (sh_up s) (cf_H c) (cf_F c)) (\<lambda>u. length u = cf_F c)"
    by (rule dispatch_total) (use W C B H4 in auto)
  then obtain u where u: "mm_packed_dispatch (S 8) (sh_x_q s) (sh_scale_buf s) (dl_Wup l) (sh_up s) (cf_H c) (cf_F c) = Inr u" "length u = cf_F c"
    by (rule yieldsE)
  have "yields (silu_mul_quant_k G 1024 g u (cf_F c) (sh_ff_q s)) (\<lambda>(y, sc). length y = length (sh_ff_q s))"
    by (rule silu_mul_quant_total) (use g u B in auto)
  then obtain y sc where y: "silu_mul_quant_k G 1024 g u (cf_F c) (sh_ff_q s) = Inr (y, sc)" "length y = length (sh_ff_q s)"
    by (auto elim!: yieldsE)
  have "yields (mm_packed_dispatch (S 9) y sc (dl_Wdown l) (sh_attn_out s) (cf_F c) (cf_H c)) (\<lambda>a. length a = cf_H c)"
    by (rule dispatch_total) (use W C B H4 y in auto)
  then obtain a where a: "mm_packed_dispatch (S 9) y sc (dl_Wdown l) (sh_attn_out s) (cf_F c) (cf_H c) = Inr a" "length a = cf_H c"
    by (rule yieldsE)
  have "yields (add_k (hblk c * 256) (sh_hidden s) a (cf_H c)) (\<lambda>h. length h = cf_H c)"
    by (rule add_total) (use B a in auto)
  then obtain h where h: "add_k (hblk c * 256) (sh_hidden s) a (cf_H c) = Inr h" "length h = cf_H c"
    by (rule yieldsE)
  show ?thesis
    unfolding ffn_stage_def g(1) u(1) y(1) rbind_simps prod.case a(1) h(1)
    using g(2) u(2) y(2) a(2) h(2) B by (simp add: step_ok_def scratch_ok_def only_rows_def)
qed

lemma device_layer_total:
  assumes c: "cfg_ok c" and l: "layer_ok c l" and s: "scratch_ok c s" and L: "L < cf_Nl c"
    and p: "0 \<le> sh_pos_dev s" "nat (sh_pos_dev s) < cf_Smax c"
  shows "yields (device_layer S G c L l s) (step_ok c {L} s)"
  unfolding device_layer_def
proof (rule step_then [where A = "{}" and B = "{L}"])
  have norms: "length (dl_attn_norm l) = cf_H c" "length (dl_ffn_norm l) = cf_H c" using l by (simp_all add: layer_ok_def)
  show "yields (norm_quant (S 0) G c (dl_attn_norm l) s) (step_ok c {} s)" by (rule norm_quant_total [OF s norms(1)])
  fix t assume "step_ok c {} s t"
  then have t: "scratch_ok c t" "0 \<le> sh_pos_dev t" "nat (sh_pos_dev t) < cf_Smax c" using p by (auto simp: step_ok_def)
  show "yields (rbind (qkv_stage S G c L l t) (\<lambda>s. rbind (attn_stage S G c L l s) (\<lambda>s. rbind (norm_quant (S 6) G c (dl_ffn_norm l) s)
      (\<lambda>s. ffn_stage S G c l s)))) (step_ok c {L} t)"
  proof (rule step_then [where A = "{L}" and B = "{}"])
    show "yields (qkv_stage S G c L l t) (step_ok c {L} t)" by (rule qkv_total [OF c l t(1) L t(2,3)])
    fix u assume "step_ok c {L} t u"
    then have u: "scratch_ok c u" "0 \<le> sh_pos_dev u" "nat (sh_pos_dev u) < cf_Smax c" using t by (auto simp: step_ok_def)
    show "yields (rbind (attn_stage S G c L l u) (\<lambda>s. rbind (norm_quant (S 6) G c (dl_ffn_norm l) s) (\<lambda>s. ffn_stage S G c l s))) (step_ok c {} u)"
      by (rule step_then [OF attn_total [OF c l u(1) L u(2,3)]], rule step_then [OF norm_quant_total [OF step_ok_scratch norms(2)]])
        (auto intro: ffn_total [OF c l] dest: step_ok_scratch)
  qed simp
qed simp

lemma layers_total:
  assumes m: "model_ok m" and s: "scratch_ok (dm_cfg m) s"
    and p: "0 \<le> sh_pos_dev s" "nat (sh_pos_dev s) < cf_Smax (dm_cfg m)" and n: "n \<le> cf_Nl (dm_cfg m)"
  shows "yields (rfold (\<lambda>s L. rbind (read_at (dm_layers m) L) (\<lambda>l. device_layer (S L) G (dm_cfg m) L l s)) s [0..<n])
    (step_ok (dm_cfg m) {..<n} s)"
proof (rule yields_rfold_index)
  show "step_ok (dm_cfg m) {..<0} s s" by (rule step_ok_refl [OF s])
  fix t i assume i: "i < n" and t: "step_ok (dm_cfg m) {..<i} s t"
  have l: "i < length (dm_layers m)" "layer_ok (dm_cfg m) (dm_layers m ! i)" using m i n by (auto simp: model_ok_def Let_def)
  have "yields (device_layer (S i) G (dm_cfg m) i (dm_layers m ! i) t) (step_ok (dm_cfg m) {i} t)"
    by (rule device_layer_total) (use m l t p i n in \<open>auto simp: model_ok_def Let_def step_ok_def\<close>)
  then have "yields (device_layer (S i) G (dm_cfg m) i (dm_layers m ! i) t) (step_ok (dm_cfg m) ({..<i} \<union> {i}) s)"
    by (rule yields_weaken) (rule step_ok_trans [OF t])
  moreover have "{..<i} \<union> {i} = {..<Suc i}" by auto
  ultimately show "yields (rbind (read_at (dm_layers m) i) (\<lambda>l. device_layer (S i) G (dm_cfg m) i l t)) (step_ok (dm_cfg m) {..<Suc i} s)"
    using l(1) by (simp add: read_at_in)
qed

lemma lm_head_total:
  assumes "length x = H" and "length emb = V * H" and "length y = V"
  shows "yields (mm_fp16_lm_head_k n x emb H V y) (\<lambda>r. length r = V)"
proof -
  have lane: "returns (lm_lane x emb H row i)" if row: "row < V" for row i
  proof -
    have at: "row * H + k < V * H" if "k < H" for k using row that by (rule entry_in)
    show ?thesis
    proof (cases "H mod 2 = 0")
      case True
      have "2 * k < H \<and> Suc (2 * k) < H \<and> row * H + 2 * k < V * H \<and> Suc (row * H + 2 * k) < V * H"
        if "k \<in> set (strided 32 (H div 2) i)" for k
      proof -
        have k: "2 * k < H" "Suc (2 * k) < H" using that True by (auto simp: strided_def)
        then show ?thesis using at [OF k(1)] at [OF k(2)] by simp
      qed
      then show ?thesis using True assms unfolding lm_lane_def
        by (auto intro!: rfold_returns simp: read_at_in)
    next
      case False
      then show ?thesis using at assms unfolding lm_lane_def
        by (auto intro!: rfold_returns simp: read_at_in strided_def)
    qed
  qed
  have "yields (mm_fp16_lm_head_k n x emb H V y) (\<lambda>r. length r = length y)"
    unfolding mm_fp16_lm_head_k_def
  proof (rule each_cell_total)
    fix row assume "row < V"
    then have "yields (rmap (lm_lane x emb H row) [0..<32]) (\<lambda>v. length v = length [0..<32])"
      using lane by (intro yields_rmap_length)
    then show "returns (rbind (rmap (lm_lane x emb H row) [0..<32]) (\<lambda>v. Inr (half (fwarp_sum v ! 0))))"
      by (rule yields_bind) simp
  qed (simp add: assms)
  then show ?thesis using assms(3) by simp
qed

lemma logits_stage_total:
  assumes m: "model_ok m" and s: "scratch_ok (dm_cfg m) s"
  shows "yields (logits_stage S G m s) (step_ok (dm_cfg m) {} s)"
proof (cases "dm_lm_head m")
  case None
  note B = s [unfolded scratch_ok_def] and M = m [unfolded model_ok_def Let_def]
  have "yields (rmsnorm_k G 256 (sh_hidden s) (dm_output_norm m) (sh_x_norm s) (cf_H (dm_cfg m)) (cf_eps (dm_cfg m))) (\<lambda>x. length x = cf_H (dm_cfg m))"
    by (rule rmsnorm_total) (use B M in auto)
  then obtain x where x: "rmsnorm_k G 256 (sh_hidden s) (dm_output_norm m) (sh_x_norm s) (cf_H (dm_cfg m)) (cf_eps (dm_cfg m)) = Inr x" "length x = cf_H (dm_cfg m)"
    by (rule yieldsE)
  have "yields (mm_fp16_lm_head_k ((cf_V (dm_cfg m) + 8 - 1) div 8 * 8) x (dm_token_embd m) (cf_H (dm_cfg m)) (cf_V (dm_cfg m)) (sh_logits s)) (\<lambda>y. length y = cf_V (dm_cfg m))"
    by (rule lm_head_total) (use x B M in auto)
  then obtain y where y: "mm_fp16_lm_head_k ((cf_V (dm_cfg m) + 8 - 1) div 8 * 8) x (dm_token_embd m) (cf_H (dm_cfg m)) (cf_V (dm_cfg m)) (sh_logits s) = Inr y" "length y = cf_V (dm_cfg m)"
    by (rule yieldsE)
  show ?thesis
    unfolding logits_stage_def Let_def None option.case x(1) rbind_simps y(1)
    using x(2) y(2) B by (simp add: step_ok_def scratch_ok_def only_rows_def)
next
  case (Some W)
  note M = m [unfolded model_ok_def Let_def]
  show ?thesis
    unfolding logits_stage_def Let_def Some option.case
  proof (rule step_then [OF norm_quant_total [OF s]])
    fix t assume "step_ok (dm_cfg m) {} s t"
    then have B: "scratch_ok (dm_cfg m) t" by (rule step_ok_scratch)
    note B' = B [unfolded scratch_ok_def]
    have "yields (mm_packed_dispatch (S 1) (sh_x_q t) (sh_scale_buf t) W (sh_logits t) (cf_H (dm_cfg m)) (cf_V (dm_cfg m))) (\<lambda>y. length y = cf_V (dm_cfg m))"
    by (rule dispatch_total) (use M Some B' in \<open>auto simp: cfg_ok_def\<close>)
  then obtain y where y: "mm_packed_dispatch (S 1) (sh_x_q t) (sh_scale_buf t) W (sh_logits t) (cf_H (dm_cfg m)) (cf_V (dm_cfg m)) = Inr y" "length y = cf_V (dm_cfg m)"
    by (rule yieldsE)
    show "yields (rbind (mm_packed_dispatch (S 1) (sh_x_q t) (sh_scale_buf t) W (sh_logits t) (cf_H (dm_cfg m)) (cf_V (dm_cfg m)))
        (\<lambda>y. Inr (t\<lparr>sh_logits := y\<rparr>))) (step_ok (dm_cfg m) {} t)"
      using y B' by (simp add: step_ok_def scratch_ok_def only_rows_def)
  qed (use M in auto)
qed

end
