(* ===== verification/TerDeviceProps.thy ===== *)
theory TerDeviceProps
  imports TerDeviceTotal TerCudaProps
begin

text \<open>
  The properties of the decoder on the GPU: its packed product and the race on its scale, the
  two-pass arg max, a forward pass on buffers of the allocated sizes, the greedy loop up to and
  beyond the end of the context, and the race of the fused normalisation. None assumes anything of
  the races: they hold for every schedule.
\<close>

section \<open>The packed product of the decoder\<close>

text \<open>The schedule on which nothing is early or late.\<close>

definition in_order :: sched where
  "in_order = \<lparr>sc_scale_stale = (\<lambda>w. None), sc_sum_late = (\<lambda>t. False), sc_out_rank = (\<lambda>h d. d), sc_out_seen = (\<lambda>h d s. False)\<rparr>"

text \<open>
  C15: For K a multiple of 128, the product kernel of the decoder returns for every column the exact
  integer product, scaled and rounded, on every schedule: the scale is the product of the two
  scales for the columns of the first warp of a block and of every warp that reads the shared cell
  after thread 0 has written it, and whatever the cell held before for a warp that reads it early.
\<close>

theorem device_product_race:
  assumes "packed_ok X W K N" and "128 dvd K" and "length out = N" and "N \<le> n * 4"
  shows "mm_packed_v4 S X (col_bytes K N (pack_rows K N W)) K N scale_x w_scale n out =
    Inr (map (\<lambda>j. out_half (if j div 4 mod 8 = 0 \<or> sc_scale_stale S (j div 4) = None then fmul F32 scale_x w_scale
          else the (sc_scale_stale S (j div 4)))
        (dot_col (map sint X) 0 W N K j)) [0..<N])"
proof -
  have "scale_seen S sc w = (if w mod 8 = 0 \<or> sc_scale_stale S w = None then sc else the (sc_scale_stale S w))" for sc w
    by (auto simp: scale_seen_def split: option.splits)
  then show ?thesis using mm_packed_v4_ok [OF assms] by (simp add: warp_product_def)
qed

theorem device_product_race_witness:
  "let X = map (\<lambda>k. word_of_int (int k - 60)) [0..<128]; W = map (\<lambda>i. int (i mod 3) - 1) [0..<1024];
       cols = col_bytes 128 8 (pack_rows 128 8 W) in
     mm_packed_v4 in_order X cols 128 8 (Num False 1) (Num False 2) 8 (replicate 8 fzero) =
       Inr (packed_product X W 128 8 (fmul F32 (Num False 1) (Num False 2)))"
proof -
  let ?X = "map (\<lambda>k. word_of_int (int k - 60)) [0..<128] :: 8 word list" and ?W = "map (\<lambda>i. int (i mod 3) - 1) [0..<1024]"
  have "\<forall>i < 1024. ?W ! i = int (i mod 3) - 1" by simp
  then have ok: "packed_ok ?X ?W 128 8" using trits_mod3 by (simp add: packed_ok_def)
  show ?thesis
    using device_product_race [OF ok, of "replicate 8 fzero" 8 in_order "Num False 1" "Num False 2"]
    unfolding Let_def packed_product_def by (simp add: in_order_def)
qed

section \<open>The arg max\<close>

lemma local_best:
  assumes "N \<le> length l"
  shows "yields (argmax_local_k n 256 l N) (\<lambda>parts. length parts = n \<and>
    (\<forall>b < n. best_of 0 l (\<Union>tid < 256. set (strided (n * 256) N (b * 256 + tid))) (parts ! b)))"
proof -
  let ?A = "\<lambda>b tid. set (strided (n * 256) N (b * 256 + tid))"
  have "yields (argmax_local_k n 256 l N) (list_all2 (\<lambda>b. best_of 0 l (\<Union>tid < 256. ?A b tid)) [0..<n])"
    unfolding argmax_local_k_def
  proof (rule yields_rmap)
    fix b
    have "yields (rmap (\<lambda>tid. rfold (\<lambda>p i. rbind (read_at l i) (\<lambda>v. Inr (better p (v, int i)))) (lowest, 0)
        (strided (n * 256) N (b * 256 + tid))) [0..<256]) (list_all2 (\<lambda>tid. best_of 0 l (?A b tid)) [0..<256])"
      by (rule yields_rmap, rule arg_max.scan) (use assms in \<open>simp add: strided_def read_at_in\<close>)
    then show "yields (rbind (rmap (\<lambda>tid. rfold (\<lambda>p i. rbind (read_at l i) (\<lambda>v. Inr (better p (v, int i)))) (lowest, 0)
        (strided (n * 256) N (b * 256 + tid))) [0..<256]) (\<lambda>v. Inr (block_reduce better v))) (best_of 0 l (\<Union>tid < 256. ?A b tid))"
    proof (rule yields_bind)
      fix v assume v: "list_all2 (\<lambda>tid. best_of 0 l (?A b tid)) [0..<256] v"
      then have "length v = 2 ^ 8" using list_all2_lengthD [OF v] by simp
      moreover have "best_of 0 l (?A b tid) (v ! tid)" if "tid < 2 ^ 8" for tid
        using list_all2_nthD [OF v, of tid] that by simp
      ultimately have "best_of 0 l (\<Union>tid < 2 ^ 8. ?A b tid) (block_reduce better v)" by (rule arg_max.block)
      then show "yields (Inr (block_reduce better v)) (best_of 0 l (\<Union>tid < 256. ?A b tid))" by simp
    qed
  qed
  then show ?thesis by (rule yields_weaken) (auto dest: list_all2_lengthD list_all2_nthD)
qed

lemma two_pass_best:
  assumes "N \<le> length l"
  shows "yields (rbind (argmax_local_k 128 256 l N) (\<lambda>parts. argmax_final_k 128 parts 128)) (\<lambda>t. \<exists>p. best_of 0 l {..<N} p \<and> t = snd p)"
proof (rule yields_bind [OF local_best [OF assms]])
  fix parts assume "length parts = 128 \<and> (\<forall>b < 128. best_of 0 l (\<Union>tid < 256. set (strided (128 * 256) N (b * 256 + tid))) (parts ! b))"
  then have len: "length parts = 2 ^ 7"
    and best: "\<And>b. b < 2 ^ 7 \<Longrightarrow> best_of 0 l (\<Union>tid < 256. set (strided (128 * 256) N (b * 256 + tid))) (parts ! b)" by simp_all
  have "rmap (\<lambda>tid. if tid < 128 then read_at parts tid else Inr (lowest, 0)) [0..<128] = Inr (map ((!) parts) [0..<128])"
    by (rule rmap_all) (use len in \<open>simp add: read_at_in\<close>)
  moreover have "map ((!) parts) [0..<128] = parts" using len map_nth [of parts] by simp
  ultimately have f: "argmax_final_k 128 parts 128 = Inr (snd (block_reduce better parts))" by (simp add: argmax_final_k_def)
  have "(\<Union>b < 2 ^ 7. \<Union>tid < 256. set (strided (128 * 256) N (b * 256 + tid))) = {..<N}"
  proof (intro equalityI subsetI)
    fix i assume "i \<in> {..<N}"
    moreover define j where "j = i mod (128 * 256)"
    moreover have "j div 256 < 2 ^ 7" "j mod 256 < 256" by (simp_all add: j_def less_mult_imp_div_less)
    moreover have "j div 256 * 256 + j mod 256 = j" by simp
    ultimately show "i \<in> (\<Union>b < 2 ^ 7. \<Union>tid < 256. set (strided (128 * 256) N (b * 256 + tid)))"
      by (intro UN_I [of "j div 256"] UN_I [of "j mod 256"]) (auto simp: strided_def)
  qed (auto simp: strided_def)
  then have "best_of 0 l {..<N} (block_reduce better parts)" using arg_max.block [OF len best] by simp
  then show "yields (argmax_final_k 128 parts 128) (\<lambda>t. \<exists>p. best_of 0 l {..<N} p \<and> t = snd p)"
    unfolding f yields_Inr by blast
qed

lemma best_index: "best_of 0 l {..<N} p \<Longrightarrow> 0 < N \<Longrightarrow> 0 \<le> snd p \<and> snd p < int N"
  by (auto simp: best_of_def)



section \<open>The forward pass\<close>

lemma select_total:
  assumes s: "scratch_ok c s" and V: "0 < cf_V c" and p: "0 \<le> sh_pos_dev s" "sh_pos_dev s < 2 ^ 31 - 1"
  shows "yields (select_stage c s) (\<lambda>t. scratch_ok c t \<and> sh_pos_dev t = sh_pos_dev s + 1 \<and>
    0 \<le> sh_token_id_dev t \<and> sh_token_id_dev t < int (cf_V c) \<and> sh_K_cache t = sh_K_cache s \<and> sh_V_cache t = sh_V_cache s)"
proof -
  have len: "cf_V c \<le> length (sh_logits s)" using s by (simp add: scratch_ok_def)
  obtain t where t: "rbind (argmax_local_k 128 256 (sh_logits s) (cf_V c)) (\<lambda>parts. argmax_final_k 128 parts 128) = Inr t"
    and "\<exists>p. best_of 0 (sh_logits s) {..<cf_V c} p \<and> t = snd p" by (rule yieldsE [OF two_pass_best [OF len]])
  then have "0 \<le> t \<and> t < int (cf_V c)" using best_index V by blast
  moreover have "add_i32 (sh_pos_dev s) 1 = Inr (sh_pos_dev s + 1)" using p by (simp add: add_i32_def in_i32_def)
  ultimately show ?thesis using t s by (auto simp: select_stage_def yields_def scratch_ok_def)
qed

lemma forward_dev_total:
  assumes m: "model_ok m" and s: "scratch_ok (dm_cfg m) s"
    and t: "0 \<le> sh_token_id_dev s" "sh_token_id_dev s < int (cf_V (dm_cfg m))"
    and p: "0 \<le> sh_pos_dev s" "nat (sh_pos_dev s) < cf_Smax (dm_cfg m)"
  shows "yields (forward_token_dev S G m s) (\<lambda>u. scratch_ok (dm_cfg m) u \<and> sh_pos_dev u = sh_pos_dev s + 1 \<and>
    0 \<le> sh_token_id_dev u \<and> sh_token_id_dev u < int (cf_V (dm_cfg m)) \<and>
    only_rows (dm_cfg m) {..<cf_Nl (dm_cfg m)} (nat (sh_pos_dev s)) (sh_K_cache s) (sh_K_cache u) \<and>
    only_rows (dm_cfg m) {..<cf_Nl (dm_cfg m)} (nat (sh_pos_dev s)) (sh_V_cache s) (sh_V_cache u))"
proof -
  let ?c = "dm_cfg m"
  note M = m [unfolded model_ok_def Let_def]
  have "yields (token_embed_lookup_k (hblk ?c * 256) (dm_token_embd m) (cf_H ?c) (sh_token_id_dev s) (sh_hidden s)) (\<lambda>h. length h = cf_H ?c)"
    by (rule embed_total) (use M s t in \<open>auto simp: scratch_ok_def\<close>)
  then obtain h where h: "token_embed_lookup_k (hblk ?c * 256) (dm_token_embd m) (cf_H ?c) (sh_token_id_dev s) (sh_hidden s) = Inr h"
    "length h = cf_H ?c" by (rule yieldsE)
  let ?s = "s\<lparr>sh_hidden := h\<rparr>"
  have s': "scratch_ok ?c ?s" "0 \<le> sh_pos_dev ?s" "nat (sh_pos_dev ?s) < cf_Smax ?c" using s h(2) p by (simp_all add: scratch_ok_def)
  have "yields (rbind (rfold (\<lambda>s L. rbind (read_at (dm_layers m) L) (\<lambda>l. device_layer (S L) G ?c L l s)) ?s [0..<cf_Nl ?c]) (logits_stage (S (cf_Nl ?c)) G m))
      (step_ok ?c {..<cf_Nl ?c} ?s)"
    by (rule step_then [OF layers_total [OF m s'(1,2,3) order_refl] logits_stage_total [OF m step_ok_scratch]]) auto
  then obtain u where u: "rbind (rfold (\<lambda>s L. rbind (read_at (dm_layers m) L) (\<lambda>l. device_layer (S L) G ?c L l s)) ?s [0..<cf_Nl ?c]) (logits_stage (S (cf_Nl ?c)) G m) = Inr u"
    "step_ok ?c {..<cf_Nl ?c} ?s u" by (rule yieldsE)
  have "sh_pos_dev u = sh_pos_dev s" "cf_Smax ?c < 2 ^ 31" using u(2) M by (simp_all add: step_ok_def cfg_ok_def)
  then have "yields (select_stage ?c u) (\<lambda>v. scratch_ok ?c v \<and> sh_pos_dev v = sh_pos_dev u + 1 \<and>
      0 \<le> sh_token_id_dev v \<and> sh_token_id_dev v < int (cf_V ?c) \<and> sh_K_cache v = sh_K_cache u \<and> sh_V_cache v = sh_V_cache u)"
    by (intro select_total) (use u(2) M p in \<open>auto simp: step_ok_def cfg_ok_def\<close>)
  then have "yields (select_stage ?c u) (\<lambda>v. scratch_ok ?c v \<and> sh_pos_dev v = sh_pos_dev s + 1 \<and>
      0 \<le> sh_token_id_dev v \<and> sh_token_id_dev v < int (cf_V ?c) \<and>
      only_rows ?c {..<cf_Nl ?c} (nat (sh_pos_dev s)) (sh_K_cache s) (sh_K_cache v) \<and>
      only_rows ?c {..<cf_Nl ?c} (nat (sh_pos_dev s)) (sh_V_cache s) (sh_V_cache v))"
    by (rule yields_weaken) (use u(2) in \<open>auto simp: step_ok_def\<close>)
  then show ?thesis using u(1) by (auto simp: forward_token_dev_def Let_def h(1))
qed

text \<open>Beyond the context the key row of the last layer has no room in the cache.\<close>

lemma rfold_meets:
  assumes "P z" and "\<And>a y b. P a \<Longrightarrow> f a y = Inr b \<Longrightarrow> P b" and "x \<in> set xs" and "\<And>a. P a \<Longrightarrow> isl (f a x)"
  shows "isl (rfold f z xs)"
  using assms(1,3)
proof (induction xs arbitrary: z)
  case (Cons y xs)
  show ?case
  proof (cases "f z y")
    case (Inr b)
    then have "x \<in> set xs" using Cons.prems assms(4) [of z] by auto
    then show ?thesis using Cons.IH [of b] assms(2) [OF Cons.prems(1) Inr] Inr by simp
  qed simp
qed simp

lemma write_length: "write_at xs i v = Inr ys \<Longrightarrow> length ys = length xs"
  by (auto simp: write_at_def split: if_splits)

lemma writes_length: "rfold (\<lambda>o' (i, y). write_at o' i y) o' ws = Inr r \<Longrightarrow> length r = length o'"
  by (induction ws arbitrary: o') (auto simp: rbind_def write_at_def split: sum.splits if_splits)

lemma launch_length: "launch n body out = Inr r \<Longrightarrow> length r = length out"
  unfolding launch_def
proof (induction n arbitrary: r)
  case (Suc n)
  then show ?case by (auto simp: rfold_append rbind_def dest: writes_length split: sum.splits)
qed simp

lemma launch_beyond:
  fixes out :: "flt list"
  assumes "u < n" and "\<And>ws. body u = Inr ws \<Longrightarrow> \<exists>i y ws'. ws = (i, y) # ws' \<and> length out \<le> i"
  shows "isl (launch n body out)"
  unfolding launch_def
proof (rule rfold_meets [where x = u and P = "\<lambda>o'. length o' = length out"])
  fix o' :: "flt list" assume len: "length o' = length out"
  show "isl (rbind (body u) (\<lambda>ws. rfold (\<lambda>o' (i, y). write_at o' i y) o' ws))"
  proof (cases "body u")
    case (Inr ws)
    then obtain i y ws' where "ws = (i, y) # ws'" "length out \<le> i" using assms(2) by blast
    then show ?thesis using Inr len by (simp add: write_at_def)
  qed simp
next
  fix o' b :: "flt list" and y assume "length o' = length out" and "rbind (body y) (\<lambda>ws. rfold (\<lambda>o' (i, y). write_at o' i y) o' ws) = Inr b"
  then show "length b = length out" by (auto simp: rbind_def dest: writes_length split: sum.splits)
qed (use assms(1) in simp_all)

lemma kv_put_beyond:
  assumes "0 < Hkv" and "Hkv \<le> n" and "0 \<le> p" and "length Kc \<le> (L * Smax + nat p) * Hkv"
  shows "isl (kv_put n k Kc L Smax Hkv p)"
  unfolding kv_put_def
proof (rule launch_beyond [of 0])
  have e: "kv_cell L Smax p Hkv 0 = int ((L * Smax + nat p) * Hkv)" using assms(3) by (simp add: kv_cell_def)
  show "\<exists>i y ws'. ws = (i, y) # ws' \<and> length Kc \<le> i"
    if "(if Hkv \<le> 0 then Inr [] else rbind (cell (kv_cell L Smax p Hkv 0)) (\<lambda>a. rbind (read_at k 0) (\<lambda>x. Inr [(a, x)]))) = Inr ws" for ws
    using that assms unfolding e cell_def by (auto simp: rbind_def split: sum.splits if_splits simp del: of_nat_mult of_nat_add)
qed (use assms in simp)

lemma kv_copy_beyond: "isl (kv_put n k Kc L Smax Hkv p) \<Longrightarrow> isl (kv_copy_k n k v Kc Vc L Smax Hkv p)"
  unfolding kv_copy_k_def by (rule rbind_fails)

text \<open>The stages keep the position and the length of the caches.\<close>

definition same_room :: "scratch \<Rightarrow> scratch \<Rightarrow> bool" where
  "same_room s t \<longleftrightarrow> sh_pos_dev t = sh_pos_dev s \<and> length (sh_K_cache t) = length (sh_K_cache s)"

lemma norm_quant_room: "norm_quant S G c w s = Inr t \<Longrightarrow> same_room s t"
  by (auto simp: norm_quant_def same_room_def split: prod.splits)

lemma qkv_room: "qkv_stage S G c L l s = Inr t \<Longrightarrow> same_room s t"
  unfolding qkv_stage_def same_room_def kv_copy_k_def kv_put_def
  by (auto dest!: launch_length split: prod.splits)

lemma attn_room: "attn_stage S G c L l s = Inr t \<Longrightarrow> same_room s t"
  by (auto simp: attn_stage_def same_room_def split: prod.splits)

lemma ffn_room: "ffn_stage S G c l s = Inr t \<Longrightarrow> same_room s t"
  by (auto simp: ffn_stage_def same_room_def split: prod.splits)

lemma device_layer_room: "device_layer S G c L l s = Inr t \<Longrightarrow> same_room s t"
  unfolding device_layer_def by (auto dest!: norm_quant_room qkv_room attn_room ffn_room simp: same_room_def)

lemma rbind_isl: "isl m \<or> (\<forall>a. m = Inr a \<longrightarrow> isl (f a)) \<Longrightarrow> isl (rbind m f)"
  by (cases m) auto

lemma rbind_then: "(\<And>a. isl (f a)) \<Longrightarrow> isl (rbind m f)"
  by (rule rbind_isl) blast

lemma last_row_beyond:
  assumes "int Smax \<le> p" and "0 < Nl" and "len = Nl * Smax * Hkv"
  shows "len \<le> ((Nl - 1) * Smax + nat p) * Hkv"
proof -
  have "Nl * Smax = (Nl - 1) * Smax + Smax" using assms(2) by (cases Nl) simp_all
  then have "Nl * Smax \<le> (Nl - 1) * Smax + nat p" using assms(1) by simp
  then show ?thesis unfolding assms(3) by (rule mult_le_mono1)
qed

lemma device_layer_beyond:
  assumes "0 < Hkv_of c" and "0 \<le> sh_pos_dev s" and "length (sh_K_cache s) \<le> (L * cf_Smax c + nat (sh_pos_dev s)) * Hkv_of c"
  shows "isl (device_layer S G c L l s)"
  unfolding device_layer_def
proof (rule rbind_isl [OF disjI2], intro allI impI)
  fix t assume "norm_quant (S 0) G c (dl_attn_norm l) s = Inr t"
  then have t: "same_room s t" by (rule norm_quant_room)
  have "isl (kv_put ((Hkv_of c + 255) div 256 * 256) k (sh_K_cache t) L (cf_Smax c) (Hkv_of c) (sh_pos_dev t))" for k
    by (rule kv_put_beyond) (use assms t in \<open>auto simp: same_room_def\<close>)
  note copy = kv_copy_beyond [OF this]
  have "isl (qkv_stage S G c L l t)"
    unfolding qkv_stage_def
    by (rule rbind_then, rule rbind_then, rule rbind_then, rule rbind_then, rule rbind_then, rule rbind_fails [OF copy])
  then show "isl (rbind (qkv_stage S G c L l t) (\<lambda>s. rbind (attn_stage S G c L l s) (\<lambda>s. rbind (norm_quant (S 6) G c (dl_ffn_norm l) s)
      (\<lambda>s. ffn_stage S G c l s))))" by (rule rbind_fails)
qed

lemma forward_dev_beyond:
  assumes s: "scratch_ok (dm_cfg m) s" and "int (cf_Smax (dm_cfg m)) \<le> sh_pos_dev s" and "0 < Hkv_of (dm_cfg m)" and "0 < cf_Nl (dm_cfg m)"
  shows "isl (forward_token_dev S G m s)"
proof -
  let ?c = "dm_cfg m"
  have "isl (rfold (\<lambda>s L. rbind (read_at (dm_layers m) L) (\<lambda>l. device_layer (S L) G ?c L l s)) (s\<lparr>sh_hidden := h\<rparr>) [0..<cf_Nl ?c])" for h
  proof (rule rfold_meets [where x = "cf_Nl ?c - 1" and P = "same_room s"])
    fix t assume t: "same_room s t"
    have "length (sh_K_cache t) \<le> ((cf_Nl ?c - 1) * cf_Smax ?c + nat (sh_pos_dev t)) * Hkv_of ?c"
      by (rule last_row_beyond) (use assms t in \<open>auto simp: same_room_def scratch_ok_def\<close>)
    then have "isl (device_layer (S (cf_Nl ?c - 1)) G ?c (cf_Nl ?c - 1) l t)" for l
      by (intro device_layer_beyond) (use assms t in \<open>auto simp: same_room_def\<close>)
    then show "isl (rbind (read_at (dm_layers m) (cf_Nl ?c - 1)) (\<lambda>l. device_layer (S (cf_Nl ?c - 1)) G ?c (cf_Nl ?c - 1) l t))"
      by (intro rbind_isl) auto
  next
    fix t L u assume "same_room s t" and "rbind (read_at (dm_layers m) L) (\<lambda>l. device_layer (S L) G ?c L l t) = Inr u"
    then show "same_room s u" by (auto simp: same_room_def dest!: device_layer_room)
  qed (use assms(4) in \<open>auto simp: same_room_def\<close>)
  then show ?thesis
    unfolding forward_token_dev_def Let_def by - (rule rbind_isl [OF disjI2], auto intro: rbind_fails)
qed

text \<open>
  C3: On a model and buffers of the sizes of its configuration (widths that are multiples of 128, at
  least one layer and a head of positive size), for a token of the vocabulary, a forward pass on the
  device behaves so on every schedule of its races: at a position of the context it returns, the
  position is advanced, the next token lies in the vocabulary, the sizes are kept and each cache
  differs at most in the rows of this position; at a position beyond the context it ends in an error
  value, which stands for undefined behaviour, and returns no result.
\<close>

theorem device_forward:
  assumes "model_ok m" and "scratch_ok (dm_cfg m) s" and "0 < cf_Hd (dm_cfg m)" and "0 < cf_Nl (dm_cfg m)"
    and "0 \<le> sh_token_id_dev s" and "sh_token_id_dev s < int (cf_V (dm_cfg m))" and "0 \<le> sh_pos_dev s"
  shows "if sh_pos_dev s < int (cf_Smax (dm_cfg m))
    then \<exists>t. forward_token_dev S G m s = Inr t \<and> scratch_ok (dm_cfg m) t \<and> sh_pos_dev t = sh_pos_dev s + 1 \<and>
      0 \<le> sh_token_id_dev t \<and> sh_token_id_dev t < int (cf_V (dm_cfg m)) \<and>
      only_rows (dm_cfg m) {..<cf_Nl (dm_cfg m)} (nat (sh_pos_dev s)) (sh_K_cache s) (sh_K_cache t) \<and>
      only_rows (dm_cfg m) {..<cf_Nl (dm_cfg m)} (nat (sh_pos_dev s)) (sh_V_cache s) (sh_V_cache t)
    else isl (forward_token_dev S G m s)"
proof (cases "sh_pos_dev s < int (cf_Smax (dm_cfg m))")
  case True
  then have "nat (sh_pos_dev s) < cf_Smax (dm_cfg m)" using assms(7) by linarith
  then show ?thesis using forward_dev_total [OF assms(1,2,5,6,7), of S G] True by (simp add: yields_def)
next
  case False
  have "0 < Hkv_of (dm_cfg m)" using assms(1,3) by (simp add: model_ok_def Let_def cfg_ok_def Hkv_of_def)
  then show ?thesis using forward_dev_beyond [OF assms(2) _ _ assms(4)] False by simp
qed

text \<open>A small decoder: one layer, one head of 128, weights of zeros, a context of two.\<close>

definition zero_wpk :: wpk where
  "zero_wpk = \<lparr>wp_data = col_bytes 128 128 (pack_rows 128 128 (replicate 16384 0)), wp_scale = Num False 1\<rparr>"

definition zero_layer :: dev_layer where
  "zero_layer = \<lparr>dl_Wq = zero_wpk, dl_Wk = zero_wpk, dl_Wv = zero_wpk, dl_Wo = zero_wpk, dl_Wgate = zero_wpk, dl_Wup = zero_wpk,
     dl_Wdown = zero_wpk, dl_attn_norm = replicate 128 (Num False 1), dl_ffn_norm = replicate 128 (Num False 1)\<rparr>"

definition zero_model :: dev_model where
  "zero_model = \<lparr>dm_cfg = \<lparr>cf_H = 128, cf_F = 128, cf_Nl = 1, cf_Nh = 1, cf_Nkv = 1, cf_Hd = 128, cf_V = 128001, cf_Smax = 2,
       cf_eps = fzero, cf_rope_theta = Num False 10000\<rparr>,
     dm_token_embd = replicate (128001 * 128) (Num False 1), dm_layers = [zero_layer], dm_output_norm = replicate 128 (Num False 1),
     dm_lm_head = None\<rparr>"

definition flat_math :: cuda_math where
  "flat_math = \<lparr>cm_rsqrt = (\<lambda>x. x), cm_exp = (\<lambda>x. Num False 1), cm_pow = (\<lambda>x y. Num False 1), cm_cos = (\<lambda>x. Num False 1), cm_sin = (\<lambda>x. fzero)\<rparr>"

lemma zero_wpk_ok: "wpk_ok 128 128 zero_wpk"
  unfolding wpk_ok_def zero_wpk_def by (intro exI [of _ "replicate 16384 0"]) simp

lemma zero_model_ok: "model_ok zero_model"
  by (simp add: model_ok_def zero_model_def cfg_ok_def layer_ok_def zero_layer_def zero_wpk_ok Hkv_of_def)

theorem device_forward_witness:
  "(\<exists>t. forward_token_dev (\<lambda>L k. in_order) flat_math zero_model (alloc_scratch fzero (dm_cfg zero_model)) = Inr t \<and> sh_pos_dev t = 1) \<and>
   isl (forward_token_dev (\<lambda>L k. in_order) flat_math zero_model (alloc_scratch fzero (dm_cfg zero_model)\<lparr>sh_pos_dev := 2\<rparr>))"
proof -
  let ?s = "alloc_scratch fzero (dm_cfg zero_model)"
  have s: "scratch_ok (dm_cfg zero_model) (?s\<lparr>sh_pos_dev := p\<rparr>)" for p
    using alloc_scratch_ok [of "dm_cfg zero_model" fzero] by (simp add: scratch_ok_def)
  have e: "?s\<lparr>sh_pos_dev := 0\<rparr> = ?s" "sh_token_id_dev ?s = 0" "sh_pos_dev ?s = 0" by (simp_all add: alloc_scratch_def)
  have z: "cf_Hd (dm_cfg zero_model) = 128" "cf_Nl (dm_cfg zero_model) = 1" "cf_V (dm_cfg zero_model) = 128001" "cf_Smax (dm_cfg zero_model) = 2"
    by (simp_all add: zero_model_def)
  have "\<exists>t. forward_token_dev (\<lambda>L k. in_order) flat_math zero_model ?s = Inr t \<and> sh_pos_dev t = 1"
    using device_forward [OF zero_model_ok s [of 0], of "\<lambda>L k. in_order" flat_math] unfolding e(1) by (auto simp: e z)
  moreover have "isl (forward_token_dev (\<lambda>L k. in_order) flat_math zero_model (?s\<lparr>sh_pos_dev := 2\<rparr>))"
    using device_forward [OF zero_model_ok s [of 2], of "\<lambda>L k. in_order" flat_math] by (simp add: e z)
  ultimately show ?thesis by blast
qed

section \<open>Greedy generation\<close>

definition greedy_from :: "(nat \<Rightarrow> pass_sched) \<Rightarrow> cuda_math \<Rightarrow> dev_model \<Rightarrow> scratch \<Rightarrow> nat \<Rightarrow> (int list \<times> int \<times> scratch) res" where
  "greedy_from S G m s n =
     rfold (\<lambda>(toks, tk, s) p. rbind (forward_token_host (S p) G m s tk (int p)) (\<lambda>(tk, s). Inr (toks @ [tk], tk, s))) ([], 128000, s) [0..<n]"

lemma greedy_total:
  assumes m: "model_ok m" and s: "scratch_ok (dm_cfg m) s" and V: "128000 < cf_V (dm_cfg m)" and n: "n \<le> cf_Smax (dm_cfg m)"
  shows "yields (greedy_from S G m s n) (\<lambda>(toks, tk, t). length toks = n \<and> (\<forall>x \<in> set toks. 0 \<le> x \<and> x < int (cf_V (dm_cfg m))) \<and>
    0 \<le> tk \<and> tk < int (cf_V (dm_cfg m)) \<and> scratch_ok (dm_cfg m) t)"
  unfolding greedy_from_def
proof (rule yields_rfold_index)
  fix a p assume p: "p < n"
    and a: "case a of (toks, tk, t) \<Rightarrow> length toks = p \<and> (\<forall>x \<in> set toks. 0 \<le> x \<and> x < int (cf_V (dm_cfg m))) \<and>
      0 \<le> tk \<and> tk < int (cf_V (dm_cfg m)) \<and> scratch_ok (dm_cfg m) t"
  obtain toks tk t where e: "a = (toks, tk, t)" by (cases a)
  let ?t = "t\<lparr>sh_token_id_dev := tk, sh_pos_dev := int p\<rparr>"
  have "yields (forward_token_dev (S p) G m ?t) (\<lambda>u. scratch_ok (dm_cfg m) u \<and> 0 \<le> sh_token_id_dev u \<and> sh_token_id_dev u < int (cf_V (dm_cfg m)))"
    by (rule yields_weaken [OF forward_dev_total [OF m]]) (use a e p n in \<open>auto simp: scratch_ok_def\<close>)
  then obtain u where u: "forward_token_dev (S p) G m ?t = Inr u" "scratch_ok (dm_cfg m) u \<and> 0 \<le> sh_token_id_dev u \<and> sh_token_id_dev u < int (cf_V (dm_cfg m))"
    by (rule yieldsE)
  show "yields ((\<lambda>(toks, tk, s) p. rbind (forward_token_host (S p) G m s tk (int p)) (\<lambda>(tk, s). Inr (toks @ [tk], tk, s))) a p)
      (\<lambda>(toks, tk, t). length toks = Suc p \<and> (\<forall>x \<in> set toks. 0 \<le> x \<and> x < int (cf_V (dm_cfg m))) \<and>
        0 \<le> tk \<and> tk < int (cf_V (dm_cfg m)) \<and> scratch_ok (dm_cfg m) t)"
    using a u by (auto simp: e forward_token_host_def)
qed (use s V in simp)

lemma greedy_beyond:
  assumes m: "model_ok m" and s: "scratch_ok (dm_cfg m) s" and V: "128000 < cf_V (dm_cfg m)"
    and "0 < Hkv_of (dm_cfg m)" and "0 < cf_Nl (dm_cfg m)" and "cf_Smax (dm_cfg m) < n"
  shows "isl (greedy_from S G m s n)"
proof -
  let ?f = "\<lambda>(toks, tk, s) p. rbind (forward_token_host (S p) G m s tk (int p)) (\<lambda>(tk, s). Inr (toks @ [tk], tk, s))"
  have split: "[0..<n] = [0..<cf_Smax (dm_cfg m)] @ cf_Smax (dm_cfg m) # [Suc (cf_Smax (dm_cfg m))..<n]"
    using assms(6) upt_add_eq_append [of 0 "cf_Smax (dm_cfg m)" "n - cf_Smax (dm_cfg m)"] by (simp add: upt_conv_Cons)
  obtain a where a: "greedy_from S G m s (cf_Smax (dm_cfg m)) = Inr a" "case a of (toks, tk, t) \<Rightarrow> scratch_ok (dm_cfg m) t"
    by (rule yieldsE [OF greedy_total [OF m s V order_refl]]) auto
  obtain toks tk t where e: "a = (toks, tk, t)" by (cases a)
  have "scratch_ok (dm_cfg m) (t\<lparr>sh_token_id_dev := tk, sh_pos_dev := int (cf_Smax (dm_cfg m))\<rparr>)"
    using a(2) e by (simp add: scratch_ok_def)
  then have "isl (forward_token_dev (S (cf_Smax (dm_cfg m))) G m (t\<lparr>sh_token_id_dev := tk, sh_pos_dev := int (cf_Smax (dm_cfg m))\<rparr>))"
    using assms by (intro forward_dev_beyond) simp_all
  then have "isl (?f a (cf_Smax (dm_cfg m)))" unfolding e forward_token_host_def by (auto intro!: rbind_fails)
  then show ?thesis using a(1) unfolding greedy_from_def split rfold_append by (simp add: rbind_fails)
qed

text \<open>
  C17: On a model and buffers of the sizes of its configuration (as for a forward pass) and a
  vocabulary that holds the start token 128000, the greedy loop delivers the requested tokens, all
  from the vocabulary, on every schedule of the races as long as they fit the context of the caches,
  and ends in an error value, which stands for undefined behaviour, when more are requested.
\<close>

theorem greedy_until_context_end:
  assumes "model_ok m" and "scratch_ok (dm_cfg m) s" and "128000 < cf_V (dm_cfg m)"
    and "0 < cf_Hd (dm_cfg m)" and "0 < cf_Nl (dm_cfg m)"
  shows "if n_gen \<le> cf_Smax (dm_cfg m)
    then \<exists>toks t. greedy_tokens S G m s n_gen = Inr (toks, t) \<and> length toks = n_gen \<and> (\<forall>x \<in> set toks. 0 \<le> x \<and> x < int (cf_V (dm_cfg m)))
    else isl (greedy_tokens S G m s n_gen)"
proof (cases "n_gen \<le> cf_Smax (dm_cfg m)")
  case True
  then show ?thesis
    using greedy_total [OF assms(1-3) True, of S G] by (auto simp: greedy_tokens_def greedy_from_def elim!: yieldsE)
next
  case False
  have "0 < Hkv_of (dm_cfg m)" using assms(1,4) by (simp add: model_ok_def Let_def cfg_ok_def Hkv_of_def)
  then have "isl (greedy_from S G m s n_gen)" by (intro greedy_beyond assms(1-3,5)) (use False in simp_all)
  then show ?thesis using False by (simp add: greedy_tokens_def greedy_from_def rbind_fails)
qed

theorem greedy_until_context_end_witness:
  "(\<exists>toks t. greedy_tokens (\<lambda>p L k. in_order) flat_math zero_model (alloc_scratch fzero (dm_cfg zero_model)) 2 = Inr (toks, t) \<and> length toks = 2) \<and>
   isl (greedy_tokens (\<lambda>p L k. in_order) flat_math zero_model (alloc_scratch fzero (dm_cfg zero_model)) 3)"
proof -
  have z: "cf_Hd (dm_cfg zero_model) = 128" "cf_Nl (dm_cfg zero_model) = 1" "cf_V (dm_cfg zero_model) = 128001" "cf_Smax (dm_cfg zero_model) = 2"
    by (simp_all add: zero_model_def)
  note run = greedy_until_context_end [OF zero_model_ok alloc_scratch_ok [of _ fzero], where G = flat_math and S = "\<lambda>p L k. in_order"]
  show ?thesis using run [where n_gen = 2] run [where n_gen = 3] by (auto simp: z)
qed

section \<open>The fused normalisation\<close>

lemma write_all:
  assumes "\<And>i. i < N \<Longrightarrow> val i = Inr (f i)" and "length y = N"
  shows "rfold (\<lambda>y i. rbind (val i) (\<lambda>v. write_at y i (g v))) y [0..<N] = Inr (map (\<lambda>i. g (f i)) [0..<N])"
proof -
  have "rfold (\<lambda>y i. rbind (val i) (\<lambda>v. write_at y i (g v))) y [0..<n] = Inr (map (\<lambda>i. g (f i)) [0..<n] @ drop n y)" if "n \<le> N" for n
    using that
  proof (induction n)
    case (Suc n)
    have "(map (\<lambda>i. g (f i)) [0..<n] @ drop n y)[n := g (f n)] = map (\<lambda>i. g (f i)) [0..<Suc n] @ drop (Suc n) y"
      using Suc.prems assms(2) by (simp add: list_update_append Cons_nth_drop_Suc [symmetric])
    then show ?case using Suc assms by (simp add: rfold_append write_at_def)
  qed simp
  then show ?thesis using assms(2) by simp
qed

text \<open>
  C27: The fused kernel normalises every element with the root mean square of the whole vector and
  quantises it to int8 with the largest absolute value of the normalised vector, found by the tree of
  256 threads, whose scale it returns; but the elements of a thread that is late are
  normalised with the maximum of thread 0 in the place of the sum of squares.
\<close>

theorem fused_norm_quantises:
  assumes "H \<le> length x" and "H \<le> length gamma" and "length y = H"
  shows "\<exists>sq first amax. square_sums 256 x H = Inr sq \<and>
    (let rms = rms_inv G (block_reduce (fadd F32) sq) H eps;
         late = (\<lambda>i. i mod 256 \<noteq> 0 \<and> sc_sum_late S (i mod 256));
         n = (\<lambda>i. fmul F32 (fmul F32 (x ! i) (if late i then rms_inv G first H eps else rms)) (gamma ! i)); sc = quant_scale amax in
       amax_of (\<lambda>i. fmul F32 (fmul F32 (x ! i) rms) (gamma ! i)) (set (strided 256 H 0)) first \<and> amax_of n {..<H} amax \<and>
       rmsnorm_quant_fp16_in_k S G 256 x gamma H eps y = Inr (map (\<lambda>i. quantized sc (n i)) [0..<H], fdiv F32 (lit 1) sc))"
proof -
  obtain sq where sq: "square_sums 256 x H = Inr sq" using square_sums_returns [OF assms(1)] by (auto elim: yieldsE)
  define r where "r = rms_inv G (block_reduce (fadd F32) sq) H eps"
  have val: "normed x gamma q i = Inr (fmul F32 (fmul F32 (x ! i) q) (gamma ! i))" if "i < H" for i q
    using that assms(1,2) by (simp add: normed_def read_at_in)
  obtain first where first: "local_amax 256 (normed x gamma r) H 0 = Inr first"
    "amax_of (\<lambda>i. fmul F32 (fmul F32 (x ! i) r) (gamma ! i)) (set (strided 256 H 0)) first"
    by (rule yieldsE [OF local_amax_of [OF val]])
  define q where "q = (\<lambda>tid. if tid \<noteq> 0 \<and> sc_sum_late S tid then rms_inv G first H eps else r)"
  define n where "n = (\<lambda>i. fmul F32 (fmul F32 (x ! i) (q (i mod 256))) (gamma ! i))"
  let ?val = "\<lambda>i. normed x gamma (q (i mod 256)) i"
  have v: "?val i = Inr (n i)" if "i < H" for i using val [OF that] by (simp add: n_def)
  have "yields (rmap (local_amax 256 ?val H) [0..<256]) (list_all2 (\<lambda>tid. amax_of n (set (strided 256 H tid))) [0..<256])"
    by (rule yields_rmap, rule local_amax_of, rule v)
  then obtain tops where tops: "rmap (local_amax 256 ?val H) [0..<256] = Inr tops"
    "list_all2 (\<lambda>tid. amax_of n (set (strided 256 H tid))) [0..<256] tops" by (rule yieldsE)
  have best: "amax_of n {..<H} (block_reduce fmaxf tops)" using block_amax(2) [of n 8 H tops] tops(2) by simp
  let ?sc = "quant_scale (block_reduce fmaxf tops)"
  have q: "(if t \<noteq> 0 \<and> sc_sum_late S t then rms_inv G first H eps else r) = q t" for t by (simp add: q_def)
  have "rmsnorm_quant_fp16_in_k S G 256 x gamma H eps y = write_quantized ?val ?sc H y"
    unfolding rmsnorm_quant_fp16_in_k_def sq rbind_simps Let_def r_def [symmetric] first(1) q tops(1) ..
  also have "\<dots> = Inr (map (\<lambda>i. quantized ?sc (n i)) [0..<H], fdiv F32 (lit 1) ?sc)"
    unfolding write_quantized_def by (simp add: write_all [OF v assms(3)])
  finally show ?thesis using sq first(2) best unfolding Let_def n_def q_def r_def by blast
qed

theorem fused_norm_quantises_witness:
  "\<exists>sq first amax. square_sums 256 [Num False 1, Num True 2] 2 = Inr sq \<and>
    (let rms = rms_inv flat_math (block_reduce (fadd F32) sq) 2 fzero;
         n = (\<lambda>i. fmul F32 (fmul F32 ([Num False 1, Num True 2] ! i) rms) ([Num False 1, Num False 1] ! i)) in
       amax_of n {..<2} amax \<and> rmsnorm_quant_fp16_in_k in_order flat_math 256 [Num False 1, Num True 2] [Num False 1, Num False 1] 2 fzero [0, 0] =
         Inr (map (\<lambda>i. quantized (quant_scale amax) (n i)) [0..<2], fdiv F32 (lit 1) (quant_scale amax)))"
proof -
  have "\<not> sc_sum_late in_order w" for w by (simp add: in_order_def)
  then show ?thesis
    using fused_norm_quantises [of 2 "[Num False 1, Num True 2]" "[Num False 1, Num False 1]" "[0, 0]" flat_math fzero in_order]
    unfolding Let_def by (simp del: upt_Suc) blast
qed

end
