(* ===== verification/Spec2Isabelle.thy ===== *)
theory Spec2Isabelle
  imports TerCoreProps TerKernelProps TerSimProps TerHostProps TerHarnessProps TerCudaProps TerBatchProps TerTensorProps TerDeviceProps
begin

text \<open>
  A verification library for \<open>ter\<close>, a simulator of a balanced-ternary processor with its
  assembler, its kernels for ternary neural networks and a cycle model.

  The program. A machine word has 27 balanced trits; instructions are words; a simulator
  (\<open>Sim\<close>) executes a program in a packed word memory with scalar, vector and accumulator
  registers. Kernels are assembled from text, copied into memory with their jumps relocated,
  registered by name and called with up to seven register arguments; a C interface
  (\<open>ter_k4\<close>) wraps these calls. A transformer (\<open>src/tx\<close>) loads a model file, quantises its
  weights and routes the layers through the kernels. The second version (\<open>v2\<close>) replays executed
  instructions through a cycle model with caches, estimates the energy of a chip and the time of a
  GPU, and reports on three workloads. CUDA programs (\<open>cuda/\<close>) compute the same products from
  weights packed as four trits in a byte.

  Theories, in the order of the code:
  \<^item> \<open>TerPrelude\<close>: error values, the state-and-exception monad \<open>sx\<close> (an exception keeps the
    mutations made before it), machine-integer ranges, and the shared interfaces
    \<open>bijective_codec\<close> and \<open>step_machine\<close>.
  \<^item> \<open>TerTrit\<close>, \<open>TerWord\<close>: \<open>include/ter/trit.hpp\<close>, \<open>tryte.hpp\<close>, \<open>word.hpp\<close>,
    \<open>src/core/word.cpp\<close>, \<open>pack.cpp\<close>. A word is the list of its trits, least significant
    first; its operations are shown to be integer arithmetic modulo powers of three.
  \<^item> \<open>TerIsa\<close>: \<open>isa.hpp\<close>, \<open>src/isa/encode.cpp\<close>, \<open>decode.cpp\<close>.
  \<^item> \<open>TerVec\<close>, \<open>TerState\<close>: \<open>src/core/vec.cpp\<close>, \<open>memory.hpp\<close>, \<open>regfile.hpp\<close>,
    \<open>counters.hpp\<close>. Memory and kernel table laws are locales interpreted on these models.
  \<^item> \<open>TerExec\<close>: \<open>src/sim/run_one.cpp\<close>, one definition per case of the switch, and
    \<open>src/sim/sim.cpp\<close>. Errors are the exceptions, failed assertions and undefined signed
    overflows of the source.
  \<^item> \<open>TerSemantics\<close>, \<open>TerMachine\<close>, \<open>TerVector\<close>, \<open>TerReach\<close>: views of the state, an abstract
    integer machine that the scalar instructions refine, the vector instructions, and the step
    relation with its reachable states.
  \<^item> \<open>TerAsm\<close>, \<open>TerAsmProps\<close>: \<open>src/asm/lexer.cpp\<close>, \<open>emitter.cpp\<close>; a printer and the proof
    that the assembler undoes it.
  \<^item> \<open>TerKernels\<close>, \<open>TerKernelRuns\<close>, \<open>TerK4\<close>: \<open>src/sim/call_kernel.cpp\<close>, \<open>load_lut.cpp\<close>,
    \<open>src/kernels/registry.cpp\<close>, two kernel texts executed symbolically, \<open>src/k4/ter_k4.cpp\<close>.
  \<^item> \<open>TerCache\<close>, \<open>TerReuse\<close>: \<open>v2/src/layer1/cache.cpp\<close>; the strict LRU promise is stated by
    reuse distances and the cache is shown to implement it.
  \<^item> \<open>TerBranch\<close>, \<open>TerPipeline\<close>: \<open>v2/src/layer1/bp.cpp\<close>, \<open>pipeline.cpp\<close>; the predictor and the
    in-order pipeline that charges every retired instruction with its hazards. \<open>TerHazard\<close>: what an
    instruction reads and writes, by what \<open>Sim::run_one\<close> does with two states that differ in one
    register, and the operand table of the pipeline against it. \<open>TerTrace\<close>: the
    tracer of \<open>v2/src/harness/tersim_main.cpp\<close> that feeds them, and the proof that a traced run
    computes what the untraced one does.
  \<^item> \<open>TerFloat\<close>: IEEE binary16, binary32 and binary64 as exact rationals rounded to nearest even, with the C
    library as a parameter. \<open>TerNumfmt\<close>: \<open>numfmt.hpp\<close>, \<open>quantize.cpp\<close>, \<open>dequantize.cpp\<close>,
    \<open>tfloat.hpp\<close>, \<open>bitnet.hpp\<close>.
  \<^item> \<open>TerHost\<close>, \<open>TerForward\<close>, \<open>TerTransformer\<close>: \<open>src/tx/forward.cpp\<close>, \<open>layer.cpp\<close>,
    \<open>lut_setup.cpp\<close>, \<open>transformer.cpp\<close> and their headers. A vector is a list; an access beyond it
    is undefined behaviour in C++ and an error value here. The mutable arguments of a function
    (simulator, cache, per-token state) form the state of its computation.
  \<^item> \<open>TerMatmul\<close>, \<open>TerTotal\<close>, \<open>TerLayer\<close>, \<open>TerToken\<close>: the integer product is exact, and on well-sized
    inputs every host routine, a layer and a whole pass return without an error.
    \<open>TerCausal\<close>: a layer does not depend on the cache rows after its position.
  \<^item> \<open>TerGguf\<close>, \<open>TerLoad\<close>, \<open>TerHalf\<close>: \<open>src/tx/load_gguf.cpp\<close>, the loaders of
    \<open>src/tx/transformer.cpp\<close>, \<open>vendor/ntransformer/core/dequant.cpp\<close>: every tensor type is
    dequantised block by block, transposed and turned into trit tensors; a half is decoded bit by bit.
  \<^item> \<open>TerRound\<close>, \<open>TerEnergy\<close>: rounding keeps order and finiteness; \<open>v2/src/layer3/asic_energy.cpp\<close> and
    \<open>v2/src/layer1_gpu/gpu_model.cpp\<close>, the energy of a chip and the roofline of a GPU in binary64.
  \<^item> \<open>TerText\<close>, \<open>TerArgs\<close>, \<open>TerReport\<close>, \<open>TerHarness\<close>: decimal and JSON text, the command line,
    the reports and the three workloads of \<open>v2/src/harness/tersim_main.cpp\<close>.
  \<^item> \<open>TerCuda\<close>, \<open>TerPacked\<close>: \<open>cuda/ter_cuda_packed.cu\<close> and \<open>_v2\<close> to \<open>_v6\<close>: codes, layouts, loads,
    shared memory, shuffles and launches, and the thirteen kernels built from them.
    \<open>TerProduct\<close>, \<open>TerWarp\<close>: each kernel computes the integer products. The two byte layouts are
    interpretations of the locale \<open>packed_layout\<close>.
  \<^item> \<open>TerVariants\<close>, \<open>TerBatched\<close>: \<open>cuda/ter_cuda_bitnet_addonly.cu\<close>, \<open>_addonly_batched.cu\<close>,
    \<open>_packed_batched.cu\<close>, \<open>_forward_packed_v13_lut.cu\<close> and \<open>_v13_cpasync.cu\<close>: additions instead of
    products, unpacking by a table, staged activations, several tokens at once. \<open>TerTensor\<close>:
    \<open>_v13_int4tc.cu\<close>, nibbles and the \<open>mma.m8n8k32\<close> instruction on the fragments of a warp.
  \<^item> \<open>TerDevice\<close>: \<open>cuda/ter_cuda_forward_packed.cu\<close>, the kernels of a decoder on the GPU, its
    buffers, the forward pass and the greedy loop. \<open>TerDeviceFacts\<close>: launches that stay in their
    buffers; tree reductions as the locale \<open>reduction\<close>, interpreted by the maximum and the arg max.
    \<open>TerDeviceTotal\<close>: every stage of the forward pass returns on buffers of the allocated sizes and
    writes one row of each cache.
  \<^item> \<open>TerCoreProps\<close>, \<open>TerKernelProps\<close>, \<open>TerSimProps\<close>, \<open>TerHostProps\<close>, \<open>TerHarnessProps\<close>,
    \<open>TerCudaProps\<close>, \<open>TerBatchProps\<close>, \<open>TerTensorProps\<close>, \<open>TerDeviceProps\<close>: the properties, each with a concrete instance.

  Bounds. The only fuel is that of \<open>Sim::run\<close>, whose loop is bounded by 1000000 steps in the
  source; running out of it is the safety-limit error of the program. Memory sizes in
  hypotheses (at most \<open>2^31\<close> or \<open>2^63\<close> words) keep addresses inside the integers of the source.
  The bound of 400000 on the rows of a product keeps its sums inside \<open>int64_t\<close> for every weight;
  that of \<open>2^23\<close> rows keeps the sums of the CUDA kernels inside \<open>int\<close>. The element sizes 880 and 64
  of the vectors that the loaders reserve are those of x86-64.

  Parameters. The files of the kernel registry and of the look-up tables are functions from names
  to contents; \<open>exp\<close>, \<open>log\<close>, \<open>pow\<close>, \<open>sin\<close>, \<open>cos\<close>, \<open>sqrt\<close> and \<open>lround\<close> outside its range are
  the fields of \<open>libm\<close>, and the functions of the CUDA mathematics library those of \<open>cuda_math\<close>.
  The vendored GGUF reader is a record of its answers; the clock, the random stream of the
  synthetic workload and the formatting of a double in a report are arguments. The layers are
  run without the tracer, so the cycle and cache numbers of the forward and generation reports are
  arguments too. The races of a CUDA launch are given by \<open>sched\<close>, one for every launch: which warps
  read the shared scale before it is written and what they see then, which threads read a sum of squares
  that is already overwritten, and in which order the outputs of an attention head replace the scores
  that lie in their cells. No property of the decoder assumes a particular \<open>sched\<close>. Undefined
  behaviour, such as an access beyond a buffer, is an error value.

  Not modelled: the CUDA decoders for other weight formats, products through cuBLAS and larger mma
  fragments, and benchmarks; the weight file, random weights and graph capture of the CUDA decoder; the
  vendored GGUF parser, tokenizer and sampling with a temperature; usage text and progress
  messages; running out of memory; contraction of floating-point operations; overflow of the
  index arithmetic of CUDA kernels.
\<close>

end
